(* ===== verification/Sys_Prelude.thy ===== *)
theory Sys_Prelude
  imports Main "HOL-Library.Word"
begin

text \<open>
  Shared vocabulary of the development: machine words, the named collections of simplification
  rules, and the generic facts on lists, counting and words that several components use.

  C conventions used throughout.  \<open>uint8_t\<close> to \<open>uint64_t\<close> are words of that width, with C's
  wrap-around arithmetic.  The i386 build is the one modelled, so \<open>uintptr_t\<close> is 32 bits wide.
  A C string is the \<^typ>\<open>string\<close> of the characters before its terminating NUL, a pointer that may
  be null is an \<open>option\<close>, and an out-parameter is a component of the result.
\<close>

unbundle bit_operations_syntax

type_synonym u8 = "8 word"
type_synonym u16 = "16 word"
type_synonym u32 = "32 word"
type_synonym u64 = "64 word"

subsection \<open>Counting the members of an index range\<close>

lemma finite_index [simp]: "finite {j. j < (n::nat) \<and> P j}"
  by (rule finite_subset [of _ "{..<n}"]) auto

lemma card_filter_upd_True:
  fixes n :: nat
  assumes "i < n" "\<not> f i"
  shows "card {j. j < n \<and> (f(i := True)) j} = Suc (card {j. j < n \<and> f j})"
proof -
  have "{j. j < n \<and> (f(i := True)) j} = insert i {j. j < n \<and> f j}"
    using assms by auto
  then show ?thesis using assms by (simp del: fun_upd_apply)
qed

lemma card_filter_upd_False:
  fixes n :: nat
  assumes "i < n" "f i"
  shows "Suc (card {j. j < n \<and> (f(i := False)) j}) = card {j. j < n \<and> f j}"
proof -
  have "card {j. j < n \<and> ((f(i := False))(i := True)) j} = Suc (card {j. j < n \<and> (f(i := False)) j})"
    by (rule card_filter_upd_True) (use assms in auto)
  moreover have "(f(i := False))(i := True) = f" using assms by (auto simp: fun_upd_idem)
  ultimately show ?thesis by metis
qed

lemma card_index_le: "card {j. j < n \<and> P j} \<le> (n::nat)"
proof -
  have "card {j. j < n \<and> P j} \<le> card {..<n}" by (rule card_mono) auto
  then show ?thesis by simp
qed

lemma card_index_split: "card {j. j < n \<and> P j} + card {j. j < n \<and> \<not> P j} = (n::nat)"
proof -
  have "{j. j < n \<and> P j} \<union> {j. j < n \<and> \<not> P j} = {..<n}" by auto
  then show ?thesis
    by (subst card_Un_disjoint [symmetric]) auto
qed

subsection \<open>Words\<close>

lemma unat_add_no_wrap:
  fixes a b :: "'a::len word"
  assumes "unat a + unat b < 2 ^ LENGTH('a)"
  shows "unat (a + b) = unat a + unat b"
  using assms by (simp add: unat_word_ariths)

lemma and_not_mask_unat:
  fixes x :: "'a::len word"
  shows "unat (x AND NOT (mask n)) = unat x div 2 ^ n * 2 ^ n"
proof -
  have "x AND NOT (mask n) = x - take_bit n x"
  proof -
    have "NOT x AND take_bit n x = 0" by (rule bit_eqI) (auto simp: bit_simps)
    then have "x - take_bit n x = x AND NOT (take_bit n x)"
      by (simp add: disjunctive_diff_eq_and_not)
    also have "\<dots> = x AND NOT (mask n)" by (rule bit_eqI) (auto simp: bit_simps)
    finally show ?thesis by simp
  qed
  moreover have "unat (take_bit n x) = unat x mod 2 ^ n"
    by (simp only: unsigned_take_bit_eq) (simp only: take_bit_eq_mod)
  moreover from this have "take_bit n x \<le> x"
    by (simp add: word_le_nat_alt)
  ultimately have "unat (x AND NOT (mask n)) = unat x - unat x mod 2 ^ n"
    by (simp add: unat_sub)
  then show ?thesis by (simp add: minus_mod_eq_div_mult)
qed

lemma unat_u32_less: "unat (w :: u32) < 2 ^ 32"
proof -
  have "unat w < 2 ^ LENGTH(32)" by (rule unsigned_less)
  then show ?thesis by simp
qed

lemma unat_of_nat_u32: "n < 2 ^ 32 \<Longrightarrow> unat (of_nat n :: u32) = n"
  by (simp add: unsigned_of_nat take_bit_nat_eq_self)

lemma sint_of_nat_u32: "n < 2 ^ 31 \<Longrightarrow> sint (of_nat n :: u32) = int n"
  by (simp add: signed_of_nat signed_take_bit_int_eq_self)

lemma fold_max_eq: "fold (\<lambda>b l. max l (f b)) ys l = Max (insert l (f ` set ys))"
  for f :: "'a \<Rightarrow> 'b :: linorder"
proof (induction ys arbitrary: l)
  case (Cons a ys)
  then show ?case by (cases "ys = []") (simp_all add: max.assoc)
qed simp

subsection \<open>Port input and output\<close>

text \<open>The two port instructions over a device state (the inline assembly of \<open>inb\<close> and \<open>outb\<close> in the PC drivers).\<close>

record 'd port_io =
  port_inb :: "u16 \<Rightarrow> 'd \<Rightarrow> u8 \<times> 'd"
  port_outb :: "u16 \<Rightarrow> u8 \<Rightarrow> 'd \<Rightarrow> 'd"

subsection \<open>Keys\<close>

text \<open>The keys of \<open>src/src/kernel/core/input/input.h\<close>; a smaller positive number is a character.\<close>

abbreviation "KEY_NONE \<equiv> 0 :: int"
abbreviation "KEY_LEFT \<equiv> 0x80 :: int"
abbreviation "KEY_RIGHT \<equiv> 0x81 :: int"
abbreviation "KEY_INSERT \<equiv> 0x82 :: int"
abbreviation "KEY_DELETE \<equiv> 0x83 :: int"
abbreviation "KEY_UP \<equiv> 0x84 :: int"
abbreviation "KEY_DOWN \<equiv> 0x85 :: int"
abbreviation "KEY_CTRL_ALT_DEL \<equiv> 0x86 :: int"

lemma sorted_wrt_cong_set:
  "(\<And>x y. x \<in> set xs \<Longrightarrow> y \<in> set xs \<Longrightarrow> P x y = Q x y) \<Longrightarrow> sorted_wrt P xs = sorted_wrt Q xs"
  by (induction xs) auto

lemma sorted_wrt_remove1: "sorted_wrt P xs \<Longrightarrow> sorted_wrt P (remove1 x xs)"
  using set_remove1_subset by (induction xs) fastforce+

end
