(* ===== verification/Mm_Pages.thy ===== *)
theory Mm_Pages
  imports Sys_Prelude
begin

text \<open>
  The physical page allocator of \<open>src/src/kernel/core/mm/mm_core.c\<close>: the page map
  \<open>g_page_used\<close>, its counters, the range marking used at boot and the first-fit run search of
  \<open>mm_alloc_pages\<close>.  The record also holds the heap globals, whose operations are in
  \<open>Mm_Heap\<close>.

  The array \<open>g_page_used[MM_MAX_PAGES]\<close> is a function on page numbers.  Every access of the code
  is guarded by \<open>MM_MAX_PAGES\<close>, and so is every access of the model.  Page numbers and loop
  counters never exceed \<open>MM_MAX_PAGES\<close>, so they are natural numbers; addresses, sizes and the
  page counters are 32-bit words.
\<close>

subsection \<open>State\<close>

abbreviation MM_PAGE_SIZE :: u32 where "MM_PAGE_SIZE \<equiv> 4096"
abbreviation MM_LOW_MEMORY_LIMIT :: u32 where "MM_LOW_MEMORY_LIMIT \<equiv> 0x00100000"
abbreviation MM_MAX_PAGES :: nat where "MM_MAX_PAGES \<equiv> 16384"

text \<open>A heap block header as it lies in memory; null pointers are address 0.\<close>

record heap_block =
  block_size :: u32
  block_free :: bool
  block_next :: u32
  block_prev :: u32

record mm_state =
  g_page_used :: "nat \<Rightarrow> bool"
  g_total_pages :: u32
  g_used_pages :: u32
  g_initialized :: bool
  g_heap_head :: u32
  g_heap_tail :: u32
  g_heap_total_bytes :: u32
  heap_mem :: "u32 \<Rightarrow> heap_block"

subsection \<open>Alignment\<close>

definition mm_align_up_u32 :: "u32 \<Rightarrow> u32 \<Rightarrow> u32" where
  "mm_align_up_u32 value align = (value + align - 1) AND NOT (align - 1)"

definition mm_align_down_u32 :: "u32 \<Rightarrow> u32 \<Rightarrow> u32" where
  "mm_align_down_u32 value align = value AND NOT (align - 1)"

text \<open>On i386 \<open>sizeof(uintptr_t)\<close> is 4.\<close>

definition mm_align_alloc_size :: "u32 \<Rightarrow> u32" where
  "mm_align_alloc_size sz = mm_align_up_u32 sz 4"

definition mm_mb2_align8 :: "u32 \<Rightarrow> u32" where
  "mm_mb2_align8 value = (value + 7) AND NOT 7"

text \<open>\<open>paging_identity_limit\<close> forwards to \<open>paging_core_identity_limit\<close> of the x86 paging layer.\<close>

definition paging_core_identity_limit :: u32 where
  "paging_core_identity_limit = 0x04000000"

subsection \<open>The page map\<close>

definition mm_clear_pages :: "mm_state \<Rightarrow> mm_state" where
  "mm_clear_pages s =
     s\<lparr>g_page_used := (\<lambda>i. if i < MM_MAX_PAGES then True else g_page_used s i),
       g_total_pages := 0,
       g_used_pages := of_nat MM_MAX_PAGES\<rparr>"

definition mm_set_page_used :: "nat \<Rightarrow> bool \<Rightarrow> mm_state \<Rightarrow> mm_state" where
  "mm_set_page_used page used s =
     (if page \<ge> MM_MAX_PAGES then s
      else if g_page_used s page = used then s
      else
        let s1 = s\<lparr>g_page_used := (g_page_used s)(page := used)\<rparr>
        in if used then s1\<lparr>g_used_pages := g_used_pages s1 + 1\<rparr>
           else s1\<lparr>g_used_pages := g_used_pages s1 - 1\<rparr>)"

text \<open>
  The loop of \<open>mm_mark_range_free\<close> and \<open>mm_mark_range_used\<close>.  Its bound is clamped to the
  identity limit of 64 MiB before the loop, so \<open>addr += MM_PAGE_SIZE\<close> cannot wrap.
\<close>

function mm_mark_loop :: "nat \<Rightarrow> nat \<Rightarrow> bool \<Rightarrow> mm_state \<Rightarrow> mm_state" where
  "mm_mark_loop addr end_addr used s =
     (if addr < end_addr
      then mm_mark_loop (addr + 4096) end_addr used (mm_set_page_used (addr div 4096) used s)
      else s)"
  by pat_completeness auto
termination
  by (relation "measure (\<lambda>(addr, end_addr, used, s). end_addr - addr)") auto

declare mm_mark_loop.simps [simp del]

definition mm_mark_range_free :: "u32 \<Rightarrow> u32 \<Rightarrow> mm_state \<Rightarrow> mm_state" where
  "mm_mark_range_free start end_addr s =
     (let limit = paging_core_identity_limit in
      if start \<ge> limit then s
      else
        let end1 = (if end_addr > limit then limit else end_addr);
            start2 = mm_align_up_u32 start MM_PAGE_SIZE;
            end2 = mm_align_down_u32 end1 MM_PAGE_SIZE
        in if start2 \<ge> end2 then s
           else mm_mark_loop (unat start2) (unat end2) False s)"

definition mm_mark_range_used :: "u32 \<Rightarrow> u32 \<Rightarrow> mm_state \<Rightarrow> mm_state" where
  "mm_mark_range_used start end_addr s =
     (let limit = paging_core_identity_limit in
      if start \<ge> limit then s
      else
        let end1 = (if end_addr > limit then limit else end_addr);
            start2 = mm_align_down_u32 start MM_PAGE_SIZE;
            end2 = mm_align_up_u32 end1 MM_PAGE_SIZE
        in if start2 \<ge> end2 then s
           else mm_mark_loop (unat start2) (unat end2) True s)"

definition mm_count_total_pages :: "mm_state \<Rightarrow> mm_state" where
  "mm_count_total_pages s =
     s\<lparr>g_total_pages :=
        of_nat (length (filter (\<lambda>i. \<not> g_page_used s i) [0..<MM_MAX_PAGES])) + g_used_pages s\<rparr>"

subsection \<open>Allocating and freeing runs of pages\<close>

text \<open>The search loop: \<open>run\<close> free pages end just before page \<open>i\<close>, the first of them \<open>start\<close>.\<close>

function mm_alloc_scan :: "(nat \<Rightarrow> bool) \<Rightarrow> nat \<Rightarrow> nat \<Rightarrow> nat \<Rightarrow> nat \<Rightarrow> nat option" where
  "mm_alloc_scan used count run start i =
     (if i < MM_MAX_PAGES
      then if \<not> used i
        then
          let start1 = (if run = 0 then i else start); run1 = run + 1
          in if run1 = count then Some start1 else mm_alloc_scan used count run1 start1 (i + 1)
        else mm_alloc_scan used count 0 start (i + 1)
      else None)"
  by pat_completeness auto
termination
  by (relation "measure (\<lambda>(used, count, run, start, i). MM_MAX_PAGES - i)") auto

declare mm_alloc_scan.simps [simp del]

definition mm_alloc_pages :: "u32 \<Rightarrow> mm_state \<Rightarrow> u32 \<times> mm_state" where
  "mm_alloc_pages count s =
     (if count = 0 then (0, s)
      else case mm_alloc_scan (g_page_used s) (unat count) 0 0 0 of
        None \<Rightarrow> (0, s)
      | Some start \<Rightarrow>
          (of_nat start * MM_PAGE_SIZE,
           fold (\<lambda>j. mm_set_page_used (start + j) True) [0..<unat count] s))"

text \<open>
  The loop of \<open>mm_free_pages\<close> stops at the first page beyond the map, so it is the loop over the
  counts that stay inside it.
\<close>

definition mm_free_pages :: "u32 \<Rightarrow> u32 \<Rightarrow> mm_state \<Rightarrow> mm_state" where
  "mm_free_pages ptr count s =
     (if ptr = 0 \<or> count = 0 \<or> (ptr AND (MM_PAGE_SIZE - 1)) \<noteq> 0 then s
      else
        let page = unat ptr div 4096
        in fold (\<lambda>i. mm_set_page_used (page + i) False)
             [0..<min (unat count) (MM_MAX_PAGES - page)] s)"

definition mm_core_alloc_page :: "mm_state \<Rightarrow> u32 \<times> mm_state" where
  "mm_core_alloc_page s = (if \<not> g_initialized s then (0, s) else mm_alloc_pages 1 s)"

definition mm_core_free_page :: "u32 \<Rightarrow> mm_state \<Rightarrow> mm_state" where
  "mm_core_free_page page s = (if \<not> g_initialized s then s else mm_free_pages page 1 s)"

text \<open>A small state for examples: pages 0 and 1 used, an empty heap.\<close>

definition mm_example :: mm_state where
  "mm_example =
     \<lparr>g_page_used = (\<lambda>i. i < 2), g_total_pages = of_nat MM_MAX_PAGES, g_used_pages = 2,
      g_initialized = True, g_heap_head = 0, g_heap_tail = 0, g_heap_total_bytes = 0,
      heap_mem = (\<lambda>_. \<lparr>block_size = 0, block_free = False, block_next = 0, block_prev = 0\<rparr>)\<rparr>"

subsection \<open>What the marking operations do to the page map\<close>

text \<open>The counter of used pages agrees with the page map.\<close>

definition page_accounting :: "mm_state \<Rightarrow> bool" where
  "page_accounting s \<longleftrightarrow> unat (g_used_pages s) = card {j. j < MM_MAX_PAGES \<and> g_page_used s j}"

lemma g_page_used_set_page_used [simp]:
  "g_page_used (mm_set_page_used p u s) =
     (if p < MM_MAX_PAGES then (g_page_used s)(p := u) else g_page_used s)"
  by (auto simp: mm_set_page_used_def Let_def fun_upd_idem)

lemma set_page_used_frame [simp]:
  "g_total_pages (mm_set_page_used p u s) = g_total_pages s"
  "g_initialized (mm_set_page_used p u s) = g_initialized s"
  "g_heap_head (mm_set_page_used p u s) = g_heap_head s"
  "g_heap_tail (mm_set_page_used p u s) = g_heap_tail s"
  "g_heap_total_bytes (mm_set_page_used p u s) = g_heap_total_bytes s"
  "heap_mem (mm_set_page_used p u s) = heap_mem s"
  by (simp_all add: mm_set_page_used_def Let_def)

lemma page_accounting_set_page_used:
  assumes "page_accounting s"
  shows "page_accounting (mm_set_page_used p u s)"
proof (cases "p < MM_MAX_PAGES \<and> g_page_used s p \<noteq> u")
  case False
  with assms show ?thesis by (auto simp: mm_set_page_used_def)
next
  case True
  let ?n = "card {j. j < MM_MAX_PAGES \<and> g_page_used s j}"
  have n: "unat (g_used_pages s) = ?n" using assms by (simp add: page_accounting_def)
  have le: "card {j. j < MM_MAX_PAGES \<and> f j} \<le> MM_MAX_PAGES" for f
    by (rule card_index_le)
  show ?thesis
  proof (cases u)
    case u: True
    have c: "card {j. j < MM_MAX_PAGES \<and> ((g_page_used s)(p := True)) j} = Suc ?n"
      by (rule card_filter_upd_True) (use True u in auto)
    have "unat (g_used_pages s + 1) = Suc ?n"
      using le [of "(g_page_used s)(p := True)"] n c by (subst unat_add_no_wrap) auto
    with c True u show ?thesis
      by (simp add: page_accounting_def mm_set_page_used_def Let_def del: fun_upd_apply)
  next
    case u: False
    have c: "Suc (card {j. j < MM_MAX_PAGES \<and> ((g_page_used s)(p := False)) j}) = ?n"
      by (rule card_filter_upd_False) (use True u in auto)
    have "g_used_pages s \<noteq> 0" using n c by (metis unat_0 nat.distinct(1))
    then have "Suc (unat (g_used_pages s - 1)) = ?n" by (simp add: unat_minus_one n c [symmetric])
    with c True u show ?thesis
      by (simp add: page_accounting_def mm_set_page_used_def Let_def del: fun_upd_apply)
  qed
qed

lemma page_accounting_fold:
  "page_accounting s \<Longrightarrow> page_accounting (fold (\<lambda>j. mm_set_page_used (b + j) u) js s)"
  by (induction js arbitrary: s) (auto intro: page_accounting_set_page_used)

lemma fold_set_page_used_frame [simp]:
  "g_total_pages (fold (\<lambda>j. mm_set_page_used (b + j) u) js s) = g_total_pages s"
  "g_initialized (fold (\<lambda>j. mm_set_page_used (b + j) u) js s) = g_initialized s"
  "g_heap_head (fold (\<lambda>j. mm_set_page_used (b + j) u) js s) = g_heap_head s"
  "g_heap_tail (fold (\<lambda>j. mm_set_page_used (b + j) u) js s) = g_heap_tail s"
  "g_heap_total_bytes (fold (\<lambda>j. mm_set_page_used (b + j) u) js s) = g_heap_total_bytes s"
  "heap_mem (fold (\<lambda>j. mm_set_page_used (b + j) u) js s) = heap_mem s"
  by (induction js arbitrary: s; simp)+

lemma fold_set_page_used:
  "g_page_used (fold (\<lambda>j. mm_set_page_used (b + j) u) [0..<n] s) i =
     (if b \<le> i \<and> i < b + n \<and> i < MM_MAX_PAGES then u else g_page_used s i)"
  by (induction n) (auto simp: less_Suc_eq)

lemma mark_loop_frame [simp]:
  "g_total_pages (mm_mark_loop a e u s) = g_total_pages s"
  "g_initialized (mm_mark_loop a e u s) = g_initialized s"
  "g_heap_head (mm_mark_loop a e u s) = g_heap_head s"
  "g_heap_tail (mm_mark_loop a e u s) = g_heap_tail s"
  "g_heap_total_bytes (mm_mark_loop a e u s) = g_heap_total_bytes s"
  "heap_mem (mm_mark_loop a e u s) = heap_mem s"
  by (induction a e u s rule: mm_mark_loop.induct; subst mm_mark_loop.simps; simp)+

lemma page_accounting_mark_loop:
  "page_accounting s \<Longrightarrow> page_accounting (mm_mark_loop a e u s)"
  by (induction a e u s rule: mm_mark_loop.induct)
    (subst mm_mark_loop.simps, simp add: page_accounting_set_page_used)

lemma mark_loop_page_used:
  "g_page_used (mm_mark_loop (4096 * k) e u s) i =
     (if k \<le> i \<and> 4096 * i < e \<and> i < MM_MAX_PAGES then u else g_page_used s i)"
proof (induction "e - 4096 * k" arbitrary: k s rule: less_induct)
  case less
  show ?case
  proof (cases "4096 * k < e")
    case False
    then show ?thesis by (subst mm_mark_loop.simps) auto
  next
    case True
    have "mm_mark_loop (4096 * k) e u s = mm_mark_loop (4096 * Suc k) e u (mm_set_page_used k u s)"
      using True by (subst mm_mark_loop.simps) (simp add: add.commute)
    moreover have "e - 4096 * Suc k < e - 4096 * k" using True by simp
    ultimately show ?thesis using less.hyps [of "Suc k" "mm_set_page_used k u s"] True
      by (auto simp: le_Suc_eq Suc_le_eq nat_less_le)
  qed
qed

subsection \<open>Alignment and range marking, on numbers\<close>

lemma page_mask: "(4095 :: u32) = mask 12" "(3 :: u32) = mask 2" "(7 :: u32) = mask 3"
  by (simp_all add: mask_eq_exp_minus_1)

lemma page_floor_less: "(4096 * i < m div 4096 * 4096) = (4096 * i + 4096 \<le> (m::nat))"
proof -
  have "(4096 * i < m div 4096 * 4096) = (Suc i \<le> m div 4096)" by auto
  also have "\<dots> = (Suc i * 4096 \<le> m)" by (rule less_eq_div_iff_mult_less_eq) simp
  finally show ?thesis by (simp add: algebra_simps)
qed

lemma page_ceil_less: "(4096 * i < (m + 4095) div 4096 * 4096) = (4096 * i < (m::nat))"
  unfolding page_floor_less by auto

lemma unat_align_down: "unat (mm_align_down_u32 v 4096) = unat v div 4096 * 4096"
  using and_not_mask_unat [of v 12] by (simp add: mm_align_down_u32_def page_mask)

lemma unat_align_up:
  assumes "unat v + 4095 < 2 ^ 32"
  shows "unat (mm_align_up_u32 v 4096) = (unat v + 4095) div 4096 * 4096"
proof -
  have "unat (v + 4095) = unat v + 4095"
    using assms by (subst unat_add_no_wrap) auto
  then show ?thesis
    using and_not_mask_unat [of "v + 4095" 12] by (simp add: mm_align_up_u32_def page_mask add_diff_eq [symmetric])
qed

lemma unat_align_alloc:
  assumes "unat v + 3 < 2 ^ 32"
  shows "unat (mm_align_alloc_size v) = (unat v + 3) div 4 * 4"
proof -
  have "unat (v + 3) = unat v + 3"
    using assms by (subst unat_add_no_wrap) auto
  then show ?thesis
    using and_not_mask_unat [of "v + 3" 2]
    by (simp add: mm_align_alloc_size_def mm_align_up_u32_def page_mask add_diff_eq [symmetric])
qed

text \<open>
  Freeing a range frees exactly the pages that lie completely inside it (and below the identity
  limit); reserving one reserves exactly the pages it touches.
\<close>

lemma mark_range_free_page_used:
  "g_page_used (mm_mark_range_free start e s) i \<longleftrightarrow>
     g_page_used s i \<and>
     \<not> (i < MM_MAX_PAGES \<and> unat start \<le> 4096 * i \<and> 4096 * i + 4096 \<le> unat e)"
proof -
  let ?e1 = "if e > 0x04000000 then 0x04000000 else e"
  have e1: "unat ?e1 = min 0x04000000 (unat e)"
    by (auto simp: word_less_nat_alt)
  show ?thesis
  proof (cases "start < 0x04000000")
    case False
    then have "0x04000000 \<le> unat start" by (simp add: word_less_nat_alt)
    with False show ?thesis
      by (auto simp: mm_mark_range_free_def paging_core_identity_limit_def)
  next
    case True
    then have st: "unat start < 0x04000000" by (simp add: word_less_nat_alt)
    let ?s2 = "mm_align_up_u32 start 4096" and ?e2 = "mm_align_down_u32 ?e1 4096"
    define k where "k = (unat start + 4095) div 4096"
    have s2: "unat ?s2 = 4096 * k" using st by (subst unat_align_up) (auto simp: k_def)
    have e2: "unat ?e2 = min 0x04000000 (unat e) div 4096 * 4096"
      by (simp add: unat_align_down e1)
    have k_le: "k \<le> i \<longleftrightarrow> unat start \<le> 4096 * i" unfolding k_def by linarith
    have e_le: "4096 * i < unat ?e2 \<longleftrightarrow> 4096 * i + 4096 \<le> min 0x04000000 (unat e)"
      unfolding e2 by (rule page_floor_less)
    show ?thesis
    proof (cases "?s2 < ?e2")
      case le: True
      have "mm_mark_range_free start e s = mm_mark_loop (4096 * k) (unat ?e2) False s"
        using True le s2 by (simp add: mm_mark_range_free_def paging_core_identity_limit_def Let_def not_le)
      then show ?thesis using k_le e_le by (auto simp: mark_loop_page_used)
    next
      case ge: False
      then have "unat ?e2 \<le> 4096 * k" using s2 by (simp add: word_less_nat_alt)
      then have "\<not> (k \<le> i \<and> 4096 * i < unat ?e2)" by auto
      moreover have "mm_mark_range_free start e s = s"
        using True ge by (simp add: mm_mark_range_free_def paging_core_identity_limit_def Let_def not_less)
      ultimately show ?thesis using k_le e_le by auto
    qed
  qed
qed

lemma mark_range_used_page_used:
  "g_page_used (mm_mark_range_used start e s) i \<longleftrightarrow>
     g_page_used s i \<or>
     (i < MM_MAX_PAGES \<and> unat start < 4096 * i + 4096 \<and> 4096 * i < unat e)"
proof -
  let ?e1 = "if e > 0x04000000 then 0x04000000 else e"
  have e1: "unat ?e1 = min 0x04000000 (unat e)"
    by (auto simp: word_less_nat_alt)
  show ?thesis
  proof (cases "start < 0x04000000")
    case False
    then have "0x04000000 \<le> unat start" by (simp add: word_less_nat_alt)
    with False show ?thesis
      by (auto simp: mm_mark_range_used_def paging_core_identity_limit_def)
  next
    case True
    then have st: "unat start < 0x04000000" by (simp add: word_less_nat_alt)
    let ?s2 = "mm_align_down_u32 start 4096" and ?e2 = "mm_align_up_u32 ?e1 4096"
    define k where "k = unat start div 4096"
    have s2: "unat ?s2 = 4096 * k" by (simp add: unat_align_down k_def)
    have e2: "unat ?e2 = (min 0x04000000 (unat e) + 4095) div 4096 * 4096"
      by (subst unat_align_up) (auto simp: e1)
    have e_le: "4096 * i < unat ?e2 \<longleftrightarrow> 4096 * i < min 0x04000000 (unat e)"
      unfolding e2 by (rule page_ceil_less)
    have k_le: "k \<le> i \<longleftrightarrow> unat start < 4096 * i + 4096" unfolding k_def by linarith
    show ?thesis
    proof (cases "?s2 < ?e2")
      case le: True
      have "mm_mark_range_used start e s = mm_mark_loop (4096 * k) (unat ?e2) True s"
        using True le s2 by (simp add: mm_mark_range_used_def paging_core_identity_limit_def Let_def not_le)
      then show ?thesis by (auto simp: mark_loop_page_used k_le e_le)
    next
      case ge: False
      then have "unat ?e2 \<le> 4096 * k" using s2 by (simp add: word_less_nat_alt)
      then have "\<not> (k \<le> i \<and> 4096 * i < unat ?e2)" by auto
      moreover have "mm_mark_range_used start e s = s"
        using True ge by (simp add: mm_mark_range_used_def paging_core_identity_limit_def Let_def not_less)
      ultimately show ?thesis using k_le e_le by auto
    qed
  qed
qed

lemma mark_range_frame [simp]:
  "g_total_pages (mm_mark_range_free a e s) = g_total_pages s"
  "g_initialized (mm_mark_range_free a e s) = g_initialized s"
  "g_heap_head (mm_mark_range_free a e s) = g_heap_head s"
  "g_heap_tail (mm_mark_range_free a e s) = g_heap_tail s"
  "g_heap_total_bytes (mm_mark_range_free a e s) = g_heap_total_bytes s"
  "heap_mem (mm_mark_range_free a e s) = heap_mem s"
  "g_total_pages (mm_mark_range_used a e s) = g_total_pages s"
  "g_initialized (mm_mark_range_used a e s) = g_initialized s"
  "g_heap_head (mm_mark_range_used a e s) = g_heap_head s"
  "g_heap_tail (mm_mark_range_used a e s) = g_heap_tail s"
  "g_heap_total_bytes (mm_mark_range_used a e s) = g_heap_total_bytes s"
  "heap_mem (mm_mark_range_used a e s) = heap_mem s"
  by (simp_all add: mm_mark_range_free_def mm_mark_range_used_def Let_def)

lemma page_accounting_mark_range:
  "page_accounting s \<Longrightarrow> page_accounting (mm_mark_range_free a e s)"
  "page_accounting s \<Longrightarrow> page_accounting (mm_mark_range_used a e s)"
  by (simp_all add: mm_mark_range_free_def mm_mark_range_used_def Let_def page_accounting_mark_loop)

lemma page_accounting_clear: "page_accounting (mm_clear_pages s)"
proof -
  have "{j. j < MM_MAX_PAGES \<and> (j < MM_MAX_PAGES \<or> P j)} = {..<MM_MAX_PAGES}" for P by auto
  then show ?thesis by (simp add: page_accounting_def mm_clear_pages_def)
qed

subsection \<open>First fit\<close>

text \<open>A run of \<open>count\<close> free pages starts at \<open>st\<close>.\<close>

definition free_run :: "(nat \<Rightarrow> bool) \<Rightarrow> nat \<Rightarrow> nat \<Rightarrow> bool" where
  "free_run used count st \<longleftrightarrow> st + count \<le> MM_MAX_PAGES \<and> (\<forall>j<count. \<not> used (st + j))"

text \<open>What the search loop knows when it looks at page \<open>i\<close>.\<close>

definition scan_inv :: "(nat \<Rightarrow> bool) \<Rightarrow> nat \<Rightarrow> nat \<Rightarrow> nat \<Rightarrow> nat \<Rightarrow> bool" where
  "scan_inv used count run start i \<longleftrightarrow>
     run < count \<and> run \<le> i \<and> i \<le> MM_MAX_PAGES \<and>
     (run \<noteq> 0 \<longrightarrow> start = i - run) \<and>
     (\<forall>j. i - run \<le> j \<and> j < i \<longrightarrow> \<not> used j) \<and>
     (\<forall>st < i - run. \<not> free_run used count st)"

lemma scan_inv_used:
  assumes "scan_inv used count run start i" "i < MM_MAX_PAGES" "used i"
  shows "scan_inv used count 0 start (i + 1)"
proof -
  have "\<not> free_run used count st" if "st < i + 1" for st
  proof (cases "st < i - run")
    case True
    then show ?thesis using assms(1) by (simp add: scan_inv_def)
  next
    case False
    then have "i = st + (i - st)" "i - st < count"
      using that assms(1) by (auto simp: scan_inv_def)
    with assms(3) show ?thesis unfolding free_run_def by metis
  qed
  then show ?thesis using assms by (auto simp: scan_inv_def)
qed

lemma mm_alloc_scan_spec:
  assumes "scan_inv used count run start i"
  shows "case mm_alloc_scan used count run start i of
      Some st \<Rightarrow> free_run used count st \<and> (\<forall>st' < st. \<not> free_run used count st')
    | None \<Rightarrow> \<forall>st. \<not> free_run used count st"
  using assms
proof (induction used count run start i rule: mm_alloc_scan.induct)
  case (1 used count run start i)
  note inv = "1.prems"
  consider (full) "\<not> i < MM_MAX_PAGES" | (used) "i < MM_MAX_PAGES" "used i"
    | (found) "i < MM_MAX_PAGES" "\<not> used i" "run + 1 = count"
    | (more) "i < MM_MAX_PAGES" "\<not> used i" "run + 1 \<noteq> count" by blast
  then show ?case
  proof cases
    case full
    have "\<not> free_run used count st" for st
      using full inv by (cases "st < i - run") (auto simp: scan_inv_def free_run_def)
    with full show ?thesis by (subst mm_alloc_scan.simps) simp
  next
    case used
    with inv have "scan_inv used count 0 start (i + 1)" by (rule scan_inv_used)
    with used "1.IH"(2) show ?thesis by (subst mm_alloc_scan.simps) simp
  next
    case found
    let ?st = "if run = 0 then i else start"
    have st: "?st = i - run" using inv by (simp add: scan_inv_def)
    have "\<not> used (?st + j)" if "j < count" for j
    proof (cases "j = run")
      case True
      then have "?st + j = i" unfolding st using inv by (simp add: scan_inv_def)
      with found show ?thesis by simp
    next
      case False
      then have "i - run \<le> ?st + j \<and> ?st + j < i"
        unfolding st using that found inv by (auto simp: scan_inv_def)
      with inv show ?thesis unfolding scan_inv_def by blast
    qed
    then have "free_run used count ?st" using found inv by (auto simp: free_run_def scan_inv_def)
    moreover have "\<forall>st' < ?st. \<not> free_run used count st'"
      unfolding st using inv by (simp add: scan_inv_def)
    ultimately show ?thesis using found by (subst mm_alloc_scan.simps) (simp add: Let_def)
  next
    case more
    have "scan_inv used count (run + 1) (if run = 0 then i else start) (i + 1)"
      using more inv by (auto simp: scan_inv_def less_Suc_eq)
    with more "1.IH"(1) [OF more(1,2) refl refl more(3)] show ?thesis
      by (subst mm_alloc_scan.simps) (simp add: Let_def)
  qed
qed

lemma mm_alloc_scan_start:
  assumes "0 < count"
  shows "case mm_alloc_scan used count 0 0 0 of
      Some st \<Rightarrow> free_run used count st \<and> (\<forall>st' < st. \<not> free_run used count st')
    | None \<Rightarrow> \<forall>st. \<not> free_run used count st"
  using assms by (intro mm_alloc_scan_spec) (simp add: scan_inv_def)

subsection \<open>Allocation and release\<close>

lemma mm_alloc_pages_frame [simp]:
  "g_total_pages (snd (mm_alloc_pages n s)) = g_total_pages s"
  "g_initialized (snd (mm_alloc_pages n s)) = g_initialized s"
  "g_heap_head (snd (mm_alloc_pages n s)) = g_heap_head s"
  "g_heap_tail (snd (mm_alloc_pages n s)) = g_heap_tail s"
  "g_heap_total_bytes (snd (mm_alloc_pages n s)) = g_heap_total_bytes s"
  "heap_mem (snd (mm_alloc_pages n s)) = heap_mem s"
  by (auto simp: mm_alloc_pages_def split: option.split)

lemma unat_page_addr: "st \<le> MM_MAX_PAGES \<Longrightarrow> unat (of_nat st * 4096 :: u32) = st * 4096"
  by (simp add: unat_word_ariths take_bit_eq_mod unsigned_of_nat)

text \<open>The outcome of an allocation, in a form the heap uses.\<close>

lemma mm_alloc_pages_cases:
  assumes "0 < count" "g_page_used s 0"
  obtains (none) "mm_alloc_pages count s = (0, s)" "\<forall>st. \<not> free_run (g_page_used s) (unat count) st"
  | (run) st s' where "mm_alloc_pages count s = (of_nat st * 4096, s')"
      "free_run (g_page_used s) (unat count) st" "0 < st"
      "\<forall>st' < st. \<not> free_run (g_page_used s) (unat count) st'"
      "\<forall>i. g_page_used s' i \<longleftrightarrow> g_page_used s i \<or> st \<le> i \<and> i < st + unat count"
proof -
  have pos: "0 < unat count" using assms(1) by (simp add: word_less_nat_alt)
  note spec = mm_alloc_scan_start [OF pos, of "g_page_used s"]
  show thesis
  proof (cases "mm_alloc_scan (g_page_used s) (unat count) 0 0 0")
    case None
    with spec assms show thesis by (intro none) (auto simp: mm_alloc_pages_def)
  next
    case (Some st)
    let ?s' = "fold (\<lambda>j. mm_set_page_used (st + j) True) [0..<unat count] s"
    have fr: "free_run (g_page_used s) (unat count) st" using Some spec by simp
    have "0 < st" using fr pos assms(2) by (auto simp: free_run_def intro: gr0I)
    moreover have "\<forall>i. g_page_used ?s' i \<longleftrightarrow> g_page_used s i \<or> st \<le> i \<and> i < st + unat count"
      using fr by (auto simp: fold_set_page_used free_run_def)
    moreover have "mm_alloc_pages count s = (of_nat st * 4096, ?s')"
      using Some assms(1) by (auto simp: mm_alloc_pages_def)
    ultimately show thesis using fr Some spec by (intro run) auto
  qed
qed

text \<open>
  C16: \<open>mm_alloc_pages\<close> is first fit and complete.  While page 0 is reserved, a request for
  \<open>count\<close> pages fails exactly when there is no run of \<open>count\<close> free pages, and then changes
  nothing; otherwise it returns the non-null address of the lowest such run, and exactly the pages
  of that run become used.
\<close>

theorem mm_alloc_pages_first_fit:
  assumes "0 < count" and "g_page_used s 0"
  shows "case mm_alloc_pages count s of (addr, s') \<Rightarrow>
    if \<exists>st. free_run (g_page_used s) (unat count) st
    then \<exists>st. addr = of_nat st * MM_PAGE_SIZE \<and> addr \<noteq> 0 \<and>
           free_run (g_page_used s) (unat count) st \<and>
           (\<forall>st' < st. \<not> free_run (g_page_used s) (unat count) st') \<and>
           (\<forall>i. g_page_used s' i \<longleftrightarrow> g_page_used s i \<or> st \<le> i \<and> i < st + unat count)
    else addr = 0 \<and> s' = s"
  using assms
proof (cases rule: mm_alloc_pages_cases)
  case none
  then show ?thesis by auto
next
  case (run st s')
  have "st \<le> MM_MAX_PAGES" using run(2) by (simp add: free_run_def)
  with \<open>0 < st\<close> have "unat (of_nat st * 4096 :: u32) \<noteq> 0" by (simp only: unat_page_addr)
  then have "(of_nat st * 4096 :: u32) \<noteq> 0" by (metis unat_0)
  with run show ?thesis by auto
qed

theorem mm_alloc_pages_first_fit_witness:
  "(0::u32) < 3 \<and> g_page_used mm_example 0 \<and>
   fst (mm_alloc_pages 3 mm_example) = 0x2000 \<and>
   (\<exists>st. (0x2000 :: u32) = of_nat st * MM_PAGE_SIZE \<and>
      (\<forall>i. g_page_used (snd (mm_alloc_pages 3 mm_example)) i \<longleftrightarrow> i < 2 \<or> st \<le> i \<and> i < st + 3))"
proof -
  have ev: "fst (mm_alloc_pages 3 mm_example) = 0x2000"
    by (simp add: mm_alloc_pages_def mm_example_def mm_alloc_scan.simps)
  show ?thesis
    using mm_alloc_pages_first_fit [of 3 mm_example] ev
    by (auto simp: mm_example_def split: if_splits)
qed

lemma page_accounting_alloc: "page_accounting s \<Longrightarrow> page_accounting (snd (mm_alloc_pages n s))"
  by (auto simp: mm_alloc_pages_def intro: page_accounting_fold split: option.split)

lemma page_accounting_free: "page_accounting s \<Longrightarrow> page_accounting (mm_free_pages p n s)"
  by (auto simp: mm_free_pages_def Let_def intro: page_accounting_fold)

lemma mm_free_pages_frame [simp]:
  "g_total_pages (mm_free_pages p n s) = g_total_pages s"
  "g_initialized (mm_free_pages p n s) = g_initialized s"
  "g_heap_head (mm_free_pages p n s) = g_heap_head s"
  "g_heap_tail (mm_free_pages p n s) = g_heap_tail s"
  "g_heap_total_bytes (mm_free_pages p n s) = g_heap_total_bytes s"
  "heap_mem (mm_free_pages p n s) = heap_mem s"
  by (auto simp: mm_free_pages_def Let_def)

lemma mm_free_pages_page_used:
  assumes "0 < st" "st \<le> MM_MAX_PAGES" "0 < n"
  shows "g_page_used (mm_free_pages (of_nat st * 4096) n s) i \<longleftrightarrow>
    g_page_used s i \<and> \<not> (st \<le> i \<and> i < st + unat n \<and> i < MM_MAX_PAGES)"
proof -
  let ?p = "of_nat st * 4096 :: u32"
  have u: "unat ?p = st * 4096" using assms(2) by (rule unat_page_addr)
  then have "?p \<noteq> 0" using assms(1) by (metis unat_0 mult_is_0 neq0_conv zero_neq_numeral)
  moreover have "?p AND 4095 = 0"
  proof -
    have "?p AND 4095 = take_bit 12 ?p" by (simp add: take_bit_eq_mask page_mask)
    moreover have "unat (take_bit 12 ?p) = take_bit 12 (st * 4096)"
      by (simp only: unsigned_take_bit_eq u)
    ultimately show ?thesis by (simp add: take_bit_eq_mod unat_eq_zero)
  qed
  moreover have "n \<noteq> 0" using assms(3) by auto
  ultimately have "mm_free_pages ?p n s =
      fold (\<lambda>i. mm_set_page_used (st + i) False) [0..<min (unat n) (MM_MAX_PAGES - st)] s"
    by (simp add: mm_free_pages_def Let_def u)
  then show ?thesis by (auto simp: fold_set_page_used)
qed

text \<open>
  C17: releasing what was allocated restores the page map and the counter: after a successful
  \<open>mm_alloc_pages\<close>, \<open>mm_free_pages\<close> on the returned address with the same count leaves every page
  and \<open>g_used_pages\<close> as they were before the allocation.
\<close>

theorem mm_alloc_free_roundtrip:
  assumes "0 < count" and "g_page_used s 0" and "page_accounting s"
    and "mm_alloc_pages count s = (addr, s1)" and "addr \<noteq> 0"
  shows "g_page_used (mm_free_pages addr count s1) = g_page_used s \<and>
    g_used_pages (mm_free_pages addr count s1) = g_used_pages s"
  using assms(1,2)
proof (cases rule: mm_alloc_pages_cases)
  case none
  with assms show ?thesis by simp
next
  case (run st s')
  let ?s2 = "mm_free_pages addr count s1"
  have eq: "addr = of_nat st * 4096" "s1 = s'" using run(1) assms(4) by auto
  have "st \<le> MM_MAX_PAGES" using run(2) by (simp add: free_run_def)
  then have pages: "g_page_used ?s2 = g_page_used s"
    using run assms(1) by (auto simp: eq mm_free_pages_page_used free_run_def fun_eq_iff)
      (metis le_iff_add nat_add_left_cancel_less)
  have "page_accounting ?s2"
    using assms(3,4) page_accounting_alloc [of s count] by (auto intro: page_accounting_free)
  with assms(3) pages have "unat (g_used_pages ?s2) = unat (g_used_pages s)"
    by (simp add: page_accounting_def)
  with pages show ?thesis by (simp add: word_unat_eq_iff)
qed

theorem mm_alloc_free_roundtrip_witness:
  "\<exists>addr s1. mm_alloc_pages 3 mm_example = (addr, s1) \<and> addr = 0x2000 \<and>
     g_used_pages s1 = 5 \<and> g_used_pages (mm_free_pages addr 3 s1) = 2"
proof -
  have acc: "page_accounting mm_example"
  proof -
    have "{j::nat. j < MM_MAX_PAGES \<and> j < 2} = {0, 1}" by auto
    then show ?thesis by (simp add: page_accounting_def mm_example_def)
  qed
  obtain addr s1 where r: "mm_alloc_pages 3 mm_example = (addr, s1)" by fastforce
  then have ev: "addr = 0x2000" "g_used_pages s1 = 5"
    by (auto simp: mm_alloc_pages_def mm_example_def mm_alloc_scan.simps mm_set_page_used_def
        upt_conv_Cons)
  show ?thesis
    using mm_alloc_free_roundtrip [OF _ _ acc r] ev r by (auto simp: mm_example_def)
qed

end
