(* ===== verification/Mm_Heap.thy ===== *)
theory Mm_Heap
  imports Mm_Pages
begin

text \<open>
  The kernel heap of \<open>src/src/kernel/core/mm/mm_core.c\<close>: a doubly linked list of block headers laid
  in the pages that \<open>Mm_Pages\<close> hands out, with first-fit search, splitting and coalescing.

  The header at an address is \<open>heap_mem s a\<close>, so pointers are addresses and the pointer
  surgery of the code is a sequence of updates of \<open>heap_mem\<close>.  On i386
  \<open>sizeof(heap_block_t)\<close> is 16 and \<open>sizeof(uintptr_t)\<close> is 4.  The loops over \<open>next\<close> and the
  recursion over \<open>prev\<close> need not end on an arbitrary memory, so they return an \<open>option\<close>; the
  heap invariant below shows that they do return.

  The second half abstracts the linked headers to the list of blocks they represent and proves
  that \<open>kmalloc_core\<close> and \<open>kfree_core\<close> keep the heap well formed.
\<close>

subsection \<open>The operations\<close>

abbreviation HEAP_HEADER :: u32 where "HEAP_HEADER \<equiv> 16"

definition upd_block :: "u32 \<Rightarrow> (heap_block \<Rightarrow> heap_block) \<Rightarrow> mm_state \<Rightarrow> mm_state" where
  "upd_block a f s = s\<lparr>heap_mem := (heap_mem s)(a := f (heap_mem s a))\<rparr>"

partial_function (option) mm_find_free_from :: "(u32 \<Rightarrow> heap_block) \<Rightarrow> u32 \<Rightarrow> u32 \<Rightarrow> u32 option" where
  "mm_find_free_from m sz block =
     (if block = 0 then Some 0
      else if block_free (m block) \<and> block_size (m block) \<ge> sz then Some block
      else mm_find_free_from m sz (block_next (m block)))"

definition mm_find_free_block :: "u32 \<Rightarrow> mm_state \<Rightarrow> u32 option" where
  "mm_find_free_block sz s = mm_find_free_from (heap_mem s) sz (g_heap_head s)"

definition mm_split_block :: "u32 \<Rightarrow> u32 \<Rightarrow> mm_state \<Rightarrow> mm_state" where
  "mm_split_block block sz s =
     (let min_split = HEAP_HEADER + 4 in
      if block = 0 \<or> block_size (heap_mem s block) < sz + min_split then s
      else
        let split = block + HEAP_HEADER + sz;
            nx = block_next (heap_mem s block);
            s1 = upd_block split
                   (\<lambda>_. \<lparr>block_size = block_size (heap_mem s block) - sz - HEAP_HEADER,
                         block_free = True, block_next = nx, block_prev = block\<rparr>) s;
            s2 = (if nx \<noteq> 0 then upd_block nx (\<lambda>h. h\<lparr>block_prev := split\<rparr>) s1
                  else s1\<lparr>g_heap_tail := split\<rparr>)
        in upd_block block (\<lambda>h. h\<lparr>block_size := sz, block_next := split\<rparr>) s2)"

definition mm_blocks_adjacent :: "u32 \<Rightarrow> u32 \<Rightarrow> mm_state \<Rightarrow> bool" where
  "mm_blocks_adjacent left right s =
     (if left = 0 \<or> right = 0 then False
      else left + HEAP_HEADER + block_size (heap_mem s left) = right)"

text \<open>The first half of \<open>mm_coalesce_block\<close>: absorb the next block if it is free and adjacent.\<close>

definition mm_absorb_next :: "u32 \<Rightarrow> mm_state \<Rightarrow> mm_state" where
  "mm_absorb_next block s =
     (let nx = block_next (heap_mem s block) in
      if nx \<noteq> 0 \<and> block_free (heap_mem s nx) \<and> mm_blocks_adjacent block nx s
      then
        let s1 = upd_block block
                   (\<lambda>h. h\<lparr>block_size := block_size h + (HEAP_HEADER + block_size (heap_mem s nx)),
                          block_next := block_next (heap_mem s nx)\<rparr>) s;
            nn = block_next (heap_mem s1 block)
        in if nn \<noteq> 0 then upd_block nn (\<lambda>h. h\<lparr>block_prev := block\<rparr>) s1
           else s1\<lparr>g_heap_tail := block\<rparr>
      else s)"

partial_function (option) mm_coalesce_block :: "u32 \<Rightarrow> mm_state \<Rightarrow> mm_state option" where
  "mm_coalesce_block block s =
     (if block = 0 then Some s
      else
        let s1 = mm_absorb_next block s;
            pv = block_prev (heap_mem s1 block)
        in if pv \<noteq> 0 \<and> block_free (heap_mem s1 pv) \<and> mm_blocks_adjacent pv block s1
           then mm_coalesce_block pv s1
           else Some s1)"

text \<open>Writing the header of freshly allocated pages and linking it behind the tail.\<close>

definition mm_grow_link :: "u32 \<Rightarrow> u32 \<Rightarrow> mm_state \<Rightarrow> mm_state" where
  "mm_grow_link block pages s1 =
     (let s2 = upd_block block
            (\<lambda>_. \<lparr>block_size = pages * MM_PAGE_SIZE - HEAP_HEADER, block_free = True,
                  block_next = 0, block_prev = g_heap_tail s1\<rparr>) s1;
          s3 = (if g_heap_tail s2 \<noteq> 0
                then upd_block (g_heap_tail s2) (\<lambda>h. h\<lparr>block_next := block\<rparr>) s2
                else s2\<lparr>g_heap_head := block\<rparr>)
      in s3\<lparr>g_heap_tail := block,
             g_heap_total_bytes := g_heap_total_bytes s3 + pages * MM_PAGE_SIZE\<rparr>)"

definition mm_grow_heap :: "u32 \<Rightarrow> mm_state \<Rightarrow> (u32 \<times> mm_state) option" where
  "mm_grow_heap sz s =
     (let total = sz + HEAP_HEADER;
          pages = (total + MM_PAGE_SIZE - 1) div MM_PAGE_SIZE;
          (block, s1) = mm_alloc_pages pages s
      in if block = 0 then Some (0, s1)
         else
           let s4 = mm_grow_link block pages s1;
               pv = block_prev (heap_mem s4 block)
           in if pv \<noteq> 0 \<and> block_free (heap_mem s4 pv) \<and> mm_blocks_adjacent pv block s4
              then (case mm_coalesce_block pv s4 of
                      None \<Rightarrow> None
                    | Some s5 \<Rightarrow> Some (block_prev (heap_mem s5 block), s5))
              else Some (block, s4))"

text \<open>The end of \<open>kmalloc_core\<close>: split the chosen block and mark it allocated.\<close>

definition mm_take_block :: "u32 \<Rightarrow> u32 \<Rightarrow> mm_state \<Rightarrow> mm_state" where
  "mm_take_block sz block s =
     upd_block block (\<lambda>h. h\<lparr>block_free := False\<rparr>) (mm_split_block block sz s)"

definition kmalloc_core :: "u32 \<Rightarrow> mm_state \<Rightarrow> (u32 \<times> mm_state) option" where
  "kmalloc_core size0 s =
     (if \<not> g_initialized s \<or> size0 = 0 then Some (0, s)
      else
        let sz = mm_align_alloc_size size0
        in case mm_find_free_block sz s of
             None \<Rightarrow> None
           | Some block \<Rightarrow>
               if block = 0
               then (case mm_grow_heap sz s of
                       None \<Rightarrow> None
                     | Some (b, s1) \<Rightarrow>
                         if b = 0 then Some (0, s1)
                         else Some (b + HEAP_HEADER, mm_take_block sz b s1))
               else Some (block + HEAP_HEADER, mm_take_block sz block s))"

definition kfree_core :: "u32 \<Rightarrow> mm_state \<Rightarrow> mm_state option" where
  "kfree_core ptr s =
     (if ptr = 0 then Some s
      else
        let block = ptr - HEAP_HEADER
        in mm_coalesce_block block (upd_block block (\<lambda>h. h\<lparr>block_free := True\<rparr>) s))"

record mm_stats =
  total_pages :: u32
  used_pages :: u32
  free_pages :: u32
  heap_total_bytes :: u32
  heap_used_bytes :: u32
  heap_free_bytes :: u32
  heap_largest_free_bytes :: u32

text \<open>The loop of \<open>mm_core_get_stats\<close> over the block list.\<close>

partial_function (option) mm_stats_loop :: "(u32 \<Rightarrow> heap_block) \<Rightarrow> u32 \<Rightarrow> mm_stats \<Rightarrow> mm_stats option" where
  "mm_stats_loop m block out =
     (if block = 0 then Some out
      else mm_stats_loop m (block_next (m block))
        (if block_free (m block)
         then out\<lparr>heap_free_bytes := heap_free_bytes out + block_size (m block),
                  heap_largest_free_bytes :=
                    (if block_size (m block) > heap_largest_free_bytes out
                     then block_size (m block) else heap_largest_free_bytes out)\<rparr>
         else out\<lparr>heap_used_bytes := heap_used_bytes out + block_size (m block)\<rparr>))"

definition mm_core_get_stats :: "mm_state \<Rightarrow> mm_stats option" where
  "mm_core_get_stats s =
     mm_stats_loop (heap_mem s) (g_heap_head s)
       \<lparr>total_pages = g_total_pages s, used_pages = g_used_pages s,
        free_pages = (if g_total_pages s \<ge> g_used_pages s then g_total_pages s - g_used_pages s else 0),
        heap_total_bytes = g_heap_total_bytes s, heap_used_bytes = 0, heap_free_bytes = 0,
        heap_largest_free_bytes = 0\<rparr>"

subsection \<open>The block list behind the headers\<close>

record blk =
  baddr :: u32
  bsize :: u32
  bfree :: bool

definition hdr :: "blk \<Rightarrow> u32 \<Rightarrow> u32 \<Rightarrow> heap_block" where
  "hdr b nx pv = \<lparr>block_size = bsize b, block_free = bfree b, block_next = nx, block_prev = pv\<rparr>"

lemma hdr_sel [simp]:
  "block_size (hdr b nx pv) = bsize b" "block_free (hdr b nx pv) = bfree b"
  "block_next (hdr b nx pv) = nx" "block_prev (hdr b nx pv) = pv"
  by (simp_all add: hdr_def)

fun first_addr :: "blk list \<Rightarrow> u32 \<Rightarrow> u32" where
  "first_addr [] q = q"
| "first_addr (b # bs) q = baddr b"

fun last_addr :: "u32 \<Rightarrow> blk list \<Rightarrow> u32" where
  "last_addr p [] = p"
| "last_addr p (b # bs) = last_addr (baddr b) bs"

text \<open>
  A doubly linked segment: the headers of \<open>bs\<close> are chained in order, the first one points back
  to \<open>p\<close> and the last one points on to \<open>q\<close>.
\<close>

fun dlseg :: "(u32 \<Rightarrow> heap_block) \<Rightarrow> u32 \<Rightarrow> blk list \<Rightarrow> u32 \<Rightarrow> bool" where
  "dlseg m p [] q = True"
| "dlseg m p (b # bs) q =
     (baddr b \<noteq> 0 \<and> m (baddr b) = hdr b (first_addr bs q) p \<and> dlseg m (baddr b) bs q)"

lemma first_addr_append [simp]: "first_addr (xs @ ys) q = first_addr xs (first_addr ys q)"
  by (cases xs) auto

lemma last_addr_append [simp]: "last_addr p (xs @ ys) = last_addr (last_addr p xs) ys"
  by (induction xs arbitrary: p) auto

lemma last_addr_eq: "last_addr p xs = (if xs = [] then p else baddr (last xs))"
  by (induction xs arbitrary: p) auto

lemma dlseg_append [simp]:
  "dlseg m p (xs @ ys) q \<longleftrightarrow> dlseg m p xs (first_addr ys q) \<and> dlseg m (last_addr p xs) ys q"
  by (induction xs arbitrary: p) auto

lemma dlseg_upd [simp]: "a \<notin> baddr ` set xs \<Longrightarrow> dlseg (m(a := v)) p xs q = dlseg m p xs q"
  by (induction xs arbitrary: p) auto

lemma dlseg_nonzero: "dlseg m p xs q \<Longrightarrow> b \<in> set xs \<Longrightarrow> baddr b \<noteq> 0"
  by (induction xs arbitrary: p) auto

lemma dlseg_first_zero: "dlseg m p xs 0 \<Longrightarrow> first_addr xs 0 = 0 \<longleftrightarrow> xs = []"
  by (cases xs) auto

text \<open>Redirecting the back pointer of the first block, and the forward pointer of the last.\<close>

lemma dlseg_upd_first:
  assumes "dlseg m p (b # bs) q" "baddr b \<notin> baddr ` set bs"
  shows "dlseg (m(baddr b := (m (baddr b))\<lparr>block_prev := p'\<rparr>)) p' (b # bs) q"
  using assms by (auto simp: hdr_def)

lemma dlseg_upd_last:
  assumes "dlseg m p (bs @ [b]) q" "baddr b \<notin> baddr ` set bs"
  shows "dlseg (m(baddr b := (m (baddr b))\<lparr>block_next := q'\<rparr>)) p (bs @ [b]) q'"
  using assms by (auto simp: hdr_def)

definition heap_rep :: "mm_state \<Rightarrow> blk list \<Rightarrow> bool" where
  "heap_rep s xs \<longleftrightarrow>
     g_heap_head s = first_addr xs 0 \<and> g_heap_tail s = last_addr 0 xs \<and>
     dlseg (heap_mem s) 0 xs 0 \<and> distinct (map baddr xs)"

lemma heap_rep_hdr:
  assumes "heap_rep s (ls @ b # rs)"
  shows "heap_mem s (baddr b) = hdr b (first_addr rs 0) (last_addr 0 ls)" "baddr b \<noteq> 0"
  using assms by (auto simp: heap_rep_def)

text \<open>The search loop finds the first free block that is large enough.\<close>

lemma mm_find_free_from_dlseg:
  assumes "dlseg m p xs 0"
  shows "mm_find_free_from m sz (first_addr xs 0) =
    Some (case List.find (\<lambda>b. bfree b \<and> sz \<le> bsize b) xs of None \<Rightarrow> 0 | Some b \<Rightarrow> baddr b)"
  using assms
  by (induction xs arbitrary: p; subst mm_find_free_from.simps) auto

lemma mm_find_free_block_rep:
  "heap_rep s xs \<Longrightarrow> mm_find_free_block sz s =
    Some (case List.find (\<lambda>b. bfree b \<and> sz \<le> bsize b) xs of None \<Rightarrow> 0 | Some b \<Rightarrow> baddr b)"
  unfolding mm_find_free_block_def heap_rep_def by (auto simp: mm_find_free_from_dlseg)

text \<open>The pointer surgery of the operations, on the represented list.\<close>

lemma heap_rep_set_free:
  assumes "heap_rep s (ls @ b # rs)"
  shows "heap_rep (upd_block (baddr b) (\<lambda>h. h\<lparr>block_free := f\<rparr>) s) (ls @ b\<lparr>bfree := f\<rparr> # rs)"
  using assms by (cases rs) (auto simp: heap_rep_def upd_block_def hdr_def last_addr_eq)

lemma mm_split_block_rep:
  assumes rep: "heap_rep s (ls @ b # rs)"
    and fits: "\<not> bsize b < sz + 20"
    and fresh: "baddr b + 16 + sz \<noteq> 0" "baddr b + 16 + sz \<notin> baddr ` set (ls @ b # rs)"
  shows "heap_rep (mm_split_block (baddr b) sz s)
    (ls @ b\<lparr>bsize := sz\<rparr> #
      \<lparr>baddr = baddr b + 16 + sz, bsize = bsize b - sz - 16, bfree = True\<rparr> # rs)"
proof (cases rs)
  case Nil
  with assms show ?thesis
    by (auto simp: heap_rep_def mm_split_block_def upd_block_def Let_def hdr_def image_Un)
next
  case (Cons c cs)
  with assms show ?thesis
    by (auto simp: heap_rep_def mm_split_block_def upd_block_def Let_def hdr_def image_Un)
qed

lemma mm_absorb_next_rep:
  assumes rep: "heap_rep s (ls @ b # c # rs)"
    and adj: "bfree c" "baddr b + 16 + bsize b = baddr c"
  shows "heap_rep (mm_absorb_next (baddr b) s)
    (ls @ b\<lparr>bsize := bsize b + (16 + bsize c)\<rparr> # rs)"
proof (cases rs)
  case Nil
  with assms show ?thesis
    by (auto simp: heap_rep_def mm_absorb_next_def mm_blocks_adjacent_def upd_block_def Let_def
        hdr_def image_Un)
next
  case (Cons d ds)
  with assms show ?thesis
    by (auto simp: heap_rep_def mm_absorb_next_def mm_blocks_adjacent_def upd_block_def Let_def
        hdr_def image_Un)
qed

lemma mm_absorb_next_same:
  assumes rep: "heap_rep s (ls @ b # rs)"
    and "\<And>c cs. rs = c # cs \<Longrightarrow> \<not> (bfree c \<and> baddr b + 16 + bsize b = baddr c)"
  shows "mm_absorb_next (baddr b) s = s"
  using assms by (cases rs)
    (auto simp: heap_rep_def mm_absorb_next_def mm_blocks_adjacent_def Let_def hdr_def)

subsection \<open>Well-formed heaps\<close>

definition bend :: "blk \<Rightarrow> nat" where
  "bend b = unat (baddr b) + 16 + unat (bsize b)"

definition blk_ok :: "blk \<Rightarrow> bool" where
  "blk_ok b \<longleftrightarrow> bend b \<le> 4096 * MM_MAX_PAGES \<and> 4 dvd unat (baddr b) \<and> 4 dvd unat (bsize b)"

definition blk_disj :: "blk \<Rightarrow> blk \<Rightarrow> bool" where
  "blk_disj b c \<longleftrightarrow> bend b \<le> unat (baddr c) \<or> bend c \<le> unat (baddr b)"

definition blocks_wf :: "blk list \<Rightarrow> bool" where
  "blocks_wf xs \<longleftrightarrow> (\<forall>b \<in> set xs. blk_ok b) \<and> sorted_wrt blk_disj xs"

text \<open>No free block is directly followed, in the list and in memory, by another free block.\<close>

definition coalesced :: "blk list \<Rightarrow> bool" where
  "coalesced xs \<longleftrightarrow> successively (\<lambda>b c. \<not> (bfree b \<and> bfree c \<and> bend b = unat (baddr c))) xs"

definition heap_bytes :: "blk list \<Rightarrow> nat" where
  "heap_bytes xs = sum_list (map (\<lambda>b. 16 + unat (bsize b)) xs)"

definition pages_back :: "mm_state \<Rightarrow> blk list \<Rightarrow> bool" where
  "pages_back s xs \<longleftrightarrow>
     (\<forall>b \<in> set xs. \<forall>x. unat (baddr b) \<le> x \<and> x < bend b \<longrightarrow> g_page_used s (x div 4096))"

text \<open>The part of the invariant that splitting and coalescing keep without looking at pointers.\<close>

definition heap_wf :: "mm_state \<Rightarrow> blk list \<Rightarrow> bool" where
  "heap_wf s xs \<longleftrightarrow>
     heap_rep s xs \<and> blocks_wf xs \<and> pages_back s xs \<and>
     unat (g_heap_total_bytes s) = heap_bytes xs \<and> g_page_used s 0"

definition heap_inv :: "mm_state \<Rightarrow> blk list \<Rightarrow> bool" where
  "heap_inv s xs \<longleftrightarrow> heap_wf s xs \<and> coalesced xs"

definition allocated :: "blk list \<Rightarrow> blk set" where
  "allocated xs = {b \<in> set xs. \<not> bfree b}"

definition same_pages :: "mm_state \<Rightarrow> mm_state \<Rightarrow> bool" where
  "same_pages s t \<longleftrightarrow>
     g_page_used t = g_page_used s \<and> g_used_pages t = g_used_pages s \<and>
     g_total_pages t = g_total_pages s \<and> g_initialized t = g_initialized s \<and>
     g_heap_total_bytes t = g_heap_total_bytes s"

lemma same_pages_refl [simp]: "same_pages s s"
  by (simp add: same_pages_def)

lemma same_pages_trans: "same_pages s t \<Longrightarrow> same_pages t u \<Longrightarrow> same_pages s u"
  by (simp add: same_pages_def)

lemma same_pages_ops [simp]:
  "same_pages s (upd_block a f s)" "same_pages s (mm_absorb_next b s)"
  "same_pages s (mm_split_block b n s)"
  by (simp_all add: same_pages_def upd_block_def mm_absorb_next_def mm_split_block_def Let_def)

lemma blk_end_word:
  assumes "blk_ok b"
  shows "unat (baddr b + 16 + bsize b) = bend b"
  using assms by (subst unat_add_no_wrap; subst unat_add_no_wrap) (auto simp: blk_ok_def bend_def)

lemma blk_adjacent_iff:
  assumes "blk_ok b"
  shows "baddr b + 16 + bsize b = baddr c \<longleftrightarrow> bend b = unat (baddr c)"
  using blk_end_word [OF assms] by (metis word_unat_eq_iff)

lemma pages_back_same: "same_pages s t \<Longrightarrow> pages_back t xs = pages_back s xs"
  by (simp add: same_pages_def pages_back_def)

lemma heap_wf_same_pages:
  "\<lbrakk>heap_wf s xs; same_pages s t; heap_rep t ys; blocks_wf ys; pages_back s ys;
    heap_bytes ys = heap_bytes xs\<rbrakk> \<Longrightarrow> heap_wf t ys"
  by (auto simp: heap_wf_def pages_back_same) (simp_all add: same_pages_def)

text \<open>Merging two adjacent blocks keeps the layout well formed.\<close>

definition merge :: "blk \<Rightarrow> blk \<Rightarrow> blk" where
  "merge b c = b\<lparr>bsize := bsize b + (16 + bsize c)\<rparr>"

lemma merge_size:
  assumes "blk_ok b" "blk_ok c" "bend b = unat (baddr c)"
  shows "unat (bsize (merge b c)) = unat (bsize b) + (16 + unat (bsize c))"
  using assms unfolding merge_def blk_ok_def bend_def
  by (simp, subst unat_add_no_wrap; (subst unat_add_no_wrap)?) auto

lemma merge_props:
  assumes "blk_ok b" "blk_ok c" "bend b = unat (baddr c)"
  shows "baddr (merge b c) = baddr b" "bfree (merge b c) = bfree b" "bend (merge b c) = bend c"
    "blk_ok (merge b c)"
proof -
  show a: "baddr (merge b c) = baddr b" "bfree (merge b c) = bfree b" by (simp_all add: merge_def)
  show e: "bend (merge b c) = bend c"
    using merge_size [OF assms] assms(3) by (simp add: bend_def a)
  show "blk_ok (merge b c)"
    using merge_size [OF assms] assms e by (simp add: blk_ok_def a)
qed

lemma blocks_wf_merge:
  assumes "blocks_wf (ls @ b # c # rs)" "bend b = unat (baddr c)"
  shows "blocks_wf (ls @ merge b c # rs)"
proof -
  have ok: "blk_ok b" "blk_ok c" using assms(1) by (auto simp: blocks_wf_def)
  have lt: "unat (baddr c) < bend c" "unat (baddr b) < bend b" by (simp_all add: bend_def)
  note m = merge_props [OF ok assms(2)]
  have d: "blk_disj x (merge b c)" if "blk_disj x b" "blk_disj x c" for x
    using that assms(2) lt m by (auto simp: blk_disj_def bend_def)
  have d': "blk_disj (merge b c) x" if "blk_disj b x" "blk_disj c x" for x
    using that assms(2) lt m by (auto simp: blk_disj_def bend_def)
  show ?thesis using assms m d d' by (auto simp: blocks_wf_def sorted_wrt_append)
qed

lemma heap_wf_blk_ok: "heap_wf s xs \<Longrightarrow> b \<in> set xs \<Longrightarrow> blk_ok b"
  by (simp add: heap_wf_def blocks_wf_def)

lemma heap_wf_absorb:
  assumes wf: "heap_wf s (ls @ b # c # rs)" and adj: "bfree c" "bend b = unat (baddr c)"
  shows "heap_wf (mm_absorb_next (baddr b) s) (ls @ merge b c # rs)"
proof -
  have ok: "blk_ok b" "blk_ok c" using wf by (auto intro: heap_wf_blk_ok)
  note m = merge_props [OF ok adj(2)]
  have rep: "heap_rep (mm_absorb_next (baddr b) s) (ls @ merge b c # rs)"
    using wf adj ok mm_absorb_next_rep [of s ls b c rs]
    by (simp add: heap_wf_def merge_def blk_adjacent_iff)
  have pages: "pages_back s (ls @ merge b c # rs)"
    unfolding pages_back_def
  proof (intro ballI allI impI)
    fix d x assume d: "d \<in> set (ls @ merge b c # rs)" and x: "unat (baddr d) \<le> x \<and> x < bend d"
    show "g_page_used s (x div 4096)"
    proof (cases "d = merge b c")
      case True
      then have "x < bend b \<or> unat (baddr c) \<le> x" "unat (baddr b) \<le> x" "x < bend c"
        using x m adj by auto
      then show ?thesis using wf by (auto simp: heap_wf_def pages_back_def)
    next
      case False
      then show ?thesis using wf d x by (auto simp: heap_wf_def pages_back_def)
    qed
  qed
  have "heap_bytes (ls @ merge b c # rs) = heap_bytes (ls @ b # c # rs)"
    using merge_size [OF ok adj(2)] by (simp add: heap_bytes_def)
  moreover have "blocks_wf (ls @ merge b c # rs)"
    using wf adj(2) by (intro blocks_wf_merge) (auto simp: heap_wf_def)
  ultimately show ?thesis
    using rep pages by (intro heap_wf_same_pages [OF wf]) auto
qed

lemma allocated_absorb:
  assumes "bfree b" "bfree c"
  shows "allocated (ls @ merge b c # rs) = allocated (ls @ b # c # rs)"
  using assms by (auto simp: allocated_def merge_def)

text \<open>Neither neighbour can be absorbed: the operation returns at once.\<close>

lemma coalesce_stop:
  assumes wf: "heap_wf s (ls @ b # rs)"
    and nx: "\<And>c cs. rs = c # cs \<Longrightarrow> \<not> (bfree c \<and> bend b = unat (baddr c))"
    and pv: "\<And>a as. ls = as @ [a] \<Longrightarrow> \<not> (bfree a \<and> bend a = unat (baddr b))"
  shows "mm_coalesce_block (baddr b) s = Some s"
proof -
  have rep: "heap_rep s (ls @ b # rs)" and ok: "blk_ok b" using wf by (auto simp: heap_wf_def blocks_wf_def)
  have same: "mm_absorb_next (baddr b) s = s"
    by (rule mm_absorb_next_same [OF rep]) (use nx ok in \<open>auto simp: blk_adjacent_iff\<close>)
  have "\<not> (last_addr 0 ls \<noteq> 0 \<and> block_free (heap_mem s (last_addr 0 ls)) \<and>
      mm_blocks_adjacent (last_addr 0 ls) (baddr b) s)"
  proof (cases ls rule: rev_cases)
    case (snoc as a)
    have "heap_mem s (baddr a) = hdr a (baddr b) (last_addr 0 as)"
      using heap_rep_hdr(1) [of s as a "b # rs"] rep snoc by simp
    moreover have "blk_ok a" using wf snoc by (auto intro: heap_wf_blk_ok)
    ultimately show ?thesis using pv snoc by (auto simp: mm_blocks_adjacent_def blk_adjacent_iff)
  qed simp
  then show ?thesis
    using same heap_rep_hdr [OF rep] by (subst mm_coalesce_block.simps) (auto simp: Let_def)
qed

text \<open>The previous block is free and adjacent: the operation continues there.\<close>

lemma coalesce_prev:
  assumes wf: "heap_wf s (as @ a # b # rs)" and adj: "bfree a" "bend a = unat (baddr b)"
    and nx: "\<And>c cs. rs = c # cs \<Longrightarrow> \<not> (bfree c \<and> bend b = unat (baddr c))"
  shows "mm_coalesce_block (baddr b) s = mm_coalesce_block (baddr a) s"
proof -
  have rep: "heap_rep s ((as @ [a]) @ b # rs)" and ok: "blk_ok a" "blk_ok b"
    using wf by (auto simp: heap_wf_def blocks_wf_def)
  have same: "mm_absorb_next (baddr b) s = s"
    by (rule mm_absorb_next_same [OF rep]) (use nx ok in \<open>auto simp: blk_adjacent_iff\<close>)
  have a: "heap_mem s (baddr a) = hdr a (baddr b) (last_addr 0 as)" "baddr a \<noteq> 0"
    using heap_rep_hdr [of s as a "b # rs"] rep by simp_all
  show ?thesis
    using same a adj ok heap_rep_hdr [OF rep]
    by (subst mm_coalesce_block.simps) (simp add: Let_def mm_blocks_adjacent_def blk_adjacent_iff)
qed

text \<open>The next block is free and adjacent: it is absorbed first.\<close>

lemma coalesce_next:
  assumes wf: "heap_wf s (ls @ b # c # rs)" and adj: "bfree c" "bend b = unat (baddr c)"
    and nx: "\<And>d ds. rs = d # ds \<Longrightarrow> \<not> (bfree d \<and> bend c = unat (baddr d))"
  shows "mm_coalesce_block (baddr b) s = mm_coalesce_block (baddr b) (mm_absorb_next (baddr b) s)"
proof -
  let ?s1 = "mm_absorb_next (baddr b) s"
  have ok: "blk_ok b" "blk_ok c" using wf by (auto intro: heap_wf_blk_ok)
  note m = merge_props [OF ok adj(2)]
  have wf1: "heap_wf ?s1 (ls @ merge b c # rs)" by (rule heap_wf_absorb [OF wf adj])
  then have rep1: "heap_rep ?s1 (ls @ merge b c # rs)" by (simp add: heap_wf_def)
  have "mm_absorb_next (baddr (merge b c)) ?s1 = ?s1"
    by (rule mm_absorb_next_same [OF rep1]) (use nx m blk_adjacent_iff [OF m(4)] in auto)
  moreover have "baddr b \<noteq> 0" using wf heap_rep_hdr(2) by (auto simp: heap_wf_def)
  ultimately show ?thesis
    using m by (subst (1 2) mm_coalesce_block.simps) (simp add: Let_def)
qed

lemma coalesced_Cons:
  "coalesced (b # rs) \<longleftrightarrow>
     (\<forall>c cs. rs = c # cs \<longrightarrow> \<not> (bfree b \<and> bfree c \<and> bend b = unat (baddr c))) \<and> coalesced rs"
  by (cases rs) (auto simp: coalesced_def)

lemma coalesced_append:
  "coalesced (ls @ b # rs) \<longleftrightarrow> coalesced ls \<and> coalesced (b # rs) \<and>
     (\<forall>as a. ls = as @ [a] \<longrightarrow> \<not> (bfree a \<and> bfree b \<and> bend a = unat (baddr b)))"
  by (cases ls rule: rev_cases)
    (auto simp: coalesced_def successively_append_iff successively_Cons)

lemma coalesced_snoc:
  "coalesced (as @ [a]) \<longleftrightarrow> coalesced as \<and>
     (\<forall>bs b. as = bs @ [b] \<longrightarrow> \<not> (bfree b \<and> bfree a \<and> bend b = unat (baddr a)))"
  using coalesced_append [of as a "[]"] by (simp add: coalesced_Cons coalesced_def)

text \<open>
  Coalescing around a free block whose left and right sides are coalesced returns, and leaves a
  coalesced heap with the same allocated blocks.
\<close>

lemma coalesce_right_done:
  assumes wf: "heap_wf s (ls @ b # rs)" and b: "bfree b"
    and left: "coalesced ls" and right: "coalesced (b # rs)"
  shows "\<exists>t ys. mm_coalesce_block (baddr b) s = Some t \<and> heap_inv t ys \<and> same_pages s t \<and>
    allocated ys = allocated (ls @ b # rs)"
proof (cases "\<exists>as a. ls = as @ [a] \<and> bfree a \<and> bend a = unat (baddr b)")
  case False
  then have "mm_coalesce_block (baddr b) s = Some s"
    using right b by (intro coalesce_stop [OF wf]) (auto simp: coalesced_Cons)
  moreover have "coalesced (ls @ b # rs)" using False left right by (auto simp: coalesced_append)
  ultimately show ?thesis using wf by (auto simp: heap_inv_def)
next
  case True
  then obtain as a where ls: "ls = as @ [a]" and a: "bfree a" "bend a = unat (baddr b)" by blast
  have wf': "heap_wf s (as @ a # b # rs)" using wf ls by simp
  have ok: "blk_ok a" "blk_ok b" using wf' by (auto intro: heap_wf_blk_ok)
  note m = merge_props [OF ok a(2)]
  let ?s1 = "mm_absorb_next (baddr a) s"
  have nx: "\<not> (bfree c \<and> bend b = unat (baddr c))" if "rs = c # cs" for c cs
    using right b that by (auto simp: coalesced_Cons)
  have wf1: "heap_wf ?s1 (as @ merge a b # rs)" by (rule heap_wf_absorb [OF wf' b a(2)])
  have pv: "\<not> (bfree d \<and> bend d = unat (baddr (merge a b)))" if "as = ds @ [d]" for ds d
    using left [unfolded ls that coalesced_snoc] a m by auto
  have "mm_coalesce_block (baddr b) s = mm_coalesce_block (baddr a) s"
    by (rule coalesce_prev [OF wf' a]) (use nx in auto)
  also have "\<dots> = mm_coalesce_block (baddr a) ?s1"
    by (rule coalesce_next [OF wf' b a(2)]) (use nx in auto)
  also have "\<dots> = Some ?s1"
    using coalesce_stop [OF wf1] nx pv m by auto
  finally have "mm_coalesce_block (baddr b) s = Some ?s1" .
  moreover have "coalesced (as @ merge a b # rs)"
    using left right ls a b m pv nx by (auto simp: coalesced_append coalesced_Cons coalesced_snoc)
  moreover have "allocated (as @ merge a b # rs) = allocated (ls @ b # rs)"
    using ls allocated_absorb [OF a(1) b] by simp
  ultimately show ?thesis using wf1 by (auto simp: heap_inv_def)
qed

lemma mm_coalesce_block_inv:
  assumes wf: "heap_wf s (ls @ b # rs)" and b: "bfree b"
    and left: "coalesced ls" and right: "coalesced rs"
  shows "\<exists>t ys. mm_coalesce_block (baddr b) s = Some t \<and> heap_inv t ys \<and> same_pages s t \<and>
    allocated ys = allocated (ls @ b # rs)"
proof (cases "\<exists>c cs. rs = c # cs \<and> bfree c \<and> bend b = unat (baddr c)")
  case False
  then have "coalesced (b # rs)" using right by (auto simp: coalesced_Cons)
  with wf b left show ?thesis by (rule coalesce_right_done)
next
  case True
  then obtain c cs where rs: "rs = c # cs" and c: "bfree c" "bend b = unat (baddr c)" by blast
  have wf': "heap_wf s (ls @ b # c # cs)" using wf rs by simp
  have ok: "blk_ok b" "blk_ok c" using wf' by (auto intro: heap_wf_blk_ok)
  note m = merge_props [OF ok c(2)]
  let ?s1 = "mm_absorb_next (baddr b) s"
  have nx: "\<not> (bfree d \<and> bend c = unat (baddr d))" if "cs = d # ds" for d ds
    using right rs c that by (auto simp: coalesced_Cons)
  have wf1: "heap_wf ?s1 (ls @ merge b c # cs)" by (rule heap_wf_absorb [OF wf' c])
  have "coalesced (merge b c # cs)" using right rs m nx by (auto simp: coalesced_Cons)
  from coalesce_right_done [OF wf1 _ left this] obtain t ys where
    t: "mm_coalesce_block (baddr b) ?s1 = Some t" "heap_inv t ys" "same_pages ?s1 t"
      "allocated ys = allocated (ls @ merge b c # cs)"
    using b m by auto
  have "mm_coalesce_block (baddr b) s = Some t"
    using coalesce_next [OF wf' c] nx t(1) by auto
  moreover have "same_pages s t" using t(3) same_pages_ops(2) by (rule same_pages_trans [rotated])
  moreover have "allocated ys = allocated (ls @ b # rs)"
    using t(4) rs allocated_absorb [OF b c(1)] by simp
  ultimately show ?thesis using t(2) by blast
qed

subsection \<open>Growing the heap\<close>

lemma blocks_wf_bytes:
  assumes "blocks_wf xs"
  shows "heap_bytes xs \<le> 4096 * MM_MAX_PAGES"
proof -
  let ?E = "\<lambda>b. {unat (baddr b)..<bend b}"
  have "card (\<Union>b \<in> set xs. ?E b) = heap_bytes xs"
    using assms
  proof (induction xs)
    case Nil
    then show ?case by (simp add: heap_bytes_def)
  next
    case (Cons b xs)
    have "?E b \<inter> (\<Union>c \<in> set xs. ?E c) = {}"
      using Cons.prems by (auto simp: blocks_wf_def blk_disj_def)
    then have "card (\<Union>c \<in> set (b # xs). ?E c) = card (?E b) + card (\<Union>c \<in> set xs. ?E c)"
      by (simp add: card_Un_disjoint)
    with Cons show ?case by (simp add: blocks_wf_def heap_bytes_def bend_def)
  qed
  moreover have "(\<Union>b \<in> set xs. ?E b) \<subseteq> {..<4096 * MM_MAX_PAGES}"
    using assms by (fastforce simp: blocks_wf_def blk_ok_def)
  then have "card (\<Union>b \<in> set xs. ?E b) \<le> card {..<4096 * MM_MAX_PAGES}"
    by (rule card_mono [rotated]) simp
  ultimately show ?thesis by simp
qed

lemma mm_grow_link_fields [simp]:
  "g_page_used (mm_grow_link a p s) = g_page_used s" "g_used_pages (mm_grow_link a p s) = g_used_pages s"
  "g_total_pages (mm_grow_link a p s) = g_total_pages s" "g_initialized (mm_grow_link a p s) = g_initialized s"
  "g_heap_total_bytes (mm_grow_link a p s) = g_heap_total_bytes s + p * MM_PAGE_SIZE"
  by (simp_all add: mm_grow_link_def upd_block_def Let_def)

lemma mm_grow_link_rep:
  assumes rep: "heap_rep s xs" and "a \<noteq> 0" "a \<notin> baddr ` set xs"
  shows "heap_rep (mm_grow_link a p s) (xs @ [\<lparr>baddr = a, bsize = p * 4096 - 16, bfree = True\<rparr>])"
proof (cases xs rule: rev_cases)
  case Nil
  with assms show ?thesis by (simp add: heap_rep_def mm_grow_link_def upd_block_def Let_def hdr_def)
next
  case (snoc ls l)
  with assms show ?thesis
    by (auto simp: heap_rep_def mm_grow_link_def upd_block_def Let_def hdr_def image_Un)
qed

text \<open>The grown block is well placed.\<close>

lemma grow_block:
  assumes "free_run used n st" "0 < st" "0 < n" "unat (p :: u32) = n"
  defines "b \<equiv> \<lparr>baddr = of_nat st * 4096, bsize = p * 4096 - 16, bfree = True\<rparr>"
  shows "unat (baddr b) = st * 4096" "unat (bsize b) = n * 4096 - 16" "bend b = (st + n) * 4096"
    "blk_ok b" "baddr b \<noteq> 0" "unat (p * 4096) = n * 4096"
proof -
  have le: "st + n \<le> MM_MAX_PAGES" using assms(1) by (simp add: free_run_def)
  show a: "unat (baddr b) = st * 4096" using le by (simp add: b_def unat_page_addr)
  show pn: "unat (p * 4096) = n * 4096" using le assms(4) by (simp add: unat_word_ariths)
  then have "(16 :: u32) \<le> p * 4096" using assms(3) by (simp add: word_le_nat_alt)
  then show z: "unat (bsize b) = n * 4096 - 16" using pn by (simp add: b_def unat_sub)
  show e: "bend b = (st + n) * 4096" using a z assms(3) by (simp add: bend_def algebra_simps)
  show "blk_ok b" unfolding blk_ok_def e a z using le assms(3) by (simp add: dvd_diff_nat)
  show "baddr b \<noteq> 0" using a assms(2) by (metis unat_0 mult_is_0 neq0_conv zero_neq_numeral)
qed

lemma blk_disj_page_run:
  assumes pb: "pages_back s xs" and b: "b \<in> set xs"
    and run: "free_run (g_page_used s) n st"
    and c: "unat (baddr c) = st * 4096" "bend c = (st + n) * 4096"
  shows "blk_disj b c"
proof (rule ccontr)
  assume "\<not> blk_disj b c"
  then have lt: "unat (baddr b) < (st + n) * 4096" "st * 4096 < bend b"
    using c by (auto simp: blk_disj_def)
  define x where "x = max (unat (baddr b)) (st * 4096)"
  have "unat (baddr b) \<le> x" "x < bend b" using lt by (auto simp: x_def bend_def)
  then have u: "g_page_used s (x div 4096)" using pb b by (auto simp: pages_back_def)
  have "st * 4096 < (st + n) * 4096" using c by (simp add: bend_def)
  then have "st \<le> x div 4096" "x div 4096 < st + n" using lt by (auto simp: x_def div_less_iff_less_mult less_eq_div_iff_mult_less_eq)
  then obtain j where "j < n" "x div 4096 = st + j" by (metis le_iff_add nat_add_left_cancel_less)
  with run u show False by (auto simp: free_run_def)
qed

lemma mm_grow_link_wf:
  assumes wf: "heap_wf s xs" and run: "free_run (g_page_used s) n st" "0 < st" "0 < n" "unat p = n"
    and s1: "heap_mem s1 = heap_mem s" "g_heap_head s1 = g_heap_head s" "g_heap_tail s1 = g_heap_tail s"
      "g_heap_total_bytes s1 = g_heap_total_bytes s"
    and used: "\<forall>i. g_page_used s1 i \<longleftrightarrow> g_page_used s i \<or> st \<le> i \<and> i < st + n"
  defines "b \<equiv> \<lparr>baddr = of_nat st * 4096, bsize = p * 4096 - 16, bfree = True\<rparr>"
  shows "heap_wf (mm_grow_link (of_nat st * 4096) p s1) (xs @ [b])"
proof -
  note b = grow_block [OF run, folded b_def]
  have disj: "blk_disj c b" if "c \<in> set xs" for c
    using wf that b by (intro blk_disj_page_run [OF _ _ run(1)]) (auto simp: heap_wf_def)
  have "baddr c \<noteq> baddr b" if "c \<in> set xs" for c
    using disj [OF that] by (auto simp: blk_disj_def bend_def)
  then have fresh: "baddr b \<notin> baddr ` set xs" by (metis imageE)
  have "heap_rep s1 xs" using wf s1 by (simp add: heap_wf_def heap_rep_def)
  then have rep: "heap_rep (mm_grow_link (of_nat st * 4096) p s1) (xs @ [b])"
    using mm_grow_link_rep [of s1 xs "baddr b" p] b(5) fresh by (simp add: b_def)
  have wfb: "blocks_wf (xs @ [b])"
    using wf b(4) disj by (auto simp: heap_wf_def blocks_wf_def sorted_wrt_append)
  have "g_page_used s1 (x div 4096)" if "unat (baddr b) \<le> x" "x < bend b" for x
    using that b used by (auto simp: div_less_iff_less_mult less_eq_div_iff_mult_less_eq)
  then have pages: "pages_back (mm_grow_link (of_nat st * 4096) p s1) (xs @ [b])"
    using wf used by (auto simp: heap_wf_def pages_back_def)
  have "heap_bytes (xs @ [b]) = heap_bytes xs + n * 4096"
    using b(2) run(3) by (simp add: heap_bytes_def)
  moreover have "heap_bytes (xs @ [b]) \<le> 4096 * MM_MAX_PAGES" by (rule blocks_wf_bytes [OF wfb])
  ultimately have "unat (g_heap_total_bytes s1 + p * 4096) = heap_bytes (xs @ [b])"
    using wf s1 b(6) by (subst unat_add_no_wrap) (auto simp: heap_wf_def)
  with rep wfb pages wf used show ?thesis by (simp add: heap_wf_def)
qed

lemma mm_absorb_last_keeps:
  assumes "heap_rep s (ls @ [b, c])"
  shows "heap_mem (mm_absorb_next (baddr b) s) (baddr c) = heap_mem s (baddr c)"
  using assms by (auto simp: heap_rep_def mm_absorb_next_def upd_block_def Let_def hdr_def)

text \<open>
  Linking grown pages behind a coalesced list: if the old tail is free and ends where the pages
  begin, it absorbs them, and the stale header of the pages still names it as its predecessor.
\<close>

lemma grow_tail:
  assumes wf: "heap_wf s (xs @ [b])" and co: "coalesced xs" and b: "bfree b"
  defines "pv \<equiv> block_prev (heap_mem s (baddr b))"
  shows "\<exists>t ls d.
    (if pv \<noteq> 0 \<and> block_free (heap_mem s pv) \<and> mm_blocks_adjacent pv (baddr b) s
     then (case mm_coalesce_block pv s of
             None \<Rightarrow> None | Some s5 \<Rightarrow> Some (block_prev (heap_mem s5 (baddr b)), s5))
     else Some (baddr b, s)) = Some (baddr d, t) \<and>
    heap_inv t (ls @ [d]) \<and> bfree d \<and> bsize b \<le> bsize d \<and> same_pages s t \<and>
    allocated (ls @ [d]) = allocated xs"
proof -
  have rep: "heap_rep s (xs @ [b])" using wf by (simp add: heap_wf_def)
  have pv: "pv = last_addr 0 xs" using heap_rep_hdr(1) [OF rep] by (simp add: pv_def)
  have al: "allocated (xs @ [b]) = allocated xs" using b by (auto simp: allocated_def)
  show ?thesis
  proof (cases "\<exists>ls a. xs = ls @ [a] \<and> bfree a \<and> bend a = unat (baddr b)")
    case False
    have "\<not> (pv \<noteq> 0 \<and> block_free (heap_mem s pv) \<and> mm_blocks_adjacent pv (baddr b) s)"
    proof (cases xs rule: rev_cases)
      case (snoc ls a)
      have "heap_mem s (baddr a) = hdr a (baddr b) (last_addr 0 ls)"
        using heap_rep_hdr(1) [of s ls a "[b]"] rep snoc by simp
      moreover have "blk_ok a" using wf snoc by (auto intro: heap_wf_blk_ok)
      ultimately show ?thesis
        using False snoc pv by (auto simp: mm_blocks_adjacent_def blk_adjacent_iff)
    qed (simp add: pv)
    moreover have "coalesced (xs @ [b])" using co False by (auto simp: coalesced_snoc)
    ultimately show ?thesis using wf b al by (intro exI [of _ s] exI [of _ xs] exI [of _ b]) (auto simp: heap_inv_def)
  next
    case True
    then obtain ls a where xs: "xs = ls @ [a]" and a: "bfree a" "bend a = unat (baddr b)" by blast
    have wf': "heap_wf s (ls @ a # b # [])" using wf xs by simp
    have ok: "blk_ok a" "blk_ok b" using wf' by (auto intro: heap_wf_blk_ok)
    note m = merge_props [OF ok a(2)]
    let ?t = "mm_absorb_next (baddr a) s"
    have wf1: "heap_wf ?t (ls @ [merge a b])" by (rule heap_wf_absorb [OF wf' b a(2)])
    have prev: "\<not> (bfree d \<and> bend d = unat (baddr (merge a b)))" if "ls = ds @ [d]" for ds d
      using co [unfolded xs that coalesced_snoc] a m by auto
    have "mm_coalesce_block (baddr a) s = Some ?t"
      using coalesce_next [OF wf' b a(2)] coalesce_stop [OF wf1] prev m by auto
    moreover have ha: "heap_mem s (baddr a) = hdr a (baddr b) (last_addr 0 ls)" "baddr a \<noteq> 0"
      using heap_rep_hdr [of s ls a "[b]"] rep xs by simp_all
    moreover have "heap_mem ?t (baddr b) = hdr b 0 (baddr a)"
      using mm_absorb_last_keeps [of s ls a b] rep xs heap_rep_hdr(1) [OF rep] by simp
    moreover have "coalesced (ls @ [merge a b])"
      using co xs prev by (auto simp: coalesced_snoc)
    moreover have "bsize b \<le> bsize (merge a b)"
      using merge_size [OF ok a(2)] by (simp add: word_le_nat_alt)
    moreover have "allocated (ls @ [merge a b]) = allocated xs"
      using allocated_absorb [OF a(1) b, of ls "[]"] al xs by simp
    moreover have "same_pages s ?t" by (rule same_pages_ops(2))
    moreover have "baddr b \<noteq> 0" using heap_rep_hdr(2) [OF rep] .
    ultimately show ?thesis
      using wf1 a ok pv xs m
      by (intro exI [of _ ?t] exI [of _ ls] exI [of _ "merge a b"])
        (auto simp: heap_inv_def mm_blocks_adjacent_def blk_adjacent_iff)
  qed
qed

lemma pages_needed:
  assumes "unat (sz::u32) + 16 + 4095 < 2 ^ 32"
  shows "unat ((sz + 16 + 4096 - 1) div 4096) = (unat sz + 4111) div 4096"
proof -
  have "sz + 16 + 4096 - 1 = sz + 4111" by simp
  moreover have "unat (sz + 4111) = unat sz + 4111" using assms by (subst unat_add_no_wrap) auto
  ultimately show ?thesis by (simp only: unat_div) simp
qed

lemma mm_grow_heap_inv:
  assumes inv: "heap_inv s xs" and sz: "unat sz + 16 + 4095 < 2 ^ 32"
  obtains (none) "mm_grow_heap sz s = Some (0, s)"
      "\<forall>st. \<not> free_run (g_page_used s) ((unat sz + 4111) div 4096) st"
  | (grown) t ls d where "mm_grow_heap sz s = Some (baddr d, t)" "heap_inv t (ls @ [d])"
      "bfree d" "sz \<le> bsize d" "allocated (ls @ [d]) = allocated xs"
      "g_initialized t = g_initialized s" "page_accounting s \<longrightarrow> page_accounting t"
proof -
  let ?p = "(sz + 16 + 4096 - 1) div 4096 :: u32"
  note pn = pages_needed [OF sz]
  have wf: "heap_wf s xs" and co: "coalesced xs" using inv by (auto simp: heap_inv_def)
  have pos: "0 < ?p" using pn by (simp add: word_less_nat_alt)
  have "g_page_used s 0" using wf by (simp add: heap_wf_def)
  with pos show thesis
  proof (cases rule: mm_alloc_pages_cases)
    case none
    then show thesis using pn by (intro that(1)) (auto simp: mm_grow_heap_def)
  next
    case (run st s1)
    define b where "b = \<lparr>baddr = of_nat st * 4096, bsize = ?p * 4096 - 16, bfree = True\<rparr>"
    define s4 where "s4 = mm_grow_link (of_nat st * 4096) ?p s1"
    have frame: "heap_mem s1 = heap_mem s" "g_heap_head s1 = g_heap_head s" "g_heap_tail s1 = g_heap_tail s"
      "g_heap_total_bytes s1 = g_heap_total_bytes s" "g_initialized s1 = g_initialized s"
      using mm_alloc_pages_frame [of ?p s] unfolding run(1) by simp_all
    have n: "0 < unat ?p" using pos by (simp add: word_less_nat_alt)
    note gb = grow_block [OF run(2,3) n refl, folded b_def]
    have wf4: "heap_wf s4 (xs @ [b])"
      unfolding b_def s4_def by (rule mm_grow_link_wf [OF wf run(2,3) n refl frame(1-4) run(5)])
    have b: "bfree b" "baddr b = of_nat st * 4096" by (simp_all add: b_def)
    from grow_tail [OF wf4 co b(1)] obtain t ls d where
      t: "(if block_prev (heap_mem s4 (baddr b)) \<noteq> 0 \<and>
            block_free (heap_mem s4 (block_prev (heap_mem s4 (baddr b)))) \<and>
            mm_blocks_adjacent (block_prev (heap_mem s4 (baddr b))) (baddr b) s4
          then (case mm_coalesce_block (block_prev (heap_mem s4 (baddr b))) s4 of
             None \<Rightarrow> None | Some s5 \<Rightarrow> Some (block_prev (heap_mem s5 (baddr b)), s5))
          else Some (baddr b, s4)) = Some (baddr d, t)"
        "heap_inv t (ls @ [d])" "bfree d" "bsize b \<le> bsize d" "same_pages s4 t"
        "allocated (ls @ [d]) = allocated xs" by blast
    have "mm_grow_heap sz s = Some (baddr d, t)"
      unfolding mm_grow_heap_def Let_def run(1) prod.case b(2) [symmetric]
        s4_def [folded b(2), symmetric]
      using t(1) gb(5) by simp
    moreover have "sz \<le> bsize b"
    proof -
      have "unat sz + 16 \<le> (unat sz + 4111) div 4096 * 4096" by linarith
      then show ?thesis using gb(2) pn by (simp add: word_le_nat_alt)
    qed
    moreover have "page_accounting s \<longrightarrow> page_accounting t"
      using page_accounting_alloc [of s ?p] run(1) t(5)
      by (auto simp: page_accounting_def same_pages_def s4_def)
    ultimately show thesis
      using t frame by (intro that(2)) (auto simp: same_pages_def s4_def intro: order_trans)
  qed
qed

subsection \<open>Carving a block\<close>

lemma blk_free_update [simp]: "bend (b\<lparr>bfree := f\<rparr>) = bend b" "blk_ok (b\<lparr>bfree := f\<rparr>) = blk_ok b"
  by (simp_all add: bend_def blk_ok_def)

lemma blk_disj_free_update [simp]:
  "blk_disj (b\<lparr>bfree := f\<rparr>) c = blk_disj b c" "blk_disj c (b\<lparr>bfree := f\<rparr>) = blk_disj c b"
  by (simp_all add: blk_disj_def)

lemma heap_wf_set_free:
  assumes wf: "heap_wf s (ls @ b # rs)"
  shows "heap_wf (upd_block (baddr b) (\<lambda>h. h\<lparr>block_free := f\<rparr>) s) (ls @ b\<lparr>bfree := f\<rparr> # rs)"
proof (rule heap_wf_same_pages [OF wf same_pages_ops(1)])
  show "heap_rep (upd_block (baddr b) (\<lambda>h. h\<lparr>block_free := f\<rparr>) s) (ls @ b\<lparr>bfree := f\<rparr> # rs)"
    using wf by (auto simp: heap_wf_def intro: heap_rep_set_free)
  show "blocks_wf (ls @ b\<lparr>bfree := f\<rparr> # rs)"
    using wf by (auto simp: heap_wf_def blocks_wf_def sorted_wrt_append)
  show "pages_back s (ls @ b\<lparr>bfree := f\<rparr> # rs)"
    using wf by (auto simp: heap_wf_def pages_back_def)
  show "heap_bytes (ls @ b\<lparr>bfree := f\<rparr> # rs) = heap_bytes (ls @ b # rs)"
    by (simp add: heap_bytes_def)
qed

lemma split_sizes:
  assumes ok: "blk_ok b" and sz: "sz \<le> bsize b" "4 dvd unat sz" and big: "\<not> bsize b < sz + 20"
  defines "r \<equiv> \<lparr>baddr = baddr b + 16 + sz, bsize = bsize b - sz - 16, bfree = True\<rparr>"
  shows "unat (baddr r) = unat (baddr b) + 16 + unat sz"
    "unat (bsize r) = unat (bsize b) - unat sz - 16" "bend r = bend b" "blk_ok r"
    "blk_ok (b\<lparr>bsize := sz\<rparr>)" "bend (b\<lparr>bsize := sz\<rparr>) = unat (baddr r)"
    "unat sz + 20 \<le> unat (bsize b)"
proof -
  have szn: "unat sz \<le> unat (bsize b)" using sz by (simp add: word_le_nat_alt)
  have bb: "unat (baddr b) + 16 + unat (bsize b) \<le> 4096 * MM_MAX_PAGES"
    using ok by (simp add: blk_ok_def bend_def)
  have "unat (sz + 20) = unat sz + 20" using szn bb by (subst unat_add_no_wrap) auto
  then show le: "unat sz + 20 \<le> unat (bsize b)" using big by (simp add: word_less_nat_alt)
  show a: "unat (baddr r) = unat (baddr b) + 16 + unat sz"
    using szn bb unfolding r_def by (simp, subst unat_add_no_wrap; (subst unat_add_no_wrap)?) auto
  have "unat (bsize b - sz) = unat (bsize b) - unat sz" using sz(1) by (rule unat_sub)
  moreover from this have "(16::u32) \<le> bsize b - sz" using le by (simp add: word_le_nat_alt)
  ultimately show z: "unat (bsize r) = unat (bsize b) - unat sz - 16"
    by (simp add: r_def unat_sub)
  show e: "bend r = bend b" unfolding bend_def a z using le by simp
  show "blk_ok r" using ok sz(2) unfolding blk_ok_def e a z by (simp add: dvd_diff_nat)
  show "blk_ok (b\<lparr>bsize := sz\<rparr>)" using ok sz szn by (simp add: blk_ok_def bend_def)
  show "bend (b\<lparr>bsize := sz\<rparr>) = unat (baddr r)" unfolding a by (simp add: bend_def)
qed

lemma heap_wf_split:
  assumes wf: "heap_wf s (ls @ b # rs)"
    and sz: "sz \<le> bsize b" "4 dvd unat sz" and big: "\<not> bsize b < sz + 20"
  defines "r \<equiv> \<lparr>baddr = baddr b + 16 + sz, bsize = bsize b - sz - 16, bfree = True\<rparr>"
  shows "heap_wf (mm_split_block (baddr b) sz s) (ls @ b\<lparr>bsize := sz\<rparr> # r # rs)"
proof -
  have ok: "blk_ok b" using wf by (auto intro: heap_wf_blk_ok)
  note r = split_sizes [OF ok sz big, folded r_def]
  have in_b: "unat (baddr b) < unat (baddr r)" "unat (baddr r) < bend b"
    using r(1,2,3,7) by (auto simp: bend_def)
  have disj_all: "blk_disj c b \<or> blk_disj b c" if "c \<in> set ls \<union> set rs" for c
    using wf that by (auto simp: heap_wf_def blocks_wf_def sorted_wrt_append)
  have part: "blk_disj c r" "blk_disj r c" "blk_disj c (b\<lparr>bsize := sz\<rparr>)" "blk_disj (b\<lparr>bsize := sz\<rparr>) c"
    if "c \<in> set ls \<union> set rs" for c
    using disj_all [OF that] r in_b by (auto simp: blk_disj_def)
  have "unat (baddr c) \<noteq> unat (baddr r)" if "c \<in> set ls \<union> set rs" for c
    using part(1) [OF that] by (auto simp: blk_disj_def bend_def)
  then have "baddr r \<notin> baddr ` set (ls @ b # rs)" using in_b by auto metis+
  moreover have "baddr r \<noteq> 0" using in_b by (auto simp: word_unat_eq_iff)
  ultimately have rep: "heap_rep (mm_split_block (baddr b) sz s) (ls @ b\<lparr>bsize := sz\<rparr> # r # rs)"
    using wf big unfolding r_def by (intro mm_split_block_rep) (auto simp: heap_wf_def)
  have wfb: "blocks_wf (ls @ b\<lparr>bsize := sz\<rparr> # r # rs)"
    using wf part r by (auto simp: heap_wf_def blocks_wf_def sorted_wrt_append) (auto simp: blk_disj_def)
  have pages: "pages_back s (ls @ b\<lparr>bsize := sz\<rparr> # r # rs)"
    using wf r in_b by (auto simp: heap_wf_def pages_back_def)
  have "heap_bytes (ls @ b\<lparr>bsize := sz\<rparr> # r # rs) = heap_bytes (ls @ b # rs)"
    using r(2,7) by (simp add: heap_bytes_def)
  then show ?thesis by (intro heap_wf_same_pages [OF wf same_pages_ops(3) rep wfb pages])
qed

text \<open>
  Carving \<open>sz\<close> bytes out of a free block adds one allocated block at the same address and leaves
  the other allocated blocks alone.
\<close>

lemma mm_take_block_inv:
  assumes inv: "heap_inv s (ls @ b # rs)" and b: "bfree b"
    and sz: "sz \<le> bsize b" "4 dvd unat sz"
  obtains ys nb where "heap_inv (mm_take_block sz (baddr b) s) ys" "baddr nb = baddr b" "sz \<le> bsize nb"
    "\<not> bfree nb" "allocated ys = insert nb (allocated (ls @ b # rs))" "nb \<notin> allocated (ls @ b # rs)"
    "same_pages s (mm_take_block sz (baddr b) s)"
proof -
  have wf: "heap_wf s (ls @ b # rs)" and co: "coalesced (ls @ b # rs)"
    using inv by (auto simp: heap_inv_def)
  have rep: "heap_rep s (ls @ b # rs)" using wf by (simp add: heap_wf_def)
  have fresh: "nb \<notin> allocated (ls @ b # rs)" if "baddr nb = baddr b" for nb
    using rep b that by (auto simp: allocated_def heap_rep_def) (metis imageI)+
  have sp: "same_pages s (mm_take_block sz (baddr b) s)"
    unfolding mm_take_block_def by (rule same_pages_trans [OF same_pages_ops(3) same_pages_ops(1)])
  show thesis
  proof (cases "bsize b < sz + 20")
    case True
    then have "mm_split_block (baddr b) sz s = s"
      using heap_rep_hdr [OF rep] by (simp add: mm_split_block_def Let_def)
    then have "heap_wf (mm_take_block sz (baddr b) s) (ls @ b\<lparr>bfree := False\<rparr> # rs)"
      unfolding mm_take_block_def using heap_wf_set_free [OF wf] by simp
    moreover have "coalesced (ls @ b\<lparr>bfree := False\<rparr> # rs)"
      using co by (auto simp: coalesced_append coalesced_Cons)
    moreover have "allocated (ls @ b\<lparr>bfree := False\<rparr> # rs) =
        insert (b\<lparr>bfree := False\<rparr>) (allocated (ls @ b # rs))"
      using b by (auto simp: allocated_def)
    ultimately show thesis
      using sz sp fresh by (intro that [of "ls @ b\<lparr>bfree := False\<rparr> # rs" "b\<lparr>bfree := False\<rparr>"])
        (simp_all add: heap_inv_def)
  next
    case False
    define r where "r = \<lparr>baddr = baddr b + 16 + sz, bsize = bsize b - sz - 16, bfree = True\<rparr>"
    have ok: "blk_ok b" using wf by (auto intro: heap_wf_blk_ok)
    note rz = split_sizes [OF ok sz False, folded r_def]
    let ?nb = "b\<lparr>bsize := sz, bfree := False\<rparr>" and ?b1 = "b\<lparr>bsize := sz\<rparr>"
    have wf1: "heap_wf (mm_split_block (baddr b) sz s) (ls @ ?b1 # r # rs)"
      unfolding r_def by (rule heap_wf_split [OF wf sz False])
    have "heap_wf (mm_take_block sz (baddr b) s) (ls @ ?nb # r # rs)"
      using heap_wf_set_free [OF wf1, of False] by (simp add: mm_take_block_def)
    moreover have "coalesced (ls @ ?nb # r # rs)"
      using co b rz(3) by (auto simp: coalesced_append coalesced_Cons r_def)
    moreover have "allocated (ls @ ?nb # r # rs) = insert ?nb (allocated (ls @ b # rs))"
      using b by (auto simp: allocated_def r_def)
    ultimately show thesis
      using sz sp fresh by (intro that [of "ls @ ?nb # r # rs" ?nb]) (simp_all add: heap_inv_def)
  qed
qed

subsection \<open>What the allocator promises\<close>

lemma align_alloc_bounds:
  assumes "unat size0 + 4114 < 2 ^ 32"
  shows "unat (mm_align_alloc_size size0) + 16 + 4095 < 2 ^ 32"
    "4 dvd unat (mm_align_alloc_size size0)" "size0 \<le> mm_align_alloc_size size0"
proof -
  have e: "unat (mm_align_alloc_size size0) = (unat size0 + 3) div 4 * 4"
    using assms by (intro unat_align_alloc) simp
  show "unat (mm_align_alloc_size size0) + 16 + 4095 < 2 ^ 32" unfolding e using assms by linarith
  show "4 dvd unat (mm_align_alloc_size size0)" unfolding e by simp
  show "size0 \<le> mm_align_alloc_size size0" unfolding word_le_nat_alt e by linarith
qed

lemma heap_inv_nonzero: "heap_inv s xs \<Longrightarrow> b \<in> set xs \<Longrightarrow> baddr b \<noteq> 0"
  by (auto simp: heap_inv_def heap_wf_def heap_rep_def dest: dlseg_nonzero)

lemma heap_inv_user_addr:
  assumes "heap_inv s xs" "b \<in> set xs"
  shows "unat (baddr b + 16) = unat (baddr b) + 16" "baddr b + 16 \<noteq> 0"
proof -
  have "blk_ok b" using assms by (auto simp: heap_inv_def intro: heap_wf_blk_ok)
  then show u: "unat (baddr b + 16) = unat (baddr b) + 16"
    by (subst unat_add_no_wrap) (auto simp: blk_ok_def bend_def)
  then show "baddr b + 16 \<noteq> 0" by (metis add_is_0 unat_0 zero_neq_numeral)
qed

text \<open>One allocation, from any well-formed heap.\<close>

lemma kmalloc_core_cases:
  assumes inv: "heap_inv s xs" and init: "g_initialized s"
    and size0: "0 < size0" "unat size0 + 4114 < 2 ^ 32"
  obtains (fail) "kmalloc_core size0 s = Some (0, s)"
      "\<forall>b \<in> set xs. bfree b \<longrightarrow> unat (bsize b) < (unat size0 + 3) div 4 * 4"
      "\<forall>st. \<not> free_run (g_page_used s) (((unat size0 + 3) div 4 * 4 + 4111) div 4096) st"
  | (ok) t ys nb where "kmalloc_core size0 s = Some (baddr nb + 16, t)" "heap_inv t ys"
      "allocated ys = insert nb (allocated xs)" "nb \<notin> allocated xs" "size0 \<le> bsize nb" "\<not> bfree nb"
      "g_initialized t" "page_accounting s \<longrightarrow> page_accounting t"
proof -
  define sz where "sz = mm_align_alloc_size size0"
  note al = align_alloc_bounds [OF size0(2), folded sz_def]
  have szn: "unat sz = (unat size0 + 3) div 4 * 4"
    unfolding sz_def using size0(2) by (intro unat_align_alloc) simp
  let ?fit = "\<lambda>b. bfree b \<and> sz \<le> bsize b"
  have rep: "heap_rep s xs" using inv by (simp add: heap_inv_def heap_wf_def)
  note find = mm_find_free_block_rep [OF rep, of sz]
  have nz: "size0 \<noteq> 0" using size0(1) by auto
  show thesis
  proof (cases "List.find ?fit xs")
    case (Some b)
    then have "b \<in> set xs" and fit: "?fit b" by (auto simp: find_Some_iff)
    then obtain ls rs where xs: "xs = ls @ b # rs" by (auto simp: in_set_conv_decomp)
    have "heap_inv s (ls @ b # rs)" using inv xs by simp
    from mm_take_block_inv [OF this _ _ al(2)] fit obtain ys nb where
      t: "heap_inv (mm_take_block sz (baddr b) s) ys" "baddr nb = baddr b" "sz \<le> bsize nb" "\<not> bfree nb"
        "allocated ys = insert nb (allocated xs)" "nb \<notin> allocated xs"
        "same_pages s (mm_take_block sz (baddr b) s)" using xs by auto
    have km: "kmalloc_core size0 s = Some (baddr nb + 16, mm_take_block sz (baddr b) s)"
      using find Some nz init t(2) heap_inv_nonzero [OF inv, of b] xs
      by (simp add: kmalloc_core_def sz_def Let_def)
    have ge: "size0 \<le> bsize nb" using al(3) t(3) by (rule order_trans)
    show thesis
      by (rule ok [OF km t(1,5,6) ge t(4)])
        (use t(7) init in \<open>simp_all add: same_pages_def page_accounting_def\<close>)
  next
    case None
    then have none: "\<forall>b \<in> set xs. bfree b \<longrightarrow> unat (bsize b) < unat sz"
      by (auto simp: find_None_iff word_le_nat_alt not_le)
    from inv al(1) show thesis
    proof (cases rule: mm_grow_heap_inv)
      case none': none
      then have "kmalloc_core size0 s = Some (0, s)"
        using find None nz init by (simp add: kmalloc_core_def sz_def Let_def)
      then show thesis by (rule fail [OF _ none [unfolded szn] none'(2) [unfolded szn]])
    next
      case (grown s1 ls d)
      from mm_take_block_inv [OF grown(2,3,4) al(2)] obtain ys nb where
        t: "heap_inv (mm_take_block sz (baddr d) s1) ys" "baddr nb = baddr d" "sz \<le> bsize nb" "\<not> bfree nb"
          "allocated ys = insert nb (allocated xs)" "nb \<notin> allocated xs"
          "same_pages s1 (mm_take_block sz (baddr d) s1)" using grown(5) by auto
      have km: "kmalloc_core size0 s = Some (baddr nb + 16, mm_take_block sz (baddr d) s1)"
        using find None nz init t(2) heap_inv_nonzero [OF grown(2), of d] grown(1)
        by (simp add: kmalloc_core_def sz_def Let_def)
      have ge: "size0 \<le> bsize nb" using al(3) t(3) by (rule order_trans)
      show thesis
        by (rule ok [OF km t(1,5,6) ge t(4)])
          (use t(7) init grown(6,7) in \<open>simp_all add: same_pages_def page_accounting_def\<close>)
    qed
  qed
qed

lemma kfree_core_inv:
  assumes inv: "heap_inv s xs" and nb: "nb \<in> allocated xs"
  obtains t ys where "kfree_core (baddr nb + 16) s = Some t" "heap_inv t ys"
    "allocated ys = allocated xs - {nb}" "same_pages s t"
proof -
  obtain ls rs where xs: "xs = ls @ nb # rs" and al: "\<not> bfree nb"
    using nb by (auto simp: allocated_def in_set_conv_decomp)
  have wf: "heap_wf s (ls @ nb # rs)" and co: "coalesced (ls @ nb # rs)"
    using inv xs by (auto simp: heap_inv_def)
  let ?s1 = "upd_block (baddr nb) (\<lambda>h. h\<lparr>block_free := True\<rparr>) s" and ?b = "nb\<lparr>bfree := True\<rparr>"
  have wf1: "heap_wf ?s1 (ls @ ?b # rs)" by (rule heap_wf_set_free [OF wf])
  have "coalesced ls" "coalesced rs" using co by (auto simp: coalesced_append coalesced_Cons)
  from mm_coalesce_block_inv [OF wf1 _ this] obtain t ys where
    t: "mm_coalesce_block (baddr nb) ?s1 = Some t" "heap_inv t ys" "same_pages ?s1 t"
      "allocated ys = allocated (ls @ ?b # rs)" by auto
  have "nb \<notin> set ls" "nb \<notin> set rs"
    using wf by (auto simp: heap_wf_def heap_rep_def)
  moreover have "?b \<noteq> nb" using al by (cases nb) simp
  ultimately have "allocated (ls @ ?b # rs) = allocated xs - {nb}"
    unfolding xs using al by (auto simp: allocated_def)
  then have al': "allocated ys = allocated xs - {nb}" using t(4) by simp
  have "baddr nb + 16 \<noteq> 0" using heap_inv_user_addr(2) [OF inv, of nb] xs by simp
  then have "kfree_core (baddr nb + 16) s = Some t" using t(1) by (simp add: kfree_core_def Let_def)
  then show thesis
    by (rule that [OF _ t(2) al' same_pages_trans [OF same_pages_ops(1) t(3)]])
qed

end
