(* ===== verification/Mm_Alloc.thy ===== *)
theory Mm_Alloc
  imports Mm_Heap
begin

text \<open>
  The contract of the kernel heap, for the code that calls \<open>kmalloc\<close> and \<open>kfree\<close>
  (\<open>src/src/kernel/core/mm/mm_core.c\<close>). The locale \<open>allocator\<close> states what a client relies on: the
  memory it holds is a set of disjoint regions, an allocation adds one fresh region that is large
  enough or changes nothing, and a free removes exactly one region. A session of any length of
  requests is shown to run to its end under that contract, and the contract is discharged for
  \<open>kmalloc_core\<close> and \<open>kfree_core\<close>. The accounting of \<open>mm_core_get_stats\<close> and the sizes for which the
  contract is lost are at the end.
\<close>

subsection \<open>The interface\<close>

text \<open>A region is the start and the number of bytes of a piece of memory.\<close>

type_synonym region = "nat \<times> nat"

definition region_disj :: "region \<Rightarrow> region \<Rightarrow> bool" where
  "region_disj r q \<longleftrightarrow> fst r + snd r \<le> fst q \<or> fst q + snd q \<le> fst r"

datatype 'n heap_req =
  Alloc 'n
| Free nat

text \<open>
  A client's session: the pointers it holds, the newest first; \<open>Free i\<close> releases the one at
  position \<open>i\<close> and is skipped when there is none. The result is \<open>None\<close> when a call does not return.
\<close>

fun heap_session :: "('n \<Rightarrow> 's \<Rightarrow> ('p \<times> 's) option) \<Rightarrow> ('p \<Rightarrow> 's \<Rightarrow> 's option) \<Rightarrow> 'p \<Rightarrow>
    'n heap_req list \<Rightarrow> 's \<Rightarrow> 'p list \<Rightarrow> ('s \<times> 'p list) option" where
  "heap_session al fr null [] s ps = Some (s, ps)"
| "heap_session al fr null (Alloc n # rs) s ps =
     (case al n s of None \<Rightarrow> None
      | Some (p, t) \<Rightarrow> heap_session al fr null rs t (if p = null then ps else p # ps))"
| "heap_session al fr null (Free i # rs) s ps =
     (if i < length ps
      then (case fr (ps ! i) s of None \<Rightarrow> None
            | Some t \<Rightarrow> heap_session al fr null rs t (take i ps @ drop (Suc i) ps))
      else heap_session al fr null rs s ps)"

locale allocator =
  fixes al :: "'n \<Rightarrow> 's \<Rightarrow> ('p \<times> 's) option" and fr :: "'p \<Rightarrow> 's \<Rightarrow> 's option"
    and null :: 'p and holds :: "'s \<Rightarrow> region set \<Rightarrow> bool"
    and bytes :: "'n \<Rightarrow> nat" and valid :: "'n \<Rightarrow> bool" and start :: "'p \<Rightarrow> nat"
  assumes regions_disjoint: "\<lbrakk>holds s R; r \<in> R; q \<in> R; r \<noteq> q\<rbrakk> \<Longrightarrow> region_disj r q"
    and starts_differ: "\<lbrakk>holds s R; r \<in> R; q \<in> R; fst r = fst q\<rbrakk> \<Longrightarrow> r = q"
    and alloc_law: "\<lbrakk>holds s R; valid n\<rbrakk> \<Longrightarrow> \<exists>p t. al n s = Some (p, t) \<and>
      (if p = null then holds t R
       else (\<exists>r. fst r = start p \<and> bytes n \<le> snd r \<and> r \<notin> R \<and> holds t (insert r R)))"
    and free_law: "\<lbrakk>holds s R; r \<in> R; start p = fst r\<rbrakk> \<Longrightarrow> \<exists>t. fr p s = Some t \<and> holds t (R - {r})"
begin

text \<open>The client's pointers are the starts of its regions, one pointer for each.\<close>

definition owns :: "'s \<Rightarrow> 'p list \<Rightarrow> region set \<Rightarrow> bool" where
  "owns s ps R \<longleftrightarrow> holds s R \<and> distinct (map start ps) \<and> start ` set ps = fst ` R"

lemma owns_alloc:
  assumes "owns s ps R" "valid n"
  obtains p t R' where "al n s = Some (p, t)" "owns t (if p = null then ps else p # ps) R'"
proof -
  obtain p t where a: "al n s = Some (p, t)" "if p = null then holds t R
      else (\<exists>r. fst r = start p \<and> bytes n \<le> snd r \<and> r \<notin> R \<and> holds t (insert r R))"
    using alloc_law assms unfolding owns_def by meson
  show thesis
  proof (cases "p = null")
    case True
    then show thesis using a assms that [of p t R] by (simp add: owns_def)
  next
    case False
    then obtain r where r: "fst r = start p" "r \<notin> R" "holds t (insert r R)" using a(2) by auto
    have "fst r \<notin> fst ` R" using starts_differ [OF r(3)] r(2) by blast
    then show thesis using False a r assms that [of p t "insert r R"] by (auto simp: owns_def)
  qed
qed

lemma owns_free:
  assumes "owns s ps R" "i < length ps"
  obtains t R' where "fr (ps ! i) s = Some t" "owns t (take i ps @ drop (Suc i) ps) R'"
proof -
  define ls x qs where "ls = take i ps" and "x = ps ! i" and "qs = drop (Suc i) ps"
  have ps: "ps = ls @ x # qs"
    unfolding ls_def x_def qs_def using assms(2) by (rule id_take_nth_drop)
  have h: "holds s R" and d: "distinct (map start (ls @ x # qs))"
    and st: "start ` set (ls @ x # qs) = fst ` R"
    using assms(1) unfolding owns_def ps by blast+
  from st have "start x \<in> fst ` R" by auto
  then obtain r where r: "r \<in> R" "start x = fst r" by blast
  obtain t where t: "fr x s = Some t" "holds t (R - {r})" using free_law [OF h r] by blast
  have "fst ` (R - {r}) = fst ` R - {fst r}"
  proof -
    have "fst q \<noteq> fst r" if "q \<in> R - {r}" for q using starts_differ [OF h _ r(1), of q] that by auto
    then show ?thesis by (force simp del: split_paired_All)
  qed
  then have "distinct (map start (ls @ qs))" "start ` set (ls @ qs) = fst ` (R - {r})"
    using d st [symmetric] r(2) by (auto, (metis imageI)+)
  then show thesis
    using that [of t "R - {r}"] t unfolding owns_def ls_def x_def qs_def by blast
qed

lemma session_runs:
  assumes "owns s ps R" "\<And>n. Alloc n \<in> set rs \<Longrightarrow> valid n"
  shows "\<exists>t qs R'. heap_session al fr null rs s ps = Some (t, qs) \<and> owns t qs R'"
  using assms
proof (induction rs arbitrary: s ps R)
  case Nil
  then show ?case by auto
next
  case (Cons r rs)
  show ?case
  proof (cases r)
    case (Alloc n)
    then have "valid n" using Cons.prems(2) by simp
    from owns_alloc [OF Cons.prems(1) this] obtain p t R' where
      a: "al n s = Some (p, t)" "owns t (if p = null then ps else p # ps) R'" .
    then show ?thesis using Cons.IH [OF a(2)] Cons.prems(2) Alloc by simp
  next
    case (Free i)
    show ?thesis
    proof (cases "i < length ps")
      case True
      from owns_free [OF Cons.prems(1) this] obtain t R' where
        f: "fr (ps ! i) s = Some t" "owns t (take i ps @ drop (Suc i) ps) R'" .
      then show ?thesis using Cons.IH [OF f(2)] Cons.prems(2) Free True by simp
    next
      case False
      then show ?thesis using Cons.IH [OF Cons.prems(1)] Cons.prems(2) Free by simp
    qed
  qed
qed

end

subsection \<open>The heap provides it\<close>

definition blk_region :: "blk \<Rightarrow> region" where
  "blk_region b = (unat (baddr b) + 16, unat (bsize b))"

definition heap_holds :: "mm_state \<Rightarrow> region set \<Rightarrow> bool" where
  "heap_holds s R \<longleftrightarrow> (\<exists>xs. heap_inv s xs \<and> g_initialized s \<and> R = blk_region ` allocated xs)"

text \<open>
  The sizes for which the rounding and the additions of \<open>kmalloc_core\<close> cannot wrap around to a small
  request: all but the last fifteen.
\<close>

definition kmalloc_valid :: "u32 \<Rightarrow> bool" where
  "kmalloc_valid n \<longleftrightarrow> n \<le> 0xFFFFFFF0"

text \<open>
  For the sizes of the last page below that limit the number of pages of \<open>mm_grow_heap\<close> is zero or more
  than there are, so the call fails as it should.
\<close>

lemma grow_pages_huge:
  assumes "2 ^ 32 \<le> unat sz + 4112" "sz \<le> 0xFFFFFFF0"
  shows "mm_grow_heap sz s = Some (0, s)"
proof -
  let ?pages = "(sz + HEAP_HEADER + MM_PAGE_SIZE - 1) div MM_PAGE_SIZE"
  have e: "sz + HEAP_HEADER + MM_PAGE_SIZE - 1 = sz + 4111" by simp
  have "mm_alloc_pages ?pages s = (0, s)"
  proof (cases "unat sz + 4112 = 2 ^ 32")
    case True
    then have "sz = 0xFFFFEFF0" by (simp add: word_unat_eq_iff)
    then have p: "unat ?pages = 0xFFFFF" "0 < ?pages" by simp_all
    have "mm_alloc_scan (g_page_used s) (unat ?pages) 0 0 0 = None"
      using mm_alloc_scan_start [of "unat ?pages" "g_page_used s"] p(1) by (auto simp: free_run_def split: option.splits)
    then show ?thesis by (simp add: mm_alloc_pages_def)
  next
    case False
    have le: "unat sz \<le> 0xFFFFFFF0" using assms(2) by (simp add: word_le_nat_alt)
    have "unat (sz + 4111) = (unat sz + 4111) mod 2 ^ 32" by (simp add: unat_word_ariths take_bit_eq_mod)
    also have "\<dots> = unat sz + 4111 - 2 ^ 32" using False assms(1) le by (simp add: mod_if)
    finally have "unat (sz + 4111) < 4096" using le by simp
    then have "unat ?pages = 0" unfolding e by (simp add: unat_div)
    then have "?pages = 0" by (simp add: unat_eq_0)
    then show ?thesis by (simp add: mm_alloc_pages_def)
  qed
  then show ?thesis by (simp add: mm_grow_heap_def Let_def)
qed

lemma kmalloc_core_huge:
  assumes "heap_inv s xs" "g_initialized s" "2 ^ 32 \<le> unat size0 + 4114" "size0 \<le> 0xFFFFFFF0"
  shows "kmalloc_core size0 s = Some (0, s)"
    "\<forall>b \<in> set xs. bfree b \<longrightarrow> unat (bsize b) < (unat size0 + 3) div 4 * 4"
    "\<forall>st. \<not> free_run (g_page_used s) (((unat size0 + 3) div 4 * 4 + 4111) div 4096) st"
proof -
  define sz where "sz = mm_align_alloc_size size0"
  have le: "unat size0 \<le> 0xFFFFFFF0" using assms(4) by (simp add: word_le_nat_alt)
  then have szn: "unat sz = (unat size0 + 3) div 4 * 4" unfolding sz_def by (intro unat_align_alloc) simp
  have "0x3FFFFBFC \<le> (unat size0 + 3) div 4" "(unat size0 + 3) div 4 < 0x3FFFFFFD"
    using assms(3) le by (auto simp: less_eq_div_iff_mult_less_eq intro: less_mult_imp_div_less)
  then have sz: "2 ^ 32 \<le> unat sz + 4112" "unat sz \<le> 0xFFFFFFF0" unfolding szn by simp_all
  have small: "unat (bsize b) < unat sz" if "b \<in> set xs" for b
  proof -
    have "blk_ok b" using assms(1) that by (auto simp: heap_inv_def intro: heap_wf_blk_ok)
    then have "unat (bsize b) \<le> 4096 * MM_MAX_PAGES" by (simp add: blk_ok_def bend_def)
    then show ?thesis using sz(1) by simp
  qed
  then show "\<forall>b \<in> set xs. bfree b \<longrightarrow> unat (bsize b) < (unat size0 + 3) div 4 * 4" unfolding szn by blast
  have rep: "heap_rep s xs" using assms(1) by (simp add: heap_inv_def heap_wf_def)
  have "List.find (\<lambda>b. bfree b \<and> sz \<le> bsize b) xs = None"
    using small by (auto simp: find_None_iff word_le_nat_alt not_le)
  then have f: "mm_find_free_block sz s = Some 0" using mm_find_free_block_rep [OF rep, of sz] by simp
  have "mm_grow_heap sz s = Some (0, s)" by (rule grow_pages_huge) (use sz in \<open>simp_all add: word_le_nat_alt\<close>)
  then show "kmalloc_core size0 s = Some (0, s)" using f by (simp add: kmalloc_core_def sz_def)
  have "16385 \<le> (unat sz + 4111) div 4096" using sz(1) by (simp add: less_eq_div_iff_mult_less_eq)
  then show "\<forall>st. \<not> free_run (g_page_used s) (((unat size0 + 3) div 4 * 4 + 4111) div 4096) st"
    unfolding szn [symmetric] by (simp add: free_run_def)
qed

text \<open>One allocation of a size that cannot wrap.\<close>

lemma kmalloc_core_outcome:
  assumes "heap_inv s xs" "g_initialized s" "0 < size0" "kmalloc_valid size0"
  obtains (fail) "kmalloc_core size0 s = Some (0, s)"
      "\<forall>b \<in> set xs. bfree b \<longrightarrow> unat (bsize b) < (unat size0 + 3) div 4 * 4"
      "\<forall>st. \<not> free_run (g_page_used s) (((unat size0 + 3) div 4 * 4 + 4111) div 4096) st"
  | (ok) t ys nb where "kmalloc_core size0 s = Some (baddr nb + 16, t)" "heap_inv t ys"
      "allocated ys = insert nb (allocated xs)" "nb \<notin> allocated xs" "size0 \<le> bsize nb" "g_initialized t"
proof (cases "unat size0 + 4114 < 2 ^ 32")
  case True
  from assms(1-3) True show thesis by (cases rule: kmalloc_core_cases) (rule fail ok; assumption)+
next
  case False
  then show thesis using assms(4) kmalloc_core_huge [OF assms(1,2), of size0] fail by (simp add: kmalloc_valid_def not_less)
qed

lemma heap_inv_same_addr:
  "\<lbrakk>heap_inv s xs; b \<in> set xs; c \<in> set xs; baddr b = baddr c\<rbrakk> \<Longrightarrow> b = c"
  by (auto simp: heap_inv_def heap_wf_def heap_rep_def distinct_map inj_on_def)

lemma heap_inv_disj:
  assumes "heap_inv s xs" "b \<in> set xs" "c \<in> set xs" "b \<noteq> c"
  shows "blk_disj b c"
proof -
  have "sorted_wrt blk_disj xs" using assms(1) by (simp add: heap_inv_def heap_wf_def blocks_wf_def)
  then have "blk_disj b c \<or> blk_disj c b"
    using assms(2-4) by (auto simp: in_set_conv_nth sorted_wrt_iff_nth_less) (metis nat_neq_iff)
  then show ?thesis by (auto simp: blk_disj_def)
qed

lemma blk_region_start:
  "heap_inv s xs \<Longrightarrow> b \<in> set xs \<Longrightarrow> fst (blk_region b) = unat (baddr b + 16)"
  by (simp add: blk_region_def heap_inv_user_addr)

lemma blk_region_start_inj:
  "\<lbrakk>heap_inv s xs; b \<in> set xs; c \<in> set xs; fst (blk_region b) = fst (blk_region c)\<rbrakk> \<Longrightarrow> b = c"
  by (rule heap_inv_same_addr) (simp_all add: blk_region_def word_unat_eq_iff)

lemma allocated_subset: "allocated xs \<subseteq> set xs"
  by (auto simp: allocated_def)

lemma heap_holds_alloc:
  assumes "heap_holds s R" "kmalloc_valid n"
  shows "\<exists>p t. kmalloc_core n s = Some (p, t) \<and>
    (if p = 0 then heap_holds t R
     else (\<exists>r. fst r = unat p \<and> unat n \<le> snd r \<and> r \<notin> R \<and> heap_holds t (insert r R)))"
proof -
  obtain xs where xs: "heap_inv s xs" "g_initialized s" "R = blk_region ` allocated xs"
    using assms(1) by (auto simp: heap_holds_def)
  show ?thesis
  proof (cases "n = 0")
    case True
    then show ?thesis using assms(1) by (simp add: kmalloc_core_def)
  next
    case False
    then have "0 < n" by (simp add: word_greater_zero_iff)
    from xs(1,2) this assms(2) show ?thesis
    proof (cases rule: kmalloc_core_outcome)
      case fail
      then show ?thesis using assms(1) by simp
    next
      case (ok t ys nb)
      have in_ys: "nb \<in> set ys" "allocated xs \<subseteq> set ys"
        using ok(3) allocated_subset [of ys] by auto
      then have "blk_region nb \<notin> R"
        unfolding xs(3) using blk_region_start_inj [OF ok(2)] ok(4) by (metis imageE subsetD)
      moreover have "heap_holds t (insert (blk_region nb) R)"
        unfolding heap_holds_def using ok(2,3,6) xs(3) by (intro exI [of _ ys]) simp
      ultimately show ?thesis
        using ok(1,5) blk_region_start [OF ok(2) in_ys(1)] heap_inv_user_addr(2) [OF ok(2) in_ys(1)]
        by (auto simp: word_le_nat_alt blk_region_def)
    qed
  qed
qed

lemma heap_holds_free:
  assumes "heap_holds s R" "r \<in> R" "unat p = fst r"
  shows "\<exists>t. kfree_core p s = Some t \<and> heap_holds t (R - {r})"
proof -
  obtain xs where xs: "heap_inv s xs" "g_initialized s" "R = blk_region ` allocated xs"
    using assms(1) by (auto simp: heap_holds_def)
  then obtain nb where nb: "nb \<in> allocated xs" "r = blk_region nb" using assms(2) by auto
  then have "nb \<in> set xs" using allocated_subset by auto
  then have p: "p = baddr nb + 16"
    using blk_region_start [OF xs(1)] assms(3) nb(2) by (simp add: word_unat_eq_iff)
  have "blk_region ` (allocated xs - {nb}) = R - {r}"
    unfolding xs(3) nb(2) using blk_region_start_inj [OF xs(1)] nb(1) allocated_subset [of xs]
    by (auto dest: subsetD) (metis subsetD)
  moreover from kfree_core_inv [OF xs(1) nb(1)] obtain t ys where
    "kfree_core (baddr nb + 16) s = Some t" "heap_inv t ys" "allocated ys = allocated xs - {nb}"
    "same_pages s t" .
  ultimately show ?thesis
    unfolding p heap_holds_def using xs(2)
    by (intro exI [of _ t] conjI exI [of _ ys]) (simp_all add: same_pages_def)
qed

interpretation kheap: allocator kmalloc_core kfree_core 0 heap_holds unat kmalloc_valid unat
proof unfold_locales
  show "region_disj r q" if h: "heap_holds s R" "r \<in> R" "q \<in> R" "r \<noteq> q" for s R r q
  proof -
    obtain xs b c where "heap_inv s xs" "b \<in> set xs" "c \<in> set xs" "r = blk_region b" "q = blk_region c"
      using h(1-3) allocated_subset unfolding heap_holds_def by blast
    moreover have "b \<noteq> c" using h(4) calculation by auto
    ultimately show ?thesis
      using heap_inv_disj [of s xs b c]
      by (auto simp: region_disj_def blk_region_def blk_disj_def bend_def)
  qed
  show "r = q" if h: "heap_holds s R" "r \<in> R" "q \<in> R" "fst r = fst q" for s R r q
  proof -
    obtain xs b c where "heap_inv s xs" "b \<in> set xs" "c \<in> set xs" "r = blk_region b" "q = blk_region c"
      using h(1-3) allocated_subset unfolding heap_holds_def by blast
    then show ?thesis using blk_region_start_inj [of s xs b c] h(4) by simp
  qed
qed (fact heap_holds_alloc heap_holds_free)+


subsection \<open>The allocator's properties\<close>

text \<open>
  C4: \<open>kmalloc_core\<close> always returns from a well-formed heap, for every size from 1 to \<open>0xFFFFFFF0\<close>. It returns null, with nothing changed,
  only when no free block is large enough and no run of free pages could back a new one; otherwise
  it returns the payload of one block that was not handed out before and is at least as large as
  requested, and the heap it leaves is well formed (blocks disjoint, backed by used pages,
  coalesced) with every earlier allocation still in place.
\<close>

theorem kmalloc_core_spec:
  assumes "heap_inv s xs" "g_initialized s" "0 < size0" "size0 \<le> 0xFFFFFFF0"
  shows "\<exists>p t ys. kmalloc_core size0 s = Some (p, t) \<and> heap_inv t ys \<and>
    (if p = 0
     then t = s \<and> ys = xs \<and>
       (\<forall>b \<in> set xs. bfree b \<longrightarrow> unat (bsize b) < (unat size0 + 3) div 4 * 4) \<and>
       (\<forall>st. \<not> free_run (g_page_used s) (((unat size0 + 3) div 4 * 4 + 4111) div 4096) st)
     else (\<exists>nb. p = baddr nb + 16 \<and> nb \<notin> allocated xs \<and>
       allocated ys = insert nb (allocated xs) \<and> size0 \<le> bsize nb))"
  using assms [folded kmalloc_valid_def]
proof (cases rule: kmalloc_core_outcome)
  case fail
  then show ?thesis using assms(1) by auto
next
  case (ok t ys nb)
  have "nb \<in> set ys" using ok(3) allocated_subset [of ys] by auto
  then have "baddr nb + 16 \<noteq> 0" by (rule heap_inv_user_addr(2) [OF ok(2)])
  then show ?thesis using ok by auto
qed

lemma heap_inv_empty:
  "\<lbrakk>g_heap_head s = 0; g_heap_tail s = 0; g_heap_total_bytes s = 0; g_page_used s 0\<rbrakk> \<Longrightarrow> heap_inv s []"
  by (simp add: heap_inv_def heap_wf_def heap_rep_def blocks_wf_def coalesced_def heap_bytes_def
      pages_back_def)

lemma heap_inv_example: "heap_inv mm_example []" "g_initialized mm_example"
  by (simp_all add: heap_inv_empty mm_example_def)

theorem kmalloc_core_spec_witness:
  "\<exists>p t ys nb. kmalloc_core 100 mm_example = Some (p, t) \<and> heap_inv t ys \<and>
     allocated ys = {nb} \<and> p = baddr nb + 16 \<and> 100 \<le> bsize nb"
proof -
  have "free_run (g_page_used mm_example) 1 2"
    by (simp add: free_run_def mm_example_def)
  then show ?thesis
    using kmalloc_core_spec [OF heap_inv_example, of 100]
    by (auto simp: allocated_def split: if_splits)
qed

text \<open>
  C5: \<open>kfree_core\<close> on a pointer that \<open>kmalloc_core\<close> handed out returns (its coalescing loop ends),
  takes exactly that block out of the allocated set, leaves the pages and every other allocation
  alone, and the heap is well formed and coalesced again.
\<close>

theorem kfree_core_spec:
  assumes "heap_inv s xs" "nb \<in> allocated xs"
  shows "\<exists>t ys. kfree_core (baddr nb + 16) s = Some t \<and> heap_inv t ys \<and>
    allocated ys = allocated xs - {nb} \<and> g_page_used t = g_page_used s \<and>
    g_used_pages t = g_used_pages s \<and> heap_bytes ys = heap_bytes xs"
proof -
  from kfree_core_inv [OF assms] obtain t ys where
    t: "kfree_core (baddr nb + 16) s = Some t" "heap_inv t ys" "allocated ys = allocated xs - {nb}"
    "same_pages s t" .
  have "heap_bytes ys = heap_bytes xs"
    using t(2,4) assms(1) by (auto simp: heap_inv_def heap_wf_def same_pages_def)
  then show ?thesis using t by (auto simp: same_pages_def)
qed

text \<open>A heap of one page with one block handed out and the rest of the page free, for the examples.\<close>

definition heap_example :: mm_state where
  "heap_example = mm_example
     \<lparr>g_heap_head := 0x1000, g_heap_tail := 0x1200, g_heap_total_bytes := 0x1000,
      heap_mem := (heap_mem mm_example)
        (0x1000 := \<lparr>block_size = 0x1F0, block_free = False, block_next = 0x1200, block_prev = 0\<rparr>,
         0x1200 := \<lparr>block_size = 0xDF0, block_free = True, block_next = 0, block_prev = 0x1000\<rparr>)\<rparr>"

lemma heap_inv_heap_example:
  "heap_inv heap_example
     [\<lparr>baddr = 0x1000, bsize = 0x1F0, bfree = False\<rparr>, \<lparr>baddr = 0x1200, bsize = 0xDF0, bfree = True\<rparr>]"
proof -
  let ?xs = "[\<lparr>baddr = 0x1000, bsize = 0x1F0, bfree = False\<rparr>,
    \<lparr>baddr = 0x1200, bsize = 0xDF0, bfree = True\<rparr>]"
  have "heap_rep heap_example ?xs"
    by (simp add: heap_rep_def heap_example_def hdr_def)
  moreover have "blocks_wf ?xs"
    by (simp add: blocks_wf_def blk_ok_def blk_disj_def bend_def)
  moreover have "x div 4096 < 2" if "x < 8192" for x :: nat
    using that by (intro less_mult_imp_div_less) simp
  then have "pages_back heap_example ?xs"
    by (simp add: pages_back_def bend_def heap_example_def mm_example_def)
  moreover have "unat (g_heap_total_bytes heap_example) = heap_bytes ?xs" "g_page_used heap_example 0"
    by (simp_all add: heap_example_def mm_example_def heap_bytes_def)
  moreover have "coalesced ?xs" by (simp add: coalesced_def)
  ultimately show ?thesis by (simp add: heap_inv_def heap_wf_def)
qed

theorem kfree_core_spec_witness:
  "\<exists>t ys. kfree_core 0x1010 heap_example = Some t \<and> heap_inv t ys \<and>
     allocated ys = {} \<and> heap_bytes ys = 4096"
proof -
  let ?b = "\<lparr>baddr = 0x1000, bsize = 0x1F0, bfree = False\<rparr> :: blk"
    and ?c = "\<lparr>baddr = 0x1200, bsize = 0xDF0, bfree = True\<rparr> :: blk"
  have al: "?b \<in> allocated [?b, ?c]" "allocated [?b, ?c] - {?b} = {}"
    by (auto simp: allocated_def)
  have hb: "heap_bytes [?b, ?c] = 4096" by (simp add: heap_bytes_def)
  have p: "baddr ?b + 16 = 0x1010" by simp
  show ?thesis
    using kfree_core_spec [OF heap_inv_heap_example al(1)] unfolding al(2) hb p by blast
qed


text \<open>
  C14: any sequence of \<open>kmalloc\<close> and \<open>kfree\<close> calls a client makes, starting from an empty heap, asking
  for at most \<open>0xFFFFFFF0\<close> bytes at a time and freeing only pointers it holds, runs to its end (no list
  walk diverges). At the end the pointers it holds are exactly the payloads of the allocated blocks,
  each held once, and the memory behind any two of them is disjoint. The fifteen larger sizes are
  left out because the arithmetic of \<open>kmalloc_core\<close> wraps for them.
\<close>

theorem kheap_session_safe:
  assumes "heap_inv s []" "g_initialized s" "\<forall>n. Alloc n \<in> set rs \<longrightarrow> n \<le> 0xFFFFFFF0"
  shows "\<exists>t ps xs. heap_session kmalloc_core kfree_core 0 rs s [] = Some (t, ps) \<and> heap_inv t xs \<and>
    distinct ps \<and> set ps = (\<lambda>b. baddr b + 16) ` allocated xs \<and>
    (\<forall>b \<in> allocated xs. \<forall>c \<in> allocated xs. b \<noteq> c \<longrightarrow> region_disj (blk_region b) (blk_region c))"
proof -
  have "kheap.owns s [] {}"
    using assms(1,2) by (auto simp: kheap.owns_def heap_holds_def allocated_def intro!: exI [of _ "[]"])
  from kheap.session_runs [OF this, of rs] assms(3) [folded kmalloc_valid_def] obtain t ps R where
    run: "heap_session kmalloc_core kfree_core 0 rs s [] = Some (t, ps)" and own: "kheap.owns t ps R"
    by blast
  then obtain xs where xs: "heap_inv t xs" "R = blk_region ` allocated xs"
    unfolding kheap.owns_def heap_holds_def by blast
  have h: "heap_holds t R" and d: "distinct (map unat ps)" and st: "unat ` set ps = fst ` R"
    using own unfolding kheap.owns_def by blast+
  have "unat ` set ps = unat ` ((\<lambda>b. baddr b + 16) ` allocated xs)"
    unfolding st xs(2) image_image
    using blk_region_start [OF xs(1)] subsetD [OF allocated_subset] by (intro image_cong) auto
  then have ps: "set ps = (\<lambda>b. baddr b + 16) ` allocated xs"
    by (simp add: inj_image_eq_iff inj_on_def word_unat_eq_iff)
  have "region_disj (blk_region b) (blk_region c)"
    if "b \<in> allocated xs" "c \<in> allocated xs" "b \<noteq> c" for b c
  proof (rule kheap.regions_disjoint [OF h])
    show "blk_region b \<in> R" "blk_region c \<in> R" using that xs(2) by auto
    show "blk_region b \<noteq> blk_region c"
      using blk_region_start_inj [OF xs(1)] that subsetD [OF allocated_subset] by metis
  qed
  then show ?thesis using run xs(1) ps d by (auto simp: distinct_map)
qed

theorem kheap_session_safe_witness:
  "\<exists>t ps xs. heap_session kmalloc_core kfree_core 0 [Alloc 100, Alloc 5000, Free 1, Alloc 0xFFFFFFF0, Alloc 7]
      mm_example [] = Some (t, ps) \<and> heap_inv t xs \<and> set ps = (\<lambda>b. baddr b + 16) ` allocated xs"
proof -
  have "\<forall>n. Alloc n \<in> set [Alloc 100, Alloc 5000, Free 1, Alloc 0xFFFFFFF0, Alloc (7 :: u32)] \<longrightarrow> n \<le> 0xFFFFFFF0" by simp
  from kheap_session_safe [OF heap_inv_example this] show ?thesis by blast
qed

subsection \<open>Statistics\<close>

lemma mm_stats_loop_dlseg:
  "dlseg m p xs 0 \<Longrightarrow> mm_stats_loop m (first_addr xs 0) out = Some (out
    \<lparr>heap_used_bytes := heap_used_bytes out + sum_list (map bsize [b \<leftarrow> xs. \<not> bfree b]),
     heap_free_bytes := heap_free_bytes out + sum_list (map bsize [b \<leftarrow> xs. bfree b]),
     heap_largest_free_bytes :=
       fold (\<lambda>b l. max l (bsize b)) [b \<leftarrow> xs. bfree b] (heap_largest_free_bytes out)\<rparr>)"
proof (induction xs arbitrary: p out)
  case Nil
  then show ?case by (subst mm_stats_loop.simps) simp
next
  case (Cons b xs)
  then have "max l (bsize b) = (if bsize b > l then bsize b else l)" for l by (auto simp: max_def)
  with Cons show ?case by (subst mm_stats_loop.simps) (auto simp: add.assoc)
qed

lemma sum_bsize_le:
  "(\<Sum>b\<leftarrow>xs. unat (bsize b)) < 2 ^ 32 \<Longrightarrow> unat (sum_list (map bsize xs)) = (\<Sum>b\<leftarrow>xs. unat (bsize b))"
  by (induction xs) (auto simp: unat_add_no_wrap)

text \<open>
  \<open>mm_core_get_stats\<close> returns and its figures add up: the used and the free payload bytes
  together with one header per block are all the bytes of the heap, used and free pages are all
  the pages, and the largest free block is the size of some free block (or 0) that no free block
  exceeds.
\<close>

theorem mm_core_get_stats_adds_up:
  assumes inv: "heap_inv s xs" and acc: "page_accounting s"
    and tot: "g_total_pages s = of_nat MM_MAX_PAGES"
  shows "\<exists>st. mm_core_get_stats s = Some st \<and>
    unat (heap_used_bytes st) + unat (heap_free_bytes st) + 16 * length xs =
      unat (heap_total_bytes st) \<and>
    unat (used_pages st) + unat (free_pages st) = unat (total_pages st) \<and>
    (\<forall>b \<in> set xs. bfree b \<longrightarrow> bsize b \<le> heap_largest_free_bytes st) \<and>
    heap_largest_free_bytes st \<in> insert 0 (bsize ` {b \<in> set xs. bfree b})"
proof -
  have rep: "heap_rep s xs" and tb: "unat (g_heap_total_bytes s) = heap_bytes xs"
    using inv by (auto simp: heap_inv_def heap_wf_def)
  define F U where "F = [b \<leftarrow> xs. bfree b]" and "U = [b \<leftarrow> xs. \<not> bfree b]"
  have split: "heap_bytes xs = (\<Sum>b\<leftarrow>F. unat (bsize b)) + (\<Sum>b\<leftarrow>U. unat (bsize b)) + 16 * length xs"
    unfolding F_def U_def heap_bytes_def by (induction xs) auto
  have lt: "heap_bytes xs < 2 ^ 32" using tb unat_u32_less [of "g_heap_total_bytes s"] by simp
  note sums = sum_bsize_le [of F] sum_bsize_le [of U]
  have mx: "fold (\<lambda>b l. max l (bsize b)) F 0 = Max (insert 0 (bsize ` set F))"
    by (rule fold_max_eq)
  have "Max (insert 0 (bsize ` set F)) \<in> insert 0 (bsize ` set F)"
    "\<forall>b \<in> set F. bsize b \<le> Max (insert 0 (bsize ` set F))" by (rule Max_in) auto
  then have big: "(\<forall>b \<in> set xs. bfree b \<longrightarrow> bsize b \<le> Max (insert 0 (bsize ` set F)))"
    "Max (insert 0 (bsize ` set F)) \<in> insert 0 (bsize ` {b \<in> set xs. bfree b})"
    by (simp_all add: F_def)
  have used: "unat (g_used_pages s) \<le> MM_MAX_PAGES"
    using acc card_index_le unfolding page_accounting_def by metis
  then have le: "g_used_pages s \<le> g_total_pages s" unfolding tot by (simp add: word_le_nat_alt)
  have loop: "mm_core_get_stats s = Some
      \<lparr>total_pages = g_total_pages s, used_pages = g_used_pages s,
       free_pages = g_total_pages s - g_used_pages s, heap_total_bytes = g_heap_total_bytes s,
       heap_used_bytes = sum_list (map bsize U), heap_free_bytes = sum_list (map bsize F),
       heap_largest_free_bytes = Max (insert 0 (bsize ` set F))\<rparr>"
    unfolding mm_core_get_stats_def F_def U_def
    using rep le mm_stats_loop_dlseg [of "heap_mem s" 0 xs] mx [unfolded F_def]
    by (simp add: heap_rep_def)
  show ?thesis
    unfolding loop using sums split lt tb le big by (simp add: unat_sub word_le_nat_alt)
qed

lemma page_accounting_heap_example: "page_accounting heap_example"
proof -
  have "{j::nat. j < MM_MAX_PAGES \<and> j < 2} = {0, 1}" by auto
  then show ?thesis by (simp add: page_accounting_def heap_example_def mm_example_def)
qed

theorem mm_core_get_stats_adds_up_witness:
  "\<exists>st. mm_core_get_stats heap_example = Some st \<and>
     unat (heap_used_bytes st) + unat (heap_free_bytes st) + 32 = unat (heap_total_bytes st) \<and>
     unat (used_pages st) + unat (free_pages st) = unat (total_pages st)"
proof -
  have "g_total_pages heap_example = of_nat MM_MAX_PAGES"
    by (simp add: heap_example_def mm_example_def)
  from mm_core_get_stats_adds_up [OF heap_inv_heap_example page_accounting_heap_example this]
  show ?thesis by auto
qed

lemma align_alloc_wraps:
  assumes "0xFFFFFFFD \<le> size0"
  shows "mm_align_alloc_size size0 = 0"
proof -
  have "unat size0 \<in> {0xFFFFFFFD, 0xFFFFFFFE, 0xFFFFFFFF}"
    using assms unat_u32_less [of size0] by (auto simp: word_le_nat_alt)
  then have "size0 \<in> {0xFFFFFFFD, 0xFFFFFFFE, 0xFFFFFFFF}"
    by (auto simp: word_unat_eq_iff)
  then show ?thesis by (auto simp: mm_align_alloc_size_def mm_align_up_u32_def)
qed

text \<open>
  C18: the contract stops at the last sizes below 4 GiB. For a size of \<open>0xFFFFFFFD\<close> or more
  the rounding of \<open>mm_align_alloc_size\<close> wraps to zero, and with any free block in the heap the call
  returns a non-null pointer to a block that is smaller than the request.
\<close>

theorem kmalloc_core_wraps:
  assumes "heap_inv s xs" "g_initialized s" "b \<in> set xs" "bfree b" "0xFFFFFFFD \<le> size0"
  shows "\<exists>t ys nb. kmalloc_core size0 s = Some (baddr nb + 16, t) \<and> baddr nb + 16 \<noteq> 0 \<and>
    heap_inv t ys \<and> nb \<in> allocated ys \<and> bsize nb < size0"
proof -
  let ?sz = "mm_align_alloc_size size0" and ?fit = "\<lambda>b. bfree b \<and> (0 :: u32) \<le> bsize b"
  have sz: "?sz = 0" by (rule align_alloc_wraps [OF assms(5)])
  have rep: "heap_rep s xs" using assms(1) by (simp add: heap_inv_def heap_wf_def)
  obtain c where c: "List.find ?fit xs = Some c" "c \<in> set xs" "bfree c"
  proof (cases "List.find ?fit xs")
    case None
    then show thesis using assms(3,4) by (simp add: find_None_iff)
  next
    case (Some c)
    then show thesis using that [of c] by (auto simp: find_Some_iff)
  qed
  then obtain ls rs where xs: "xs = ls @ c # rs" by (auto simp: in_set_conv_decomp)
  have "heap_inv s (ls @ c # rs)" using assms(1) xs by simp
  from mm_take_block_inv [OF this c(3), of 0, folded xs] obtain ys nb where
    t: "heap_inv (mm_take_block 0 (baddr c) s) ys" "baddr nb = baddr c"
      "allocated ys = insert nb (allocated xs)" by (metis dvd_0_right unat_0 word_zero_le)
  have nb: "nb \<in> set ys" using t(3) allocated_subset [of ys] by auto
  have "unat (bsize nb) \<le> 4096 * MM_MAX_PAGES"
    using t(1) nb heap_wf_blk_ok by (fastforce simp: heap_inv_def blk_ok_def bend_def)
  then have "bsize nb < 0xFFFFFFFD" by (simp add: word_less_nat_alt)
  then have lt: "bsize nb < size0" using assms(5) by (rule less_le_trans)
  have "size0 \<noteq> 0" using assms(5) by auto
  then have "kmalloc_core size0 s = Some (baddr nb + 16, mm_take_block 0 (baddr c) s)"
    using mm_find_free_block_rep [OF rep, of 0] c heap_inv_nonzero [OF assms(1) c(2)] assms(2) sz t(2)
    by (simp add: kmalloc_core_def Let_def)
  then show ?thesis
    using t(1,3) heap_inv_user_addr(2) [OF t(1) nb] lt by blast
qed

theorem kmalloc_core_wraps_witness:
  "\<exists>t ys nb. kmalloc_core 0xFFFFFFFF heap_example = Some (baddr nb + 16, t) \<and>
     baddr nb + 16 \<noteq> 0 \<and> heap_inv t ys \<and> nb \<in> allocated ys \<and> bsize nb < 0xFFFFFFFF"
proof -
  have "g_initialized heap_example" by (simp add: heap_example_def mm_example_def)
  from kmalloc_core_wraps [OF heap_inv_heap_example this,
      of "\<lparr>baddr = 0x1200, bsize = 0xDF0, bfree = True\<rparr>" "0xFFFFFFFF"]
  show ?thesis by simp
qed

text \<open>
  For the twelve sizes before those, an empty heap grows by one page only, and the split puts the
  header of the rest inside the header of the block that is handed out.
\<close>

lemma kmalloc_core_overlaps_header:
  assumes "size0 \<in> {0xFFFFFFF1, 0xFFFFFFF2, 0xFFFFFFF3, 0xFFFFFFF4, 0xFFFFFFF5, 0xFFFFFFF6,
    0xFFFFFFF7, 0xFFFFFFF8, 0xFFFFFFF9, 0xFFFFFFFA, 0xFFFFFFFB, 0xFFFFFFFC}"
  shows "\<exists>p t. kmalloc_core size0 mm_example = Some (p, t) \<and> p = 0x2010 \<and> g_heap_head t = 0x2000 \<and>
    0x2000 < g_heap_tail t \<and> g_heap_tail t < 0x2010"
  using assms
  by (elim insertE emptyE)
    (simp_all add: kmalloc_core_def mm_find_free_block_def mm_find_free_from.simps mm_align_alloc_size_def mm_align_up_u32_def
      mm_grow_heap_def mm_grow_link_def mm_take_block_def mm_split_block_def upd_block_def Let_def
      mm_alloc_pages_def mm_alloc_scan.simps mm_set_page_used_def mm_example_def)

end
