(* ===== verification/Ps2_Keyboard.thy ===== *)
theory Ps2_Keyboard
  imports Sys_Prelude
begin

text \<open>
  The PS/2 keyboard driver, \<open>src/src/kernel/drivers/pc/ps2_core.c\<close>: the ring buffer of keys, the
  decoder of set 1 scancodes with its modifier state, the LED protocol and the entry points that
  the input layer calls. The keyboard controller behind the ports \<open>0x60\<close> and \<open>0x64\<close> is hardware:
  it is a parameter, a device state of any type with the effect of reading and writing a port.
  The C flags that only ever hold 0 or 1 are booleans, a C \<open>char\<close> is its code.
\<close>

subsection \<open>State\<close>

record 'd ps2_state =
  key_buffer :: "nat \<Rightarrow> int"
  key_head :: u8
  key_tail :: u8
  shift_pressed :: bool
  ctrl_pressed :: bool
  alt_pressed :: bool
  capslock_on :: bool
  numlock_on :: bool
  extended_prefix :: bool
  poll_fallback_enabled :: bool
  port_dev :: 'd

abbreviation "KEY_BUFFER_SIZE \<equiv> 64 :: nat"
abbreviation "KBD_DATA_PORT \<equiv> 0x60 :: u16"
abbreviation "KBD_STATUS_PORT \<equiv> 0x64 :: u16"
abbreviation "KBD_STATUS_IBF \<equiv> 0x02 :: u8"
abbreviation "KBD_STATUS_OBF \<equiv> 0x01 :: u8"
abbreviation "KBD_CMD_SET_LEDS \<equiv> 0xED :: u8"
abbreviation "KBD_ACK \<equiv> 0xFA :: u8"
abbreviation "KBD_IO_TIMEOUT \<equiv> 65535 :: nat"

subsection \<open>The LED protocol\<close>

text \<open>The polling loops, over the number of polls that are left.\<close>

primrec wait_input_clear_loop :: "'d port_io \<Rightarrow> nat \<Rightarrow> 'd \<Rightarrow> bool \<times> 'd" where
  "wait_input_clear_loop io 0 d = (False, d)"
| "wait_input_clear_loop io (Suc n) d =
     (let (st, d1) = port_inb io KBD_STATUS_PORT d
      in if st AND KBD_STATUS_IBF = 0 then (True, d1) else wait_input_clear_loop io n d1)"

definition keyboard_wait_input_clear :: "'d port_io \<Rightarrow> 'd \<Rightarrow> bool \<times> 'd" where
  "keyboard_wait_input_clear io = wait_input_clear_loop io KBD_IO_TIMEOUT"

primrec wait_output_full_loop :: "'d port_io \<Rightarrow> nat \<Rightarrow> 'd \<Rightarrow> bool \<times> 'd" where
  "wait_output_full_loop io 0 d = (False, d)"
| "wait_output_full_loop io (Suc n) d =
     (let (st, d1) = port_inb io KBD_STATUS_PORT d
      in if st AND KBD_STATUS_OBF \<noteq> 0 then (True, d1) else wait_output_full_loop io n d1)"

definition keyboard_wait_output_full :: "'d port_io \<Rightarrow> 'd \<Rightarrow> bool \<times> 'd" where
  "keyboard_wait_output_full io = wait_output_full_loop io KBD_IO_TIMEOUT"

definition keyboard_send_led_mask :: "'d port_io \<Rightarrow> u8 \<Rightarrow> 'd \<Rightarrow> bool \<times> 'd" where
  "keyboard_send_led_mask io leds d =
     (let (ok, d1) = keyboard_wait_input_clear io d in
      if \<not> ok then (False, d1)
      else let d2 = port_outb io KBD_DATA_PORT KBD_CMD_SET_LEDS d1;
               (ok, d3) = keyboard_wait_output_full io d2 in
      if \<not> ok then (False, d3)
      else let (ack, d4) = port_inb io KBD_DATA_PORT d3 in
      if ack \<noteq> KBD_ACK then (False, d4)
      else let (ok, d5) = keyboard_wait_input_clear io d4 in
      if \<not> ok then (False, d5)
      else let d6 = port_outb io KBD_DATA_PORT leds d5;
               (ok, d7) = keyboard_wait_output_full io d6 in
      if \<not> ok then (False, d7)
      else let (ack, d8) = port_inb io KBD_DATA_PORT d7 in (ack = KBD_ACK, d8))"

definition keyboard_sync_leds :: "'d port_io \<Rightarrow> 'd ps2_state \<Rightarrow> 'd ps2_state" where
  "keyboard_sync_leds io s =
     (let leds = (if numlock_on s then 0x02 else 0) OR (if capslock_on s then 0x04 else 0);
          (ok, d1) = keyboard_send_led_mask io leds (port_dev s)
      in if ok then s\<lparr>port_dev := d1\<rparr>
         else s\<lparr>port_dev := snd (keyboard_send_led_mask io leds d1)\<rparr>)"

subsection \<open>The key queue\<close>

definition queue_push :: "int \<Rightarrow> 'd ps2_state \<Rightarrow> 'd ps2_state" where
  "queue_push key s =
     (let nxt = (key_head s + 1) AND 63
      in if nxt = key_tail s then s
         else s\<lparr>key_buffer := (key_buffer s)(unat (key_head s) := key), key_head := nxt\<rparr>)"

definition queue_pop :: "'d ps2_state \<Rightarrow> int \<times> 'd ps2_state" where
  "queue_pop s =
     (if key_head s = key_tail s then (KEY_NONE, s)
      else (key_buffer s (unat (key_tail s)), s\<lparr>key_tail := (key_tail s + 1) AND 63\<rparr>))"

definition queue_peek :: "'d ps2_state \<Rightarrow> int" where
  "queue_peek s =
     (if key_head s = key_tail s then KEY_NONE else key_buffer s (unat (key_tail s)))"

subsection \<open>Translation\<close>

definition is_ascii_alpha :: "int \<Rightarrow> bool" where
  "is_ascii_alpha c \<longleftrightarrow> (97 \<le> c \<and> c \<le> 122) \<or> (65 \<le> c \<and> c \<le> 90)"

definition ascii_to_upper :: "int \<Rightarrow> int" where
  "ascii_to_upper c = (if 97 \<le> c \<and> c \<le> 122 then c - 32 else c)"

definition ascii_to_lower :: "int \<Rightarrow> int" where
  "ascii_to_lower c = (if 65 \<le> c \<and> c \<le> 90 then c + 32 else c)"

definition ascii_to_ctrl :: "int \<Rightarrow> int" where
  "ascii_to_ctrl c =
     (let lower = ascii_to_lower c in if 97 \<le> lower \<and> lower \<le> 122 then lower - 97 + 1 else 0)"

definition base_map :: "(u8 \<times> char) list" where
  "base_map =
     [(0x02, CHR ''1''), (0x03, CHR ''2''), (0x04, CHR ''3''), (0x05, CHR ''4''),
      (0x06, CHR ''5''), (0x07, CHR ''6''), (0x08, CHR ''7''), (0x09, CHR ''8''),
      (0x0A, CHR ''9''), (0x0B, CHR ''0''), (0x0C, CHR ''-''), (0x0D, CHR ''=''),
      (0x0E, CHR 0x08), (0x0F, CHR 0x09),
      (0x10, CHR ''q''), (0x11, CHR ''w''), (0x12, CHR ''e''), (0x13, CHR ''r''),
      (0x14, CHR ''t''), (0x15, CHR ''y''), (0x16, CHR ''u''), (0x17, CHR ''i''),
      (0x18, CHR ''o''), (0x19, CHR ''p''), (0x1A, CHR ''[''), (0x1B, CHR '']''),
      (0x1E, CHR ''a''), (0x1F, CHR ''s''), (0x20, CHR ''d''), (0x21, CHR ''f''),
      (0x22, CHR ''g''), (0x23, CHR ''h''), (0x24, CHR ''j''), (0x25, CHR ''k''),
      (0x26, CHR ''l''), (0x27, CHR '';''), (0x28, CHR 0x27),
      (0x29, CHR 0x60), (0x2B, CHR 0x5C),
      (0x2C, CHR ''z''), (0x2D, CHR ''x''), (0x2E, CHR ''c''), (0x2F, CHR ''v''),
      (0x30, CHR ''b''), (0x31, CHR ''n''), (0x32, CHR ''m''), (0x33, CHR '',''),
      (0x34, CHR ''.''), (0x35, CHR ''/''), (0x39, CHR '' ''), (0x1C, CHR 0x0A)]"

definition shift_map :: "(u8 \<times> char) list" where
  "shift_map =
     [(0x02, CHR ''!''), (0x03, CHR ''@''), (0x04, CHR ''#''), (0x05, CHR ''$''),
      (0x06, CHR ''%''), (0x07, CHR ''^''), (0x08, CHR ''&''), (0x09, CHR ''*''),
      (0x0A, CHR ''(''), (0x0B, CHR '')''), (0x0C, CHR ''_''), (0x0D, CHR ''+''),
      (0x0E, CHR 0x08), (0x0F, CHR 0x09),
      (0x10, CHR ''Q''), (0x11, CHR ''W''), (0x12, CHR ''E''), (0x13, CHR ''R''),
      (0x14, CHR ''T''), (0x15, CHR ''Y''), (0x16, CHR ''U''), (0x17, CHR ''I''),
      (0x18, CHR ''O''), (0x19, CHR ''P''), (0x1A, CHR ''{''), (0x1B, CHR ''}''),
      (0x1E, CHR ''A''), (0x1F, CHR ''S''), (0x20, CHR ''D''), (0x21, CHR ''F''),
      (0x22, CHR ''G''), (0x23, CHR ''H''), (0x24, CHR ''J''), (0x25, CHR ''K''),
      (0x26, CHR ''L''), (0x27, CHR '':''), (0x28, CHR 0x22),
      (0x29, CHR ''~''), (0x2B, CHR ''|''),
      (0x2C, CHR ''Z''), (0x2D, CHR ''X''), (0x2E, CHR ''C''), (0x2F, CHR ''V''),
      (0x30, CHR ''B''), (0x31, CHR ''N''), (0x32, CHR ''M''), (0x33, CHR ''<''),
      (0x34, CHR ''>''), (0x35, CHR ''?''), (0x39, CHR '' ''), (0x1C, CHR 0x0A)]"

text \<open>An entry of a map, 0 where the initialiser has none.\<close>

definition map_entry :: "(u8 \<times> char) list \<Rightarrow> u8 \<Rightarrow> int" where
  "map_entry tab sc = (case map_of tab sc of None \<Rightarrow> 0 | Some c \<Rightarrow> of_char c)"

definition translate_scancode :: "u8 \<Rightarrow> 'd ps2_state \<Rightarrow> int" where
  "translate_scancode sc s =
     (if sc \<ge> 128 then 0
      else let translated = (if shift_pressed s then map_entry shift_map sc else map_entry base_map sc)
           in if translated = 0 \<or> \<not> is_ascii_alpha translated then translated
              else if shift_pressed s \<noteq> capslock_on s then ascii_to_upper translated
              else ascii_to_lower translated)"

subsection \<open>The scancode decoder\<close>

definition extended_key :: "u8 \<Rightarrow> 'd ps2_state \<Rightarrow> 'd ps2_state" where
  "extended_key code s =
     (if code = 0x4B then queue_push KEY_LEFT s
      else if code = 0x48 then queue_push KEY_UP s
      else if code = 0x4D then queue_push KEY_RIGHT s
      else if code = 0x50 then queue_push KEY_DOWN s
      else if code = 0x52 then queue_push KEY_INSERT s
      else if code = 0x53 then
        (if ctrl_pressed s \<and> alt_pressed s then queue_push KEY_CTRL_ALT_DEL s
         else queue_push KEY_DELETE s)
      else if code = 0x1C then queue_push 10 s
      else if code = 0x35 then queue_push 47 s
      else s)"

definition keypad_key :: "u8 \<Rightarrow> 'd ps2_state \<Rightarrow> 'd ps2_state" where
  "keypad_key sc s =
     (let number_mode = (numlock_on s \<noteq> shift_pressed s)
      in if sc = 0x47 then (if number_mode then queue_push 55 s else s)
      else if sc = 0x48 then queue_push (if number_mode then 56 else KEY_UP) s
      else if sc = 0x49 then (if number_mode then queue_push 57 s else s)
      else if sc = 0x4A then queue_push 45 s
      else if sc = 0x4B then queue_push (if number_mode then 52 else KEY_LEFT) s
      else if sc = 0x4C then (if number_mode then queue_push 53 s else s)
      else if sc = 0x4D then queue_push (if number_mode then 54 else KEY_RIGHT) s
      else if sc = 0x4E then queue_push 43 s
      else if sc = 0x4F then (if number_mode then queue_push 49 s else s)
      else if sc = 0x50 then queue_push (if number_mode then 50 else KEY_DOWN) s
      else if sc = 0x51 then (if number_mode then queue_push 51 s else s)
      else if sc = 0x52 then queue_push (if number_mode then 48 else KEY_INSERT) s
      else queue_push 46 s)"

definition char_key :: "u8 \<Rightarrow> 'd ps2_state \<Rightarrow> 'd ps2_state" where
  "char_key sc s =
     (let translated = translate_scancode sc s
      in if translated \<noteq> 0
         then if ctrl_pressed s \<and> ascii_to_ctrl translated \<noteq> 0
              then queue_push (ascii_to_ctrl translated) s
              else queue_push translated s
         else s)"

definition keyboard_process_scancode :: "'d port_io \<Rightarrow> u8 \<Rightarrow> 'd ps2_state \<Rightarrow> 'd ps2_state" where
  "keyboard_process_scancode io sc s =
     (if sc = 0xE0 then s\<lparr>extended_prefix := True\<rparr>
      else if extended_prefix s then
        (let is_break = (sc AND 0x80 \<noteq> 0); code = sc AND 0x7F
         in if code = 0x1D then s\<lparr>ctrl_pressed := \<not> is_break, extended_prefix := False\<rparr>
            else if code = 0x38 then s\<lparr>alt_pressed := \<not> is_break, extended_prefix := False\<rparr>
            else (if is_break then s else extended_key code s)\<lparr>extended_prefix := False\<rparr>)
      else if sc = 0x2A \<or> sc = 0x36 then s\<lparr>shift_pressed := True\<rparr>
      else if sc = 0xAA \<or> sc = 0xB6 then s\<lparr>shift_pressed := False\<rparr>
      else if sc = 0x1D then s\<lparr>ctrl_pressed := True\<rparr>
      else if sc = 0x9D then s\<lparr>ctrl_pressed := False\<rparr>
      else if sc = 0x38 then s\<lparr>alt_pressed := True\<rparr>
      else if sc = 0xB8 then s\<lparr>alt_pressed := False\<rparr>
      else if sc = 0x3A then
        (if sc AND 0x80 = 0 then keyboard_sync_leds io (s\<lparr>capslock_on := \<not> capslock_on s\<rparr>) else s)
      else if sc = 0x45 then
        (if sc AND 0x80 = 0 then keyboard_sync_leds io (s\<lparr>numlock_on := \<not> numlock_on s\<rparr>) else s)
      else if sc AND 0x80 \<noteq> 0 then s
      else if 0x47 \<le> sc \<and> sc \<le> 0x53 then keypad_key sc s
      else if sc = 0x37 then queue_push 42 s
      else char_key sc s)"

subsection \<open>Entry points\<close>

definition ps2_init :: "'d port_io \<Rightarrow> 'd ps2_state \<Rightarrow> 'd ps2_state" where
  "ps2_init io s = keyboard_sync_leds io
     (s\<lparr>key_head := 0, key_tail := 0, shift_pressed := False, ctrl_pressed := False,
        alt_pressed := False, capslock_on := False, numlock_on := False,
        extended_prefix := False, poll_fallback_enabled := False\<rparr>)"

definition ps2_set_poll_fallback :: "bool \<Rightarrow> 'd ps2_state \<Rightarrow> 'd ps2_state" where
  "ps2_set_poll_fallback enabled s = s\<lparr>poll_fallback_enabled := enabled\<rparr>"

definition ps2_irq_handler :: "'d port_io \<Rightarrow> 'd ps2_state \<Rightarrow> 'd ps2_state" where
  "ps2_irq_handler io s =
     (let (sc, d) = port_inb io KBD_DATA_PORT (port_dev s)
      in keyboard_process_scancode io sc (s\<lparr>port_dev := d\<rparr>))"

definition ps2_poll :: "'d port_io \<Rightarrow> 'd ps2_state \<Rightarrow> 'd ps2_state" where
  "ps2_poll io s =
     (if \<not> poll_fallback_enabled s then s
      else let (status, d) = port_inb io KBD_STATUS_PORT (port_dev s); s1 = s\<lparr>port_dev := d\<rparr>
           in if status AND 0x01 = 0 then s1
              else let (sc, d) = port_inb io KBD_DATA_PORT (port_dev s1)
                   in keyboard_process_scancode io sc (s1\<lparr>port_dev := d\<rparr>))"

definition ps2_last_char :: "'d ps2_state \<Rightarrow> int" where
  "ps2_last_char s = (let key = queue_peek s in if 0 < key \<and> key < 128 then key else 0)"

definition ps2_take_char :: "'d ps2_state \<Rightarrow> int \<times> 'd ps2_state" where
  "ps2_take_char s =
     (let (key, t) = queue_pop s in (if 0 < key \<and> key < 128 then key else 0, t))"

definition ps2_take_key :: "'d ps2_state \<Rightarrow> int \<times> 'd ps2_state" where
  "ps2_take_key s = queue_pop s"

subsection \<open>Bounded queues\<close>

text \<open>
  What the layers above rely on: the queue is a list of keys of a bounded length, a push appends
  unless the queue is full (then the key is dropped), a pop removes the oldest key.
\<close>

datatype 'k queue_op =
  Push 'k
| Pop

fun queue_run :: "('k \<Rightarrow> 's \<Rightarrow> 's) \<Rightarrow> ('s \<Rightarrow> 'k \<times> 's) \<Rightarrow> 'k queue_op list \<Rightarrow> 's \<Rightarrow> 'k list \<times> 's" where
  "queue_run push pop [] s = ([], s)"
| "queue_run push pop (Push k # ops) s = queue_run push pop ops (push k s)"
| "queue_run push pop (Pop # ops) s =
     (let (k, t) = pop s; (ks, u) = queue_run push pop ops t in (k # ks, u))"

text \<open>The same operations on a list.\<close>

definition list_push :: "nat \<Rightarrow> 'k \<Rightarrow> 'k list \<Rightarrow> 'k list" where
  "list_push cap k xs = (if length xs < cap then xs @ [k] else xs)"

fun list_pop :: "'k \<Rightarrow> 'k list \<Rightarrow> 'k \<times> 'k list" where
  "list_pop none [] = (none, [])"
| "list_pop none (k # ks) = (k, ks)"

primrec pushed :: "'k queue_op list \<Rightarrow> 'k list" where
  "pushed [] = []"
| "pushed (x # ops) = (case x of Push k \<Rightarrow> k # pushed ops | Pop \<Rightarrow> pushed ops)"

locale bounded_queue =
  fixes push :: "'k \<Rightarrow> 's \<Rightarrow> 's" and pop :: "'s \<Rightarrow> 'k \<times> 's" and none :: 'k and cap :: nat
    and keys :: "'s \<Rightarrow> 'k list" and wf :: "'s \<Rightarrow> bool"
  assumes push_keys: "wf s \<Longrightarrow> keys (push k s) = list_push cap k (keys s)"
    and push_wf: "wf s \<Longrightarrow> wf (push k s)"
    and pop_keys: "wf s \<Longrightarrow> pop s = (k, t) \<Longrightarrow> list_pop none (keys s) = (k, keys t)"
    and pop_wf: "wf s \<Longrightarrow> pop s = (k, t) \<Longrightarrow> wf t"
begin

lemma run_refines:
  "\<lbrakk>wf s; queue_run push pop ops s = (out, t)\<rbrakk> \<Longrightarrow>
   queue_run (list_push cap) (list_pop none) ops (keys s) = (out, keys t) \<and> wf t"
proof (induction ops arbitrary: s out)
  case Nil
  then show ?case by simp
next
  case (Cons x ops)
  show ?case
  proof (cases x)
    case (Push k)
    then show ?thesis using Cons.IH [of "push k s" out] Cons.prems push_keys push_wf by simp
  next
    case Pop
    obtain k u ks where "pop s = (k, u)" "queue_run push pop ops u = (ks, t)" "out = k # ks"
      using Cons.prems(2) Pop by (auto simp: Let_def split: prod.splits)
    then show ?thesis using Pop Cons.IH [of u ks] Cons.prems(1) pop_keys pop_wf by (auto simp: Let_def)
  qed
qed

text \<open>As long as the queue never has to drop a key, what comes out is what went in, in order.\<close>

lemma fifo_list:
  assumes "length xs + length (pushed ops) \<le> cap" "none \<notin> set xs" "none \<notin> set (pushed ops)"
    and "queue_run (list_push cap) (list_pop none) ops xs = (out, ys)"
  shows "[k \<leftarrow> out. k \<noteq> none] @ ys = xs @ pushed ops"
  using assms
proof (induction ops arbitrary: xs out)
  case Nil
  then show ?case by simp
next
  case (Cons x ops)
  show ?case
  proof (cases x)
    case (Push k)
    then show ?thesis using Cons.IH [of "xs @ [k]" out] Cons.prems by (simp add: list_push_def)
  next
    case Pop
    obtain k zs ks where "list_pop none xs = (k, zs)" "out = k # ks"
      "queue_run (list_push cap) (list_pop none) ops zs = (ks, ys)"
      using Cons.prems(4) Pop by (auto simp: Let_def split: prod.splits)
    then show ?thesis using Cons.IH [of zs ks] Cons.prems(1-3) Pop by (cases xs) auto
  qed
qed

lemma fifo:
  assumes "wf s" "length (keys s) + length (pushed ops) \<le> cap"
    and "none \<notin> set (keys s)" "none \<notin> set (pushed ops)"
    and "queue_run push pop ops s = (out, t)"
  shows "[k \<leftarrow> out. k \<noteq> none] @ keys t = keys s @ pushed ops"
  using fifo_list [OF assms(2-4)] run_refines [OF assms(1,5)] by blast

end

subsection \<open>The ring buffer is such a queue\<close>

definition queue_wf :: "'d ps2_state \<Rightarrow> bool" where
  "queue_wf s \<longleftrightarrow> key_head s < 64 \<and> key_tail s < 64"

definition queue_count :: "'d ps2_state \<Rightarrow> nat" where
  "queue_count s = (unat (key_head s) + 64 - unat (key_tail s)) mod 64"

definition queue_keys :: "'d ps2_state \<Rightarrow> int list" where
  "queue_keys s = map (\<lambda>i. key_buffer s ((unat (key_tail s) + i) mod 64)) [0..<queue_count s]"

lemma mod_64: "x < 128 \<Longrightarrow> x mod 64 = (if x < 64 then x else x - 64)" for x :: nat
  by (auto simp: mod_if)

lemma ring_next: "w < 64 \<Longrightarrow> unat ((w + 1) AND 63) = (unat w + 1) mod 64" for w :: u8
proof -
  assume w: "w < 64"
  have "unat ((w + 1) AND 63) = unat (take_bit 6 (w + 1))" by (simp add: take_bit_eq_mask mask_eq_exp_minus_1)
  also have "\<dots> = unat (w + 1) mod 64" by (simp add: take_bit_eq_mod unat_mod)
  also have "unat (w + 1) = unat w + 1" using w by (simp add: word_less_nat_alt unat_word_ariths)
  finally show ?thesis .
qed

lemma ring_next_less: "w < 64 \<Longrightarrow> (w + 1) AND 63 < 64" for w :: u8
  using ring_next [of w] by (simp add: word_less_nat_alt)

lemma queue_count_less: "queue_count s < 64"
  by (simp add: queue_count_def)

lemma queue_count_eq:
  "queue_wf s \<Longrightarrow> queue_count s =
    (if unat (key_tail s) \<le> unat (key_head s) then unat (key_head s) - unat (key_tail s)
     else unat (key_head s) + 64 - unat (key_tail s))"
  by (auto simp: queue_wf_def queue_count_def word_less_nat_alt mod_64)

lemma queue_empty_iff: "queue_wf s \<Longrightarrow> key_head s = key_tail s \<longleftrightarrow> queue_count s = 0"
  by (auto simp: queue_count_eq queue_wf_def word_less_nat_alt word_unat_eq_iff)

lemma queue_full_iff:
  "queue_wf s \<Longrightarrow> (key_head s + 1) AND 63 = key_tail s \<longleftrightarrow> queue_count s = 63"
  by (auto simp: queue_count_eq queue_wf_def word_less_nat_alt mod_64 word_unat_eq_iff ring_next
      split: if_splits)

lemma queue_push_keys:
  assumes wf: "queue_wf s"
  shows "queue_keys (queue_push k s) = list_push 63 k (queue_keys s)"
proof (cases "queue_count s = 63")
  case True
  then show ?thesis
    using queue_full_iff [OF wf] by (simp add: queue_push_def list_push_def queue_keys_def)
next
  case False
  define n where "n = queue_count s"
  have b: "unat (key_head s) < 64" "unat (key_tail s) < 64"
    using wf by (auto simp: queue_wf_def word_less_nat_alt)
  have n: "n < 63" using False queue_count_less [of s] by (simp add: n_def)
  have h: "(unat (key_tail s) + n) mod 64 = unat (key_head s)"
    using b by (auto simp: n_def queue_count_def mod_64)
  have other: "(unat (key_tail s) + i) mod 64 \<noteq> unat (key_head s)" if "i < n" for i
    using b n h that by (auto simp: mod_64 split: if_splits)
  have next_head: "unat ((key_head s + 1) AND 63) = (unat (key_head s) + 1) mod 64"
    using wf by (intro ring_next) (simp add: queue_wf_def)
  have cnt: "queue_count (queue_push k s) = Suc n"
    using False queue_full_iff [OF wf] b n next_head
    by (auto simp: queue_push_def Let_def n_def queue_count_def mod_64 split: if_splits)
  show ?thesis
    using False queue_full_iff [OF wf] n h other
    unfolding queue_keys_def cnt list_push_def
    by (simp add: queue_push_def Let_def flip: n_def)
qed

lemma queue_push_wf: "queue_wf s \<Longrightarrow> queue_wf (queue_push k s)"
  by (simp add: queue_wf_def queue_push_def Let_def ring_next_less)

lemma queue_pop_keys:
  assumes wf: "queue_wf s" and pop: "queue_pop s = (k, t)"
  shows "list_pop KEY_NONE (queue_keys s) = (k, queue_keys t)"
proof (cases "queue_count s = 0")
  case True
  then show ?thesis
    using pop queue_empty_iff [OF wf] by (simp add: queue_pop_def queue_keys_def)
next
  case False
  then obtain n where n: "queue_count s = Suc n" by (cases "queue_count s") auto
  have b: "unat (key_head s) < 64" "unat (key_tail s) < 64"
    using wf by (auto simp: queue_wf_def word_less_nat_alt)
  have next_tail: "unat ((key_tail s + 1) AND 63) = (unat (key_tail s) + 1) mod 64"
    using wf by (intro ring_next) (simp add: queue_wf_def)
  have t: "t = s\<lparr>key_tail := (key_tail s + 1) AND 63\<rparr>" "k = key_buffer s (unat (key_tail s))"
    using pop False queue_empty_iff [OF wf] by (auto simp: queue_pop_def)
  have cnt: "queue_count t = n"
    using n b next_tail by (auto simp: t queue_count_def mod_64 split: if_splits)
  have "((unat (key_tail s) + 1) mod 64 + i) mod 64 = (unat (key_tail s) + Suc i) mod 64" for i
    by (simp add: mod_simps)
  then have "queue_keys t = map (\<lambda>i. key_buffer s ((unat (key_tail s) + Suc i) mod 64)) [0..<n]"
    unfolding queue_keys_def cnt by (simp add: t next_tail)
  moreover have "queue_keys s =
      k # map (\<lambda>i. key_buffer s ((unat (key_tail s) + Suc i) mod 64)) [0..<n]"
    unfolding queue_keys_def n map_upt_Suc using b by (simp add: t)
  ultimately show ?thesis by simp
qed

lemma queue_pop_wf: "queue_wf s \<Longrightarrow> queue_pop s = (k, t) \<Longrightarrow> queue_wf t"
  by (auto simp: queue_wf_def queue_pop_def ring_next_less split: if_splits)

interpretation kq: bounded_queue queue_push queue_pop KEY_NONE 63 queue_keys queue_wf
  by unfold_locales (fact queue_push_keys queue_push_wf queue_pop_keys queue_pop_wf)+

subsection \<open>What the decoder puts into the queue\<close>

text \<open>The keys that can be queued: characters and the special keys, never \<open>KEY_NONE\<close>.\<close>

definition valid_key :: "int \<Rightarrow> bool" where
  "valid_key k \<longleftrightarrow> 0 < k \<and> k \<le> KEY_CTRL_ALT_DEL"

definition keys_ok :: "'d ps2_state \<Rightarrow> bool" where
  "keys_ok s \<longleftrightarrow> queue_wf s \<and> (\<forall>k \<in> set (queue_keys s). valid_key k)"

lemma keyboard_sync_leds_frame [simp]:
  "key_buffer (keyboard_sync_leds io s) = key_buffer s" "key_head (keyboard_sync_leds io s) = key_head s"
  "key_tail (keyboard_sync_leds io s) = key_tail s"
  "shift_pressed (keyboard_sync_leds io s) = shift_pressed s"
  "ctrl_pressed (keyboard_sync_leds io s) = ctrl_pressed s"
  "alt_pressed (keyboard_sync_leds io s) = alt_pressed s"
  "capslock_on (keyboard_sync_leds io s) = capslock_on s"
  "numlock_on (keyboard_sync_leds io s) = numlock_on s"
  "extended_prefix (keyboard_sync_leds io s) = extended_prefix s"
  by (simp_all add: keyboard_sync_leds_def Let_def split: prod.split)

lemma map_entry_bounds:
  assumes "tab \<in> {base_map, shift_map}"
  shows "0 \<le> map_entry tab sc \<and> map_entry tab sc < 128"
proof -
  have "list_all (\<lambda>(k, c). (0 :: int) \<le> of_char c \<and> of_char c < (128 :: int)) base_map"
    "list_all (\<lambda>(k, c). (0 :: int) \<le> of_char c \<and> of_char c < (128 :: int)) shift_map"
    by code_simp+
  then have "(k, c) \<in> set tab \<Longrightarrow> (0 :: int) \<le> of_char c \<and> of_char c < (128 :: int)" for k c
    using assms by (auto simp: list_all_iff)
  then show ?thesis
    using map_of_SomeD [of tab sc] by (auto simp: map_entry_def split: option.split)
qed

lemma translate_bounds: "0 \<le> translate_scancode sc s" "translate_scancode sc s < 128"
  using map_entry_bounds [of base_map sc] map_entry_bounds [of shift_map sc]
  by (auto simp: translate_scancode_def Let_def is_ascii_alpha_def ascii_to_upper_def ascii_to_lower_def)

lemma ctrl_bounds: "0 \<le> ascii_to_ctrl c" "ascii_to_ctrl c < 27"
  by (auto simp: ascii_to_ctrl_def Let_def)

text \<open>One scancode queues at most one key, a valid one; a release code queues none.\<close>

definition queues_one :: "'d ps2_state \<Rightarrow> 'd ps2_state \<Rightarrow> bool" where
  "queues_one s t \<longleftrightarrow> queue_wf t \<and> (queue_keys t = queue_keys s \<or>
     (\<exists>k. valid_key k \<and> queue_keys t = list_push 63 k (queue_keys s)))"

named_theorems queue_simps

lemma queues_one_refl [queue_simps]: "queue_wf s \<Longrightarrow> queues_one s s"
  by (simp add: queues_one_def)

lemma queues_one_push [queue_simps]: "queue_wf s \<Longrightarrow> valid_key k \<Longrightarrow> queues_one s (queue_push k s)"
  by (auto simp: queues_one_def queue_push_wf queue_push_keys)

lemma queue_frame [queue_simps]:
  "queue_keys (s\<lparr>extended_prefix := b\<rparr>) = queue_keys s" "queue_wf (s\<lparr>extended_prefix := b\<rparr>) = queue_wf s"
  "queue_keys (s\<lparr>shift_pressed := b\<rparr>) = queue_keys s" "queue_wf (s\<lparr>shift_pressed := b\<rparr>) = queue_wf s"
  "queue_keys (s\<lparr>ctrl_pressed := b\<rparr>) = queue_keys s" "queue_wf (s\<lparr>ctrl_pressed := b\<rparr>) = queue_wf s"
  "queue_keys (s\<lparr>alt_pressed := b\<rparr>) = queue_keys s" "queue_wf (s\<lparr>alt_pressed := b\<rparr>) = queue_wf s"
  "queue_keys (s\<lparr>capslock_on := b\<rparr>) = queue_keys s" "queue_wf (s\<lparr>capslock_on := b\<rparr>) = queue_wf s"
  "queue_keys (s\<lparr>numlock_on := b\<rparr>) = queue_keys s" "queue_wf (s\<lparr>numlock_on := b\<rparr>) = queue_wf s"
  "queue_keys (s\<lparr>poll_fallback_enabled := b\<rparr>) = queue_keys s"
  "queue_wf (s\<lparr>poll_fallback_enabled := b\<rparr>) = queue_wf s"
  "queue_keys (s\<lparr>port_dev := d\<rparr>) = queue_keys s" "queue_wf (s\<lparr>port_dev := d\<rparr>) = queue_wf s"
  "queue_keys (keyboard_sync_leds io s) = queue_keys s" "queue_wf (keyboard_sync_leds io s) = queue_wf s"
  by (simp_all add: queue_keys_def queue_count_def queue_wf_def)

lemma queues_one_frame [queue_simps]:
  "queues_one s (t\<lparr>extended_prefix := b\<rparr>) = queues_one s t"
  "queue_keys t = queue_keys s \<Longrightarrow> queue_wf t \<Longrightarrow> queues_one s t"
  by (simp_all add: queues_one_def queue_frame)

lemma extended_key_queues [queue_simps]: "queue_wf s \<Longrightarrow> queues_one s (extended_key code s)"
  by (simp add: extended_key_def queues_one_push queues_one_refl valid_key_def)

lemma keypad_key_queues [queue_simps]: "queue_wf s \<Longrightarrow> queues_one s (keypad_key sc s)"
  by (simp add: keypad_key_def Let_def queues_one_push queues_one_refl valid_key_def)

lemma char_key_queues [queue_simps]:
  assumes "queue_wf s"
  shows "queues_one s (char_key sc s)"
  using assms translate_bounds [of sc s] ctrl_bounds [of "translate_scancode sc s"]
  by (auto simp: char_key_def Let_def queues_one_refl valid_key_def intro!: queues_one_push)

lemma process_scancode_queues:
  "queue_wf s \<Longrightarrow> queues_one s (keyboard_process_scancode io sc s)"
  unfolding keyboard_process_scancode_def Let_def
  by (simp add: queue_simps valid_key_def split: if_split)

lemma process_release_queues_none:
  "sc AND 0x80 \<noteq> 0 \<Longrightarrow> queue_keys (keyboard_process_scancode io sc s) = queue_keys s"
  unfolding keyboard_process_scancode_def Let_def
  by (simp add: queue_frame split: if_split) auto

lemma queues_one_ok: "keys_ok s \<Longrightarrow> queues_one s t \<Longrightarrow> keys_ok t"
  by (auto simp: keys_ok_def queues_one_def list_push_def split: if_splits)

lemma keys_ok_frame [simp]: "keys_ok (s\<lparr>port_dev := d\<rparr>) = keys_ok s"
  "keys_ok (s\<lparr>poll_fallback_enabled := b\<rparr>) = keys_ok s"
  by (simp_all add: keys_ok_def queue_frame)

lemma keys_ok_process: "keys_ok s \<Longrightarrow> keys_ok (keyboard_process_scancode io sc s)"
  using process_scancode_queues queues_one_ok keys_ok_def by blast

lemma keys_ok_pop:
  assumes "keys_ok s"
  shows "keys_ok (snd (queue_pop s))"
proof -
  obtain k t where pop: "queue_pop s = (k, t)" by fastforce
  have "queue_wf s" using assms by (simp add: keys_ok_def)
  from queue_pop_keys [OF this pop] queue_pop_wf [OF this pop] assms pop show ?thesis
    by (cases "queue_keys s") (auto simp: keys_ok_def)
qed

subsection \<open>The driver's reachable states\<close>

text \<open>
  Everything that can happen to the driver after its initialisation: interrupts, polls, readers,
  and the keyboard controller changing on its own.
\<close>

inductive ps2_reach :: "'d port_io \<Rightarrow> 'd ps2_state \<Rightarrow> bool" for io where
  init: "ps2_reach io (ps2_init io s)"
| irq: "ps2_reach io s \<Longrightarrow> ps2_reach io (ps2_irq_handler io s)"
| poll: "ps2_reach io s \<Longrightarrow> ps2_reach io (ps2_poll io s)"
| fallback: "ps2_reach io s \<Longrightarrow> ps2_reach io (ps2_set_poll_fallback b s)"
| take_key: "ps2_reach io s \<Longrightarrow> ps2_reach io (snd (ps2_take_key s))"
| take_char: "ps2_reach io s \<Longrightarrow> ps2_reach io (snd (ps2_take_char s))"
| device: "ps2_reach io s \<Longrightarrow> ps2_reach io (s\<lparr>port_dev := d\<rparr>)"

lemma ps2_init_queue: "keys_ok (ps2_init io s)" "queue_keys (ps2_init io s) = []"
  by (simp_all add: ps2_init_def keys_ok_def queue_frame queue_wf_def queue_keys_def queue_count_def)

lemma ps2_reach_keys_ok: "ps2_reach io s \<Longrightarrow> keys_ok s"
proof (induction rule: ps2_reach.induct)
  case (irq s)
  then show ?case by (simp add: ps2_irq_handler_def keys_ok_process split: prod.split)
next
  case (poll s)
  then show ?case by (simp add: ps2_poll_def keys_ok_process Let_def split: prod.split)
next
  case (take_char s)
  then show ?case using keys_ok_pop [of s] by (simp add: ps2_take_char_def case_prod_beta)
qed (simp_all add: ps2_init_queue ps2_set_poll_fallback_def ps2_take_key_def keys_ok_pop)

text \<open>A controller that delivers a fixed list of bytes, for the examples.\<close>

definition byte_io :: "u8 list port_io" where
  "byte_io = \<lparr>port_inb = (\<lambda>p d. if p = KBD_DATA_PORT then (case d of [] \<Rightarrow> (0, []) | b # bs \<Rightarrow> (b, bs))
      else (if d = [] then 0 else 1, d)), port_outb = (\<lambda>p v d. d)\<rparr>"

definition ps2_example :: "u8 list ps2_state" where
  "ps2_example = \<lparr>key_buffer = (\<lambda>_. 0), key_head = 0, key_tail = 0, shift_pressed = False,
     ctrl_pressed = False, alt_pressed = False, capslock_on = False, numlock_on = False,
     extended_prefix = False, poll_fallback_enabled = False, port_dev = [0xFA, 0xFA]\<rparr>"

text \<open>The example driver after its initialisation and one interrupt for the key \<open>a\<close>.\<close>

definition ps2_typed :: "u8 list ps2_state" where
  "ps2_typed = ps2_irq_handler byte_io ((ps2_init byte_io ps2_example)\<lparr>port_dev := [0x1E]\<rparr>)"

lemma ps2_typed_reach: "ps2_reach byte_io ps2_typed"
  unfolding ps2_typed_def by (intro ps2_reach.intros)

lemma ps2_typed_queue: "queue_keys ps2_typed = [97]"
proof -
  let ?s = "(ps2_init byte_io ps2_example)\<lparr>port_dev := []\<rparr>"
  have ok: "queue_wf ?s" "queue_keys ?s = []"
    using ps2_init_queue [of byte_io ps2_example] by (simp_all add: keys_ok_def queue_frame)
  have "translate_scancode 0x1E ?s = 97"
    by (simp add: translate_scancode_def ps2_init_def map_entry_def base_map_def is_ascii_alpha_def
        ascii_to_lower_def of_char_def)
  then have typed: "ps2_typed = queue_push 97 ?s"
    by (simp add: ps2_typed_def ps2_irq_handler_def byte_io_def keyboard_process_scancode_def
        char_key_def ps2_init_def)
  show ?thesis unfolding typed queue_push_keys [OF ok(1)] ok(2) by (simp add: list_push_def)
qed

text \<open>
  C19: in every reachable state of the driver (interrupts, polls and readers in any order) the ring
  buffer holds only valid keys, so a reader sees \<open>KEY_NONE\<close> exactly when the queue is empty and
  otherwise receives and removes the oldest key.
\<close>

theorem ps2_take_key_reach:
  assumes "ps2_reach io s"
  shows "length (queue_keys s) \<le> 63 \<and> (\<forall>k \<in> set (queue_keys s). valid_key k) \<and>
    (fst (ps2_take_key s) = KEY_NONE \<longleftrightarrow> queue_keys s = []) \<and>
    (queue_keys s \<noteq> [] \<longrightarrow> fst (ps2_take_key s) = hd (queue_keys s) \<and>
       queue_keys (snd (ps2_take_key s)) = tl (queue_keys s))"
proof -
  have ok: "keys_ok s" by (rule ps2_reach_keys_ok [OF assms])
  then have pop: "list_pop KEY_NONE (queue_keys s) = (fst (queue_pop s), queue_keys (snd (queue_pop s)))"
    by (intro queue_pop_keys) (auto simp: keys_ok_def)
  have "length (queue_keys s) \<le> 63" using queue_count_less [of s] by (simp add: queue_keys_def)
  with ok pop show ?thesis
    by (cases "queue_keys s") (auto simp: keys_ok_def ps2_take_key_def valid_key_def)
qed

theorem ps2_take_key_reach_witness:
  "ps2_reach byte_io ps2_typed \<and> fst (ps2_take_key ps2_typed) = 97 \<and>
     queue_keys (snd (ps2_take_key ps2_typed)) = []"
  using ps2_take_key_reach [OF ps2_typed_reach] ps2_typed_reach by (simp add: ps2_typed_queue)

text \<open>
  C20: the ring buffer with 8-bit indices refines a list. Any sequence of pushes (from the interrupt
  handler) and pops (from readers) gives the outputs of the same sequence on a list of at most 63
  keys, and as long as no more keys are pushed than fit, the keys come out exactly as they went in,
  in order, none lost and none doubled.
\<close>

theorem ps2_queue_fifo:
  assumes "queue_wf s" "queue_run queue_push queue_pop ops s = (out, t)"
  shows "queue_run (list_push 63) (list_pop KEY_NONE) ops (queue_keys s) = (out, queue_keys t) \<and>
    (length (queue_keys s) + length (pushed ops) \<le> 63 \<and> KEY_NONE \<notin> set (queue_keys s @ pushed ops) \<longrightarrow>
       [k \<leftarrow> out. k \<noteq> KEY_NONE] @ queue_keys t = queue_keys s @ pushed ops)"
  using kq.run_refines [OF assms] kq.fifo [OF assms(1) _ _ _ assms(2)] by auto

theorem ps2_queue_fifo_witness:
  "\<exists>out t. queue_run queue_push queue_pop [Push 5, Push 7, Pop, Push 9, Pop, Pop, Pop] ps2_example = (out, t) \<and>
     out = [5, 7, 9, 0] \<and> queue_keys t = []"
proof -
  obtain out t where r: "queue_run queue_push queue_pop
      [Push 5, Push 7, Pop, Push 9, Pop, Pop, Pop] ps2_example = (out, t)" by fastforce
  have "queue_wf ps2_example" "queue_keys ps2_example = []"
    by (simp_all add: queue_wf_def ps2_example_def queue_keys_def queue_count_def)
  with ps2_queue_fifo [OF _ r] r show ?thesis by (simp add: list_push_def)
qed

text \<open>
  one byte from the keyboard queues at most one key, always a valid one, and leaves the older
  keys in place; a release code (top bit set), extended or not, queues nothing.
\<close>

theorem process_scancode_one_key:
  assumes "queue_wf s"
  shows "queue_wf (keyboard_process_scancode io sc s) \<and>
    (queue_keys (keyboard_process_scancode io sc s) = queue_keys s \<or>
     (\<exists>k. sc AND 0x80 = 0 \<and> valid_key k \<and>
        queue_keys (keyboard_process_scancode io sc s) = list_push 63 k (queue_keys s)))"
  using process_scancode_queues [OF assms, of io sc] process_release_queues_none [of sc io s]
  by (auto simp: queues_one_def)

theorem process_scancode_one_key_witness:
  "queue_wf (keyboard_process_scancode byte_io 0x9E ps2_typed) \<and>
   queue_keys (keyboard_process_scancode byte_io 0x9E ps2_typed) = [97]"
proof -
  have "queue_wf ps2_typed" using ps2_reach_keys_ok [OF ps2_typed_reach] by (simp add: keys_ok_def)
  from process_scancode_one_key [OF this, of byte_io "0x9E"] show ?thesis
    by (simp add: ps2_typed_queue)
qed

lemma letter_entry:
  assumes "(sc, c) \<in> set base_map" "is_ascii_alpha (of_char c)"
  shows "map_entry base_map sc = of_char c" "map_entry shift_map sc = of_char c - 32"
    "97 \<le> (of_char c :: int)" "(of_char c :: int) \<le> 122"
    "sc < 0x80" "sc AND 0x80 = 0"
    "sc \<notin> {0xE0, 0x2A, 0x36, 0xAA, 0xB6, 0x1D, 0x9D, 0x38, 0xB8, 0x3A, 0x45, 0x37}" "\<not> 0x47 \<le> sc"
proof -
  have "list_all (\<lambda>(sc, c). is_ascii_alpha (of_char c) \<longrightarrow>
      map_entry base_map sc = of_char c \<and> map_entry shift_map sc = of_char c - 32 \<and>
      97 \<le> (of_char c :: int) \<and> (of_char c :: int) \<le> 122 \<and> sc < 0x80 \<and> sc AND 0x80 = 0 \<and>
      sc \<notin> {0xE0, 0x2A, 0x36, 0xAA, 0xB6, 0x1D, 0x9D, 0x38, 0xB8, 0x3A, 0x45, 0x37} \<and> \<not> 0x47 \<le> sc) base_map"
    by code_simp
  with assms show "map_entry base_map sc = of_char c" "map_entry shift_map sc = of_char c - 32"
    "97 \<le> (of_char c :: int)" "(of_char c :: int) \<le> 122"
    "sc < 0x80" "sc AND 0x80 = 0"
    "sc \<notin> {0xE0, 0x2A, 0x36, 0xAA, 0xB6, 0x1D, 0x9D, 0x38, 0xB8, 0x3A, 0x45, 0x37}" "\<not> 0x47 \<le> sc"
    by (auto simp: list_all_iff)
qed

text \<open>
  pressing a letter key queues the letter of the layout, upper case exactly when one of Shift
  and Caps Lock is on and not both, and with Ctrl held the control code 1 to 26 of that letter
  whatever the case.
\<close>

theorem letter_key_case:
  assumes "(sc, c) \<in> set base_map" "is_ascii_alpha (of_char c)" "\<not> extended_prefix s"
  shows "keyboard_process_scancode io sc s =
    queue_push (if ctrl_pressed s then of_char c - 96
                else if shift_pressed s \<noteq> capslock_on s then of_char c - 32 else of_char c) s"
proof -
  note e = letter_entry [OF assms(1,2)]
  have t: "translate_scancode sc s =
      (if shift_pressed s \<noteq> capslock_on s then of_char c - 32 else of_char c)"
    using e(1-5) by (auto simp: translate_scancode_def Let_def is_ascii_alpha_def ascii_to_upper_def
        ascii_to_lower_def)
  have "ascii_to_ctrl (translate_scancode sc s) = of_char c - 96"
    using t e(3,4) by (auto simp: ascii_to_ctrl_def Let_def ascii_to_lower_def)
  then have "char_key sc s = queue_push (if ctrl_pressed s then of_char c - 96
      else if shift_pressed s \<noteq> capslock_on s then of_char c - 32 else of_char c) s"
    unfolding char_key_def Let_def using t e(3,4) by simp
  then show ?thesis
    using e(6-8) assms(3) by (simp add: keyboard_process_scancode_def)
qed

theorem letter_key_case_witness:
  "keyboard_process_scancode byte_io 0x10 (ps2_example\<lparr>shift_pressed := True\<rparr>) =
     queue_push 81 (ps2_example\<lparr>shift_pressed := True\<rparr>)"
  using letter_key_case [of "0x10" "CHR ''q''" "ps2_example\<lparr>shift_pressed := True\<rparr>" byte_io]
  by (simp add: base_map_def is_ascii_alpha_def ps2_example_def of_char_def)

end
