(* ===== verification/Line_Editor.thy ===== *)
theory Line_Editor
  imports Sys_Prelude
begin

text \<open>
  A one-line text editor as an abstract machine: a text of bounded length, a cursor in it and the
  insert or overwrite mode. The console keeps two such editors in step, the input buffer of
  \<open>src/src/kernel/core/tty/tty_core.c\<close> and the text of \<open>src/src/kernel/drivers/pc/vga_text.c\<close>.
  Both shift a C array by a loop; the loops and their effect are here as well.
\<close>

subsection \<open>The abstract editor\<close>

record editor =
  ed_text :: "u8 list"
  ed_cursor :: nat
  ed_insert :: bool

definition ed_wf :: "editor \<Rightarrow> bool" where
  "ed_wf e \<longleftrightarrow> ed_cursor e \<le> length (ed_text e)"

definition ed_putc :: "nat \<Rightarrow> u8 \<Rightarrow> editor \<Rightarrow> editor" where
  "ed_putc limit c e =
     (if limit \<le> length (ed_text e) then e
      else if \<not> ed_insert e \<and> ed_cursor e < length (ed_text e)
      then e\<lparr>ed_text := (ed_text e)[ed_cursor e := c], ed_cursor := ed_cursor e + 1\<rparr>
      else e\<lparr>ed_text := take (ed_cursor e) (ed_text e) @ c # drop (ed_cursor e) (ed_text e),
             ed_cursor := ed_cursor e + 1\<rparr>)"

definition ed_backspace :: "editor \<Rightarrow> editor" where
  "ed_backspace e =
     (if ed_cursor e = 0 then e
      else e\<lparr>ed_text := take (ed_cursor e - 1) (ed_text e) @ drop (ed_cursor e) (ed_text e),
             ed_cursor := ed_cursor e - 1\<rparr>)"

definition ed_delete :: "editor \<Rightarrow> editor" where
  "ed_delete e =
     (if length (ed_text e) \<le> ed_cursor e then e
      else e\<lparr>ed_text := take (ed_cursor e) (ed_text e) @ drop (Suc (ed_cursor e)) (ed_text e)\<rparr>)"

definition ed_left :: "editor \<Rightarrow> editor" where
  "ed_left e = (if ed_cursor e = 0 then e else e\<lparr>ed_cursor := ed_cursor e - 1\<rparr>)"

definition ed_right :: "editor \<Rightarrow> editor" where
  "ed_right e = (if ed_cursor e < length (ed_text e) then e\<lparr>ed_cursor := ed_cursor e + 1\<rparr> else e)"

definition ed_toggle :: "editor \<Rightarrow> editor" where
  "ed_toggle e = e\<lparr>ed_insert := \<not> ed_insert e\<rparr>"

lemmas ed_defs = ed_putc_def ed_backspace_def ed_delete_def ed_left_def ed_right_def ed_toggle_def

lemma ed_wf_ops:
  assumes "ed_wf e"
  shows "ed_wf (ed_putc n c e)" "ed_wf (ed_backspace e)" "ed_wf (ed_delete e)" "ed_wf (ed_left e)"
    "ed_wf (ed_right e)" "ed_wf (ed_toggle e)"
  using assms by (auto simp: ed_wf_def ed_defs)

lemma ed_length_ops:
  assumes "ed_wf e" "length (ed_text e) \<le> n"
  shows "length (ed_text (ed_putc n c e)) \<le> n" "length (ed_text (ed_backspace e)) \<le> n"
    "length (ed_text (ed_delete e)) \<le> n" "length (ed_text (ed_left e)) \<le> n"
    "length (ed_text (ed_right e)) \<le> n" "length (ed_text (ed_toggle e)) \<le> n"
  using assms by (auto simp: ed_wf_def ed_defs)

text \<open>Two limits make no difference while the text is shorter than both.\<close>

lemma ed_putc_limit: "length (ed_text e) < m \<Longrightarrow> length (ed_text e) < n \<Longrightarrow> ed_putc m c e = ed_putc n c e"
  by (simp add: ed_putc_def)

text \<open>Typing a text into an empty editor in insert mode.\<close>

lemma ed_fold_putc:
  assumes "ed_text e = xs" "ed_cursor e = length xs" "length xs + length ys \<le> n"
  shows "fold (ed_putc n) ys e = e\<lparr>ed_text := xs @ ys, ed_cursor := length xs + length ys\<rparr>"
  using assms
proof (induction ys arbitrary: e xs)
  case (Cons y ys)
  let ?e = "e\<lparr>ed_text := xs @ [y], ed_cursor := length xs + 1\<rparr>"
  have "ed_putc n y e = ?e" using Cons.prems by (simp add: ed_putc_def)
  then show ?case using Cons.IH [of ?e "xs @ [y]"] Cons.prems by simp
qed simp

lemma ed_fold_putc_full:
  assumes "ed_text e = xs" "ed_cursor e = length xs" "length xs \<le> n"
  shows "fold (ed_putc n) ys e = e\<lparr>ed_text := take n (xs @ ys), ed_cursor := min n (length xs + length ys)\<rparr>"
  using assms
proof (induction ys arbitrary: e xs)
  case (Cons y ys)
  show ?case
  proof (cases "length xs < n")
    case True
    let ?e = "e\<lparr>ed_text := xs @ [y], ed_cursor := length xs + 1\<rparr>"
    have "ed_putc n y e = ?e" using True Cons.prems by (simp add: ed_putc_def)
    then show ?thesis using Cons.IH [of ?e "xs @ [y]"] True Cons.prems by simp
  next
    case False
    then have "ed_putc n y e = e" "length xs = n" using Cons.prems by (simp_all add: ed_putc_def)
    then show ?thesis using Cons.IH [of e xs] Cons.prems by simp
  qed
qed simp

lemma ed_left_times:
  "k \<le> ed_cursor e \<Longrightarrow> (ed_left ^^ k) e = e\<lparr>ed_cursor := ed_cursor e - k\<rparr>"
  by (induction k) (auto simp: ed_left_def)

subsection \<open>Shifting a C array\<close>

text \<open>\<open>for (i = len; i > cursor; --i) buf[i] = buf[i - 1]\<close>\<close>

fun shift_right :: "(nat \<Rightarrow> 'a) \<Rightarrow> nat \<Rightarrow> nat \<Rightarrow> nat \<Rightarrow> 'a" where
  "shift_right buf i cursor =
     (if cursor < i then shift_right (buf(i := buf (i - 1))) (i - 1) cursor else buf)"

text \<open>\<open>for (i = start; i < len; ++i) buf[i - 1] = buf[i]\<close>\<close>

function shift_left :: "(nat \<Rightarrow> 'a) \<Rightarrow> nat \<Rightarrow> nat \<Rightarrow> nat \<Rightarrow> 'a" where
  "shift_left buf i len =
     (if i < len then shift_left (buf(i - 1 := buf i)) (i + 1) len else buf)"
  by auto
termination by (relation "measure (\<lambda>(buf, i, len). len - i)") auto

declare shift_right.simps [simp del] shift_left.simps [simp del]

lemma shift_right_eq:
  "cursor \<le> i \<Longrightarrow>
   shift_right buf i cursor = (\<lambda>j. if cursor < j \<and> j \<le> i then buf (j - 1) else buf j)"
proof (induction buf i cursor rule: shift_right.induct)
  case (1 buf i cursor)
  show ?case
  proof (cases "cursor < i")
    case True
    then have "shift_right buf i cursor = shift_right (buf(i := buf (i - 1))) (i - 1) cursor"
      by (subst shift_right.simps) simp
    also note "1.IH" [OF True]
    finally show ?thesis using True by (auto simp: fun_eq_iff)
  next
    case False
    then show ?thesis using 1(2) by (subst shift_right.simps) (auto simp: fun_eq_iff)
  qed
qed

lemma shift_left_eq:
  "0 < i \<Longrightarrow>
   shift_left buf i len = (\<lambda>j. if i \<le> j + 1 \<and> j + 1 < len then buf (j + 1) else buf j)"
proof (induction buf i len rule: shift_left.induct)
  case (1 buf i len)
  show ?case
  proof (cases "i < len")
    case True
    then have "shift_left buf i len = shift_left (buf(i - 1 := buf i)) (i + 1) len"
      by (subst shift_left.simps) simp
    also note "1.IH" [OF True]
    finally show ?thesis using True 1(2) by (auto simp: fun_eq_iff)
  next
    case False
    then show ?thesis by (subst shift_left.simps) (auto simp: fun_eq_iff)
  qed
qed

text \<open>The first \<open>n\<close> cells of an array, and the three edits on them.\<close>

definition cells :: "(nat \<Rightarrow> 'a) \<Rightarrow> nat \<Rightarrow> 'a list" where
  "cells buf n = map buf [0..<n]"

lemma length_cells [simp]: "length (cells buf n) = n"
  by (simp add: cells_def)

lemma nth_cells [simp]: "i < n \<Longrightarrow> cells buf n ! i = buf i"
  by (simp add: cells_def)

lemma cells_upd_same: "i < n \<Longrightarrow> cells (buf(i := c)) n = (cells buf n)[i := c]"
  by (rule nth_equalityI) (auto simp: nth_list_update)

lemma cells_insert:
  "i \<le> n \<Longrightarrow> cells ((shift_right buf n i)(i := c)) (Suc n) = take i (cells buf n) @ c # drop i (cells buf n)"
  by (rule nth_equalityI)
    (auto simp: shift_right_eq nth_append nth_Cons split: nat.split intro!: arg_cong [where f = buf])

lemma cells_insert_upd:
  "i \<le> n \<Longrightarrow> (cells (shift_right buf n i) (Suc n))[i := c] = take i (cells buf n) @ c # drop i (cells buf n)"
  using cells_insert [of i n buf c] by (simp add: cells_upd_same)

lemma cells_delete:
  "i < n \<Longrightarrow> cells (shift_left buf (Suc i) n) (n - 1) = take i (cells buf n) @ drop (Suc i) (cells buf n)"
  by (rule nth_equalityI) (auto simp: shift_left_eq nth_append)

lemma cells_backspace:
  "0 < i \<Longrightarrow> i \<le> n \<Longrightarrow>
   cells (shift_left buf i n) (n - 1) = take (i - 1) (cells buf n) @ drop i (cells buf n)"
  using cells_delete [of "i - 1" n buf] by simp

lemma shift_right_outside: "cursor \<le> i \<Longrightarrow> i < j \<Longrightarrow> shift_right buf i cursor j = buf j"
  by (simp add: shift_right_eq)

lemma shift_left_outside: "0 < i \<Longrightarrow> len \<le> j + 1 \<Longrightarrow> shift_left buf i len j = buf j"
  by (simp add: shift_left_eq)

end
