(* ===== verification/Display_Core.thy ===== *)
theory Display_Core
  imports Line_Editor
begin

text \<open>
  The console display interface, \<open>src/src/kernel/core/tty/display_core.c\<close> and \<open>display.h\<close>: the
  operation table a display driver registers, and the calls the console makes through it. A driver
  is a record of functions over its own state. The serial port that mirrors the output belongs to a
  loadable module and is a parameter. The locale \<open>text_display\<close> is what the line editor of the
  console relies on: the driver's edited text behaves like the abstract editor.
\<close>

record 'd display_ops =
  disp_init :: "'d \<Rightarrow> 'd"
  disp_set_color :: "u8 \<Rightarrow> 'd \<Rightarrow> 'd"
  disp_set_cursor :: "nat \<Rightarrow> nat \<Rightarrow> 'd \<Rightarrow> 'd"
  disp_get_cursor :: "'d \<Rightarrow> nat \<times> nat"
  disp_putc :: "u8 \<Rightarrow> 'd \<Rightarrow> 'd"
  disp_puts :: "u8 list \<Rightarrow> 'd \<Rightarrow> 'd"
  disp_hex_u32 :: "u32 \<Rightarrow> 'd \<Rightarrow> 'd"
  disp_text_begin :: "nat \<Rightarrow> nat \<Rightarrow> 'd \<Rightarrow> 'd"
  disp_text_putc :: "u8 \<Rightarrow> 'd \<Rightarrow> 'd"
  disp_text_backspace :: "'d \<Rightarrow> 'd"
  disp_text_left :: "'d \<Rightarrow> 'd"
  disp_text_right :: "'d \<Rightarrow> 'd"
  disp_text_delete :: "'d \<Rightarrow> 'd"
  disp_text_toggle_insert :: "'d \<Rightarrow> 'd"

record 'd display =
  active_display :: "'d display_ops option"
  smod_serial_write :: "u8 \<Rightarrow> 'd \<Rightarrow> 'd"

text \<open>A call through the table, skipped when no driver is registered.\<close>

definition with_display :: "'d display \<Rightarrow> ('d display_ops \<Rightarrow> 'd \<Rightarrow> 'd) \<Rightarrow> 'd \<Rightarrow> 'd" where
  "with_display D f d = (case active_display D of None \<Rightarrow> d | Some ops \<Rightarrow> f ops d)"

definition display_init :: "'d display \<Rightarrow> 'd \<Rightarrow> 'd" where
  "display_init D = with_display D disp_init"

definition display_set_color :: "'d display \<Rightarrow> u8 \<Rightarrow> 'd \<Rightarrow> 'd" where
  "display_set_color D c = with_display D (\<lambda>ops. disp_set_color ops c)"

definition display_get_cursor :: "'d display \<Rightarrow> 'd \<Rightarrow> nat \<times> nat" where
  "display_get_cursor D d =
     (case active_display D of None \<Rightarrow> (0, 0) | Some ops \<Rightarrow> disp_get_cursor ops d)"

definition display_putc :: "'d display \<Rightarrow> u8 \<Rightarrow> 'd \<Rightarrow> 'd" where
  "display_putc D c d = smod_serial_write D c (with_display D (\<lambda>ops. disp_putc ops c) d)"

primrec display_puts :: "'d display \<Rightarrow> u8 list \<Rightarrow> 'd \<Rightarrow> 'd" where
  "display_puts D [] d = d"
| "display_puts D (c # cs) d = display_puts D cs (display_putc D c d)"

text \<open>The digit that \<open>digits[(n >> (i * 4)) & 15]\<close> selects.\<close>

definition hex_digit :: "u32 \<Rightarrow> nat \<Rightarrow> u8" where
  "hex_digit n i = of_char (''0123456789ABCDEF'' ! unat (drop_bit (i * 4) n AND 0xF))"

definition display_hex_u32 :: "'d display \<Rightarrow> u32 \<Rightarrow> 'd \<Rightarrow> 'd" where
  "display_hex_u32 D n d =
     fold (\<lambda>i. display_putc D (hex_digit n i)) (rev [0..<8]) (display_puts D (map of_char ''0x'') d)"

definition display_text_begin :: "'d display \<Rightarrow> nat \<Rightarrow> nat \<Rightarrow> 'd \<Rightarrow> 'd" where
  "display_text_begin D r c = with_display D (\<lambda>ops. disp_text_begin ops r c)"

definition display_text_putc :: "'d display \<Rightarrow> u8 \<Rightarrow> 'd \<Rightarrow> 'd" where
  "display_text_putc D c = with_display D (\<lambda>ops. disp_text_putc ops c)"

definition display_text_backspace :: "'d display \<Rightarrow> 'd \<Rightarrow> 'd" where
  "display_text_backspace D = with_display D disp_text_backspace"

definition display_text_left :: "'d display \<Rightarrow> 'd \<Rightarrow> 'd" where
  "display_text_left D = with_display D disp_text_left"

definition display_text_right :: "'d display \<Rightarrow> 'd \<Rightarrow> 'd" where
  "display_text_right D = with_display D disp_text_right"

definition display_text_delete :: "'d display \<Rightarrow> 'd \<Rightarrow> 'd" where
  "display_text_delete D = with_display D disp_text_delete"

definition display_text_toggle_insert :: "'d display \<Rightarrow> 'd \<Rightarrow> 'd" where
  "display_text_toggle_insert D = with_display D disp_text_toggle_insert"

lemmas display_defs = with_display_def display_text_begin_def display_text_putc_def
  display_text_backspace_def display_text_left_def display_text_right_def display_text_delete_def
  display_text_toggle_insert_def

subsection \<open>What the console relies on\<close>

locale text_display =
  fixes ops :: "'d display_ops" and view :: "'d \<Rightarrow> editor" and ok :: "'d \<Rightarrow> bool" and limit :: nat
  assumes text_begin_view: "ok d \<Longrightarrow>
      ok (disp_text_begin ops r c d) \<and>
      view (disp_text_begin ops r c d) = \<lparr>ed_text = [], ed_cursor = 0, ed_insert = True\<rparr>"
    and text_putc_view: "ok d \<Longrightarrow>
      ok (disp_text_putc ops ch d) \<and> view (disp_text_putc ops ch d) = ed_putc limit ch (view d)"
    and text_backspace_view: "ok d \<Longrightarrow>
      ok (disp_text_backspace ops d) \<and> view (disp_text_backspace ops d) = ed_backspace (view d)"
    and text_left_view: "ok d \<Longrightarrow>
      ok (disp_text_left ops d) \<and> view (disp_text_left ops d) = ed_left (view d)"
    and text_right_view: "ok d \<Longrightarrow>
      ok (disp_text_right ops d) \<and> view (disp_text_right ops d) = ed_right (view d)"
    and text_delete_view: "ok d \<Longrightarrow>
      ok (disp_text_delete ops d) \<and> view (disp_text_delete ops d) = ed_delete (view d)"
    and text_toggle_view: "ok d \<Longrightarrow>
      ok (disp_text_toggle_insert ops d) \<and> view (disp_text_toggle_insert ops d) = ed_toggle (view d)"
begin

lemma putc_all:
  "ok d \<Longrightarrow> ok (fold (disp_text_putc ops) cs d) \<and>
    view (fold (disp_text_putc ops) cs d) = fold (ed_putc limit) cs (view d)"
  by (induction cs arbitrary: d) (simp_all add: text_putc_view)

lemma left_times:
  "ok d \<Longrightarrow> ok ((disp_text_left ops ^^ k) d) \<and> view ((disp_text_left ops ^^ k) d) = (ed_left ^^ k) (view d)"
  by (induction k) (simp_all add: text_left_view)

text \<open>
  Drawing a line afresh (begin, every character, cursor back) shows that line with the cursor at
  its place, always in insert mode.
\<close>

lemma redraw_view:
  assumes "ok d" "length cs \<le> limit" "k \<le> length cs"
  shows "ok ((disp_text_left ops ^^ k) (fold (disp_text_putc ops) cs (disp_text_begin ops r c d))) \<and>
    view ((disp_text_left ops ^^ k) (fold (disp_text_putc ops) cs (disp_text_begin ops r c d))) =
      \<lparr>ed_text = cs, ed_cursor = length cs - k, ed_insert = True\<rparr>"
proof -
  let ?d = "disp_text_begin ops r c d"
  note b = text_begin_view [OF assms(1), of r c]
  then have p: "view (fold (disp_text_putc ops) cs ?d) =
      \<lparr>ed_text = cs, ed_cursor = length cs, ed_insert = True\<rparr>" "ok (fold (disp_text_putc ops) cs ?d)"
    using putc_all [of ?d cs] ed_fold_putc [of "view ?d" "[]" cs limit] assms(2) by auto
  show ?thesis
    using left_times [OF p(2), of k] ed_left_times [of k "view (fold (disp_text_putc ops) cs ?d)"]
      assms(3) p(1) by simp
qed

end

end
