(* ===== verification/Vga_Text.thy ===== *)
theory Vga_Text
  imports Display_Core
begin

text \<open>
  The VGA text console, \<open>src/src/kernel/drivers/pc/vga_text.c\<close>: the 80 by 25 cells of video memory,
  the output cursor with scrolling, and the edited text the driver draws again after every edit.
  The cells are a function of their index, so that a write outside the 2000 cells is visible as a
  change there. The CRT controller behind ports \<open>0x3D4\<close> and \<open>0x3D5\<close> is a parameter. Row, column
  and text positions are natural numbers: the invariant below keeps them far below the 16 bits
  the C code gives them. The length of the text buffer is a parameter \<open>path_max\<close>, since
  \<open>VGA_TEXT_PATH_MAX\<close> depends on who compiles the file: 2000 by default, and 512 in the module
  \<open>src/src/modules/pc/vga.c\<close>, which registers the driver when the machine starts.
\<close>

subsection \<open>State\<close>

abbreviation "VGA_WIDTH \<equiv> 80 :: nat"
abbreviation "VGA_HEIGHT \<equiv> 25 :: nat"
abbreviation "VGA_CELLS \<equiv> 2000 :: nat"

record 'd vga_state =
  vga_mem :: "nat \<Rightarrow> u16"
  vga_row :: nat
  vga_col :: nat
  vga_color :: u8
  text_data :: "nat \<Rightarrow> u8"
  text_path :: "nat \<Rightarrow> nat"
  text_len :: nat
  text_cursor :: nat
  text_insert_mode :: bool
  vga_dev :: 'd

text \<open>\<open>((uint16_t)color << 8) | (uint8_t)c\<close>\<close>

definition vga_cell :: "u8 \<Rightarrow> u8 \<Rightarrow> u16" where
  "vga_cell color c = push_bit 8 (ucast color) OR ucast c"

subsection \<open>Operations\<close>

definition vga_hw_cursor_enable :: "'d port_io \<Rightarrow> u8 \<Rightarrow> u8 \<Rightarrow> 'd vga_state \<Rightarrow> 'd vga_state" where
  "vga_hw_cursor_enable io start stop s =
     (let d1 = port_outb io 0x3D4 0x0A (vga_dev s);
          (v, d2) = port_inb io 0x3D5 d1;
          d3 = port_outb io 0x3D5 (v AND 0xC0 OR start AND 0x1F) d2;
          d4 = port_outb io 0x3D4 0x0B d3;
          (w, d5) = port_inb io 0x3D5 d4;
          d6 = port_outb io 0x3D5 (w AND 0xE0 OR stop AND 0x1F) d5
      in s\<lparr>vga_dev := d6\<rparr>)"

definition vga_hw_cursor_update :: "'d port_io \<Rightarrow> 'd vga_state \<Rightarrow> 'd vga_state" where
  "vga_hw_cursor_update io s =
     (let pos = of_nat (vga_row s * VGA_WIDTH + vga_col s) :: u16;
          d1 = port_outb io 0x3D4 0x0F (vga_dev s);
          d2 = port_outb io 0x3D5 (ucast (pos AND 0xFF)) d1;
          d3 = port_outb io 0x3D4 0x0E d2;
          d4 = port_outb io 0x3D5 (ucast (drop_bit 8 pos AND 0xFF)) d3
      in s\<lparr>vga_dev := d4\<rparr>)"

definition scroll_row :: "nat \<Rightarrow> (nat \<Rightarrow> u16) \<Rightarrow> nat \<Rightarrow> u16" where
  "scroll_row r mem =
     fold (\<lambda>c m. m((r - 1) * VGA_WIDTH + c := m (r * VGA_WIDTH + c))) [0..<VGA_WIDTH] mem"

definition vga_scroll_up :: "'d vga_state \<Rightarrow> 'd vga_state" where
  "vga_scroll_up s =
     (let m1 = fold scroll_row [1..<VGA_HEIGHT] (vga_mem s);
          m2 = fold (\<lambda>c m. m((VGA_HEIGHT - 1) * VGA_WIDTH + c := vga_cell (vga_color s) 32))
                 [0..<VGA_WIDTH] m1
      in s\<lparr>vga_mem := m2\<rparr>)"

definition vga_ensure_row_visible :: "'d vga_state \<Rightarrow> 'd vga_state" where
  "vga_ensure_row_visible s =
     (if VGA_HEIGHT \<le> vga_row s then (vga_scroll_up s)\<lparr>vga_row := VGA_HEIGHT - 1\<rparr> else s)"

definition vga_cursor_pos_get :: "'d vga_state \<Rightarrow> nat" where
  "vga_cursor_pos_get s = vga_row s * VGA_WIDTH + vga_col s"

definition vga_cursor_pos_set :: "'d port_io \<Rightarrow> nat \<Rightarrow> 'd vga_state \<Rightarrow> 'd vga_state" where
  "vga_cursor_pos_set io pos s =
     vga_hw_cursor_update io (s\<lparr>vga_row := pos div VGA_WIDTH, vga_col := pos mod VGA_WIDTH\<rparr>)"

definition pc_vga_putc_at :: "nat \<Rightarrow> nat \<Rightarrow> u8 \<Rightarrow> 'd vga_state \<Rightarrow> 'd vga_state" where
  "pc_vga_putc_at at_row at_col c s =
     (let r = at_row mod VGA_HEIGHT; ccol = at_col mod VGA_WIDTH
      in s\<lparr>vga_mem := (vga_mem s)(r * VGA_WIDTH + ccol := vga_cell (vga_color s) c)\<rparr>)"

definition pc_vga_getc_at :: "nat \<Rightarrow> nat \<Rightarrow> 'd vga_state \<Rightarrow> u8" where
  "pc_vga_getc_at at_row at_col s =
     (let r = at_row mod VGA_HEIGHT; ccol = at_col mod VGA_WIDTH
      in ucast (vga_mem s (r * VGA_WIDTH + ccol) AND 0xFF))"

definition pc_vga_putc :: "'d port_io \<Rightarrow> u8 \<Rightarrow> 'd vga_state \<Rightarrow> 'd vga_state" where
  "pc_vga_putc io c s =
     (if c = 10
      then vga_hw_cursor_update io
             (vga_ensure_row_visible (s\<lparr>vga_col := 0, vga_row := vga_row s + 1\<rparr>))
      else let s1 = s\<lparr>vga_mem := (vga_mem s)(vga_row s * VGA_WIDTH + vga_col s := vga_cell (vga_color s) c),
                      vga_col := vga_col s + 1\<rparr>;
               s2 = (if VGA_WIDTH \<le> vga_col s1 then s1\<lparr>vga_col := 0, vga_row := vga_row s1 + 1\<rparr> else s1)
           in vga_hw_cursor_update io (vga_ensure_row_visible s2))"

text \<open>The two loops of \<open>vga_text_rerender\<close>: blank from the start of the text, then draw it.\<close>

definition rerender_clear :: "'d vga_state \<Rightarrow> 'd vga_state" where
  "rerender_clear s =
     fold (\<lambda>pos. pc_vga_putc_at (pos div VGA_WIDTH) (pos mod VGA_WIDTH) 32) [text_path s 0..<VGA_CELLS] s"

definition rerender_char :: "'d port_io \<Rightarrow> nat \<Rightarrow> 'd vga_state \<Rightarrow> 'd vga_state" where
  "rerender_char io i s =
     (let s1 = pc_vga_putc io (text_data s i) s
      in s1\<lparr>text_path := (text_path s1)(i + 1 := vga_cursor_pos_get s1)\<rparr>)"

definition vga_text_rerender :: "'d port_io \<Rightarrow> 'd vga_state \<Rightarrow> 'd vga_state" where
  "vga_text_rerender io s =
     (let s1 = rerender_clear s;
          s2 = vga_cursor_pos_set io (text_path s1 0) s1;
          s3 = s2\<lparr>text_path := (text_path s2)(0 := vga_cursor_pos_get s2)\<rparr>;
          s4 = fold (rerender_char io) [0..<text_len s3] s3
      in vga_cursor_pos_set io (text_path s4 (text_cursor s4)) s4)"

definition pc_vga_init :: "'d port_io \<Rightarrow> 'd vga_state \<Rightarrow> 'd vga_state" where
  "pc_vga_init io s =
     (let s1 = vga_hw_cursor_enable io 14 15 (s\<lparr>vga_row := 0, vga_col := 0\<rparr>);
          s2 = s1\<lparr>vga_mem := fold (\<lambda>i m. m(i := vga_cell (vga_color s1) 32)) [0..<VGA_CELLS] (vga_mem s1),
                  text_path := (text_path s1)(0 := 0), text_len := 0, text_cursor := 0,
                  text_insert_mode := True\<rparr>
      in vga_hw_cursor_update io s2)"

definition pc_vga_set_color :: "u8 \<Rightarrow> 'd vga_state \<Rightarrow> 'd vga_state" where
  "pc_vga_set_color new_color s = s\<lparr>vga_color := new_color AND 0x0F\<rparr>"

definition pc_vga_set_cursor :: "'d port_io \<Rightarrow> nat \<Rightarrow> nat \<Rightarrow> 'd vga_state \<Rightarrow> 'd vga_state" where
  "pc_vga_set_cursor io new_row new_col s =
     vga_hw_cursor_update io (s\<lparr>vga_row := new_row mod VGA_HEIGHT, vga_col := new_col mod VGA_WIDTH\<rparr>)"

definition pc_vga_get_cursor :: "'d vga_state \<Rightarrow> nat \<times> nat" where
  "pc_vga_get_cursor s = (vga_row s, vga_col s)"

primrec pc_vga_puts :: "'d port_io \<Rightarrow> u8 list \<Rightarrow> 'd vga_state \<Rightarrow> 'd vga_state" where
  "pc_vga_puts io [] s = s"
| "pc_vga_puts io (c # cs) s = pc_vga_puts io cs (pc_vga_putc io c s)"

definition pc_vga_hex_u32 :: "'d port_io \<Rightarrow> u32 \<Rightarrow> 'd vga_state \<Rightarrow> 'd vga_state" where
  "pc_vga_hex_u32 io n s =
     fold (\<lambda>i. pc_vga_putc io (hex_digit n i)) (rev [0..<8]) (pc_vga_puts io (map of_char ''0x'') s)"

definition pc_vga_text_begin :: "'d port_io \<Rightarrow> nat \<Rightarrow> nat \<Rightarrow> 'd vga_state \<Rightarrow> 'd vga_state" where
  "pc_vga_text_begin io start_row start_col s =
     (let s1 = pc_vga_set_cursor io start_row start_col s
      in vga_text_rerender io
           (s1\<lparr>text_path := (text_path s1)(0 := vga_cursor_pos_get s1), text_len := 0,
               text_cursor := 0, text_insert_mode := True\<rparr>))"

definition pc_vga_text_putc :: "nat \<Rightarrow> 'd port_io \<Rightarrow> u8 \<Rightarrow> 'd vga_state \<Rightarrow> 'd vga_state" where
  "pc_vga_text_putc path_max io c s =
     (if path_max \<le> text_len s then s
      else if \<not> text_insert_mode s \<and> text_cursor s < text_len s
      then vga_text_rerender io
             (s\<lparr>text_data := (text_data s)(text_cursor s := c), text_cursor := text_cursor s + 1\<rparr>)
      else vga_text_rerender io
             (s\<lparr>text_data := (shift_right (text_data s) (text_len s) (text_cursor s))(text_cursor s := c),
                text_len := text_len s + 1, text_cursor := text_cursor s + 1\<rparr>))"

definition pc_vga_text_backspace :: "'d port_io \<Rightarrow> 'd vga_state \<Rightarrow> 'd vga_state" where
  "pc_vga_text_backspace io s =
     (if text_cursor s = 0 then s
      else vga_text_rerender io
             (s\<lparr>text_data := shift_left (text_data s) (text_cursor s) (text_len s),
                text_cursor := text_cursor s - 1, text_len := text_len s - 1\<rparr>))"

definition pc_vga_text_left :: "'d port_io \<Rightarrow> 'd vga_state \<Rightarrow> 'd vga_state" where
  "pc_vga_text_left io s =
     (if 0 < text_cursor s
      then let s1 = s\<lparr>text_cursor := text_cursor s - 1\<rparr>
           in vga_cursor_pos_set io (text_path s1 (text_cursor s1)) s1
      else s)"

definition pc_vga_text_right :: "'d port_io \<Rightarrow> 'd vga_state \<Rightarrow> 'd vga_state" where
  "pc_vga_text_right io s =
     (if text_cursor s < text_len s
      then let s1 = s\<lparr>text_cursor := text_cursor s + 1\<rparr>
           in vga_cursor_pos_set io (text_path s1 (text_cursor s1)) s1
      else s)"

definition pc_vga_text_delete :: "'d port_io \<Rightarrow> 'd vga_state \<Rightarrow> 'd vga_state" where
  "pc_vga_text_delete io s =
     (if text_len s \<le> text_cursor s then s
      else vga_text_rerender io
             (s\<lparr>text_data := shift_left (text_data s) (text_cursor s + 1) (text_len s),
                text_len := text_len s - 1\<rparr>))"

definition pc_vga_text_toggle_insert :: "'d vga_state \<Rightarrow> 'd vga_state" where
  "pc_vga_text_toggle_insert s = s\<lparr>text_insert_mode := \<not> text_insert_mode s\<rparr>"

text \<open>
  The table of the driver: as in \<open>vga_display.c\<close>, which nothing calls, and as the module fills it in,
  with its smaller buffer.
\<close>

definition pc_vga_display_ops :: "nat \<Rightarrow> 'd port_io \<Rightarrow> 'd vga_state display_ops" where
  "pc_vga_display_ops path_max io =
     \<lparr>disp_init = pc_vga_init io, disp_set_color = pc_vga_set_color,
      disp_set_cursor = pc_vga_set_cursor io, disp_get_cursor = pc_vga_get_cursor,
      disp_putc = pc_vga_putc io, disp_puts = pc_vga_puts io, disp_hex_u32 = pc_vga_hex_u32 io,
      disp_text_begin = pc_vga_text_begin io, disp_text_putc = pc_vga_text_putc path_max io,
      disp_text_backspace = pc_vga_text_backspace io, disp_text_left = pc_vga_text_left io,
      disp_text_right = pc_vga_text_right io, disp_text_delete = pc_vga_text_delete io,
      disp_text_toggle_insert = pc_vga_text_toggle_insert\<rparr>"

definition smod_vga_display_ops :: "'d port_io \<Rightarrow> 'd vga_state display_ops" where
  "smod_vga_display_ops io = pc_vga_display_ops 512 io"

subsection \<open>Scrolling and plain output\<close>

text \<open>The hardware cursor is only a port write.\<close>

lemma vga_hw_cursor_update_eq: "\<exists>d. vga_hw_cursor_update io s = s\<lparr>vga_dev := d\<rparr>"
  by (auto simp: vga_hw_cursor_update_def Let_def)

lemma vga_hw_cursor_update_sel [simp]:
  "vga_mem (vga_hw_cursor_update io s) = vga_mem s" "vga_row (vga_hw_cursor_update io s) = vga_row s"
  "vga_col (vga_hw_cursor_update io s) = vga_col s" "vga_color (vga_hw_cursor_update io s) = vga_color s"
  "text_data (vga_hw_cursor_update io s) = text_data s" "text_path (vga_hw_cursor_update io s) = text_path s"
  "text_len (vga_hw_cursor_update io s) = text_len s" "text_cursor (vga_hw_cursor_update io s) = text_cursor s"
  "text_insert_mode (vga_hw_cursor_update io s) = text_insert_mode s"
  by (simp_all add: vga_hw_cursor_update_def Let_def)

lemma scroll_cells:
  "fold (\<lambda>c m. m(a + c := m (a + 80 + c))) [0..<n] mem =
     (\<lambda>j. if a \<le> j \<and> j < a + n then mem (j + 80) else mem j)" if "n \<le> 80" for a n :: nat
  using that by (induction n) (auto simp: fun_eq_iff ac_simps)

lemma scroll_row_eq:
  "scroll_row (Suc r) mem = (\<lambda>j. if r * 80 \<le> j \<and> j < r * 80 + 80 then mem (j + 80) else mem j)"
  using scroll_cells [of 80 "r * 80" mem] by (simp add: scroll_row_def add.assoc add.commute)

lemma scroll_rows_eq:
  "fold scroll_row [1..<Suc n] mem = (\<lambda>j. if j < n * 80 then mem (j + 80) else mem j)"
proof (induction n)
  case (Suc n)
  have "fold scroll_row [1..<Suc (Suc n)] mem = scroll_row (Suc n) (fold scroll_row [1..<Suc n] mem)"
    by simp
  then show ?case unfolding Suc scroll_row_eq by (auto simp: fun_eq_iff)
qed simp

lemma blank_cells:
  "fold (\<lambda>c m. m(a + c := v)) [0..<n] mem = (\<lambda>j. if a \<le> j \<and> j < a + n then v else mem j)" for a n :: nat
  by (induction n) (auto simp: fun_eq_iff)

lemma vga_scroll_up_mem:
  "vga_mem (vga_scroll_up s) =
     (\<lambda>j. if j < 1920 then vga_mem s (j + 80) else if j < 2000 then vga_cell (vga_color s) 32 else vga_mem s j)"
proof -
  have "fold scroll_row [1..<VGA_HEIGHT] m = (\<lambda>j. if j < 1920 then m (j + 80) else m j)" for m
    using scroll_rows_eq [of 24 m] by simp
  then show ?thesis
    using blank_cells [where a = 1920 and n = 80 and v = "vga_cell (vga_color s) 32"]
    by (simp add: vga_scroll_up_def Let_def fun_eq_iff)
qed

lemma vga_scroll_up_sel [simp]:
  "vga_row (vga_scroll_up s) = vga_row s" "vga_col (vga_scroll_up s) = vga_col s"
  "vga_color (vga_scroll_up s) = vga_color s" "text_data (vga_scroll_up s) = text_data s"
  "text_path (vga_scroll_up s) = text_path s" "text_len (vga_scroll_up s) = text_len s"
  "text_cursor (vga_scroll_up s) = text_cursor s" "text_insert_mode (vga_scroll_up s) = text_insert_mode s"
  by (simp_all add: vga_scroll_up_def Let_def)

text \<open>The cursor stays on the screen and no cell outside it is written.\<close>

definition on_screen :: "'d vga_state \<Rightarrow> bool" where
  "on_screen s \<longleftrightarrow> vga_row s < VGA_HEIGHT \<and> vga_col s < VGA_WIDTH"

lemma on_screen_pos: "on_screen s \<Longrightarrow> vga_cursor_pos_get s < VGA_CELLS"
  by (simp add: on_screen_def vga_cursor_pos_get_def)

lemma pc_vga_putc_text [simp]:
  "text_data (pc_vga_putc io c s) = text_data s" "text_path (pc_vga_putc io c s) = text_path s"
  "text_len (pc_vga_putc io c s) = text_len s" "text_cursor (pc_vga_putc io c s) = text_cursor s"
  "text_insert_mode (pc_vga_putc io c s) = text_insert_mode s" "vga_color (pc_vga_putc io c s) = vga_color s"
  by (simp_all add: pc_vga_putc_def vga_ensure_row_visible_def Let_def)

lemma pc_vga_putc_on_screen:
  assumes "on_screen s"
  shows "on_screen (pc_vga_putc io c s)"
    "VGA_CELLS \<le> j \<Longrightarrow> vga_mem (pc_vga_putc io c s) j = vga_mem s j"
  using assms
  by (auto simp: on_screen_def pc_vga_putc_def vga_ensure_row_visible_def Let_def vga_scroll_up_mem)

text \<open>Away from the end of the screen a character goes to the cursor position and moves it by one.\<close>

lemma pc_vga_putc_plain:
  assumes "on_screen s" "c \<noteq> 10" "vga_cursor_pos_get s + 1 < VGA_CELLS"
  shows "vga_cursor_pos_get (pc_vga_putc io c s) = vga_cursor_pos_get s + 1"
    "vga_mem (pc_vga_putc io c s) = (vga_mem s)(vga_cursor_pos_get s := vga_cell (vga_color s) c)"
  using assms
  by (auto simp: on_screen_def vga_cursor_pos_get_def pc_vga_putc_def vga_ensure_row_visible_def Let_def)

subsection \<open>The edited text\<close>

definition vga_view :: "'d vga_state \<Rightarrow> editor" where
  "vga_view s = \<lparr>ed_text = cells (text_data s) (text_len s), ed_cursor = text_cursor s,
                 ed_insert = text_insert_mode s\<rparr>"

definition vga_inv :: "nat \<Rightarrow> 'd vga_state \<Rightarrow> bool" where
  "vga_inv path_max s \<longleftrightarrow> on_screen s \<and> text_cursor s \<le> text_len s \<and> text_len s \<le> path_max \<and>
     (\<forall>i \<le> text_len s. text_path s i < VGA_CELLS)"

text \<open>Only the screen, the text buffer and the path buffer are written, each within its bounds.\<close>

definition vga_within :: "nat \<Rightarrow> 'd vga_state \<Rightarrow> 'd vga_state \<Rightarrow> bool" where
  "vga_within path_max s t \<longleftrightarrow> (\<forall>j \<ge> VGA_CELLS. vga_mem t j = vga_mem s j) \<and>
     (\<forall>j \<ge> path_max. text_data t j = text_data s j) \<and>
     (\<forall>j > path_max. text_path t j = text_path s j)"

lemma vga_within_trans: "vga_within path_max s t \<Longrightarrow> vga_within path_max t u \<Longrightarrow> vga_within path_max s u"
  by (simp add: vga_within_def)

lemma rerender_clear_eq:
  "rerender_clear s = s\<lparr>vga_mem := (\<lambda>j. if text_path s 0 \<le> j \<and> j < VGA_CELLS
     then vga_cell (vga_color s) 32 else vga_mem s j)\<rparr>"
proof -
  have "fold (\<lambda>pos. pc_vga_putc_at (pos div VGA_WIDTH) (pos mod VGA_WIDTH) 32) [p..<n] s =
      s\<lparr>vga_mem := (\<lambda>j. if p \<le> j \<and> j < n then vga_cell (vga_color s) 32 else vga_mem s j)\<rparr>"
    if "n \<le> VGA_CELLS" for p n
    using that
  proof (induction n)
    case (Suc n)
    have "n div 80 mod 25 * 80 + n mod 80 = n"
    proof -
      have "n div 80 < 25" using Suc.prems by (intro less_mult_imp_div_less) simp
      then show ?thesis by simp
    qed
    then show ?case
      using Suc by (auto simp: pc_vga_putc_at_def Let_def fun_eq_iff intro!: vga_state.equality)
  qed simp
  then show ?thesis by (simp add: rerender_clear_def)
qed

lemma rerender_char_text [simp]:
  "text_data (rerender_char io i s) = text_data s" "text_len (rerender_char io i s) = text_len s"
  "text_cursor (rerender_char io i s) = text_cursor s"
  "text_insert_mode (rerender_char io i s) = text_insert_mode s" "vga_color (rerender_char io i s) = vga_color s"
  by (simp_all add: rerender_char_def Let_def)

lemma rerender_chars_text [simp]:
  "text_data (fold (rerender_char io) is s) = text_data s" "text_len (fold (rerender_char io) is s) = text_len s"
  "text_cursor (fold (rerender_char io) is s) = text_cursor s"
  "text_insert_mode (fold (rerender_char io) is s) = text_insert_mode s"
  "vga_color (fold (rerender_char io) is s) = vga_color s"
  by (induction "is" arbitrary: s) simp_all

lemma vga_cursor_pos_set_sel [simp]:
  "vga_mem (vga_cursor_pos_set io p s) = vga_mem s" "vga_color (vga_cursor_pos_set io p s) = vga_color s"
  "text_data (vga_cursor_pos_set io p s) = text_data s" "text_path (vga_cursor_pos_set io p s) = text_path s"
  "text_len (vga_cursor_pos_set io p s) = text_len s" "text_cursor (vga_cursor_pos_set io p s) = text_cursor s"
  "text_insert_mode (vga_cursor_pos_set io p s) = text_insert_mode s"
  "vga_cursor_pos_get (vga_cursor_pos_set io p s) = p"
  by (simp_all add: vga_cursor_pos_set_def vga_cursor_pos_get_def)

lemma vga_cursor_pos_set_on_screen: "p < VGA_CELLS \<Longrightarrow> on_screen (vga_cursor_pos_set io p s)"
  by (simp add: vga_cursor_pos_set_def on_screen_def less_mult_imp_div_less)

lemma on_screen_path [simp]: "on_screen (s\<lparr>text_path := f\<rparr>) = on_screen s"
  by (simp add: on_screen_def)

lemma vga_text_rerender_text [simp]:
  "text_data (vga_text_rerender io s) = text_data s" "text_len (vga_text_rerender io s) = text_len s"
  "text_cursor (vga_text_rerender io s) = text_cursor s"
  "text_insert_mode (vga_text_rerender io s) = text_insert_mode s"
  "vga_color (vga_text_rerender io s) = vga_color s"
  by (simp_all add: vga_text_rerender_def Let_def rerender_clear_eq)

text \<open>Drawing the first \<open>n\<close> characters, wherever the text begins and whatever scrolls.\<close>

lemma rerender_chars_on_screen:
  assumes "on_screen s" "text_path s 0 < VGA_CELLS"
  shows "on_screen (fold (rerender_char io) [0..<n] s) \<and>
    (\<forall>i \<le> n. text_path (fold (rerender_char io) [0..<n] s) i < VGA_CELLS) \<and>
    (\<forall>i > n. text_path (fold (rerender_char io) [0..<n] s) i = text_path s i) \<and>
    (\<forall>j \<ge> VGA_CELLS. vga_mem (fold (rerender_char io) [0..<n] s) j = vga_mem s j)"
proof (induction n)
  case 0
  then show ?case using assms by simp
next
  case (Suc n)
  let ?s = "fold (rerender_char io) [0..<n] s"
  let ?t = "pc_vga_putc io (text_data ?s n) ?s"
  have scr: "on_screen ?s" using Suc by simp
  note t = pc_vga_putc_on_screen [OF scr, where io = io and c = "text_data ?s n"]
  have "fold (rerender_char io) [0..<Suc n] s = ?t\<lparr>text_path := (text_path ?t)(n + 1 := vga_cursor_pos_get ?t)\<rparr>"
    by (simp add: rerender_char_def Let_def)
  then show ?case
    using t on_screen_pos [OF t(1)] Suc by (auto simp: le_Suc_eq)
qed

lemma vga_text_rerender_inv:
  assumes "text_cursor s \<le> text_len s" "text_len s \<le> path_max" "text_path s 0 < VGA_CELLS"
  shows "vga_inv path_max (vga_text_rerender io s)" "vga_within path_max s (vga_text_rerender io s)"
proof -
  let ?p = "text_path s 0"
  define s1 where "s1 = vga_cursor_pos_set io ?p (rerender_clear s)"
  define s3 where "s3 = s1\<lparr>text_path := (text_path s1)(0 := vga_cursor_pos_get s1)\<rparr>"
  define s4 where "s4 = fold (rerender_char io) [0..<text_len s] s3"
  have scr: "on_screen s3"
    unfolding s3_def s1_def using assms(3) by (simp add: vga_cursor_pos_set_on_screen)
  have path0: "text_path s3 0 < VGA_CELLS" using assms(3) by (simp add: s3_def s1_def)
  note d = rerender_chars_on_screen [OF scr path0, where io = io and n = "text_len s", folded s4_def]
  have r: "vga_text_rerender io s = vga_cursor_pos_set io (text_path s4 (text_cursor s)) s4"
    by (simp add: vga_text_rerender_def Let_def rerender_clear_eq s4_def s3_def s1_def)
  have pos: "text_path s4 (text_cursor s) < VGA_CELLS" using d assms(1) by simp
  have sel: "text_data s4 = text_data s" "text_len s4 = text_len s" "text_cursor s4 = text_cursor s"
    by (simp_all add: s4_def s3_def s1_def rerender_clear_eq)
  have mem: "\<forall>j \<ge> VGA_CELLS. vga_mem s3 j = vga_mem s j" "\<forall>i > text_len s. text_path s3 i = text_path s i"
    by (simp_all add: s3_def s1_def rerender_clear_eq)
  show "vga_inv path_max (vga_text_rerender io s)"
    unfolding vga_inv_def using d assms(1,2)
    by (simp add: r sel vga_cursor_pos_set_on_screen [OF pos])
  show "vga_within path_max s (vga_text_rerender io s)"
    unfolding vga_within_def using d assms(2) mem by (simp add: r sel)
qed

text \<open>Drawing a text without line breaks that ends before the last cell of the screen.\<close>

lemma rerender_chars_plain:
  assumes "on_screen s" "vga_cursor_pos_get s = p" "text_path s 0 = p"
    and "\<forall>i < n. text_data s i \<noteq> 10" "p + n < VGA_CELLS"
  shows "vga_cursor_pos_get (fold (rerender_char io) [0..<n] s) = p + n \<and>
    (\<forall>i \<le> n. text_path (fold (rerender_char io) [0..<n] s) i = p + i) \<and>
    vga_mem (fold (rerender_char io) [0..<n] s) =
      (\<lambda>j. if p \<le> j \<and> j < p + n then vga_cell (vga_color s) (text_data s (j - p)) else vga_mem s j)"
  using assms(4,5)
proof (induction n)
  case 0
  then show ?case using assms by (auto simp: fun_eq_iff)
next
  case (Suc n)
  let ?s = "fold (rerender_char io) [0..<n] s"
  let ?t = "pc_vga_putc io (text_data ?s n) ?s"
  have scr: "on_screen ?s"
    using rerender_chars_on_screen [OF assms(1), where io = io and n = n] assms(3) Suc.prems by simp
  have ih: "vga_cursor_pos_get ?s = p + n" "\<forall>i \<le> n. text_path ?s i = p + i"
    "vga_mem ?s = (\<lambda>j. if p \<le> j \<and> j < p + n then vga_cell (vga_color s) (text_data s (j - p)) else vga_mem s j)"
    using Suc by auto
  have "vga_cursor_pos_get ?s + 1 < VGA_CELLS" using ih(1) Suc.prems by simp
  then have t: "vga_cursor_pos_get ?t = p + Suc n"
    "vga_mem ?t = (vga_mem ?s)(p + n := vga_cell (vga_color s) (text_data s n))"
    using pc_vga_putc_plain [OF scr, where io = io and c = "text_data ?s n"] Suc.prems ih(1) by simp_all
  have f: "fold (rerender_char io) [0..<Suc n] s = ?t\<lparr>text_path := (text_path ?t)(n + 1 := vga_cursor_pos_get ?t)\<rparr>"
    by (simp add: rerender_char_def Let_def)
  have "vga_cursor_pos_get (x\<lparr>text_path := g\<rparr>) = vga_cursor_pos_get x" for x :: "'a vga_state" and g
    by (simp add: vga_cursor_pos_get_def)
  then show ?case unfolding f using t ih(2,3) by (auto simp: le_Suc_eq fun_eq_iff)
qed

text \<open>
  C22: after every redraw of the edited text, if the text has no line breaks and ends before the last
  cell of the screen, the cells from its start hold exactly its characters, everything after it is
  blank, everything before it is untouched, and the cursor stands on the edited position.
\<close>

theorem vga_text_shows_line:
  assumes "vga_inv path_max s" "text_path s 0 + text_len s < VGA_CELLS" "\<forall>i < text_len s. text_data s i \<noteq> 10"
  shows "vga_mem (vga_text_rerender io s) =
      (\<lambda>j. if j < text_path s 0 \<or> VGA_CELLS \<le> j then vga_mem s j
           else if j < text_path s 0 + text_len s then vga_cell (vga_color s) (text_data s (j - text_path s 0))
           else vga_cell (vga_color s) 32) \<and>
    vga_cursor_pos_get (vga_text_rerender io s) = text_path s 0 + text_cursor s"
proof -
  let ?p = "text_path s 0"
  define s1 where "s1 = vga_cursor_pos_set io ?p (rerender_clear s)"
  define s3 where "s3 = s1\<lparr>text_path := (text_path s1)(0 := vga_cursor_pos_get s1)\<rparr>"
  define s4 where "s4 = fold (rerender_char io) [0..<text_len s] s3"
  have p: "?p < VGA_CELLS" using assms(2) by simp
  have sel: "text_data s3 = text_data s" "vga_color s3 = vga_color s" "text_path s3 0 = ?p"
    "text_len s3 = text_len s" "text_cursor s3 = text_cursor s"
    "vga_mem s3 = (\<lambda>j. if ?p \<le> j \<and> j < VGA_CELLS then vga_cell (vga_color s) 32 else vga_mem s j)"
    by (simp_all add: s3_def s1_def rerender_clear_eq)
  have scr: "on_screen s3" unfolding s3_def s1_def using p by (simp add: vga_cursor_pos_set_on_screen)
  have pos: "vga_cursor_pos_get s3 = ?p"
    by (simp add: s3_def s1_def vga_cursor_pos_set_def vga_cursor_pos_get_def)
  have d: "\<forall>i \<le> text_len s. text_path s4 i = ?p + i"
    "vga_mem s4 = (\<lambda>j. if ?p \<le> j \<and> j < ?p + text_len s then vga_cell (vga_color s) (text_data s (j - ?p))
       else vga_mem s3 j)"
    using rerender_chars_plain [OF scr pos sel(3), where io = io and n = "text_len s", folded s4_def] assms(2,3) sel
    by auto
  have r: "vga_text_rerender io s = vga_cursor_pos_set io (text_path s4 (text_cursor s)) s4"
    by (simp add: vga_text_rerender_def Let_def rerender_clear_eq s4_def s3_def s1_def)
  have "text_path s4 (text_cursor s) = ?p + text_cursor s" using d(1) assms(1) by (simp add: vga_inv_def)
  then show ?thesis unfolding r using d(2) sel(6) assms(2) by (auto simp: fun_eq_iff)
qed

subsection \<open>Every entry point keeps the invariant\<close>

lemma vga_within_refl [simp]: "vga_within path_max s s"
  by (simp add: vga_within_def)

lemma vga_inv_sel:
  assumes "vga_inv path_max s"
  shows "text_cursor s \<le> text_len s" "text_len s \<le> path_max" "text_path s 0 < VGA_CELLS"
  using assms by (auto simp: vga_inv_def)

definition vga_keeps :: "nat \<Rightarrow> 'd vga_state \<Rightarrow> 'd vga_state \<Rightarrow> bool" where
  "vga_keeps path_max s t \<longleftrightarrow> vga_inv path_max t \<and> vga_within path_max s t"

lemma vga_keeps_refl: "vga_inv path_max s \<Longrightarrow> vga_keeps path_max s s"
  by (simp add: vga_keeps_def)

lemma vga_keeps_trans: "vga_keeps path_max s t \<Longrightarrow> vga_keeps path_max t u \<Longrightarrow> vga_keeps path_max s u"
  using vga_within_trans by (auto simp: vga_keeps_def)

lemma vga_keeps_inv: "vga_keeps path_max s t \<Longrightarrow> vga_inv path_max t"
  by (simp add: vga_keeps_def)

text \<open>An edit of the text followed by a redraw.\<close>

lemma edit_rerender:
  assumes "vga_within path_max s t" "text_cursor t \<le> text_len t" "text_len t \<le> path_max"
    "text_path t 0 < VGA_CELLS"
  shows "vga_keeps path_max s (vga_text_rerender io t)"
  using vga_text_rerender_inv [OF assms(2-4)] vga_within_trans [OF assms(1)]
  unfolding vga_keeps_def by blast

lemma vga_view_rerender [simp]: "vga_view (vga_text_rerender io s) = vga_view s"
  by (simp add: vga_view_def)

lemma putc_keeps: "vga_inv path_max s \<Longrightarrow> vga_keeps path_max s (pc_vga_putc io c s)"
  using pc_vga_putc_on_screen by (auto simp: vga_keeps_def vga_inv_def vga_within_def)

lemma puts_keeps: "vga_inv path_max s \<Longrightarrow> vga_keeps path_max s (pc_vga_puts io cs s)"
proof (induction cs arbitrary: s)
  case (Cons c cs)
  note p = putc_keeps [OF Cons.prems, of io c]
  show ?case using vga_keeps_trans [OF p Cons.IH [OF vga_keeps_inv [OF p]]] by simp
qed (simp add: vga_keeps_def)

lemma hex_keeps: "vga_inv path_max s \<Longrightarrow> vga_keeps path_max s (pc_vga_hex_u32 io n s)"
proof -
  have "vga_keeps path_max s (fold (\<lambda>i. pc_vga_putc io (hex_digit n i)) is (t :: 'a vga_state))" if "vga_keeps path_max s t" for "is" t
    using that
  proof (induction "is" arbitrary: t)
    case (Cons i "is")
    have "vga_keeps path_max s (pc_vga_putc io (hex_digit n i) t)"
      by (rule vga_keeps_trans [OF Cons.prems putc_keeps [OF vga_keeps_inv [OF Cons.prems]]])
    then show ?case using Cons.IH by simp
  qed simp
  then show "vga_inv path_max s \<Longrightarrow> ?thesis"
    unfolding pc_vga_hex_u32_def by (blast intro: puts_keeps)
qed

lemma text_begin_keeps:
  assumes "vga_inv path_max s"
  shows "vga_keeps path_max s (pc_vga_text_begin io r c s)"
proof -
  have "r mod 25 \<le> 24" "c mod 80 < 80" by simp_all
  then have "r mod 25 * 80 + c mod 80 < VGA_CELLS" by linarith
  then show ?thesis
    unfolding pc_vga_text_begin_def Let_def
    by (intro edit_rerender) (simp_all add: pc_vga_set_cursor_def vga_cursor_pos_get_def vga_within_def)
qed

lemma text_begin_view: "vga_view (pc_vga_text_begin io r c s) = \<lparr>ed_text = [], ed_cursor = 0, ed_insert = True\<rparr>"
  by (simp add: pc_vga_text_begin_def Let_def vga_view_def cells_def)

lemma text_putc_keeps:
  assumes "vga_inv path_max s"
  shows "vga_keeps path_max s (pc_vga_text_putc path_max io c s)" "vga_view (pc_vga_text_putc path_max io c s) = ed_putc path_max c (vga_view s)"
proof -
  note i = vga_inv_sel [OF assms]
  show "vga_keeps path_max s (pc_vga_text_putc path_max io c s)"
    unfolding pc_vga_text_putc_def using assms i
    by (auto intro!: edit_rerender vga_keeps_refl simp: vga_within_def shift_right_outside)
  show "vga_view (pc_vga_text_putc path_max io c s) = ed_putc path_max c (vga_view s)"
    using i by (simp add: pc_vga_text_putc_def ed_putc_def vga_view_def cells_upd_same cells_insert_upd)
qed

lemma text_backspace_keeps:
  assumes "vga_inv path_max s"
  shows "vga_keeps path_max s (pc_vga_text_backspace io s)" "vga_view (pc_vga_text_backspace io s) = ed_backspace (vga_view s)"
proof -
  note i = vga_inv_sel [OF assms]
  show "vga_keeps path_max s (pc_vga_text_backspace io s)"
    unfolding pc_vga_text_backspace_def using assms i
    by (auto intro!: edit_rerender vga_keeps_refl simp: vga_within_def shift_left_outside)
  show "vga_view (pc_vga_text_backspace io s) = ed_backspace (vga_view s)"
    using i cells_backspace [of "text_cursor s" "text_len s" "text_data s"]
    by (simp add: pc_vga_text_backspace_def ed_backspace_def vga_view_def)
qed

lemma text_delete_keeps:
  assumes "vga_inv path_max s"
  shows "vga_keeps path_max s (pc_vga_text_delete io s)" "vga_view (pc_vga_text_delete io s) = ed_delete (vga_view s)"
proof -
  note i = vga_inv_sel [OF assms]
  show "vga_keeps path_max s (pc_vga_text_delete io s)"
    unfolding pc_vga_text_delete_def using assms i
    by (auto intro!: edit_rerender vga_keeps_refl simp: vga_within_def shift_left_outside)
  show "vga_view (pc_vga_text_delete io s) = ed_delete (vga_view s)"
    using i cells_delete [of "text_cursor s" "text_len s" "text_data s"]
    by (simp add: pc_vga_text_delete_def ed_delete_def vga_view_def)
qed

lemma cursor_move_keeps:
  assumes "vga_inv path_max s" "k \<le> text_len s"
  shows "vga_keeps path_max s (vga_cursor_pos_set io (text_path s k) (s\<lparr>text_cursor := k\<rparr>))"
proof -
  have "text_path s k < VGA_CELLS" using assms by (simp add: vga_inv_def)
  from vga_cursor_pos_set_on_screen [OF this] assms show ?thesis
    by (simp add: vga_keeps_def vga_inv_def vga_within_def)
qed

lemma text_left_keeps:
  assumes "vga_inv path_max s"
  shows "vga_keeps path_max s (pc_vga_text_left io s)" "vga_view (pc_vga_text_left io s) = ed_left (vga_view s)"
proof -
  note i = vga_inv_sel [OF assms]
  show "vga_keeps path_max s (pc_vga_text_left io s)"
    unfolding pc_vga_text_left_def Let_def using assms i cursor_move_keeps [OF assms, of "text_cursor s - 1"]
    by (simp add: vga_keeps_def)
  show "vga_view (pc_vga_text_left io s) = ed_left (vga_view s)"
    by (simp add: pc_vga_text_left_def Let_def ed_left_def vga_view_def)
qed

lemma text_right_keeps:
  assumes "vga_inv path_max s"
  shows "vga_keeps path_max s (pc_vga_text_right io s)" "vga_view (pc_vga_text_right io s) = ed_right (vga_view s)"
proof -
  note i = vga_inv_sel [OF assms]
  show "vga_keeps path_max s (pc_vga_text_right io s)"
    unfolding pc_vga_text_right_def Let_def using assms i cursor_move_keeps [OF assms, of "text_cursor s + 1"]
    by (simp add: vga_keeps_def)
  show "vga_view (pc_vga_text_right io s) = ed_right (vga_view s)"
    by (simp add: pc_vga_text_right_def Let_def ed_right_def vga_view_def)
qed

lemma text_toggle_keeps:
  "vga_inv path_max s \<Longrightarrow> vga_keeps path_max s (pc_vga_text_toggle_insert s)"
  "vga_view (pc_vga_text_toggle_insert s) = ed_toggle (vga_view s)"
  by (simp_all add: pc_vga_text_toggle_insert_def vga_keeps_def vga_inv_def vga_within_def on_screen_def
      ed_toggle_def vga_view_def)

interpretation vga_disp: text_display "pc_vga_display_ops path_max io" vga_view "vga_inv path_max" path_max for path_max and io :: "'d port_io"
  by unfold_locales
    (simp_all add: pc_vga_display_ops_def text_begin_view text_begin_keeps [unfolded vga_keeps_def]
      text_putc_keeps [unfolded vga_keeps_def] text_backspace_keeps [unfolded vga_keeps_def]
      text_left_keeps [unfolded vga_keeps_def] text_right_keeps [unfolded vga_keeps_def]
      text_delete_keeps [unfolded vga_keeps_def] text_toggle_keeps [unfolded vga_keeps_def])

text \<open>Any call into the driver.\<close>

datatype vga_op =
  V_init
| V_set_color u8
| V_set_cursor nat nat
| V_putc_at nat nat u8
| V_putc u8
| V_puts "u8 list"
| V_hex u32
| V_begin nat nat
| V_text_putc u8
| V_backspace
| V_left
| V_right
| V_delete
| V_toggle

fun vga_exec :: "nat \<Rightarrow> 'd port_io \<Rightarrow> vga_op \<Rightarrow> 'd vga_state \<Rightarrow> 'd vga_state" where
  "vga_exec path_max io V_init = pc_vga_init io"
| "vga_exec path_max io (V_set_color c) = pc_vga_set_color c"
| "vga_exec path_max io (V_set_cursor r c) = pc_vga_set_cursor io r c"
| "vga_exec path_max io (V_putc_at r c ch) = pc_vga_putc_at r c ch"
| "vga_exec path_max io (V_putc c) = pc_vga_putc io c"
| "vga_exec path_max io (V_puts cs) = pc_vga_puts io cs"
| "vga_exec path_max io (V_hex n) = pc_vga_hex_u32 io n"
| "vga_exec path_max io (V_begin r c) = pc_vga_text_begin io r c"
| "vga_exec path_max io (V_text_putc c) = pc_vga_text_putc path_max io c"
| "vga_exec path_max io V_backspace = pc_vga_text_backspace io"
| "vga_exec path_max io V_left = pc_vga_text_left io"
| "vga_exec path_max io V_right = pc_vga_text_right io"
| "vga_exec path_max io V_delete = pc_vga_text_delete io"
| "vga_exec path_max io V_toggle = pc_vga_text_toggle_insert"

lemma init_keeps: "vga_keeps path_max s (pc_vga_init io s)"
proof -
  have "fold (\<lambda>i m. m(i := v)) [0..<n] mem = (\<lambda>j. if j < n then v else mem j)" for v n and mem :: "nat \<Rightarrow> u16"
    by (induction n) (auto simp: fun_eq_iff)
  then show ?thesis
    by (simp add: pc_vga_init_def vga_hw_cursor_enable_def Let_def vga_keeps_def vga_inv_def on_screen_def
        vga_within_def case_prod_beta)
qed

lemma putc_at_keeps: "vga_inv path_max s \<Longrightarrow> vga_keeps path_max s (pc_vga_putc_at r c ch s)"
proof -
  have "r mod 25 \<le> 24" "c mod 80 < 80" by simp_all
  then have "r mod 25 * 80 + c mod 80 < VGA_CELLS" by linarith
  then show "vga_inv path_max s \<Longrightarrow> ?thesis"
    by (auto simp: pc_vga_putc_at_def Let_def vga_keeps_def vga_inv_def on_screen_def vga_within_def)
qed

lemma cursor_color_keeps:
  "vga_inv path_max s \<Longrightarrow> vga_keeps path_max s (pc_vga_set_cursor io r c s)" "vga_inv path_max s \<Longrightarrow> vga_keeps path_max s (pc_vga_set_color col s)"
  by (simp_all add: pc_vga_set_cursor_def pc_vga_set_color_def vga_keeps_def vga_inv_def on_screen_def vga_within_def)

lemma vga_exec_keeps: "vga_inv path_max s \<Longrightarrow> vga_keeps path_max s (vga_exec path_max io opn s)"
  by (cases opn) (simp_all add: init_keeps cursor_color_keeps putc_at_keeps putc_keeps puts_keeps hex_keeps
      text_begin_keeps text_putc_keeps text_backspace_keeps text_left_keeps text_right_keeps text_delete_keeps
      text_toggle_keeps)

text \<open>
  C21: whatever sequence of calls the console makes after the driver's initialisation, the cursor
  stays on the 80 by 25 screen, the edited text fits its buffer with the cursor inside it, and no
  write ever leaves the 2000 cells of video memory, the bytes of text or the path entries, of which
  there is one more than bytes. This holds for every length of the text buffer.
\<close>

theorem vga_memory_safe:
  "vga_inv path_max (fold (vga_exec path_max io) ops (pc_vga_init io s)) \<and>
   vga_within path_max s (fold (vga_exec path_max io) ops (pc_vga_init io s))"
proof -
  have "vga_keeps path_max s (fold (vga_exec path_max io) ops t)" if "vga_keeps path_max s t" for t
    using that
  proof (induction ops arbitrary: t)
    case (Cons opn ops)
    have "vga_keeps path_max s (vga_exec path_max io opn t)"
      by (rule vga_keeps_trans [OF Cons.prems vga_exec_keeps [OF vga_keeps_inv [OF Cons.prems]]])
    then show ?case using Cons.IH by simp
  qed simp
  from this [OF init_keeps] show ?thesis by (simp add: vga_keeps_def)
qed

text \<open>A fresh screen with two characters typed at the third cell, for the example.\<close>

definition vga_example :: "unit vga_state" where
  "vga_example = \<lparr>vga_mem = (\<lambda>_. 0), vga_row = 0, vga_col = 2, vga_color = 7,
     text_data = (\<lambda>_. 0)(0 := 65, 1 := 66), text_path = (\<lambda>i. 2 + i), text_len = 2, text_cursor = 1,
     text_insert_mode = True, vga_dev = ()\<rparr>"

definition unit_io :: "unit port_io" where
  "unit_io = \<lparr>port_inb = (\<lambda>_ d. (0, d)), port_outb = (\<lambda>_ _ d. d)\<rparr>"

theorem vga_text_shows_line_witness:
  "vga_mem (vga_text_rerender unit_io vga_example) 2 = 0x741 \<and> vga_mem (vga_text_rerender unit_io vga_example) 3 = 0x742 \<and>
   vga_mem (vga_text_rerender unit_io vga_example) 4 = 0x720 \<and>
   vga_cursor_pos_get (vga_text_rerender unit_io vga_example) = 3"
proof -
  have "vga_inv 512 vga_example" "text_path vga_example 0 + text_len vga_example < VGA_CELLS"
    "\<forall>i < text_len vga_example. text_data vga_example i \<noteq> 10"
    by (simp_all add: vga_inv_def vga_example_def on_screen_def)
  from vga_text_shows_line [OF this, of unit_io] show ?thesis
    by (simp add: vga_example_def vga_cell_def)
qed

end
