(* ===== verification/Tty_Line.thy ===== *)
theory Tty_Line
  imports Display_Core
begin

text \<open>
  The console's line editor, \<open>src/src/kernel/core/tty/tty_core.c\<close>: the insert and delete loops on the
  caller's buffer and \<open>tty_core_readline_ex\<close>, which edits a line key by key until Enter or Ctrl-C.
  The keys are an explicit sequence, what \<open>input_take_key\<close> returns on successive rounds
  (\<open>KEY_NONE\<close> for a round without a key); a sequence that ends before the line does leaves the
  reader waiting. Raising \<open>HW_RESET\<close> does not return. The caller's hooks (history and completion)
  are parameters. The buffer is a function of the index, so that a write outside the caller's
  \<open>cap\<close> bytes is visible; \<open>len\<close> and \<open>cursor\<close> are natural numbers, kept below \<open>cap\<close> by the invariant.
\<close>

subsection \<open>The buffer operations\<close>

record tty_line =
  tbuf :: "nat \<Rightarrow> u8"
  tlen :: nat
  tcursor :: nat

definition tty_insert_char :: "nat \<Rightarrow> bool \<Rightarrow> u8 \<Rightarrow> tty_line \<Rightarrow> bool \<times> tty_line" where
  "tty_insert_char cap insert_mode c l =
     (if cap = 0 \<or> cap - 1 \<le> tlen l then (False, l)
      else if \<not> insert_mode \<and> tcursor l < tlen l
      then (True, l\<lparr>tbuf := (tbuf l)(tcursor l := c), tcursor := tcursor l + 1\<rparr>)
      else (True, l\<lparr>tbuf := (shift_right (tbuf l) (tlen l) (tcursor l))(tcursor l := c),
                    tlen := tlen l + 1, tcursor := tcursor l + 1\<rparr>))"

definition tty_delete_left :: "tty_line \<Rightarrow> tty_line" where
  "tty_delete_left l =
     (if tcursor l = 0 then l
      else l\<lparr>tbuf := shift_left (tbuf l) (tcursor l) (tlen l),
             tcursor := tcursor l - 1, tlen := tlen l - 1\<rparr>)"

definition tty_delete_at_cursor :: "tty_line \<Rightarrow> tty_line" where
  "tty_delete_at_cursor l =
     (if tlen l \<le> tcursor l then l
      else l\<lparr>tbuf := shift_left (tbuf l) (tcursor l + 1) (tlen l), tlen := tlen l - 1\<rparr>)"

definition tty_redraw_line :: "'d display \<Rightarrow> tty_line \<Rightarrow> nat \<times> nat \<Rightarrow> 'd \<Rightarrow> 'd" where
  "tty_redraw_line D l rc d =
     (display_text_left D ^^ (tlen l - tcursor l))
       (fold (display_text_putc D) (cells (tbuf l) (tlen l))
         (display_text_begin D (fst rc) (snd rc) d))"

definition tty_core_putc :: "'d display \<Rightarrow> u8 \<Rightarrow> 'd \<Rightarrow> 'd" where
  "tty_core_putc D c d =
     (if c = 9
      then let spaces = 8 - snd (display_get_cursor D d) mod 8
           in (display_putc D 32 ^^ (if spaces = 0 then 8 else spaces)) d
      else display_putc D c d)"

subsection \<open>Reading a line\<close>

text \<open>The entry points that only pass on to the display.\<close>

definition tty_core_init :: "'d display \<Rightarrow> 'd \<Rightarrow> 'd" where
  "tty_core_init D = display_init D"

definition tty_core_clear :: "'d display \<Rightarrow> 'd \<Rightarrow> 'd" where
  "tty_core_clear D = display_init D"

definition tty_core_set_color :: "'d display \<Rightarrow> u8 \<Rightarrow> 'd \<Rightarrow> 'd" where
  "tty_core_set_color D c = display_set_color D c"

definition tty_core_puts :: "'d display \<Rightarrow> u8 list \<Rightarrow> 'd \<Rightarrow> 'd" where
  "tty_core_puts D cs = display_puts D cs"

definition tty_core_hex_u32 :: "'d display \<Rightarrow> u32 \<Rightarrow> 'd \<Rightarrow> 'd" where
  "tty_core_hex_u32 D n = display_hex_u32 D n"

definition tty_core_get_cursor :: "'d display \<Rightarrow> 'd \<Rightarrow> nat \<times> nat" where
  "tty_core_get_cursor D d = display_get_cursor D d"

definition tty_core_text_begin :: "'d display \<Rightarrow> nat \<Rightarrow> nat \<Rightarrow> 'd \<Rightarrow> 'd" where
  "tty_core_text_begin D r c = display_text_begin D r c"

definition tty_core_line_redraw :: "'d display \<Rightarrow> tty_line \<Rightarrow> nat \<times> nat \<Rightarrow> 'd \<Rightarrow> 'd" where
  "tty_core_line_redraw D l rc = tty_redraw_line D l rc"

record 'h tty_hooks =
  tab_hook :: "(nat \<Rightarrow> tty_line \<Rightarrow> 'h \<Rightarrow> tty_line \<times> 'h) option"
  history_hook :: "(int \<Rightarrow> nat \<Rightarrow> tty_line \<Rightarrow> 'h \<Rightarrow> int \<times> tty_line \<times> 'h) option"

text \<open>
  The state of the loop: the line, the insert mode, the hooks' own state and the display. A round
  goes on, returns a value to the caller, or resets the machine.
\<close>

record ('h, 'd) readline_state =
  rl_line :: tty_line
  rl_insert :: bool
  rl_hook :: 'h
  rl_disp :: 'd

datatype ('h, 'd) readline_round =
  Go_on "('h, 'd) readline_state"
| Return int "('h, 'd) readline_state"
| Reset

text \<open>The four blanks of a tab without a hook; the first that does not fit ends them.\<close>

primrec tty_tab_spaces :: "nat \<Rightarrow> 'd display \<Rightarrow> nat \<Rightarrow> ('h, 'd) readline_state \<Rightarrow> ('h, 'd) readline_state" where
  "tty_tab_spaces 0 D cap st = st"
| "tty_tab_spaces (Suc n) D cap st =
     (let (ok, l) = tty_insert_char cap (rl_insert st) 32 (rl_line st)
      in if \<not> ok then st
         else tty_tab_spaces n D cap
                (st\<lparr>rl_line := l, rl_disp := display_text_putc D 32 (rl_disp st)\<rparr>))"

definition tty_history :: "'d display \<Rightarrow> 'h tty_hooks option \<Rightarrow> nat \<Rightarrow> nat \<times> nat \<Rightarrow> int \<Rightarrow>
    ('h, 'd) readline_state \<Rightarrow> ('h, 'd) readline_state" where
  "tty_history D hooks cap rc direction st =
     (case Option.bind hooks history_hook of
        None \<Rightarrow> st
      | Some hook \<Rightarrow>
          let (r, l, h) = hook direction cap (rl_line st) (rl_hook st);
              st1 = st\<lparr>rl_line := l, rl_hook := h\<rparr>
          in if r \<noteq> 0 then st1\<lparr>rl_disp := tty_redraw_line D l rc (rl_disp st1)\<rparr> else st1)"

text \<open>One round of the loop with the key it took.\<close>

definition tty_readline_key :: "'d display \<Rightarrow> 'h tty_hooks option \<Rightarrow> nat \<Rightarrow> nat \<times> nat \<Rightarrow> int \<Rightarrow>
    ('h, 'd) readline_state \<Rightarrow> ('h, 'd) readline_round" where
  "tty_readline_key D hooks cap rc key st =
     (let l = rl_line st; d = rl_disp st in
      if key = KEY_NONE then Go_on st
      else if key = KEY_CTRL_ALT_DEL then Reset
      else if key = 0x03
      then Return 0 (st\<lparr>rl_line := l\<lparr>tbuf := (tbuf l)(0 := 0)\<rparr>,
                        rl_disp := display_putc D 10 (display_putc D 67 (display_putc D 94 d))\<rparr>)
      else if key = 10
      then Return (int (tlen l)) (st\<lparr>rl_line := l\<lparr>tbuf := (tbuf l)(tlen l := 0)\<rparr>,
                                     rl_disp := display_putc D 10 d\<rparr>)
      else if key = 8
      then Go_on (if 0 < tcursor l
                  then st\<lparr>rl_line := tty_delete_left l, rl_disp := display_text_backspace D d\<rparr> else st)
      else if key = KEY_LEFT
      then Go_on (if 0 < tcursor l
                  then st\<lparr>rl_line := l\<lparr>tcursor := tcursor l - 1\<rparr>, rl_disp := display_text_left D d\<rparr> else st)
      else if key = KEY_RIGHT
      then Go_on (if tcursor l < tlen l
                  then st\<lparr>rl_line := l\<lparr>tcursor := tcursor l + 1\<rparr>, rl_disp := display_text_right D d\<rparr> else st)
      else if key = KEY_DELETE
      then Go_on (if tcursor l < tlen l
                  then st\<lparr>rl_line := tty_delete_at_cursor l, rl_disp := display_text_delete D d\<rparr> else st)
      else if key = KEY_INSERT
      then Go_on (st\<lparr>rl_insert := \<not> rl_insert st, rl_disp := display_text_toggle_insert D d\<rparr>)
      else if key = KEY_UP then Go_on (tty_history D hooks cap rc (- 1) st)
      else if key = KEY_DOWN then Go_on (tty_history D hooks cap rc 1 st)
      else if key = 9
      then Go_on (case Option.bind hooks tab_hook of
                    Some hook \<Rightarrow> (let (l', h) = hook cap l (rl_hook st)
                                  in st\<lparr>rl_line := l', rl_hook := h, rl_disp := tty_redraw_line D l' rc d\<rparr>)
                  | None \<Rightarrow> tty_tab_spaces 4 D cap st)
      else if 0 < key \<and> key < 128
      then Go_on (let (ok, l') = tty_insert_char cap (rl_insert st) (of_int key) l
                  in if ok then st\<lparr>rl_line := l', rl_disp := display_text_putc D (of_int key) d\<rparr> else st)
      else Go_on st)"

datatype ('h, 'd) readline_result =
  Bad_arguments
| Returned int "('h, 'd) readline_state"
| Was_reset
| Waiting "('h, 'd) readline_state"

fun tty_readline_loop :: "'d display \<Rightarrow> 'h tty_hooks option \<Rightarrow> nat \<Rightarrow> nat \<times> nat \<Rightarrow> int list \<Rightarrow>
    ('h, 'd) readline_state \<Rightarrow> ('h, 'd) readline_result" where
  "tty_readline_loop D hooks cap rc [] st = Waiting st"
| "tty_readline_loop D hooks cap rc (key # keys) st =
     (case tty_readline_key D hooks cap rc key st of
        Go_on st' \<Rightarrow> tty_readline_loop D hooks cap rc keys st'
      | Return r st' \<Rightarrow> Returned r st'
      | Reset \<Rightarrow> Was_reset)"

text \<open>A null buffer is \<open>None\<close>; then, and with no capacity, the call returns 0 and writes nothing.\<close>

definition tty_core_readline_ex :: "'d display \<Rightarrow> 'h tty_hooks option \<Rightarrow> (nat \<Rightarrow> u8) option \<Rightarrow> nat \<Rightarrow>
    int list \<Rightarrow> 'h \<Rightarrow> 'd \<Rightarrow> ('h, 'd) readline_result" where
  "tty_core_readline_ex D hooks buf cap keys h d =
     (case buf of None \<Rightarrow> Bad_arguments
      | Some b \<Rightarrow>
          if cap = 0 then Bad_arguments
          else let rc = display_get_cursor D d
               in tty_readline_loop D hooks cap rc keys
                    \<lparr>rl_line = \<lparr>tbuf = b(0 := 0), tlen = 0, tcursor = 0\<rparr>, rl_insert = True,
                     rl_hook = h, rl_disp = display_text_begin D (fst rc) (snd rc) d\<rparr>)"

definition tty_core_readline :: "'d display \<Rightarrow> (nat \<Rightarrow> u8) option \<Rightarrow> nat \<Rightarrow> int list \<Rightarrow> 'h \<Rightarrow> 'd \<Rightarrow>
    ('h, 'd) readline_result" where
  "tty_core_readline D buf cap keys h d = tty_core_readline_ex D None buf cap keys h d"

subsection \<open>The editor behind the buffer\<close>

definition line_view :: "('h, 'd) readline_state \<Rightarrow> editor" where
  "line_view st = \<lparr>ed_text = cells (tbuf (rl_line st)) (tlen (rl_line st)), ed_cursor = tcursor (rl_line st),
                   ed_insert = rl_insert st\<rparr>"

definition line_ok :: "nat \<Rightarrow> tty_line \<Rightarrow> bool" where
  "line_ok cap l \<longleftrightarrow> tcursor l \<le> tlen l \<and> tlen l < cap"

definition line_within :: "nat \<Rightarrow> tty_line \<Rightarrow> tty_line \<Rightarrow> bool" where
  "line_within cap l l' \<longleftrightarrow> (\<forall>j \<ge> cap. tbuf l' j = tbuf l j)"

text \<open>What a key means for the abstract editor.\<close>

definition ed_key :: "nat \<Rightarrow> int \<Rightarrow> editor \<Rightarrow> editor" where
  "ed_key cap key e =
     (if key = 8 then ed_backspace e
      else if key = KEY_LEFT then ed_left e
      else if key = KEY_RIGHT then ed_right e
      else if key = KEY_DELETE then ed_delete e
      else if key = KEY_INSERT then ed_toggle e
      else if key = 9 then (ed_putc (cap - 1) 32 ^^ 4) e
      else if 0 < key \<and> key < 128 then ed_putc (cap - 1) (of_int key) e
      else e)"

lemma tty_insert_char_view:
  assumes "line_ok cap l" "tty_insert_char cap m c l = (ok, l')"
  shows "line_ok cap l'" "line_within cap l l'" "ok \<longleftrightarrow> tlen l < cap - 1" "\<not> ok \<Longrightarrow> l' = l"
    "\<lparr>ed_text = cells (tbuf l') (tlen l'), ed_cursor = tcursor l', ed_insert = m\<rparr> =
       ed_putc (cap - 1) c \<lparr>ed_text = cells (tbuf l) (tlen l), ed_cursor = tcursor l, ed_insert = m\<rparr>"
  using assms
  by (auto simp: line_ok_def line_within_def tty_insert_char_def ed_putc_def cells_upd_same cells_insert_upd
      shift_right_outside split: if_splits)

lemma tty_delete_left_view:
  assumes "line_ok cap l"
  shows "line_ok cap (tty_delete_left l)" "line_within cap l (tty_delete_left l)"
    "\<lparr>ed_text = cells (tbuf (tty_delete_left l)) (tlen (tty_delete_left l)),
      ed_cursor = tcursor (tty_delete_left l), ed_insert = m\<rparr> =
     ed_backspace \<lparr>ed_text = cells (tbuf l) (tlen l), ed_cursor = tcursor l, ed_insert = m\<rparr>"
  using assms cells_backspace [of "tcursor l" "tlen l" "tbuf l"]
  by (auto simp: line_ok_def line_within_def tty_delete_left_def ed_backspace_def shift_left_outside)

lemma tty_delete_at_cursor_view:
  assumes "line_ok cap l"
  shows "line_ok cap (tty_delete_at_cursor l)" "line_within cap l (tty_delete_at_cursor l)"
    "\<lparr>ed_text = cells (tbuf (tty_delete_at_cursor l)) (tlen (tty_delete_at_cursor l)),
      ed_cursor = tcursor (tty_delete_at_cursor l), ed_insert = m\<rparr> =
     ed_delete \<lparr>ed_text = cells (tbuf l) (tlen l), ed_cursor = tcursor l, ed_insert = m\<rparr>"
  using assms cells_delete [of "tcursor l" "tlen l" "tbuf l"]
  by (auto simp: line_ok_def line_within_def tty_delete_at_cursor_def ed_delete_def shift_left_outside)

lemma tty_tab_spaces_view:
  assumes "line_ok cap (rl_line st)"
  shows "line_ok cap (rl_line (tty_tab_spaces n D cap st)) \<and>
    line_within cap (rl_line st) (rl_line (tty_tab_spaces n D cap st)) \<and>
    line_view (tty_tab_spaces n D cap st) = (ed_putc (cap - 1) 32 ^^ n) (line_view st)"
  using assms
proof (induction n arbitrary: st)
  case 0
  then show ?case by (simp add: line_within_def)
next
  case (Suc n)
  obtain ok l where ins: "tty_insert_char cap (rl_insert st) 32 (rl_line st) = (ok, l)" by fastforce
  note v = tty_insert_char_view [OF Suc.prems ins]
  let ?st = "st\<lparr>rl_line := l, rl_disp := display_text_putc D 32 (rl_disp st)\<rparr>"
  show ?case
  proof (cases ok)
    case True
    have "line_view ?st = ed_putc (cap - 1) 32 (line_view st)" using v(5) by (simp add: line_view_def)
    then show ?thesis
      using Suc.IH [of ?st] v(1,2) True ins by (auto simp: funpow_swap1 line_within_def)
  next
    case False
    then have "ed_putc (cap - 1) 32 (line_view st) = line_view st"
      using v(4,5) by (simp add: line_view_def)
    then have "(ed_putc (cap - 1) 32 ^^ k) (line_view st) = line_view st" for k by (induction k) simp_all
    then show ?thesis using Suc.prems False ins by (simp add: line_within_def del: funpow.simps)
  qed
qed

lemma tty_key_view:
  assumes "line_ok cap (rl_line st)" "tty_readline_key D None cap rc key st = Go_on st'"
  shows "line_view st' = ed_key cap key (line_view st) \<and> line_ok cap (rl_line st') \<and>
    line_within cap (rl_line st) (rl_line st')"
proof -
  let ?l = "rl_line st"
  obtain ok l where ins: "tty_insert_char cap (rl_insert st) (of_int key) ?l = (ok, l)" by fastforce
  note v = tty_insert_char_view [OF assms(1) ins]
  note vl = tty_delete_left_view [OF assms(1)] and va = tty_delete_at_cursor_view [OF assms(1)]
    and vt = tty_tab_spaces_view [OF assms(1), where n = 4 and D = D]
  have lw: "line_within cap ?l ?l" by (simp add: line_within_def)
  consider "key = 8" | "key = KEY_LEFT" | "key = KEY_RIGHT" | "key = KEY_DELETE" | "key = KEY_INSERT" | "key = 9"
    | "key \<notin> {8, KEY_LEFT, KEY_RIGHT, KEY_DELETE, KEY_INSERT, 9, KEY_UP, KEY_DOWN, KEY_NONE, KEY_CTRL_ALT_DEL, 3, 10}"
    | "key \<in> {KEY_UP, KEY_DOWN, KEY_NONE, KEY_CTRL_ALT_DEL, 3, 10}" by auto
  then show ?thesis
  proof cases
    case 1
    then have "st' = (if 0 < tcursor ?l then st\<lparr>rl_line := tty_delete_left ?l,
        rl_disp := display_text_backspace D (rl_disp st)\<rparr> else st)"
      using assms(2) by (simp add: tty_readline_key_def Let_def)
    then show ?thesis using 1 vl(1,2) vl(3) [of "rl_insert st"] assms(1) lw
      by (auto simp: ed_key_def line_view_def ed_backspace_def)
  next
    case 2
    then have "st' = (if 0 < tcursor ?l then st\<lparr>rl_line := ?l\<lparr>tcursor := tcursor ?l - 1\<rparr>,
        rl_disp := display_text_left D (rl_disp st)\<rparr> else st)"
      using assms(2) by (simp add: tty_readline_key_def Let_def)
    then show ?thesis using 2 assms(1)
      by (auto simp: ed_key_def line_view_def ed_left_def line_ok_def line_within_def)
  next
    case 3
    then have "st' = (if tcursor ?l < tlen ?l then st\<lparr>rl_line := ?l\<lparr>tcursor := tcursor ?l + 1\<rparr>,
        rl_disp := display_text_right D (rl_disp st)\<rparr> else st)"
      using assms(2) by (simp add: tty_readline_key_def Let_def)
    then show ?thesis using 3 assms(1)
      by (auto simp: ed_key_def line_view_def ed_right_def line_ok_def line_within_def)
  next
    case 4
    then have "st' = (if tcursor ?l < tlen ?l then st\<lparr>rl_line := tty_delete_at_cursor ?l,
        rl_disp := display_text_delete D (rl_disp st)\<rparr> else st)"
      using assms(2) by (simp add: tty_readline_key_def Let_def)
    then show ?thesis using 4 va(1,2) va(3) [of "rl_insert st"] assms(1) lw
      by (auto simp: ed_key_def line_view_def ed_delete_def)
  next
    case 5
    then have "st' = st\<lparr>rl_insert := \<not> rl_insert st, rl_disp := display_text_toggle_insert D (rl_disp st)\<rparr>"
      using assms(2) by (simp add: tty_readline_key_def Let_def)
    then show ?thesis using 5 assms(1) lw by (simp add: ed_key_def line_view_def ed_toggle_def)
  next
    case 6
    then have "st' = tty_tab_spaces 4 D cap st"
      using assms(2) by (simp add: tty_readline_key_def Let_def del: tty_tab_spaces.simps)
    then show ?thesis using 6 vt by (simp add: ed_key_def del: funpow.simps)
  next
    case 7
    then have "st' = (if 0 < key \<and> key < 128 \<and> ok
        then st\<lparr>rl_line := l, rl_disp := display_text_putc D (of_int key) (rl_disp st)\<rparr> else st)"
      using assms(2) ins by (auto simp: tty_readline_key_def Let_def split: if_splits)
    then show ?thesis using 7 v assms(1) lw by (auto simp: ed_key_def line_view_def)
  next
    case 8
    then have "st' = st" using assms(2) by (auto simp: tty_readline_key_def Let_def tty_history_def)
    moreover have "ed_key cap key (line_view st) = line_view st"
      using 8 assms(2) by (auto simp: ed_key_def tty_readline_key_def Let_def)
    ultimately show ?thesis using assms(1) lw by simp
  qed
qed

text \<open>
  C24: without hooks every key does to the caller's buffer exactly what it means for an abstract
  one-line editor of at most \<open>cap - 1\<close> characters (insert or overwrite, backspace, delete, cursor
  keys, tab as four blanks, everything else ignored), keeps the cursor inside the line and the
  line inside the buffer, and writes no byte outside the caller's \<open>cap\<close> bytes.
\<close>

theorem tty_readline_key_refines:
  assumes "line_ok cap (rl_line st)" "tty_readline_key D None cap rc key st = Go_on st'"
  shows "line_view st' = ed_key cap key (line_view st) \<and> line_ok cap (rl_line st') \<and>
    line_within cap (rl_line st) (rl_line st')"
  using assms by (rule tty_key_view)

text \<open>The line \<open>ab\<close> with the cursor between the letters, for the examples; no display.\<close>

definition line_example :: "(unit, unit) readline_state" where
  "line_example = \<lparr>rl_line = \<lparr>tbuf = (\<lambda>_. 0)(0 := 97, 1 := 98), tlen = 2, tcursor = 1\<rparr>, rl_insert = True,
     rl_hook = (), rl_disp = ()\<rparr>"

definition no_display :: "unit display" where
  "no_display = \<lparr>active_display = None, smod_serial_write = (\<lambda>_ d. d)\<rparr>"

theorem tty_readline_key_refines_witness:
  "\<exists>st. tty_readline_key no_display None 80 (0, 0) 120 line_example = Go_on st \<and>
     ed_text (line_view st) = [97, 120, 98] \<and> ed_cursor (line_view st) = 2"
proof -
  have ok: "line_ok 80 (rl_line line_example)" by (simp add: line_ok_def line_example_def)
  obtain st where st: "tty_readline_key no_display None 80 (0, 0) 120 line_example = Go_on st"
    by (simp add: tty_readline_key_def Let_def tty_insert_char_def line_example_def)
  have "line_view line_example = \<lparr>ed_text = [97, 98], ed_cursor = 1, ed_insert = True\<rparr>"
    by (simp add: line_view_def line_example_def cells_def upt_rec)
  with tty_readline_key_refines [OF ok st] st show ?thesis
    by (simp add: ed_key_def ed_putc_def)
qed

subsection \<open>Whole lines\<close>

text \<open>What the hooks must respect: the line stays within the buffer.\<close>

definition hooks_ok :: "nat \<Rightarrow> 'h tty_hooks option \<Rightarrow> bool" where
  "hooks_ok cap hooks \<longleftrightarrow>
     (\<forall>hook l h. Option.bind hooks tab_hook = Some hook \<and> line_ok cap l \<longrightarrow>
        line_ok cap (fst (hook cap l h)) \<and> line_within cap l (fst (hook cap l h))) \<and>
     (\<forall>hook dir l h. Option.bind hooks history_hook = Some hook \<and> line_ok cap l \<longrightarrow>
        line_ok cap (fst (snd (hook dir cap l h))) \<and> line_within cap l (fst (snd (hook dir cap l h))))"

lemma line_within_trans: "line_within cap l m \<Longrightarrow> line_within cap m n \<Longrightarrow> line_within cap l n"
  by (simp add: line_within_def)

lemma tty_history_line:
  assumes "hooks_ok cap hooks" "line_ok cap (rl_line st)"
  shows "line_ok cap (rl_line (tty_history D hooks cap rc dir st)) \<and>
    line_within cap (rl_line st) (rl_line (tty_history D hooks cap rc dir st))"
proof (cases "Option.bind hooks history_hook")
  case None
  then show ?thesis using assms(2) by (simp add: tty_history_def line_within_def)
next
  case (Some hook)
  then have "line_ok cap (fst (snd (hook dir cap (rl_line st) (rl_hook st)))) \<and>
      line_within cap (rl_line st) (fst (snd (hook dir cap (rl_line st) (rl_hook st))))"
    using assms unfolding hooks_ok_def by blast
  then show ?thesis using Some by (simp add: tty_history_def Let_def case_prod_beta)
qed

lemma tty_key_line:
  assumes "hooks_ok cap hooks" "line_ok cap (rl_line st)"
    and "tty_readline_key D hooks cap rc key st = Go_on st'"
  shows "line_ok cap (rl_line st') \<and> line_within cap (rl_line st) (rl_line st')"
proof -
  consider "key = KEY_UP" | "key = KEY_DOWN"
    | hook where "key = 9" "Option.bind hooks tab_hook = Some hook"
    | "key \<notin> {KEY_UP, KEY_DOWN}" "key = 9 \<longrightarrow> Option.bind hooks tab_hook = None"
    by (cases "Option.bind hooks tab_hook") auto
  then show ?thesis
  proof cases
    case 1
    then have "st' = tty_history D hooks cap rc (- 1) st"
      using assms(3) by (simp add: tty_readline_key_def Let_def)
    then show ?thesis using tty_history_line [OF assms(1,2)] by simp
  next
    case 2
    then have "st' = tty_history D hooks cap rc 1 st"
      using assms(3) by (simp add: tty_readline_key_def Let_def)
    then show ?thesis using tty_history_line [OF assms(1,2)] by simp
  next
    case (3 hook)
    then have "rl_line st' = fst (hook cap (rl_line st) (rl_hook st))"
      using assms(3) by (auto simp: tty_readline_key_def Let_def case_prod_beta)
    moreover have "line_ok cap (fst (hook cap (rl_line st) (rl_hook st))) \<and>
        line_within cap (rl_line st) (fst (hook cap (rl_line st) (rl_hook st)))"
      using assms(1,2) 3(2) unfolding hooks_ok_def by blast
    ultimately show ?thesis by simp
  next
    case 4
    then have "tty_readline_key D None cap rc key st = Go_on st'"
      using assms(3) unfolding tty_readline_key_def Let_def by (auto simp del: tty_tab_spaces.simps split: if_splits)
    then show ?thesis using tty_key_view [OF assms(2)] by blast
  qed
qed

lemma tty_key_return:
  assumes "line_ok cap (rl_line st)" "tty_readline_key D hooks cap rc key st = Return r st'"
  shows "0 \<le> r \<and> nat r < cap \<and> tbuf (rl_line st') (nat r) = 0 \<and> line_within cap (rl_line st) (rl_line st')"
proof -
  have cap: "0 < cap" using assms(1) by (auto simp: line_ok_def)
  consider "key = 3" | "key = 10" | "key \<notin> {3, 10}" by auto
  then show ?thesis
  proof cases
    case 3
    then have False using assms(2) unfolding tty_readline_key_def Let_def by (auto split: if_splits)
    then show ?thesis ..
  qed (use assms cap in \<open>auto simp: tty_readline_key_def Let_def line_ok_def line_within_def\<close>)
qed

lemma tty_loop_return:
  assumes "hooks_ok cap hooks" "line_ok cap (rl_line st)"
    and "tty_readline_loop D hooks cap rc keys st = Returned r st'"
  shows "0 \<le> r \<and> nat r < cap \<and> tbuf (rl_line st') (nat r) = 0 \<and> line_within cap (rl_line st) (rl_line st')"
  using assms(2,3)
proof (induction keys arbitrary: st)
  case (Cons key keys)
  show ?case
  proof (cases "tty_readline_key D hooks cap rc key st")
    case (Go_on st1)
    note t = tty_key_line [OF assms(1) Cons.prems(1) Go_on]
    then show ?thesis using Cons.IH [of st1] Cons.prems(2) Go_on line_within_trans by auto
  next
    case (Return q st1)
    then show ?thesis using tty_key_return [OF Cons.prems(1) Return] Cons.prems(2) by simp
  next
    case Reset
    then show ?thesis using Cons.prems(2) by simp
  qed
qed simp

text \<open>Enter, Ctrl-C and the reset key end the loop.\<close>

lemma tty_loop_ends:
  assumes "\<exists>key \<in> set keys. key \<in> {3, 10, KEY_CTRL_ALT_DEL}"
  shows "tty_readline_loop D hooks cap rc keys st \<noteq> Waiting st'"
  using assms
proof (induction keys arbitrary: st)
  case (Cons key keys)
  show ?case
  proof (cases "tty_readline_key D hooks cap rc key st")
    case (Go_on st1)
    then have "key \<notin> {3, 10, KEY_CTRL_ALT_DEL}" by (auto simp: tty_readline_key_def Let_def)
    then show ?thesis using Cons Go_on by simp
  qed simp_all
qed simp

text \<open>
  C23: a call of \<open>tty_core_readline_ex\<close> with a usable buffer, whose hooks respect the buffer, never
  waits on once Enter, Ctrl-C or the reset key has arrived. What it returns is the length of a
  NUL-terminated string inside the caller's \<open>cap\<close> bytes, and no byte outside them has changed.
\<close>

theorem tty_readline_returns_string:
  assumes "hooks_ok cap hooks" "0 < cap"
  shows "((\<exists>key \<in> set keys. key \<in> {3, 10, KEY_CTRL_ALT_DEL}) \<longrightarrow>
      (\<forall>st. tty_core_readline_ex D hooks (Some b) cap keys h d \<noteq> Waiting st)) \<and>
    (\<forall>r st. tty_core_readline_ex D hooks (Some b) cap keys h d = Returned r st \<longrightarrow>
      0 \<le> r \<and> nat r < cap \<and> tbuf (rl_line st) (nat r) = 0 \<and> (\<forall>j \<ge> cap. tbuf (rl_line st) j = b j))"
proof -
  let ?rc = "display_get_cursor D d"
  let ?st = "\<lparr>rl_line = \<lparr>tbuf = b(0 := 0), tlen = 0, tcursor = 0\<rparr>, rl_insert = True,
     rl_hook = h, rl_disp = display_text_begin D (fst ?rc) (snd ?rc) d\<rparr>"
  have r: "tty_core_readline_ex D hooks (Some b) cap keys h d = tty_readline_loop D hooks cap ?rc keys ?st"
    using assms(2) by (simp add: tty_core_readline_ex_def Let_def)
  have ok: "line_ok cap (rl_line ?st)" using assms(2) by (simp add: line_ok_def)
  show ?thesis
    unfolding r
  proof (intro conjI impI allI)
    fix q st
    assume "tty_readline_loop D hooks cap ?rc keys ?st = Returned q st"
    note t = tty_loop_return [OF assms(1) ok this]
    then show "0 \<le> q" "nat q < cap" "tbuf (rl_line st) (nat q) = 0" by blast+
    show "tbuf (rl_line st) j = b j" if "cap \<le> j" for j
      using t that assms(2) by (simp add: line_within_def)
  qed (rule tty_loop_ends)
qed

text \<open>Hooks whose history recalls the line \<open>x\<close>, for the examples.\<close>

definition hooks_example :: "unit tty_hooks" where
  "hooks_example = \<lparr>tab_hook = None,
     history_hook = Some (\<lambda>direction cap l h. (1, l\<lparr>tbuf := (tbuf l)(0 := 120), tlen := 1, tcursor := 0\<rparr>, h))\<rparr>"

lemma hooks_ok_example: "2 \<le> cap \<Longrightarrow> hooks_ok cap (Some hooks_example)"
  by (simp add: hooks_ok_def hooks_example_def line_ok_def line_within_def)

theorem tty_readline_returns_string_witness:
  "\<exists>r st. tty_core_readline_ex no_display (Some hooks_example) (Some (\<lambda>_. 255)) 4 [104, KEY_UP, 105, 10] () () =
      Returned r st \<and> r = 2 \<and> tbuf (rl_line st) 2 = 0 \<and> tbuf (rl_line st) 4 = 255"
proof -
  have run: "\<exists>st. tty_core_readline_ex no_display (Some hooks_example) (Some (\<lambda>_. 255)) 4
      [104, KEY_UP, 105, 10] () () = Returned 2 st"
    by (simp add: tty_core_readline_ex_def tty_readline_key_def tty_insert_char_def Let_def tty_history_def
        hooks_example_def)
  show ?thesis
    using run tty_readline_returns_string [OF hooks_ok_example, where cap = 4 and D = no_display
        and b = "\<lambda>_. 255" and h = "()" and d = "()" and keys = "[104, KEY_UP, 105, 10]"] by fastforce
qed

lemma tty_key_print:
  assumes "line_ok cap (rl_line st)" "32 \<le> c" "c < 127"
  obtains st' where "tty_readline_key D None cap rc (uint c) st = Go_on st'"
    "line_view st' = ed_putc (cap - 1) c (line_view st)" "line_ok cap (rl_line st')"
proof -
  have b: "32 \<le> uint c" "uint c < 127" using assms(2,3) by (simp_all add: word_le_def word_less_def)
  then obtain st' where st': "tty_readline_key D None cap rc (uint c) st = Go_on st'"
    by (auto simp: tty_readline_key_def Let_def)
  from tty_key_view [OF assms(1) st'] b show thesis
    by (intro that [OF st']) (simp_all add: ed_key_def)
qed

lemma tty_loop_print:
  assumes "line_ok cap (rl_line st)" "\<forall>c \<in> set cs. 32 \<le> c \<and> c < 127"
  shows "\<exists>st'. tty_readline_loop D None cap rc (map uint cs @ keys) st = tty_readline_loop D None cap rc keys st' \<and>
    line_view st' = fold (ed_putc (cap - 1)) cs (line_view st) \<and> line_ok cap (rl_line st')"
  using assms
proof (induction cs arbitrary: st)
  case (Cons c cs)
  from Cons.prems obtain st1 where "tty_readline_key D None cap rc (uint c) st = Go_on st1"
    "line_view st1 = ed_putc (cap - 1) c (line_view st)" "line_ok cap (rl_line st1)"
    using tty_key_print [of cap st c] by (metis list.set_intros(1))
  then show ?case using Cons.IH [of st1] Cons.prems(2) by auto
qed auto

text \<open>
  C25: typing any printable text followed by Enter returns that text: the call ends, its value is the
  length typed (cut off at \<open>cap - 1\<close>), and the buffer holds exactly those characters.
\<close>

theorem tty_readline_typed:
  assumes "0 < cap" "\<forall>c \<in> set cs. 32 \<le> c \<and> c < 127"
  shows "\<exists>st. tty_core_readline_ex D None (Some b) cap (map uint cs @ [10]) h d =
      Returned (int (min (cap - 1) (length cs))) st \<and>
    cells (tbuf (rl_line st)) (min (cap - 1) (length cs)) = take (cap - 1) cs"
proof -
  let ?rc = "display_get_cursor D d"
  let ?st = "\<lparr>rl_line = \<lparr>tbuf = b(0 := 0), tlen = 0, tcursor = 0\<rparr>, rl_insert = True,
     rl_hook = h, rl_disp = display_text_begin D (fst ?rc) (snd ?rc) d\<rparr>"
  have r: "tty_core_readline_ex D None (Some b) cap keys h d = tty_readline_loop D None cap ?rc keys ?st" for keys
    using assms(1) by (simp add: tty_core_readline_ex_def Let_def)
  have ok: "line_ok cap (rl_line ?st)" using assms(1) by (simp add: line_ok_def)
  obtain st where st: "tty_readline_loop D None cap ?rc (map uint cs @ [10]) ?st = tty_readline_loop D None cap ?rc [10] st"
    "line_view st = fold (ed_putc (cap - 1)) cs (line_view ?st)"
    using tty_loop_print [OF ok assms(2)] by blast
  have "line_view st = \<lparr>ed_text = take (cap - 1) cs, ed_cursor = min (cap - 1) (length cs), ed_insert = True\<rparr>"
    unfolding st(2) using ed_fold_putc_full [of "line_view ?st" "[]" "cap - 1" cs] by (simp add: line_view_def cells_def)
  then have txt_eq: "cells (tbuf (rl_line st)) (tlen (rl_line st)) = take (cap - 1) cs"
    by (simp add: line_view_def)
  then have len: "tlen (rl_line st) = min (cap - 1) (length cs)"
    by (metis length_cells length_take min.commute)
  have "cells ((tbuf (rl_line st))(n := 0)) n = cells (tbuf (rl_line st)) n" for n
    by (simp add: cells_def)
  then show ?thesis
    using txt_eq unfolding r st(1) len [symmetric] by (simp add: tty_readline_key_def Let_def)
qed

theorem tty_readline_typed_witness:
  "\<exists>st. tty_core_readline_ex no_display None (Some (\<lambda>_. 0)) 4 (map uint [104, 101, 108, 108, 111 :: u8] @ [10]) () () =
     Returned 3 st \<and> cells (tbuf (rl_line st)) 3 = [104, 101, 108]"
  using tty_readline_typed [of 4 "[104, 101, 108, 108, 111]" no_display "\<lambda>_. 0" "()" "()"]
  by (simp add: numeral_3_eq_3)

subsection \<open>The screen follows the buffer\<close>

text \<open>The line editor on a display that keeps the contract of \<open>text_display\<close>.\<close>

locale tty_console = text_display ops view ok limit
  for ops :: "'d display_ops" and view and ok and limit
begin

text \<open>The display shows the text of the input buffer, with its cursor and its mode.\<close>

definition mirrored :: "('h, 'd) readline_state \<Rightarrow> bool" where
  "mirrored st \<longleftrightarrow> ok (rl_disp st) \<and> view (rl_disp st) = line_view st"

lemma mirror_put:
  assumes "mirrored st" "line_ok cap (rl_line st)" "cap - 1 \<le> limit" "active_display D = Some ops"
    and "tty_insert_char cap (rl_insert st) c (rl_line st) = (True, l)"
  shows "mirrored (st\<lparr>rl_line := l, rl_disp := display_text_putc D c (rl_disp st)\<rparr>)"
proof -
  note v = tty_insert_char_view [OF assms(2,5)]
  have "length (ed_text (line_view st)) < cap - 1" using v(3) by (simp add: line_view_def)
  then have "ed_putc limit c (line_view st) = ed_putc (cap - 1) c (line_view st)"
    using assms(3) by (intro ed_putc_limit) auto
  then show ?thesis
    using assms(1,4) v(5) text_putc_view [of "rl_disp st" c]
    by (simp add: mirrored_def display_defs) (simp add: line_view_def)
qed

lemma mirror_tab:
  assumes "mirrored st" "line_ok cap (rl_line st)" "cap - 1 \<le> limit" "active_display D = Some ops"
  shows "mirrored (tty_tab_spaces n D cap st)"
  using assms(1,2)
proof (induction n arbitrary: st)
  case (Suc n)
  obtain b l where ins: "tty_insert_char cap (rl_insert st) 32 (rl_line st) = (b, l)" by fastforce
  show ?case
  proof (cases b)
    case True
    then show ?thesis
      using Suc.IH mirror_put [OF Suc.prems assms(3,4)] ins tty_insert_char_view(1) [OF Suc.prems(2) ins] by simp
  qed (use ins Suc.prems in simp)
qed simp

lemma mirror_key:
  assumes "mirrored st" "line_ok cap (rl_line st)" "cap - 1 \<le> limit" "active_display D = Some ops"
    and "tty_readline_key D None cap rc key st = Go_on st'"
  shows "mirrored st'"
proof -
  let ?l = "rl_line st"
  have d: "ok (rl_disp st)" "view (rl_disp st) = line_view st" using assms(1) by (simp_all add: mirrored_def)
  have lv: "line_view st' = ed_key cap key (line_view st)" using tty_key_view [OF assms(2,5)] by blast
  have by_view: "mirrored st'" if "ok (rl_disp st')" "view (rl_disp st') = ed_key cap key (line_view st)"
    using that lv by (simp add: mirrored_def)
  consider "key = 9" | "key \<in> {8, KEY_LEFT, KEY_RIGHT, KEY_DELETE, KEY_INSERT}"
    | "key \<notin> {8, KEY_LEFT, KEY_RIGHT, KEY_DELETE, KEY_INSERT, 9, KEY_UP, KEY_DOWN, KEY_NONE, KEY_CTRL_ALT_DEL, 3, 10}"
    | "key \<in> {KEY_UP, KEY_DOWN, KEY_NONE, KEY_CTRL_ALT_DEL, 3, 10}" by auto
  then show ?thesis
  proof cases
    case 1
    then have "st' = tty_tab_spaces 4 D cap st"
      using assms(5) by (simp add: tty_readline_key_def Let_def del: tty_tab_spaces.simps)
    then show ?thesis using mirror_tab [OF assms(1-4)] by simp
  next
    case 2
    have id: "tcursor ?l = 0 \<Longrightarrow> ed_backspace (line_view st) = line_view st"
      "tcursor ?l = 0 \<Longrightarrow> ed_left (line_view st) = line_view st"
      "\<not> tcursor ?l < tlen ?l \<Longrightarrow> ed_right (line_view st) = line_view st"
      "\<not> tcursor ?l < tlen ?l \<Longrightarrow> ed_delete (line_view st) = line_view st"
      by (simp_all add: ed_defs line_view_def)
    have "ok (rl_disp st') \<and> view (rl_disp st') = ed_key cap key (line_view st)"
      using 2 assms(4,5) d id text_backspace_view text_left_view text_right_view text_delete_view text_toggle_view
      by (auto simp: tty_readline_key_def Let_def ed_key_def display_defs split: if_splits)
    then show ?thesis using by_view by blast
  next
    case 3
    obtain b l where ins: "tty_insert_char cap (rl_insert st) (of_int key) ?l = (b, l)" by fastforce
    then have "st' = (if 0 < key \<and> key < 128 \<and> b
        then st\<lparr>rl_line := l, rl_disp := display_text_putc D (of_int key) (rl_disp st)\<rparr> else st)"
      using 3 assms(5) by (auto simp: tty_readline_key_def Let_def split: if_splits)
    then show ?thesis using mirror_put [OF assms(1-4)] ins assms(1) by auto
  next
    case 4
    then have "st' = st" using assms(5) by (auto simp: tty_readline_key_def Let_def tty_history_def)
    then show ?thesis using assms(1) by simp
  qed
qed

lemma mirror_loop:
  assumes "mirrored st" "line_ok cap (rl_line st)" "cap - 1 \<le> limit" "active_display D = Some ops"
    and "tty_readline_loop D None cap rc keys st = Waiting st'"
  shows "mirrored st' \<and> line_ok cap (rl_line st')"
  using assms(1,2,5)
proof (induction keys arbitrary: st)
  case (Cons key keys)
  then obtain st1 where k: "tty_readline_key D None cap rc key st = Go_on st1"
    "tty_readline_loop D None cap rc keys st1 = Waiting st'"
    by (auto split: readline_round.splits)
  then show ?case
    using Cons.IH [OF mirror_key [OF Cons.prems(1,2) assms(3,4) k(1)]] tty_key_view [OF Cons.prems(2) k(1)] by blast
qed simp

end

end
