(* ===== verification/Shell_History.thy ===== *)
theory Shell_History
  imports Tty_Line
begin

text \<open>
  The command history of the kernel shell, \<open>src/src/kernel/core/shell/shell_core.c\<close>: the ring of the last
  lines, and the hook that the line editor calls for the keys Up and Down. A C string is the array of
  bytes it is stored in, up to its first NUL. All the strings here live in arrays of
  \<open>SHELL_LINE_CAP\<close> bytes; \<open>shell_strlen\<close> stops at the end of the array, and the invariant shows that
  the strings of the ring end before it. Positions in the ring are natural numbers below 16.
\<close>

subsection \<open>Strings\<close>

abbreviation "SHELL_LINE_CAP \<equiv> 256 :: nat"
abbreviation "SHELL_HISTORY_CAP \<equiv> 16 :: nat"

definition first_nul :: "nat \<Rightarrow> (nat \<Rightarrow> u8) \<Rightarrow> nat" where
  "first_nul cap s = (case List.find (\<lambda>i. s i = 0) [0..<cap] of None \<Rightarrow> cap | Some i \<Rightarrow> i)"

definition shell_strlen :: "(nat \<Rightarrow> u8) \<Rightarrow> nat" where
  "shell_strlen s = first_nul SHELL_LINE_CAP s"

definition shell_string :: "(nat \<Rightarrow> u8) \<Rightarrow> u8 list" where
  "shell_string s = map s [0..<shell_strlen s]"

fun shell_streq :: "u8 list \<Rightarrow> u8 list \<Rightarrow> bool" where
  "shell_streq (a # as) (b # bs) = (if a \<noteq> b then False else shell_streq as bs)"
| "shell_streq as bs = (as = [] \<and> bs = [])"

definition shell_memcpy :: "(nat \<Rightarrow> u8) \<Rightarrow> (nat \<Rightarrow> u8) \<Rightarrow> nat \<Rightarrow> nat \<Rightarrow> u8" where
  "shell_memcpy dst src len = fold (\<lambda>i d. d(i := src i)) [0..<len] dst"

text \<open>The loop of \<open>shell_copy_string\<close> from index \<open>i\<close> on.\<close>

function copy_string_from :: "nat \<Rightarrow> (nat \<Rightarrow> u8) \<Rightarrow> nat \<Rightarrow> (nat \<Rightarrow> u8) \<Rightarrow> nat \<Rightarrow> u8" where
  "copy_string_from cap src i dst =
     (if src i \<noteq> 0 \<and> i + 1 < cap then copy_string_from cap src (i + 1) (dst(i := src i)) else dst(i := 0))"
  by pat_completeness auto
termination
  by (relation "measure (\<lambda>(cap, src, i, dst). cap - i)") auto

declare copy_string_from.simps [simp del]

definition shell_copy_string :: "(nat \<Rightarrow> u8) \<Rightarrow> nat \<Rightarrow> (nat \<Rightarrow> u8) \<Rightarrow> nat \<Rightarrow> u8" where
  "shell_copy_string dst cap src = (if cap = 0 then dst else copy_string_from cap src 0 dst)"

subsection \<open>The ring of lines\<close>

record shell_history =
  g_shell_history :: "nat \<Rightarrow> nat \<Rightarrow> u8"
  g_shell_history_count :: nat
  g_shell_history_head :: nat
  g_shell_history_nav :: int
  g_shell_history_draft :: "nat \<Rightarrow> u8"

definition shell_history_reset_line_state :: "shell_history \<Rightarrow> shell_history" where
  "shell_history_reset_line_state h =
     h\<lparr>g_shell_history_nav := - 1, g_shell_history_draft := (g_shell_history_draft h)(0 := 0)\<rparr>"

definition shell_history_slot :: "nat \<Rightarrow> shell_history \<Rightarrow> nat" where
  "shell_history_slot reverse_index h =
     (g_shell_history_head h + SHELL_HISTORY_CAP - 1 - reverse_index) mod SHELL_HISTORY_CAP"

definition shell_history_push :: "(nat \<Rightarrow> u8) \<Rightarrow> shell_history \<Rightarrow> shell_history" where
  "shell_history_push line h =
     (if line 0 = 0 then h
      else if 0 < g_shell_history_count h \<and>
              shell_streq (shell_string (g_shell_history h (shell_history_slot 0 h))) (shell_string line) then h
      else let len = shell_strlen line;
               len1 = (if SHELL_LINE_CAP \<le> len then SHELL_LINE_CAP - 1 else len);
               slot = g_shell_history_head h
           in h\<lparr>g_shell_history := (g_shell_history h)(slot := (shell_memcpy (g_shell_history h slot) line len1)(len1 := 0)),
                g_shell_history_head := (slot + 1) mod SHELL_HISTORY_CAP,
                g_shell_history_count :=
                  (if g_shell_history_count h < SHELL_HISTORY_CAP then g_shell_history_count h + 1 else g_shell_history_count h)\<rparr>)"

definition shell_replace_line :: "nat \<Rightarrow> (nat \<Rightarrow> u8) \<Rightarrow> tty_line \<Rightarrow> tty_line" where
  "shell_replace_line cap str l =
     (let len = shell_strlen str;
          new_len = (if cap \<le> len then cap - 1 else len)
      in l\<lparr>tbuf := (shell_memcpy (tbuf l) str new_len)(new_len := 0), tlen := new_len, tcursor := new_len\<rparr>)"

text \<open>The hook returns whether it replaced the line; 0 leaves the line as it is.\<close>

definition shell_history_hook :: "int \<Rightarrow> nat \<Rightarrow> tty_line \<Rightarrow> shell_history \<Rightarrow> int \<times> tty_line \<times> shell_history" where
  "shell_history_hook direction cap l h =
     (let recall = (\<lambda>h. (1, shell_replace_line cap (g_shell_history h (shell_history_slot (nat (g_shell_history_nav h)) h)) l, h)) in
      if g_shell_history_count h = 0 then (0, l, h)
      else if direction < 0
      then if g_shell_history_nav h < 0
           then recall (h\<lparr>g_shell_history_draft := shell_copy_string (g_shell_history_draft h) SHELL_LINE_CAP (tbuf l),
                          g_shell_history_nav := 0\<rparr>)
           else let next_nav = nat (g_shell_history_nav h + 1)
                in if g_shell_history_count h \<le> next_nav then (0, l, h)
                   else recall (h\<lparr>g_shell_history_nav := int next_nav\<rparr>)
      else if g_shell_history_nav h < 0 then (0, l, h)
      else if g_shell_history_nav h = 0
      then (1, shell_replace_line cap (g_shell_history_draft h) l, h\<lparr>g_shell_history_nav := - 1\<rparr>)
      else recall (h\<lparr>g_shell_history_nav := g_shell_history_nav h - 1\<rparr>))"

subsection \<open>What the loops do\<close>

lemma first_nul_eqI:
  assumes "n < cap" "s n = 0" "\<And>i. i < n \<Longrightarrow> s i \<noteq> 0"
  shows "first_nul cap s = n"
proof -
  have "List.find (\<lambda>i. s i = 0) [0..<cap] = Some n"
    using assms by (auto simp: find_Some_iff intro!: exI [of _ n])
  then show ?thesis by (simp add: first_nul_def)
qed

lemma first_nul:
  "first_nul cap s \<le> cap" "i < first_nul cap s \<Longrightarrow> s i \<noteq> 0" "first_nul cap s < cap \<Longrightarrow> s (first_nul cap s) = 0"
proof -
  have "first_nul cap s \<le> cap \<and> (\<forall>i < first_nul cap s. s i \<noteq> 0) \<and> (first_nul cap s < cap \<longrightarrow> s (first_nul cap s) = 0)"
  proof (cases "List.find (\<lambda>i. s i = 0) [0..<cap]")
    case None
    then have "first_nul cap s = cap" "\<forall>i < cap. s i \<noteq> 0" by (simp_all add: first_nul_def) (simp add: find_None_iff)
    then show ?thesis by simp
  next
    case (Some n)
    then have "first_nul cap s = n" "n < cap \<and> s n = 0 \<and> (\<forall>i < n. s i \<noteq> 0)"
      by (simp_all add: first_nul_def) (auto simp: find_Some_iff)
    then show ?thesis by simp
  qed
  then show "first_nul cap s \<le> cap" "i < first_nul cap s \<Longrightarrow> s i \<noteq> 0" "first_nul cap s < cap \<Longrightarrow> s (first_nul cap s) = 0"
    by blast+
qed

lemmas shell_strlen_eqI = first_nul_eqI [where cap = SHELL_LINE_CAP, folded shell_strlen_def]

lemmas shell_strlen_le = first_nul(1) [where cap = SHELL_LINE_CAP, folded shell_strlen_def]
  and shell_strlen_before = first_nul(2) [where cap = SHELL_LINE_CAP, folded shell_strlen_def]
  and shell_strlen_end = first_nul(3) [where cap = SHELL_LINE_CAP, folded shell_strlen_def]

lemma shell_string_length [simp]: "length (shell_string s) = shell_strlen s"
  by (simp add: shell_string_def)

lemma shell_streq_iff [simp]: "shell_streq as bs \<longleftrightarrow> as = bs"
  by (induction as bs rule: shell_streq.induct) auto

lemma shell_memcpy_eq: "shell_memcpy dst src n = (\<lambda>i. if i < n then src i else dst i)"
  unfolding shell_memcpy_def by (induction n) (auto simp: fun_eq_iff)

lemma shell_memcpy_string:
  assumes "n \<le> shell_strlen src" "n < SHELL_LINE_CAP"
  shows "shell_strlen ((shell_memcpy dst src n)(n := 0)) = n"
    "shell_string ((shell_memcpy dst src n)(n := 0)) = take n (shell_string src)"
proof -
  show l: "shell_strlen ((shell_memcpy dst src n)(n := 0)) = n"
    using assms shell_strlen_before [of _ src] by (intro shell_strlen_eqI) (auto simp: shell_memcpy_eq)
  show "shell_string ((shell_memcpy dst src n)(n := 0)) = take n (shell_string src)"
    unfolding shell_string_def l using assms by (auto simp: shell_memcpy_eq take_map)
qed

lemma shell_replace_line_line:
  assumes "0 < cap" "cap \<le> SHELL_LINE_CAP"
  shows "cells (tbuf (shell_replace_line cap str l)) (tlen (shell_replace_line cap str l)) = take (cap - 1) (shell_string str)"
    "tlen (shell_replace_line cap str l) = min (cap - 1) (shell_strlen str)"
    "tcursor (shell_replace_line cap str l) = tlen (shell_replace_line cap str l)"
    "line_ok cap (shell_replace_line cap str l)" "line_within cap l (shell_replace_line cap str l)"
  using assms by (auto simp: shell_replace_line_def Let_def shell_memcpy_eq cells_def shell_string_def take_map line_ok_def line_within_def)

subsection \<open>The lines of the ring, the newest first\<close>

definition history_lines :: "shell_history \<Rightarrow> u8 list list" where
  "history_lines h = map (\<lambda>r. shell_string (g_shell_history h (shell_history_slot r h))) [0..<g_shell_history_count h]"

definition history_ok :: "shell_history \<Rightarrow> bool" where
  "history_ok h \<longleftrightarrow> g_shell_history_head h < SHELL_HISTORY_CAP \<and> g_shell_history_count h \<le> SHELL_HISTORY_CAP \<and>
     (\<forall>t \<in> set (history_lines h). t \<noteq> [] \<and> length t < SHELL_LINE_CAP) \<and>
     - 1 \<le> g_shell_history_nav h \<and> g_shell_history_nav h < int (g_shell_history_count h)"

lemma history_lines_length [simp]: "length (history_lines h) = g_shell_history_count h"
  by (simp add: history_lines_def)

lemma history_lines_nth:
  "r < g_shell_history_count h \<Longrightarrow> history_lines h ! r = shell_string (g_shell_history h (shell_history_slot r h))"
  by (simp add: history_lines_def)

lemma history_lines_frame [simp]:
  "history_lines (h\<lparr>g_shell_history_nav := n\<rparr>) = history_lines h"
  "history_lines (h\<lparr>g_shell_history_draft := d\<rparr>) = history_lines h"
  by (simp_all add: history_lines_def shell_history_slot_def)

lemma slot_after_push:
  assumes "n < 16" "g_shell_history_head h = n" "g_shell_history_head h' = (n + 1) mod 16"
  shows "shell_history_slot 0 h' = n" "r < 15 \<Longrightarrow> shell_history_slot (Suc r) h' = shell_history_slot r h"
    "r < 15 \<Longrightarrow> shell_history_slot r h \<noteq> n"
proof -
  have s: "shell_history_slot r h = (if r < n then n - 1 - r else n + 15 - r)" if "r < 15" for r
    using assms(1) that by (auto simp: shell_history_slot_def assms(2) mod_if)
  then show "r < 15 \<Longrightarrow> shell_history_slot r h \<noteq> n" using assms(1) by auto
  show "shell_history_slot 0 h' = n" "r < 15 \<Longrightarrow> shell_history_slot (Suc r) h' = shell_history_slot r h"
    using assms(1) s [of r] by (cases "n = 15"; simp add: shell_history_slot_def assms(2,3))+
qed

text \<open>
  Pushing a line puts it in front, without the characters that do not fit, and drops what is older
  than sixteen lines; an empty line and a repetition of the last one are not kept.
\<close>

lemma shell_history_push_lines:
  assumes "history_ok h"
  shows "history_lines (shell_history_push line h) =
    (if line 0 = 0 \<or> history_lines h \<noteq> [] \<and> hd (history_lines h) = shell_string line then history_lines h
     else take SHELL_HISTORY_CAP (take (SHELL_LINE_CAP - 1) (shell_string line) # history_lines h))"
proof -
  let ?c = "g_shell_history_count h" and ?hd = "g_shell_history_head h"
  have ok: "?hd < 16" "?c \<le> 16" using assms by (simp_all add: history_ok_def)
  have ne: "history_lines h \<noteq> [] \<longleftrightarrow> 0 < ?c" by (metis history_lines_length length_greater_0_conv)
  have hd: "hd (history_lines h) = shell_string (g_shell_history h (shell_history_slot 0 h))" if "0 < ?c"
    using that ne by (simp add: hd_conv_nth history_lines_nth)
  show ?thesis
  proof (cases "line 0 = 0 \<or> 0 < ?c \<and> hd (history_lines h) = shell_string line")
    case True
    then have "shell_history_push line h = h" using hd by (auto simp: shell_history_push_def)
    then show ?thesis using True ne by auto
  next
    case False
    define n where "n = min 255 (shell_strlen line)"
    define h' where "h' = shell_history_push line h"
    have "(if SHELL_LINE_CAP \<le> shell_strlen line then SHELL_LINE_CAP - 1 else shell_strlen line) = n" by (simp add: n_def min_def)
    then have h': "g_shell_history h' = (g_shell_history h)(?hd := (shell_memcpy (g_shell_history h ?hd) line n)(n := 0))"
      "g_shell_history_head h' = (?hd + 1) mod 16" "g_shell_history_count h' = min 16 (Suc ?c)"
      using False hd ok(2) by (auto simp: h'_def shell_history_push_def Let_def)
    note sl = slot_after_push [OF ok(1) refl h'(2)]
    have new: "shell_string ((shell_memcpy (g_shell_history h ?hd) line n)(n := 0)) = take 255 (shell_string line)"
      using shell_memcpy_string(2) [of n line] by (simp add: n_def min_def)
    have "history_lines h' = take 16 (take 255 (shell_string line) # history_lines h)"
    proof (rule nth_equalityI)
      show "length (history_lines h') = length (take 16 (take 255 (shell_string line) # history_lines h))"
        by (simp add: h'(3))
      fix r assume "r < length (history_lines h')"
      then have r: "r < 16" "r < Suc ?c" "r < g_shell_history_count h'" by (simp_all add: h'(3))
      show "history_lines h' ! r = take 16 (take 255 (shell_string line) # history_lines h) ! r"
      proof (cases r)
        case 0
        then show ?thesis using history_lines_nth [OF r(3)] new by (simp add: sl(1) h'(1))
      next
        case (Suc q)
        then have "q < 15" "q < ?c" using r by simp_all
        then show ?thesis
          using history_lines_nth [OF r(3)] history_lines_nth [of q h] sl(2,3) [of q] Suc by (simp add: h'(1))
      qed
    qed
    then show ?thesis using False ne by (auto simp: h'_def)
  qed
qed

text \<open>Every operation keeps the ring in order.\<close>

lemma shell_history_push_ok:
  assumes "history_ok h"
  shows "history_ok (shell_history_push line h)"
proof (cases "shell_history_push line h = h")
  case False
  note l = shell_history_push_lines [OF assms, of line]
  have "line 0 \<noteq> 0" using False by (auto simp: shell_history_push_def)
  then have "shell_strlen line \<noteq> 0" using shell_strlen_end [of line] by (metis zero_less_numeral)
  then have "shell_string line \<noteq> []" by (metis length_0_conv shell_string_length)
  then have "\<forall>t \<in> set (history_lines (shell_history_push line h)). t \<noteq> [] \<and> length t < SHELL_LINE_CAP"
    using assms unfolding l history_ok_def by (auto dest!: in_set_takeD)
  moreover have "g_shell_history_head (shell_history_push line h) < 16"
    "g_shell_history_count h \<le> g_shell_history_count (shell_history_push line h)"
    "g_shell_history_count (shell_history_push line h) \<le> 16" "g_shell_history_nav (shell_history_push line h) = g_shell_history_nav h"
    using assms by (auto simp: shell_history_push_def Let_def history_ok_def)
  ultimately show ?thesis using assms by (simp add: history_ok_def)
qed (simp add: assms)

lemma shell_history_hook_ok:
  assumes "history_ok h" "0 < cap" "cap \<le> SHELL_LINE_CAP" "line_ok cap l" "shell_history_hook dir cap l h = (r, l', h')"
  shows "history_ok h'" "history_lines h' = history_lines h" "line_ok cap l'" "line_within cap l l'"
  using assms shell_replace_line_line(4,5) [OF assms(2,3)]
  by (auto simp: shell_history_hook_def Let_def history_ok_def line_within_def split: if_splits)

lemma shell_hooks_ok:
  assumes "0 < cap" "cap \<le> SHELL_LINE_CAP"
  shows "hooks_ok cap (Some \<lparr>tab_hook = None, history_hook = Some shell_history_hook\<rparr>)"
  using shell_replace_line_line(4,5) [OF assms]
  by (auto simp: hooks_ok_def shell_history_hook_def Let_def line_within_def)

lemma reset_line_state_ok:
  "history_ok h \<Longrightarrow> history_ok (shell_history_reset_line_state h) \<and> g_shell_history_nav (shell_history_reset_line_state h) = - 1 \<and>
   history_lines (shell_history_reset_line_state h) = history_lines h"
  by (simp add: shell_history_reset_line_state_def history_ok_def)

subsection \<open>The keys Up and Down\<close>

text \<open>Up on a line that is being typed shows the newest line of the history, with the cursor at its end.\<close>

lemma history_up:
  assumes "history_ok h" "g_shell_history_nav h = - 1" "0 < g_shell_history_count h"
  shows "\<exists>h'. shell_history_hook (- 1) SHELL_LINE_CAP l h =
      (1, shell_replace_line SHELL_LINE_CAP (g_shell_history h (shell_history_slot 0 h)) l, h') \<and>
    g_shell_history_nav h' = 0 \<and> history_lines h' = history_lines h \<and> g_shell_history_count h' = g_shell_history_count h \<and>
    g_shell_history_draft h' = shell_copy_string (g_shell_history_draft h) SHELL_LINE_CAP (tbuf l)"
  using assms by (simp add: shell_history_hook_def Let_def shell_history_slot_def)

lemma copy_string_from_eq:
  assumes "i \<le> k" "k < cap" "\<And>j. i \<le> j \<Longrightarrow> j < k \<Longrightarrow> src j \<noteq> 0" "src k = 0 \<or> k + 1 = cap"
  shows "copy_string_from cap src i dst = (\<lambda>j. if i \<le> j \<and> j < k then src j else if j = k then 0 else dst j)"
  using assms
proof (induction "k - i" arbitrary: i dst)
  case 0
  then show ?case by (subst copy_string_from.simps) (auto simp: fun_eq_iff)
next
  case (Suc n)
  then have "src i \<noteq> 0" "i + 1 < cap" "i < k" by auto
  then show ?case using Suc by (subst copy_string_from.simps) (auto simp: fun_eq_iff)
qed

lemma shell_copy_string_text: "shell_string (shell_copy_string dst SHELL_LINE_CAP src) = take (SHELL_LINE_CAP - 1) (shell_string src)"
proof -
  define k where "k = min 255 (shell_strlen src)"
  have "src k = 0 \<or> k + 1 = 256" using shell_strlen_end [of src] by (auto simp: k_def min_def)
  then have c: "shell_copy_string dst SHELL_LINE_CAP src = (\<lambda>j. if j < k then src j else if j = k then 0 else dst j)"
    using copy_string_from_eq [of 0 k 256 src dst] shell_strlen_before [of _ src] by (simp add: shell_copy_string_def k_def)
  have l: "shell_strlen (shell_copy_string dst SHELL_LINE_CAP src) = k"
    unfolding c using shell_strlen_before [of _ src] by (intro shell_strlen_eqI) (auto simp: k_def)
  show ?thesis unfolding shell_string_def l by (auto simp: c k_def take_map min_def)
qed

text \<open>
  Up and then Down brings back the line that was being typed, but not what it was: the draft is copied
  up to the first NUL of the buffer, and the line editor puts a NUL behind the typed characters only
  when Enter is pressed. Characters that an earlier line left in the buffer come back with it.
\<close>

lemma history_up_down:
  assumes "history_ok h" "g_shell_history_nav h = - 1" "0 < g_shell_history_count h"
    "shell_history_hook (- 1) SHELL_LINE_CAP l h = (r1, l1, h1)" "shell_history_hook 1 SHELL_LINE_CAP l1 h1 = (r2, l2, h2)"
  shows "r2 = 1" "cells (tbuf l2) (tlen l2) = take (SHELL_LINE_CAP - 1) (shell_string (tbuf l))"
proof -
  have h1: "g_shell_history_nav h1 = 0" "0 < g_shell_history_count h1"
    "g_shell_history_draft h1 = shell_copy_string (g_shell_history_draft h) SHELL_LINE_CAP (tbuf l)"
    using history_up [OF assms(1-3), of l] assms(3,4) by auto
  then have "(r2, l2, h2) = (1, shell_replace_line SHELL_LINE_CAP (g_shell_history_draft h1) l1, h1\<lparr>g_shell_history_nav := - 1\<rparr>)"
    using assms(5) by (simp add: shell_history_hook_def)
  then show "r2 = 1" "cells (tbuf l2) (tlen l2) = take (SHELL_LINE_CAP - 1) (shell_string (tbuf l))"
    using shell_replace_line_line(1) [of 256 "g_shell_history_draft h1" l1] by (simp_all add: h1(3) shell_copy_string_text)
qed

end
