(* ===== verification/Console.thy ===== *)
theory Console
  imports Vga_Text Shell_History
begin

text \<open>
  The line editor of the console (\<open>tty_core.c\<close>) on the VGA driver (\<open>vga_text.c\<close>): the two keep
  separate copies of the edited line. They agree as long as no hook redraws the line; a redraw
  makes them disagree about the overwrite mode, and the history of the kernel shell
  (\<open>shell_core.c\<close>) redraws the line.
\<close>

interpretation vga_tty: tty_console "pc_vga_display_ops path_max io" vga_view "vga_inv path_max" path_max
  for path_max and io :: "'d port_io"
  by (simp add: tty_console_def vga_disp.text_display_axioms)

text \<open>
  C26: while a line is read without hooks, after any keys, the text the VGA driver draws is the text
  in the caller's buffer, with the same cursor and the same insert mode. The two copies are kept by
  different code with different limits; they stay equal for every buffer that is at most one byte
  longer than the text buffer of the driver. For the driver that the module registers, with 512 bytes
  of text, these are the buffers of at most 513 bytes.
\<close>

theorem console_screen_follows_line:
  assumes D: "active_display D = Some (pc_vga_display_ops path_max io)" and inv: "vga_inv path_max d"
    and cap: "0 < cap" "cap \<le> path_max + 1"
    and run: "tty_core_readline_ex D None (Some b) cap keys h d = Waiting st"
  shows "vga_view (rl_disp st) = line_view st \<and> vga_inv path_max (rl_disp st) \<and> line_ok cap (rl_line st)"
proof -
  let ?rc = "display_get_cursor D d"
  let ?st = "\<lparr>rl_line = \<lparr>tbuf = b(0 := 0), tlen = 0, tcursor = 0\<rparr>, rl_insert = True,
     rl_hook = h, rl_disp = display_text_begin D (fst ?rc) (snd ?rc) d\<rparr>"
  have r: "tty_readline_loop D None cap ?rc keys ?st = Waiting st"
    using run cap(1) by (simp add: tty_core_readline_ex_def Let_def)
  have ok: "line_ok cap (rl_line ?st)" using cap(1) by (simp add: line_ok_def)
  have m: "vga_tty.mirrored path_max ?st"
    using vga_disp.text_begin_view [OF inv] D
    by (simp add: vga_tty.mirrored_def display_defs line_view_def cells_def)
  have "cap - 1 \<le> path_max" using cap(2) by simp
  from vga_tty.mirror_loop [OF m ok this D r] show ?thesis
    by (simp add: vga_tty.mirrored_def)
qed

definition vga_console :: "unit vga_state display" where
  "vga_console = \<lparr>active_display = Some (smod_vga_display_ops unit_io), smod_serial_write = (\<lambda>_ d. d)\<rparr>"

lemma vga_inv_example: "vga_inv 512 vga_example"
  by (simp add: vga_inv_def vga_example_def on_screen_def)

text \<open>On the registered driver: two letters, Left, and a third one between them.\<close>

theorem console_screen_follows_line_witness:
  "\<exists>st. tty_core_readline_ex vga_console None (Some (\<lambda>_. 0)) 513 [108, 115, KEY_LEFT, 120] () vga_example = Waiting st \<and>
     vga_view (rl_disp st) = \<lparr>ed_text = [108, 120, 115], ed_cursor = 2, ed_insert = True\<rparr>"
proof -
  have D: "active_display vga_console = Some (pc_vga_display_ops 512 unit_io)"
    by (simp add: vga_console_def smod_vga_display_ops_def)
  obtain st where st: "tty_core_readline_ex vga_console None (Some (\<lambda>_. 0)) 513 [108, 115, KEY_LEFT, 120] () vga_example = Waiting st"
    and l: "line_view st = \<lparr>ed_text = [108, 120, 115], ed_cursor = 2, ed_insert = True\<rparr>"
    by (simp add: tty_core_readline_ex_def Let_def tty_readline_key_def tty_insert_char_def line_view_def cells_def
        shift_right.simps numeral_2_eq_2 numeral_3_eq_3)
  have "vga_view (rl_disp st) = line_view st"
    using console_screen_follows_line [OF D vga_inv_example _ _ st] by simp
  then show ?thesis using st l by simp
qed

lemma redraw_vga:
  assumes D: "active_display D = Some (pc_vga_display_ops path_max io)" and inv: "vga_inv path_max d"
    and l: "tlen l \<le> path_max"
  shows "vga_inv path_max (tty_redraw_line D l rc d) \<and>
    vga_view (tty_redraw_line D l rc d) =
      \<lparr>ed_text = cells (tbuf l) (tlen l), ed_cursor = tlen l - (tlen l - tcursor l), ed_insert = True\<rparr>"
proof -
  have f: "display_text_putc D = disp_text_putc (pc_vga_display_ops path_max io)"
    "display_text_left D = disp_text_left (pc_vga_display_ops path_max io)"
    "display_text_begin D = disp_text_begin (pc_vga_display_ops path_max io)"
    using D by (simp_all add: fun_eq_iff display_defs)
  show ?thesis
    unfolding tty_redraw_line_def f using vga_disp.redraw_view [OF inv, of "cells (tbuf l) (tlen l)"] l by simp
qed

text \<open>The keys Insert and Up, with the history of the shell.\<close>

lemma insert_up:
  assumes D: "active_display D = Some (pc_vga_display_ops path_max io)" and inv: "vga_inv path_max d"
    and hooks: "history_hook hooks = Some shell_history_hook"
    and h: "history_ok h" "g_shell_history_nav h = - 1" "history_lines h = t # ts" and max: "SHELL_LINE_CAP \<le> path_max"
  obtains st where
    "\<And>keys. tty_core_readline_ex D (Some hooks) (Some b) SHELL_LINE_CAP (KEY_INSERT # KEY_UP # keys) h d =
       tty_readline_loop D (Some hooks) SHELL_LINE_CAP (display_get_cursor D d) keys st"
    "cells (tbuf (rl_line st)) (tlen (rl_line st)) = t" "tlen (rl_line st) = length t" "tcursor (rl_line st) = length t"
    "\<not> rl_insert st" "vga_inv path_max (rl_disp st)"
    "vga_view (rl_disp st) = \<lparr>ed_text = t, ed_cursor = length t, ed_insert = True\<rparr>"
proof -
  let ?rc = "display_get_cursor D d"
  have c: "0 < g_shell_history_count h" using h(3) by (metis history_lines_length length_greater_0_conv list.distinct(1))
  have t: "shell_string (g_shell_history h (shell_history_slot 0 h)) = t" using history_lines_nth [OF c] h(3) by simp
  have len: "length t < SHELL_LINE_CAP" using h(1,3) by (simp add: history_ok_def)
  let ?start = "\<lparr>tbuf = b(0 := 0), tlen = 0, tcursor = 0\<rparr>"
  let ?l = "shell_replace_line SHELL_LINE_CAP (g_shell_history h (shell_history_slot 0 h)) ?start"
  obtain h' where up: "shell_history_hook (- 1) SHELL_LINE_CAP ?start h = (1, ?l, h')" using history_up [OF h(1,2) c, of ?start] by blast
  have sl: "shell_strlen (g_shell_history h (shell_history_slot 0 h)) = length t" unfolding t [symmetric] by simp
  have l: "cells (tbuf ?l) (tlen ?l) = t" "tlen ?l = length t" "tcursor ?l = length t"
    using shell_replace_line_line(1-3) [of 256 "g_shell_history h (shell_history_slot 0 h)" ?start] t sl len by simp_all
  define d1 where "d1 = display_text_toggle_insert D (display_text_begin D (fst ?rc) (snd ?rc) d)"
  have i1: "vga_inv path_max d1"
    unfolding d1_def using vga_disp.text_toggle_view [OF vga_disp.text_begin_view [OF inv, THEN conjunct1]] D
    by (simp add: display_defs)
  define st where "st = \<lparr>rl_line = ?l, rl_insert = False, rl_hook = h', rl_disp = tty_redraw_line D ?l ?rc d1\<rparr>"
  note rd = redraw_vga [OF D i1, of ?l ?rc]
  show thesis
  proof (rule that [of st])
    show "tty_core_readline_ex D (Some hooks) (Some b) SHELL_LINE_CAP (KEY_INSERT # KEY_UP # keys) h d =
       tty_readline_loop D (Some hooks) SHELL_LINE_CAP ?rc keys st" for keys
      using up by (simp add: tty_core_readline_ex_def Let_def tty_readline_key_def tty_history_def hooks st_def d1_def)
  qed (use rd l len max in \<open>simp_all add: st_def\<close>)
qed

text \<open>
  C27: recalling a line from the history of the kernel shell in overwrite mode desynchronises the
  console. After Insert and Up the editor has the newest line of the history, and the redraw has put
  the VGA driver back into insert mode while the line editor stays in overwrite mode. Left and a
  printable character then replace the last character in the shell's buffer and insert one on the
  screen: the screen shows a character that is not in the command that Enter will run.
\<close>

theorem history_redraw_desync:
  assumes D: "active_display D = Some (smod_vga_display_ops io)" and inv: "vga_inv 512 d"
    and hooks: "history_hook hooks = Some shell_history_hook"
    and h: "history_ok h" "g_shell_history_nav h = - 1" "history_lines h = t # ts" "length t < SHELL_LINE_CAP - 1"
    and c: "32 \<le> c" "c < (127 :: u8)"
  shows "\<exists>st. tty_core_readline_ex D (Some hooks) (Some b) SHELL_LINE_CAP [KEY_INSERT, KEY_UP, KEY_LEFT, uint c] h d = Waiting st \<and>
    ed_text (line_view st) = butlast t @ [c] \<and> ed_text (vga_view (rl_disp st)) = butlast t @ [c, last t]"
proof -
  have D': "active_display D = Some (pc_vga_display_ops 512 io)" using D by (simp add: smod_vga_display_ops_def)
  obtain st where st:
    "\<And>keys. tty_core_readline_ex D (Some hooks) (Some b) SHELL_LINE_CAP (KEY_INSERT # KEY_UP # keys) h d =
       tty_readline_loop D (Some hooks) SHELL_LINE_CAP (display_get_cursor D d) keys st"
    "cells (tbuf (rl_line st)) (tlen (rl_line st)) = t" "tlen (rl_line st) = length t" "tcursor (rl_line st) = length t"
    "\<not> rl_insert st" "vga_inv 512 (rl_disp st)" "vga_view (rl_disp st) = \<lparr>ed_text = t, ed_cursor = length t, ed_insert = True\<rparr>"
    by (rule insert_up [OF D' inv hooks h(1-3), where b = b]) (simp, rule that)
  have t: "0 < length t" "t \<noteq> []" using h(1,3) by (auto simp: history_ok_def)
  obtain u x where ux: "t = u @ [x]" using t(2) by (cases t rule: rev_cases) auto
  have b: "32 \<le> uint c" "uint c < 127" using c by (simp_all add: word_le_def word_less_def)
  let ?l = "rl_line st" and ?n = "length t - 1"
  let ?d = "display_text_left D (rl_disp st)"
  let ?st = "st\<lparr>rl_line := ?l\<lparr>tbuf := (tbuf ?l)(?n := c), tcursor := length t\<rparr>, rl_disp := display_text_putc D c ?d\<rparr>"
  have run: "tty_core_readline_ex D (Some hooks) (Some b) SHELL_LINE_CAP [KEY_INSERT, KEY_UP, KEY_LEFT, uint c] h d = Waiting ?st"
    using st(3-5) t(1) h(4) b by (simp add: st(1) tty_readline_key_def Let_def tty_insert_char_def)
  have v: "vga_inv 512 ?d" "vga_view ?d = \<lparr>ed_text = t, ed_cursor = ?n, ed_insert = True\<rparr>"
    using vga_disp.text_left_view [OF st(6), of io] D' st(7) t(1) by (simp_all add: display_defs ed_left_def)
  have "ed_text (vga_view (rl_disp ?st)) = butlast t @ [c, last t]"
    using vga_disp.text_putc_view [OF v(1), of io c] D' v(2) h(4) by (simp add: display_defs ed_putc_def ux)
  moreover have "ed_text (line_view ?st) = butlast t @ [c]"
  proof -
    have "ed_text (line_view ?st) = (cells (tbuf ?l) (length t))[?n := c]"
      using t(1) by (simp add: line_view_def st(3) cells_upd_same)
    also have "\<dots> = t[?n := c]" using st(2,3) by simp
    finally show ?thesis by (simp add: ux)
  qed
  ultimately show ?thesis using run by blast
qed

text \<open>The shell has run \<open>ls\<close>, and the user corrects it to \<open>lx\<close>: the screen shows \<open>lxs\<close>.\<close>

definition ls_history :: shell_history where
  "ls_history = shell_history_reset_line_state (shell_history_push ((\<lambda>_. 0)(0 := 108, 1 := 115))
     \<lparr>g_shell_history = (\<lambda>_ _. 0), g_shell_history_count = 0, g_shell_history_head = 0, g_shell_history_nav = - 1,
      g_shell_history_draft = (\<lambda>_. 0)\<rparr>)"

lemma ls_history_facts: "history_ok ls_history" "g_shell_history_nav ls_history = - 1" "history_lines ls_history = [[108, 115]]"
proof -
  let ?h = "\<lparr>g_shell_history = (\<lambda>_ _. 0), g_shell_history_count = 0, g_shell_history_head = 0, g_shell_history_nav = - 1,
      g_shell_history_draft = (\<lambda>_. 0)\<rparr> :: shell_history"
  let ?line = "(\<lambda>_. 0)(0 := 108, 1 := 115) :: nat \<Rightarrow> u8"
  have ok: "history_ok ?h" "history_lines ?h = []" by (simp_all add: history_ok_def history_lines_def)
  have "shell_strlen ?line = 2" by (rule shell_strlen_eqI) (auto simp: less_2_cases_iff)
  then have "shell_string ?line = [108, 115]" by (simp add: shell_string_def numeral_2_eq_2)
  then show "history_lines ls_history = [[108, 115]]"
    using shell_history_push_lines [OF ok(1), of ?line] ok(2) reset_line_state_ok [OF shell_history_push_ok [OF ok(1)], of ?line]
    by (simp add: ls_history_def)
  show "history_ok ls_history" "g_shell_history_nav ls_history = - 1"
    using reset_line_state_ok [OF shell_history_push_ok [OF ok(1)], of ?line] by (simp_all add: ls_history_def)
qed

theorem history_redraw_desync_witness:
  "\<exists>st. tty_core_readline_ex vga_console (Some \<lparr>tab_hook = None, history_hook = Some shell_history_hook\<rparr>) (Some (\<lambda>_. 0)) 256
       [KEY_INSERT, KEY_UP, KEY_LEFT, uint (120 :: u8)] ls_history vga_example = Waiting st \<and>
     ed_text (line_view st) = [108, 120] \<and> ed_text (vga_view (rl_disp st)) = [108, 120, 115]"
proof -
  have D: "active_display vga_console = Some (smod_vga_display_ops unit_io)" by (simp add: vga_console_def)
  show ?thesis
    using history_redraw_desync [OF D vga_inv_example _ ls_history_facts, of "\<lparr>tab_hook = None, history_hook = Some shell_history_hook\<rparr>" 120 "\<lambda>_. 0"]
    by simp
qed

end
