(* ===== verification/Fs_Types.thy ===== *)
theory Fs_Types
  imports Sys_Prelude
begin

text \<open>
  The vocabulary of the file system layer (\<open>src/src/kernel/core/fs/fs_core.h\<close>, \<open>vfs_core.h\<close>):
  error codes, node types, open flags, and the table of operations a file system driver provides,
  over the driver's own state. A C string is the HOL string of its characters before the NUL, file
  contents are lists of characters; a null pointer is \<open>None\<close> where the code tests for it.
\<close>

subsection \<open>Constants\<close>

datatype fs_error =
  FS_ERR_NOT_FOUND
| FS_ERR_EXISTS
| FS_ERR_NOT_DIR
| FS_ERR_INVALID
| FS_ERR_NO_SPACE
| FS_ERR_READ_ONLY
| FS_ERR_IS_DIR
| FS_ERR_NOT_EMPTY

abbreviation "FS_NAME_CAP \<equiv> 24 :: nat"
abbreviation "FS_PATH_CAP \<equiv> 128 :: nat"

abbreviation "FS_NODE_DIR \<equiv> 1 :: u8"
abbreviation "FS_NODE_FILE \<equiv> 2 :: u8"
abbreviation "FS_NODE_SYMLINK \<equiv> 3 :: u8"

text \<open>The octal mode constants \<open>0020000\<close>, \<open>0040000\<close>, \<open>0100000\<close> and \<open>0120000\<close>.\<close>

abbreviation "FS_MODE_CHAR \<equiv> 0x2000 :: u32"
abbreviation "FS_MODE_DIR \<equiv> 0x4000 :: u32"
abbreviation "FS_MODE_FILE \<equiv> 0x8000 :: u32"
abbreviation "FS_MODE_SYMLINK \<equiv> 0xA000 :: u32"

abbreviation "FS_O_RDONLY \<equiv> 0x0001 :: u32"
abbreviation "FS_O_WRONLY \<equiv> 0x0002 :: u32"
abbreviation "FS_O_RDWR \<equiv> 0x0003 :: u32"
abbreviation "FS_O_CREAT \<equiv> 0x0100 :: u32"
abbreviation "FS_O_TRUNC \<equiv> 0x0200 :: u32"
abbreviation "FS_O_APPEND \<equiv> 0x0400 :: u32"

record fs_dirent =
  ent_name :: string
  ent_type :: u8

record fs_stat =
  st_mode :: u32
  st_size :: u32

text \<open>The result of a fallible operation: an error or a value.\<close>

type_synonym 'a fs_result = "fs_error + 'a"

subsection \<open>File system drivers\<close>

text \<open>
  Operations that a driver may leave out are optional. A buffer of \<open>cap\<close> bytes that the callee
  fills is a capacity argument and the list of characters written. What an operation keeps in a
  cache is not part of a driver's state, so the operations that only read return no state.
\<close>

record 's vfs_driver =
  drv_get_cwd_path :: "('s \<Rightarrow> string) option"
  drv_change_dir :: "(string \<Rightarrow> 's \<Rightarrow> unit fs_result \<times> 's) option"
  drv_make_dir :: "(string \<Rightarrow> 's \<Rightarrow> unit fs_result \<times> 's) option"
  drv_list_dir :: "(string \<Rightarrow> nat \<Rightarrow> 's \<Rightarrow> fs_dirent list fs_result) option"
  drv_read_file :: "(string \<Rightarrow> nat \<Rightarrow> 's \<Rightarrow> char list fs_result) option"
  drv_open :: "(string \<Rightarrow> u32 \<Rightarrow> 's \<Rightarrow> u32 fs_result \<times> 's) option"
  drv_read :: "(u32 \<Rightarrow> u32 \<Rightarrow> u32 \<Rightarrow> 's \<Rightarrow> char list fs_result) option"
  drv_write :: "(u32 \<Rightarrow> u32 \<Rightarrow> char list \<Rightarrow> 's \<Rightarrow> u32 fs_result \<times> 's) option"
  drv_size :: "(u32 \<Rightarrow> 's \<Rightarrow> u32 fs_result) option"
  drv_close :: "(u32 \<Rightarrow> 's \<Rightarrow> unit fs_result \<times> 's) option"
  drv_stat :: "(string \<Rightarrow> 's \<Rightarrow> fs_stat fs_result) option"
  drv_fstat :: "(u32 \<Rightarrow> 's \<Rightarrow> fs_stat fs_result) option"
  drv_unlink :: "(string \<Rightarrow> 's \<Rightarrow> unit fs_result \<times> 's) option"
  drv_rmdir :: "(string \<Rightarrow> 's \<Rightarrow> unit fs_result \<times> 's) option"

subsection \<open>The contract of a store of files\<close>

text \<open>
  The bytes of a file after a write: a gap between the old end and the offset reads as zero.
\<close>

definition write_at :: "nat \<Rightarrow> char list \<Rightarrow> char list \<Rightarrow> char list" where
  "write_at off bs c =
     (if bs = [] then c
      else take off (c @ replicate (off - length c) (CHR 0x00)) @ bs @ drop (off + length bs) c)"

lemma length_write_at: "length (write_at off bs c) = (if bs = [] then length c else max (length c) (off + length bs))"
  by (auto simp: write_at_def)

lemma write_at_back: "take (length bs) (drop off (write_at off bs c)) = bs"
  by (simp add: write_at_def)

lemma write_at_end: "write_at (length c) bs c = c @ bs"
  by (simp add: write_at_def)

text \<open>
  What a client of a driver's file operations relies on: \<open>file_of\<close> is the view of the store as a
  map from file handles to contents, reading returns a part of the contents, a successful write
  changes the contents of its file as \<^const>\<open>write_at\<close> says and no other file, and a failed write
  changes nothing.
\<close>

locale file_store =
  fixes inv :: "'s \<Rightarrow> bool"
    and file_of :: "'s \<Rightarrow> u32 \<Rightarrow> char list option"
    and rd :: "u32 \<Rightarrow> u32 \<Rightarrow> u32 \<Rightarrow> 's \<Rightarrow> char list fs_result"
    and wr :: "u32 \<Rightarrow> u32 \<Rightarrow> char list \<Rightarrow> 's \<Rightarrow> u32 fs_result \<times> 's"
    and sz :: "u32 \<Rightarrow> 's \<Rightarrow> u32 fs_result"
  assumes inv_wr: "inv s \<Longrightarrow> inv (snd (wr i off bs s))"
    and rd_file: "inv s \<Longrightarrow> file_of s i = Some c \<Longrightarrow> rd i off cap s = Inr (take (unat cap) (drop (unat off) c))"
    and wr_ok: "inv s \<Longrightarrow> file_of s i = Some c \<Longrightarrow> wr i off bs s = (Inr n, t) \<Longrightarrow>
      unat n = length bs \<and> unat off + length bs < 2 ^ 32 \<and> file_of t = (file_of s)(i \<mapsto> write_at (unat off) bs c)"
    and wr_err: "inv s \<Longrightarrow> file_of s i = Some c \<Longrightarrow> wr i off bs s = (Inl e, t) \<Longrightarrow> t = s"
    and sz_file: "inv s \<Longrightarrow> file_of s i = Some c \<Longrightarrow> length c < 2 ^ 32 \<and> sz i s = Inr (of_nat (length c))"
begin

lemma read_back:
  assumes "inv s" "file_of s i = Some c" "wr i off bs s = (Inr n, t)"
  shows "rd i off n t = Inr bs"
proof -
  have t: "inv t" using inv_wr [OF assms(1), of i off bs] assms(3) by simp
  note w = wr_ok [OF assms]
  show ?thesis using rd_file [OF t, of i _ off n] w by (simp add: write_at_back)
qed

lemma read_other:
  assumes "inv s" "file_of s i = Some c" "wr i off bs s = (r, t)" "file_of s j = Some d" "j \<noteq> i"
  shows "rd j o' cap t = rd j o' cap s" "sz j t = sz j s"
proof -
  have t: "inv t" using inv_wr [OF assms(1), of i off bs] assms(3) by simp
  have "file_of t j = Some d"
  proof (cases r)
    case (Inl e)
    then show ?thesis using wr_err [OF assms(1,2), of off bs e t] assms(3,4) by simp
  next
    case (Inr n)
    then show ?thesis using wr_ok [OF assms(1,2), of off bs n t] assms(3-5) by simp
  qed
  then show "rd j o' cap t = rd j o' cap s" "sz j t = sz j s"
    using rd_file [OF t] rd_file [OF assms(1,4)] sz_file [OF t] sz_file [OF assms(1,4)] by simp_all
qed

end

end
