(* ===== verification/Ramfs_Core.thy ===== *)
theory Ramfs_Core
  imports Fs_Types
begin

text \<open>
  The in-memory file system, \<open>src/src/kernel/core/fs/ramfs_core.c\<close>: 64 nodes, 4 data slots of 4096
  bytes. A node pointer is the index of the node in \<open>g_nodes\<close>, a null pointer is \<open>None\<close>; the
  children array with its count is the list of its live entries. Arguments that every caller
  supplies (paths, output pointers) are not nullable here.
\<close>

subsection \<open>State\<close>

abbreviation "FS_MAX_NODES \<equiv> 64 :: nat"
abbreviation "FS_MAX_CHILDREN \<equiv> 16 :: nat"
abbreviation "RAMFS_DATA_SLOT_CAP \<equiv> 4 :: nat"
abbreviation "RAMFS_DATA_SLOT_SIZE \<equiv> 4096 :: nat"
abbreviation "RAMFS_NO_DATA_SLOT \<equiv> 0xFFFFFFFF :: u32"

record fs_node =
  node_used :: bool
  node_type :: u8
  node_name :: string
  node_parent :: "nat option"
  node_children :: "nat list"
  node_data_slot :: u32
  node_size :: u32

record ramfs_data_slot =
  slot_used :: bool
  slot_data :: "nat \<Rightarrow> char"

record ramfs =
  g_nodes :: "nat \<Rightarrow> fs_node"
  g_data_slots :: "nat \<Rightarrow> ramfs_data_slot"
  g_root :: "nat option"
  g_cwd :: "nat option"
  g_dirty :: bool

text \<open>What \<open>fs_memzero\<close> makes of a node and of a data slot.\<close>

definition zero_node :: fs_node where
  "zero_node = \<lparr>node_used = False, node_type = 0, node_name = [], node_parent = None,
     node_children = [], node_data_slot = 0, node_size = 0\<rparr>"

definition zero_slot :: ramfs_data_slot where
  "zero_slot = \<lparr>slot_used = False, slot_data = (\<lambda>_. CHR 0x00)\<rparr>"

abbreviation upd_node :: "nat \<Rightarrow> (fs_node \<Rightarrow> fs_node) \<Rightarrow> ramfs \<Rightarrow> ramfs" where
  "upd_node i f s \<equiv> s\<lparr>g_nodes := (g_nodes s)(i := f (g_nodes s i))\<rparr>"

subsection \<open>Names\<close>

fun fs_streq :: "string \<Rightarrow> string \<Rightarrow> bool" where
  "fs_streq (a # as) (b # bs) = (if a \<noteq> b then False else fs_streq as bs)"
| "fs_streq as bs = (as = [] \<and> bs = [])"

definition fs_lower :: "char \<Rightarrow> char" where
  "fs_lower c = (if 65 \<le> (of_char c :: nat) \<and> (of_char c :: nat) \<le> 90
                 then char_of ((of_char c :: nat) + 32) else c)"

text \<open>
  The first loop of \<open>fs_name_eq\<close> decides equality up to case. The rest recognises a stored short
  name: a prefix, a tilde and digits match every longer name with that prefix. The code may read one
  byte after the end of a requested name that is shorter than the prefix; the comparison of the
  prefixes fails then whatever it reads.
\<close>

definition fs_name_eq :: "string \<Rightarrow> string \<Rightarrow> bool" where
  "fs_name_eq stored requested =
     (if map fs_lower stored = map fs_lower requested then True
      else let alias = takeWhile (\<lambda>c. c \<noteq> CHR ''~'') stored;
               rest = dropWhile (\<lambda>c. c \<noteq> CHR ''~'') stored
      in if rest = [] \<or> alias = [] \<or> length requested \<le> length alias then False
         else if \<not> list_all (\<lambda>c. 48 \<le> (of_char c :: nat) \<and> (of_char c :: nat) \<le> 57) (tl rest) then False
         else map fs_lower (take (length alias) requested) = map fs_lower alias)"

definition fs_name_copy :: "string \<Rightarrow> string fs_result" where
  "fs_name_copy src =
     (if src = [] \<or> CHR ''/'' \<in> set src \<or> FS_NAME_CAP \<le> length src then Inl FS_ERR_INVALID else Inr src)"

subsection \<open>Nodes and data slots\<close>

text \<open>The first unused node, cleared and marked used.\<close>

definition fs_alloc_node :: "ramfs \<Rightarrow> (nat \<times> ramfs) option" where
  "fs_alloc_node s =
     (case List.find (\<lambda>i. \<not> node_used (g_nodes s i)) [0..<FS_MAX_NODES] of
        None \<Rightarrow> None
      | Some i \<Rightarrow> Some (i, upd_node i (\<lambda>_. zero_node\<lparr>node_used := True, node_data_slot := RAMFS_NO_DATA_SLOT\<rparr>) s))"

definition ramfs_clear_data_slots :: "ramfs \<Rightarrow> ramfs" where
  "ramfs_clear_data_slots s = s\<lparr>g_data_slots := (\<lambda>_. zero_slot)\<rparr>"

definition ramfs_alloc_data_slot :: "ramfs \<Rightarrow> u32 \<times> ramfs" where
  "ramfs_alloc_data_slot s =
     (case List.find (\<lambda>i. \<not> slot_used (g_data_slots s i)) [0..<RAMFS_DATA_SLOT_CAP] of
        None \<Rightarrow> (RAMFS_NO_DATA_SLOT, s)
      | Some i \<Rightarrow> (of_nat i, s\<lparr>g_data_slots := (g_data_slots s)(i := zero_slot\<lparr>slot_used := True\<rparr>)\<rparr>))"

definition ramfs_free_data_slot :: "u32 \<Rightarrow> ramfs \<Rightarrow> ramfs" where
  "ramfs_free_data_slot slot s =
     (if RAMFS_DATA_SLOT_CAP \<le> unat slot then s
      else s\<lparr>g_data_slots := (g_data_slots s)(unat slot := zero_slot)\<rparr>)"

text \<open>The slot that holds a node's data, if it has one.\<close>

definition ramfs_node_data :: "nat \<Rightarrow> ramfs \<Rightarrow> nat option" where
  "ramfs_node_data node s =
     (let slot = unat (node_data_slot (g_nodes s node))
      in if RAMFS_DATA_SLOT_CAP \<le> slot \<or> \<not> slot_used (g_data_slots s slot) then None else Some slot)"

definition ramfs_ensure_data_slot :: "nat \<Rightarrow> ramfs \<Rightarrow> unit fs_result \<times> ramfs" where
  "ramfs_ensure_data_slot node s =
     (if node_type (g_nodes s node) \<noteq> FS_NODE_FILE then (Inl FS_ERR_INVALID, s)
      else if ramfs_node_data node s \<noteq> None then (Inr (), s)
      else let (slot, t) = ramfs_alloc_data_slot s
           in if slot = RAMFS_NO_DATA_SLOT then (Inl FS_ERR_NO_SPACE, t)
              else (Inr (), upd_node node (\<lambda>n. n\<lparr>node_data_slot := slot\<rparr>) t))"

definition fs_node_id :: "nat \<Rightarrow> u32" where
  "fs_node_id node = (if node < FS_MAX_NODES then of_nat node + 1 else 0)"

definition fs_node_from_id :: "u32 \<Rightarrow> ramfs \<Rightarrow> nat option" where
  "fs_node_from_id node_id s =
     (if node_id = 0 then None
      else let index = unat (node_id - 1)
           in if FS_MAX_NODES \<le> index \<or> \<not> node_used (g_nodes s index) then None else Some index)"

definition fs_find_child :: "nat option \<Rightarrow> string \<Rightarrow> ramfs \<Rightarrow> nat option" where
  "fs_find_child dir name s =
     (case dir of None \<Rightarrow> None
      | Some d \<Rightarrow> if node_type (g_nodes s d) \<noteq> FS_NODE_DIR then None
                 else List.find (\<lambda>c. fs_name_eq (node_name (g_nodes s c)) name) (node_children (g_nodes s d)))"

definition fs_attach_child :: "nat \<Rightarrow> nat \<Rightarrow> ramfs \<Rightarrow> unit fs_result \<times> ramfs" where
  "fs_attach_child parent child s =
     (if node_type (g_nodes s parent) \<noteq> FS_NODE_DIR then (Inl FS_ERR_INVALID, s)
      else if FS_MAX_CHILDREN \<le> length (node_children (g_nodes s parent)) then (Inl FS_ERR_NO_SPACE, s)
      else (Inr (), upd_node child (\<lambda>n. n\<lparr>node_parent := Some parent\<rparr>)
                     (upd_node parent (\<lambda>n. n\<lparr>node_children := node_children n @ [child]\<rparr>) s)))"

text \<open>
  On an error after the allocation the node is given back; what is left in its name is not
  observable, an unused node is cleared before it is used again.
\<close>

definition fs_create_node :: "nat option \<Rightarrow> string \<Rightarrow> u8 \<Rightarrow> ramfs \<Rightarrow> nat fs_result \<times> ramfs" where
  "fs_create_node parent name type s =
     (case parent of
        None \<Rightarrow> (Inl FS_ERR_NOT_DIR, s)
      | Some p \<Rightarrow>
          if node_type (g_nodes s p) \<noteq> FS_NODE_DIR then (Inl FS_ERR_NOT_DIR, s)
          else if fs_find_child parent name s \<noteq> None then (Inl FS_ERR_EXISTS, s)
          else case fs_alloc_node s of
            None \<Rightarrow> (Inl FS_ERR_NO_SPACE, s)
          | Some (node, s1) \<Rightarrow>
              (case fs_name_copy name of
                 Inl e \<Rightarrow> (Inl e, upd_node node (\<lambda>n. n\<lparr>node_used := False\<rparr>) s1)
               | Inr nm \<Rightarrow>
                   let s2 = upd_node node (\<lambda>n. n\<lparr>node_name := nm, node_type := type\<rparr>) s1
                   in case fs_attach_child p node s2 of
                        (Inl e, s3) \<Rightarrow> (Inl e, upd_node node (\<lambda>n. n\<lparr>node_used := False\<rparr>) s3)
                      | (Inr _, s3) \<Rightarrow> (Inr node, s3)))"

subsection \<open>Path lookup\<close>

definition skip_slashes :: "string \<Rightarrow> string" where
  "skip_slashes path = dropWhile (\<lambda>c. c = CHR ''/'') path"

text \<open>An error, the end of the path, or a segment and what follows it.\<close>

definition fs_next_segment :: "string \<Rightarrow> (string \<times> string) option fs_result" where
  "fs_next_segment io_path =
     (let path = skip_slashes io_path
      in if path = [] then Inr None
         else let segment = takeWhile (\<lambda>c. c \<noteq> CHR ''/'') path
              in if FS_NAME_CAP \<le> length segment then Inl FS_ERR_INVALID
                 else Inr (Some (segment, dropWhile (\<lambda>c. c \<noteq> CHR ''/'') path)))"

lemma fs_next_segment_shorter:
  assumes "fs_next_segment path = Inr (Some (seg, rest))"
  shows "length rest < length path"
proof -
  let ?p = "skip_slashes path"
  have p: "?p \<noteq> []" "rest = dropWhile (\<lambda>c. c \<noteq> CHR ''/'') ?p"
    using assms by (simp_all add: fs_next_segment_def Let_def split: if_splits)
  have "hd ?p \<noteq> CHR ''/''"
    using hd_dropWhile [of "\<lambda>c. c = CHR ''/''" path] p(1) by (simp add: skip_slashes_def)
  then have "length rest < length ?p"
    using p by (cases ?p) (auto simp: less_Suc_eq_le length_dropWhile_le)
  moreover have "length ?p \<le> length path" by (simp add: skip_slashes_def length_dropWhile_le)
  ultimately show ?thesis by simp
qed

definition parent_or_self :: "ramfs \<Rightarrow> nat \<Rightarrow> nat" where
  "parent_or_self s node = (case node_parent (g_nodes s node) of None \<Rightarrow> node | Some p \<Rightarrow> p)"

function resolve_loop :: "ramfs \<Rightarrow> nat \<Rightarrow> string \<Rightarrow> nat fs_result" where
  "resolve_loop s current cursor =
     (case fs_next_segment cursor of
        Inl e \<Rightarrow> Inl e
      | Inr None \<Rightarrow> Inr current
      | Inr (Some (segment, rest)) \<Rightarrow>
          if fs_streq segment ''.'' then resolve_loop s current rest
          else if fs_streq segment ''..'' then resolve_loop s (parent_or_self s current) rest
          else if node_type (g_nodes s current) \<noteq> FS_NODE_DIR then Inl FS_ERR_NOT_DIR
          else case fs_find_child (Some current) segment s of
                 None \<Rightarrow> Inl FS_ERR_NOT_FOUND
               | Some child \<Rightarrow> resolve_loop s child rest)"
  by auto
termination
  by (relation "measure (\<lambda>(s, current, cursor). length cursor)") (auto simp: fs_next_segment_shorter)

declare resolve_loop.simps [simp del]

definition fs_resolve_path_from :: "nat option \<Rightarrow> string \<Rightarrow> ramfs \<Rightarrow> nat fs_result" where
  "fs_resolve_path_from start path s =
     (case (if path \<noteq> [] \<and> hd path = CHR ''/'' then g_root s else start) of
        None \<Rightarrow> Inl FS_ERR_INVALID
      | Some current \<Rightarrow> if path = [] then Inr current else resolve_loop s current path)"

definition fs_resolve_path :: "string \<Rightarrow> ramfs \<Rightarrow> nat fs_result" where
  "fs_resolve_path path s = fs_resolve_path_from (g_cwd s) path s"

text \<open>The directory and the last name of a path; the directory pointer may be null.\<close>

function resolve_parent_loop :: "ramfs \<Rightarrow> nat option \<Rightarrow> string \<Rightarrow> (nat option \<times> string) fs_result" where
  "resolve_parent_loop s current cursor =
     (case fs_next_segment cursor of
        Inl e \<Rightarrow> Inl FS_ERR_INVALID
      | Inr None \<Rightarrow> Inl FS_ERR_INVALID
      | Inr (Some (segment, rest)) \<Rightarrow>
          if skip_slashes rest = []
          then if fs_streq segment ''.'' \<or> fs_streq segment ''..'' then Inl FS_ERR_INVALID
               else (case fs_name_copy segment of Inl e \<Rightarrow> Inl e | Inr name \<Rightarrow> Inr (current, name))
          else if fs_streq segment ''.'' then resolve_parent_loop s current rest
          else if fs_streq segment ''..'' then resolve_parent_loop s (map_option (parent_or_self s) current) rest
          else case fs_find_child current segment s of
                 None \<Rightarrow> Inl FS_ERR_NOT_FOUND
               | Some child \<Rightarrow> if node_type (g_nodes s child) \<noteq> FS_NODE_DIR then Inl FS_ERR_NOT_DIR
                              else resolve_parent_loop s (Some child) rest)"
  by auto
termination
  by (relation "measure (\<lambda>(s, current, cursor). length cursor)") (auto simp: fs_next_segment_shorter)

declare resolve_parent_loop.simps [simp del]

definition fs_resolve_parent :: "string \<Rightarrow> ramfs \<Rightarrow> (nat option \<times> string) fs_result" where
  "fs_resolve_parent path s =
     resolve_parent_loop s (if path \<noteq> [] \<and> hd path = CHR ''/'' then g_root s else g_cwd s) path"

subsection \<open>Operations\<close>

definition ramfs_core_reset_empty :: "ramfs \<Rightarrow> unit fs_result \<times> ramfs" where
  "ramfs_core_reset_empty s =
     (let s1 = ramfs_clear_data_slots (s\<lparr>g_nodes := (\<lambda>_. zero_node)\<rparr>)\<lparr>g_dirty := False\<rparr>
      in case fs_alloc_node s1 of
           None \<Rightarrow> (Inl FS_ERR_NO_SPACE, s1\<lparr>g_root := None\<rparr>)
         | Some (r, s2) \<Rightarrow>
             (Inr (), upd_node r (\<lambda>n. n\<lparr>node_type := FS_NODE_DIR, node_name := [], node_parent := None\<rparr>)
                        (s2\<lparr>g_root := Some r, g_cwd := Some r\<rparr>)))"

definition ramfs_core_init :: "ramfs \<Rightarrow> unit fs_result \<times> ramfs" where
  "ramfs_core_init s = ramfs_core_reset_empty s"

definition ramfs_core_import_node :: "string \<Rightarrow> u8 \<Rightarrow> ramfs \<Rightarrow> unit fs_result \<times> ramfs" where
  "ramfs_core_import_node path type s =
     (if path = [] \<or> hd path \<noteq> CHR ''/'' then (Inl FS_ERR_INVALID, s)
      else if tl path = [] then (if type = FS_NODE_DIR then Inr () else Inl FS_ERR_INVALID, s)
      else case fs_resolve_parent path s of
        Inl e \<Rightarrow> (Inl e, s)
      | Inr (parent, name) \<Rightarrow>
          (case fs_find_child parent name s of
             Some ex \<Rightarrow> (if node_type (g_nodes s ex) = type then Inr () else Inl FS_ERR_EXISTS, s)
           | None \<Rightarrow> (case fs_create_node parent name type s of
                        (Inl e, t) \<Rightarrow> (Inl e, t) | (Inr _, t) \<Rightarrow> (Inr (), t))))"

definition ramfs_core_import_dir :: "string \<Rightarrow> ramfs \<Rightarrow> unit fs_result \<times> ramfs" where
  "ramfs_core_import_dir path s = ramfs_core_import_node path FS_NODE_DIR s"

definition ramfs_core_import_file :: "string \<Rightarrow> ramfs \<Rightarrow> unit fs_result \<times> ramfs" where
  "ramfs_core_import_file path s = ramfs_core_import_node path FS_NODE_FILE s"

definition ramfs_core_is_dirty :: "ramfs \<Rightarrow> bool" where
  "ramfs_core_is_dirty s = g_dirty s"

definition ramfs_core_clear_dirty :: "ramfs \<Rightarrow> ramfs" where
  "ramfs_core_clear_dirty s = s\<lparr>g_dirty := False\<rparr>"

record ramfs_stats =
  node_cap :: u32
  node_used_count :: u32
  dir_nodes :: u32
  file_nodes :: u32
  reserved_file_bytes :: u32
  used_file_bytes :: u32
  data_slot_cap :: u32
  data_slot_used :: u32
  data_slot_bytes :: u32

definition stats_node :: "ramfs \<Rightarrow> nat \<Rightarrow> ramfs_stats \<Rightarrow> ramfs_stats" where
  "stats_node s i out =
     (let n = g_nodes s i in
      if \<not> node_used n then out
      else let out1 = out\<lparr>node_used_count := node_used_count out + 1\<rparr>
      in if node_type n = FS_NODE_DIR then out1\<lparr>dir_nodes := dir_nodes out1 + 1\<rparr>
         else if node_type n = FS_NODE_FILE
         then out1\<lparr>file_nodes := file_nodes out1 + 1, used_file_bytes := used_file_bytes out1 + node_size n\<rparr>
         else out1)"

definition ramfs_core_get_stats :: "ramfs \<Rightarrow> ramfs_stats" where
  "ramfs_core_get_stats s =
     (let out0 = \<lparr>node_cap = of_nat FS_MAX_NODES, node_used_count = 0, dir_nodes = 0, file_nodes = 0,
                  reserved_file_bytes = 0, used_file_bytes = 0, data_slot_cap = of_nat RAMFS_DATA_SLOT_CAP,
                  data_slot_used = 0, data_slot_bytes = of_nat RAMFS_DATA_SLOT_SIZE\<rparr>;
          out1 = fold (stats_node s) [0..<FS_MAX_NODES] out0;
          out2 = fold (\<lambda>i out. if slot_used (g_data_slots s i)
                               then out\<lparr>data_slot_used := data_slot_used out + 1\<rparr> else out)
                   [0..<RAMFS_DATA_SLOT_CAP] out1
      in out2\<lparr>reserved_file_bytes := data_slot_used out2 * of_nat RAMFS_DATA_SLOT_SIZE\<rparr>)"

text \<open>
  The chain from a directory up to the root, at most \<open>FS_PATH_CAP / 2\<close> nodes; the code assumes that
  the chain ends in the root.
\<close>

primrec cwd_chain :: "nat \<Rightarrow> nat \<Rightarrow> ramfs \<Rightarrow> nat list" where
  "cwd_chain 0 node s = []"
| "cwd_chain (Suc n) node s =
     node # (if Some node = g_root s then []
             else case node_parent (g_nodes s node) of None \<Rightarrow> [] | Some p \<Rightarrow> cwd_chain n p s)"

definition cwd_append :: "string \<Rightarrow> string \<Rightarrow> string" where
  "cwd_append name buf =
     (if FS_PATH_CAP \<le> length buf + 1 then buf else take (FS_PATH_CAP - 1) (buf @ CHR ''/'' # name))"

definition ramfs_core_get_cwd_path :: "ramfs \<Rightarrow> string" where
  "ramfs_core_get_cwd_path s =
     (case g_cwd s of
        None \<Rightarrow> ''/''
      | Some cwd \<Rightarrow>
          if g_root s = Some cwd then ''/''
          else let names = map (\<lambda>i. node_name (g_nodes s i))
                     (filter (\<lambda>i. Some i \<noteq> g_root s) (rev (cwd_chain (FS_PATH_CAP div 2) cwd s)));
                   buf = fold cwd_append names []
               in if buf = [] then ''/'' else buf)"

definition ramfs_core_change_dir :: "string \<Rightarrow> ramfs \<Rightarrow> unit fs_result \<times> ramfs" where
  "ramfs_core_change_dir path s =
     (case fs_resolve_path path s of
        Inl e \<Rightarrow> (Inl e, s)
      | Inr node \<Rightarrow> if node_type (g_nodes s node) \<noteq> FS_NODE_DIR then (Inl FS_ERR_NOT_DIR, s)
                   else (Inr (), s\<lparr>g_cwd := Some node\<rparr>))"

definition ramfs_core_make_dir :: "string \<Rightarrow> ramfs \<Rightarrow> unit fs_result \<times> ramfs" where
  "ramfs_core_make_dir path s =
     (case fs_resolve_parent path s of
        Inl e \<Rightarrow> (Inl e, s)
      | Inr (parent, name) \<Rightarrow>
          (case fs_create_node parent name FS_NODE_DIR s of
             (Inl e, t) \<Rightarrow> (Inl e, t)
           | (Inr _, t) \<Rightarrow> (Inr (), t\<lparr>g_dirty := True\<rparr>)))"

definition ramfs_core_list_dir :: "string \<Rightarrow> nat \<Rightarrow> ramfs \<Rightarrow> fs_dirent list fs_result" where
  "ramfs_core_list_dir path cap s =
     (case fs_resolve_path path s of
        Inl e \<Rightarrow> Inl e
      | Inr dir \<Rightarrow>
          if node_type (g_nodes s dir) \<noteq> FS_NODE_DIR then Inl FS_ERR_NOT_DIR
          else let special = (if Some dir \<noteq> g_root s
                              then [\<lparr>ent_name = ''.'', ent_type = FS_NODE_DIR\<rparr>, \<lparr>ent_name = ''..'', ent_type = FS_NODE_DIR\<rparr>]
                              else []);
                   entries = special @ map (\<lambda>c. \<lparr>ent_name = node_name (g_nodes s c), ent_type = node_type (g_nodes s c)\<rparr>)
                                        (node_children (g_nodes s dir))
               in if cap < length entries then Inl FS_ERR_NO_SPACE else Inr entries)"

text \<open>The first \<open>n\<close> bytes of a slot from an offset.\<close>

definition slot_bytes :: "ramfs \<Rightarrow> nat \<Rightarrow> nat \<Rightarrow> nat \<Rightarrow> char list" where
  "slot_bytes s slot off n = map (\<lambda>i. slot_data (g_data_slots s slot) (off + i)) [0..<n]"

definition ramfs_core_read_file :: "string \<Rightarrow> nat \<Rightarrow> ramfs \<Rightarrow> char list fs_result" where
  "ramfs_core_read_file path cap s =
     (case fs_resolve_path path s of
        Inl e \<Rightarrow> Inl e
      | Inr node \<Rightarrow>
          let n = g_nodes s node; size = unat (node_size n) in
          if node_type n \<noteq> FS_NODE_FILE then Inl FS_ERR_NOT_DIR
          else if cap < size then Inl FS_ERR_NO_SPACE
          else case ramfs_node_data node s of
                 None \<Rightarrow> if 0 < size then Inl FS_ERR_INVALID else Inr []
               | Some slot \<Rightarrow> Inr (slot_bytes s slot 0 size))"

text \<open>Truncation on open, for a file that exists.\<close>

definition open_existing :: "nat \<Rightarrow> u32 \<Rightarrow> ramfs \<Rightarrow> u32 fs_result \<times> ramfs" where
  "open_existing node flags s =
     (if node_type (g_nodes s node) \<noteq> FS_NODE_FILE then (Inl FS_ERR_NOT_DIR, s)
      else if flags AND FS_O_TRUNC \<noteq> 0 \<and> flags AND FS_O_WRONLY = 0 then (Inl FS_ERR_INVALID, s)
      else let slot = node_data_slot (g_nodes s node);
               s1 = (if flags AND FS_O_TRUNC \<noteq> 0
                     then (upd_node node (\<lambda>n. n\<lparr>node_data_slot := RAMFS_NO_DATA_SLOT, node_size := 0\<rparr>)
                            (if slot \<noteq> RAMFS_NO_DATA_SLOT then ramfs_free_data_slot slot s else s))\<lparr>g_dirty := True\<rparr>
                     else s)
           in if fs_node_id node = 0 then (Inl FS_ERR_INVALID, s1) else (Inr (fs_node_id node), s1))"

definition ramfs_core_open :: "string \<Rightarrow> u32 \<Rightarrow> ramfs \<Rightarrow> u32 fs_result \<times> ramfs" where
  "ramfs_core_open path flags s =
     (case fs_resolve_path path s of
        Inr node \<Rightarrow> open_existing node flags s
      | Inl rc \<Rightarrow>
          if rc = FS_ERR_NOT_FOUND \<and> flags AND FS_O_CREAT \<noteq> 0
          then case fs_resolve_parent path s of
                 Inl e \<Rightarrow> (Inl e, s)
               | Inr (parent, name) \<Rightarrow>
                   (case fs_create_node parent name FS_NODE_FILE s of
                      (Inl e, t) \<Rightarrow> (Inl e, t)
                    | (Inr node, t) \<Rightarrow> open_existing node flags (t\<lparr>g_dirty := True\<rparr>))
          else (Inl rc, s))"

definition ramfs_core_read :: "u32 \<Rightarrow> u32 \<Rightarrow> u32 \<Rightarrow> ramfs \<Rightarrow> char list fs_result" where
  "ramfs_core_read node_id off cap s =
     (case fs_node_from_id node_id s of
        None \<Rightarrow> Inl FS_ERR_INVALID
      | Some node \<Rightarrow>
          let n = g_nodes s node in
          if node_type n \<noteq> FS_NODE_FILE then Inl FS_ERR_NOT_DIR
          else if node_size n \<le> off then Inr []
          else let available = node_size n - off; count = (if available < cap then available else cap)
               in case ramfs_node_data node s of
                    None \<Rightarrow> Inl FS_ERR_INVALID
                  | Some slot \<Rightarrow> Inr (slot_bytes s slot (unat off) (unat count)))"

text \<open>The store loop of \<open>ramfs_core_write\<close>.\<close>

definition store_bytes :: "nat \<Rightarrow> char list \<Rightarrow> (nat \<Rightarrow> char) \<Rightarrow> nat \<Rightarrow> char" where
  "store_bytes off bytes data =
     fold (\<lambda>i d. d(off + i := bytes ! i)) [0..<length bytes] data"

definition ramfs_core_write :: "u32 \<Rightarrow> u32 \<Rightarrow> char list \<Rightarrow> ramfs \<Rightarrow> u32 fs_result \<times> ramfs" where
  "ramfs_core_write node_id off bytes s =
     (case fs_node_from_id node_id s of
        None \<Rightarrow> (Inl FS_ERR_INVALID, s)
      | Some node \<Rightarrow>
          let size = length bytes in
          if node_type (g_nodes s node) \<noteq> FS_NODE_FILE then (Inl FS_ERR_NOT_DIR, s)
          else if RAMFS_DATA_SLOT_SIZE < unat off \<or> RAMFS_DATA_SLOT_SIZE - unat off < size
          then (Inl FS_ERR_NO_SPACE, s)
          else if size = 0 then (Inr 0, s)
          else case ramfs_ensure_data_slot node s of
                 (Inl e, s1) \<Rightarrow> (Inl e, s1)
               | (Inr _, s1) \<Rightarrow>
                   (case ramfs_node_data node s1 of
                      None \<Rightarrow> (Inl FS_ERR_INVALID, s1)
                    | Some slot \<Rightarrow>
                        let sl = g_data_slots s1 slot;
                            s2 = s1\<lparr>g_data_slots := (g_data_slots s1)(slot :=
                                   sl\<lparr>slot_data := store_bytes (unat off) bytes (slot_data sl)\<rparr>)\<rparr>;
                            s3 = upd_node node (\<lambda>n. if node_size n < off + of_nat size
                                                    then n\<lparr>node_size := off + of_nat size\<rparr> else n) s2
                        in (Inr (of_nat size), s3\<lparr>g_dirty := True\<rparr>)))"

definition ramfs_core_size :: "u32 \<Rightarrow> ramfs \<Rightarrow> u32 fs_result" where
  "ramfs_core_size node_id s =
     (case fs_node_from_id node_id s of
        None \<Rightarrow> Inl FS_ERR_INVALID
      | Some node \<Rightarrow> if node_type (g_nodes s node) \<noteq> FS_NODE_FILE then Inl FS_ERR_NOT_DIR
                    else Inr (node_size (g_nodes s node)))"

definition ramfs_core_close :: "u32 \<Rightarrow> ramfs \<Rightarrow> unit fs_result" where
  "ramfs_core_close node_id s =
     (if fs_node_from_id node_id s = None then Inl FS_ERR_INVALID else Inr ())"

definition ramfs_fill_stat :: "nat option \<Rightarrow> ramfs \<Rightarrow> fs_stat fs_result" where
  "ramfs_fill_stat node s =
     (case node of
        None \<Rightarrow> Inl FS_ERR_INVALID
      | Some i \<Rightarrow> Inr \<lparr>st_mode = (if node_type (g_nodes s i) = FS_NODE_DIR then FS_MODE_DIR else FS_MODE_FILE),
                      st_size = (if node_type (g_nodes s i) = FS_NODE_FILE then node_size (g_nodes s i) else 0)\<rparr>)"

definition ramfs_core_stat :: "string \<Rightarrow> ramfs \<Rightarrow> fs_stat fs_result" where
  "ramfs_core_stat path s =
     (case fs_resolve_path path s of Inl e \<Rightarrow> Inl e | Inr node \<Rightarrow> ramfs_fill_stat (Some node) s)"

definition ramfs_core_fstat :: "u32 \<Rightarrow> ramfs \<Rightarrow> fs_stat fs_result" where
  "ramfs_core_fstat node_id s = ramfs_fill_stat (fs_node_from_id node_id s) s"

text \<open>Taking a node out of its parent's children, the loops of \<open>unlink\<close> and \<open>rmdir\<close>.\<close>

definition detach_child :: "nat \<Rightarrow> nat \<Rightarrow> ramfs \<Rightarrow> ramfs" where
  "detach_child parent node s = upd_node parent (\<lambda>n. n\<lparr>node_children := remove1 node (node_children n)\<rparr>) s"

definition ramfs_core_unlink :: "string \<Rightarrow> ramfs \<Rightarrow> unit fs_result \<times> ramfs" where
  "ramfs_core_unlink path s =
     (case fs_resolve_path path s of
        Inl e \<Rightarrow> (Inl e, s)
      | Inr node \<Rightarrow>
          if Some node = g_root s \<or> node_type (g_nodes s node) = FS_NODE_DIR then (Inl FS_ERR_IS_DIR, s)
          else case node_parent (g_nodes s node) of
                 None \<Rightarrow> (Inl FS_ERR_INVALID, s)
               | Some parent \<Rightarrow>
                   if node_type (g_nodes s parent) \<noteq> FS_NODE_DIR then (Inl FS_ERR_INVALID, s)
                   else if node \<notin> set (node_children (g_nodes s parent)) then (Inl FS_ERR_INVALID, s)
                   else let s1 = detach_child parent node s;
                            slot = node_data_slot (g_nodes s node);
                            s2 = (if slot \<noteq> RAMFS_NO_DATA_SLOT then ramfs_free_data_slot slot s1 else s1)
                        in (Inr (), (upd_node node (\<lambda>_. zero_node) s2)\<lparr>g_dirty := True\<rparr>))"

definition ramfs_core_rmdir :: "string \<Rightarrow> ramfs \<Rightarrow> unit fs_result \<times> ramfs" where
  "ramfs_core_rmdir path s =
     (case fs_resolve_path path s of
        Inl e \<Rightarrow> (Inl e, s)
      | Inr node \<Rightarrow>
          if Some node = g_root s \<or> Some node = g_cwd s \<or> node_type (g_nodes s node) \<noteq> FS_NODE_DIR
          then (Inl FS_ERR_INVALID, s)
          else if node_children (g_nodes s node) \<noteq> [] then (Inl FS_ERR_NOT_EMPTY, s)
          else case node_parent (g_nodes s node) of
                 None \<Rightarrow> (Inl FS_ERR_INVALID, s)
               | Some parent \<Rightarrow>
                   if node \<notin> set (node_children (g_nodes s parent)) then (Inl FS_ERR_INVALID, s)
                   else (Inr (), (upd_node node (\<lambda>_. zero_node) (detach_child parent node s))\<lparr>g_dirty := True\<rparr>))"

definition ramfs_core_driver :: "ramfs vfs_driver" where
  "ramfs_core_driver =
     \<lparr>drv_get_cwd_path = Some ramfs_core_get_cwd_path, drv_change_dir = Some ramfs_core_change_dir,
      drv_make_dir = Some ramfs_core_make_dir, drv_list_dir = Some ramfs_core_list_dir,
      drv_read_file = Some ramfs_core_read_file, drv_open = Some ramfs_core_open,
      drv_read = Some ramfs_core_read, drv_write = Some ramfs_core_write, drv_size = Some ramfs_core_size,
      drv_close = Some (\<lambda>i s. (ramfs_core_close i s, s)), drv_stat = Some ramfs_core_stat, drv_fstat = Some ramfs_core_fstat,
      drv_unlink = Some ramfs_core_unlink, drv_rmdir = Some ramfs_core_rmdir\<rparr>"

end
