(* ===== verification/Ramfs_Inv.thy ===== *)
theory Ramfs_Inv
  imports Ramfs_Core
begin

text \<open>
  The invariant of the in-memory file system of \<open>Ramfs_Core\<close>: the live nodes form a tree, every
  live file owns at most one data slot, no slot is shared or leaked, and the bytes of a slot after
  the end of its file are zero. Every operation keeps it.
\<close>

subsection \<open>The invariant\<close>

definition live :: "ramfs \<Rightarrow> nat \<Rightarrow> bool" where
  "live s i \<longleftrightarrow> i < FS_MAX_NODES \<and> node_used (g_nodes s i)"

definition is_dir :: "ramfs \<Rightarrow> nat \<Rightarrow> bool" where
  "is_dir s i \<longleftrightarrow> live s i \<and> node_type (g_nodes s i) = FS_NODE_DIR"

definition is_file :: "ramfs \<Rightarrow> nat \<Rightarrow> bool" where
  "is_file s i \<longleftrightarrow> live s i \<and> node_type (g_nodes s i) = FS_NODE_FILE"

text \<open>A name that a path segment can spell.\<close>

definition seg_ok :: "string \<Rightarrow> bool" where
  "seg_ok nm \<longleftrightarrow> nm \<noteq> [] \<and> CHR ''/'' \<notin> set nm \<and> length nm < FS_NAME_CAP \<and> nm \<noteq> ''.'' \<and> nm \<noteq> ''..''"

text \<open>
  The children of a directory are live, know their parent, and no child is hidden behind an earlier
  one whose name it matches.
\<close>

definition node_ok :: "ramfs \<Rightarrow> nat \<Rightarrow> bool" where
  "node_ok s i \<longleftrightarrow>
     (is_dir s i \<or> is_file s i \<and> node_children (g_nodes s i) = []) \<and>
     distinct (node_children (g_nodes s i)) \<and> length (node_children (g_nodes s i)) \<le> FS_MAX_CHILDREN \<and>
     (\<forall>c \<in> set (node_children (g_nodes s i)). live s c \<and> node_parent (g_nodes s c) = Some i) \<and>
     sorted_wrt (\<lambda>c d. \<not> fs_name_eq (node_name (g_nodes s c)) (node_name (g_nodes s d))) (node_children (g_nodes s i)) \<and>
     (node_parent (g_nodes s i) = None \<longleftrightarrow> g_root s = Some i) \<and>
     (node_parent (g_nodes s i) \<noteq> None \<longrightarrow> seg_ok (node_name (g_nodes s i))) \<and>
     (\<forall>p. node_parent (g_nodes s i) = Some p \<longrightarrow> is_dir s p \<and> i \<in> set (node_children (g_nodes s p)))"

definition tree_ok :: "ramfs \<Rightarrow> bool" where
  "tree_ok s \<longleftrightarrow> (\<forall>i. live s i \<longrightarrow> node_ok s i) \<and>
     (\<exists>r. g_root s = Some r \<and> is_dir s r) \<and> (\<exists>c. g_cwd s = Some c \<and> is_dir s c) \<and>
     (\<exists>rank :: nat \<Rightarrow> nat. \<forall>i p. live s i \<and> node_parent (g_nodes s i) = Some p \<longrightarrow> rank p < rank i)"

text \<open>A file without a slot is empty; a file with a slot owns it.\<close>

definition file_ok :: "ramfs \<Rightarrow> nat \<Rightarrow> bool" where
  "file_ok s i \<longleftrightarrow>
     node_data_slot (g_nodes s i) = RAMFS_NO_DATA_SLOT \<and> node_size (g_nodes s i) = 0 \<or>
     unat (node_data_slot (g_nodes s i)) < RAMFS_DATA_SLOT_CAP \<and>
     slot_used (g_data_slots s (unat (node_data_slot (g_nodes s i)))) \<and>
     unat (node_size (g_nodes s i)) \<le> RAMFS_DATA_SLOT_SIZE \<and>
     (\<forall>j. unat (node_size (g_nodes s i)) \<le> j \<and> j < RAMFS_DATA_SLOT_SIZE \<longrightarrow>
        slot_data (g_data_slots s (unat (node_data_slot (g_nodes s i)))) j = CHR 0x00)"

definition slots_ok :: "ramfs \<Rightarrow> bool" where
  "slots_ok s \<longleftrightarrow>
     (\<forall>i. is_file s i \<longrightarrow> file_ok s i) \<and>
     (\<forall>i j. is_file s i \<and> is_file s j \<and> node_data_slot (g_nodes s i) = node_data_slot (g_nodes s j) \<and>
        node_data_slot (g_nodes s i) \<noteq> RAMFS_NO_DATA_SLOT \<longrightarrow> i = j) \<and>
     (\<forall>k < RAMFS_DATA_SLOT_CAP. slot_used (g_data_slots s k) \<longrightarrow>
        (\<exists>i. is_file s i \<and> node_data_slot (g_nodes s i) = of_nat k))"

definition ramfs_inv :: "ramfs \<Rightarrow> bool" where
  "ramfs_inv s \<longleftrightarrow> tree_ok s \<and> slots_ok s"

lemma fs_streq_eq [simp]: "fs_streq a b = (a = b)"
  by (induction a b rule: fs_streq.induct) auto

lemma unat_no_slot [simp]: "unat RAMFS_NO_DATA_SLOT = 4294967295"
  by simp

subsection \<open>Lookup stays among the live nodes\<close>

lemma tree_ok_node: "tree_ok s \<Longrightarrow> live s i \<Longrightarrow> node_ok s i"
  by (simp add: tree_ok_def)

lemma find_child_live:
  assumes "tree_ok s" "live s d" "fs_find_child (Some d) name s = Some c"
  shows "live s c" "node_parent (g_nodes s c) = Some d" "c \<in> set (node_children (g_nodes s d))"
    "fs_name_eq (node_name (g_nodes s c)) name"
proof -
  show "c \<in> set (node_children (g_nodes s d))" "fs_name_eq (node_name (g_nodes s c)) name"
    using assms(3) by (auto simp: fs_find_child_def find_Some_iff split: if_splits)
  with tree_ok_node [OF assms(1,2)] show "live s c" "node_parent (g_nodes s c) = Some d"
    by (auto simp: node_ok_def)
qed

lemma parent_or_self_live:
  assumes "tree_ok s" "live s i"
  shows "live s (parent_or_self s i)" "is_dir s i \<Longrightarrow> is_dir s (parent_or_self s i)"
  using tree_ok_node [OF assms] assms(2)
  by (auto simp: parent_or_self_def node_ok_def is_dir_def split: option.split)

lemma resolve_loop_next:
  assumes "fs_next_segment path = Inr (Some (seg, rest))"
  shows "resolve_loop s i path =
    (if seg = ''.'' then resolve_loop s i rest
     else if seg = ''..'' then resolve_loop s (parent_or_self s i) rest
     else if node_type (g_nodes s i) \<noteq> FS_NODE_DIR then Inl FS_ERR_NOT_DIR
     else case fs_find_child (Some i) seg s of None \<Rightarrow> Inl FS_ERR_NOT_FOUND | Some c \<Rightarrow> resolve_loop s c rest)"
  using assms by (subst resolve_loop.simps) simp

lemma resolve_loop_end: "fs_next_segment path = Inr None \<Longrightarrow> resolve_loop s i path = Inr i"
  "fs_next_segment path = Inl e \<Longrightarrow> resolve_loop s i path = Inl e"
  by (simp_all add: resolve_loop.simps)

lemma segment_cases:
  obtains (err) e where "fs_next_segment path = Inl e"
  | (last) "fs_next_segment path = Inr None"
  | (seg) seg rest where "fs_next_segment path = Inr (Some (seg, rest))" "length rest < length path"
proof (cases "fs_next_segment path")
  case (Inr o')
  then show ?thesis
  proof (cases o')
    case (Some sr)
    obtain seg rest where "sr = (seg, rest)" by fastforce
    then show ?thesis using seg [of seg rest] Inr Some fs_next_segment_shorter by simp
  qed (use last Inr in simp)
qed (use err in simp)

lemma resolve_loop_live:
  assumes "tree_ok s" "live s i" "resolve_loop s i path = Inr n"
  shows "live s n"
  using assms(2,3)
proof (induction "length path" arbitrary: i path rule: less_induct)
  case less
  show ?case
  proof (cases path rule: segment_cases)
    case (seg sg rest)
    note IH = less.hyps [of rest, OF seg(2)]
    consider (dot) "resolve_loop s i rest = Inr n" | (up) "resolve_loop s (parent_or_self s i) rest = Inr n"
      | (child) c where "fs_find_child (Some i) sg s = Some c" "resolve_loop s c rest = Inr n"
      using less.prems(2) unfolding resolve_loop_next [OF seg(1)] by (auto split: if_splits option.splits)
    then show ?thesis
    proof cases
      case dot
      show ?thesis by (rule IH [OF less.prems(1) dot])
    next
      case up
      show ?thesis by (rule IH [OF parent_or_self_live(1) [OF assms(1) less.prems(1)] up])
    next
      case child
      show ?thesis by (rule IH [OF find_child_live(1) [OF assms(1) less.prems(1) child(1)] child(2)])
    qed
  qed (use less.prems in \<open>auto simp: resolve_loop_end\<close>)
qed

lemma start_is_dir:
  assumes "tree_ok s"
  obtains i where "(if b then g_root s else g_cwd s) = Some i" "is_dir s i"
  using assms by (cases b) (auto simp: tree_ok_def)

lemma resolve_path_live:
  assumes "tree_ok s" "fs_resolve_path path s = Inr n"
  shows "live s n"
proof -
  obtain i where i: "(if path \<noteq> [] \<and> hd path = CHR ''/'' then g_root s else g_cwd s) = Some i" "is_dir s i"
    using assms(1) by (rule start_is_dir)
  have "live s i" using i(2) by (simp add: is_dir_def)
  moreover have "path = [] \<and> n = i \<or> resolve_loop s i path = Inr n"
    using assms(2) unfolding fs_resolve_path_def fs_resolve_path_from_def i(1) by (simp split: if_splits)
  ultimately show ?thesis using resolve_loop_live [OF assms(1)] by blast
qed

lemma resolve_parent_next:
  assumes "fs_next_segment path = Inr (Some (seg, rest))"
  shows "resolve_parent_loop s cur path =
    (if skip_slashes rest = []
     then if seg = ''.'' \<or> seg = ''..'' then Inl FS_ERR_INVALID
          else (case fs_name_copy seg of Inl e \<Rightarrow> Inl e | Inr name \<Rightarrow> Inr (cur, name))
     else if seg = ''.'' then resolve_parent_loop s cur rest
     else if seg = ''..'' then resolve_parent_loop s (map_option (parent_or_self s) cur) rest
     else case fs_find_child cur seg s of
            None \<Rightarrow> Inl FS_ERR_NOT_FOUND
          | Some c \<Rightarrow> if node_type (g_nodes s c) \<noteq> FS_NODE_DIR then Inl FS_ERR_NOT_DIR
                     else resolve_parent_loop s (Some c) rest)"
  using assms by (subst resolve_parent_loop.simps) simp

lemma resolve_parent_live:
  assumes "tree_ok s" "is_dir s i" "resolve_parent_loop s (Some i) path = Inr (p, name)"
  shows "(\<exists>d. p = Some d \<and> is_dir s d) \<and> seg_ok name"
  using assms(2,3)
proof (induction "length path" arbitrary: i path rule: less_induct)
  case less
  have live: "live s i" using less.prems by (simp add: is_dir_def)
  show ?case
  proof (cases path rule: segment_cases)
    case (seg sg rest)
    note IH = less.hyps [of rest, OF seg(2)]
    consider (fin) "fs_name_copy sg = Inr name" "sg \<noteq> ''.''" "sg \<noteq> ''..''" "p = Some i"
      | (dot) "resolve_parent_loop s (Some i) rest = Inr (p, name)"
      | (up) "resolve_parent_loop s (Some (parent_or_self s i)) rest = Inr (p, name)"
      | (child) c where "fs_find_child (Some i) sg s = Some c" "node_type (g_nodes s c) = FS_NODE_DIR"
        "resolve_parent_loop s (Some c) rest = Inr (p, name)"
      using less.prems(2) unfolding resolve_parent_next [OF seg(1)]
      by (auto split: if_splits option.splits sum.splits)
    then show ?thesis
    proof cases
      case fin
      then show ?thesis using less.prems(1) by (auto simp: fs_name_copy_def seg_ok_def split: if_splits)
    next
      case dot
      show ?thesis by (rule IH [OF less.prems(1) dot])
    next
      case up
      show ?thesis by (rule IH [OF parent_or_self_live(2) [OF assms(1) live less.prems(1)] up])
    next
      case child
      have "is_dir s c" using find_child_live(1) [OF assms(1) live child(1)] child(2) by (simp add: is_dir_def)
      then show ?thesis by (rule IH [OF _ child(3)])
    qed
  qed (use less.prems in \<open>auto simp: resolve_parent_loop.simps\<close>)
qed

lemma resolve_parent_path_live:
  assumes "tree_ok s" "fs_resolve_parent path s = Inr (p, name)"
  shows "(\<exists>d. p = Some d \<and> is_dir s d) \<and> seg_ok name"
proof -
  obtain i where i: "(if path \<noteq> [] \<and> hd path = CHR ''/'' then g_root s else g_cwd s) = Some i" "is_dir s i"
    using assms(1) by (rule start_is_dir)
  show ?thesis
    using assms(2) unfolding fs_resolve_parent_def i(1) by (rule resolve_parent_live [OF assms(1) i(2)])
qed

subsection \<open>The tree under the elementary changes\<close>

text \<open>Only the live nodes and the two directory pointers matter.\<close>

lemma tree_ok_cong:
  assumes "tree_ok s" "g_root t = g_root s" "g_cwd t = g_cwd s"
    and "\<And>i. i < FS_MAX_NODES \<Longrightarrow> node_used (g_nodes t i) = node_used (g_nodes s i)"
    and "\<And>i. live s i \<Longrightarrow> node_type (g_nodes t i) = node_type (g_nodes s i) \<and>
      node_name (g_nodes t i) = node_name (g_nodes s i) \<and>
      node_parent (g_nodes t i) = node_parent (g_nodes s i) \<and> node_children (g_nodes t i) = node_children (g_nodes s i)"
  shows "tree_ok t"
proof -
  have live: "live t i = live s i" for i using assms(4) by (auto simp: live_def)
  have dir: "is_dir t i = is_dir s i" and fil: "is_file t i = is_file s i" for i
    using assms(5) by (auto simp: is_dir_def is_file_def live)
  have ok: "node_ok t i" if i: "live s i" for i
  proof -
    note n = tree_ok_node [OF assms(1) i, unfolded node_ok_def]
    have c: "live s c" if "c \<in> set (node_children (g_nodes s i))" for c using n that by simp
    have p: "node_children (g_nodes t p) = node_children (g_nodes s p)" if "is_dir s p" for p
      using assms(5) that by (simp add: is_dir_def)
    have "sorted_wrt (\<lambda>c d. \<not> fs_name_eq (node_name (g_nodes t c)) (node_name (g_nodes t d))) (node_children (g_nodes s i))
      = sorted_wrt (\<lambda>c d. \<not> fs_name_eq (node_name (g_nodes s c)) (node_name (g_nodes s d))) (node_children (g_nodes s i))"
      using assms(5) [OF c] by (intro sorted_wrt_cong_set) simp_all
    then show ?thesis using n assms(5) [OF i] assms(5) [OF c] p unfolding node_ok_def live dir fil assms(2) by auto
  qed
  have "\<forall>i p. live s i \<and> node_parent (g_nodes t i) = Some p \<longrightarrow> rank p < rank i"
    if "\<forall>i p. live s i \<and> node_parent (g_nodes s i) = Some p \<longrightarrow> rank p < rank i" for rank :: "nat \<Rightarrow> nat"
    using that assms(5) by (metis (no_types))
  then show ?thesis using assms(1) ok unfolding tree_ok_def live dir assms(2,3) by blast
qed

text \<open>A new, childless node under a directory with room for it.\<close>

lemma tree_ok_add:
  assumes ok: "tree_ok s" and p: "is_dir s p" "length (node_children (g_nodes s p)) < FS_MAX_CHILDREN"
    and n: "n < FS_MAX_NODES" "\<not> node_used (g_nodes s n)"
    and new: "node_used new" "node_type new \<in> {FS_NODE_DIR, FS_NODE_FILE}" "seg_ok (node_name new)"
      "node_parent new = Some p" "node_children new = []"
    and fresh: "\<forall>c \<in> set (node_children (g_nodes s p)). \<not> fs_name_eq (node_name (g_nodes s c)) (node_name new)"
    and t: "g_nodes t = (g_nodes s)(n := new, p := (g_nodes s p)\<lparr>node_children := node_children (g_nodes s p) @ [n]\<rparr>)"
      "g_root t = g_root s" "g_cwd t = g_cwd s"
  shows "tree_ok t"
proof -
  have np: "n \<noteq> p" using n p(1) by (auto simp: is_dir_def live_def)
  have live: "live t i \<longleftrightarrow> live s i \<or> i = n" for i
    using n(1) new(1) p(1) by (auto simp: t live_def is_dir_def)
  have nl: "\<not> live s n" using n(2) by (simp add: live_def)
  have old: "node_type (g_nodes t i) = node_type (g_nodes s i)" "node_name (g_nodes t i) = node_name (g_nodes s i)"
    "node_parent (g_nodes t i) = node_parent (g_nodes s i)"
    "node_children (g_nodes t i) = node_children (g_nodes s i) @ (if i = p then [n] else [])" if "live s i" for i
    using that nl by (auto simp: t)
  have nn: "g_nodes t n = new" using np by (simp add: t)
  have dir: "is_dir t i" if "is_dir s i" for i using that old(1) by (auto simp: is_dir_def live)
  have fil: "is_file t i" if "is_file s i" for i using that old(1) by (auto simp: is_file_def live)
  have chl: "live s c \<and> c \<noteq> n" if "live s i" "c \<in> set (node_children (g_nodes s i))" for c i
    using tree_ok_node [OF ok that(1)] that(2) nl by (auto simp: node_ok_def)
  have ok_old: "node_ok t i" if i: "live s i" for i
  proof -
    note k = tree_ok_node [OF ok i, unfolded node_ok_def]
    have srt: "sorted_wrt (\<lambda>c d. \<not> fs_name_eq (node_name (g_nodes t c)) (node_name (g_nodes t d))) (node_children (g_nodes s i))"
      using k chl [OF i] old(2) sorted_wrt_cong_set [of "node_children (g_nodes s i)"
        "\<lambda>c d. \<not> fs_name_eq (node_name (g_nodes t c)) (node_name (g_nodes t d))"
        "\<lambda>c d. \<not> fs_name_eq (node_name (g_nodes s c)) (node_name (g_nodes s d))"] by simp
    show ?thesis
      unfolding node_ok_def old [OF i] t(2)
      using k chl [OF i] srt fresh p dir fil old nn new(4)
      by (auto simp: sorted_wrt_append live is_dir_def [of s])
  qed
  have "g_root s \<noteq> Some n" using ok nl by (auto simp: tree_ok_def is_dir_def)
  then have ok_new: "node_ok t n"
    unfolding node_ok_def nn t(2) using new dir [OF p(1)] old(4) [of p] p(1) np
    by (auto simp: is_dir_def is_file_def live nn)
  obtain rank :: "nat \<Rightarrow> nat" where rank: "\<And>i p. live s i \<Longrightarrow> node_parent (g_nodes s i) = Some p \<Longrightarrow> rank p < rank i"
    using ok by (auto simp: tree_ok_def)
  have "node_parent (g_nodes s i) \<noteq> Some n" if "live s i" for i
    using tree_ok_node [OF ok that] nl by (auto simp: node_ok_def is_dir_def)
  then have "\<forall>i q. live t i \<and> node_parent (g_nodes t i) = Some q \<longrightarrow> (rank(n := Suc (rank p))) q < (rank(n := Suc (rank p))) i"
    using rank old(3) nn new(4) np nl by (auto simp: live)
  then show ?thesis
    using ok ok_old ok_new dir unfolding tree_ok_def live t(2,3) by blast
qed

text \<open>A childless node, neither root nor working directory, taken out of its parent.\<close>

lemma tree_ok_remove:
  assumes ok: "tree_ok s" and n: "live s n" "node_children (g_nodes s n) = []" "node_parent (g_nodes s n) = Some p"
      "g_cwd s \<noteq> Some n"
    and t: "g_nodes t = (g_nodes s)(p := (g_nodes s p)\<lparr>node_children := remove1 n (node_children (g_nodes s p))\<rparr>, n := zero_node)"
      "g_root t = g_root s" "g_cwd t = g_cwd s"
  shows "tree_ok t"
proof -
  have nr: "g_root s \<noteq> Some n" and p: "is_dir s p" and np: "n \<noteq> p"
    using tree_ok_node [OF ok n(1)] n(2,3) by (auto simp: node_ok_def)
  have live: "live t i \<longleftrightarrow> live s i \<and> i \<noteq> n" for i
    using p by (auto simp: t live_def is_dir_def zero_node_def)
  have old: "node_type (g_nodes t i) = node_type (g_nodes s i)" "node_name (g_nodes t i) = node_name (g_nodes s i)"
    "node_parent (g_nodes t i) = node_parent (g_nodes s i)"
    "node_children (g_nodes t i) = remove1 n (node_children (g_nodes s i))" if "live t i" for i
  proof -
    show "node_children (g_nodes t i) = remove1 n (node_children (g_nodes s i))"
    proof (cases "i = p")
      case False
      then have "n \<notin> set (node_children (g_nodes s i))"
        using tree_ok_node [OF ok, of i] that n(3) by (auto simp: live node_ok_def)
      then show ?thesis using that False by (simp add: t live remove1_idem)
    qed (use np in \<open>simp add: t\<close>)
  qed (use that live in \<open>simp_all add: t\<close>)
  have dir: "is_dir t i \<longleftrightarrow> is_dir s i \<and> i \<noteq> n" and fil: "is_file t i \<longleftrightarrow> is_file s i \<and> i \<noteq> n" for i
    using old(1) by (auto simp: is_dir_def is_file_def live)
  have up: "node_parent (g_nodes s i) \<noteq> Some n" if "live s i" for i
    using tree_ok_node [OF ok that] n(2) by (auto simp: node_ok_def)
  have node: "node_ok t i" if i: "live t i" for i
  proof -
    have li: "live s i" "i \<noteq> n" using i by (simp_all add: live)
    note k = tree_ok_node [OF ok li(1), unfolded node_ok_def]
    have c: "live t c" if "c \<in> set (remove1 n (node_children (g_nodes s i)))" for c
      using k that by (auto simp: live set_remove1_eq)
    have srt: "sorted_wrt (\<lambda>c d. \<not> fs_name_eq (node_name (g_nodes t c)) (node_name (g_nodes t d))) (remove1 n (node_children (g_nodes s i)))"
      using sorted_wrt_remove1 [of _ "node_children (g_nodes s i)" n] k sorted_wrt_cong_set [of "remove1 n (node_children (g_nodes s i))"
        "\<lambda>c d. \<not> fs_name_eq (node_name (g_nodes t c)) (node_name (g_nodes t d))"
        "\<lambda>c d. \<not> fs_name_eq (node_name (g_nodes s c)) (node_name (g_nodes s d))"] old(2) [OF c] by simp
    show ?thesis
      unfolding node_ok_def old [OF i] t(2) dir fil live
      using k srt up [OF li(1)] li(2) c old(3) [OF c] old(4)
      by (auto simp: set_remove1_eq live dir is_dir_def [of s] length_remove1)
  qed
  have "\<forall>i q. live t i \<and> node_parent (g_nodes t i) = Some q \<longrightarrow> rank q < rank i"
    if "\<forall>i p. live s i \<and> node_parent (g_nodes s i) = Some p \<longrightarrow> rank p < rank i" for rank :: "nat \<Rightarrow> nat"
    using that old(3) live by metis
  then show ?thesis using ok nr n(4) node unfolding tree_ok_def dir t(2,3) by (metis (no_types, lifting))
qed

subsection \<open>The data slots under the elementary changes\<close>

lemma slots_okD:
  assumes "slots_ok s"
  shows "is_file s i \<Longrightarrow> file_ok s i"
    "is_file s i \<Longrightarrow> is_file s j \<Longrightarrow> node_data_slot (g_nodes s i) = node_data_slot (g_nodes s j) \<Longrightarrow>
      node_data_slot (g_nodes s i) \<noteq> RAMFS_NO_DATA_SLOT \<Longrightarrow> i = j"
    "k < RAMFS_DATA_SLOT_CAP \<Longrightarrow> slot_used (g_data_slots s k) \<Longrightarrow>
      \<exists>i. is_file s i \<and> node_data_slot (g_nodes s i) = of_nat k"
  using assms by (simp_all add: slots_ok_def)

lemma file_ok_slot:
  assumes "file_ok s i"
  shows "node_data_slot (g_nodes s i) = RAMFS_NO_DATA_SLOT \<and> node_size (g_nodes s i) = 0 \<or>
    node_data_slot (g_nodes s i) \<noteq> RAMFS_NO_DATA_SLOT \<and> unat (node_data_slot (g_nodes s i)) < RAMFS_DATA_SLOT_CAP \<and>
    slot_used (g_data_slots s (unat (node_data_slot (g_nodes s i))))"
proof -
  have "unat (node_data_slot (g_nodes s i)) < RAMFS_DATA_SLOT_CAP \<Longrightarrow> node_data_slot (g_nodes s i) \<noteq> RAMFS_NO_DATA_SLOT"
    by auto
  then show ?thesis using assms by (auto simp: file_ok_def)
qed

lemma unat_slot_index: "k < RAMFS_DATA_SLOT_CAP \<Longrightarrow> unat (of_nat k :: u32) = k"
  by (simp add: unat_of_nat_u32)

lemma slot_index_ne_none:
  assumes "k < RAMFS_DATA_SLOT_CAP"
  shows "(of_nat k :: u32) \<noteq> RAMFS_NO_DATA_SLOT"
proof
  assume "(of_nat k :: u32) = RAMFS_NO_DATA_SLOT"
  from arg_cong [OF this, of unat] show False using assms by (simp add: unat_slot_index)
qed

lemma slots_ok_new:
  assumes "slots_ok s" "g_data_slots t = g_data_slots s" "\<not> is_file s n"
    and "\<And>i. i \<noteq> n \<Longrightarrow> is_file t i = is_file s i"
    and "\<And>i. is_file s i \<Longrightarrow> node_data_slot (g_nodes t i) = node_data_slot (g_nodes s i) \<and> node_size (g_nodes t i) = node_size (g_nodes s i)"
    and "is_file t n \<Longrightarrow> node_data_slot (g_nodes t n) = RAMFS_NO_DATA_SLOT \<and> node_size (g_nodes t n) = 0"
  shows "slots_ok t"
proof -
  have f: "is_file t i \<Longrightarrow> is_file s i \<or> i = n" for i using assms(4) by blast
  have g: "is_file s i \<Longrightarrow> is_file t i" for i using assms(3,4) by (cases "i = n") auto
  show ?thesis
    unfolding slots_ok_def
  proof (intro conjI allI impI)
    fix i assume i: "is_file t i"
    show "file_ok t i"
      using f [OF i] assms(5,6) i slots_okD(1) [OF assms(1), of i] by (auto simp: file_ok_def assms(2))
  next
    fix i j assume a: "is_file t i \<and> is_file t j \<and> node_data_slot (g_nodes t i) = node_data_slot (g_nodes t j) \<and>
      node_data_slot (g_nodes t i) \<noteq> RAMFS_NO_DATA_SLOT"
    then have "i \<noteq> n" "j \<noteq> n" using assms(6) by auto
    then have "is_file s i" "is_file s j" using a f by blast+
    then show "i = j" using slots_okD(2) [OF assms(1)] a assms(5) by metis
  next
    fix k assume "k < RAMFS_DATA_SLOT_CAP" "slot_used (g_data_slots t k)"
    then show "\<exists>i. is_file t i \<and> node_data_slot (g_nodes t i) = of_nat k"
      using slots_okD(3) [OF assms(1)] g assms(2,5) by metis
  qed
qed

text \<open>A file gives its slot back: the truncation on open and \<open>unlink\<close>.\<close>

lemma slots_ok_drop:
  assumes ok: "slots_ok s" "is_file s n"
    and sl: "g_data_slots t = (if node_data_slot (g_nodes s n) = RAMFS_NO_DATA_SLOT then g_data_slots s
      else (g_data_slots s)(unat (node_data_slot (g_nodes s n)) := zero_slot))"
    and f: "\<And>i. i \<noteq> n \<Longrightarrow> is_file t i = is_file s i"
    and o: "\<And>i. i \<noteq> n \<Longrightarrow> is_file s i \<Longrightarrow> node_data_slot (g_nodes t i) = node_data_slot (g_nodes s i) \<and> node_size (g_nodes t i) = node_size (g_nodes s i)"
    and new: "is_file t n \<Longrightarrow> node_data_slot (g_nodes t n) = RAMFS_NO_DATA_SLOT \<and> node_size (g_nodes t n) = 0"
  shows "slots_ok t"
  unfolding slots_ok_def
proof (intro conjI allI impI)
  fix i assume i: "is_file t i"
  show "file_ok t i"
  proof (cases "i = n")
    case False
    then have s: "is_file s i" using f i by blast
    consider "node_data_slot (g_nodes s i) = RAMFS_NO_DATA_SLOT" "node_size (g_nodes s i) = 0"
      | "node_data_slot (g_nodes s i) \<noteq> RAMFS_NO_DATA_SLOT" "node_data_slot (g_nodes s i) \<noteq> node_data_slot (g_nodes s n)"
      using slots_okD(1) [OF ok(1) s, THEN file_ok_slot] slots_okD(2) [OF ok(1) s ok(2)] False by metis
    then have "g_data_slots t (unat (node_data_slot (g_nodes s i))) = g_data_slots s (unat (node_data_slot (g_nodes s i))) \<or>
      node_data_slot (g_nodes s i) = RAMFS_NO_DATA_SLOT \<and> node_size (g_nodes s i) = 0"
      by cases (auto simp: sl dest: unsigned_word_eqI)
    then show ?thesis
      using o [OF False s] slots_okD(1) [OF ok(1) s] by (auto simp: file_ok_def)
  qed (use new i in \<open>simp add: file_ok_def\<close>)
next
  fix i j assume a: "is_file t i \<and> is_file t j \<and> node_data_slot (g_nodes t i) = node_data_slot (g_nodes t j) \<and>
    node_data_slot (g_nodes t i) \<noteq> RAMFS_NO_DATA_SLOT"
  then have n: "i \<noteq> n" "j \<noteq> n" using new by auto
  then have "is_file s i" "is_file s j" using a f by blast+
  then show "i = j" using slots_okD(2) [OF ok(1)] a o n by metis
next
  fix k assume k: "k < RAMFS_DATA_SLOT_CAP" "slot_used (g_data_slots t k)"
  then have "slot_used (g_data_slots s k)" and kn: "node_data_slot (g_nodes s n) = RAMFS_NO_DATA_SLOT \<or> k \<noteq> unat (node_data_slot (g_nodes s n))"
    by (auto simp: sl zero_slot_def split: if_splits)
  then obtain i where i: "is_file s i" "node_data_slot (g_nodes s i) = of_nat k"
    using slots_okD(3) [OF ok(1) k(1)] by blast
  have "i \<noteq> n" using kn i slot_index_ne_none [OF k(1)] unat_slot_index [OF k(1)] by metis
  then show "\<exists>i. is_file t i \<and> node_data_slot (g_nodes t i) = of_nat k" using i f o by metis
qed

text \<open>A file stores bytes, in the slot it owns or in a fresh one.\<close>

lemma slots_ok_store:
  assumes ok: "slots_ok s" "is_file s n" and k: "k < RAMFS_DATA_SLOT_CAP"
    and own: "node_data_slot (g_nodes s n) = of_nat k \<and> slot_used (g_data_slots s k) \<or>
      node_data_slot (g_nodes s n) = RAMFS_NO_DATA_SLOT \<and> \<not> slot_used (g_data_slots s k)"
    and f: "\<And>i. is_file t i = is_file s i"
    and o: "\<And>i. i \<noteq> n \<Longrightarrow> is_file s i \<Longrightarrow> node_data_slot (g_nodes t i) = node_data_slot (g_nodes s i) \<and> node_size (g_nodes t i) = node_size (g_nodes s i)"
    and sl: "\<And>j. j \<noteq> k \<Longrightarrow> g_data_slots t j = g_data_slots s j"
    and new: "node_data_slot (g_nodes t n) = of_nat k" "slot_used (g_data_slots t k)"
      "unat (node_size (g_nodes t n)) \<le> RAMFS_DATA_SLOT_SIZE"
      "\<And>j. unat (node_size (g_nodes t n)) \<le> j \<Longrightarrow> j < RAMFS_DATA_SLOT_SIZE \<Longrightarrow> slot_data (g_data_slots t k) j = CHR 0x00"
  shows "slots_ok t"
proof -
  note uk = unat_slot_index [OF k] slot_index_ne_none [OF k]
  have other: "unat (node_data_slot (g_nodes s i)) \<noteq> k" if i: "is_file s i" "i \<noteq> n" for i
  proof
    assume e: "unat (node_data_slot (g_nodes s i)) = k"
    then have w: "node_data_slot (g_nodes s i) = of_nat k" by auto
    with slots_okD(1) [OF ok(1) i(1)] uk have "slot_used (g_data_slots s k)" by (auto simp: file_ok_def)
    with own have "node_data_slot (g_nodes s i) = node_data_slot (g_nodes s n)" using w by auto
    then show False using slots_okD(2) [OF ok(1) i(1) ok(2)] w uk(2) i(2) by auto
  qed
  show ?thesis
    unfolding slots_ok_def
  proof (intro conjI allI impI)
    fix i assume "is_file t i"
    then have i: "is_file s i" by (simp add: f)
    show "file_ok t i"
    proof (cases "i = n")
      case True
      then show ?thesis using new k uk by (simp add: file_ok_def)
    next
      case False
      then show ?thesis
        using slots_okD(1) [OF ok(1) i] o [OF False i] sl [OF other [OF i False]] by (simp add: file_ok_def)
    qed
  next
    fix i j assume a: "is_file t i \<and> is_file t j \<and> node_data_slot (g_nodes t i) = node_data_slot (g_nodes t j) \<and>
      node_data_slot (g_nodes t i) \<noteq> RAMFS_NO_DATA_SLOT"
    then have ij: "is_file s i" "is_file s j" by (simp_all add: f)
    show "i = j"
    proof (cases "i = n \<or> j = n")
      case True
      then have "unat (node_data_slot (g_nodes t i)) = k" using a new(1) uk(1) by auto
      then show ?thesis using True a new(1) uk(1) o other ij by metis
    next
      case False
      then show ?thesis using slots_okD(2) [OF ok(1) ij] a o ij by metis
    qed
  next
    fix j assume j: "j < RAMFS_DATA_SLOT_CAP" "slot_used (g_data_slots t j)"
    show "\<exists>i. is_file t i \<and> node_data_slot (g_nodes t i) = of_nat j"
    proof (cases "j = k")
      case True
      then show ?thesis using f ok(2) new(1) by blast
    next
      case False
      then obtain i where i: "is_file s i" "node_data_slot (g_nodes s i) = of_nat j"
        using slots_okD(3) [OF ok(1) j(1)] j(2) sl by auto
      have "i \<noteq> n" using own i(2) False unat_slot_index [OF j(1)] uk slot_index_ne_none [OF j(1)] by metis
      then show ?thesis using i f o by metis
    qed
  qed
qed

end
