(* ===== verification/Ramfs_Ops.thy ===== *)
theory Ramfs_Ops
  imports Ramfs_Inv
begin

text \<open>
  Every operation of \<open>Ramfs_Core\<close> keeps the invariant of \<open>Ramfs_Inv\<close>, whatever its arguments are;
  so every sequence of calls after the initialisation does.
\<close>

subsection \<open>Creating a node\<close>

lemma ramfs_inv_dirty [simp]: "ramfs_inv (s\<lparr>g_dirty := b\<rparr>) = ramfs_inv s"
  unfolding ramfs_inv_def tree_ok_def slots_ok_def node_ok_def file_ok_def is_dir_def is_file_def live_def
  by simp

lemma fs_alloc_node_Some:
  assumes "fs_alloc_node s = Some (n, t)"
  shows "n < FS_MAX_NODES" "\<not> node_used (g_nodes s n)" "\<And>i. i < n \<Longrightarrow> node_used (g_nodes s i)"
    "t = upd_node n (\<lambda>_. zero_node\<lparr>node_used := True, node_data_slot := RAMFS_NO_DATA_SLOT\<rparr>) s"
  using assms by (auto simp: fs_alloc_node_def find_Some_iff split: option.splits)

definition new_node :: "nat \<Rightarrow> string \<Rightarrow> u8 \<Rightarrow> fs_node" where
  "new_node p name type = \<lparr>node_used = True, node_type = type, node_name = name, node_parent = Some p,
     node_children = [], node_data_slot = RAMFS_NO_DATA_SLOT, node_size = 0\<rparr>"

definition add_node :: "nat \<Rightarrow> nat \<Rightarrow> string \<Rightarrow> u8 \<Rightarrow> ramfs \<Rightarrow> ramfs" where
  "add_node n p name type s = s\<lparr>g_nodes := (g_nodes s)(n := new_node p name type,
     p := (g_nodes s p)\<lparr>node_children := node_children (g_nodes s p) @ [n]\<rparr>)\<rparr>"

text \<open>A failed creation may have touched one unused node; a successful one adds a node.\<close>

lemma fs_create_node_cases:
  assumes "fs_create_node (Some p) name type s = (r, t)" "is_dir s p" "seg_ok name"
  obtains (err) e where "r = Inl e" "t = s \<or> (\<exists>n x. \<not> node_used (g_nodes s n) \<and> \<not> node_used x \<and> t = s\<lparr>g_nodes := (g_nodes s)(n := x)\<rparr>)"
  | (ok) n where "r = Inr n" "n < FS_MAX_NODES" "\<not> node_used (g_nodes s n)" "fs_find_child (Some p) name s = None"
    "length (node_children (g_nodes s p)) < FS_MAX_CHILDREN" "t = add_node n p name type s"
    "\<forall>i < n. node_used (g_nodes s i)"
proof -
  have d: "node_type (g_nodes s p) = FS_NODE_DIR" "node_used (g_nodes s p)" using assms(2) by (simp_all add: is_dir_def live_def)
  have nm: "fs_name_copy name = Inr name" using assms(3) by (simp add: seg_ok_def fs_name_copy_def)
  show ?thesis
  proof (cases "fs_find_child (Some p) name s = None \<and> fs_alloc_node s \<noteq> None")
    case False
    then show ?thesis using assms(1) d err by (auto simp: fs_create_node_def split: option.splits if_splits)
  next
    case True
    then obtain n s1 where a: "fs_alloc_node s = Some (n, s1)" by auto
    note al = fs_alloc_node_Some [OF a]
    have np: "n \<noteq> p" using al(2) d by auto
    show ?thesis
    proof (cases "length (node_children (g_nodes s p)) < FS_MAX_CHILDREN")
      case True': True
      have "(r, t) = (Inr n, add_node n p name type s)"
        using assms(1) True True' d np
        by (simp add: fs_create_node_def a nm fs_attach_child_def al(4) Let_def add_node_def new_node_def zero_node_def fun_upd_twist)
      then show ?thesis using ok [of n] True True' al by simp
    next
      case False
      let ?x = "zero_node\<lparr>node_data_slot := RAMFS_NO_DATA_SLOT, node_name := name, node_type := type\<rparr>"
      have "r = Inl FS_ERR_NO_SPACE" "t = s\<lparr>g_nodes := (g_nodes s)(n := ?x)\<rparr>" "\<not> node_used ?x"
        using assms(1) True False d np
        by (auto simp: fs_create_node_def a nm fs_attach_child_def al(4) Let_def zero_node_def)
      then show ?thesis using err al(2) by blast
    qed
  qed
qed

lemma ramfs_inv_idle:
  assumes "ramfs_inv s" "\<not> node_used (g_nodes s n)" "\<not> node_used x"
  shows "ramfs_inv (s\<lparr>g_nodes := (g_nodes s)(n := x)\<rparr>)" (is "ramfs_inv ?t")
proof -
  have "tree_ok ?t" by (rule tree_ok_cong [of s]) (use assms in \<open>auto simp: ramfs_inv_def live_def\<close>)
  moreover have "is_file ?t i = is_file s i" for i using assms by (auto simp: is_file_def live_def)
  then have "slots_ok ?t"
    by (intro slots_ok_new [of s ?t n]) (use assms in \<open>auto simp: ramfs_inv_def is_file_def live_def\<close>)
  ultimately show ?thesis by (simp add: ramfs_inv_def)
qed

lemma find_child_None:
  "is_dir s p \<Longrightarrow> fs_find_child (Some p) name s = None \<longleftrightarrow>
    (\<forall>c \<in> set (node_children (g_nodes s p)). \<not> fs_name_eq (node_name (g_nodes s c)) name)"
  by (auto simp: fs_find_child_def is_dir_def find_None_iff)

lemma ramfs_inv_add:
  assumes "ramfs_inv s" "is_dir s p" "seg_ok name" "type \<in> {FS_NODE_DIR, FS_NODE_FILE}"
    "n < FS_MAX_NODES" "\<not> node_used (g_nodes s n)" "fs_find_child (Some p) name s = None"
    "length (node_children (g_nodes s p)) < FS_MAX_CHILDREN"
  shows "ramfs_inv (add_node n p name type s)" (is "ramfs_inv ?t")
proof -
  have np: "n \<noteq> p" using assms(2,6) by (auto simp: is_dir_def live_def)
  have "tree_ok ?t"
    by (rule tree_ok_add [of s p n "new_node p name type"])
      (use assms find_child_None in \<open>simp_all add: ramfs_inv_def add_node_def new_node_def\<close>)
  moreover have "slots_ok ?t"
    by (rule slots_ok_new [of s ?t n])
      (use assms np in \<open>auto simp: ramfs_inv_def add_node_def new_node_def is_file_def is_dir_def live_def\<close>)
  ultimately show ?thesis by (simp add: ramfs_inv_def)
qed

lemma fs_create_node_inv:
  assumes "fs_create_node (Some p) name type s = (r, t)" "is_dir s p" "seg_ok name" "ramfs_inv s"
    "type \<in> {FS_NODE_DIR, FS_NODE_FILE}"
  shows "ramfs_inv t"
  using assms(1-3)
proof (cases rule: fs_create_node_cases)
  case err
  then show ?thesis using assms(4) ramfs_inv_idle by auto
next
  case (ok n)
  then show ?thesis using ramfs_inv_add assms by simp
qed

subsection \<open>Initialisation, directories and imports\<close>

text \<open>The file system that the initialisation makes of any state: an empty root directory.\<close>

definition boot_ramfs :: ramfs where
  "boot_ramfs = \<lparr>g_nodes = (\<lambda>_. zero_node)(0 := zero_node\<lparr>node_used := True, node_type := FS_NODE_DIR, node_data_slot := RAMFS_NO_DATA_SLOT\<rparr>),
    g_data_slots = (\<lambda>_. zero_slot), g_root = Some 0, g_cwd = Some 0, g_dirty = False\<rparr>"

lemma ramfs_core_init_ok: "ramfs_core_init s = (Inr (), boot_ramfs) \<and> ramfs_inv boot_ramfs"
proof -
  note that = boot_ramfs_def
  have "List.find (\<lambda>i. \<not> node_used ((\<lambda>_. zero_node) i)) [0..<FS_MAX_NODES] = Some 0"
    by (simp add: upt_conv_Cons zero_node_def)
  then have "ramfs_core_init s = (Inr (), boot_ramfs)"
    unfolding that by (simp add: ramfs_core_init_def ramfs_core_reset_empty_def fs_alloc_node_def ramfs_clear_data_slots_def Let_def zero_node_def)
  moreover have "tree_ok boot_ramfs"
    by (auto simp: that tree_ok_def node_ok_def is_dir_def live_def zero_node_def)
  moreover have "slots_ok boot_ramfs"
    by (auto simp: that slots_ok_def is_file_def live_def zero_node_def zero_slot_def)
  ultimately show ?thesis by (simp add: ramfs_inv_def)
qed

lemma ramfs_core_init_inv: "ramfs_inv (snd (ramfs_core_init s))"
  using ramfs_core_init_ok [of s] by simp

lemma boot_ramfs_inv: "ramfs_inv boot_ramfs"
  using ramfs_core_init_ok by simp

lemma ramfs_invD: "ramfs_inv s \<Longrightarrow> tree_ok s" "ramfs_inv s \<Longrightarrow> slots_ok s"
  by (simp_all add: ramfs_inv_def)

lemma resolve_parent_inv:
  assumes "ramfs_inv s" "fs_resolve_parent path s = Inr (p, name)"
  obtains d where "p = Some d" "is_dir s d" "seg_ok name"
  using resolve_parent_path_live [OF ramfs_invD(1) [OF assms(1)] assms(2)] by blast

lemma resolve_path_inv:
  "ramfs_inv s \<Longrightarrow> fs_resolve_path path s = Inr n \<Longrightarrow> live s n"
  using resolve_path_live ramfs_invD(1) by blast

lemma ramfs_core_import_node_inv:
  assumes "ramfs_inv s" "type \<in> {FS_NODE_DIR, FS_NODE_FILE}"
  shows "ramfs_inv (snd (ramfs_core_import_node path type s))"
proof (cases "fs_resolve_parent path s")
  case (Inr pn)
  obtain p name where pn: "pn = (p, name)" by fastforce
  then obtain d where d: "p = Some d" "is_dir s d" "seg_ok name" using assms(1) Inr by (auto elim: resolve_parent_inv)
  obtain r t where c: "fs_create_node p name type s = (r, t)" by fastforce
  then have "ramfs_inv t" using fs_create_node_inv d assms by simp
  then show ?thesis using assms(1) Inr pn c by (auto simp: ramfs_core_import_node_def split: option.split sum.split)
qed (use assms in \<open>simp add: ramfs_core_import_node_def\<close>)

lemma ramfs_core_make_dir_inv:
  assumes "ramfs_inv s"
  shows "ramfs_inv (snd (ramfs_core_make_dir path s))"
proof (cases "fs_resolve_parent path s")
  case (Inr pn)
  obtain p name where pn: "pn = (p, name)" by fastforce
  then obtain d where d: "p = Some d" "is_dir s d" "seg_ok name" using assms(1) Inr by (auto elim: resolve_parent_inv)
  obtain r t where c: "fs_create_node p name FS_NODE_DIR s = (r, t)" by fastforce
  then have "ramfs_inv t" using fs_create_node_inv d assms by simp
  then show ?thesis using Inr pn c by (auto simp: ramfs_core_make_dir_def split: sum.split)
qed (use assms in \<open>simp add: ramfs_core_make_dir_def\<close>)

lemma cwd_simps [simp]:
  "live (s\<lparr>g_cwd := c\<rparr>) = live s" "is_dir (s\<lparr>g_cwd := c\<rparr>) = is_dir s" "is_file (s\<lparr>g_cwd := c\<rparr>) = is_file s"
  "node_ok (s\<lparr>g_cwd := c\<rparr>) = node_ok s" "slots_ok (s\<lparr>g_cwd := c\<rparr>) = slots_ok s"
  by (simp_all add: fun_eq_iff live_def is_dir_def is_file_def node_ok_def slots_ok_def file_ok_def)

lemma ramfs_core_change_dir_inv:
  assumes "ramfs_inv s"
  shows "ramfs_inv (snd (ramfs_core_change_dir path s))"
proof (cases "fs_resolve_path path s")
  case (Inr n)
  have "live s n" using resolve_path_inv assms Inr by blast
  then have "ramfs_inv (s\<lparr>g_cwd := Some n\<rparr>)" if "node_type (g_nodes s n) = FS_NODE_DIR"
    using assms that by (auto simp: ramfs_inv_def tree_ok_def is_dir_def)
  then show ?thesis using Inr assms by (simp add: ramfs_core_change_dir_def)
qed (use assms in \<open>simp add: ramfs_core_change_dir_def\<close>)

subsection \<open>Opening with truncation, removing\<close>

lemma free_data_slot_slots:
  assumes "file_ok s n"
  shows "g_data_slots (if node_data_slot (g_nodes s n) \<noteq> RAMFS_NO_DATA_SLOT
      then ramfs_free_data_slot (node_data_slot (g_nodes s n)) s else s) =
    (if node_data_slot (g_nodes s n) = RAMFS_NO_DATA_SLOT then g_data_slots s
     else (g_data_slots s)(unat (node_data_slot (g_nodes s n)) := zero_slot))"
  using file_ok_slot [OF assms] by (auto simp: ramfs_free_data_slot_def)

lemma free_data_slot_same [simp]:
  "g_nodes (ramfs_free_data_slot k s) = g_nodes s" "g_root (ramfs_free_data_slot k s) = g_root s"
  "g_cwd (ramfs_free_data_slot k s) = g_cwd s" "g_dirty (ramfs_free_data_slot k s) = g_dirty s"
  by (simp_all add: ramfs_free_data_slot_def)

lemma open_existing_inv:
  assumes "ramfs_inv s" "live s n"
  shows "ramfs_inv (snd (open_existing n flags s))"
proof (cases "is_file s n")
  case True
  note fok = slots_okD(1) [OF ramfs_invD(2) [OF assms(1)] True]
  let ?s1 = "if node_data_slot (g_nodes s n) \<noteq> RAMFS_NO_DATA_SLOT
      then ramfs_free_data_slot (node_data_slot (g_nodes s n)) s else s"
  let ?t = "upd_node n (\<lambda>n. n\<lparr>node_data_slot := RAMFS_NO_DATA_SLOT, node_size := 0\<rparr>) ?s1"
  have same: "g_nodes ?s1 = g_nodes s" "g_root ?s1 = g_root s" "g_cwd ?s1 = g_cwd s" by simp_all
  have "tree_ok ?t"
    by (rule tree_ok_cong [of s]) (use ramfs_invD(1) [OF assms(1)] in \<open>simp_all only: same ramfs.simps fs_node.simps, simp_all\<close>)
  moreover have "slots_ok ?t"
  proof (rule slots_ok_drop [OF ramfs_invD(2) [OF assms(1)] True])
    show "g_data_slots ?t = (if node_data_slot (g_nodes s n) = RAMFS_NO_DATA_SLOT then g_data_slots s
      else (g_data_slots s)(unat (node_data_slot (g_nodes s n)) := zero_slot))"
      using free_data_slot_slots [OF fok] by simp
  qed (simp_all add: is_file_def live_def)
  ultimately have "ramfs_inv ?t" by (simp add: ramfs_inv_def)
  then show ?thesis using assms by (simp add: open_existing_def Let_def)
next
  case False
  then show ?thesis using assms by (simp add: open_existing_def is_file_def)
qed

lemma ramfs_core_open_inv:
  assumes "ramfs_inv s"
  shows "ramfs_inv (snd (ramfs_core_open path flags s))"
proof (cases "fs_resolve_path path s")
  case (Inr n)
  then show ?thesis using assms open_existing_inv resolve_path_inv by (simp add: ramfs_core_open_def)
next
  case (Inl rc)
  show ?thesis
  proof (cases "fs_resolve_parent path s")
    case (Inr pn)
    obtain p name where pn: "pn = (p, name)" by fastforce
    then obtain d where d: "p = Some d" "is_dir s d" "seg_ok name" using assms(1) Inr by (auto elim: resolve_parent_inv)
    obtain r t where c: "fs_create_node (Some d) name FS_NODE_FILE s = (r, t)" by fastforce
    then have t: "ramfs_inv t" using fs_create_node_inv d assms by simp
    have "live t n" if "r = Inr n" for n
      using c d(2,3) by (cases rule: fs_create_node_cases)
        (use that d(2) in \<open>auto simp: add_node_def new_node_def live_def is_dir_def\<close>)
    then have "ramfs_inv (snd (open_existing n flags (t\<lparr>g_dirty := True\<rparr>)))" if "r = Inr n" for n
      using t that by (intro open_existing_inv) (simp_all add: live_def)
    then show ?thesis using Inl Inr pn c t d(1) assms by (auto simp: ramfs_core_open_def split: sum.split)
  qed (use Inl assms in \<open>simp add: ramfs_core_open_def\<close>)
qed

lemma node_kind: "tree_ok s \<Longrightarrow> live s n \<Longrightarrow> is_dir s n \<or> is_file s n \<and> node_children (g_nodes s n) = []"
  using tree_ok_node unfolding node_ok_def by blast

lemma file_not_cwd:
  assumes "tree_ok s" "is_file s n"
  shows "g_cwd s \<noteq> Some n" "node_children (g_nodes s n) = []"
proof -
  have "\<exists>c. g_cwd s = Some c \<and> is_dir s c" using assms(1) by (simp add: tree_ok_def)
  then show "g_cwd s \<noteq> Some n" using assms(2) by (auto simp: is_dir_def is_file_def)
  have "live s n" "\<not> is_dir s n" using assms(2) by (simp_all add: is_dir_def is_file_def)
  then show "node_children (g_nodes s n) = []" using node_kind [OF assms(1)] by blast
qed

lemma remove_dir_inv:
  assumes "ramfs_inv s" "is_dir s n" "node_children (g_nodes s n) = []" "node_parent (g_nodes s n) = Some p" "g_cwd s \<noteq> Some n"
  shows "ramfs_inv (upd_node n (\<lambda>_. zero_node) (detach_child p n s))" (is "ramfs_inv ?t")
proof -
  have "tree_ok ?t"
    by (rule tree_ok_remove [of s n p]) (use assms in \<open>simp_all add: ramfs_inv_def is_dir_def detach_child_def\<close>)
  moreover have "slots_ok ?t"
    by (rule slots_ok_new [of s ?t n])
      (use assms in \<open>auto simp: ramfs_inv_def is_dir_def is_file_def live_def detach_child_def zero_node_def\<close>)
  ultimately show ?thesis by (simp add: ramfs_inv_def)
qed

lemma ramfs_core_rmdir_inv:
  assumes "ramfs_inv s"
  shows "ramfs_inv (snd (ramfs_core_rmdir path s))"
proof (cases "fs_resolve_path path s")
  case (Inr n)
  have "ramfs_inv (upd_node n (\<lambda>_. zero_node) (detach_child p n s))"
    if "node_parent (g_nodes s n) = Some p" "node_type (g_nodes s n) = FS_NODE_DIR" "Some n \<noteq> g_cwd s"
      "node_children (g_nodes s n) = []" for p
    using remove_dir_inv [OF assms _ that(4,1)] resolve_path_inv [OF assms Inr] that(2,3) by (auto simp: is_dir_def)
  then show ?thesis using Inr assms by (auto simp: ramfs_core_rmdir_def split: option.split)
qed (use assms in \<open>simp add: ramfs_core_rmdir_def\<close>)

lemma remove_file_inv:
  assumes "ramfs_inv s" "is_file s n" "node_parent (g_nodes s n) = Some p"
  shows "ramfs_inv (upd_node n (\<lambda>_. zero_node) (if node_data_slot (g_nodes s n) \<noteq> RAMFS_NO_DATA_SLOT
     then ramfs_free_data_slot (node_data_slot (g_nodes s n)) (detach_child p n s) else detach_child p n s))" (is "ramfs_inv ?t")
proof -
  note fok = slots_okD(1) [OF ramfs_invD(2) [OF assms(1)] assms(2)]
  note nf = file_not_cwd [OF ramfs_invD(1) [OF assms(1)] assms(2)]
  let ?n = "(g_nodes s)(p := (g_nodes s p)\<lparr>node_children := remove1 n (node_children (g_nodes s p))\<rparr>, n := zero_node)"
  have t: "g_nodes ?t = ?n" "g_root ?t = g_root s" "g_cwd ?t = g_cwd s" by (simp_all add: detach_child_def)
  have "tree_ok ?t"
    by (rule tree_ok_remove [of s n p]) (use assms nf t in \<open>simp_all add: ramfs_inv_def is_file_def\<close>)
  moreover have "slots_ok ?t"
  proof (rule slots_ok_drop [OF ramfs_invD(2) [OF assms(1)] assms(2)])
    show "g_data_slots ?t = (if node_data_slot (g_nodes s n) = RAMFS_NO_DATA_SLOT then g_data_slots s
      else (g_data_slots s)(unat (node_data_slot (g_nodes s n)) := zero_slot))"
      using file_ok_slot [OF fok] by (auto simp: ramfs_free_data_slot_def detach_child_def)
  qed (simp_all add: is_file_def live_def detach_child_def zero_node_def)
  ultimately show ?thesis by (simp add: ramfs_inv_def)
qed

lemma ramfs_core_unlink_inv:
  assumes "ramfs_inv s"
  shows "ramfs_inv (snd (ramfs_core_unlink path s))"
proof (cases "fs_resolve_path path s")
  case (Inr n)
  have "is_file s n" if "node_type (g_nodes s n) \<noteq> FS_NODE_DIR"
    using node_kind [OF ramfs_invD(1) [OF assms] resolve_path_inv [OF assms Inr]] that
    by (auto simp: is_dir_def)
  then show ?thesis using Inr assms remove_file_inv [OF assms]
    by (simp add: ramfs_core_unlink_def Let_def split: option.split)
qed (use assms in \<open>simp add: ramfs_core_unlink_def\<close>)

subsection \<open>Writing\<close>

lemma store_bytes_nth:
  "store_bytes off bs d j = (if off \<le> j \<and> j < off + length bs then bs ! (j - off) else d j)"
proof -
  have "fold (\<lambda>i d. d(off + i := bs ! i)) [0..<n] d j = (if off \<le> j \<and> j < off + n then bs ! (j - off) else d j)" for n
    by (induction n) (auto simp: less_Suc_eq)
  then show ?thesis by (simp add: store_bytes_def)
qed

text \<open>The slot a write goes to, if there is one.\<close>

lemma ensure_data_slot_cases:
  assumes "slots_ok s" "is_file s n"
  obtains (full) "node_data_slot (g_nodes s n) = RAMFS_NO_DATA_SLOT" "\<forall>k < RAMFS_DATA_SLOT_CAP. slot_used (g_data_slots s k)"
      "ramfs_ensure_data_slot n s = (Inl FS_ERR_NO_SPACE, s)"
  | (fresh) k where "k < RAMFS_DATA_SLOT_CAP" "node_data_slot (g_nodes s n) = RAMFS_NO_DATA_SLOT" "\<not> slot_used (g_data_slots s k)"
      "node_size (g_nodes s n) = 0"
      "ramfs_ensure_data_slot n s = (Inr (), upd_node n (\<lambda>n. n\<lparr>node_data_slot := of_nat k\<rparr>)
         (s\<lparr>g_data_slots := (g_data_slots s)(k := zero_slot\<lparr>slot_used := True\<rparr>)\<rparr>))"
  | (own) k where "k < RAMFS_DATA_SLOT_CAP" "node_data_slot (g_nodes s n) = of_nat k" "slot_used (g_data_slots s k)"
      "ramfs_ensure_data_slot n s = (Inr (), s)"
proof -
  have ty: "node_type (g_nodes s n) = FS_NODE_FILE" using assms(2) by (simp add: is_file_def)
  from file_ok_slot [OF slots_okD(1) [OF assms]] show ?thesis
  proof
    assume no: "node_data_slot (g_nodes s n) = RAMFS_NO_DATA_SLOT \<and> node_size (g_nodes s n) = 0"
    then have nd: "ramfs_node_data n s = None" by (simp add: ramfs_node_data_def)
    show ?thesis
    proof (cases "List.find (\<lambda>i. \<not> slot_used (g_data_slots s i)) [0..<RAMFS_DATA_SLOT_CAP]")
      case None
      then have "ramfs_ensure_data_slot n s = (Inl FS_ERR_NO_SPACE, s)"
        using nd ty by (simp add: ramfs_ensure_data_slot_def ramfs_alloc_data_slot_def)
      moreover have "\<forall>k < RAMFS_DATA_SLOT_CAP. slot_used (g_data_slots s k)" using None by (auto simp: find_None_iff)
      ultimately show ?thesis using full no by blast
    next
      case (Some k)
      then have k: "k < RAMFS_DATA_SLOT_CAP" "\<not> slot_used (g_data_slots s k)" by (auto simp: find_Some_iff)
      show ?thesis
        by (rule fresh [of k]) (use k no nd ty Some slot_index_ne_none [OF k(1)] in
            \<open>simp_all add: ramfs_ensure_data_slot_def ramfs_alloc_data_slot_def\<close>)
    qed
  next
    assume a: "node_data_slot (g_nodes s n) \<noteq> RAMFS_NO_DATA_SLOT \<and> unat (node_data_slot (g_nodes s n)) < RAMFS_DATA_SLOT_CAP \<and>
      slot_used (g_data_slots s (unat (node_data_slot (g_nodes s n))))"
    then have "ramfs_node_data n s \<noteq> None" by (simp add: ramfs_node_data_def)
    then show ?thesis using own [of "unat (node_data_slot (g_nodes s n))"] a ty by (simp add: ramfs_ensure_data_slot_def)
  qed
qed

lemma fs_node_from_id_node: "live s n \<Longrightarrow> fs_node_from_id (fs_node_id n) s = Some n"
proof -
  assume l: "live s n"
  then have n: "n < 2 ^ 32" "fs_node_id n = of_nat n + 1" by (simp_all add: live_def fs_node_id_def)
  have "unat (of_nat (Suc n) :: u32) = Suc n" by (rule unat_of_nat_u32) (use l in \<open>simp add: live_def\<close>)
  then have "fs_node_id n \<noteq> 0" "unat (fs_node_id n - 1) = n"
    using n by (auto simp: unat_of_nat_u32 add.commute)
  then show ?thesis using l by (simp add: fs_node_from_id_def live_def)
qed

lemma fs_node_from_id_SomeD:
  assumes "fs_node_from_id i s = Some n"
  shows "live s n" "i = fs_node_id n"
proof -
  have "n = unat (i - 1)" "n < FS_MAX_NODES" "node_used (g_nodes s n)"
    using assms by (auto simp: fs_node_from_id_def Let_def split: if_splits)
  then show "live s n" "i = fs_node_id n" by (simp_all add: live_def fs_node_id_def)
qed

text \<open>What a write of at least one byte within the limit does.\<close>

definition written :: "nat \<Rightarrow> nat \<Rightarrow> u32 \<Rightarrow> char list \<Rightarrow> ramfs \<Rightarrow> ramfs \<Rightarrow> bool" where
  "written n k off bs s t \<longleftrightarrow>
     g_nodes t = (g_nodes s)(n := (g_nodes s n)\<lparr>node_data_slot := of_nat k,
        node_size := max (node_size (g_nodes s n)) (off + of_nat (length bs))\<rparr>) \<and>
     g_data_slots t = (g_data_slots s)(k := \<lparr>slot_used = True, slot_data = store_bytes (unat off) bs
        (if slot_used (g_data_slots s k) then slot_data (g_data_slots s k) else (\<lambda>_. CHR 0x00))\<rparr>) \<and>
     g_root t = g_root s \<and> g_cwd t = g_cwd s"

lemma ramfs_core_write_cases:
  assumes "slots_ok s" "is_file s n" "bs \<noteq> []" "unat off + length bs \<le> RAMFS_DATA_SLOT_SIZE"
  obtains (full) "node_data_slot (g_nodes s n) = RAMFS_NO_DATA_SLOT" "\<forall>k < RAMFS_DATA_SLOT_CAP. slot_used (g_data_slots s k)"
      "ramfs_core_write (fs_node_id n) off bs s = (Inl FS_ERR_NO_SPACE, s)"
  | (ok) k t where "k < RAMFS_DATA_SLOT_CAP" "written n k off bs s t"
      "node_data_slot (g_nodes s n) = of_nat k \<and> slot_used (g_data_slots s k) \<or>
       node_data_slot (g_nodes s n) = RAMFS_NO_DATA_SLOT \<and> \<not> slot_used (g_data_slots s k) \<and> node_size (g_nodes s n) = 0"
      "ramfs_core_write (fs_node_id n) off bs s = (Inr (of_nat (length bs)), t)"
proof -
  have ty: "node_type (g_nodes s n) = FS_NODE_FILE" "fs_node_from_id (fs_node_id n) s = Some n"
    using assms(2) by (simp_all add: is_file_def fs_node_from_id_node)
  have lim: "\<not> RAMFS_DATA_SLOT_SIZE < unat off" "\<not> RAMFS_DATA_SLOT_SIZE - unat off < length bs" using assms(4) by auto
  have mx: "(if (a::u32) < b then x\<lparr>node_size := b\<rparr> else x) = x\<lparr>node_size := max a b\<rparr>" if "node_size x = a" for a b and x :: fs_node
    using that by (auto simp: max_def)
  show ?thesis
    using assms(1,2)
  proof (cases rule: ensure_data_slot_cases)
    case 1: full
    then show ?thesis using full ty lim assms(3) by (simp add: ramfs_core_write_def)
  next
    case (fresh k)
    have "ramfs_node_data n (upd_node n (\<lambda>n. n\<lparr>node_data_slot := of_nat k\<rparr>)
         (s\<lparr>g_data_slots := (g_data_slots s)(k := zero_slot\<lparr>slot_used := True\<rparr>)\<rparr>)) = Some k"
      using fresh(1) by (simp add: ramfs_node_data_def unat_slot_index)
    then show ?thesis
      by (intro ok [of k "snd (ramfs_core_write (fs_node_id n) off bs s)"])
        (use fresh ty lim assms(3) in \<open>simp_all add: ramfs_core_write_def written_def Let_def mx zero_slot_def\<close>)
  next
    case (own k)
    have "ramfs_node_data n s = Some k" using own by (simp add: ramfs_node_data_def unat_slot_index)
    moreover have e1: "(g_nodes s n)\<lparr>node_data_slot := of_nat k, node_size := z\<rparr> = (g_nodes s n)\<lparr>node_size := z\<rparr>" for z
      using own(2) by (cases "g_nodes s n") simp
    moreover have e2: "\<lparr>slot_used = True, slot_data = d\<rparr> = (g_data_slots s k)\<lparr>slot_data := d\<rparr>" for d
      using own(3) by (cases "g_data_slots s k") simp
    ultimately show ?thesis
      by (intro ok [of k "snd (ramfs_core_write (fs_node_id n) off bs s)"])
        (use own ty lim assms(3) in \<open>simp_all add: ramfs_core_write_def written_def Let_def mx e1 e2\<close>)
  qed
qed

lemma written_inv:
  assumes "ramfs_inv s" "is_file s n" "unat off + length bs \<le> RAMFS_DATA_SLOT_SIZE" "k < RAMFS_DATA_SLOT_CAP" "written n k off bs s t"
    "node_data_slot (g_nodes s n) = of_nat k \<and> slot_used (g_data_slots s k) \<or>
     node_data_slot (g_nodes s n) = RAMFS_NO_DATA_SLOT \<and> \<not> slot_used (g_data_slots s k) \<and> node_size (g_nodes s n) = 0"
  shows "ramfs_inv t" "unat (node_size (g_nodes t n)) = max (unat (node_size (g_nodes s n))) (unat off + length bs)"
proof -
  note t = assms(5) [unfolded written_def]
  note ok = ramfs_invD [OF assms(1)]
  have u: "unat (off + of_nat (length bs)) = unat off + length bs"
    using assms(3) by (subst unat_add_no_wrap) (simp_all add: unat_of_nat_u32)
  then show sz: "unat (node_size (g_nodes t n)) = max (unat (node_size (g_nodes s n))) (unat off + length bs)"
    using t by (simp add: max_def word_le_nat_alt)
  have "tree_ok t" by (rule tree_ok_cong [OF ok(1)]) (use t in auto)
  moreover have "slots_ok t"
  proof (rule slots_ok_store [OF ok(2) assms(2,4)])
    fix j assume j: "unat (node_size (g_nodes t n)) \<le> j" "j < RAMFS_DATA_SLOT_SIZE"
    then have "slot_used (g_data_slots s k) \<longrightarrow> slot_data (g_data_slots s k) j = CHR 0x00"
      using slots_okD(1) [OF ok(2) assms(2)] assms(6) sz unat_slot_index [OF assms(4)]
        slot_index_ne_none [OF assms(4)] by (auto simp: file_ok_def)
    then show "slot_data (g_data_slots t k) j = CHR 0x00"
      using t j sz by (simp add: store_bytes_nth)
  next
    show "unat (node_size (g_nodes t n)) \<le> RAMFS_DATA_SLOT_SIZE"
      using sz assms(3) slots_okD(1) [OF ok(2) assms(2)] by (auto simp: file_ok_def)
  qed (use t assms(6) in \<open>auto simp: is_file_def live_def\<close>)
  ultimately show "ramfs_inv t" by (simp add: ramfs_inv_def)
qed

lemma ramfs_core_write_inv:
  assumes "ramfs_inv s"
  shows "ramfs_inv (snd (ramfs_core_write i off bs s))"
proof (cases "\<exists>n. fs_node_from_id i s = Some n \<and> is_file s n \<and> bs \<noteq> [] \<and> unat off + length bs \<le> RAMFS_DATA_SLOT_SIZE")
  case True
  then obtain n where n: "fs_node_from_id i s = Some n" "is_file s n" "bs \<noteq> []" "unat off + length bs \<le> RAMFS_DATA_SLOT_SIZE"
    by blast
  note i = fs_node_from_id_SomeD(2) [OF n(1)]
  from ramfs_invD(2) [OF assms] n(2-4) show ?thesis
  proof (cases rule: ramfs_core_write_cases)
    case (ok k t)
    then show ?thesis using written_inv(1) [OF assms n(2,4) ok(1-3)] i by simp
  qed (use assms i in simp)
next
  case False
  then have "snd (ramfs_core_write i off bs s) = s"
    by (auto simp: ramfs_core_write_def Let_def is_file_def dest: fs_node_from_id_SomeD split: option.split)
  then show ?thesis using assms by simp
qed

end
