(* ===== verification/Ramfs_Files.thy ===== *)
theory Ramfs_Files
  imports Ramfs_Ops
begin

text \<open>
  The in-memory file system seen from outside: sequences of calls, the contents of the files as a
  map from handles to byte lists, and paths that lead to the files they created.
\<close>

subsection \<open>Every sequence of calls keeps the invariant\<close>

datatype ramfs_op =
  Reset_empty
| Import_dir string
| Import_file string
| Clear_dirty
| Change_dir string
| Make_dir string
| Open string u32
| Write u32 u32 "char list"
| Unlink string
| Rmdir string

fun ramfs_step :: "ramfs_op \<Rightarrow> ramfs \<Rightarrow> ramfs" where
  "ramfs_step Reset_empty s = snd (ramfs_core_reset_empty s)"
| "ramfs_step (Import_dir path) s = snd (ramfs_core_import_dir path s)"
| "ramfs_step (Import_file path) s = snd (ramfs_core_import_file path s)"
| "ramfs_step Clear_dirty s = ramfs_core_clear_dirty s"
| "ramfs_step (Change_dir path) s = snd (ramfs_core_change_dir path s)"
| "ramfs_step (Make_dir path) s = snd (ramfs_core_make_dir path s)"
| "ramfs_step (Open path flags) s = snd (ramfs_core_open path flags s)"
| "ramfs_step (Write i off bs) s = snd (ramfs_core_write i off bs s)"
| "ramfs_step (Unlink path) s = snd (ramfs_core_unlink path s)"
| "ramfs_step (Rmdir path) s = snd (ramfs_core_rmdir path s)"

lemma ramfs_step_inv: "ramfs_inv s \<Longrightarrow> ramfs_inv (ramfs_step op s)"
  using ramfs_core_init_inv [of s]
  by (cases op)
    (simp_all add: ramfs_core_init_def ramfs_core_import_dir_def ramfs_core_import_file_def ramfs_core_clear_dirty_def
      ramfs_core_import_node_inv ramfs_core_change_dir_inv ramfs_core_make_dir_inv ramfs_core_open_inv
      ramfs_core_write_inv ramfs_core_unlink_inv ramfs_core_rmdir_inv)

text \<open>
  C6: After initialisation and any sequence of calls with any arguments the nodes form a tree: every
  live node hangs in the children list of its parent, the root and the working directory are live
  directories, no directory is its own ancestor. The lookup finds each child under its own name.
  Every data slot in use belongs to exactly one file, and the bytes after the end of a file are zero.
\<close>

theorem ramfs_inv_reachable:
  "ramfs_inv (fold ramfs_step ops (snd (ramfs_core_init s)))"
proof -
  have "ramfs_inv t \<Longrightarrow> ramfs_inv (fold ramfs_step ops t)" for t
    by (induction ops arbitrary: t) (simp_all add: ramfs_step_inv)
  then show ?thesis using ramfs_core_init_inv .
qed

subsection \<open>Contents\<close>

definition file_bytes :: "ramfs \<Rightarrow> nat \<Rightarrow> char list" where
  "file_bytes s n = slot_bytes s (unat (node_data_slot (g_nodes s n))) 0 (unat (node_size (g_nodes s n)))"

definition ramfs_file :: "ramfs \<Rightarrow> u32 \<Rightarrow> char list option" where
  "ramfs_file s i =
     (case fs_node_from_id i s of
        None \<Rightarrow> None
      | Some n \<Rightarrow> if node_type (g_nodes s n) = FS_NODE_FILE then Some (file_bytes s n) else None)"

lemma ramfs_file_Some:
  "ramfs_file s i = Some c \<longleftrightarrow> (\<exists>n. i = fs_node_id n \<and> is_file s n \<and> c = file_bytes s n)"
proof
  assume "ramfs_file s i = Some c"
  then show "\<exists>n. i = fs_node_id n \<and> is_file s n \<and> c = file_bytes s n"
    by (auto simp: ramfs_file_def is_file_def dest: fs_node_from_id_SomeD split: option.splits if_splits)
next
  assume "\<exists>n. i = fs_node_id n \<and> is_file s n \<and> c = file_bytes s n"
  then show "ramfs_file s i = Some c" by (auto simp: ramfs_file_def is_file_def fs_node_from_id_node)
qed

lemma ramfs_file_node: "is_file s n \<Longrightarrow> ramfs_file s (fs_node_id n) = Some (file_bytes s n)"
  by (auto simp: ramfs_file_Some)

lemma fs_node_id_inj:
  assumes "fs_node_id n = fs_node_id m" "n < FS_MAX_NODES" "m < FS_MAX_NODES"
  shows "n = m"
proof -
  have "(of_nat n :: u32) = of_nat m" using assms by (simp add: fs_node_id_def)
  from arg_cong [OF this, of unat] show ?thesis using assms by (simp add: unat_of_nat_u32)
qed

lemma file_bytes_nth: "j < unat (node_size (g_nodes s n)) \<Longrightarrow>
    file_bytes s n ! j = slot_data (g_data_slots s (unat (node_data_slot (g_nodes s n)))) j"
  by (simp add: file_bytes_def slot_bytes_def)

lemma length_file_bytes [simp]: "length (file_bytes s n) = unat (node_size (g_nodes s n))"
  by (simp add: file_bytes_def slot_bytes_def)

lemma file_node_data:
  assumes "slots_ok s" "is_file s n" "node_size (g_nodes s n) \<noteq> 0"
  shows "ramfs_node_data n s = Some (unat (node_data_slot (g_nodes s n)))"
  using file_ok_slot [OF slots_okD(1) [OF assms(1,2)]] assms(3) by (auto simp: ramfs_node_data_def)

lemma slot_bytes_take_drop:
  "off + n \<le> m \<Longrightarrow> slot_bytes s k off n = take n (drop off (slot_bytes s k 0 m))"
  by (rule nth_equalityI) (auto simp: slot_bytes_def)

lemma ramfs_read_file_bytes:
  assumes "ramfs_inv s" "is_file s n"
  shows "ramfs_core_read (fs_node_id n) off cap s = Inr (take (unat cap) (drop (unat off) (file_bytes s n)))"
proof -
  let ?sz = "node_size (g_nodes s n)"
  have n: "fs_node_from_id (fs_node_id n) s = Some n" "node_type (g_nodes s n) = FS_NODE_FILE"
    using assms(2) by (simp_all add: is_file_def fs_node_from_id_node)
  show ?thesis
  proof (cases "?sz \<le> off")
    case True
    then show ?thesis using n by (simp add: ramfs_core_read_def word_le_nat_alt)
  next
    case False
    then have lt: "unat off < unat ?sz" "?sz \<noteq> 0" by (auto simp: word_le_nat_alt)
    have sub: "unat (?sz - off) = unat ?sz - unat off" using False by (simp add: unat_sub)
    let ?c = "if ?sz - off < cap then ?sz - off else cap"
    have c: "unat ?c = min (unat cap) (unat ?sz - unat off)" using sub by (auto simp: word_less_nat_alt)
    then have "slot_bytes s (unat (node_data_slot (g_nodes s n))) (unat off) (unat ?c)
        = take (unat ?c) (drop (unat off) (file_bytes s n))"
      unfolding file_bytes_def using lt by (intro slot_bytes_take_drop) auto
    also have "\<dots> = take (unat cap) (drop (unat off) (file_bytes s n))"
      unfolding c by (simp add: min_def)
    finally show ?thesis
      using n False file_node_data [OF ramfs_invD(2) [OF assms(1)] assms(2) lt(2)]
      by (simp add: ramfs_core_read_def Let_def)
  qed
qed

text \<open>The bytes of a slot after a store, when those after the end of the file were zero.\<close>

lemma written_bytes:
  assumes inv: "ramfs_inv s" and n: "is_file s n" and lim: "unat off + length bs \<le> RAMFS_DATA_SLOT_SIZE" "bs \<noteq> []"
    and k: "k < RAMFS_DATA_SLOT_CAP" and t: "written n k off bs s t"
    and own: "node_data_slot (g_nodes s n) = of_nat k \<and> slot_used (g_data_slots s k) \<or>
     node_data_slot (g_nodes s n) = RAMFS_NO_DATA_SLOT \<and> \<not> slot_used (g_data_slots s k) \<and> node_size (g_nodes s n) = 0"
  shows "file_bytes t n = write_at (unat off) bs (file_bytes s n)"
proof (rule nth_equalityI)
  note sz = written_inv(2) [OF inv n lim(1) k t own]
  show "length (file_bytes t n) = length (write_at (unat off) bs (file_bytes s n))"
    using sz lim(2) by (simp add: length_write_at)
  fix j assume "j < length (file_bytes t n)"
  then have j: "j < unat (node_size (g_nodes t n))" by simp
  let ?d = "if slot_used (g_data_slots s k) then slot_data (g_data_slots s k) else (\<lambda>_. CHR 0x00)"
  have "file_bytes t n ! j = store_bytes (unat off) bs ?d j"
    using file_bytes_nth [OF j] t k by (simp add: written_def unat_slot_index)
  moreover have "?d j = (if j < unat (node_size (g_nodes s n)) then file_bytes s n ! j else CHR 0x00)"
    if "j < unat off + length bs \<or> j < unat (node_size (g_nodes s n))"
  proof -
    have "j < RAMFS_DATA_SLOT_SIZE" using that lim(1) slots_okD(1) [OF ramfs_invD(2) [OF inv] n] by (auto simp: file_ok_def)
    then show ?thesis
      using own slots_okD(1) [OF ramfs_invD(2) [OF inv] n] file_bytes_nth [of j s n] unat_slot_index [OF k] slot_index_ne_none [OF k]
      by (auto simp: file_ok_def)
  qed
  ultimately show "file_bytes t n ! j = write_at (unat off) bs (file_bytes s n) ! j"
    using j sz lim(2) by (auto simp: store_bytes_nth write_at_def nth_append min_def)
qed

lemma written_other:
  assumes inv: "ramfs_inv s" and n: "is_file s n" and m: "is_file s m" "m \<noteq> n"
    and k: "k < RAMFS_DATA_SLOT_CAP" and t: "written n k off bs s t"
    and own: "node_data_slot (g_nodes s n) = of_nat k \<and> slot_used (g_data_slots s k) \<or>
     node_data_slot (g_nodes s n) = RAMFS_NO_DATA_SLOT \<and> \<not> slot_used (g_data_slots s k) \<and> node_size (g_nodes s n) = 0"
  shows "file_bytes t m = file_bytes s m"
proof -
  note ok = ramfs_invD(2) [OF inv]
  have "node_size (g_nodes s m) = 0 \<or> unat (node_data_slot (g_nodes s m)) \<noteq> k"
  proof (rule ccontr)
    assume a: "\<not> ?thesis"
    then have e: "node_data_slot (g_nodes s m) = of_nat k" by auto
    then have "slot_used (g_data_slots s k)" using file_ok_slot [OF slots_okD(1) [OF ok m(1)]] a by auto
    then have "node_data_slot (g_nodes s n) = of_nat k" using own by auto
    then show False using slots_okD(2) [OF ok m(1) n] e m(2) slot_index_ne_none [OF k] by simp
  qed
  then show ?thesis using t m(2) by (auto simp: file_bytes_def slot_bytes_def written_def)
qed

lemma is_file_written: "written n k off bs s t \<Longrightarrow> is_file t m = is_file s m"
  by (auto simp: written_def is_file_def live_def)

lemma ramfs_write_store:
  assumes "ramfs_inv s" "is_file s n" "ramfs_core_write (fs_node_id n) off bs s = (Inr r, t)"
  shows "unat r = length bs" "unat off + length bs \<le> RAMFS_DATA_SLOT_SIZE"
    "ramfs_file t = (ramfs_file s)(fs_node_id n \<mapsto> write_at (unat off) bs (file_bytes s n))"
proof -
  have nd: "fs_node_from_id (fs_node_id n) s = Some n" "node_type (g_nodes s n) = FS_NODE_FILE" "n < FS_MAX_NODES"
    using assms(2) by (simp_all add: is_file_def fs_node_from_id_node live_def)
  show lim: "unat off + length bs \<le> RAMFS_DATA_SLOT_SIZE"
    using assms(3) nd by (auto simp: ramfs_core_write_def Let_def split: if_splits)
  have "unat r = length bs \<and> ramfs_file t = (ramfs_file s)(fs_node_id n \<mapsto> write_at (unat off) bs (file_bytes s n))"
  proof (cases "bs = []")
    case True
    then have "t = s" "r = 0" using assms(3) nd lim by (auto simp: ramfs_core_write_def)
    then show ?thesis using True ramfs_file_node [OF assms(2)] by (simp add: write_at_def fun_upd_idem)
  next
    case False
    from ramfs_invD(2) [OF assms(1)] assms(2) False lim show ?thesis
    proof (cases rule: ramfs_core_write_cases)
      case (ok k u)
      then have t: "written n k off bs s t" "r = of_nat (length bs)" using assms(3) by auto
      have "ramfs_file t i = ((ramfs_file s)(fs_node_id n \<mapsto> write_at (unat off) bs (file_bytes s n))) i" for i
      proof (cases "\<exists>m. i = fs_node_id m \<and> is_file s m")
        case True
        then obtain m where m: "i = fs_node_id m" "is_file s m" by blast
        have "ramfs_file t i = Some (file_bytes t m)" using m is_file_written [OF t(1)] ramfs_file_node by simp
        moreover have "m \<noteq> n \<Longrightarrow> i \<noteq> fs_node_id n" using m nd(3) fs_node_id_inj by (auto simp: is_file_def live_def)
        ultimately show ?thesis
          using written_bytes [OF assms(1,2) lim False ok(1) t(1) ok(3)] m ramfs_file_node [OF m(2)]
            written_other [OF assms(1,2) m(2) _ ok(1) t(1) ok(3)] by (cases "m = n") simp_all
      next
        case no: False
        then have "ramfs_file t i = None" "ramfs_file s i = None"
          using is_file_written [OF t(1)] by (metis not_None_eq ramfs_file_Some)+
        moreover have "i \<noteq> fs_node_id n" using no assms(2) by blast
        ultimately show ?thesis by simp
      qed
      then show ?thesis using t(2) lim by (auto simp: unat_of_nat_u32)
    qed (use assms(3) in simp)
  qed
  then show "unat r = length bs" "ramfs_file t = (ramfs_file s)(fs_node_id n \<mapsto> write_at (unat off) bs (file_bytes s n))"
    by simp_all
qed

lemma ramfs_write_error:
  assumes "ramfs_inv s" "is_file s n" "ramfs_core_write (fs_node_id n) off bs s = (Inl e, t)"
  shows "t = s" "e = FS_ERR_NO_SPACE"
    "RAMFS_DATA_SLOT_SIZE < unat off + length bs \<or>
     file_bytes s n = [] \<and> bs \<noteq> [] \<and> (\<forall>k < RAMFS_DATA_SLOT_CAP. slot_used (g_data_slots s k))"
proof -
  have nd: "fs_node_from_id (fs_node_id n) s = Some n" "node_type (g_nodes s n) = FS_NODE_FILE"
    using assms(2) by (simp_all add: is_file_def fs_node_from_id_node)
  have "t = s \<and> e = FS_ERR_NO_SPACE \<and> (RAMFS_DATA_SLOT_SIZE < unat off + length bs \<or>
     file_bytes s n = [] \<and> bs \<noteq> [] \<and> (\<forall>k < RAMFS_DATA_SLOT_CAP. slot_used (g_data_slots s k)))"
  proof (cases "bs = [] \<or> RAMFS_DATA_SLOT_SIZE < unat off + length bs")
    case True
    then show ?thesis using assms(3) nd by (auto simp: ramfs_core_write_def Let_def split: if_splits)
  next
    case False
    then have f: "bs \<noteq> []" "unat off + length bs \<le> RAMFS_DATA_SLOT_SIZE" by auto
    from ramfs_invD(2) [OF assms(1)] assms(2) f show ?thesis
    proof (cases rule: ramfs_core_write_cases)
      case full
      then have "node_size (g_nodes s n) = 0" using file_ok_slot [OF slots_okD(1) [OF ramfs_invD(2) [OF assms(1)] assms(2)]] by auto
      then have "file_bytes s n = []" by (simp add: file_bytes_def slot_bytes_def)
      then show ?thesis using full assms(3) f by auto
    qed (use assms(3) in simp)
  qed
  then show "t = s" "e = FS_ERR_NO_SPACE" "RAMFS_DATA_SLOT_SIZE < unat off + length bs \<or>
     file_bytes s n = [] \<and> bs \<noteq> [] \<and> (\<forall>k < RAMFS_DATA_SLOT_CAP. slot_used (g_data_slots s k))" by blast+
qed

text \<open>The in-memory file system meets the contract that the layers above rely on.\<close>

interpretation ram: file_store ramfs_inv ramfs_file ramfs_core_read ramfs_core_write ramfs_core_size
proof
  fix s :: ramfs and i off cap n :: u32 and bs c t e
  assume inv: "ramfs_inv s"
  then show "ramfs_inv (snd (ramfs_core_write i off bs s))" by (rule ramfs_core_write_inv)
  assume "ramfs_file s i = Some c"
  then obtain m where m: "i = fs_node_id m" "is_file s m" "c = file_bytes s m" by (auto simp: ramfs_file_Some)
  then show "ramfs_core_read i off cap s = Inr (take (unat cap) (drop (unat off) c))"
    using ramfs_read_file_bytes inv by simp
  show "length c < 2 ^ 32 \<and> ramfs_core_size i s = Inr (of_nat (length c))"
    using m unat_u32_less by (simp add: ramfs_core_size_def is_file_def fs_node_from_id_node)
  show "unat n = length bs \<and> unat off + length bs < 2 ^ 32 \<and> ramfs_file t = (ramfs_file s)(i \<mapsto> write_at (unat off) bs c)"
    if "ramfs_core_write i off bs s = (Inr n, t)"
    using ramfs_write_store [OF inv m(2), of off bs n t] that m by simp
  show "t = s" if "ramfs_core_write i off bs s = (Inl e, t)"
    using ramfs_write_error(1) [OF inv m(2), of off bs e t] that m by simp
qed

text \<open>
  C7: A write to a file either changes exactly the contents of that file, to the old bytes
  overwritten at the offset with a gap filled by zeros, and reports the number of bytes; or it
  reports \<open>FS_ERR_NO_SPACE\<close> and changes nothing, and then the write would pass the 4096 byte limit or
  an empty file found all four slots taken. All other files keep their contents.
\<close>

theorem ramfs_write_refines:
  assumes "ramfs_inv s" "is_file s n"
  shows "case ramfs_core_write (fs_node_id n) off bs s of
      (Inr r, t) \<Rightarrow> unat r = length bs \<and> unat off + length bs \<le> RAMFS_DATA_SLOT_SIZE \<and>
         ramfs_file t = (ramfs_file s)(fs_node_id n \<mapsto> write_at (unat off) bs (file_bytes s n))
    | (Inl e, t) \<Rightarrow> e = FS_ERR_NO_SPACE \<and> t = s \<and> (RAMFS_DATA_SLOT_SIZE < unat off + length bs \<or>
         file_bytes s n = [] \<and> bs \<noteq> [] \<and> (\<forall>k < RAMFS_DATA_SLOT_CAP. slot_used (g_data_slots s k)))"
  using ramfs_write_store [OF assms, of off bs] ramfs_write_error [OF assms, of off bs]
  by (auto split: prod.split sum.split)

subsection \<open>Paths\<close>

lemma next_segment_none: "skip_slashes path = [] \<Longrightarrow> fs_next_segment path = Inr None"
  by (simp add: fs_next_segment_def)

lemma find_child_add:
  assumes ok: "tree_ok s" and q: "is_dir s q" and n: "\<not> node_used (g_nodes s n)" and p: "is_dir s p"
    and c: "fs_find_child (Some q) seg s = Some c"
  shows "fs_find_child (Some q) seg (add_node n p name type s) = Some c"
proof -
  have l: "live s d" if "d \<in> set (node_children (g_nodes s q))" for d
    using tree_ok_node [OF ok] q that unfolding node_ok_def is_dir_def by blast
  have nm: "node_name (g_nodes (add_node n p name type s) d) = node_name (g_nodes s d)" if "live s d" for d
    using that n by (auto simp: add_node_def live_def)
  have find: "List.find P (xs @ ys) = Some c" if "List.find P xs = Some c" for P xs ys and c :: nat
    using that by (induction xs) (auto split: if_splits)
  have "List.find (\<lambda>d. fs_name_eq (node_name (g_nodes (add_node n p name type s) d)) seg) (node_children (g_nodes s q)) =
    List.find (\<lambda>d. fs_name_eq (node_name (g_nodes s d)) seg) (node_children (g_nodes s q))"
    by (rule find_cong) (use l nm in auto)
  then have f: "List.find (\<lambda>d. fs_name_eq (node_name (g_nodes (add_node n p name type s) d)) seg) (node_children (g_nodes s q)) = Some c"
    using c q by (simp add: fs_find_child_def is_dir_def)
  have ty: "node_type (g_nodes (add_node n p name type s) q) = FS_NODE_DIR"
    using q n by (auto simp: add_node_def is_dir_def live_def)
  have "node_children (g_nodes (add_node n p name type s) q) = node_children (g_nodes s q) @ (if q = p then [n] else [])"
    using q n by (auto simp: add_node_def is_dir_def live_def)
  then show ?thesis using find [OF f] ty by (simp add: fs_find_child_def)
qed

lemma fs_name_eq_refl [simp]: "fs_name_eq nm nm" by (simp add: fs_name_eq_def)

lemma find_child_new:
  assumes ok: "tree_ok s" and p: "is_dir s p" and n: "\<not> node_used (g_nodes s n)"
    and none: "fs_find_child (Some p) name s = None"
  shows "fs_find_child (Some p) name (add_node n p name type s) = Some n"
proof -
  let ?t = "add_node n p name type s"
  have np: "n \<noteq> p" using p n by (auto simp: is_dir_def live_def)
  have l: "live s d" if "d \<in> set (node_children (g_nodes s p))" for d
    using tree_ok_node [OF ok] p that unfolding node_ok_def is_dir_def by blast
  have "\<not> fs_name_eq (node_name (g_nodes ?t d)) name" if d: "d \<in> set (node_children (g_nodes s p))" for d
  proof -
    have "d \<noteq> n" using l [OF d] n by (auto simp: live_def)
    then show ?thesis using none find_child_None [OF p] d by (auto simp: add_node_def)
  qed
  moreover have "List.find P (xs @ [x]) = Some x" if "\<forall>y \<in> set xs. \<not> P y" "P x" for P xs and x :: nat
    using that by (induction xs) auto
  moreover have "node_children (g_nodes ?t p) = node_children (g_nodes s p) @ [n]" "node_name (g_nodes ?t n) = name"
    "node_type (g_nodes ?t p) = FS_NODE_DIR"
    using np p by (simp_all add: add_node_def new_node_def is_dir_def)
  ultimately show ?thesis by (simp add: fs_find_child_def)
qed

lemma resolve_created:
  assumes ok: "tree_ok s" and n: "\<not> node_used (g_nodes s n)" and p: "is_dir s p"
    and none: "fs_find_child (Some p) name s = None"
    and q: "is_dir s q" and path: "resolve_parent_loop s (Some q) path = Inr (Some p, name)"
  shows "resolve_loop (add_node n p name type s) q path = Inr n"
  using q path
proof (induction "length path" arbitrary: q path rule: less_induct)
  case less
  let ?t = "add_node n p name type s"
  have live: "live s q" using less.prems by (simp add: is_dir_def)
  then have qn: "q \<noteq> n" using n by (auto simp: live_def)
  have up: "parent_or_self ?t q = parent_or_self s q" using qn by (simp add: parent_or_self_def add_node_def)
  have ty: "node_type (g_nodes ?t q) = FS_NODE_DIR" using qn less.prems(1) by (auto simp: add_node_def is_dir_def)
  show ?case
  proof (cases path rule: segment_cases)
    case (seg sg rest)
    note IH = less.hyps [of rest, OF seg(2)]
    consider (fin) "skip_slashes rest = []" "sg = name" "name \<noteq> ''.''" "name \<noteq> ''..''" "p = q"
      | (dot) "sg = ''.''" "resolve_parent_loop s (Some q) rest = Inr (Some p, name)"
      | (up) "sg = ''..''" "resolve_parent_loop s (Some (parent_or_self s q)) rest = Inr (Some p, name)"
      | (child) c where "sg \<noteq> ''.''" "sg \<noteq> ''..''" "fs_find_child (Some q) sg s = Some c"
        "node_type (g_nodes s c) = FS_NODE_DIR" "resolve_parent_loop s (Some c) rest = Inr (Some p, name)"
      using less.prems(2) unfolding resolve_parent_next [OF seg(1)]
      by (auto simp: fs_name_copy_def split: if_splits option.splits sum.splits)
    then show ?thesis
    proof cases
      case fin
      then show ?thesis
        using find_child_new [OF ok p n none] ty
        by (simp add: resolve_loop_next [OF seg(1)] resolve_loop_end(1) [OF next_segment_none])
    next
      case dot
      then show ?thesis using IH [OF less.prems(1)] by (simp add: resolve_loop_next [OF seg(1)])
    next
      case up
      then show ?thesis using IH [OF parent_or_self_live(2) [OF ok live less.prems(1)]] \<open>parent_or_self ?t q = _\<close>
        by (simp add: resolve_loop_next [OF seg(1)])
    next
      case child
      have "is_dir s c" using find_child_live(1) [OF ok live child(3)] child(4) by (simp add: is_dir_def)
      then show ?thesis
        using IH child ty find_child_add [OF ok less.prems(1) n p child(3)]
        by (simp add: resolve_loop_next [OF seg(1)])
    qed
  qed (use less.prems in \<open>auto simp: resolve_parent_loop.simps\<close>)
qed

lemma resolve_path_created:
  assumes ok: "tree_ok s" and n: "\<not> node_used (g_nodes s n)"
    and path: "fs_resolve_parent path s = Inr (Some p, name)" and none: "fs_find_child (Some p) name s = None"
  shows "fs_resolve_path path (add_node n p name type s) = Inr n"
proof -
  have p: "is_dir s p" using resolve_parent_path_live [OF ok path] by auto
  obtain q where q: "(if path \<noteq> [] \<and> hd path = CHR ''/'' then g_root s else g_cwd s) = Some q" "is_dir s q"
    using ok by (rule start_is_dir)
  have "path \<noteq> []" using path by (auto simp: fs_resolve_parent_def resolve_parent_loop.simps fs_next_segment_def skip_slashes_def)
  moreover have "resolve_loop (add_node n p name type s) q path = Inr n"
    using path q by (intro resolve_created [OF ok n p none q(2)]) (simp add: fs_resolve_parent_def)
  moreover have "g_root (add_node n p name type s) = g_root s" "g_cwd (add_node n p name type s) = g_cwd s"
    by (simp_all add: add_node_def)
  ultimately show ?thesis using q(1) by (auto simp: fs_resolve_path_def fs_resolve_path_from_def split: if_splits)
qed

lemma resolve_loop_cong:
  assumes "\<And>i. node_type (g_nodes t i) = node_type (g_nodes s i) \<and> node_name (g_nodes t i) = node_name (g_nodes s i) \<and>
    node_parent (g_nodes t i) = node_parent (g_nodes s i) \<and> node_children (g_nodes t i) = node_children (g_nodes s i)"
  shows "resolve_loop t i path = resolve_loop s i path"
proof (induction "length path" arbitrary: i path rule: less_induct)
  case less
  have f: "fs_find_child (Some i) seg t = fs_find_child (Some i) seg s" for seg i using assms by (simp add: fs_find_child_def)
  have u: "parent_or_self t i = parent_or_self s i" for i using assms by (simp add: parent_or_self_def)
  have ty: "node_type (g_nodes t i) = node_type (g_nodes s i)" for i using assms by simp
  show ?case
  proof (cases path rule: segment_cases)
    case (seg sg rest)
    show ?thesis
      unfolding resolve_loop_next [OF seg(1)] f u ty less.hyps [OF seg(2)] by (simp split: option.split)
  qed (simp_all add: resolve_loop_end)
qed

lemma resolve_path_written:
  assumes "written n k off bs s t"
  shows "fs_resolve_path path t = fs_resolve_path path s"
proof -
  have r: "resolve_loop t = resolve_loop s"
    by (intro ext resolve_loop_cong) (use assms in \<open>simp add: written_def\<close>)
  show ?thesis unfolding fs_resolve_path_def fs_resolve_path_from_def r using assms by (simp add: written_def)
qed

lemma ramfs_core_read_file_bytes:
  assumes "ramfs_inv s" "fs_resolve_path path s = Inr n" "is_file s n" "length (file_bytes s n) \<le> cap"
  shows "ramfs_core_read_file path cap s = Inr (file_bytes s n)"
proof (cases "node_size (g_nodes s n) = 0")
  case True
  then show ?thesis using assms by (auto simp: ramfs_core_read_file_def is_file_def file_bytes_def slot_bytes_def Let_def split: option.split)
next
  case False
  then show ?thesis
    using assms file_node_data [OF ramfs_invD(2) [OF assms(1)] assms(3) False]
    by (simp add: ramfs_core_read_file_def is_file_def Let_def) (simp add: file_bytes_def)
qed

lemma ramfs_write_resolve:
  assumes "ramfs_inv s" "is_file s n" "ramfs_core_write (fs_node_id n) off bs s = (Inr r, t)"
  shows "fs_resolve_path path t = fs_resolve_path path s" "is_file t m = is_file s m"
proof -
  note lim = ramfs_write_store(2) [OF assms]
  have "t = s \<or> (\<exists>k. written n k off bs s t)"
  proof (cases "bs = []")
    case True
    then show ?thesis using assms lim by (auto simp: ramfs_core_write_def is_file_def fs_node_from_id_node)
  next
    case False
    from ramfs_invD(2) [OF assms(1)] assms(2) False lim show ?thesis
      by (cases rule: ramfs_core_write_cases) (use assms(3) in auto)
  qed
  then show "fs_resolve_path path t = fs_resolve_path path s" "is_file t m = is_file s m"
    using resolve_path_written is_file_written by auto
qed

lemma ramfs_open_creates:
  assumes "ramfs_inv s" "fs_resolve_path path s = Inl e" "ramfs_core_open path flags s = (Inr i, t)"
  obtains n p name where "i = fs_node_id n" "\<not> node_used (g_nodes s n)" "n < FS_MAX_NODES" "is_dir s p"
    "fs_resolve_path path t = Inr n" "t = (add_node n p name FS_NODE_FILE s)\<lparr>g_dirty := True\<rparr>" "is_file t n"
    "\<forall>m < n. node_used (g_nodes s m)"
proof -
  obtain pd name where rp: "fs_resolve_parent path s = Inr (pd, name)"
    and c0: "e = FS_ERR_NOT_FOUND" "flags AND FS_O_CREAT \<noteq> 0"
    using assms(2,3) by (cases "fs_resolve_parent path s") (auto simp: ramfs_core_open_def split: if_splits)
  obtain p where p: "pd = Some p" "is_dir s p" "seg_ok name" using assms(1) rp by (auto elim: resolve_parent_inv)
  obtain r s1 where c: "fs_create_node (Some p) name FS_NODE_FILE s = (r, s1)" by fastforce
  from c p(2,3) show ?thesis
  proof (cases rule: fs_create_node_cases)
    case err
    then show ?thesis using assms(2,3) rp p(1) c by (simp add: ramfs_core_open_def split: if_splits)
  next
    case (ok n)
    let ?t = "(add_node n p name FS_NODE_FILE s)\<lparr>g_dirty := True\<rparr>"
    have np: "n \<noteq> p" using ok(3) p(2) by (auto simp: is_dir_def live_def)
    have "(Inr i, t) = open_existing n flags ?t" using assms(2,3) rp p(1) c ok(1,6) c0 by (simp add: ramfs_core_open_def)
    then have e: "i = fs_node_id n" "t = ?t"
      using np by (auto simp: open_existing_def Let_def add_node_def new_node_def fun_upd_idem_iff fun_upd_twist split: if_splits)
    have "fs_resolve_path path (add_node n p name FS_NODE_FILE s) = Inr n"
      by (rule resolve_path_created [OF ramfs_invD(1) [OF assms(1)] ok(3) _ ok(4)]) (use rp p(1) in simp)
    moreover have r: "resolve_loop (u\<lparr>g_dirty := b\<rparr>) = resolve_loop u" for u b
      by (intro ext resolve_loop_cong) simp
    have "fs_resolve_path path (u\<lparr>g_dirty := b\<rparr>) = fs_resolve_path path u" for u b
      unfolding fs_resolve_path_def fs_resolve_path_from_def r by simp
    moreover have "is_file ?t n" using ok(2) np by (simp add: is_file_def live_def add_node_def new_node_def)
    ultimately show ?thesis using that [of n p name] e ok p(2) by simp
  qed
qed

text \<open>
  C28: Opening a path that does not exist for creation gives the handle of a new empty file that the
  path leads to, and no other file changes; after writing bytes through the handle, reading through
  the handle returns the part of these bytes that starts at the offset and fits the buffer, and
  reading the path returns them all.
\<close>

theorem ramfs_create_write_read:
  assumes "ramfs_inv s" "fs_resolve_path path s = Inl e" "ramfs_core_open path flags s = (Inr i, t)"
  shows "ramfs_file s i = None \<and> ramfs_file t = (ramfs_file s)(i \<mapsto> []) \<and>
    (\<forall>bs r u. ramfs_core_write i 0 bs t = (Inr r, u) \<longrightarrow>
       (\<forall>off cap. ramfs_core_read i off cap u = Inr (take (unat cap) (drop (unat off) bs))) \<and>
       (\<forall>cap. length bs \<le> cap \<longrightarrow> ramfs_core_read_file path cap u = Inr bs))"
proof (intro conjI allI impI)
  obtain n p name where n: "i = fs_node_id n" "\<not> node_used (g_nodes s n)" "n < FS_MAX_NODES" "is_dir s p"
    "fs_resolve_path path t = Inr n" "t = (add_node n p name FS_NODE_FILE s)\<lparr>g_dirty := True\<rparr>" "is_file t n"
    using ramfs_open_creates [OF assms] .
  have np: "n \<noteq> p" using n(2,4) by (auto simp: is_dir_def live_def)
  have t: "ramfs_inv t" using ramfs_core_open_inv [OF assms(1), of path flags] assms(3) by simp
  have nb: "file_bytes t n = []" using np by (simp add: n(6) file_bytes_def slot_bytes_def add_node_def new_node_def)
  show no: "ramfs_file s i = None"
  proof (rule ccontr)
    assume "ramfs_file s i \<noteq> None"
    then obtain m where m: "i = fs_node_id m" "is_file s m" by (auto simp: ramfs_file_Some)
    then have "m = n" using n(1,3) by (intro fs_node_id_inj) (simp_all add: is_file_def live_def)
    then show False using m(2) n(2) by (simp add: is_file_def live_def)
  qed
  have "is_file t m \<longleftrightarrow> is_file s m" if "m \<noteq> n" for m
    using that by (simp add: n(6) is_file_def live_def add_node_def)
  moreover have "file_bytes t m = file_bytes s m" if "m \<noteq> n" for m
    using that by (simp add: n(6) file_bytes_def slot_bytes_def add_node_def)
  ultimately have "ramfs_file t j = Some c \<longleftrightarrow> ramfs_file s j = Some c" if "j \<noteq> i" for j c
    using that n(1) unfolding ramfs_file_Some by metis
  then have other: "ramfs_file t j = ramfs_file s j" if "j \<noteq> i" for j
    using that by (metis not_None_eq)
  then show "ramfs_file t = (ramfs_file s)(i \<mapsto> [])"
    using ramfs_file_node [OF n(7)] nb n(1) by (auto simp: fun_eq_iff)
  fix bs r u assume w: "ramfs_core_write i 0 bs t = (Inr r, u)"
  note u = ramfs_write_resolve [OF t n(7) w [unfolded n(1)]]
  have ui: "ramfs_inv u" using ramfs_core_write_inv [OF t, of i 0 bs] w by simp
  have f: "is_file u n" using u(2) n(7) by simp
  have "write_at 0 bs [] = bs" by (simp add: write_at_def)
  then have b: "file_bytes u n = bs"
    using ramfs_file_node [OF f] ramfs_write_store(3) [OF t n(7) w [unfolded n(1)]] nb by simp
  show "ramfs_core_read i off cap u = Inr (take (unat cap) (drop (unat off) bs))" for off cap
    using ramfs_read_file_bytes [OF ui f, of off cap] by (simp add: n(1) b)
  show "ramfs_core_read_file path cap u = Inr bs" if "length bs \<le> cap" for cap
    using ramfs_core_read_file_bytes [of u path n cap] u(1) n(5) ui f b that by simp
qed

text \<open>
  C29: A handle is only the index of a node, and an index is reused at once: when a file is removed
  and its node is the lowest free one, the next file created anywhere gets the handle of the removed
  file. A holder of the old handle then reads and writes the new file.
\<close>

theorem ramfs_handle_reuse:
  assumes "ramfs_inv s" "fs_resolve_path old s = Inr n" "\<forall>m < n. node_used (g_nodes s m)"
    "ramfs_core_unlink old s = (Inr (), t)"
    "fs_resolve_path new t = Inl e" "ramfs_core_open new flags t = (Inr i, u)"
  shows "i = fs_node_id n \<and> is_file s n \<and> is_file u n \<and> fs_resolve_path new u = Inr n \<and> ramfs_file t i = None"
proof -
  have l: "live s n" using resolve_path_inv [OF assms(1,2)] .
  have f: "is_file s n"
    using node_kind [OF ramfs_invD(1) [OF assms(1)] l] assms(2,4)
    by (auto simp: ramfs_core_unlink_def is_dir_def split: if_splits)
  have t: "node_used (g_nodes t m) = (node_used (g_nodes s m) \<and> m \<noteq> n)" for m
    using assms(2,4) by (auto simp: ramfs_core_unlink_def Let_def detach_child_def zero_node_def split: if_splits option.splits)
  have inv: "ramfs_inv t" using ramfs_core_unlink_inv [OF assms(1), of old] assms(4) by simp
  obtain k p name where k: "i = fs_node_id k" "\<not> node_used (g_nodes t k)" "k < FS_MAX_NODES" "is_dir t p"
    "fs_resolve_path new u = Inr k" "u = (add_node k p name FS_NODE_FILE t)\<lparr>g_dirty := True\<rparr>" "is_file u k"
    "\<forall>m < k. node_used (g_nodes t m)"
    using ramfs_open_creates [OF inv assms(5,6)] .
  have "k = n" using k(2,8) assms(3) t by (metis linorder_neqE_nat)
  moreover have "ramfs_file t i = None"
  proof (rule ccontr)
    assume "ramfs_file t i \<noteq> None"
    then obtain m where m: "i = fs_node_id m" "is_file t m" by (auto simp: ramfs_file_Some)
    then have "m = k" using k(1,3) by (intro fs_node_id_inj) (simp_all add: is_file_def live_def)
    then show False using m(2) k(2) by (simp add: is_file_def live_def)
  qed
  ultimately show ?thesis using k f by simp
qed

text \<open>A concrete file system to apply the theorems to.\<close>

definition demo_ramfs :: ramfs where
  "demo_ramfs = (add_node 1 0 ''a'' FS_NODE_FILE boot_ramfs)\<lparr>g_dirty := True\<rparr>"

lemma fs_alloc_node_least:
  assumes "n < FS_MAX_NODES" "\<not> node_used (g_nodes s n)" "\<And>i. i < n \<Longrightarrow> node_used (g_nodes s i)"
  shows "fs_alloc_node s = Some (n, upd_node n (\<lambda>_. zero_node\<lparr>node_used := True, node_data_slot := RAMFS_NO_DATA_SLOT\<rparr>) s)"
proof -
  have "List.find (\<lambda>i. \<not> node_used (g_nodes s i)) [0..<FS_MAX_NODES] = Some n"
    using assms by (auto simp: find_Some_iff intro!: exI [of _ n])
  then show ?thesis by (simp add: fs_alloc_node_def)
qed

lemma segment_slash:
  assumes "seg_ok nm" "rest = [] \<or> hd rest = CHR ''/''"
  shows "fs_next_segment (CHR ''/'' # nm @ rest) = Inr (Some (nm, rest))"
proof -
  have "\<forall>c \<in> set nm. c \<noteq> CHR ''/''" using assms(1) by (auto simp: seg_ok_def)
  then have "takeWhile (\<lambda>c. c \<noteq> CHR ''/'') (nm @ rest) = nm" "dropWhile (\<lambda>c. c \<noteq> CHR ''/'') (nm @ rest) = rest"
    using assms(2) by (cases rest, simp_all)+
  moreover have "skip_slashes (CHR ''/'' # nm @ rest) = nm @ rest"
    using assms(1) by (cases nm) (auto simp: seg_ok_def skip_slashes_def)
  ultimately show ?thesis using assms(1) by (simp add: fs_next_segment_def seg_ok_def)
qed

lemmas top_segment = segment_slash [of _ "[]", simplified]

lemma resolve_top:
  assumes "g_root s = Some r" "node_type (g_nodes s r) = FS_NODE_DIR" "seg_ok nm"
  shows "fs_resolve_path (CHR ''/'' # nm) s =
      (case fs_find_child (Some r) nm s of None \<Rightarrow> Inl FS_ERR_NOT_FOUND | Some c \<Rightarrow> Inr c)"
    "fs_resolve_parent (CHR ''/'' # nm) s = Inr (Some r, nm)"
proof -
  have "fs_next_segment [] = Inr None" by (simp add: next_segment_none skip_slashes_def)
  with assms show "fs_resolve_path (CHR ''/'' # nm) s =
      (case fs_find_child (Some r) nm s of None \<Rightarrow> Inl FS_ERR_NOT_FOUND | Some c \<Rightarrow> Inr c)"
    "fs_resolve_parent (CHR ''/'' # nm) s = Inr (Some r, nm)"
    by (auto simp: fs_resolve_path_def fs_resolve_path_from_def fs_resolve_parent_def resolve_loop_next [OF top_segment]
        resolve_parent_next [OF top_segment] resolve_loop_end seg_ok_def fs_name_copy_def skip_slashes_def split: option.split)
qed

lemma boot_resolve:
  assumes "seg_ok nm"
  shows "fs_resolve_path (CHR ''/'' # nm) (boot_ramfs\<lparr>g_dirty := b\<rparr>) = Inl FS_ERR_NOT_FOUND"
    "fs_resolve_parent (CHR ''/'' # nm) (boot_ramfs\<lparr>g_dirty := b\<rparr>) = Inr (Some 0, nm)"
  using resolve_top [of "boot_ramfs\<lparr>g_dirty := b\<rparr>" 0 nm] assms
  by (simp_all add: boot_ramfs_def fs_find_child_def zero_node_def)

lemma boot_open:
  assumes "seg_ok nm"
  shows "ramfs_core_open (CHR ''/'' # nm) FS_O_CREAT (boot_ramfs\<lparr>g_dirty := b\<rparr>) =
    (Inr 2, (add_node 1 0 nm FS_NODE_FILE boot_ramfs)\<lparr>g_dirty := True\<rparr>)"
proof -
  let ?s = "boot_ramfs\<lparr>g_dirty := b\<rparr>"
  have "fs_alloc_node ?s = Some (1, upd_node 1 (\<lambda>_. zero_node\<lparr>node_used := True, node_data_slot := RAMFS_NO_DATA_SLOT\<rparr>) ?s)"
    by (rule fs_alloc_node_least) (auto simp: boot_ramfs_def zero_node_def)
  moreover have "fs_name_copy nm = Inr nm" using assms by (simp add: seg_ok_def fs_name_copy_def)
  ultimately have "fs_create_node (Some 0) nm FS_NODE_FILE ?s = (Inr 1, (add_node 1 0 nm FS_NODE_FILE boot_ramfs)\<lparr>g_dirty := b\<rparr>)"
    by (simp add: fs_create_node_def fs_find_child_def fs_attach_child_def boot_ramfs_def zero_node_def
        add_node_def new_node_def Let_def fun_upd_twist)
  then show ?thesis
    by (simp add: ramfs_core_open_def boot_resolve [OF assms] open_existing_def add_node_def new_node_def fs_node_id_def)
qed

lemma seg_ok_demo: "seg_ok ''a''" "seg_ok ''b''" by (simp_all add: seg_ok_def)

lemma demo_open: "ramfs_core_open ''/a'' FS_O_CREAT boot_ramfs = (Inr 2, demo_ramfs)"
  "fs_resolve_path ''/a'' boot_ramfs = Inl FS_ERR_NOT_FOUND" "fs_resolve_path ''/a'' demo_ramfs = Inr 1"
proof -
  have b: "boot_ramfs\<lparr>g_dirty := False\<rparr> = boot_ramfs" by (simp add: boot_ramfs_def)
  show "ramfs_core_open ''/a'' FS_O_CREAT boot_ramfs = (Inr 2, demo_ramfs)"
    using boot_open [OF seg_ok_demo(1), of False] b by (simp add: demo_ramfs_def)
  show "fs_resolve_path ''/a'' boot_ramfs = Inl FS_ERR_NOT_FOUND"
    using boot_resolve(1) [OF seg_ok_demo(1), of False] b by simp
  show "fs_resolve_path ''/a'' demo_ramfs = Inr 1"
    using resolve_top(1) [of demo_ramfs 0 "''a''"] seg_ok_demo(1)
    by (simp add: demo_ramfs_def boot_ramfs_def add_node_def new_node_def fs_find_child_def zero_node_def)
qed

lemma demo_file: "is_file demo_ramfs 1" "ramfs_inv demo_ramfs"
proof -
  show "ramfs_inv demo_ramfs" using ramfs_core_open_inv [OF boot_ramfs_inv, of "''/a''" FS_O_CREAT] demo_open(1) by simp
  show "is_file demo_ramfs 1"
    by (simp add: demo_ramfs_def is_file_def live_def add_node_def new_node_def)
qed

lemma demo_write:
  obtains t where "ramfs_core_write 2 0 ''hi'' demo_ramfs = (Inr 2, t)"
proof -
  have free: "\<not> (\<forall>k < RAMFS_DATA_SLOT_CAP. slot_used (g_data_slots demo_ramfs k))"
    by (auto simp: demo_ramfs_def add_node_def boot_ramfs_def zero_slot_def intro!: exI [of _ 0])
  have id: "fs_node_id 1 = 2" by (simp add: fs_node_id_def)
  show ?thesis
    using ramfs_invD(2) [OF demo_file(2)] demo_file(1)
    by (cases rule: ramfs_core_write_cases [of _ _ "''hi''" 0]) (use free id that in simp_all)
qed

theorem ramfs_create_write_read_witness:
  "ramfs_file boot_ramfs 2 = None \<and> ramfs_file demo_ramfs 2 = Some [] \<and>
   (\<exists>t. ramfs_core_write 2 0 ''hi'' demo_ramfs = (Inr 2, t) \<and> ramfs_core_read 2 0 512 t = Inr ''hi'' \<and>
      ramfs_core_read 2 1 512 t = Inr ''i'' \<and> ramfs_core_read_file ''/a'' 10 t = Inr ''hi'')"
proof -
  obtain t where t: "ramfs_core_write 2 0 ''hi'' demo_ramfs = (Inr 2, t)" by (rule demo_write)
  show ?thesis using ramfs_create_write_read [OF boot_ramfs_inv demo_open(2,1)] t by fastforce
qed

theorem ramfs_write_refines_witness:
  "case ramfs_core_write (fs_node_id 1) 0 ''hi'' demo_ramfs of
      (Inr r, t) \<Rightarrow> unat r = 2 \<and> ramfs_file t = (ramfs_file demo_ramfs)(fs_node_id 1 \<mapsto> ''hi'')
    | (Inl e, t) \<Rightarrow> False"
proof -
  obtain t where t: "ramfs_core_write 2 0 ''hi'' demo_ramfs = (Inr 2, t)" by (rule demo_write)
  have "fs_node_id 1 = 2" "file_bytes demo_ramfs 1 = []"
    by (simp_all add: fs_node_id_def file_bytes_def slot_bytes_def demo_ramfs_def add_node_def new_node_def)
  then show ?thesis using ramfs_write_refines [OF demo_file(2,1), of 0 "''hi''"] t by (simp add: write_at_def)
qed

theorem ramfs_handle_reuse_witness:
  "ramfs_core_open ''/a'' FS_O_CREAT boot_ramfs = (Inr 2, demo_ramfs) \<and>
   (\<exists>t u. ramfs_core_unlink ''/a'' demo_ramfs = (Inr (), t) \<and> ramfs_core_open ''/b'' FS_O_CREAT t = (Inr 2, u) \<and>
      is_file u 1 \<and> fs_resolve_path ''/b'' u = Inr 1)"
proof -
  let ?t = "boot_ramfs\<lparr>g_dirty := True\<rparr>" and ?u = "(add_node 1 0 ''b'' FS_NODE_FILE boot_ramfs)\<lparr>g_dirty := True\<rparr>"
  have "ramfs_core_unlink ''/a'' demo_ramfs = (Inr (), ?t)"
    unfolding ramfs_core_unlink_def demo_open(3)
    by (simp add: demo_ramfs_def boot_ramfs_def add_node_def new_node_def zero_node_def detach_child_def fun_eq_iff)
  moreover have "\<forall>m < 1. node_used (g_nodes demo_ramfs m)"
    by (simp add: demo_ramfs_def boot_ramfs_def add_node_def)
  ultimately show ?thesis
    using ramfs_handle_reuse [OF demo_file(2) demo_open(3) _ _ boot_resolve(1) [OF seg_ok_demo(2)] boot_open [OF seg_ok_demo(2)]]
      boot_open [OF seg_ok_demo(2), of True] demo_open(1) by blast
qed

end
