(* ===== verification/Ramfs_Cwd.thy ===== *)
theory Ramfs_Cwd
  imports Ramfs_Files
begin

text \<open>
  The working directory of the in-memory file system: the path that \<open>ramfs_core_get_cwd_path\<close>
  builds from the chain of parents leads back to the directory.
\<close>

subsection \<open>The chain of parents\<close>

lemma cwd_chain_take: "n \<le> m \<Longrightarrow> cwd_chain n i s = take n (cwd_chain m i s)"
proof (induction n arbitrary: m i)
  case (Suc n)
  then obtain m' where "m = Suc m'" "n \<le> m'" by (cases m) auto
  then show ?case using Suc.IH by (auto split: option.split)
qed simp

lemma node_parent_dir:
  assumes "tree_ok s" "live s i" "node_parent (g_nodes s i) = Some p"
  shows "is_dir s p" "live s p" "i \<in> set (node_children (g_nodes s p))"
  using tree_ok_node [OF assms(1,2)] assms(3) unfolding node_ok_def is_dir_def by blast+

lemma parent_None_root: "tree_ok s \<Longrightarrow> live s i \<Longrightarrow> node_parent (g_nodes s i) = None \<longleftrightarrow> g_root s = Some i"
  using tree_ok_node unfolding node_ok_def by blast

lemma cwd_chain_rank:
  assumes "tree_ok s" "\<And>i p. live s i \<Longrightarrow> node_parent (g_nodes s i) = Some p \<Longrightarrow> rank p < (rank i :: nat)" "live s i"
  shows "sorted_wrt (\<lambda>a b. rank b < rank a) (cwd_chain n i s) \<and> (\<forall>j \<in> set (cwd_chain n i s). live s j \<and> rank j \<le> rank i)"
  using assms(3)
proof (induction n arbitrary: i)
  case (Suc n)
  show ?case
  proof (cases "Some i = g_root s \<or> node_parent (g_nodes s i) = None")
    case False
    then obtain p where p: "node_parent (g_nodes s i) = Some p" by auto
    note IH = Suc.IH [OF node_parent_dir(2) [OF assms(1) Suc.prems p]]
    have "rank p < rank i" using assms(2) Suc.prems p by simp
    then show ?thesis using IH False p Suc.prems by fastforce
  qed (use Suc.prems in auto)
qed simp

lemma cwd_chain_distinct:
  assumes "tree_ok s" "live s i"
  shows "distinct (cwd_chain n i s)" "length (cwd_chain n i s) \<le> FS_MAX_NODES"
proof -
  obtain rank :: "nat \<Rightarrow> nat" where "\<And>i p. live s i \<Longrightarrow> node_parent (g_nodes s i) = Some p \<Longrightarrow> rank p < rank i"
    using assms(1) by (auto simp: tree_ok_def)
  note r = cwd_chain_rank [where n = n and rank = rank, OF assms(1) this assms(2)]
  have "sorted_wrt (\<lambda>a b. rank b < rank a) xs \<Longrightarrow> distinct xs" for xs
    by (induction xs) auto
  then show d: "distinct (cwd_chain n i s)" using r by blast
  have "set (cwd_chain n i s) \<subseteq> {..<FS_MAX_NODES}" using r by (auto simp: live_def)
  then have "card (set (cwd_chain n i s)) \<le> card {..<FS_MAX_NODES}" by (intro card_mono) simp_all
  then show "length (cwd_chain n i s) \<le> FS_MAX_NODES" using distinct_card [OF d] by simp
qed

text \<open>A sequence of nodes, each a child of the one before.\<close>

fun descends :: "ramfs \<Rightarrow> nat \<Rightarrow> nat list \<Rightarrow> bool" where
  "descends s a [] = True"
| "descends s a (b # bs) = (live s b \<and> node_parent (g_nodes s b) = Some a \<and> descends s b bs)"

lemma descends_snoc:
  "descends s a (xs @ [y]) \<longleftrightarrow> descends s a xs \<and> live s y \<and> node_parent (g_nodes s y) = Some (last (a # xs))"
  by (induction xs arbitrary: a) auto

lemma cwd_chain_descends:
  assumes "tree_ok s" "live s i" "length (cwd_chain n i s) < n"
  shows "\<exists>r ns. rev (cwd_chain n i s) = r # ns \<and> g_root s = Some r \<and> descends s r ns \<and> last (r # ns) = i"
  using assms(2,3)
proof (induction n arbitrary: i)
  case (Suc n)
  show ?case
  proof (cases "g_root s = Some i")
    case True
    then show ?thesis by auto
  next
    case False
    then obtain p where p: "node_parent (g_nodes s i) = Some p" using parent_None_root [OF assms(1) Suc.prems(1)] by auto
    then have c: "cwd_chain (Suc n) i s = i # cwd_chain n p s" using False by auto
    obtain r ns where r: "rev (cwd_chain n p s) = r # ns" "g_root s = Some r" "descends s r ns" "last (r # ns) = p"
      using Suc.IH [OF node_parent_dir(2) [OF assms(1) Suc.prems(1) p]] Suc.prems(2) c by auto
    have "rev (cwd_chain (Suc n) i s) = r # (ns @ [i])" using c r(1) by simp
    moreover have "descends s r (ns @ [i])" using r(3,4) p Suc.prems(1) by (simp add: descends_snoc)
    ultimately show ?thesis using r(2) by auto
  qed
qed simp

lemma cwd_chain_full:
  assumes "tree_ok s" "live s i"
  obtains r ns where "rev (cwd_chain (FS_PATH_CAP div 2) i s) = r # ns" "g_root s = Some r" "descends s r ns"
    "last (r # ns) = i" "r \<notin> set ns"
proof -
  have "cwd_chain (FS_PATH_CAP div 2) i s = take (FS_PATH_CAP div 2) (cwd_chain (Suc FS_MAX_NODES) i s)"
    by (rule cwd_chain_take) simp
  also have "\<dots> = cwd_chain (Suc FS_MAX_NODES) i s" using cwd_chain_distinct(2) [OF assms, of "Suc FS_MAX_NODES"] by simp
  finally have e: "cwd_chain (FS_PATH_CAP div 2) i s = cwd_chain (Suc FS_MAX_NODES) i s" .
  have "length (cwd_chain (Suc FS_MAX_NODES) i s) < Suc FS_MAX_NODES"
    using cwd_chain_distinct(2) [OF assms] le_imp_less_Suc by blast
  from cwd_chain_descends [OF assms this] obtain r ns where
    r: "rev (cwd_chain (Suc FS_MAX_NODES) i s) = r # ns" "g_root s = Some r" "descends s r ns" "last (r # ns) = i" by blast
  have "distinct (r # ns)" using cwd_chain_distinct(1) [OF assms, of "Suc FS_MAX_NODES"] by (simp only: flip: r(1)) simp
  then show ?thesis using that e r by simp
qed

subsection \<open>The path and where it leads\<close>

lemma find_child_own:
  assumes "tree_ok s" "live s b" "node_parent (g_nodes s b) = Some a"
  shows "fs_find_child (Some a) (node_name (g_nodes s b)) s = Some b"
proof -
  note d = node_parent_dir [OF assms]
  obtain xs ys where c: "node_children (g_nodes s a) = xs @ b # ys" using split_list [OF d(3)] by blast
  have "sorted_wrt (\<lambda>c d. \<not> fs_name_eq (node_name (g_nodes s c)) (node_name (g_nodes s d))) (node_children (g_nodes s a))"
    using tree_ok_node [OF assms(1) d(2)] unfolding node_ok_def by blast
  then have "\<forall>x \<in> set xs. \<not> fs_name_eq (node_name (g_nodes s x)) (node_name (g_nodes s b))"
    unfolding c by (simp add: sorted_wrt_append)
  moreover have "List.find P (us @ v # vs) = Some v" if "\<forall>x \<in> set us. \<not> P x" "P v" for P us vs and v :: nat
    using that by (induction us) auto
  ultimately show ?thesis using d(1) c by (simp add: fs_find_child_def is_dir_def)
qed

definition path_of :: "ramfs \<Rightarrow> nat list \<Rightarrow> string" where
  "path_of s ns = concat (map (\<lambda>i. CHR ''/'' # node_name (g_nodes s i)) ns)"

lemma resolve_path_of:
  assumes "tree_ok s" "live s a" "descends s a ns"
  shows "resolve_loop s a (path_of s ns) = Inr (last (a # ns))"
  using assms(2,3)
proof (induction ns arbitrary: a)
  case Nil
  then show ?case by (simp add: path_of_def resolve_loop_end(1) next_segment_none skip_slashes_def)
next
  case (Cons b bs)
  then have b: "live s b" "node_parent (g_nodes s b) = Some a" by simp_all
  have ok: "seg_ok (node_name (g_nodes s b))" using tree_ok_node [OF assms(1) b(1)] b(2) by (simp add: node_ok_def)
  have "path_of s bs = [] \<or> hd (path_of s bs) = CHR ''/''" by (cases bs) (simp_all add: path_of_def)
  from segment_slash [OF ok this] have
    seg: "fs_next_segment (path_of s (b # bs)) = Inr (Some (node_name (g_nodes s b), path_of s bs))"
    by (simp add: path_of_def)
  have "node_type (g_nodes s a) = FS_NODE_DIR" using node_parent_dir(1) [OF assms(1) b] by (simp add: is_dir_def)
  then show ?case
    using Cons ok find_child_own [OF assms(1) b] b by (simp add: resolve_loop_next [OF seg] seg_ok_def)
qed

lemma take_take_append: "take n (take n xs @ ys) = take n (xs @ ys)"
  by (simp add: min_def)

lemma fold_cwd_append:
  "length buf < FS_PATH_CAP \<Longrightarrow>
   fold cwd_append names buf = take (FS_PATH_CAP - 1) (buf @ concat (map (\<lambda>nm. CHR ''/'' # nm) names))"
proof (induction names arbitrary: buf)
  case (Cons nm names)
  have "cwd_append nm buf = take (FS_PATH_CAP - 1) (buf @ CHR ''/'' # nm)"
    using Cons.prems by (auto simp: cwd_append_def)
  then have "fold cwd_append (nm # names) buf = take (FS_PATH_CAP - 1)
      (take (FS_PATH_CAP - 1) (buf @ CHR ''/'' # nm) @ concat (map (\<lambda>nm. CHR ''/'' # nm) names))"
    using Cons.IH [of "take (FS_PATH_CAP - 1) (buf @ CHR ''/'' # nm)"] by simp
  also have "\<dots> = take (FS_PATH_CAP - 1) ((buf @ CHR ''/'' # nm) @ concat (map (\<lambda>nm. CHR ''/'' # nm) names))"
    by (rule take_take_append)
  finally show ?case by simp
qed simp

text \<open>
  C30: The working directory's path, if it is short enough not to be cut to the 127 characters of its
  buffer, leads back to the working directory: changing to it succeeds and changes nothing. The
  chain of parents always fits the 64 entries that the code keeps.
\<close>

theorem ramfs_cwd_path_roundtrip:
  assumes "ramfs_inv s" "length (ramfs_core_get_cwd_path s) < FS_PATH_CAP - 1"
  shows "ramfs_core_change_dir (ramfs_core_get_cwd_path s) s = (Inr (), s)"
proof -
  note ok = ramfs_invD(1) [OF assms(1)]
  obtain c where c: "g_cwd s = Some c" "is_dir s c" using start_is_dir [OF ok, of False] by auto
  then have lc: "live s c" by (simp add: is_dir_def)
  obtain r ns where r: "rev (cwd_chain (FS_PATH_CAP div 2) c s) = r # ns" "g_root s = Some r" "descends s r ns"
    "last (r # ns) = c" "r \<notin> set ns" using cwd_chain_full [OF ok lc] .
  have lr: "live s r" using start_is_dir [OF ok, of True] r(2) by (auto simp: is_dir_def)
  have "fs_resolve_path (ramfs_core_get_cwd_path s) s = Inr c"
  proof (cases "r = c")
    case True
    then show ?thesis
      using c r(2) by (simp add: ramfs_core_get_cwd_path_def fs_resolve_path_def fs_resolve_path_from_def
          resolve_loop_end(1) next_segment_none skip_slashes_def)
  next
    case False
    then have ns: "ns \<noteq> []" using r(4) by auto
    have "filter (\<lambda>i. Some i \<noteq> g_root s) (r # ns) = ns" using r(2,5) by (auto simp: filter_id_conv)
    then have "fold cwd_append (map (\<lambda>i. node_name (g_nodes s i)) (filter (\<lambda>i. Some i \<noteq> g_root s) (rev (cwd_chain (FS_PATH_CAP div 2) c s)))) []
        = take (FS_PATH_CAP - 1) (path_of s ns)"
      unfolding r(1) by (simp add: fold_cwd_append path_of_def comp_def)
    moreover have "path_of s ns \<noteq> []" "hd (path_of s ns) = CHR ''/''" using ns by (cases ns; simp add: path_of_def)+
    ultimately have p: "ramfs_core_get_cwd_path s = take (FS_PATH_CAP - 1) (path_of s ns)"
      using c(1) r(2) False by (simp add: ramfs_core_get_cwd_path_def Let_def)
    then have "ramfs_core_get_cwd_path s = path_of s ns" using assms(2) by simp
    then show ?thesis
      using resolve_path_of [OF ok lr r(3)] r(2,4) \<open>path_of s ns \<noteq> []\<close> \<open>hd (path_of s ns) = _\<close>
      by (simp add: fs_resolve_path_def fs_resolve_path_from_def)
  qed
  then show ?thesis using c by (simp add: ramfs_core_change_dir_def is_dir_def)
qed

theorem ramfs_cwd_path_roundtrip_witness:
  "ramfs_core_get_cwd_path boot_ramfs = ''/'' \<and> ramfs_core_change_dir ''/'' boot_ramfs = (Inr (), boot_ramfs)"
proof -
  have "ramfs_core_get_cwd_path boot_ramfs = ''/''" by (simp add: ramfs_core_get_cwd_path_def boot_ramfs_def)
  then show ?thesis using ramfs_cwd_path_roundtrip [OF boot_ramfs_inv] by simp
qed

end
