(* ===== verification/Klog.thy ===== *)
theory Klog
  imports Mm_Heap Fs_Types
begin

text \<open>
  The services that the file layer and the log call, and the kernel log of
  \<open>src/src/kernel/core/klog/klog_core.c\<close>. The services are the entry points of \<open>tty.c\<close> (the
  console of \<open>Tty_Line\<close>), the keyboard wait, the timer, the memory statistics and the module list,
  as a table of functions over their state. A call that may wait forever for a key returns an
  option: \<open>None\<close> when it does not return.
\<close>

subsection \<open>Services\<close>

record 'c services =
  sv_putc :: "char \<Rightarrow> 'c \<Rightarrow> 'c"
  sv_set_color :: "u32 \<Rightarrow> 'c \<Rightarrow> 'c"
  sv_hex_u32 :: "u32 \<Rightarrow> 'c \<Rightarrow> 'c"
  sv_clear :: "'c \<Rightarrow> 'c"
  sv_get_cursor :: "'c \<Rightarrow> u16 \<times> u16"
  sv_text_begin :: "u16 \<Rightarrow> u16 \<Rightarrow> 'c \<Rightarrow> 'c"
  sv_line_redraw :: "char list \<Rightarrow> u32 \<Rightarrow> u16 \<Rightarrow> u16 \<Rightarrow> 'c \<Rightarrow> 'c"
  sv_readline :: "u32 \<Rightarrow> 'c \<Rightarrow> ((int \<times> char list) \<times> 'c) option"
  sv_take_key :: "'c \<Rightarrow> int \<times> 'c"
  sv_cpu_idle :: "'c \<Rightarrow> 'c"
  sv_raise :: "u32 \<Rightarrow> 'c \<Rightarrow> 'c"
  sv_serial_write :: "char \<Rightarrow> 'c \<Rightarrow> 'c"
  sv_ticks :: "'c \<Rightarrow> u64"
  sv_mm_stats :: "'c \<Rightarrow> mm_stats"
  sv_modules :: "'c \<Rightarrow> string option list"

abbreviation "TTY_RED \<equiv> 4 :: u32"
abbreviation "TTY_YELLOW \<equiv> 14 :: u32"
abbreviation "TTY_WHITE \<equiv> 15 :: u32"

definition sv_puts :: "'c services \<Rightarrow> string \<Rightarrow> 'c \<Rightarrow> 'c" where
  "sv_puts S str c = fold (sv_putc S) str c"

subsection \<open>The log\<close>

definition digit_char :: "u32 \<Rightarrow> char" where
  "digit_char d = char_of (48 + unat d)"

text \<open>The digits of \<open>klog_put_u32_dec\<close>, the last one first.\<close>

primrec klog_digits :: "nat \<Rightarrow> u32 \<Rightarrow> string" where
  "klog_digits 0 value = []"
| "klog_digits (Suc n) value =
     (if value = 0 then [] else digit_char (value mod 10) # klog_digits n (value div 10))"

definition klog_put_u32_dec :: "'c services \<Rightarrow> u32 \<Rightarrow> 'c \<Rightarrow> 'c" where
  "klog_put_u32_dec S value c =
     (if value = 0 then sv_putc S (CHR ''0'') c
      else fold (sv_putc S) (rev (klog_digits 10 value)) c)"

definition klog_timestamp :: "'c services \<Rightarrow> 'c \<Rightarrow> 'c" where
  "klog_timestamp S c =
     (let ticks = ucast (sv_ticks S c) :: u32;
          seconds = ticks div 100;
          centiseconds = ticks mod 100;
          c1 = sv_putc S (CHR ''['') c;
          c2 = klog_put_u32_dec S seconds c1;
          c3 = sv_putc S (CHR ''.'') c2;
          c4 = (if centiseconds < 10 then sv_putc S (CHR ''0'') c3 else c3);
          c5 = klog_put_u32_dec S centiseconds c4
      in sv_puts S ''] '' c5)"

definition klog_info_core :: "'c services \<Rightarrow> string \<Rightarrow> string \<Rightarrow> 'c \<Rightarrow> 'c" where
  "klog_info_core S prefix msg c =
     sv_putc S (CHR 0x0A) (sv_puts S msg (sv_puts S '': '' (sv_puts S prefix (sv_puts S ''INFO  ''
       (klog_timestamp S (sv_set_color S TTY_YELLOW c))))))"

text \<open>What \<open>panic_core\<close> leaves on the console; it then halts for ever.\<close>

definition panic_core :: "'c services \<Rightarrow> string \<Rightarrow> 'c \<Rightarrow> 'c" where
  "panic_core S msg c =
     sv_putc S (CHR 0x0A) (sv_puts S msg (sv_puts S ''PANIC kernel: ''
       (klog_timestamp S (sv_set_color S TTY_RED c))))"

subsection \<open>Decimal numbers\<close>

definition dec_value :: "string \<Rightarrow> nat" where
  "dec_value s = fold (\<lambda>ch v. v * 10 + (of_char ch - 48)) s 0"

definition is_digit :: "char \<Rightarrow> bool" where
  "is_digit ch \<longleftrightarrow> 48 \<le> (of_char ch :: nat) \<and> (of_char ch :: nat) \<le> 57"

lemma dec_value_snoc: "dec_value (s @ [ch]) = dec_value s * 10 + (of_char ch - 48)"
  by (simp add: dec_value_def)

lemma unat_mod10: "unat (v mod 10 :: u32) = unat v mod 10" and unat_div10: "unat (v div 10 :: u32) = unat v div 10"
  by (simp_all add: unat_mod unat_div)

lemma digit_char_value: "(of_char (digit_char (v mod 10)) :: nat) = 48 + unat v mod 10"
proof -
  have "48 + unat v mod 10 < 256" using mod_less_divisor [of 10 "unat v"] by linarith
  then show ?thesis by (simp add: digit_char_def unat_mod10)
qed

lemma klog_digits_value:
  "unat v < 10 ^ n \<Longrightarrow> dec_value (rev (klog_digits n v)) = unat v \<and> list_all is_digit (klog_digits n v) \<and>
    (v \<noteq> 0 \<longrightarrow> klog_digits n v \<noteq> [] \<and> last (klog_digits n v) \<noteq> CHR ''0'')"
proof (induction n arbitrary: v)
  case 0
  then show ?case by (simp add: dec_value_def unat_eq_zero)
next
  case (Suc n)
  show ?case
  proof (cases "v = 0")
    case False
    have lt: "unat (v div 10) < 10 ^ n" using Suc.prems by (simp add: unat_div10 less_mult_imp_div_less mult.commute)
    note IH = Suc.IH [OF lt]
    have "dec_value (rev (klog_digits (Suc n) v)) = unat v"
      using False IH by (simp add: dec_value_snoc digit_char_value unat_div10)
    moreover have "is_digit (digit_char (v mod 10))" using mod_less_divisor [of 10 "unat v"]
      by (simp add: is_digit_def digit_char_value)
    moreover have "last (klog_digits (Suc n) v) \<noteq> CHR ''0''"
    proof (cases "v div 10 = 0")
      case True
      then have "unat v < 10" using unat_div10 [of v] by (simp add: div_eq_0_iff)
      moreover have "unat v \<noteq> 0" using False by (simp add: unat_eq_zero)
      ultimately have "digit_char (v mod 10) \<noteq> CHR ''0''"
        using digit_char_value [of v] by auto
      then show ?thesis using False True by (cases n) simp_all
    next
      case nz: False
      then show ?thesis using IH False by simp
    qed
    ultimately show ?thesis using False IH by simp
  qed (simp add: dec_value_def)
qed

text \<open>
  The log prints a number as its decimal digits without leading zeros: what reaches the console
  is a digit string whose value is the number, for every 32-bit number.
\<close>

theorem klog_prints_decimal:
  "\<exists>s. (\<forall>S c. klog_put_u32_dec S v c = fold (sv_putc S) s c) \<and> dec_value s = unat v \<and> list_all is_digit s \<and>
     s \<noteq> [] \<and> (hd s = CHR ''0'' \<longrightarrow> s = ''0'')"
proof (cases "v = 0")
  case True
  then show ?thesis by (intro exI [of _ "''0''"]) (simp add: klog_put_u32_dec_def dec_value_def is_digit_def)
next
  case False
  have "unat v < 10 ^ 10" using unat_u32_less [of v] by simp
  from klog_digits_value [OF this] False show ?thesis
    by (intro exI [of _ "rev (klog_digits 10 v)"])
      (simp add: klog_put_u32_dec_def hd_rev list_all_rev del: klog_digits.simps)
qed

theorem klog_prints_decimal_witness:
  "\<exists>s. (\<forall>(S :: string services) c. klog_put_u32_dec S 40960 c = fold (sv_putc S) s c) \<and> dec_value s = 40960 \<and>
     list_all is_digit s \<and> hd s \<noteq> CHR ''0''"
proof -
  obtain s where "\<forall>(S :: string services) c. klog_put_u32_dec S 40960 c = fold (sv_putc S) s c" "dec_value s = 40960"
    "list_all is_digit s" "hd s = CHR ''0'' \<longrightarrow> s = ''0''"
    using klog_prints_decimal [of 40960] by auto
  moreover from this have "hd s \<noteq> CHR ''0''" by (auto simp: dec_value_def)
  ultimately show ?thesis by blast
qed

end
