(* ===== verification/Pseudo_Fs.thy ===== *)
theory Pseudo_Fs
  imports Klog Ramfs_Files
begin

text \<open>
  The virtual mount points \<open>/dev\<close> and \<open>/proc\<close>: \<open>pseudo_core.c\<close>, \<open>devfs_core.c\<close> and
  \<open>procfs_core.c\<close> under \<open>src/src/kernel/core/fs/\<close>. Output pointers are never null here: every caller
  in \<open>fs_core.c\<close> passes the ones it has tested.
\<close>

subsection \<open>Device files\<close>

definition devfs_read :: "'c services \<Rightarrow> u32 \<Rightarrow> u32 \<Rightarrow> u32 \<Rightarrow> 'c \<Rightarrow> (char list fs_result \<times> 'c) option" where
  "devfs_read S which off cap c =
     (if which = 0 then Some (Inr [], c)
      else if which = 1 then Some (Inr (replicate (unat cap) (CHR 0x00)), c)
      else if which = 2 \<or> which = 3
      then (case sv_readline S cap c of
              None \<Rightarrow> None
            | Some ((rc, line), d) \<Rightarrow> Some (if rc < 0 then Inl FS_ERR_INVALID else Inr line, d))
      else if which = 4 \<or> which = 5 then Some (Inr [], c)
      else Some (Inl FS_ERR_NOT_FOUND, c))"

text \<open>One line for the log: at most \<open>room\<close> characters, up to a line feed or carriage return, which is dropped.\<close>

fun kmsg_line :: "nat \<Rightarrow> char list \<Rightarrow> string \<times> char list" where
  "kmsg_line room [] = ([], [])"
| "kmsg_line 0 (ch # data) = ([], ch # data)"
| "kmsg_line (Suc room) (ch # data) =
     (if ch = CHR 0x0A \<or> ch = CHR 0x0D then ([], data)
      else let (line, rest) = kmsg_line room data in (ch # line, rest))"

lemma kmsg_line_le: "length (snd (kmsg_line n data)) \<le> length data"
  by (induction n data rule: kmsg_line.induct) (auto split: prod.splits)

lemma kmsg_line_shorter:
  assumes "0 < n" "data \<noteq> []" "kmsg_line n data = (line, rest)"
  shows "length rest < length data"
proof -
  obtain m ch d where n: "n = Suc m" "data = ch # d" using assms(1,2) by (cases n; cases data) auto
  show ?thesis
    using assms(3) kmsg_line_le [of m d] unfolding n by (auto split: prod.splits if_splits)
qed

lemma kmsg_line_95: "data \<noteq> [] \<Longrightarrow> (line, rest) = kmsg_line 95 data \<Longrightarrow> length rest < length data"
  using kmsg_line_shorter [of 95 data line rest] by simp

function kmsg_loop :: "'c services \<Rightarrow> char list \<Rightarrow> 'c \<Rightarrow> 'c" where
  "kmsg_loop S data c =
     (if data = [] then c
      else let (line, rest) = kmsg_line 95 data
           in kmsg_loop S rest (if line \<noteq> [] then klog_info_core S ''kmsg'' (takeWhile (\<lambda>ch. ch \<noteq> CHR 0x00) line) c else c))"
  by auto
termination
  by (relation "measure (\<lambda>(S, data, c). length data)") (auto dest: kmsg_line_95)

declare kmsg_loop.simps [simp del]

definition devfs_write :: "'c services \<Rightarrow> u32 \<Rightarrow> char list \<Rightarrow> 'c \<Rightarrow> u32 fs_result \<times> 'c" where
  "devfs_write S which data c =
     (if which = 0 \<or> which = 1 then (Inr (of_nat (length data)), c)
      else if which = 2 \<or> which = 3 then (Inr (of_nat (length data)), fold (sv_putc S) data c)
      else if which = 4 then (Inr (of_nat (length data)), fold (sv_serial_write S) data c)
      else if which = 5 then (Inr (of_nat (length data)), kmsg_loop S data c)
      else (Inl FS_ERR_NOT_FOUND, c))"

subsection \<open>Process files\<close>

abbreviation "PROC_BUF_SIZE \<equiv> 480 :: nat"

text \<open>The writer: the text so far, bounded by the buffer with its terminator.\<close>

definition proc_char :: "nat \<Rightarrow> char \<Rightarrow> string \<Rightarrow> string" where
  "proc_char cap ch w = (if length w + 1 < cap then w @ [ch] else w)"

definition proc_text :: "nat \<Rightarrow> string \<Rightarrow> string \<Rightarrow> string" where
  "proc_text cap str w = fold (proc_char cap) str w"

primrec proc_digits :: "nat \<Rightarrow> u32 \<Rightarrow> string" where
  "proc_digits 0 n = []"
| "proc_digits (Suc k) n = digit_char (n mod 10) # (if n div 10 = 0 then [] else proc_digits k (n div 10))"

definition proc_num :: "nat \<Rightarrow> u32 \<Rightarrow> string \<Rightarrow> string" where
  "proc_num cap n w = fold (proc_char cap) (rev (proc_digits 11 n)) w"

definition proc_build :: "'c services \<Rightarrow> u32 \<Rightarrow> nat \<Rightarrow> 'c \<Rightarrow> string" where
  "proc_build S which cap c =
     (if which = 0 then proc_text cap (''System/1 (Adava Software) SMOD ABI 3'' @ [CHR 0x0A]) []
      else if which = 1
      then let ticks = ucast (sv_ticks S c) :: u32
           in proc_char cap (CHR 0x0A) (proc_char cap (digit_char (ticks mod 10))
                (proc_char cap (digit_char (ticks mod 100 div 10)) (proc_char cap (CHR ''.'')
                  (proc_num cap (ticks div 100) []))))
      else if which = 2
      then let st = sv_mm_stats S c;
               w1 = proc_text cap ('' kB'' @ [CHR 0x0A]) (proc_num cap (total_pages st * 4) (proc_text cap ''MemTotal: '' []));
               w2 = proc_text cap ('' kB'' @ [CHR 0x0A]) (proc_num cap (free_pages st * 4) (proc_text cap ''MemFree: '' w1))
           in proc_text cap ('' B'' @ [CHR 0x0A]) (proc_num cap (heap_used_bytes st) (proc_text cap ''HeapUsed: '' w2))
      else if which = 3
      then fold (\<lambda>m w. case m of None \<Rightarrow> w | Some name \<Rightarrow> proc_char cap (CHR 0x0A) (proc_text cap name w)) (sv_modules S c) []
      else [])"

definition procfs_read :: "'c services \<Rightarrow> u32 \<Rightarrow> u32 \<Rightarrow> u32 \<Rightarrow> 'c \<Rightarrow> char list fs_result" where
  "procfs_read S which off cap c =
     (if 4 \<le> which then Inl FS_ERR_INVALID
      else let snapshot = proc_build S which PROC_BUF_SIZE c; n = of_nat (length snapshot)
           in if n \<le> off then Inr []
              else Inr (take (unat (if n - off < cap then n - off else cap)) (drop (unat off) snapshot)))"

definition procfs_size :: "'c services \<Rightarrow> u32 \<Rightarrow> 'c \<Rightarrow> u32 fs_result" where
  "procfs_size S which c =
     (if 4 \<le> which then Inl FS_ERR_INVALID else Inr (of_nat (length (proc_build S which PROC_BUF_SIZE c))))"

subsection \<open>The two mount points\<close>

abbreviation "PSEUDO_FD_TAG \<equiv> 0x80000000 :: u32"

definition PSEUDO_IS_FD :: "u32 \<Rightarrow> bool" where
  "PSEUDO_IS_FD i \<longleftrightarrow> i AND PSEUDO_FD_TAG \<noteq> 0"

definition dev_names :: "string list" where
  "dev_names = [''null'', ''zero'', ''tty'', ''console'', ''ttyS0'', ''kmsg'']"

definition proc_names :: "string list" where
  "proc_names = [''version'', ''uptime'', ''meminfo'', ''modules'']"

fun same :: "string \<Rightarrow> string \<Rightarrow> bool" where
  "same (a # as) (b # bs) = (if a = b then same as bs else False)"
| "same as bs = (as = [] \<and> bs = [])"

definition mount :: "string \<Rightarrow> nat" where
  "mount p =
     (if take 4 p = ''/dev'' \<and> (drop 4 p = [] \<or> hd (drop 4 p) = CHR ''/'') then 1
      else if take 5 p = ''/proc'' \<and> (drop 5 p = [] \<or> hd (drop 5 p) = CHR ''/'') then 2
      else 0)"

definition pseudo_fs_is_path :: "string \<Rightarrow> bool" where
  "pseudo_fs_is_path path \<longleftrightarrow> mount path \<noteq> 0"

text \<open>\<open>-2\<close> is the device directory, \<open>-3\<close> the process directory, \<open>-1\<close> nothing; files count from 0.\<close>

definition lookup :: "string \<Rightarrow> int" where
  "lookup path =
     (if mount path = 1
      then if same path ''/dev'' then - 2
           else (case List.find (\<lambda>i. same (drop 5 path) (dev_names ! i)) [0..<6] of None \<Rightarrow> - 1 | Some i \<Rightarrow> int i)
      else if mount path = 2
      then if same path ''/proc'' then - 3
           else (case List.find (\<lambda>i. same (drop 6 path) (proc_names ! i)) [0..<4] of None \<Rightarrow> - 1 | Some i \<Rightarrow> int i + 6)
      else - 1)"

definition pseudo_fs_change_dir :: "string \<Rightarrow> unit fs_result" where
  "pseudo_fs_change_dir path =
     (let n = lookup path
      in if n = - 2 \<or> n = - 3 then Inr () else Inl (if n = - 1 then FS_ERR_NOT_FOUND else FS_ERR_NOT_DIR))"

definition dot_entries :: "fs_dirent list" where
  "dot_entries = [\<lparr>ent_name = ''.'', ent_type = FS_NODE_DIR\<rparr>, \<lparr>ent_name = ''..'', ent_type = FS_NODE_DIR\<rparr>]"

definition pseudo_fs_list_dir :: "string \<Rightarrow> nat \<Rightarrow> fs_dirent list fs_result" where
  "pseudo_fs_list_dir path cap =
     (let n = lookup path in
      if n \<noteq> - 2 \<and> n \<noteq> - 3 then Inl (if n < 0 then FS_ERR_NOT_FOUND else FS_ERR_NOT_DIR)
      else if cap < (if n = - 2 then 8 else 6) then Inl FS_ERR_NO_SPACE
      else Inr (dot_entries @ map (\<lambda>nm. \<lparr>ent_name = nm, ent_type = FS_NODE_FILE\<rparr>) (if n = - 2 then dev_names else proc_names)))"

definition pseudo_fs_append_root :: "fs_dirent list \<Rightarrow> nat \<Rightarrow> fs_dirent list fs_result" where
  "pseudo_fs_append_root entries cap =
     (let has_dev = list_ex (\<lambda>e. same (ent_name e) ''dev'') entries;
          has_proc = list_ex (\<lambda>e. same (ent_name e) ''proc'') entries
      in if cap < length entries then Inl FS_ERR_INVALID
         else if cap < length entries + of_bool (\<not> has_dev) + of_bool (\<not> has_proc) then Inl FS_ERR_NO_SPACE
         else Inr (entries @ (if has_dev then [] else [\<lparr>ent_name = ''dev'', ent_type = FS_NODE_DIR\<rparr>])
                     @ (if has_proc then [] else [\<lparr>ent_name = ''proc'', ent_type = FS_NODE_DIR\<rparr>])))"

definition stat_id :: "'c services \<Rightarrow> int \<Rightarrow> 'c \<Rightarrow> fs_stat fs_result" where
  "stat_id S n c =
     (if n = - 2 \<or> n = - 3 then Inr \<lparr>st_mode = FS_MODE_DIR, st_size = 0\<rparr>
      else if n < 0 \<or> 10 \<le> n then Inl FS_ERR_NOT_FOUND
      else if n < 6 then Inr \<lparr>st_mode = FS_MODE_CHAR, st_size = 0\<rparr>
      else case procfs_size S (of_int (n - 6)) c of
             Inl e \<Rightarrow> Inl e
           | Inr sz \<Rightarrow> Inr \<lparr>st_mode = FS_MODE_FILE, st_size = sz\<rparr>)"

definition pseudo_fs_stat :: "'c services \<Rightarrow> string \<Rightarrow> 'c \<Rightarrow> fs_stat fs_result" where
  "pseudo_fs_stat S path c = stat_id S (lookup path) c"

definition pseudo_fs_open :: "string \<Rightarrow> u32 \<Rightarrow> u32 fs_result" where
  "pseudo_fs_open path flags =
     (let n = lookup path in
      if n = - 2 \<or> n = - 3 then Inl FS_ERR_IS_DIR
      else if n < 0 then Inl FS_ERR_NOT_FOUND
      else if 6 \<le> n \<and> flags AND (FS_O_WRONLY OR FS_O_CREAT OR FS_O_TRUNC) \<noteq> 0 then Inl FS_ERR_READ_ONLY
      else Inr (PSEUDO_FD_TAG OR of_int n))"

definition pseudo_fs_read :: "'c services \<Rightarrow> u32 \<Rightarrow> u32 \<Rightarrow> u32 \<Rightarrow> 'c \<Rightarrow> (char list fs_result \<times> 'c) option" where
  "pseudo_fs_read S i off cap c =
     (let n = i AND NOT PSEUDO_FD_TAG
      in if n < 6 then devfs_read S n off cap c
         else if n < 10 then Some (procfs_read S (n - 6) off cap c, c)
         else Some (Inl FS_ERR_INVALID, c))"

definition pseudo_fs_write :: "'c services \<Rightarrow> u32 \<Rightarrow> u32 \<Rightarrow> char list \<Rightarrow> 'c \<Rightarrow> u32 fs_result \<times> 'c" where
  "pseudo_fs_write S i off data c =
     (let n = i AND NOT PSEUDO_FD_TAG in if n < 6 then devfs_write S n data c else (Inl FS_ERR_READ_ONLY, c))"

definition pseudo_fs_size :: "'c services \<Rightarrow> u32 \<Rightarrow> 'c \<Rightarrow> u32 fs_result" where
  "pseudo_fs_size S i c =
     (let n = i AND NOT PSEUDO_FD_TAG
      in if 10 \<le> n then Inl FS_ERR_INVALID else if n < 6 then Inr 0 else procfs_size S (n - 6) c)"

definition pseudo_fs_fstat :: "'c services \<Rightarrow> u32 \<Rightarrow> 'c \<Rightarrow> fs_stat fs_result" where
  "pseudo_fs_fstat S i c = stat_id S (sint (i AND NOT PSEUDO_FD_TAG)) c"

definition pseudo_fs_close :: "u32 \<Rightarrow> unit fs_result" where
  "pseudo_fs_close i = (if i AND NOT PSEUDO_FD_TAG < 10 then Inr () else Inl FS_ERR_INVALID)"

definition pseudo_fs_read_file :: "'c services \<Rightarrow> string \<Rightarrow> u32 \<Rightarrow> 'c \<Rightarrow> (char list fs_result \<times> 'c) option" where
  "pseudo_fs_read_file S path cap c =
     (case pseudo_fs_open path FS_O_RDONLY of
        Inl e \<Rightarrow> Some (Inl e, c)
      | Inr i \<Rightarrow> pseudo_fs_read S i 0 cap c)"

subsection \<open>Snapshots\<close>

lemma fold_proc_char:
  "0 < cap \<Longrightarrow> length w < cap \<Longrightarrow> fold (proc_char cap) str w = take (cap - 1) (w @ str)"
proof (induction str arbitrary: w)
  case (Cons ch str)
  show ?case
  proof (cases "length w + 1 < cap")
    case True
    then have "cap - Suc (length w) = Suc (cap - Suc (Suc (length w)))" by simp
    then show ?thesis using Cons True by (simp add: proc_char_def)
  next
    case False
    then have "length w = cap - 1" using Cons.prems by simp
    then show ?thesis using Cons False by (simp add: proc_char_def)
  qed
qed simp

text \<open>A piece of text or a number appended to what fits the buffer.\<close>

lemma proc_append [simp]:
  assumes "0 < cap"
  shows "proc_text cap str (take (cap - Suc 0) w) = take (cap - Suc 0) (w @ str)"
    "proc_char cap ch (take (cap - Suc 0) w) = take (cap - Suc 0) (w @ [ch])"
    "proc_num cap n (take (cap - Suc 0) w) = take (cap - Suc 0) (w @ rev (proc_digits 11 n))"
    "proc_text cap str [] = take (cap - Suc 0) str" "proc_num cap n [] = take (cap - Suc 0) (rev (proc_digits 11 n))"
proof -
  have l: "length (take (cap - Suc 0) w) < cap" using assms by simp
  have t: "take n (take n xs @ ys) = take n (xs @ ys)" for n and xs ys :: string by (simp add: min_def)
  show "proc_text cap str (take (cap - Suc 0) w) = take (cap - Suc 0) (w @ str)"
    "proc_num cap n (take (cap - Suc 0) w) = take (cap - Suc 0) (w @ rev (proc_digits 11 n))"
    using t fold_proc_char [OF assms l] by (simp_all add: proc_text_def proc_num_def del: proc_digits.simps take_append)
  show "proc_char cap ch (take (cap - Suc 0) w) = take (cap - Suc 0) (w @ [ch])"
    using t fold_proc_char [OF assms l, of "[ch]"] by (simp del: take_append)
  show "proc_text cap str [] = take (cap - Suc 0) str" "proc_num cap n [] = take (cap - Suc 0) (rev (proc_digits 11 n))"
    using fold_proc_char [OF assms, of "[]"] assms by (simp_all add: proc_text_def proc_num_def del: proc_digits.simps)
qed

text \<open>What a snapshot says, before it is cut to the buffer.\<close>

definition proc_spec :: "'c services \<Rightarrow> u32 \<Rightarrow> 'c \<Rightarrow> string" where
  "proc_spec S which c =
     (if which = 0 then ''System/1 (Adava Software) SMOD ABI 3'' @ [CHR 0x0A]
      else if which = 1
      then let ticks = ucast (sv_ticks S c) :: u32
           in rev (proc_digits 11 (ticks div 100)) @ [CHR ''.'', digit_char (ticks mod 100 div 10), digit_char (ticks mod 10), CHR 0x0A]
      else if which = 2
      then let st = sv_mm_stats S c
           in ''MemTotal: '' @ rev (proc_digits 11 (total_pages st * 4)) @ '' kB'' @ [CHR 0x0A] @
              ''MemFree: '' @ rev (proc_digits 11 (free_pages st * 4)) @ '' kB'' @ [CHR 0x0A] @
              ''HeapUsed: '' @ rev (proc_digits 11 (heap_used_bytes st)) @ '' B'' @ [CHR 0x0A]
      else if which = 3
      then concat (map (\<lambda>m. case m of None \<Rightarrow> [] | Some name \<Rightarrow> name @ [CHR 0x0A]) (sv_modules S c))
      else [])"

lemma proc_build_spec:
  assumes "0 < cap"
  shows "proc_build S which cap c = take (cap - 1) (proc_spec S which c)"
proof -
  have m: "fold (\<lambda>m w. case m of None \<Rightarrow> w | Some name \<Rightarrow> proc_char cap (CHR 0x0A) (proc_text cap name w)) ms (take (cap - Suc 0) w)
      = take (cap - Suc 0) (w @ concat (map (\<lambda>m. case m of None \<Rightarrow> [] | Some name \<Rightarrow> name @ [CHR 0x0A]) ms))" for ms w
    using assms by (induction ms arbitrary: w) (auto simp del: take_append split: option.split)
  have "w = 0 \<or> w = 1 \<or> w = 2 \<or> w = 3 \<or> w \<noteq> 0 \<and> w \<noteq> 1 \<and> w \<noteq> 2 \<and> w \<noteq> 3" for w :: u32 by auto
  then consider "which = 0" | "which = 1" | "which = 2" | "which = 3" | "which \<noteq> 0" "which \<noteq> 1" "which \<noteq> 2" "which \<noteq> 3" by blast
  then show ?thesis
  proof cases
    case 4
    then show ?thesis using m [of "sv_modules S c" "[]"] by (simp add: proc_build_def proc_spec_def)
  qed (use assms in \<open>simp_all add: proc_build_def proc_spec_def Let_def del: proc_digits.simps take_append\<close>)
qed

text \<open>
  C31: A process file reads as the part that is asked for of its contents cut to 479 characters, and
  its size is the length of these contents; the snapshot never passes the end of its 480 byte buffer.
\<close>

theorem procfs_read_slice:
  assumes "which < 4"
  shows "\<exists>text. text = take 479 (proc_spec S which c) \<and>
     procfs_read S which off cap c = Inr (take (unat cap) (drop (unat off) text)) \<and>
     procfs_size S which c = Inr (of_nat (length text)) \<and> length (proc_build S which PROC_BUF_SIZE c) < PROC_BUF_SIZE"
proof -
  let ?t = "take 479 (proc_spec S which c)"
  have b: "proc_build S which PROC_BUF_SIZE c = ?t" using proc_build_spec [of PROC_BUF_SIZE S which c] by simp
  have l: "length ?t < PROC_BUF_SIZE" "unat (of_nat (length ?t) :: u32) = length ?t" by (simp_all add: unat_of_nat_u32)
  have nw: "\<not> 4 \<le> which" using assms by auto
  let ?n = "of_nat (length ?t) :: u32"
  have "procfs_read S which off cap c = Inr (take (unat cap) (drop (unat off) ?t))"
  proof (cases "?n \<le> off")
    case True
    then have "length ?t \<le> unat off" using l(2) by (simp add: word_le_nat_alt)
    then show ?thesis using True nw by (simp add: procfs_read_def b)
  next
    case False
    then have "unat (?n - off) = length ?t - unat off" using l(2) by (simp add: unat_sub)
    then have "take (unat (if ?n - off < cap then ?n - off else cap)) (drop (unat off) ?t) = take (unat cap) (drop (unat off) ?t)"
      by (auto simp: word_less_nat_alt)
    then show ?thesis using False nw by (simp add: procfs_read_def b Let_def)
  qed
  then show ?thesis using b l(1) nw by (simp add: procfs_size_def)
qed

theorem procfs_read_slice_witness:
  "\<forall>(S :: unit services) c. procfs_read S 0 0 8 c = Inr ''System/1''"
proof (intro allI)
  fix S :: "unit services" and c
  show "procfs_read S 0 0 8 c = Inr ''System/1''"
    using procfs_read_slice [of 0 S c 0 8] by (simp add: proc_spec_def)
qed

subsection \<open>Handles\<close>

lemma same_eq [simp]: "same a b = (a = b)"
  by (induction a b rule: same.induct) auto

lemma lookup_range: "- 3 \<le> lookup path \<and> lookup path < 10"
  by (auto simp: lookup_def find_Some_iff split: option.split)

lemma tag_mask: "PSEUDO_FD_TAG = NOT (mask 31)"
  by (simp add: mask_eq_exp_minus_1)

lemma untag: "(i :: u32) AND NOT PSEUDO_FD_TAG = take_bit 31 i"
  unfolding tag_mask by (simp add: take_bit_eq_mask)

lemma PSEUDO_IS_FD_iff: "PSEUDO_IS_FD i \<longleftrightarrow> 2 ^ 31 \<le> unat i"
proof -
  have "PSEUDO_IS_FD i \<longleftrightarrow> unat (i AND NOT (mask 31)) \<noteq> 0"
    by (simp only: PSEUDO_IS_FD_def tag_mask unat_eq_zero)
  also have "\<dots> \<longleftrightarrow> unat i div 2 ^ 31 \<noteq> 0" unfolding and_not_mask_unat by simp
  finally show ?thesis by (simp add: div_eq_0_iff not_less)
qed

lemma small_untag: "unat (n :: u32) < 2 ^ 31 \<Longrightarrow> take_bit 31 n = n"
proof -
  assume "unat n < 2 ^ 31"
  then have "unat (take_bit 31 n) = unat n" by (simp only: unsigned_take_bit_eq take_bit_nat_eq_self)
  then show ?thesis by (rule unsigned_word_eqI)
qed

lemma tag_small:
  assumes "(n :: u32) < 10"
  shows "PSEUDO_IS_FD (PSEUDO_FD_TAG OR n)" "(PSEUDO_FD_TAG OR n) AND NOT PSEUDO_FD_TAG = n"
proof -
  have n: "unat n < 10" using assms by (simp add: word_less_nat_alt)
  have "take_bit 31 (PSEUDO_FD_TAG :: u32) = 0" by simp
  then show u: "(PSEUDO_FD_TAG OR n) AND NOT PSEUDO_FD_TAG = n"
    using small_untag [of n] n by (simp only: untag take_bit_or) simp
  have "PSEUDO_FD_TAG AND PSEUDO_FD_TAG \<noteq> (0 :: u32)" by simp
  then show "PSEUDO_IS_FD (PSEUDO_FD_TAG OR n)"
    by (simp only: PSEUDO_IS_FD_def bit.conj_disj_distrib2 and.idem or_eq_0_iff) simp
qed

lemma pseudo_fs_open_handle:
  assumes "pseudo_fs_open path flags = Inr i"
  obtains n where "lookup path = int n" "n < 10" "i = PSEUDO_FD_TAG OR of_nat n" "PSEUDO_IS_FD i"
    "i AND NOT PSEUDO_FD_TAG = of_nat n"
proof -
  have l: "0 \<le> lookup path" "lookup path < 10" "i = PSEUDO_FD_TAG OR of_int (lookup path)"
    using assms lookup_range [of path] by (auto simp: pseudo_fs_open_def Let_def split: if_splits)
  then obtain n where n: "lookup path = int n" "n < 10" by (metis nonneg_int_cases of_nat_less_numeral_iff)
  have "(of_nat n :: u32) < 10" using n(2) by (simp add: word_less_nat_alt unat_of_nat_u32)
  from tag_small [OF this] show ?thesis using that [of n] l(3) n by simp
qed

lemma ramfs_open_handle:
  assumes "ramfs_core_open path flags s = (Inr i, t)"
  shows "\<exists>n < FS_MAX_NODES. i = fs_node_id n" "\<not> PSEUDO_IS_FD i"
proof -
  obtain n u where "open_existing n flags u = (Inr i, t)"
    using assms unfolding ramfs_core_open_def by (simp split: sum.splits if_splits prod.splits)
  then have i: "i = fs_node_id n" "i \<noteq> 0" by (auto simp: open_existing_def Let_def split: if_splits)
  then have n: "n < FS_MAX_NODES" by (auto simp: fs_node_id_def split: if_splits)
  then show "\<exists>n < FS_MAX_NODES. i = fs_node_id n" using i(1) by blast
  have "unat i = Suc n"
    using n i(1) unat_of_nat_u32 [of "Suc n"] by (simp add: fs_node_id_def add.commute)
  then show "\<not> PSEUDO_IS_FD i" using n by (simp add: PSEUDO_IS_FD_iff)
qed

text \<open>
  The handles of \<open>/dev\<close> and \<open>/proc\<close> and those of the in-memory file system are disjoint: the
  first always have the top bit set, the second never. A handle that \<open>pseudo_fs_open\<close> gave leads back
  to the file that was opened: its status is the status of the path, it can be closed, and the
  process files cannot be opened for writing.
\<close>

theorem pseudo_handles_disjoint:
  assumes "pseudo_fs_open path flags = Inr i"
  shows "PSEUDO_IS_FD i \<and> pseudo_fs_fstat S i c = pseudo_fs_stat S path c \<and> pseudo_fs_close i = Inr () \<and>
     (lookup path < 6 \<or> flags AND FS_O_WRONLY = 0) \<and>
     (\<forall>p fl s j t. ramfs_core_open p fl s = (Inr j, t) \<longrightarrow> \<not> PSEUDO_IS_FD j \<and> j \<noteq> i)"
proof -
  obtain n where n: "lookup path = int n" "n < 10" "i = PSEUDO_FD_TAG OR of_nat n" "PSEUDO_IS_FD i"
    "i AND NOT PSEUDO_FD_TAG = of_nat n" using pseudo_fs_open_handle [OF assms] .
  have u: "unat (of_nat n :: u32) = n" using n(2) by (simp add: unat_of_nat_u32)
  then have s: "sint (of_nat n :: u32) = int n" using n(2) by (simp add: sint_of_nat_u32)
  have "flags AND FS_O_WRONLY = (flags AND 770) AND FS_O_WRONLY" by (simp add: and.assoc)
  then have "lookup path < 6 \<or> flags AND FS_O_WRONLY = 0"
    using assms by (auto simp: pseudo_fs_open_def Let_def split: if_splits)
  moreover have "(of_nat n :: u32) < 10" using u n(2) by (simp add: word_less_nat_alt)
  ultimately show ?thesis
    using n(1,4,5) s ramfs_open_handle(2) by (auto simp: pseudo_fs_fstat_def pseudo_fs_stat_def pseudo_fs_close_def)
qed

theorem pseudo_handles_disjoint_witness:
  "pseudo_fs_open ''/dev/null'' FS_O_RDWR = Inr PSEUDO_FD_TAG \<and> PSEUDO_IS_FD PSEUDO_FD_TAG \<and>
   (\<forall>(S :: unit services) c. pseudo_fs_fstat S PSEUDO_FD_TAG c = Inr \<lparr>st_mode = FS_MODE_CHAR, st_size = 0\<rparr>)"
proof -
  have l: "lookup ''/dev/null'' = 0" by (simp add: lookup_def mount_def dev_names_def upt_conv_Cons)
  then have o: "pseudo_fs_open ''/dev/null'' FS_O_RDWR = Inr PSEUDO_FD_TAG" by (simp add: pseudo_fs_open_def)
  have "PSEUDO_IS_FD PSEUDO_FD_TAG \<and> pseudo_fs_fstat S PSEUDO_FD_TAG c = Inr \<lparr>st_mode = FS_MODE_CHAR, st_size = 0\<rparr>"
    for S :: "unit services" and c
    using pseudo_handles_disjoint [OF o, of S c] l by (simp add: pseudo_fs_stat_def stat_id_def)
  then show ?thesis using o by blast
qed

end
