(* ===== verification/Path_Norm.thy ===== *)
theory Path_Norm
  imports Fs_Types
begin

text \<open>
  Path normalisation, \<open>fs_core_normalize_path\<close> and \<open>fs_parent_path\<close> of
  \<open>src/src/kernel/core/fs/fs_core.c\<close>. The C code edits a character buffer in place; the buffer is the
  string before its NUL. The specification works on lists of names: a path is rendered from its
  names, and normalising interprets \<open>.\<close> and \<open>..\<close> on the list.
\<close>

subsection \<open>The code\<close>

text \<open>The copy loop of \<open>fs_copy_name\<close>, from position \<open>i\<close> of the destination.\<close>

primrec copy_name_loop :: "nat \<Rightarrow> nat \<Rightarrow> string \<Rightarrow> string" where
  "copy_name_loop i cap [] = []"
| "copy_name_loop i cap (c # cs) = (if i + 1 < cap then c # copy_name_loop (i + 1) cap cs else [])"

definition fs_copy_name :: "nat \<Rightarrow> string option \<Rightarrow> string" where
  "fs_copy_name cap src = (case src of None \<Rightarrow> [] | Some s \<Rightarrow> copy_name_loop 0 cap s)"

fun fs_streq_local :: "string \<Rightarrow> string \<Rightarrow> bool" where
  "fs_streq_local (a # as) (b # bs) = (if a \<noteq> b then False else fs_streq_local as bs)"
| "fs_streq_local as bs = (as = [] \<and> bs = [])"

text \<open>\<open>while (len > 1 && temp[len - 1] != '/') --len\<close>\<close>

fun strip_loop :: "string \<Rightarrow> nat \<Rightarrow> nat" where
  "strip_loop temp len =
     (if 1 < len \<and> temp ! (len - 1) \<noteq> CHR ''/'' then strip_loop temp (len - 1) else len)"

declare strip_loop.simps [simp del]

definition cut_last :: "string \<Rightarrow> string" where
  "cut_last temp =
     (let len = strip_loop temp (length temp); len' = (if 1 < len then len - 1 else len)
      in take len' temp)"

text \<open>The separator before a component, none directly after the root's slash.\<close>

definition norm_separator :: "string \<Rightarrow> string fs_result" where
  "norm_separator temp =
     (if temp = ''/'' then Inr temp
      else if FS_PATH_CAP \<le> length temp + 1 then Inl FS_ERR_INVALID
      else Inr (temp @ ''/''))"

fun norm_append :: "string \<Rightarrow> string \<Rightarrow> string fs_result" where
  "norm_append temp [] = Inr temp"
| "norm_append temp (c # cs) =
     (if FS_PATH_CAP \<le> length temp + 1 then Inl FS_ERR_INVALID else norm_append (temp @ [c]) cs)"

definition next_comp :: "string \<Rightarrow> string" where
  "next_comp cursor = takeWhile (\<lambda>c. c \<noteq> CHR ''/'') cursor"

definition after_comp :: "string \<Rightarrow> string" where
  "after_comp cursor = dropWhile (\<lambda>c. c = CHR ''/'') (dropWhile (\<lambda>c. c \<noteq> CHR ''/'') cursor)"

lemma after_comp_shorter: "cursor \<noteq> [] \<Longrightarrow> length (after_comp cursor) < length cursor"
proof (cases cursor)
  case (Cons c cs)
  have "length (dropWhile (\<lambda>c. c = CHR ''/'') xs) \<le> length xs"
    "length (dropWhile (\<lambda>c. c \<noteq> CHR ''/'') xs) \<le> length xs" for xs :: string
    by (rule length_dropWhile_le)+
  then show ?thesis
    unfolding after_comp_def Cons by (auto simp: less_Suc_eq_le intro: order_trans)
qed simp

function norm_loop :: "string \<Rightarrow> string \<Rightarrow> string fs_result" where
  "norm_loop temp cursor =
     (if cursor = [] then Inr temp
      else let comp = next_comp cursor; rest = after_comp cursor
      in if FS_NAME_CAP \<le> length comp then Inl FS_ERR_INVALID
         else if comp = [] \<or> fs_streq_local comp ''.'' then norm_loop temp rest
         else if fs_streq_local comp ''..'' then norm_loop (cut_last temp) rest
         else case norm_separator temp of
                Inl e \<Rightarrow> Inl e
              | Inr temp1 \<Rightarrow> (case norm_append temp1 comp of
                               Inl e \<Rightarrow> Inl e | Inr temp2 \<Rightarrow> norm_loop temp2 rest))"
  by auto
termination
  by (relation "measure (\<lambda>(temp, cursor). length cursor)") (auto simp: after_comp_shorter)

declare norm_loop.simps [simp del]

definition fs_core_normalize_path :: "string option \<Rightarrow> string option \<Rightarrow> nat \<Rightarrow> string fs_result" where
  "fs_core_normalize_path cwd path out_cap =
     (case path of None \<Rightarrow> Inl FS_ERR_INVALID
      | Some p \<Rightarrow>
          if p = [] \<or> out_cap < 2 then Inl FS_ERR_INVALID
          else let (temp, cursor) =
                 (if hd p = CHR ''/'' then ([], dropWhile (\<lambda>c. c = CHR ''/'') p)
                  else (fs_copy_name FS_PATH_CAP
                          (if cwd = None \<or> cwd = Some [] then Some ''/'' else cwd), p))
               in case norm_loop temp cursor of
                    Inl e \<Rightarrow> Inl e
                  | Inr temp \<Rightarrow>
                      if temp = [] then Inr ''/''
                      else if out_cap < length temp + 1 then Inl FS_ERR_INVALID
                      else Inr (fs_copy_name out_cap (Some temp)))"

text \<open>\<open>while (cut > 1 && path[cut - 1] != '/') --cut\<close> is the loop above.\<close>

definition fs_parent_path :: "string option \<Rightarrow> nat \<Rightarrow> string fs_result" where
  "fs_parent_path path cap =
     (case path of None \<Rightarrow> Inl FS_ERR_INVALID
      | Some p \<Rightarrow>
          if cap < 2 \<or> p = [] \<or> hd p \<noteq> CHR ''/'' then Inl FS_ERR_INVALID
          else if length p \<le> 1 then Inr ''/''
          else let cut = strip_loop p (length p)
               in if cut \<le> 1 then Inr ''/''
                  else if cap < (cut - 1) + 1 then Inl FS_ERR_NO_SPACE
                  else Inr (take (cut - 1) p))"

subsection \<open>The specification on lists of names\<close>

function path_comps :: "string \<Rightarrow> string list" where
  "path_comps cursor =
     (if cursor = [] then []
      else (if next_comp cursor = [] then [] else [next_comp cursor]) @ path_comps (after_comp cursor))"
  by auto
termination
  by (relation "measure length") (auto simp: after_comp_shorter)

declare path_comps.simps [simp del]

definition comp_step :: "string list \<Rightarrow> string \<Rightarrow> string list" where
  "comp_step cs c = (if c = ''.'' then cs else if c = ''..'' then butlast cs else cs @ [c])"

definition render :: "string list \<Rightarrow> string" where
  "render cs = (if cs = [] then ''/'' else concat (map (\<lambda>c. CHR ''/'' # c) cs))"

definition name_ok :: "string \<Rightarrow> bool" where
  "name_ok c \<longleftrightarrow> c \<noteq> [] \<and> CHR ''/'' \<notin> set c \<and> c \<noteq> ''.'' \<and> c \<noteq> ''..'' \<and> length c < FS_NAME_CAP"

text \<open>A canonical path: absolute, no empty, dot or dot-dot component, every name in bounds.\<close>

definition canonical :: "string \<Rightarrow> bool" where
  "canonical p \<longleftrightarrow> (\<exists>cs. p = render cs \<and> list_all name_ok cs) \<and> length p < FS_PATH_CAP"

subsection \<open>The buffer edits on rendered paths\<close>

lemma copy_name_loop_eq: "copy_name_loop i cap s = take (cap - 1 - i) s"
  by (induction s arbitrary: i) (auto simp: take_Cons split: nat.split intro: arg_cong2 [where f = take])

lemma fs_copy_name_eq: "fs_copy_name cap (Some s) = take (cap - 1) s"
  by (simp add: fs_copy_name_def copy_name_loop_eq)

lemma fs_streq_local_eq [simp]: "fs_streq_local a b = (a = b)"
  by (induction a b rule: fs_streq_local.induct) auto

lemma strip_loop_slash:
  assumes "CHR ''/'' \<notin> set c"
  shows "strip_loop (pre @ CHR ''/'' # c) (length pre + 1 + length c) = length pre + 1"
proof -
  have "strip_loop (pre @ CHR ''/'' # c) (length pre + 1 + n) = length pre + 1" if "n \<le> length c" for n
    using that
  proof (induction n)
    case 0
    then show ?case by (subst strip_loop.simps) (simp add: nth_append)
  next
    case (Suc n)
    have "(pre @ CHR ''/'' # c) ! (length pre + 1 + Suc n - 1) = c ! n"
      using Suc.prems by (simp add: nth_append)
    moreover have "c ! n \<noteq> CHR ''/''" using assms Suc.prems by (metis Suc_le_eq nth_mem)
    ultimately show ?case using Suc by (subst strip_loop.simps) simp
  qed
  from this [of "length c"] show ?thesis by simp
qed

lemma cut_last_slash:
  "CHR ''/'' \<notin> set c \<Longrightarrow> cut_last (pre @ CHR ''/'' # c) = (if pre = [] then ''/'' else pre)"
  using strip_loop_slash [of c pre] by (simp add: cut_last_def Let_def)

lemma render_snoc: "cs \<noteq> [] \<Longrightarrow> render (cs @ [c]) = render cs @ CHR ''/'' # c"
  by (simp add: render_def)

lemma render_single: "render [c] = CHR ''/'' # c"
  by (simp add: render_def)

lemma render_nonempty [simp]: "render cs \<noteq> []" "hd (render cs) = CHR ''/''"
  by (cases cs; simp add: render_def)+

lemma render_root: "list_all name_ok cs \<Longrightarrow> render cs = ''/'' \<longleftrightarrow> cs = []"
  by (cases cs) (auto simp: render_def name_ok_def)

text \<open>The buffer stands for a list of names; the empty buffer stands for the root, too.\<close>

definition stands_for :: "string \<Rightarrow> string list \<Rightarrow> bool" where
  "stands_for temp cs \<longleftrightarrow> list_all name_ok cs \<and> (temp = render cs \<or> temp = [] \<and> cs = [])"

lemma cut_last_stands_for:
  assumes "stands_for temp cs"
  shows "stands_for (cut_last temp) (butlast cs)"
proof (cases cs rule: rev_cases)
  case Nil
  have "cut_last ''/'' = ''/''" "cut_last [] = []"
    by (simp_all add: cut_last_def strip_loop.simps Let_def)
  then show ?thesis using Nil assms by (auto simp: stands_for_def render_def)
next
  case (snoc ds c)
  then have "CHR ''/'' \<notin> set c" "temp = render (ds @ [c])"
    using assms by (auto simp: stands_for_def name_ok_def)
  then show ?thesis
    using snoc assms cut_last_slash [of c "render ds"] cut_last_slash [of c "[]"]
    by (cases "ds = []") (auto simp: stands_for_def render_snoc render_single, simp add: render_def)
qed

lemma norm_append_eq:
  "norm_append temp cs = (if cs \<noteq> [] \<and> FS_PATH_CAP \<le> length temp + length cs then Inl FS_ERR_INVALID
     else Inr (temp @ cs))"
  by (induction cs arbitrary: temp) auto

text \<open>Appending one name.\<close>

lemma append_comp:
  assumes "stands_for temp cs" "name_ok c"
  shows "(case norm_separator temp of Inl e \<Rightarrow> Inl e | Inr temp1 \<Rightarrow> norm_append temp1 c) =
    (if FS_PATH_CAP \<le> length (render (cs @ [c])) then Inl FS_ERR_INVALID else Inr (render (cs @ [c])))"
proof -
  have c: "c \<noteq> []" using assms(2) by (simp add: name_ok_def)
  have ok: "list_all name_ok cs" using assms(1) by (simp add: stands_for_def)
  show ?thesis
  proof (cases "cs = []")
    case True
    then have "temp = ''/'' \<or> temp = []" using assms(1) by (auto simp: stands_for_def render_def)
    then show ?thesis using True c by (auto simp: norm_separator_def norm_append_eq render_single)
  next
    case False
    then have t: "temp = render cs" using assms(1) by (simp add: stands_for_def)
    then have "temp \<noteq> ''/''" using False render_root [OF ok] by simp
    then show ?thesis
      using c t False by (cases c) (auto simp: norm_separator_def norm_append_eq render_snoc)
  qed
qed

lemma append_comp_stands_for:
  "\<lbrakk>stands_for temp cs; name_ok c\<rbrakk> \<Longrightarrow> stands_for (render (cs @ [c])) (cs @ [c])"
  by (simp add: stands_for_def)

subsection \<open>The loop follows the list\<close>

lemma comp_step_ok: "list_all name_ok cs \<Longrightarrow> c \<in> {''.'', ''..''} \<or> name_ok c \<Longrightarrow> list_all name_ok (comp_step cs c)"
  by (auto simp: comp_step_def list_all_iff dest: in_set_butlastD)

lemma next_comp_no_slash: "CHR ''/'' \<notin> set (next_comp cursor)"
  unfolding next_comp_def using set_takeWhileD by fastforce

text \<open>
  Normalising a list of components, with the two limits the code enforces: the length of a component
  and the length of the path after each name that is appended.
\<close>

fun norm_spec :: "string list \<Rightarrow> string list \<Rightarrow> string list option" where
  "norm_spec cs [] = Some cs"
| "norm_spec cs (c # ds) =
     (if FS_NAME_CAP \<le> length c then None
      else if c \<notin> {''.'', ''..''} \<and> FS_PATH_CAP \<le> length (render (cs @ [c])) then None
      else norm_spec (comp_step cs c) ds)"

lemma norm_loop_spec:
  "stands_for temp cs \<Longrightarrow>
   case norm_spec cs (path_comps cursor) of
     None \<Rightarrow> norm_loop temp cursor = Inl FS_ERR_INVALID
   | Some ds \<Rightarrow> \<exists>t. norm_loop temp cursor = Inr t \<and> stands_for t ds"
proof (induction "length cursor" arbitrary: temp cursor cs rule: less_induct)
  case less
  show ?case
  proof (cases "cursor = []")
    case True
    then show ?thesis using less.prems by (simp add: norm_loop.simps path_comps.simps)
  next
    case False
    define c where "c = next_comp cursor"
    define rest where "rest = after_comp cursor"
    note IH = less.hyps [of rest, OF after_comp_shorter [OF False, folded rest_def]]
    have comps: "path_comps cursor = (if c = [] then [] else [c]) @ path_comps rest"
      using False by (subst path_comps.simps) (simp add: c_def rest_def)
    have run: "norm_loop temp cursor =
        (if FS_NAME_CAP \<le> length c then Inl FS_ERR_INVALID
         else if c = [] \<or> c = ''.'' then norm_loop temp rest
         else if c = ''..'' then norm_loop (cut_last temp) rest
         else case (case norm_separator temp of Inl e \<Rightarrow> Inl e | Inr temp1 \<Rightarrow> norm_append temp1 c) of
                Inl e \<Rightarrow> Inl e | Inr temp2 \<Rightarrow> norm_loop temp2 rest)"
      unfolding c_def rest_def using False
      by (subst norm_loop.simps) (simp add: Let_def split: sum.split)
    consider "FS_NAME_CAP \<le> length c" | "c = [] \<or> c = ''.''" | "c = ''..''" | "name_ok c"
      using next_comp_no_slash [of cursor] by (force simp: name_ok_def c_def)
    then show ?thesis
    proof cases
      case 1
      then show ?thesis using run comps by auto
    next
      case 2
      then have "norm_loop temp cursor = norm_loop temp rest"
        "norm_spec cs (path_comps cursor) = norm_spec cs (path_comps rest)"
        using run comps by (auto simp: comp_step_def)
      then show ?thesis using IH [OF less.prems] by (simp only:)
    next
      case 3
      then have "norm_loop temp cursor = norm_loop (cut_last temp) rest"
        "norm_spec cs (path_comps cursor) = norm_spec (butlast cs) (path_comps rest)"
        using run comps by (auto simp: comp_step_def)
      then show ?thesis using IH [OF cut_last_stands_for [OF less.prems]] by (simp only:)
    next
      case 4
      let ?t = "render (cs @ [c])"
      have c: "c \<noteq> []" "c \<noteq> ''.''" "c \<noteq> ''..''" "\<not> FS_NAME_CAP \<le> length c" using 4 by (auto simp: name_ok_def)
      then have "norm_loop temp cursor = (if FS_PATH_CAP \<le> length ?t then Inl FS_ERR_INVALID else norm_loop ?t rest)"
        unfolding run append_comp [OF less.prems 4] by simp
      moreover have "norm_spec cs (path_comps cursor) =
          (if FS_PATH_CAP \<le> length ?t then None else norm_spec (cs @ [c]) (path_comps rest))"
        using c comps by (simp add: comp_step_def)
      ultimately show ?thesis
        using IH [OF append_comp_stands_for [OF less.prems 4]] by (cases "FS_PATH_CAP \<le> length ?t") (simp_all cong: option.case_cong)
    qed
  qed
qed

lemma path_comps_abs: "path_comps (dropWhile (\<lambda>c. c = CHR ''/'') p) = path_comps p"
proof (cases "p \<noteq> [] \<and> hd p = CHR ''/''")
  case True
  then have "next_comp p = []" "after_comp p = dropWhile (\<lambda>c. c = CHR ''/'') p"
    by (cases p; simp add: next_comp_def after_comp_def)+
  then show ?thesis using True by (subst (2) path_comps.simps) simp
next
  case False
  then have "dropWhile (\<lambda>c. c = CHR ''/'') p = p" by (cases p) auto
  then show ?thesis by simp
qed

lemma canonical_short: "canonical p \<Longrightarrow> fs_copy_name FS_PATH_CAP (Some p) = p"
  by (simp add: canonical_def fs_copy_name_eq)

lemma normalize_path_eq:
  assumes cwd: "canonical cwd" "cwd = render cs0" "list_all name_ok cs0" and p: "p \<noteq> []" and cap: "2 \<le> cap"
  shows "fs_core_normalize_path (Some cwd) (Some p) cap =
    (case norm_spec (if hd p = CHR ''/'' then [] else cs0) (path_comps p) of
       None \<Rightarrow> Inl FS_ERR_INVALID
     | Some cs \<Rightarrow> if cap < length (render cs) + 1 then Inl FS_ERR_INVALID else Inr (render cs))"
proof -
  let ?abs = "hd p = CHR ''/''"
  let ?temp = "if ?abs then [] else cwd" and ?cs = "if ?abs then [] else cs0"
  let ?cursor = "if ?abs then dropWhile (\<lambda>c. c = CHR ''/'') p else p"
  have st: "stands_for ?temp ?cs" using cwd by (auto simp: stands_for_def)
  have ne: "cwd \<noteq> []" using cwd(2) by simp
  have run: "fs_core_normalize_path (Some cwd) (Some p) cap =
      (case norm_loop ?temp ?cursor of Inl e \<Rightarrow> Inl e
       | Inr t \<Rightarrow> if t = [] then Inr ''/'' else if cap < length t + 1 then Inl FS_ERR_INVALID
                 else Inr (fs_copy_name cap (Some t)))"
    using p cap ne canonical_short [OF cwd(1)] by (simp add: fs_core_normalize_path_def Let_def)
  have comps: "path_comps ?cursor = path_comps p" by (simp add: path_comps_abs)
  show ?thesis
  proof (cases "norm_spec ?cs (path_comps p)")
    case None
    then show ?thesis using norm_loop_spec [OF st, of ?cursor] run comps by simp
  next
    case (Some cs)
    then obtain t where t: "norm_loop ?temp ?cursor = Inr t" "stands_for t cs"
      using norm_loop_spec [OF st, of ?cursor] comps by auto
    have "t = render cs \<or> t = [] \<and> cs = []" using t(2) by (simp add: stands_for_def)
    then show ?thesis
      using run t(1) Some cap by (auto simp: fs_copy_name_eq render_def)
  qed
qed

lemma norm_spec_fold:
  "norm_spec cs ds = Some es \<Longrightarrow> es = foldl comp_step cs ds"
  by (induction cs ds rule: norm_spec.induct) (auto split: if_splits)

lemma render_butlast_length: "length (render (butlast cs)) \<le> length (render cs)"
proof (cases cs rule: rev_cases)
  case (snoc ds d)
  then show ?thesis by (cases "ds = []") (simp_all add: render_snoc, simp add: render_def)
qed simp

lemma norm_spec_canonical:
  "\<lbrakk>norm_spec cs ds = Some es; list_all name_ok cs; length (render cs) < FS_PATH_CAP;
    list_all (\<lambda>c. c \<noteq> [] \<and> CHR ''/'' \<notin> set c) ds\<rbrakk> \<Longrightarrow>
   list_all name_ok es \<and> length (render es) < FS_PATH_CAP"
proof (induction cs ds rule: norm_spec.induct)
  case (2 cs c ds)
  have "list_all name_ok (comp_step cs c)" "length (render (comp_step cs c)) < FS_PATH_CAP"
    using "2.prems" render_butlast_length [of cs]
    by (auto simp: comp_step_def name_ok_def list_all_iff dest: in_set_butlastD split: if_splits)
  then show ?case using 2 by (auto split: if_splits)
qed simp

lemma path_comps_names: "list_all (\<lambda>c. c \<noteq> [] \<and> CHR ''/'' \<notin> set c) (path_comps p)"
proof (induction p rule: path_comps.induct)
  case (1 p)
  then show ?case using next_comp_no_slash by (subst path_comps.simps) auto
qed

lemma root_short: "length (render []) < FS_PATH_CAP"
  by (simp add: render_def)

text \<open>
  C15: from a canonical working directory, \<open>fs_core_normalize_path\<close> computes exactly the meaning of
  the path on lists of names: absolute paths start at the root, others at the working directory,
  empty and \<open>.\<close> components are dropped, \<open>..\<close> removes the last name (and is ignored at the root), every
  other name is appended. It fails only for an empty path, for a component of 24 characters or more
  and for a path that would outgrow its buffer, and every result is canonical again and fits the
  caller's buffer.
\<close>

theorem normalize_path_refines:
  assumes "canonical cwd" "cwd = render cs0" "list_all name_ok cs0" "p \<noteq> []" "2 \<le> cap"
  defines "base \<equiv> (if hd p = CHR ''/'' then [] else cs0)"
  shows "fs_core_normalize_path (Some cwd) (Some p) cap =
      (case norm_spec base (path_comps p) of
         None \<Rightarrow> Inl FS_ERR_INVALID
       | Some cs \<Rightarrow> if cap < length (render cs) + 1 then Inl FS_ERR_INVALID else Inr (render cs)) \<and>
    (\<forall>out. fs_core_normalize_path (Some cwd) (Some p) cap = Inr out \<longrightarrow>
       out = render (foldl comp_step base (path_comps p)) \<and> canonical out \<and> length out < cap)"
proof -
  note eq = normalize_path_eq [OF assms(1-5), folded base_def]
  have base: "list_all name_ok base" "length (render base) < FS_PATH_CAP"
    using assms(1-3) root_short by (auto simp: base_def canonical_def)
  have "out = render (foldl comp_step base (path_comps p)) \<and> canonical out \<and> length out < cap"
    if out: "fs_core_normalize_path (Some cwd) (Some p) cap = Inr out" for out
  proof -
    obtain cs where cs: "norm_spec base (path_comps p) = Some cs" "out = render cs" "length out < cap"
      using out eq by (auto split: option.splits if_splits)
    show ?thesis
      using cs norm_spec_fold [OF cs(1)] norm_spec_canonical [OF cs(1) base path_comps_names]
      by (auto simp: canonical_def)
  qed
  then show ?thesis using eq by blast
qed

lemma canonical_root: "canonical ''/''"
  by (simp add: canonical_def) (rule exI [of _ "[]"], simp add: render_def)

theorem normalize_path_refines_witness:
  "fs_core_normalize_path (Some ''/usr'') (Some ''../bin//./x'') 128 = Inr ''/bin/x'' \<and> canonical ''/bin/x''"
proof -
  have cwd: "''/usr'' = render [''usr'']" "list_all name_ok [''usr'']"
    by (simp_all add: render_def name_ok_def)
  have can: "canonical ''/usr''"
    unfolding canonical_def by (intro conjI exI [of _ "[''usr'']"]) (simp_all add: render_def name_ok_def)
  have run: "path_comps ''../bin//./x'' = [''..'', ''bin'', ''.'', ''x'']"
    by (simp add: path_comps.simps next_comp_def after_comp_def)
  note spc = normalize_path_refines [OF can cwd, of "''../bin//./x''" 128]
  have eq: "fs_core_normalize_path (Some ''/usr'') (Some ''../bin//./x'') 128 = Inr ''/bin/x''"
    using conjunct1 [OF spc] by (simp add: run comp_step_def render_def)
  moreover have "canonical ''/bin/x''" using conjunct2 [OF spc] eq by auto
  ultimately show ?thesis by blast
qed

subsection \<open>Canonical paths\<close>

lemma render_Cons: "render (c # cs) = CHR ''/'' # c @ (if cs = [] then [] else render cs)"
  by (simp add: render_def)

lemma path_comps_name:
  assumes "c \<noteq> []" "CHR ''/'' \<notin> set c" "rest = [] \<or> hd rest = CHR ''/''"
  shows "path_comps (c @ rest) = c # path_comps rest"
proof -
  have tw: "takeWhile (\<lambda>x. x \<noteq> CHR ''/'') (c @ rest) = c" "dropWhile (\<lambda>x. x \<noteq> CHR ''/'') (c @ rest) = rest"
    using assms by (cases rest; fastforce simp: takeWhile_append dropWhile_append)+
  then have "next_comp (c @ rest) = c" "after_comp (c @ rest) = dropWhile (\<lambda>x. x = CHR ''/'') rest"
    by (simp_all add: next_comp_def after_comp_def)
  then show ?thesis using assms(1) by (subst path_comps.simps) (simp add: path_comps_abs)
qed

lemma path_comps_render: "list_all name_ok cs \<Longrightarrow> path_comps (render cs) = cs"
proof (induction cs)
  case Nil
  show ?case by (simp add: render_def path_comps.simps next_comp_def after_comp_def)
next
  case (Cons c cs)
  let ?rest = "if cs = [] then [] else render cs"
  have c: "c \<noteq> []" "CHR ''/'' \<notin> set c" using Cons.prems by (auto simp: name_ok_def)
  have "dropWhile (\<lambda>x. x = CHR ''/'') (render (c # cs)) = c @ ?rest"
    using c by (cases c) (auto simp: render_Cons)
  then have "path_comps (render (c # cs)) = path_comps (c @ ?rest)"
    using path_comps_abs [of "render (c # cs)"] by simp
  also have "\<dots> = c # path_comps ?rest" using c by (intro path_comps_name) auto
  also have "path_comps ?rest = cs" using Cons by (auto simp: path_comps.simps [of "[]"])
  finally show ?case .
qed

lemma render_prefix_length: "length (render (ds @ [c])) \<le> length (render (ds @ c # cs))"
  by (simp add: render_def)

lemma norm_spec_names:
  "\<lbrakk>list_all name_ok cs; length (render (ds @ cs)) < FS_PATH_CAP\<rbrakk> \<Longrightarrow> norm_spec ds cs = Some (ds @ cs)"
proof (induction cs arbitrary: ds)
  case (Cons c cs)
  then show ?case
    using render_prefix_length [of ds c cs] Cons.IH [of "ds @ [c]"] by (auto simp: name_ok_def comp_step_def)
qed simp

lemma normalize_canonical:
  assumes "canonical cwd" "canonical q" "length q < cap" "2 \<le> cap"
  shows "fs_core_normalize_path (Some cwd) (Some q) cap = Inr q"
proof -
  obtain cs0 where cwd: "cwd = render cs0" "list_all name_ok cs0" using assms(1) by (auto simp: canonical_def)
  obtain cs where q: "q = render cs" "list_all name_ok cs" using assms(2) by (auto simp: canonical_def)
  have "norm_spec [] (path_comps q) = Some cs"
    using q assms(2) norm_spec_names [of cs "[]"] by (simp add: path_comps_render canonical_def)
  then show ?thesis
    using normalize_path_eq [OF assms(1) cwd _ assms(4), of q] q assms(3) by simp
qed

text \<open>
  canonical paths are fixed points: normalising the result of a normalisation, from any working
  directory, returns it unchanged, so every name of a file has one canonical form.
\<close>

theorem normalize_idempotent:
  assumes "canonical cwd" "canonical cwd'" "fs_core_normalize_path (Some cwd) (Some p) cap = Inr q"
  shows "fs_core_normalize_path (Some cwd') (Some q) cap = Inr q"
proof -
  obtain cs0 where cwd: "cwd = render cs0" "list_all name_ok cs0" using assms(1) by (auto simp: canonical_def)
  have cap: "p \<noteq> []" "2 \<le> cap"
    using assms(3) by (auto simp: fs_core_normalize_path_def split: if_splits)
  let ?base = "if hd p = CHR ''/'' then [] else cs0"
  obtain cs where cs: "norm_spec ?base (path_comps p) = Some cs" "q = render cs" "length q < cap"
    using assms(3) normalize_path_eq [OF assms(1) cwd cap] by (auto split: option.splits if_splits)
  have "list_all name_ok ?base" "length (render ?base) < FS_PATH_CAP"
    using cwd assms(1) root_short by (auto simp: canonical_def)
  then have "canonical q"
    using norm_spec_canonical [OF cs(1) _ _ path_comps_names] cs(2) by (auto simp: canonical_def)
  then show ?thesis using assms(2) cs(3) cap(2) by (intro normalize_canonical)
qed

theorem normalize_idempotent_witness:
  "fs_core_normalize_path (Some ''/'') (Some ''/a/../b'') 128 = Inr ''/b'' \<and>
   fs_core_normalize_path (Some ''/'') (Some ''/b'') 128 = Inr ''/b''"
proof -
  have "fs_core_normalize_path (Some ''/'') (Some ''/a/../b'') 128 = Inr ''/b''"
    by (simp add: fs_core_normalize_path_def norm_loop.simps next_comp_def after_comp_def norm_separator_def
        cut_last_def strip_loop.simps Let_def fs_copy_name_def)
  with normalize_idempotent [OF canonical_root canonical_root this] show ?thesis by simp
qed

lemma parent_path_render:
  assumes "list_all name_ok (cs @ [c])" "2 \<le> cap"
  shows "fs_parent_path (Some (render (cs @ [c]))) cap =
    (if cap < length (render cs) + 1 then Inl FS_ERR_NO_SPACE else Inr (render cs))"
proof (cases "cs = []")
  case True
  then show ?thesis
    using assms strip_loop_slash [of c "[]"] by (auto simp: fs_parent_path_def render_def Let_def name_ok_def)
next
  case False
  let ?p = "render cs"
  have len: "length (render (cs @ [c])) = length ?p + 1 + length c" using False by (simp add: render_snoc)
  have "strip_loop (render (cs @ [c])) (length (render (cs @ [c]))) = length ?p + 1"
    using strip_loop_slash [of c ?p] assms(1) False unfolding len by (simp add: render_snoc name_ok_def)
  moreover have "?p \<noteq> []" "\<not> length (render (cs @ [c])) \<le> 1" using len by (simp_all add: Suc_le_eq)
  ultimately show ?thesis
    using assms(2) False by (simp add: fs_parent_path_def Let_def render_snoc)
qed

end
