(* ===== verification/Kernel_State.thy ===== *)
theory Kernel_State
  imports Pseudo_Fs Path_Norm
begin

text \<open>
  The state that the file layer, the descriptor tables and the process table share, and the parts
  of them that call each other: the calls on file handles of
  \<open>src/src/kernel/core/fs/fs_core.c\<close>, the descriptor tables of
  \<open>src/src/kernel/core/posix/fd_core.c\<close> and the processes of
  \<open>src/src/kernel/core/process/process_core.c\<close>.

  The root file system is any driver over its own state. A descriptor table lives in a process, so a
  table pointer is the index of that process; a description pointer is its index.
\<close>

subsection \<open>Types\<close>

abbreviation "POSIX_FD_CAP \<equiv> 32 :: nat"
abbreviation "POSIX_OFD_CAP \<equiv> 32 :: nat"
abbreviation "PROCESS_MAX \<equiv> 16 :: nat"
abbreviation "PROCESS_NAME_CAP \<equiv> 24 :: nat"

abbreviation "POSIX_OK \<equiv> 0 :: int"
abbreviation "POSIX_ENOENT \<equiv> 2 :: int"
abbreviation "POSIX_ESRCH \<equiv> 3 :: int"
abbreviation "POSIX_EIO \<equiv> 5 :: int"
abbreviation "POSIX_EBADF \<equiv> 9 :: int"
abbreviation "POSIX_EACCES \<equiv> 13 :: int"
abbreviation "POSIX_EEXIST \<equiv> 17 :: int"
abbreviation "POSIX_ENOTDIR \<equiv> 20 :: int"
abbreviation "POSIX_EISDIR \<equiv> 21 :: int"
abbreviation "POSIX_EINVAL \<equiv> 22 :: int"
abbreviation "POSIX_ENOTTY \<equiv> 25 :: int"
abbreviation "POSIX_ENOSPC \<equiv> 28 :: int"
abbreviation "POSIX_EROFS \<equiv> 30 :: int"
abbreviation "POSIX_ENOTEMPTY \<equiv> 39 :: int"

datatype fd_kind = FD_KIND_UNUSED | FD_KIND_TTY_IN | FD_KIND_TTY_OUT | FD_KIND_VFS

record fd_description_t =
  d_used :: bool
  d_refs :: u16
  d_kind :: fd_kind
  d_node_id :: u32
  d_offset :: u32
  d_flags :: u32

record fd_entry =
  e_used :: bool
  e_index :: u8

record fd_table =
  entries :: "nat \<Rightarrow> fd_entry"
  initialized :: bool

datatype process_state =
  PROCESS_STATE_UNUSED
| PROCESS_STATE_RUNNABLE
| PROCESS_STATE_RUNNING
| PROCESS_STATE_BLOCKED
| PROCESS_STATE_ZOMBIE

record process =
  pid :: u32
  ppid :: u32
  pstate :: process_state
  exit_status :: int
  cwd :: string
  ptable :: fd_table
  address_space :: u32
  entry_ip :: u32
  user_sp :: u32
  kernel_stack :: u32
  image_arch :: u32
  image_segment_count :: u32
  image_file_size :: u32
  pname :: string

datatype fs_media_kind = FS_MEDIA_NONE | FS_MEDIA_FAT12 | FS_MEDIA_ISO9660

record ('s, 'c) kernel =
  g_descriptions :: "nat \<Rightarrow> fd_description_t"
  g_descriptions_initialized :: bool
  g_tty_line_row :: u16
  g_tty_line_col :: u16
  g_processes :: "nat \<Rightarrow> process"
  g_current_process :: "nat option"
  g_next_pid :: u32
  g_root_driver :: "'s vfs_driver option"
  g_media_driver :: "'s vfs_driver option"
  g_media_kind :: fs_media_kind
  fs_state :: 's
  dev_state :: 'c

abbreviation upd_desc :: "nat \<Rightarrow> (fd_description_t \<Rightarrow> fd_description_t) \<Rightarrow> ('s, 'c) kernel \<Rightarrow> ('s, 'c) kernel" where
  "upd_desc d f k \<equiv> k\<lparr>g_descriptions := (g_descriptions k)(d := f (g_descriptions k d))\<rparr>"

abbreviation upd_proc :: "nat \<Rightarrow> (process \<Rightarrow> process) \<Rightarrow> ('s, 'c) kernel \<Rightarrow> ('s, 'c) kernel" where
  "upd_proc i f k \<equiv> k\<lparr>g_processes := (g_processes k)(i := f (g_processes k i))\<rparr>"

abbreviation table_of :: "nat \<Rightarrow> ('s, 'c) kernel \<Rightarrow> fd_table" where
  "table_of i k \<equiv> ptable (g_processes k i)"

definition set_entry :: "nat \<Rightarrow> nat \<Rightarrow> fd_entry \<Rightarrow> ('s, 'c) kernel \<Rightarrow> ('s, 'c) kernel" where
  "set_entry i fd e k = upd_proc i (\<lambda>p. p\<lparr>ptable := (ptable p)\<lparr>entries := (entries (ptable p))(fd := e)\<rparr>\<rparr>) k"

subsection \<open>Calls on file handles\<close>

definition fs_core_to_errno :: "'a fs_result \<Rightarrow> int" where
  "fs_core_to_errno rc =
     (case rc of
        Inr _ \<Rightarrow> POSIX_OK
      | Inl e \<Rightarrow> (case e of
          FS_ERR_NOT_FOUND \<Rightarrow> POSIX_ENOENT | FS_ERR_EXISTS \<Rightarrow> POSIX_EEXIST | FS_ERR_NOT_DIR \<Rightarrow> POSIX_ENOTDIR
        | FS_ERR_INVALID \<Rightarrow> POSIX_EINVAL | FS_ERR_NO_SPACE \<Rightarrow> POSIX_ENOSPC | FS_ERR_READ_ONLY \<Rightarrow> POSIX_EROFS
        | FS_ERR_IS_DIR \<Rightarrow> POSIX_EISDIR | FS_ERR_NOT_EMPTY \<Rightarrow> POSIX_ENOTEMPTY))"

definition fs_core_read :: "'c services \<Rightarrow> u32 \<Rightarrow> u32 \<Rightarrow> u32 \<Rightarrow> ('s, 'c) kernel \<Rightarrow> (char list fs_result \<times> ('s, 'c) kernel) option" where
  "fs_core_read S node_id off cap k =
     (if PSEUDO_IS_FD node_id
      then (case pseudo_fs_read S node_id off cap (dev_state k) of
              None \<Rightarrow> None
            | Some (r, c) \<Rightarrow> Some (r, k\<lparr>dev_state := c\<rparr>))
      else Some (case Option.bind (g_root_driver k) drv_read of
                   None \<Rightarrow> Inl FS_ERR_INVALID
                 | Some rd \<Rightarrow> rd node_id off cap (fs_state k), k))"

definition fs_core_write :: "'c services \<Rightarrow> u32 \<Rightarrow> u32 \<Rightarrow> char list \<Rightarrow> ('s, 'c) kernel \<Rightarrow> u32 fs_result \<times> ('s, 'c) kernel" where
  "fs_core_write S node_id off data k =
     (if PSEUDO_IS_FD node_id
      then (let (r, c) = pseudo_fs_write S node_id off data (dev_state k) in (r, k\<lparr>dev_state := c\<rparr>))
      else case Option.bind (g_root_driver k) drv_write of
             None \<Rightarrow> (Inl FS_ERR_READ_ONLY, k)
           | Some wr \<Rightarrow> (let (r, s) = wr node_id off data (fs_state k) in (r, k\<lparr>fs_state := s\<rparr>)))"

definition fs_core_size :: "'c services \<Rightarrow> u32 \<Rightarrow> ('s, 'c) kernel \<Rightarrow> u32 fs_result" where
  "fs_core_size S node_id k =
     (if PSEUDO_IS_FD node_id then pseudo_fs_size S node_id (dev_state k)
      else case Option.bind (g_root_driver k) drv_size of
             None \<Rightarrow> Inl FS_ERR_INVALID
           | Some sz \<Rightarrow> sz node_id (fs_state k))"

definition fs_core_close :: "u32 \<Rightarrow> ('s, 'c) kernel \<Rightarrow> unit fs_result \<times> ('s, 'c) kernel" where
  "fs_core_close node_id k =
     (if PSEUDO_IS_FD node_id then (pseudo_fs_close node_id, k)
      else case Option.bind (g_root_driver k) drv_close of
             None \<Rightarrow> (Inr (), k)
           | Some cl \<Rightarrow> (let (r, s) = cl node_id (fs_state k) in (r, k\<lparr>fs_state := s\<rparr>)))"

definition fs_core_fstat :: "'c services \<Rightarrow> u32 \<Rightarrow> ('s, 'c) kernel \<Rightarrow> fs_stat fs_result" where
  "fs_core_fstat S node_id k =
     (if PSEUDO_IS_FD node_id then pseudo_fs_fstat S node_id (dev_state k)
      else case Option.bind (g_root_driver k) drv_fstat of
             None \<Rightarrow> Inl FS_ERR_INVALID
           | Some st \<Rightarrow> st node_id (fs_state k))"

subsection \<open>Descriptor tables\<close>

definition fd_description_zero :: fd_description_t where
  "fd_description_zero = \<lparr>d_used = False, d_refs = 0, d_kind = FD_KIND_UNUSED, d_node_id = 0, d_offset = 0, d_flags = 0\<rparr>"

definition fd_descriptions_ensure_init :: "('s, 'c) kernel \<Rightarrow> ('s, 'c) kernel" where
  "fd_descriptions_ensure_init k =
     (if g_descriptions_initialized k then k
      else k\<lparr>g_descriptions := (\<lambda>_. fd_description_zero), g_descriptions_initialized := True\<rparr>)"

definition fd_zero_entry :: fd_entry where
  "fd_zero_entry = \<lparr>e_used = False, e_index = 0\<rparr>"

definition fd_core_table_reset :: fd_table where
  "fd_core_table_reset = \<lparr>entries = (\<lambda>_. fd_zero_entry), initialized = False\<rparr>"

definition fd_alloc_description :: "fd_kind \<Rightarrow> u32 \<Rightarrow> u32 \<Rightarrow> u32 \<Rightarrow> ('s, 'c) kernel \<Rightarrow> nat option \<times> ('s, 'c) kernel" where
  "fd_alloc_description kind node_id flags off k0 =
     (let k = fd_descriptions_ensure_init k0
      in case List.find (\<lambda>i. \<not> d_used (g_descriptions k i)) [0..<POSIX_OFD_CAP] of
           None \<Rightarrow> (None, k)
         | Some i \<Rightarrow> (Some i, k\<lparr>g_descriptions := (g_descriptions k)(i := \<lparr>d_used = True, d_refs = 1, d_kind = kind,
                          d_node_id = node_id, d_offset = off, d_flags = flags\<rparr>)\<rparr>))"

definition fd_description :: "nat \<Rightarrow> int \<Rightarrow> ('s, 'c) kernel \<Rightarrow> nat option" where
  "fd_description i fd k =
     (if fd < 0 \<or> int POSIX_FD_CAP \<le> fd \<or> \<not> e_used (entries (table_of i k) (nat fd)) then None
      else let index = unat (e_index (entries (table_of i k) (nat fd)))
           in if POSIX_OFD_CAP \<le> index \<or> \<not> d_used (g_descriptions k index) then None else Some index)"

definition fd_assign_new_description :: "nat \<Rightarrow> int \<Rightarrow> fd_kind \<Rightarrow> u32 \<Rightarrow> u32 \<Rightarrow> u32 \<Rightarrow> ('s, 'c) kernel \<Rightarrow> int \<times> ('s, 'c) kernel" where
  "fd_assign_new_description i fd kind node_id flags off k =
     (if fd < 0 \<or> int POSIX_FD_CAP \<le> fd then (- POSIX_EBADF, k)
      else case fd_alloc_description kind node_id flags off k of
             (None, k1) \<Rightarrow> (- POSIX_ENOSPC, k1)
           | (Some index, k1) \<Rightarrow> (0, set_entry i (nat fd) \<lparr>e_used = True, e_index = of_nat index\<rparr> k1))"

definition fd_to_errno :: "'a fs_result \<Rightarrow> int" where
  "fd_to_errno rc =
     (case rc of Inr _ \<Rightarrow> 0
      | Inl _ \<Rightarrow> (let err = fs_core_to_errno rc in - (if err \<noteq> 0 then err else POSIX_EIO)))"

definition fd_release_entry :: "nat \<Rightarrow> int \<Rightarrow> ('s, 'c) kernel \<Rightarrow> int \<times> ('s, 'c) kernel" where
  "fd_release_entry i fd k =
     (case fd_description i fd k of
        None \<Rightarrow> (- POSIX_EBADF, k)
      | Some index \<Rightarrow>
          let k1 = set_entry i (nat fd) fd_zero_entry k;
              k2 = (if d_refs (g_descriptions k1 index) > 0 then upd_desc index (\<lambda>d. d\<lparr>d_refs := d_refs d - 1\<rparr>) k1 else k1)
          in if d_refs (g_descriptions k2 index) \<noteq> 0 then (0, k2)
             else let (rc, k3) = (if d_kind (g_descriptions k2 index) = FD_KIND_VFS
                                  then fs_core_close (d_node_id (g_descriptions k2 index)) k2 else (Inr (), k2))
                  in (fd_to_errno rc, upd_desc index (\<lambda>_. fd_description_zero) k3))"

definition set_table :: "nat \<Rightarrow> fd_table \<Rightarrow> ('s, 'c) kernel \<Rightarrow> ('s, 'c) kernel" where
  "set_table i t k = upd_proc i (\<lambda>p. p\<lparr>ptable := t\<rparr>) k"

definition fd_core_table_destroy :: "nat \<Rightarrow> ('s, 'c) kernel \<Rightarrow> ('s, 'c) kernel" where
  "fd_core_table_destroy i k =
     set_table i fd_core_table_reset
       (fold (\<lambda>fd k. if e_used (entries (table_of i k) fd) then snd (fd_release_entry i (int fd) k) else k) [0..<POSIX_FD_CAP] k)"

definition fd_core_table_init :: "nat \<Rightarrow> ('s, 'c) kernel \<Rightarrow> ('s, 'c) kernel" where
  "fd_core_table_init i k0 =
     (let k = set_table i fd_core_table_reset (fd_descriptions_ensure_init k0);
          (r0, k1) = fd_assign_new_description i 0 FD_KIND_TTY_IN 0 0 0 k
      in if r0 < 0 then fd_core_table_destroy i k1
         else let (r1, k2) = fd_assign_new_description i 1 FD_KIND_TTY_OUT 0 0 0 k1
         in if r1 < 0 then fd_core_table_destroy i k2
            else let (r2, k3) = fd_assign_new_description i 2 FD_KIND_TTY_OUT 0 0 0 k2
            in if r2 < 0 then fd_core_table_destroy i k3
               else set_table i ((table_of i k3)\<lparr>initialized := True\<rparr>) k3)"

text \<open>The copying loop of \<open>fd_core_table_clone\<close>; it stops at an entry without a description.\<close>

fun clone_loop :: "nat \<Rightarrow> nat \<Rightarrow> nat list \<Rightarrow> ('s, 'c) kernel \<Rightarrow> bool \<times> ('s, 'c) kernel" where
  "clone_loop dst src [] k = (True, k)"
| "clone_loop dst src (fd # fds) k =
     (let e = entries (table_of src k) fd; index = unat (e_index e)
      in if \<not> e_used e then clone_loop dst src fds k
         else if POSIX_OFD_CAP \<le> index \<or> \<not> d_used (g_descriptions k index) then (False, k)
         else clone_loop dst src fds (upd_desc index (\<lambda>d. d\<lparr>d_refs := d_refs d + 1\<rparr>) (set_entry dst fd e k)))"

definition fd_core_table_clone :: "nat \<Rightarrow> nat \<Rightarrow> ('s, 'c) kernel \<Rightarrow> int \<times> ('s, 'c) kernel" where
  "fd_core_table_clone dst src k =
     (if \<not> initialized (table_of src k) then (- POSIX_EINVAL, k)
      else case clone_loop dst src [0..<POSIX_FD_CAP] (set_table dst fd_core_table_reset k) of
             (False, k1) \<Rightarrow> (- POSIX_EBADF, fd_core_table_destroy dst k1)
           | (True, k1) \<Rightarrow> (0, set_table dst ((table_of dst k1)\<lparr>initialized := True\<rparr>) k1))"

subsection \<open>Processes\<close>

definition process_copy_string :: "nat \<Rightarrow> string \<Rightarrow> string" where
  "process_copy_string cap src = take (cap - 1) src"

definition process_clear :: process where
  "process_clear = \<lparr>pid = 0, ppid = 0, pstate = PROCESS_STATE_UNUSED, exit_status = 0, cwd = [], ptable = fd_core_table_reset,
     address_space = 0, entry_ip = 0, user_sp = 0, kernel_stack = 0, image_arch = 0, image_segment_count = 0,
     image_file_size = 0, pname = []\<rparr>"

definition process_core_init :: "('s, 'c) kernel \<Rightarrow> ('s, 'c) kernel" where
  "process_core_init k0 =
     (let k1 = k0\<lparr>g_next_pid := 1, g_processes := (\<lambda>_. process_clear)\<rparr>;
          k2 = upd_proc 0 (\<lambda>p. p\<lparr>pid := g_next_pid k1, ppid := 0, pstate := PROCESS_STATE_RUNNING,
                              cwd := process_copy_string FS_PATH_CAP ''/''\<rparr>) (k1\<lparr>g_next_pid := g_next_pid k1 + 1\<rparr>);
          k3 = fd_core_table_init 0 k2;
          k4 = upd_proc 0 (\<lambda>p. p\<lparr>pname := process_copy_string PROCESS_NAME_CAP ''kernel-shell''\<rparr>) k3
      in k4\<lparr>g_current_process := Some 0\<rparr>)"

definition process_core_current :: "('s, 'c) kernel \<Rightarrow> nat \<times> ('s, 'c) kernel" where
  "process_core_current k =
     (case g_current_process k of Some i \<Rightarrow> (i, k) | None \<Rightarrow> (0, process_core_init k))"

definition process_core_set_cwd :: "nat \<Rightarrow> string \<Rightarrow> ('s, 'c) kernel \<Rightarrow> ('s, 'c) kernel" where
  "process_core_set_cwd i dir k = upd_proc i (\<lambda>p. p\<lparr>cwd := process_copy_string FS_PATH_CAP dir\<rparr>) k"

definition process_core_record_exec_image :: "nat \<Rightarrow> string \<Rightarrow> u32 \<Rightarrow> u32 \<Rightarrow> u32 \<Rightarrow> u32 \<Rightarrow> ('s, 'c) kernel \<Rightarrow> ('s, 'c) kernel" where
  "process_core_record_exec_image i path arch entry segment_count file_size k =
     upd_proc i (\<lambda>p. p\<lparr>image_arch := arch, entry_ip := entry, image_segment_count := segment_count,
                     image_file_size := file_size, pname := process_copy_string PROCESS_NAME_CAP path\<rparr>) k"

definition process_find_pid :: "u32 \<Rightarrow> ('s, 'c) kernel \<Rightarrow> nat option" where
  "process_find_pid p k =
     List.find (\<lambda>i. pstate (g_processes k i) \<noteq> PROCESS_STATE_UNUSED \<and> pid (g_processes k i) = p) [0..<PROCESS_MAX]"

definition process_core_spawn_exec :: "string \<Rightarrow> u32 \<Rightarrow> u32 \<Rightarrow> u32 \<Rightarrow> u32 \<Rightarrow> u32 \<Rightarrow> ('s, 'c) kernel \<Rightarrow> nat option \<times> ('s, 'c) kernel" where
  "process_core_spawn_exec path arch entry segment_count file_size sp k0 =
     (let (parent, k) = process_core_current k0
      in case List.find (\<lambda>i. pstate (g_processes k i) = PROCESS_STATE_UNUSED) [0..<PROCESS_MAX] of
           None \<Rightarrow> (None, k)
         | Some child \<Rightarrow>
             let k1 = upd_proc child (\<lambda>_. process_clear\<lparr>pid := g_next_pid k, ppid := pid (g_processes k parent),
                        pstate := PROCESS_STATE_RUNNING, user_sp := sp,
                        cwd := process_copy_string FS_PATH_CAP (cwd (g_processes k parent))\<rparr>) (k\<lparr>g_next_pid := g_next_pid k + 1\<rparr>);
                 (rc, k2) = fd_core_table_clone child parent k1
             in if rc < 0 then (None, upd_proc child (\<lambda>_. process_clear) k2)
                else (Some child, (process_core_record_exec_image child path arch entry segment_count file_size k2)
                                    \<lparr>g_current_process := Some child\<rparr>))"

definition process_core_exit_current :: "int \<Rightarrow> ('s, 'c) kernel \<Rightarrow> ('s, 'c) kernel" where
  "process_core_exit_current status k0 =
     (let (i, k) = process_core_current k0;
          k1 = upd_proc i (\<lambda>p. p\<lparr>exit_status := status, pstate := PROCESS_STATE_ZOMBIE\<rparr>) k
      in case process_find_pid (ppid (g_processes k1 i)) k1 of
           None \<Rightarrow> k1
         | Some parent \<Rightarrow> (upd_proc parent (\<lambda>p. p\<lparr>pstate := PROCESS_STATE_RUNNING\<rparr>) k1)\<lparr>g_current_process := Some parent\<rparr>)"

definition process_core_reap :: "nat \<Rightarrow> ('s, 'c) kernel \<Rightarrow> ('s, 'c) kernel" where
  "process_core_reap i k =
     (if pstate (g_processes k i) \<noteq> PROCESS_STATE_ZOMBIE then k
      else upd_proc i (\<lambda>_. process_clear) (fd_core_table_destroy i k))"

end
