(* ===== verification/Fs_Core.thy ===== *)
theory Fs_Core
  imports Kernel_State
begin

text \<open>
  The path operations of \<open>src/src/kernel/core/fs/fs_core.c\<close>: paths relative to the working directory
  of the current process, the \<open>/dev\<close> and \<open>/proc\<close> mount points, symbolic links kept in files, and
  the dispatch to the root driver. A path pointer may be null.
\<close>

abbreviation "FS_SYMLINK_PREFIX \<equiv> ''S1SYMLINK:''"
abbreviation "FS_SYMLINK_PREFIX_LEN \<equiv> 10 :: nat"
abbreviation "FS_SYMLINK_MAX_DEPTH \<equiv> 8 :: nat"

text \<open>The size of \<open>g_symlink_buffer\<close> and of the buffer of \<open>fs_core_symlink\<close>.\<close>

abbreviation "FS_SYMLINK_BUFFER \<equiv> FS_PATH_CAP + 16"

subsection \<open>Links\<close>

definition fs_raw_readlink :: "string \<Rightarrow> nat \<Rightarrow> ('s, 'c) kernel \<Rightarrow> string fs_result" where
  "fs_raw_readlink full_path cap k =
     (case (Option.bind (g_root_driver k) drv_stat, Option.bind (g_root_driver k) drv_read_file) of
        (Some stat, Some read_file) \<Rightarrow>
          if cap = 0 then Inl FS_ERR_INVALID
          else (case stat full_path (fs_state k) of
             Inl e \<Rightarrow> Inl e
           | Inr st \<Rightarrow>
               if st_mode st AND FS_MODE_FILE = 0 \<or> unat (st_size st) \<le> FS_SYMLINK_PREFIX_LEN \<or>
                  FS_SYMLINK_BUFFER \<le> unat (st_size st)
               then Inl FS_ERR_INVALID
               else (case read_file full_path FS_SYMLINK_BUFFER (fs_state k) of
                  Inl e \<Rightarrow> Inl e
                | Inr data \<Rightarrow>
                    if length data \<le> FS_SYMLINK_PREFIX_LEN then Inl FS_ERR_INVALID
                    else if take FS_SYMLINK_PREFIX_LEN data \<noteq> FS_SYMLINK_PREFIX then Inl FS_ERR_INVALID
                    else if cap < length data - FS_SYMLINK_PREFIX_LEN + 1 then Inl FS_ERR_NO_SPACE
                    else Inr (takeWhile (\<lambda>ch. ch \<noteq> CHR 0x0A \<and> ch \<noteq> CHR 0x0D \<and> ch \<noteq> CHR 0x00)
                                (drop FS_SYMLINK_PREFIX_LEN data))))
      | _ \<Rightarrow> Inl FS_ERR_INVALID)"

text \<open>One target, relative to the directory of the link.\<close>

definition symlink_step :: "string \<Rightarrow> string \<Rightarrow> string fs_result" where
  "symlink_step current target =
     (if target = [] then Inl FS_ERR_INVALID
      else if hd target = CHR ''/'' then fs_core_normalize_path (Some ''/'') (Some target) FS_PATH_CAP
      else case fs_parent_path (Some current) FS_PATH_CAP of
             Inl e \<Rightarrow> Inl e
           | Inr parent \<Rightarrow> fs_core_normalize_path (Some parent) (Some target) FS_PATH_CAP)"

text \<open>The loop of \<open>fs_resolve_final_symlink\<close> with the rounds that are left.\<close>

primrec symlink_loop :: "nat \<Rightarrow> string \<Rightarrow> nat \<Rightarrow> ('s, 'c) kernel \<Rightarrow> string fs_result" where
  "symlink_loop 0 current cap k = Inl FS_ERR_INVALID"
| "symlink_loop (Suc depth) current cap k =
     (case fs_raw_readlink current FS_PATH_CAP k of
        Inl e \<Rightarrow> Inr (fs_copy_name cap (Some current))
      | Inr target \<Rightarrow>
          (case symlink_step current target of
             Inl e \<Rightarrow> Inl e
           | Inr next \<Rightarrow> symlink_loop depth next cap k))"

definition fs_resolve_final_symlink :: "string \<Rightarrow> nat \<Rightarrow> ('s, 'c) kernel \<Rightarrow> string fs_result" where
  "fs_resolve_final_symlink full_path cap k =
     symlink_loop FS_SYMLINK_MAX_DEPTH (fs_copy_name FS_PATH_CAP (Some full_path)) cap k"

subsection \<open>Operations\<close>

definition fs_core_init_ramfs :: "(ramfs, 'c) kernel \<Rightarrow> unit fs_result \<times> (ramfs, 'c) kernel" where
  "fs_core_init_ramfs k =
     (let k1 = k\<lparr>g_root_driver := None, g_media_driver := None, g_media_kind := FS_MEDIA_NONE\<rparr>;
          (rc, s) = ramfs_core_init (fs_state k1)
      in case rc of
           Inl e \<Rightarrow> (Inl e, k1\<lparr>fs_state := s\<rparr>)
         | Inr _ \<Rightarrow> (Inr (), k1\<lparr>g_root_driver := Some ramfs_core_driver, fs_state := ramfs_core_clear_dirty s\<rparr>))"

definition fs_core_get_cwd_path :: "('s, 'c) kernel \<Rightarrow> string \<times> ('s, 'c) kernel" where
  "fs_core_get_cwd_path k0 =
     (let (i, k) = process_core_current k0
      in if cwd (g_processes k i) \<noteq> [] then (cwd (g_processes k i), k)
         else (case Option.bind (g_root_driver k) drv_get_cwd_path of None \<Rightarrow> ''/'' | Some f \<Rightarrow> f (fs_state k), k))"

text \<open>The full path of an argument: \<open>fs_core_normalize_path(fs_core_get_cwd_path(), path, ...)\<close>.\<close>

definition full_path_of :: "string option \<Rightarrow> ('s, 'c) kernel \<Rightarrow> string fs_result \<times> ('s, 'c) kernel" where
  "full_path_of path k0 =
     (let (dir, k) = fs_core_get_cwd_path k0 in (fs_core_normalize_path (Some dir) path FS_PATH_CAP, k))"

definition fs_core_change_dir :: "string option \<Rightarrow> ('s, 'c) kernel \<Rightarrow> unit fs_result \<times> ('s, 'c) kernel" where
  "fs_core_change_dir path k0 =
     (case Option.bind (g_root_driver k0) drv_change_dir of
        None \<Rightarrow> (Inl FS_ERR_INVALID, k0)
      | Some change_dir \<Rightarrow>
          (case full_path_of path k0 of
             (Inl e, k) \<Rightarrow> (Inl e, k)
           | (Inr full_path, k) \<Rightarrow>
               (case fs_resolve_final_symlink full_path FS_PATH_CAP k of
                  Inl e \<Rightarrow> (Inl e, k)
                | Inr resolved \<Rightarrow>
                    let (rc, k1) = (if pseudo_fs_is_path resolved then (pseudo_fs_change_dir resolved, k)
                                    else let (r, s) = change_dir resolved (fs_state k) in (r, k\<lparr>fs_state := s\<rparr>))
                    in case rc of
                         Inl e \<Rightarrow> (Inl e, k1)
                       | Inr _ \<Rightarrow> (let (i, k2) = process_core_current k1 in (Inr (), process_core_set_cwd i resolved k2)))))"

definition fs_core_make_dir :: "string option \<Rightarrow> ('s, 'c) kernel \<Rightarrow> unit fs_result \<times> ('s, 'c) kernel" where
  "fs_core_make_dir path k0 =
     (case Option.bind (g_root_driver k0) drv_make_dir of
        None \<Rightarrow> (Inl FS_ERR_READ_ONLY, k0)
      | Some make_dir \<Rightarrow>
          (case full_path_of path k0 of
             (Inl e, k) \<Rightarrow> (Inl e, k)
           | (Inr full_path, k) \<Rightarrow>
               if pseudo_fs_is_path full_path then (Inl FS_ERR_READ_ONLY, k)
               else let (r, s) = make_dir full_path (fs_state k) in (r, k\<lparr>fs_state := s\<rparr>)))"

text \<open>An entry of a listing becomes a link when its file holds one; paths that are too long are skipped.\<close>

definition mark_link :: "string \<Rightarrow> ('s, 'c) kernel \<Rightarrow> fs_dirent \<Rightarrow> fs_dirent" where
  "mark_link full_path k e =
     (if FS_PATH_CAP \<le> length full_path + length (ent_name e) + 2 then e
      else let child = full_path @ (if full_path = [] \<or> last full_path \<noteq> CHR ''/'' then ''/'' else []) @ ent_name e
           in case fs_raw_readlink child FS_PATH_CAP k of
                Inl _ \<Rightarrow> e
              | Inr _ \<Rightarrow> e\<lparr>ent_type := FS_NODE_SYMLINK\<rparr>)"

definition fs_core_list_dir :: "string option \<Rightarrow> nat \<Rightarrow> ('s, 'c) kernel \<Rightarrow> fs_dirent list fs_result \<times> ('s, 'c) kernel" where
  "fs_core_list_dir path cap k0 =
     (case Option.bind (g_root_driver k0) drv_list_dir of
        None \<Rightarrow> (Inl FS_ERR_INVALID, k0)
      | Some list_dir \<Rightarrow>
          let path1 = (if path = None \<or> path = Some [] then Some ''.'' else path)
          in case full_path_of path1 k0 of
             (Inl e, k) \<Rightarrow> (Inl e, k)
           | (Inr full_path, k) \<Rightarrow>
               if pseudo_fs_is_path full_path then (pseudo_fs_list_dir full_path cap, k)
               else (case list_dir full_path cap (fs_state k) of
                       Inl e \<Rightarrow> Inl e
                     | Inr es \<Rightarrow> let es1 = map (mark_link full_path k) es
                                in if full_path = ''/'' then pseudo_fs_append_root es1 cap else Inr es1, k))"

definition fs_core_read_file :: "'c services \<Rightarrow> string option \<Rightarrow> u32 \<Rightarrow> ('s, 'c) kernel \<Rightarrow> (char list fs_result \<times> ('s, 'c) kernel) option" where
  "fs_core_read_file S path cap k0 =
     (if path = None then Some (Inl FS_ERR_INVALID, k0)
      else case full_path_of path k0 of
         (Inl e, k) \<Rightarrow> Some (Inl e, k)
       | (Inr full_path, k) \<Rightarrow>
           if pseudo_fs_is_path full_path
           then map_option (\<lambda>(r, c). (r, k\<lparr>dev_state := c\<rparr>)) (pseudo_fs_read_file S full_path cap (dev_state k))
           else Some (case Option.bind (g_root_driver k) drv_read_file of
                        None \<Rightarrow> Inl FS_ERR_INVALID
                      | Some read_file \<Rightarrow>
                          (case fs_resolve_final_symlink full_path FS_PATH_CAP k of
                             Inl e \<Rightarrow> Inl e
                           | Inr resolved \<Rightarrow> read_file resolved (unat cap) (fs_state k)), k))"

definition fs_core_open :: "string option \<Rightarrow> u32 \<Rightarrow> ('s, 'c) kernel \<Rightarrow> u32 fs_result \<times> ('s, 'c) kernel" where
  "fs_core_open path flags k0 =
     (if path = None then (Inl FS_ERR_INVALID, k0)
      else case full_path_of path k0 of
         (Inl e, k) \<Rightarrow> (Inl e, k)
       | (Inr full_path, k) \<Rightarrow>
           if pseudo_fs_is_path full_path then (pseudo_fs_open full_path flags, k)
           else (case Option.bind (g_root_driver k) drv_open of
              None \<Rightarrow> (Inl FS_ERR_INVALID, k)
            | Some dopen \<Rightarrow>
                if flags AND FS_O_CREAT \<noteq> 0
                then let (r, s) = dopen full_path flags (fs_state k) in (r, k\<lparr>fs_state := s\<rparr>)
                else (case fs_resolve_final_symlink full_path FS_PATH_CAP k of
                   Inl e \<Rightarrow> (Inl e, k)
                 | Inr resolved \<Rightarrow> let (r, s) = dopen resolved flags (fs_state k) in (r, k\<lparr>fs_state := s\<rparr>))))"

definition fs_core_stat :: "'c services \<Rightarrow> string option \<Rightarrow> ('s, 'c) kernel \<Rightarrow> fs_stat fs_result \<times> ('s, 'c) kernel" where
  "fs_core_stat S path k0 =
     (if path = None then (Inl FS_ERR_INVALID, k0)
      else case full_path_of path k0 of
         (Inl e, k) \<Rightarrow> (Inl e, k)
       | (Inr full_path, k) \<Rightarrow>
           if pseudo_fs_is_path full_path then (pseudo_fs_stat S full_path (dev_state k), k)
           else (case Option.bind (g_root_driver k) drv_stat of
                   None \<Rightarrow> Inl FS_ERR_INVALID
                 | Some stat \<Rightarrow>
                     (case fs_resolve_final_symlink full_path FS_PATH_CAP k of
                        Inl e \<Rightarrow> Inl e
                      | Inr resolved \<Rightarrow> stat resolved (fs_state k)), k))"

definition fs_core_unlink :: "string option \<Rightarrow> ('s, 'c) kernel \<Rightarrow> unit fs_result \<times> ('s, 'c) kernel" where
  "fs_core_unlink path k0 =
     (if path = None then (Inl FS_ERR_INVALID, k0)
      else case full_path_of path k0 of
         (Inl e, k) \<Rightarrow> (Inl e, k)
       | (Inr full_path, k) \<Rightarrow>
           if pseudo_fs_is_path full_path then (Inl FS_ERR_READ_ONLY, k)
           else (case Option.bind (g_root_driver k) drv_unlink of
              None \<Rightarrow> (Inl FS_ERR_READ_ONLY, k)
            | Some unlink \<Rightarrow> let (r, s) = unlink full_path (fs_state k) in (r, k\<lparr>fs_state := s\<rparr>)))"

definition fs_core_rmdir :: "string option \<Rightarrow> ('s, 'c) kernel \<Rightarrow> unit fs_result \<times> ('s, 'c) kernel" where
  "fs_core_rmdir path k0 =
     (case (path, Option.bind (g_root_driver k0) drv_rmdir) of
        (Some _, Some rmdir) \<Rightarrow>
          (case full_path_of path k0 of
             (Inl e, k) \<Rightarrow> (Inl e, k)
           | (Inr full_path, k) \<Rightarrow>
               if full_path = ''/'' then (Inl FS_ERR_INVALID, k)
               else if pseudo_fs_is_path full_path then (Inl FS_ERR_READ_ONLY, k)
               else let (r, s) = rmdir full_path (fs_state k) in (r, k\<lparr>fs_state := s\<rparr>))
      | _ \<Rightarrow> (Inl FS_ERR_READ_ONLY, k0))"

definition fs_core_readlink :: "string option \<Rightarrow> nat \<Rightarrow> ('s, 'c) kernel \<Rightarrow> string fs_result \<times> ('s, 'c) kernel" where
  "fs_core_readlink path cap k0 =
     (if path = None then (Inl FS_ERR_INVALID, k0)
      else case full_path_of path k0 of
         (Inl e, k) \<Rightarrow> (Inl e, k)
       | (Inr full_path, k) \<Rightarrow> (fs_raw_readlink full_path cap k, k))"

text \<open>A target of more than 133 characters does not fit the buffer with its prefix.\<close>

definition fs_core_symlink :: "string option \<Rightarrow> string option \<Rightarrow> ('s, 'c) kernel \<Rightarrow> unit fs_result \<times> ('s, 'c) kernel" where
  "fs_core_symlink target linkpath k0 =
     (case (target, linkpath) of
        (Some t, Some l) \<Rightarrow>
          if t = [] \<or> l = [] then (Inl FS_ERR_INVALID, k0)
          else if FS_SYMLINK_BUFFER \<le> length t - 1 + FS_SYMLINK_PREFIX_LEN + 1 then (Inl FS_ERR_NO_SPACE, k0)
          else (case full_path_of linkpath k0 of
             (Inl e, k) \<Rightarrow> (Inl e, k)
           | (Inr full_path, k) \<Rightarrow>
               (case (Option.bind (g_root_driver k) drv_open, Option.bind (g_root_driver k) drv_write) of
                  (Some dopen, Some dwrite) \<Rightarrow>
                    let data = FS_SYMLINK_PREFIX @ t;
                        (r, s) = dopen full_path (FS_O_CREAT OR FS_O_TRUNC OR FS_O_WRONLY) (fs_state k)
                    in (case r of
                          Inl e \<Rightarrow> (Inl e, k\<lparr>fs_state := s\<rparr>)
                        | Inr node_id \<Rightarrow>
                            let (w, s1) = dwrite node_id 0 data s;
                                s2 = (case Option.bind (g_root_driver k) drv_close of
                                        None \<Rightarrow> s1 | Some dclose \<Rightarrow> snd (dclose node_id s1));
                                k1 = k\<lparr>fs_state := s2\<rparr>
                            in (case w of
                                  Inl e \<Rightarrow> (Inl e, k1)
                                | Inr count \<Rightarrow>
                                    (if count = of_nat (length data) then Inr () else Inl FS_ERR_INVALID, k1)))
                | _ \<Rightarrow> (Inl FS_ERR_READ_ONLY, k)))
      | _ \<Rightarrow> (Inl FS_ERR_INVALID, k0))"

definition fs_core_is_writable :: "('s, 'c) kernel \<Rightarrow> bool" where
  "fs_core_is_writable k = (if g_root_driver k = None then False else g_media_kind k \<noteq> FS_MEDIA_ISO9660)"

definition fs_core_has_pending_changes :: "('s, 'c) kernel \<Rightarrow> bool" where
  "fs_core_has_pending_changes k = False"

definition fs_core_shutdown :: "bool \<Rightarrow> ('s, 'c) kernel \<Rightarrow> unit fs_result \<times> ('s, 'c) kernel" where
  "fs_core_shutdown write_changes k = (Inr (), k)"

end
