(* ===== verification/Fd_Core.thy ===== *)
theory Fd_Core
  imports Fs_Core
begin

text \<open>
  The descriptor operations of \<open>src/src/kernel/core/posix/fd_core.c\<close>. They return a non-negative
  number or a negated error number. A buffer argument that may be null is an option. The kernel is
  built without optimisation, so the signed addition of \<open>fd_core_lseek\<close> is taken to wrap.
\<close>

definition fd_core_init :: "('s, 'c) kernel \<Rightarrow> ('s, 'c) kernel" where
  "fd_core_init k0 =
     (let (i, k) = process_core_current k0
      in if \<not> initialized (table_of i k) then fd_core_table_init i k else k)"

text \<open>How every operation starts: \<open>fd_core_ensure_init\<close>, then \<open>fd_current_table\<close>.\<close>

definition fd_current_table :: "('s, 'c) kernel \<Rightarrow> nat \<times> ('s, 'c) kernel" where
  "fd_current_table k = process_core_current (fd_core_init k)"

definition fd_find_free :: "nat \<Rightarrow> nat \<Rightarrow> ('s, 'c) kernel \<Rightarrow> nat option" where
  "fd_find_free i start k = List.find (\<lambda>fd. \<not> e_used (entries (table_of i k) fd)) [start..<POSIX_FD_CAP]"

definition fd_core_open :: "'c services \<Rightarrow> string option \<Rightarrow> u32 \<Rightarrow> ('s, 'c) kernel \<Rightarrow> int \<times> ('s, 'c) kernel" where
  "fd_core_open S path flags k0 =
     (let (i, k) = fd_current_table k0
      in case fs_core_open path flags k of
           (Inl e, k1) \<Rightarrow> (fd_to_errno (Inl e :: unit fs_result), k1)
         | (Inr node_id, k1) \<Rightarrow>
             (case (if flags AND FS_O_APPEND \<noteq> 0 then fs_core_size S node_id k1 else Inr 0) of
                Inl e \<Rightarrow> (fd_to_errno (Inl e :: unit fs_result), snd (fs_core_close node_id k1))
              | Inr off \<Rightarrow>
                  (case fd_find_free i 0 k1 of
                     None \<Rightarrow> (- POSIX_ENOSPC, snd (fs_core_close node_id k1))
                   | Some fd \<Rightarrow>
                       (case fd_alloc_description FD_KIND_VFS node_id flags off k1 of
                          (None, k2) \<Rightarrow> (- POSIX_ENOSPC, snd (fs_core_close node_id k2))
                        | (Some index, k2) \<Rightarrow>
                            (int fd, set_entry i fd \<lparr>e_used = True, e_index = of_nat index\<rparr> k2)))))"

definition fd_core_close :: "int \<Rightarrow> ('s, 'c) kernel \<Rightarrow> int \<times> ('s, 'c) kernel" where
  "fd_core_close fd k0 =
     (let (i, k) = fd_current_table k0
      in if fd_description i fd k = None then (- POSIX_EBADF, k) else fd_release_entry i fd k)"

text \<open>The result of a read: what the call returns and the bytes it stored in the buffer.\<close>

definition fd_core_read :: "'c services \<Rightarrow> int \<Rightarrow> bool \<Rightarrow> u32 \<Rightarrow> ('s, 'c) kernel \<Rightarrow> ((int \<times> char list) \<times> ('s, 'c) kernel) option" where
  "fd_core_read S fd null count k0 =
     (let (i, k) = fd_current_table k0
      in case fd_description i fd k of
           None \<Rightarrow> Some ((- POSIX_EBADF, []), k)
         | Some index \<Rightarrow>
             let d = g_descriptions k index in
             if null then Some ((- POSIX_EBADF, []), k)
             else if count = 0 then Some ((0, []), k)
             else if d_kind d = FD_KIND_TTY_IN
             then (case sv_readline S count (dev_state k) of
                     None \<Rightarrow> None
                   | Some (r, c) \<Rightarrow> Some (r, k\<lparr>dev_state := c\<rparr>))
             else if d_kind d \<noteq> FD_KIND_VFS then Some ((- POSIX_EBADF, []), k)
             else if d_flags d AND FS_O_RDWR = FS_O_WRONLY then Some ((- POSIX_EBADF, []), k)
             else (case fs_core_read S (d_node_id d) (d_offset d) count k of
                     None \<Rightarrow> None
                   | Some (Inl e, k1) \<Rightarrow> Some ((fd_to_errno (Inl e :: unit fs_result), []), k1)
                   | Some (Inr bytes, k1) \<Rightarrow>
                       Some ((sint (of_nat (length bytes) :: u32), bytes),
                         upd_desc index (\<lambda>d. d\<lparr>d_offset := d_offset d + of_nat (length bytes)\<rparr>) k1)))"

definition fd_core_write :: "'c services \<Rightarrow> int \<Rightarrow> char list option \<Rightarrow> ('s, 'c) kernel \<Rightarrow> int \<times> ('s, 'c) kernel" where
  "fd_core_write S fd buffer k0 =
     (let (i, k) = fd_current_table k0
      in case (fd_description i fd k, buffer) of
           (Some index, Some bytes) \<Rightarrow>
             let d = g_descriptions k index in
             if bytes = [] then (0, k)
             else if d_kind d = FD_KIND_TTY_OUT
             then (sint (of_nat (length bytes) :: u32),
                   k\<lparr>dev_state := sv_set_color S TTY_WHITE (fold (sv_putc S) bytes
                       (sv_set_color S (if fd = 2 then TTY_RED else TTY_WHITE) (dev_state k)))\<rparr>)
             else if d_kind d \<noteq> FD_KIND_VFS then (- POSIX_EBADF, k)
             else if d_flags d AND FS_O_RDWR = FS_O_RDONLY then (- POSIX_EBADF, k)
             else (case (if d_flags d AND FS_O_APPEND \<noteq> 0 then fs_core_size S (d_node_id d) k else Inr (d_offset d)) of
                Inl e \<Rightarrow> (fd_to_errno (Inl e :: unit fs_result), k)
              | Inr off \<Rightarrow>
                  let k1 = upd_desc index (\<lambda>d. d\<lparr>d_offset := off\<rparr>) k
                  in case fs_core_write S (d_node_id d) off bytes k1 of
                       (Inl e, k2) \<Rightarrow> (fd_to_errno (Inl e :: unit fs_result), k2)
                     | (Inr n, k2) \<Rightarrow> (sint n, upd_desc index (\<lambda>d. d\<lparr>d_offset := d_offset d + n\<rparr>) k2))
         | _ \<Rightarrow> (- POSIX_EBADF, k))"

abbreviation "FS_SEEK_SET \<equiv> 0 :: u32"
abbreviation "FS_SEEK_CUR \<equiv> 1 :: u32"
abbreviation "FS_SEEK_END \<equiv> 2 :: u32"

definition fd_core_lseek :: "'c services \<Rightarrow> int \<Rightarrow> int \<Rightarrow> u32 \<Rightarrow> ('s, 'c) kernel \<Rightarrow> int \<times> ('s, 'c) kernel" where
  "fd_core_lseek S fd off whence k0 =
     (let (i, k) = fd_current_table k0
      in case fd_description i fd k of
           None \<Rightarrow> (- POSIX_EBADF, k)
         | Some index \<Rightarrow>
             let d = g_descriptions k index in
             if d_kind d \<noteq> FD_KIND_VFS then (- POSIX_EBADF, k)
             else (case (if whence = FS_SEEK_SET then Inr 0
                         else if whence = FS_SEEK_CUR then Inr (sint (d_offset d))
                         else if whence = FS_SEEK_END
                         then (case fs_core_size S (d_node_id d) k of
                                 Inl e \<Rightarrow> Inl (fd_to_errno (Inl e :: unit fs_result)) | Inr sz \<Rightarrow> Inr (sint sz))
                         else Inl (- POSIX_EINVAL)) of
                Inl err \<Rightarrow> (err, k)
              | Inr base \<Rightarrow>
                  let next = sint (of_int (base + off) :: u32)
                  in if next < 0 then (- POSIX_EINVAL, k)
                     else (next, upd_desc index (\<lambda>d. d\<lparr>d_offset := of_int next\<rparr>) k)))"

definition fd_core_fstat :: "'c services \<Rightarrow> int \<Rightarrow> bool \<Rightarrow> ('s, 'c) kernel \<Rightarrow> (int \<times> fs_stat option) \<times> ('s, 'c) kernel" where
  "fd_core_fstat S fd null k0 =
     (let (i, k) = fd_current_table k0
      in case fd_description i fd k of
           None \<Rightarrow> ((- POSIX_EBADF, None), k)
         | Some index \<Rightarrow>
             let d = g_descriptions k index in
             if null then ((- POSIX_EBADF, None), k)
             else if d_kind d = FD_KIND_TTY_IN \<or> d_kind d = FD_KIND_TTY_OUT
             then ((0, Some \<lparr>st_mode = FS_MODE_CHAR, st_size = 0\<rparr>), k)
             else if d_kind d \<noteq> FD_KIND_VFS then ((- POSIX_EBADF, None), k)
             else (case fs_core_fstat S (d_node_id d) k of
                     Inl e \<Rightarrow> ((fd_to_errno (Inl e :: unit fs_result), None), k)
                   | Inr st \<Rightarrow> ((0, Some st), k)))"

definition fd_core_dup :: "int \<Rightarrow> ('s, 'c) kernel \<Rightarrow> int \<times> ('s, 'c) kernel" where
  "fd_core_dup oldfd k0 =
     (let (i, k) = fd_current_table k0
      in case fd_description i oldfd k of
           None \<Rightarrow> (- POSIX_EBADF, k)
         | Some index \<Rightarrow>
             (case fd_find_free i 0 k of
                None \<Rightarrow> (- POSIX_ENOSPC, k)
              | Some newfd \<Rightarrow>
                  (int newfd, upd_desc index (\<lambda>d. d\<lparr>d_refs := d_refs d + 1\<rparr>)
                     (set_entry i newfd (entries (table_of i k) (nat oldfd)) k))))"

definition fd_core_dup2 :: "int \<Rightarrow> int \<Rightarrow> ('s, 'c) kernel \<Rightarrow> int \<times> ('s, 'c) kernel" where
  "fd_core_dup2 oldfd newfd k0 =
     (let (i, k) = fd_current_table k0
      in case fd_description i oldfd k of
           None \<Rightarrow> (- POSIX_EBADF, k)
         | Some index \<Rightarrow>
             if newfd < 0 \<or> int POSIX_FD_CAP \<le> newfd then (- POSIX_EBADF, k)
             else if oldfd = newfd then (newfd, k)
             else let (rc, k1) = (if e_used (entries (table_of i k) (nat newfd)) then fd_release_entry i newfd k else (0, k))
                  in if rc < 0 then (rc, k1)
                     else (newfd, upd_desc index (\<lambda>d. d\<lparr>d_refs := d_refs d + 1\<rparr>)
                            (set_entry i (nat newfd) (entries (table_of i k1) (nat oldfd)) k1)))"

definition fd_is_terminal :: "fd_description_t \<Rightarrow> bool" where
  "fd_is_terminal d =
     (if d_kind d = FD_KIND_TTY_IN \<or> d_kind d = FD_KIND_TTY_OUT then True
      else if d_kind d \<noteq> FD_KIND_VFS \<or> \<not> PSEUDO_IS_FD (d_node_id d) then False
      else let n = d_node_id d AND NOT PSEUDO_FD_TAG in n = 2 \<or> n = 3)"

definition fd_terminal_input :: "fd_description_t \<Rightarrow> bool" where
  "fd_terminal_input d \<longleftrightarrow> d_kind d = FD_KIND_TTY_IN \<or> d_kind d = FD_KIND_VFS \<and> fd_is_terminal d"

definition fd_core_isatty :: "int \<Rightarrow> ('s, 'c) kernel \<Rightarrow> int \<times> ('s, 'c) kernel" where
  "fd_core_isatty fd k0 =
     (let (i, k) = fd_current_table k0
      in (case fd_description i fd k of
            None \<Rightarrow> - POSIX_EBADF
          | Some index \<Rightarrow> of_bool (fd_is_terminal (g_descriptions k index)), k))"

text \<open>
  The wait for a key; Ctrl-Alt-Del raises the reset (signal 0) and goes on. The loop may run
  forever, then there is no result.
\<close>

partial_function (option) key_wait :: "'c services \<Rightarrow> 'c \<Rightarrow> (int \<times> 'c) option" where
  "key_wait S c =
     (let (key, c1) = sv_take_key S c
      in if key = KEY_NONE then key_wait S (sv_cpu_idle S c1)
         else if key = KEY_CTRL_ALT_DEL then key_wait S (sv_raise S 0 c1)
         else Some (key, c1))"

text \<open>The line argument of the redraw request: null, or a text pointer that may be null with the cursor.\<close>

definition fd_core_ioctl :: "'c services \<Rightarrow> int \<Rightarrow> u32 \<Rightarrow> u32 \<Rightarrow> (char list option \<times> u32) option \<Rightarrow>
    ('s, 'c) kernel \<Rightarrow> (int \<times> ('s, 'c) kernel) option" where
  "fd_core_ioctl S fd request arg line k0 =
     (let (i, k) = fd_current_table k0
      in case fd_description i fd k of
           None \<Rightarrow> Some (- POSIX_EBADF, k)
         | Some index \<Rightarrow>
             let d = g_descriptions k index in
             if \<not> fd_is_terminal d then Some (- POSIX_ENOTTY, k)
             else if request = 0x5301
             then Some (if TTY_WHITE < arg then (- POSIX_EINVAL, k) else (0, k\<lparr>dev_state := sv_set_color S arg (dev_state k)\<rparr>))
             else if request = 0x5302
             then (if \<not> fd_terminal_input d then Some (- POSIX_ENOTTY, k)
                   else case key_wait S (dev_state k) of
                          None \<Rightarrow> None
                        | Some (key, c) \<Rightarrow> Some (key, k\<lparr>dev_state := c\<rparr>))
             else if request = 0x5303
             then Some (if \<not> fd_terminal_input d then (- POSIX_ENOTTY, k)
                        else let (row, col) = sv_get_cursor S (dev_state k)
                             in (0, k\<lparr>g_tty_line_row := row, g_tty_line_col := col,
                                     dev_state := sv_text_begin S row col (dev_state k)\<rparr>))
             else if request = 0x5304
             then Some (case line of
                          Some (Some txt, cursor) \<Rightarrow>
                            if \<not> fd_terminal_input d \<or> length txt < unat cursor then (- POSIX_EINVAL, k)
                            else (0, k\<lparr>dev_state := sv_line_redraw S txt cursor (g_tty_line_row k) (g_tty_line_col k) (dev_state k)\<rparr>)
                        | _ \<Rightarrow> (- POSIX_EINVAL, k))
             else if request = 0x5305
             then Some (if d_kind d \<noteq> FD_KIND_TTY_OUT then (- POSIX_ENOTTY, k)
                        else (0, k\<lparr>dev_state := sv_set_color S TTY_WHITE (sv_clear S (dev_state k))\<rparr>))
             else Some (- POSIX_ENOTTY, k))"

end
