(* ===== verification/Fd_Inv.thy ===== *)
theory Fd_Inv
  imports Fd_Core
begin

text \<open>
  The reference counts of open file descriptions: each counts the descriptors of all processes that
  lead to it, so a description lives exactly as long as a descriptor does, and the counts cannot
  overflow their 16 bits. All operations on descriptors and processes keep this.
\<close>

subsection \<open>Counting references\<close>

definition fd_slots :: "(nat \<times> nat) set" where
  "fd_slots = {..<PROCESS_MAX} \<times> {..<POSIX_FD_CAP}"

text \<open>The description that a descriptor of a process leads to.\<close>

definition fd_view :: "('s, 'c) kernel \<Rightarrow> nat \<times> nat \<Rightarrow> nat option" where
  "fd_view k = (\<lambda>(i, fd). if i < PROCESS_MAX \<and> fd < POSIX_FD_CAP \<and> e_used (entries (table_of i k) fd)
     then Some (unat (e_index (entries (table_of i k) fd))) else None)"

definition refs_to :: "(nat \<times> nat \<Rightarrow> nat option) \<Rightarrow> nat \<Rightarrow> (nat \<times> nat) set" where
  "refs_to V d = {p. V p = Some d}"

definition refs_ok :: "(nat \<times> nat \<Rightarrow> nat option) \<Rightarrow> (nat \<Rightarrow> fd_description_t) \<Rightarrow> bool" where
  "refs_ok V D \<longleftrightarrow>
     (\<forall>p d. V p = Some d \<longrightarrow> p \<in> fd_slots \<and> d < POSIX_OFD_CAP \<and> d_used (D d)) \<and>
     (\<forall>d < POSIX_OFD_CAP. d_used (D d) \<longrightarrow> unat (d_refs (D d)) = card (refs_to V d) \<and> d_refs (D d) \<noteq> 0)"

lemma refs_okD:
  assumes "refs_ok V D"
  shows "V p = Some d \<Longrightarrow> p \<in> fd_slots \<and> d < POSIX_OFD_CAP \<and> d_used (D d)"
    "d < POSIX_OFD_CAP \<Longrightarrow> d_used (D d) \<Longrightarrow> unat (d_refs (D d)) = card (refs_to V d) \<and> d_refs (D d) \<noteq> 0"
    "finite (refs_to V d)" "card (refs_to V d) \<le> 512"
proof -
  show "V p = Some d \<Longrightarrow> p \<in> fd_slots \<and> d < POSIX_OFD_CAP \<and> d_used (D d)"
    "d < POSIX_OFD_CAP \<Longrightarrow> d_used (D d) \<Longrightarrow> unat (d_refs (D d)) = card (refs_to V d) \<and> d_refs (D d) \<noteq> 0"
    using assms unfolding refs_ok_def by blast+
  have s: "refs_to V d \<subseteq> fd_slots" using assms by (auto simp: refs_ok_def refs_to_def)
  then show "finite (refs_to V d)" by (rule finite_subset) (simp add: fd_slots_def)
  from card_mono [OF _ s] show "card (refs_to V d) \<le> 512" by (simp add: fd_slots_def)
qed

lemma refs_to_add: "V p = None \<Longrightarrow> refs_to (V(p \<mapsto> d)) x = (if x = d then insert p (refs_to V d) else refs_to V x)"
  by (auto simp: refs_to_def)

lemma refs_to_del: "V p = Some d \<Longrightarrow> refs_to (V(p := None)) x = (if x = d then refs_to V d - {p} else refs_to V x)"
  by (auto simp: refs_to_def)

lemma refs_ok_share:
  assumes "refs_ok V D" "V p = None" "p \<in> fd_slots" "d < POSIX_OFD_CAP" "d_used (D d)"
  shows "refs_ok (V(p \<mapsto> d)) (D(d := (D d)\<lparr>d_refs := d_refs (D d) + 1\<rparr>))"
proof -
  note r = refs_okD [OF assms(1)]
  have "p \<notin> refs_to V d" using assms(2) by (simp add: refs_to_def)
  then have c: "card (insert p (refs_to V d)) = Suc (card (refs_to V d))" using r(3) by simp
  have "unat (d_refs (D d)) \<le> 512" using r(2,4) assms(4,5) by simp
  then have "unat (d_refs (D d) + 1) = unat (d_refs (D d)) + 1" by (subst unat_add_no_wrap) simp_all
  then have u: "unat (d_refs (D d) + 1) = Suc (card (refs_to V d))" "d_refs (D d) + 1 \<noteq> 0"
    using r(2) assms(4,5) by (auto simp: unat_eq_zero [symmetric] simp del: unat_eq_zero)
  show ?thesis
    unfolding refs_ok_def refs_to_add [where V = V, OF assms(2)] using r(1,2) assms(3-5) c u by auto
qed

lemma refs_ok_new:
  assumes "refs_ok V D" "V p = None" "p \<in> fd_slots" "d < POSIX_OFD_CAP"
    "\<not> d_used (D d)" "d_used x" "d_refs x = 1"
  shows "refs_ok (V(p \<mapsto> d)) (D(d := x))"
proof -
  note r = refs_okD [OF assms(1)]
  have e: "refs_to V d = {}" using r(1) assms(5) by (auto simp: refs_to_def)
  have "unat (1 :: u16) = 1" by simp
  then show ?thesis
    unfolding refs_ok_def refs_to_add [where V = V, OF assms(2)] e using r(1,2) assms(3-7) by auto
qed

lemma refs_ok_drop:
  assumes "refs_ok V D" "V p = Some d" "\<not> d_used x"
  shows "refs_ok (V(p := None)) (D(d := if d_refs (D d) = 1 then x else (D d)\<lparr>d_refs := d_refs (D d) - 1\<rparr>))"
proof -
  note r = refs_okD [OF assms(1)]
  have d: "d < POSIX_OFD_CAP" "d_used (D d)" using r(1) assms(2) by auto
  note rd = r(2) [OF d]
  have "p \<in> refs_to V d" using assms(2) by (simp add: refs_to_def)
  then have c: "card (refs_to V d - {p}) = card (refs_to V d) - 1" by simp
  have pos: "0 < unat (d_refs (D d))" by (rule unat_gt_0 [THEN iffD2]) (use rd in blast)
  then have s: "unat (d_refs (D d) - 1) = unat (d_refs (D d)) - 1"
    by (subst unat_sub) (simp_all only: word_le_nat_alt, simp_all)
  have one: "refs_to V d = {p}" if "d_refs (D d) = 1"
  proof -
    have "card (refs_to V d) = 1" using rd that by simp
    then obtain q where "refs_to V d = {q}" by (rule card_1_singletonE)
    then show ?thesis using \<open>p \<in> refs_to V d\<close> by simp
  qed
  have nz: "d_refs (D d) - 1 \<noteq> 0" if "d_refs (D d) \<noteq> 1" using that by auto
  have o: "V q \<noteq> Some d" if "d_refs (D d) = 1" "q \<noteq> p" for q
    using one [OF that(1)] that(2) by (auto simp: refs_to_def)
  show ?thesis
  proof (cases "d_refs (D d) = 1")
    case True
    show ?thesis
      unfolding refs_ok_def refs_to_del [where V = V, OF assms(2)] using r(1,2) True assms(3) o by (auto split: if_splits)
  next
    case False
    then show ?thesis
      unfolding refs_ok_def refs_to_del [where V = V, OF assms(2)] using r(1,2) d rd c s nz by (auto split: if_splits)
  qed
qed

lemma refs_ok_cong:
  assumes "refs_ok V D" "\<And>d. d_used (E d) = d_used (D d) \<and> d_refs (E d) = d_refs (D d)"
  shows "refs_ok V E"
  using assms by (simp add: refs_ok_def)

subsection \<open>The elementary steps\<close>

text \<open>What all steps on tables leave alone.\<close>

definition fd_frame :: "('s, 'c) kernel \<Rightarrow> ('s, 'c) kernel \<Rightarrow> bool" where
  "fd_frame k k' \<longleftrightarrow>
     g_current_process k' = g_current_process k \<and> g_descriptions_initialized k' = g_descriptions_initialized k \<and>
     g_next_pid k' = g_next_pid k \<and> g_root_driver k' = g_root_driver k \<and>
     (\<forall>i. (g_processes k' i)\<lparr>ptable := fd_core_table_reset\<rparr> = (g_processes k i)\<lparr>ptable := fd_core_table_reset\<rparr>)"

lemma fd_frame_refl [simp]: "fd_frame k k" by (simp add: fd_frame_def)

lemma fd_frame_trans [trans]: "fd_frame a b \<Longrightarrow> fd_frame b c \<Longrightarrow> fd_frame a c" by (simp add: fd_frame_def)

lemma fd_frame_pstate: "fd_frame k k' \<Longrightarrow> pstate (g_processes k' i) = pstate (g_processes k i)"
proof -
  assume "fd_frame k k'"
  then have "pstate ((g_processes k' i)\<lparr>ptable := fd_core_table_reset\<rparr>) = pstate ((g_processes k i)\<lparr>ptable := fd_core_table_reset\<rparr>)"
    by (simp add: fd_frame_def)
  then show ?thesis by simp
qed

lemma fd_view_set_entry:
  "(i, fd) \<in> fd_slots \<Longrightarrow>
   fd_view (set_entry i fd e k) = (fd_view k)((i, fd) := if e_used e then Some (unat (e_index e)) else None)"
  by (auto simp: fd_view_def set_entry_def fd_slots_def fun_eq_iff)

lemma fd_view_desc [simp]: "fd_view (upd_desc d f k) = fd_view k" "fd_view (k\<lparr>fs_state := s\<rparr>) = fd_view k"
  "fd_view (k\<lparr>dev_state := c\<rparr>) = fd_view k" "fd_view (k\<lparr>g_descriptions := D\<rparr>) = fd_view k"
  by (simp_all add: fd_view_def fun_eq_iff)

lemma set_entry_same [simp]:
  "g_descriptions (set_entry i fd e k) = g_descriptions k" "fs_state (set_entry i fd e k) = fs_state k"
  "g_root_driver (set_entry i fd e k) = g_root_driver k" "initialized (table_of j (set_entry i fd e k)) = initialized (table_of j k)"
  "fd_frame k (set_entry i fd e k)"
  by (simp_all add: set_entry_def fd_frame_def)

lemma set_table_same [simp]:
  "g_descriptions (set_table i t k) = g_descriptions k" "fs_state (set_table i t k) = fs_state k"
  "g_root_driver (set_table i t k) = g_root_driver k" "fd_frame k (set_table i t k)"
  "table_of j (set_table i t k) = (if j = i then t else table_of j k)"
  by (simp_all add: set_table_def fd_frame_def)

lemma fd_view_reset:
  "fd_view (set_table i fd_core_table_reset k) = (\<lambda>(j, fd). if j = i then None else fd_view k (j, fd))"
  by (auto simp: fd_view_def fd_core_table_reset_def fd_zero_entry_def fun_eq_iff)

lemma fd_description_view:
  assumes "refs_ok (fd_view k) (g_descriptions k)" "i < PROCESS_MAX"
  shows "fd_description i fd k = (if fd < 0 then None else fd_view k (i, nat fd))"
proof (cases "0 \<le> fd \<and> fd < int POSIX_FD_CAP \<and> e_used (entries (table_of i k) (nat fd))")
  case True
  then have "nat fd < POSIX_FD_CAP" by auto
  then have "fd_view k (i, nat fd) = Some (unat (e_index (entries (table_of i k) (nat fd))))"
    using assms(2) True by (simp add: fd_view_def)
  then show ?thesis using refs_okD(1) [OF assms(1), of "(i, nat fd)"] True by (auto simp: fd_description_def Let_def)
next
  case False
  then have "fd_description i fd k = None" by (auto simp: fd_description_def)
  moreover have "fd_view k (i, nat fd) = None" if "\<not> fd < 0" using False that by (auto simp: fd_view_def)
  ultimately show ?thesis by simp
qed

lemma fs_core_close_frame:
  obtains s where "snd (fs_core_close n k) = k\<lparr>fs_state := s\<rparr>"
proof -
  have "\<exists>s. snd (fs_core_close n k) = k\<lparr>fs_state := s\<rparr>"
    by (auto simp: fs_core_close_def Let_def split: option.split prod.split intro: exI [of _ "fs_state k"])
  then show ?thesis using that by blast
qed

lemma fd_release_entry_step:
  assumes "refs_ok (fd_view k) (g_descriptions k)" "fd_view k (i, fd) = Some d"
  obtains k' s where "snd (fd_release_entry i (int fd) k) = k'\<lparr>fs_state := s\<rparr>"
    "k' = (set_entry i fd fd_zero_entry k)\<lparr>g_descriptions := (g_descriptions k)(d := if d_refs (g_descriptions k d) = 1
       then fd_description_zero else (g_descriptions k d)\<lparr>d_refs := d_refs (g_descriptions k d) - 1\<rparr>)\<rparr>"
proof -
  have sl: "(i, fd) \<in> fd_slots" "d < POSIX_OFD_CAP" "d_used (g_descriptions k d)"
    using refs_okD(1) [OF assms] by simp_all
  then have fdd: "fd_description i (int fd) k = Some d"
    using fd_description_view [OF assms(1), of i "int fd"] assms(2) by (simp add: fd_slots_def)
  have nz: "d_refs (g_descriptions k d) \<noteq> 0" using refs_okD(2) [OF assms(1) sl(2,3)] by simp
  let ?k1 = "set_entry i fd fd_zero_entry k"
  let ?k2 = "upd_desc d (\<lambda>x. x\<lparr>d_refs := d_refs x - 1\<rparr>) ?k1"
  obtain s where s: "snd (fs_core_close (d_node_id (g_descriptions k d)) ?k2) = ?k2\<lparr>fs_state := s\<rparr>"
    by (rule fs_core_close_frame)
  have gt: "0 < d_refs (g_descriptions k d)" using nz by (simp add: word_neq_0_conv)
  show ?thesis
  proof (cases "d_refs (g_descriptions k d) = 1")
    case False
    then have "d_refs (g_descriptions k d) - 1 \<noteq> 0" by simp
    then have "snd (fd_release_entry i (int fd) k) = ?k2" using gt by (simp add: fd_release_entry_def fdd Let_def)
    then show ?thesis using that [of "fs_state ?k2" ?k2] False by simp
  next
    case True
    have "\<exists>s. snd (fd_release_entry i (int fd) k) = (upd_desc d (\<lambda>_. fd_description_zero) ?k2)\<lparr>fs_state := s\<rparr>"
    proof (cases "d_kind (g_descriptions k d) = FD_KIND_VFS")
      case vfs: True
      then have "snd (fd_release_entry i (int fd) k) =
          upd_desc d (\<lambda>_. fd_description_zero) (snd (fs_core_close (d_node_id (g_descriptions k d)) ?k2))"
        using True by (simp add: fd_release_entry_def fdd Let_def split: prod.split)
      then show ?thesis unfolding s by (intro exI [of _ s]) simp
    next
      case novfs: False
      then have "snd (fd_release_entry i (int fd) k) = upd_desc d (\<lambda>_. fd_description_zero) ?k2"
        using True by (simp add: fd_release_entry_def fdd Let_def)
      then show ?thesis by (intro exI [of _ "fs_state ?k2"]) simp
    qed
    then show ?thesis using that [OF _ refl] True by auto
  qed
qed

lemma fd_release_entry_ok:
  assumes "refs_ok (fd_view k) (g_descriptions k)" "fd_view k (i, fd) = Some d"
  shows "refs_ok (fd_view (snd (fd_release_entry i (int fd) k))) (g_descriptions (snd (fd_release_entry i (int fd) k)))"
    "fd_view (snd (fd_release_entry i (int fd) k)) = (fd_view k)((i, fd) := None)"
    "fd_frame k (snd (fd_release_entry i (int fd) k))"
    "initialized (table_of j (snd (fd_release_entry i (int fd) k))) = initialized (table_of j k)"
proof -
  obtain k' s where r: "snd (fd_release_entry i (int fd) k) = k'\<lparr>fs_state := s\<rparr>"
    "k' = (set_entry i fd fd_zero_entry k)\<lparr>g_descriptions := (g_descriptions k)(d := if d_refs (g_descriptions k d) = 1
       then fd_description_zero else (g_descriptions k d)\<lparr>d_refs := d_refs (g_descriptions k d) - 1\<rparr>)\<rparr>"
    using fd_release_entry_step [OF assms] .
  have sl: "(i, fd) \<in> fd_slots" using refs_okD(1) [OF assms] by simp
  show v: "fd_view (snd (fd_release_entry i (int fd) k)) = (fd_view k)((i, fd) := None)"
    using fd_view_set_entry [OF sl, of fd_zero_entry k] by (simp add: r fd_zero_entry_def)
  show "refs_ok (fd_view (snd (fd_release_entry i (int fd) k))) (g_descriptions (snd (fd_release_entry i (int fd) k)))"
  proof -
    have D: "g_descriptions (snd (fd_release_entry i (int fd) k)) = (g_descriptions k)(d := if d_refs (g_descriptions k d) = 1
       then fd_description_zero else (g_descriptions k d)\<lparr>d_refs := d_refs (g_descriptions k d) - 1\<rparr>)"
      by (simp add: r)
    show ?thesis unfolding v D by (rule refs_ok_drop [OF assms]) (simp add: fd_description_zero_def)
  qed
  show "fd_frame k (snd (fd_release_entry i (int fd) k))"
    "initialized (table_of j (snd (fd_release_entry i (int fd) k))) = initialized (table_of j k)"
    unfolding r by (simp_all add: set_entry_def fd_frame_def)
qed

text \<open>A new description for an unused descriptor.\<close>

lemma fd_alloc_description_cases:
  assumes "g_descriptions_initialized k" "fd_alloc_description kind n fl off k = (r, k')"
  obtains (full) "r = None" "k' = k"
  | (ok) d where "r = Some d" "d < POSIX_OFD_CAP" "\<not> d_used (g_descriptions k d)"
    "k' = k\<lparr>g_descriptions := (g_descriptions k)(d := \<lparr>d_used = True, d_refs = 1, d_kind = kind,
       d_node_id = n, d_offset = off, d_flags = fl\<rparr>)\<rparr>"
proof (cases "List.find (\<lambda>i. \<not> d_used (g_descriptions k i)) [0..<POSIX_OFD_CAP]")
  case None
  then show ?thesis using full assms by (simp add: fd_alloc_description_def fd_descriptions_ensure_init_def)
next
  case (Some d)
  then have "d < POSIX_OFD_CAP" "\<not> d_used (g_descriptions k d)" by (auto simp: find_Some_iff)
  then show ?thesis using ok [of d] assms Some by (simp add: fd_alloc_description_def fd_descriptions_ensure_init_def)
qed

lemma unat_of_nat_u8: "d < POSIX_OFD_CAP \<Longrightarrow> unat (of_nat d :: u8) = d"
  by (simp add: unsigned_of_nat take_bit_nat_eq_self)

lemma new_entry_ok:
  assumes "refs_ok (fd_view k) (g_descriptions k)" "(i, fd) \<in> fd_slots" "fd_view k (i, fd) = None" "d < POSIX_OFD_CAP"
    "\<not> d_used (g_descriptions k d)" "d_used x" "d_refs x = 1"
  shows "refs_ok (fd_view (set_entry i fd \<lparr>e_used = True, e_index = of_nat d\<rparr> (k\<lparr>g_descriptions := (g_descriptions k)(d := x)\<rparr>)))
      (g_descriptions (set_entry i fd \<lparr>e_used = True, e_index = of_nat d\<rparr> (k\<lparr>g_descriptions := (g_descriptions k)(d := x)\<rparr>)))"
    "fd_view (set_entry i fd \<lparr>e_used = True, e_index = of_nat d\<rparr> (k\<lparr>g_descriptions := (g_descriptions k)(d := x)\<rparr>)) = (fd_view k)((i, fd) \<mapsto> d)"
proof -
  show v: "fd_view (set_entry i fd \<lparr>e_used = True, e_index = of_nat d\<rparr> (k\<lparr>g_descriptions := (g_descriptions k)(d := x)\<rparr>)) = (fd_view k)((i, fd) \<mapsto> d)"
    using assms(4) by (simp add: fd_view_set_entry [OF assms(2)] unat_of_nat_u8)
  show "refs_ok (fd_view (set_entry i fd \<lparr>e_used = True, e_index = of_nat d\<rparr> (k\<lparr>g_descriptions := (g_descriptions k)(d := x)\<rparr>)))
      (g_descriptions (set_entry i fd \<lparr>e_used = True, e_index = of_nat d\<rparr> (k\<lparr>g_descriptions := (g_descriptions k)(d := x)\<rparr>)))"
    unfolding v using refs_ok_new [OF assms(1,3,2,4-7)] by simp
qed

text \<open>Another descriptor for a description that is in use.\<close>

lemma share_entry_ok:
  assumes "refs_ok (fd_view k) (g_descriptions k)" "(i, fd) \<in> fd_slots" "fd_view k (i, fd) = None"
    "e_used e" "unat (e_index e) = d" "d < POSIX_OFD_CAP" "d_used (g_descriptions k d)"
    and k': "k' = upd_desc d (\<lambda>x. x\<lparr>d_refs := d_refs x + 1\<rparr>) (set_entry i fd e k)"
  shows "refs_ok (fd_view k') (g_descriptions k')" "fd_view k' = (fd_view k)((i, fd) \<mapsto> d)" "fd_frame k k'"
    "initialized (table_of j k') = initialized (table_of j k)"
proof -
  show v: "fd_view k' = (fd_view k)((i, fd) \<mapsto> d)"
    using assms(4,5) by (simp add: k' fd_view_set_entry [OF assms(2)])
  show "refs_ok (fd_view k') (g_descriptions k')"
    unfolding v using refs_ok_share [OF assms(1,3,2,6,7)] by (simp add: k')
  show "fd_frame k k'" "initialized (table_of j k') = initialized (table_of j k)"
    by (simp_all add: k' set_entry_def fd_frame_def)
qed

subsection \<open>Whole tables\<close>

lemma fd_core_table_destroy_ok:
  assumes "refs_ok (fd_view k) (g_descriptions k)" "i < PROCESS_MAX"
  defines "k' \<equiv> fd_core_table_destroy i k"
  shows "refs_ok (fd_view k') (g_descriptions k')" "fd_view k' = (\<lambda>(j, fd). if j = i then None else fd_view k (j, fd))"
    "fd_frame k k'" "\<not> initialized (table_of i k')" "j \<noteq> i \<Longrightarrow> initialized (table_of j k') = initialized (table_of j k)"
proof -
  let ?f = "\<lambda>fd k. if e_used (entries (table_of i k) fd) then snd (fd_release_entry i (int fd) k) else k"
  have fold: "refs_ok (fd_view (fold ?f [0..<n] k)) (g_descriptions (fold ?f [0..<n] k)) \<and>
      fd_view (fold ?f [0..<n] k) = (\<lambda>(j, fd). if j = i \<and> fd < n then None else fd_view k (j, fd)) \<and>
      fd_frame k (fold ?f [0..<n] k) \<and> (\<forall>j. initialized (table_of j (fold ?f [0..<n] k)) = initialized (table_of j k))"
    if "n \<le> POSIX_FD_CAP" for n
    using that
  proof (induction n)
    case 0
    then show ?case using assms(1) by (simp add: fun_eq_iff)
  next
    case (Suc n)
    let ?k = "fold ?f [0..<n] k"
    have IH: "refs_ok (fd_view ?k) (g_descriptions ?k)" "fd_view ?k = (\<lambda>(j, fd). if j = i \<and> fd < n then None else fd_view k (j, fd))"
      "fd_frame k ?k" "\<And>j. initialized (table_of j ?k) = initialized (table_of j k)"
      using Suc by auto
    show ?case
    proof (cases "e_used (entries (table_of i ?k) n)")
      case True
      then have "fd_view ?k (i, n) \<noteq> None" using Suc.prems assms(2) by (simp add: fd_view_def)
      then obtain d where d: "fd_view ?k (i, n) = Some d" by auto
      note r = fd_release_entry_ok [OF IH(1) d]
      have s: "fold ?f [0..<Suc n] k = snd (fd_release_entry i (int n) ?k)" using True by simp
      show ?thesis
        unfolding s
      proof (intro conjI allI)
        show "fd_view (snd (fd_release_entry i (int n) ?k)) = (\<lambda>(j, fd). if j = i \<and> fd < Suc n then None else fd_view k (j, fd))"
          unfolding r(2) IH(2) by (auto simp: fun_eq_iff less_Suc_eq)
        fix j show "initialized (table_of j (snd (fd_release_entry i (int n) ?k))) = initialized (table_of j k)"
          using r(4) IH(4) by simp
      qed (rule r(1), rule fd_frame_trans [OF IH(3) r(3)])
    next
      case False
      then have "fd_view ?k (i, n) = None" by (simp add: fd_view_def)
      then have "fd_view k (i, n) = None" by (simp add: IH(2))
      then have v: "fd_view ?k = (\<lambda>(j, fd). if j = i \<and> fd < Suc n then None else fd_view k (j, fd))"
        unfolding IH(2) by (auto simp: fun_eq_iff less_Suc_eq)
      have s: "fold ?f [0..<Suc n] k = ?k" using False by simp
      show ?thesis unfolding s by (intro conjI allI) (rule IH(1) v IH(3) IH(4))+
    qed
  qed
  let ?k = "fold ?f [0..<POSIX_FD_CAP] k"
  have F: "refs_ok (fd_view ?k) (g_descriptions ?k)"
      "fd_view ?k = (\<lambda>(j, fd). if j = i \<and> fd < POSIX_FD_CAP then None else fd_view k (j, fd))"
      "fd_frame k ?k" "\<And>j. initialized (table_of j ?k) = initialized (table_of j k)"
    using fold [OF order_refl] by auto
  have k': "k' = set_table i fd_core_table_reset ?k" by (simp add: k'_def fd_core_table_destroy_def)
  show v: "fd_view k' = (\<lambda>(j, fd). if j = i then None else fd_view k (j, fd))"
    unfolding k' fd_view_reset F(2) by (auto simp: fun_eq_iff)
  have o: "fd_view k (j, fd) = None" if "\<not> fd < POSIX_FD_CAP" for j fd using that by (simp add: fd_view_def)
  have "fd_view k' = fd_view ?k" unfolding v F(2) using o by (auto simp: fun_eq_iff)
  moreover have "g_descriptions k' = g_descriptions ?k" by (simp add: k')
  ultimately show "refs_ok (fd_view k') (g_descriptions k')" using F(1) by simp
  show "fd_frame k k'" unfolding k' by (rule fd_frame_trans [OF F(3) set_table_same(4)])
  show "\<not> initialized (table_of i k')" by (simp add: k' fd_core_table_reset_def)
  show "initialized (table_of j k') = initialized (table_of j k)" if "j \<noteq> i" using that F(4) by (simp add: k')
qed

end
