(* ===== verification/Fd_Ops.thy ===== *)
theory Fd_Ops
  imports Fd_Inv
begin

text \<open>
  The operations on descriptors and processes keep the reference counts of \<open>Fd_Inv\<close> right.
\<close>

subsection \<open>The invariant of the kernel\<close>

text \<open>
  A process in use has an initialised table, one that is not in use holds no descriptors, and there
  is a current process.
\<close>

definition fd_inv :: "('s, 'c) kernel \<Rightarrow> bool" where
  "fd_inv k \<longleftrightarrow>
     g_descriptions_initialized k \<and> refs_ok (fd_view k) (g_descriptions k) \<and>
     (\<forall>i < PROCESS_MAX. if pstate (g_processes k i) = PROCESS_STATE_UNUSED then \<forall>fd. fd_view k (i, fd) = None
        else initialized (table_of i k)) \<and>
     (\<exists>c < PROCESS_MAX. g_current_process k = Some c \<and> pstate (g_processes k c) \<noteq> PROCESS_STATE_UNUSED)"

lemma fd_invD:
  assumes "fd_inv k"
  shows "g_descriptions_initialized k" "refs_ok (fd_view k) (g_descriptions k)"
    "i < PROCESS_MAX \<Longrightarrow> pstate (g_processes k i) = PROCESS_STATE_UNUSED \<Longrightarrow> fd_view k (i, fd) = None"
    "i < PROCESS_MAX \<Longrightarrow> pstate (g_processes k i) \<noteq> PROCESS_STATE_UNUSED \<Longrightarrow> initialized (table_of i k)"
    "\<exists>c < PROCESS_MAX. g_current_process k = Some c \<and> pstate (g_processes k c) \<noteq> PROCESS_STATE_UNUSED"
  using assms unfolding fd_inv_def by metis+

text \<open>A step on the table of one process.\<close>

definition table_step :: "nat \<Rightarrow> ('s, 'c) kernel \<Rightarrow> ('s, 'c) kernel \<Rightarrow> bool" where
  "table_step i k k' \<longleftrightarrow>
     refs_ok (fd_view k') (g_descriptions k') \<and> fd_frame k k' \<and>
     (\<forall>j fd. j \<noteq> i \<longrightarrow> fd_view k' (j, fd) = fd_view k (j, fd)) \<and>
     (\<forall>j. j \<noteq> i \<longrightarrow> initialized (table_of j k') = initialized (table_of j k))"

lemma table_stepD:
  assumes "table_step i k k'"
  shows "refs_ok (fd_view k') (g_descriptions k')" "fd_frame k k'" "j \<noteq> i \<Longrightarrow> fd_view k' (j, fd) = fd_view k (j, fd)"
    "j \<noteq> i \<Longrightarrow> initialized (table_of j k') = initialized (table_of j k)"
  using assms unfolding table_step_def by blast+

lemma table_step_trans [trans]: "table_step i a b \<Longrightarrow> table_step i b c \<Longrightarrow> table_step i a c"
  unfolding table_step_def by (metis fd_frame_trans)

lemma fd_inv_table_step:
  assumes "fd_inv k" "table_step i k k'" "i < PROCESS_MAX"
    "if pstate (g_processes k i) = PROCESS_STATE_UNUSED then \<forall>fd. fd_view k' (i, fd) = None else initialized (table_of i k')"
  shows "fd_inv k'"
proof -
  note t = table_stepD [OF assms(2)]
  have f: "g_descriptions_initialized k' = g_descriptions_initialized k" "g_current_process k' = g_current_process k"
    using t(2) by (simp_all add: fd_frame_def)
  have "if pstate (g_processes k j) = PROCESS_STATE_UNUSED then \<forall>fd. fd_view k' (j, fd) = None else initialized (table_of j k')"
    if "j < PROCESS_MAX" for j
    using assms(4) fd_invD(3,4) [OF assms(1) that] t(3,4) by (cases "j = i") auto
  then show ?thesis
    unfolding fd_inv_def f fd_frame_pstate [OF t(2)] using t(1) fd_invD(1,5) [OF assms(1)] by blast
qed

lemma fd_assign_new_description_step:
  assumes "g_descriptions_initialized k" "refs_ok (fd_view k) (g_descriptions k)" "(i, fd) \<in> fd_slots" "fd_view k (i, fd) = None"
    "fd_assign_new_description i (int fd) kind n fl off k = (r, k')"
  shows "table_step i k k'" "f \<noteq> fd \<Longrightarrow> fd_view k' (i, f) = fd_view k (i, f)" "initialized (table_of i k') = initialized (table_of i k)"
proof -
  obtain d k1 where a: "fd_alloc_description kind n fl off k = (d, k1)" by fastforce
  have fd: "\<not> int fd < 0" "\<not> int POSIX_FD_CAP \<le> int fd" using assms(3) by (simp_all add: fd_slots_def)
  have "table_step i k k' \<and> (\<forall>f. f \<noteq> fd \<longrightarrow> fd_view k' (i, f) = fd_view k (i, f)) \<and> initialized (table_of i k') = initialized (table_of i k)"
    using assms(1) a
  proof (cases rule: fd_alloc_description_cases)
    case full
    then have "k' = k" using assms(5) fd a by (simp add: fd_assign_new_description_def)
    then show ?thesis using assms(2) by (simp add: table_step_def)
  next
    case (ok x)
    let ?d = "\<lparr>d_used = True, d_refs = 1, d_kind = kind, d_node_id = n, d_offset = off, d_flags = fl\<rparr>"
    have k': "k' = set_entry i fd \<lparr>e_used = True, e_index = of_nat x\<rparr> (k\<lparr>g_descriptions := (g_descriptions k)(x := ?d)\<rparr>)"
      using assms(5) fd a ok by (simp add: fd_assign_new_description_def)
    have n: "refs_ok (fd_view k') (g_descriptions k')" "fd_view k' = (fd_view k)((i, fd) \<mapsto> x)"
      unfolding k' by (rule new_entry_ok [OF assms(2-4) ok(2,3)]; simp)+
    have "fd_frame k k'" "\<And>j. initialized (table_of j k') = initialized (table_of j k)"
      by (simp_all add: k' set_entry_def fd_frame_def)
    then show ?thesis using n(1) unfolding table_step_def n(2) by simp
  qed
  then show "table_step i k k'" "f \<noteq> fd \<Longrightarrow> fd_view k' (i, f) = fd_view k (i, f)" "initialized (table_of i k') = initialized (table_of i k)"
    by blast+
qed

lemma fd_core_table_destroy_step:
  assumes "refs_ok (fd_view k) (g_descriptions k)" "i < PROCESS_MAX"
  shows "table_step i k (fd_core_table_destroy i k)" "fd_view (fd_core_table_destroy i k) (i, fd) = None"
    "\<not> initialized (table_of i (fd_core_table_destroy i k))"
  using fd_core_table_destroy_ok [OF assms] by (simp_all add: table_step_def)

lemma set_initialized_step:
  assumes "refs_ok (fd_view k) (g_descriptions k)"
  shows "table_step i k (set_table i ((table_of i k)\<lparr>initialized := b\<rparr>) k)"
    "fd_view (set_table i ((table_of i k)\<lparr>initialized := b\<rparr>) k) = fd_view k"
proof -
  show v: "fd_view (set_table i ((table_of i k)\<lparr>initialized := b\<rparr>) k) = fd_view k"
    by (auto simp: fd_view_def fun_eq_iff)
  show "table_step i k (set_table i ((table_of i k)\<lparr>initialized := b\<rparr>) k)"
    unfolding table_step_def v using assms by simp
qed

lemma reset_step:
  assumes "refs_ok (fd_view k) (g_descriptions k)" "\<And>fd. fd_view k (i, fd) = None"
  shows "table_step i k (set_table i fd_core_table_reset k)" "fd_view (set_table i fd_core_table_reset k) = fd_view k"
proof -
  show v: "fd_view (set_table i fd_core_table_reset k) = fd_view k"
    unfolding fd_view_reset using assms(2) by (auto simp: fun_eq_iff)
  show "table_step i k (set_table i fd_core_table_reset k)"
    unfolding table_step_def v using assms(1) by simp
qed

lemma fd_core_table_init_step:
  assumes "g_descriptions_initialized k" "refs_ok (fd_view k) (g_descriptions k)" "i < PROCESS_MAX" "\<And>fd. fd_view k (i, fd) = None"
  shows "table_step i k (fd_core_table_init i k)"
proof -
  let ?k0 = "set_table i fd_core_table_reset k"
  have e: "fd_descriptions_ensure_init k = k" using assms(1) by (simp add: fd_descriptions_ensure_init_def)
  note s0 = reset_step [OF assms(2,4)]
  have ini: "g_descriptions_initialized k'" if "table_step i k k'" for k'
    using table_stepD(2) [OF that] assms(1) by (simp add: fd_frame_def)
  have sl: "(i, 0) \<in> fd_slots" "(i, 1) \<in> fd_slots" "(i, 2) \<in> fd_slots" using assms(3) by (simp_all add: fd_slots_def)
  obtain r0 k1 where a0: "fd_assign_new_description i (int 0) FD_KIND_TTY_IN 0 0 0 ?k0 = (r0, k1)" by fastforce
  note s1 = fd_assign_new_description_step [OF ini [OF s0(1)] table_stepD(1) [OF s0(1)] sl(1) _ a0]
  have v0: "fd_view ?k0 (i, f) = None" for f using s0(2) assms(4) by simp
  have t1: "table_step i k k1" using table_step_trans [OF s0(1) s1(1) [OF v0]] .
  obtain r1 k2 where a1: "fd_assign_new_description i (int 1) FD_KIND_TTY_OUT 0 0 0 k1 = (r1, k2)" by fastforce
  have v1: "fd_view k1 (i, f) = None" if "f \<noteq> 0" for f using s1(2) [OF v0 that] v0 by simp
  have v11: "fd_view k1 (i, 1) = None" by (rule v1) simp
  note s2 = fd_assign_new_description_step [OF ini [OF t1] table_stepD(1) [OF t1] sl(2) v11 a1]
  have t2: "table_step i k k2" using table_step_trans [OF t1 s2(1)] .
  obtain r2 k3 where a2: "fd_assign_new_description i (int 2) FD_KIND_TTY_OUT 0 0 0 k2 = (r2, k3)" by fastforce
  have v2: "fd_view k2 (i, 2) = None" using s2(2) [of 2] v1 [of 2] by simp
  note s3 = fd_assign_new_description_step [OF ini [OF t2] table_stepD(1) [OF t2] sl(3) v2 a2]
  have t3: "table_step i k k3" using table_step_trans [OF t2 s3(1)] .
  have r: "fd_core_table_init i k = (if r0 < 0 then fd_core_table_destroy i k1 else if r1 < 0 then fd_core_table_destroy i k2
      else if r2 < 0 then fd_core_table_destroy i k3 else set_table i ((table_of i k3)\<lparr>initialized := True\<rparr>) k3)"
    using a0 a1 a2 by (simp add: fd_core_table_init_def e)
  note d = fd_core_table_destroy_step [OF table_stepD(1) [OF t1] assms(3)] fd_core_table_destroy_step [OF table_stepD(1) [OF t2] assms(3)]
    fd_core_table_destroy_step [OF table_stepD(1) [OF t3] assms(3)]
  note f = set_initialized_step [OF table_stepD(1) [OF t3], of i True]
  show "table_step i k (fd_core_table_init i k)"
    unfolding r using table_step_trans [OF t1 d(1)] table_step_trans [OF t2 d(4)] table_step_trans [OF t3 d(7)]
      table_step_trans [OF t3 f(1)] by simp
qed

lemma clone_loop_step:
  assumes "refs_ok (fd_view k) (g_descriptions k)" "dst < PROCESS_MAX" "src < PROCESS_MAX" "dst \<noteq> src"
    "clone_loop dst src fds k = (b, k')" "distinct fds" "set fds \<subseteq> {..<POSIX_FD_CAP}" "\<And>fd. fd \<in> set fds \<Longrightarrow> fd_view k (dst, fd) = None"
  shows "table_step dst k k' \<and> b \<and> initialized (table_of dst k') = initialized (table_of dst k) \<and>
    (\<forall>fd. fd_view k' (dst, fd) = (if fd \<in> set fds then fd_view k (src, fd) else fd_view k (dst, fd)))"
  using assms(1,5-8)
proof (induction fds arbitrary: k)
  case Nil
  then show ?case by (simp add: table_step_def)
next
  case (Cons fd fds)
  let ?e = "entries (table_of src k) fd"
  have fd: "fd < POSIX_FD_CAP" "fd \<notin> set fds" using Cons.prems by auto
  show ?case
  proof (cases "e_used ?e")
    case False
    then have "fd_view k (src, fd) = None" by (simp add: fd_view_def)
    moreover have "clone_loop dst src fds k = (b, k')" using Cons.prems(2) False by simp
    ultimately show ?thesis using Cons.IH [OF Cons.prems(1)] Cons.prems by auto
  next
    case True
    let ?d = "unat (e_index ?e)"
    have v: "fd_view k (src, fd) = Some ?d" using True fd assms(3) by (simp add: fd_view_def)
    have d: "?d < POSIX_OFD_CAP" "d_used (g_descriptions k ?d)" using refs_okD(1) [OF Cons.prems(1) v] by simp_all
    let ?k = "upd_desc ?d (\<lambda>x. x\<lparr>d_refs := d_refs x + 1\<rparr>) (set_entry dst fd ?e k)"
    have sl: "(dst, fd) \<in> fd_slots" using fd assms(2) by (simp add: fd_slots_def)
    note sh = share_entry_ok [OF Cons.prems(1) sl Cons.prems(5) [of fd, simplified] True refl d refl]
    have st: "table_step dst k ?k" using sh(1,3,4) unfolding table_step_def sh(2) by simp
    have loop: "clone_loop dst src fds ?k = (b, k')" using Cons.prems(2) True d by (simp add: Let_def)
    have "fd_view ?k (dst, f) = None" if "f \<in> set fds" for f using Cons.prems(5) that fd(2) unfolding sh(2) by auto
    then have IH: "table_step dst ?k k' \<and> b \<and> initialized (table_of dst k') = initialized (table_of dst ?k) \<and>
      (\<forall>fd. fd_view k' (dst, fd) = (if fd \<in> set fds then fd_view ?k (src, fd) else fd_view ?k (dst, fd)))"
      using Cons.IH [OF sh(1) loop] Cons.prems by auto
    then show ?thesis
      using table_step_trans [OF st] sh(4) v fd assms(4) unfolding sh(2) by auto
  qed
qed

lemma fd_core_table_clone_step:
  assumes "refs_ok (fd_view k) (g_descriptions k)" "dst < PROCESS_MAX" "src < PROCESS_MAX" "dst \<noteq> src"
    "initialized (table_of src k)" "\<And>fd. fd_view k (dst, fd) = None" "fd_core_table_clone dst src k = (rc, k')"
  shows "rc = 0" "table_step dst k k'" "fd_view k' (dst, fd) = fd_view k (src, fd)" "initialized (table_of dst k')"
proof -
  let ?k0 = "set_table dst fd_core_table_reset k"
  note s0 = reset_step [OF assms(1,6)]
  obtain b k1 where l: "clone_loop dst src [0..<POSIX_FD_CAP] ?k0 = (b, k1)" by fastforce
  have c: "table_step dst ?k0 k1" b "\<And>fd. fd_view k1 (dst, fd) = (if fd < POSIX_FD_CAP then fd_view ?k0 (src, fd) else fd_view ?k0 (dst, fd))"
  proof -
    have sub: "set [0..<POSIX_FD_CAP] \<subseteq> {..<POSIX_FD_CAP}" by auto
    have none: "fd_view ?k0 (dst, fd) = None" for fd using s0(2) assms(6) by simp
    show "table_step dst ?k0 k1" b
      "fd_view k1 (dst, fd) = (if fd < POSIX_FD_CAP then fd_view ?k0 (src, fd) else fd_view ?k0 (dst, fd))" for fd
      using clone_loop_step [OF table_stepD(1) [OF s0(1)] assms(2-4) l distinct_upt sub none] by simp_all
  qed
  note f = set_initialized_step [OF table_stepD(1) [OF c(1)], of dst True]
  have r: "rc = 0" "k' = set_table dst ((table_of dst k1)\<lparr>initialized := True\<rparr>) k1"
    using assms(5,7) l c(2) by (simp_all add: fd_core_table_clone_def)
  show "rc = 0" by (rule r(1))
  show "table_step dst k k'" unfolding r(2) using table_step_trans [OF s0(1) table_step_trans [OF c(1) f(1)]] .
  have "fd_view k (src, fd) = None" if "\<not> fd < POSIX_FD_CAP" using that by (simp add: fd_view_def)
  then show "fd_view k' (dst, fd) = fd_view k (src, fd)" unfolding r(2) f(2) c(3) s0(2) using assms(6) by auto
  show "initialized (table_of dst k')" by (simp add: r(2))
qed

subsection \<open>Processes\<close>

lemma find_first: "n < m \<Longrightarrow> P n \<Longrightarrow> (\<And>i. i < n \<Longrightarrow> \<not> P i) \<Longrightarrow> List.find P [0..<m] = Some n"
  by (auto simp: find_Some_iff intro!: exI [of _ n])

text \<open>The initialisation of a fresh kernel, whose descriptions have never been used.\<close>

lemma process_core_init_inv:
  assumes "\<not> g_descriptions_initialized k0"
  shows "fd_inv (process_core_init k0)"
proof -
  let ?init = "\<lambda>k. k\<lparr>g_next_pid := 1, g_processes := (\<lambda>_. process_clear)\<rparr>"
  define k2 where "k2 = upd_proc 0 (\<lambda>p. p\<lparr>pid := 1, ppid := 0, pstate := PROCESS_STATE_RUNNING,
    cwd := process_copy_string FS_PATH_CAP ''/''\<rparr>) ((?init k0)\<lparr>g_next_pid := 2\<rparr>)"
  let ?k = "fd_descriptions_ensure_init k2"
  have k: "?k = k2\<lparr>g_descriptions := (\<lambda>_. fd_description_zero), g_descriptions_initialized := True\<rparr>"
    using assms by (simp add: fd_descriptions_ensure_init_def k2_def)
  have v: "fd_view ?k p = None" for p
    unfolding k by (cases p) (simp add: k2_def fd_view_def process_clear_def fd_core_table_reset_def fd_zero_entry_def)
  then have ok: "refs_ok (fd_view ?k) (g_descriptions ?k)" by (simp add: refs_ok_def k fd_description_zero_def)
  have ini: "g_descriptions_initialized ?k" by (simp add: k)
  have same: "fd_core_table_init 0 k2 = fd_core_table_init 0 ?k"
    by (simp add: fd_core_table_init_def fd_descriptions_ensure_init_def)
  have st: "table_step 0 ?k (fd_core_table_init 0 k2)"
    unfolding same by (rule fd_core_table_init_step [OF ini ok]) (use v in simp_all)
  note t = table_stepD [OF st]
  define z where "z = \<lparr>d_used = True, d_refs = 1, d_kind = FD_KIND_TTY_IN, d_node_id = 0, d_offset = 0, d_flags = (0::u32)\<rparr>"
  define o' where "o' = \<lparr>d_used = True, d_refs = 1, d_kind = FD_KIND_TTY_OUT, d_node_id = 0, d_offset = 0, d_flags = (0::u32)\<rparr>"
  have f: "List.find (\<lambda>i. \<not> d_used fd_description_zero) [0..<POSIX_OFD_CAP] = Some 0"
    "List.find (\<lambda>i. \<not> d_used (((\<lambda>_. fd_description_zero)(0 := z)) i)) [0..<POSIX_OFD_CAP] = Some 1"
    "List.find (\<lambda>i. \<not> d_used (((\<lambda>_. fd_description_zero)(0 := z, Suc 0 := o')) i)) [0..<POSIX_OFD_CAP] = Some 2"
    by (rule find_first; auto simp: fd_description_zero_def z_def o'_def less_Suc_eq numeral_2_eq_2)+
  have i0: "initialized (table_of 0 (fd_core_table_init 0 k2))"
    unfolding same k using f [unfolded z_def o'_def]
    by (simp add: fd_core_table_init_def fd_descriptions_ensure_init_def fd_assign_new_description_def
        fd_alloc_description_def set_entry_def set_table_def)
  have view: "fd_view (fd_core_table_init 0 k2) (j, fd) = None" if "j \<noteq> 0" for j fd using t(3) [OF that] v by simp
  have ps: "pstate (g_processes (fd_core_table_init 0 k2) j) = (if j = 0 then PROCESS_STATE_RUNNING else PROCESS_STATE_UNUSED)" for j
    unfolding fd_frame_pstate [OF t(2)] k by (simp add: k2_def process_clear_def)
  have gi: "g_descriptions_initialized (fd_core_table_init 0 k2)" using t(2) ini by (simp add: fd_frame_def)
  let ?r = "process_core_init k0"
  have r: "?r = (upd_proc 0 (\<lambda>p. p\<lparr>pname := process_copy_string PROCESS_NAME_CAP ''kernel-shell''\<rparr>) (fd_core_table_init 0 k2))
      \<lparr>g_current_process := Some 0\<rparr>"
    by (simp add: process_core_init_def k2_def Let_def)
  have vr: "fd_view ?r = fd_view (fd_core_table_init 0 k2)" unfolding r by (simp add: fd_view_def fun_eq_iff)
  show ?thesis
    unfolding fd_inv_def vr using t(1) gi view ps i0 by (simp add: r)
qed

lemma fd_inv_cong:
  assumes "fd_inv k" "fd_view k' = fd_view k" "\<And>d. d_used (g_descriptions k' d) = d_used (g_descriptions k d)"
    "\<And>d. d_refs (g_descriptions k' d) = d_refs (g_descriptions k d)"
    "\<And>i. (pstate (g_processes k' i) = PROCESS_STATE_UNUSED) = (pstate (g_processes k i) = PROCESS_STATE_UNUSED)"
    "\<And>i. initialized (table_of i k') = initialized (table_of i k)"
    "g_current_process k' = g_current_process k" "g_descriptions_initialized k' = g_descriptions_initialized k"
  shows "fd_inv k'"
proof -
  have "refs_ok (fd_view k') (g_descriptions k')"
    unfolding assms(2) using fd_invD(2) [OF assms(1)] by (rule refs_ok_cong) (simp add: assms(3,4))
  then show ?thesis using assms(1) unfolding fd_inv_def assms(2,5-8) by simp
qed

lemma fd_inv_fs [simp]: "fd_inv k \<Longrightarrow> fd_inv (k\<lparr>fs_state := s\<rparr>)" "fd_inv k \<Longrightarrow> fd_inv (k\<lparr>dev_state := c\<rparr>)"
  by (erule fd_inv_cong; simp)+

lemma fd_inv_desc: "fd_inv k \<Longrightarrow> (\<And>x. d_used (f x) = d_used x \<and> d_refs (f x) = d_refs x) \<Longrightarrow> fd_inv (upd_desc d f k)"
  by (erule fd_inv_cong) simp_all

lemma fd_current:
  assumes "fd_inv k"
  obtains c where "c < PROCESS_MAX" "g_current_process k = Some c" "pstate (g_processes k c) \<noteq> PROCESS_STATE_UNUSED"
    "initialized (table_of c k)" "process_core_current k = (c, k)" "fd_core_init k = k" "fd_current_table k = (c, k)"
proof -
  obtain c where c: "c < PROCESS_MAX" "g_current_process k = Some c" "pstate (g_processes k c) \<noteq> PROCESS_STATE_UNUSED"
    using fd_invD(5) [OF assms] by blast
  have i: "initialized (table_of c k)" using fd_invD(4) [OF assms c(1,3)] .
  have p: "process_core_current k = (c, k)" using c(2) by (simp add: process_core_current_def)
  have f: "fd_core_init k = k" using i p by (simp add: fd_core_init_def)
  then have "fd_current_table k = (c, k)" using p by (simp add: fd_current_table_def)
  then show ?thesis using that c i p f by blast
qed

text \<open>An open in the current process changes only the state of the file system.\<close>

lemma full_path_of_same:
  assumes "g_current_process k = Some c"
  obtains r where "full_path_of path k = (r, k)"
proof -
  have "snd (full_path_of path k) = k"
    using assms by (simp add: full_path_of_def fs_core_get_cwd_path_def process_core_current_def)
  then show ?thesis using that by (metis prod.collapse)
qed

lemma fs_core_open_frame:
  assumes "g_current_process k = Some c"
  obtains s where "snd (fs_core_open path fl k) = k\<lparr>fs_state := s\<rparr>"
proof -
  obtain r where r: "full_path_of path k = (r, k)" using full_path_of_same [OF assms] .
  have "\<exists>s. snd (fs_core_open path fl k) = k\<lparr>fs_state := s\<rparr>"
    unfolding fs_core_open_def r
    by (auto simp: Let_def split: sum.split option.split prod.split intro: exI [of _ "fs_state k"])
  then show ?thesis using that by blast
qed

lemma fd_find_free_Some:
  assumes "fd_find_free i 0 k = Some fd" "i < PROCESS_MAX"
  shows "(i, fd) \<in> fd_slots" "fd_view k (i, fd) = None" "\<And>f. f < fd \<Longrightarrow> fd_view k (i, f) \<noteq> None"
proof -
  have f: "fd < POSIX_FD_CAP" "\<not> e_used (entries (table_of i k) fd)" "\<And>f. f < fd \<Longrightarrow> e_used (entries (table_of i k) f)"
    using assms(1) by (auto simp: fd_find_free_def find_Some_iff)
  then show "(i, fd) \<in> fd_slots" "fd_view k (i, fd) = None" "\<And>f. f < fd \<Longrightarrow> fd_view k (i, f) \<noteq> None"
    using assms(2) by (simp_all add: fd_slots_def fd_view_def)
qed

end
