(* ===== verification/Fd_Calls.thy ===== *)
theory Fd_Calls
  imports Fd_Ops
begin

text \<open>
  What a call of the current process does to the kernel: it keeps the invariant of \<open>Fd_Ops\<close> and
  leaves the other processes and the process table alone.
\<close>

subsection \<open>Calls of the current process\<close>

definition call_frame :: "('s, 'c) kernel \<Rightarrow> ('s, 'c) kernel \<Rightarrow> bool" where
  "call_frame k0 k \<longleftrightarrow>
     g_current_process k = g_current_process k0 \<and> g_next_pid k = g_next_pid k0 \<and> g_root_driver k = g_root_driver k0 \<and>
     (\<forall>i. pid (g_processes k i) = pid (g_processes k0 i) \<and> ppid (g_processes k i) = ppid (g_processes k0 i) \<and>
          pstate (g_processes k i) = pstate (g_processes k0 i)) \<and>
     (\<forall>i. g_current_process k0 \<noteq> Some i \<longrightarrow>
        (\<forall>fd. fd_view k (i, fd) = fd_view k0 (i, fd)) \<and> cwd (g_processes k i) = cwd (g_processes k0 i))"

definition call_ok :: "('s, 'c) kernel \<Rightarrow> ('s, 'c) kernel \<Rightarrow> bool" where
  "call_ok k0 k \<longleftrightarrow> fd_inv k \<and> call_frame k0 k"

lemma call_inv: "call_ok k0 k \<Longrightarrow> fd_inv k"
  by (simp add: call_ok_def)

lemma call_refl: "fd_inv k \<Longrightarrow> call_ok k k"
  by (simp add: call_ok_def call_frame_def)

lemma call_ok_cong:
  assumes "call_ok k0 k" "fd_inv k'" "fd_view k' = fd_view k" "g_processes k' = g_processes k"
    "g_current_process k' = g_current_process k" "g_next_pid k' = g_next_pid k" "g_root_driver k' = g_root_driver k"
  shows "call_ok k0 k'"
  using assms unfolding call_ok_def call_frame_def by simp

lemma call_ok_fs [simp]: "call_ok k0 k \<Longrightarrow> call_ok k0 (k\<lparr>fs_state := s\<rparr>)" "call_ok k0 k \<Longrightarrow> call_ok k0 (k\<lparr>dev_state := c\<rparr>)"
  by (rule call_ok_cong; simp add: call_inv)+

lemma call_ok_desc:
  assumes "call_ok k0 k" "\<And>x. d_used (f x) = d_used x \<and> d_refs (f x) = d_refs x"
  shows "call_ok k0 (upd_desc d f k)"
  by (rule call_ok_cong [OF assms(1) fd_inv_desc [OF call_inv [OF assms(1)] assms(2)]]) simp_all

lemma fd_frame_fields:
  assumes "fd_frame k k'"
  shows "pid (g_processes k' i) = pid (g_processes k i)" "ppid (g_processes k' i) = ppid (g_processes k i)"
    "cwd (g_processes k' i) = cwd (g_processes k i)"
proof -
  have "(g_processes k' i)\<lparr>ptable := fd_core_table_reset\<rparr> = (g_processes k i)\<lparr>ptable := fd_core_table_reset\<rparr>"
    using assms by (simp add: fd_frame_def)
  from arg_cong [OF this, of pid] arg_cong [OF this, of ppid] arg_cong [OF this, of cwd]
  show "pid (g_processes k' i) = pid (g_processes k i)" "ppid (g_processes k' i) = ppid (g_processes k i)"
    "cwd (g_processes k' i) = cwd (g_processes k i)" by simp_all
qed

lemma call_ok_table_step:
  assumes "call_ok k0 k" "table_step c k k'" "g_current_process k = Some c" "initialized (table_of c k')"
  shows "call_ok k0 k'"
proof -
  have c: "c < PROCESS_MAX" "pstate (g_processes k c) \<noteq> PROCESS_STATE_UNUSED"
    using fd_invD(5) [OF call_inv [OF assms(1)]] assms(3) by auto
  have "fd_inv k'" by (rule fd_inv_table_step [OF call_inv [OF assms(1)] assms(2) c(1)]) (use c assms(4) in simp)
  moreover have "call_frame k0 k'"
  proof -
    note f = table_stepD(2) [OF assms(2)]
    have k0: "call_frame k0 k" using assms(1) by (simp add: call_ok_def)
    have "fd_view k' (i, fd) = fd_view k0 (i, fd)" "cwd (g_processes k' i) = cwd (g_processes k0 i)"
      if "g_current_process k0 \<noteq> Some i" for i fd
    proof -
      have "i \<noteq> c" using that k0 assms(3) by (auto simp: call_frame_def)
      then show "fd_view k' (i, fd) = fd_view k0 (i, fd)" "cwd (g_processes k' i) = cwd (g_processes k0 i)"
        using table_stepD(3) [OF assms(2)] fd_frame_fields(3) [OF f] k0 that by (simp_all add: call_frame_def)
    qed
    then show ?thesis using k0 f fd_frame_fields(1,2) [OF f] fd_frame_pstate [OF f] by (simp add: call_frame_def fd_frame_def)
  qed
  ultimately show ?thesis by (simp add: call_ok_def)
qed

lemma fd_core_open_ok:
  assumes "call_ok k0 k"
  shows "call_ok k0 (snd (fd_core_open S path fl k))"
proof -
  obtain c where c: "c < PROCESS_MAX" "g_current_process k = Some c" "pstate (g_processes k c) \<noteq> PROCESS_STATE_UNUSED"
    "initialized (table_of c k)" "fd_current_table k = (c, k)" using fd_current [OF call_inv [OF assms]] by metis
  obtain s where s: "snd (fs_core_open path fl k) = k\<lparr>fs_state := s\<rparr>" using fs_core_open_frame [OF c(2)] .
  let ?k1 = "k\<lparr>fs_state := s\<rparr>"
  have k1: "call_ok k0 ?k1" using assms by simp
  have cl: "call_ok k0 (snd (fs_core_close n k))" if "call_ok k0 k" for n and k :: "('a, 'b) kernel"
  proof -
    obtain s where "snd (fs_core_close n k) = k\<lparr>fs_state := s\<rparr>" by (rule fs_core_close_frame)
    then show ?thesis using that by simp
  qed
  show ?thesis
  proof (cases "fst (fs_core_open path fl k)")
    case (Inl e)
    then have "fs_core_open path fl k = (Inl e, ?k1)" using s by (metis prod.collapse)
    then show ?thesis using k1 c(5) by (simp add: fd_core_open_def)
  next
    case (Inr n)
    then have o: "fs_core_open path fl k = (Inr n, ?k1)" using s by (metis prod.collapse)
    show ?thesis
    proof (cases "if fl AND FS_O_APPEND \<noteq> 0 then fs_core_size S n ?k1 else Inr 0")
      case (Inl e)
      then show ?thesis using cl [OF k1] c(5) by (simp add: fd_core_open_def o)
    next
      case (Inr off)
      show ?thesis
      proof (cases "fd_find_free c 0 ?k1")
        case None
        then show ?thesis using cl [OF k1] c(5) Inr by (simp add: fd_core_open_def o)
      next
        case (Some fd)
        obtain r k2 where a: "fd_alloc_description FD_KIND_VFS n fl off ?k1 = (r, k2)" by fastforce
        note ff = fd_find_free_Some [OF Some c(1)]
        from fd_invD(1) [OF call_inv [OF k1]] a show ?thesis
        proof (cases rule: fd_alloc_description_cases)
          case full
          then show ?thesis using cl [OF k1] c(5) Inr Some a by (simp add: fd_core_open_def o)
        next
          case (ok d)
          let ?d = "\<lparr>d_used = True, d_refs = 1, d_kind = FD_KIND_VFS, d_node_id = n, d_offset = off, d_flags = fl\<rparr>"
          let ?k3 = "set_entry c fd \<lparr>e_used = True, e_index = of_nat d\<rparr> (?k1\<lparr>g_descriptions := (g_descriptions ?k1)(d := ?d)\<rparr>)"
          have r: "snd (fd_core_open S path fl k) = ?k3"
            using c(5) Inr Some a ok by (simp add: fd_core_open_def o)
          have n: "refs_ok (fd_view ?k3) (g_descriptions ?k3)" "fd_view ?k3 = (fd_view ?k1)((c, fd) \<mapsto> d)"
            by (rule new_entry_ok [OF fd_invD(2) [OF call_inv [OF k1]] ff(1,2) ok(2,3)]; simp)+
          have f: "fd_frame ?k1 ?k3" "\<And>j. initialized (table_of j ?k3) = initialized (table_of j ?k1)"
            by (simp_all add: set_entry_def fd_frame_def)
          have "table_step c ?k1 ?k3" using n(1) f unfolding table_step_def n(2) by simp
          then show ?thesis unfolding r by (rule call_ok_table_step [OF k1]) (use c(2,4) f(2) in simp_all)
        qed
      qed
    qed
  qed
qed

lemma fd_release_entry_call:
  assumes "call_ok k0 k" "g_current_process k = Some i"
  shows "call_ok k0 (snd (fd_release_entry i fd k))"
proof (cases "fd_description i fd k")
  case None
  then show ?thesis using assms by (simp add: fd_release_entry_def)
next
  case (Some d)
  have i: "i < PROCESS_MAX" "pstate (g_processes k i) \<noteq> PROCESS_STATE_UNUSED"
    using fd_invD(5) [OF call_inv [OF assms(1)]] assms(2) by auto
  have v: "fd_view k (i, nat fd) = Some d" "0 \<le> fd"
    using fd_description_view [OF fd_invD(2) [OF call_inv [OF assms(1)]] i(1), of fd] Some by (auto split: if_splits)
  note r = fd_release_entry_ok [OF fd_invD(2) [OF call_inv [OF assms(1)]] v(1)]
  have e: "int (nat fd) = fd" using v(2) by simp
  have st: "table_step i k (snd (fd_release_entry i fd k))"
    using r(1,3,4) unfolding table_step_def e r(2) [unfolded e] by simp
  show ?thesis
    by (rule call_ok_table_step [OF assms(1) st assms(2)])
      (use r(4) [unfolded e] fd_invD(4) [OF call_inv [OF assms(1)] i] in simp)
qed

lemma fd_core_close_ok:
  assumes "call_ok k0 k"
  shows "call_ok k0 (snd (fd_core_close fd k))"
proof -
  obtain c where c: "g_current_process k = Some c" "fd_current_table k = (c, k)" using fd_current [OF call_inv [OF assms]] by metis
  then show ?thesis using fd_release_entry_call [OF assms c(1)] assms by (simp add: fd_core_close_def)
qed

lemma fd_core_read_ok:
  assumes "call_ok k0 k" "fd_core_read S fd null count k = Some (r, k')"
  shows "call_ok k0 k'"
proof -
  obtain c where c: "fd_current_table k = (c, k)" using fd_current [OF call_inv [OF assms(1)]] by metis
  have rd: "call_ok k0 k1" if "fs_core_read S n off cap k = Some (x, k1)" for n off cap x k1
    using that assms(1) by (auto simp: fs_core_read_def split: if_splits option.splits)
  show ?thesis
    using assms c rd
    by (auto simp: fd_core_read_def Let_def split: option.splits if_splits prod.splits sum.splits intro!: call_ok_desc)
qed

lemma fd_core_write_ok:
  assumes "call_ok k0 k"
  shows "call_ok k0 (snd (fd_core_write S fd buffer k))"
proof -
  obtain c where c: "fd_current_table k = (c, k)" using fd_current [OF call_inv [OF assms]] by metis
  have wr: "call_ok k0 (snd (fs_core_write S n off bs k))" if "call_ok k0 k" for n off bs and k :: "('a, 'b) kernel"
    using that by (auto simp: fs_core_write_def Let_def split: option.split prod.split)
  have w2: "call_ok k0 k2" if "fs_core_write S n off bs k1 = (x, k2)" "call_ok k0 k1" for n off bs x k2 and k1 :: "('a, 'b) kernel"
    using wr [OF that(2), of n off bs] that(1) by simp
  have o: "call_ok k0 (upd_desc d (\<lambda>x. x\<lparr>d_offset := f x\<rparr>) k)" if "call_ok k0 k" for d f and k :: "('a, 'b) kernel"
    by (rule call_ok_desc [OF that]) simp
  show ?thesis
  proof (cases "fd_description c fd k = None \<or> buffer = None \<or> buffer = Some []")
    case True
    then show ?thesis using assms c by (auto simp: fd_core_write_def split: option.split)
  next
    case False
    then obtain d bs where d: "fd_description c fd k = Some d" "buffer = Some bs" "bs \<noteq> []" by auto
    let ?d = "g_descriptions k d"
    show ?thesis
    proof (cases "d_kind ?d = FD_KIND_VFS \<and> d_flags ?d AND FS_O_RDWR \<noteq> FS_O_RDONLY")
      case False
      then show ?thesis using assms c d by (auto simp: fd_core_write_def Let_def)
    next
      case True
      show ?thesis
      proof (cases "if d_flags ?d AND FS_O_APPEND \<noteq> 0 then fs_core_size S (d_node_id ?d) k else Inr (d_offset ?d)")
        case (Inl e)
        then show ?thesis using assms c d True by (simp add: fd_core_write_def Let_def)
      next
        case (Inr off)
        let ?k1 = "upd_desc d (\<lambda>x. x\<lparr>d_offset := off\<rparr>) k"
        obtain w k2 where w: "fs_core_write S (d_node_id ?d) off bs ?k1 = (w, k2)" by fastforce
        have k2: "call_ok k0 k2" by (rule w2 [OF w o [OF assms]])
        then have "call_ok k0 (upd_desc d (\<lambda>x. x\<lparr>d_offset := d_offset x + n\<rparr>) k2)" for n by (rule o)
        then show ?thesis using c d True Inr w k2 by (cases w) (simp_all add: fd_core_write_def Let_def)
      qed
    qed
  qed
qed

lemma fd_core_lseek_ok:
  assumes "call_ok k0 k"
  shows "call_ok k0 (snd (fd_core_lseek S fd off wh k))"
proof -
  obtain c where c: "fd_current_table k = (c, k)" using fd_current [OF call_inv [OF assms]] by metis
  have o: "call_ok k0 (upd_desc d (\<lambda>x. x\<lparr>d_offset := z\<rparr>) k)" for d z
    by (rule call_ok_desc [OF assms]) simp
  have sum: "call_ok k0 (snd (case r of Inl err \<Rightarrow> (err, k)
      | Inr base \<Rightarrow> let next = sint (of_int (base + off) :: u32) in
                   if next < 0 then (- POSIX_EINVAL, k) else (next, upd_desc d (\<lambda>x. x\<lparr>d_offset := of_int next\<rparr>) k)))" for d and r :: "int + int"
    by (cases r) (use assms o in \<open>simp_all add: Let_def\<close>)
  show ?thesis
  proof (cases "fd_description c fd k")
    case (Some d)
    then show ?thesis using assms c sum [where d = d] by (simp add: fd_core_lseek_def Let_def del: of_int_add)
  qed (use assms c in \<open>simp add: fd_core_lseek_def\<close>)
qed

lemma entry_index:
  assumes "call_ok k0 k" "i < PROCESS_MAX" "fd_description i fd k = Some d"
  shows "0 \<le> fd" "e_used (entries (table_of i k) (nat fd))" "unat (e_index (entries (table_of i k) (nat fd))) = d"
    "d < POSIX_OFD_CAP" "d_used (g_descriptions k d)" "fd_view k (i, nat fd) = Some d"
proof -
  show "0 \<le> fd" "e_used (entries (table_of i k) (nat fd))" "unat (e_index (entries (table_of i k) (nat fd))) = d"
    "d < POSIX_OFD_CAP" "d_used (g_descriptions k d)"
    using assms(3) by (auto simp: fd_description_def Let_def split: if_splits)
  show "fd_view k (i, nat fd) = Some d"
    using assms(3) fd_description_view [OF fd_invD(2) [OF call_inv [OF assms(1)]] assms(2), of fd] by (simp split: if_splits)
qed

text \<open>A further descriptor of the current process for a description in use.\<close>

lemma share_ok:
  assumes "call_ok k0 k" "g_current_process k = Some c" "initialized (table_of c k)" "(c, fd) \<in> fd_slots" "fd_view k (c, fd) = None"
    "e_used e" "unat (e_index e) = d" "d < POSIX_OFD_CAP" "d_used (g_descriptions k d)"
  shows "call_ok k0 (upd_desc d (\<lambda>x. x\<lparr>d_refs := d_refs x + 1\<rparr>) (set_entry c fd e k))" (is "call_ok k0 ?k")
proof -
  note sh = share_entry_ok [OF fd_invD(2) [OF call_inv [OF assms(1)]] assms(4-9) refl]
  have st: "table_step c k ?k" using sh(1,3,4) unfolding table_step_def sh(2) by simp
  show ?thesis by (rule call_ok_table_step [OF assms(1) st assms(2)]) (use sh(4) assms(3) in simp)
qed

lemma fd_core_dup_ok:
  assumes "call_ok k0 k"
  shows "call_ok k0 (snd (fd_core_dup oldfd k))"
proof -
  obtain c where c: "c < PROCESS_MAX" "g_current_process k = Some c" "initialized (table_of c k)" "fd_current_table k = (c, k)"
    using fd_current [OF call_inv [OF assms]] by metis
  show ?thesis
  proof (cases "fd_description c oldfd k")
    case (Some d)
    note e = entry_index [OF assms c(1) Some]
    show ?thesis
    proof (cases "fd_find_free c 0 k")
      case (Some fd)
      note f = fd_find_free_Some [OF Some c(1)]
      show ?thesis
        using share_ok [OF assms c(2,3) f(1,2) e(2,3,4,5)] c(4) \<open>fd_description c oldfd k = Some d\<close> Some
        by (simp add: fd_core_dup_def)
    qed (use assms c(4) Some in \<open>simp add: fd_core_dup_def\<close>)
  qed (use assms c(4) in \<open>simp add: fd_core_dup_def\<close>)
qed

lemma fd_core_dup2_ok:
  assumes "call_ok k0 k"
  shows "call_ok k0 (snd (fd_core_dup2 oldfd newfd k))"
proof -
  obtain c where c: "c < PROCESS_MAX" "g_current_process k = Some c" "initialized (table_of c k)" "fd_current_table k = (c, k)"
    using fd_current [OF call_inv [OF assms]] by metis
  show ?thesis
  proof (cases "fd_description c oldfd k")
    case (Some d)
    note e = entry_index [OF assms c(1) Some]
    show ?thesis
    proof (cases "newfd < 0 \<or> int POSIX_FD_CAP \<le> newfd \<or> oldfd = newfd")
      case True
      then show ?thesis using assms c(4) Some by (auto simp: fd_core_dup2_def)
    next
      case False
      let ?rk = "if e_used (entries (table_of c k) (nat newfd)) then fd_release_entry c newfd k else (0, k)"
      obtain rc k1 where r: "?rk = (rc, k1)" by fastforce
      have n: "nat newfd < POSIX_FD_CAP" "nat newfd \<noteq> nat oldfd" "(c, nat newfd) \<in> fd_slots" "int (nat newfd) = newfd"
        using False e(1) c(1) by (auto simp: fd_slots_def)
      have step: "call_ok k0 k1" "fd_view k1 = (fd_view k)((c, nat newfd) := None)" "g_current_process k1 = Some c" "initialized (table_of c k1)"
      proof -
        have "call_ok k0 k1 \<and> fd_view k1 = (fd_view k)((c, nat newfd) := None) \<and> g_current_process k1 = Some c \<and> initialized (table_of c k1)"
        proof (cases "e_used (entries (table_of c k) (nat newfd))")
          case True
          then obtain d' where d': "fd_view k (c, nat newfd) = Some d'" using n(1) c(1) by (simp add: fd_view_def)
          note ro = fd_release_entry_ok [OF fd_invD(2) [OF call_inv [OF assms]] d', unfolded n(4)]
          have "k1 = snd (fd_release_entry c newfd k)" using r True by simp
          then show ?thesis using fd_release_entry_call [OF assms c(2), of newfd] ro(2,3,4) c(2,3) by (simp add: fd_frame_def)
        next
          case False
          then have "fd_view k (c, nat newfd) = None" by (simp add: fd_view_def)
          then show ?thesis using r False assms c(2,3) by (auto simp: fun_upd_idem)
        qed
        then show "call_ok k0 k1" "fd_view k1 = (fd_view k)((c, nat newfd) := None)" "g_current_process k1 = Some c" "initialized (table_of c k1)"
          by simp_all
      qed
      have old: "fd_view k1 (c, nat oldfd) = Some d" using e(6) n(2) unfolding step(2) by simp
      then have e1: "e_used (entries (table_of c k1) (nat oldfd))" "unat (e_index (entries (table_of c k1) (nat oldfd))) = d"
        by (auto simp: fd_view_def split: if_splits)
      have d1: "d < POSIX_OFD_CAP" "d_used (g_descriptions k1 d)" using refs_okD(1) [OF fd_invD(2) [OF call_inv [OF step(1)]] old] by simp_all
      have "call_ok k0 (upd_desc d (\<lambda>x. x\<lparr>d_refs := d_refs x + 1\<rparr>) (set_entry c (nat newfd) (entries (table_of c k1) (nat oldfd)) k1))"
        by (rule share_ok [OF step(1,3,4) n(3) _ e1 d1]) (simp add: step(2))
      then show ?thesis using False c(4) Some r step(1) by (simp add: fd_core_dup2_def)
    qed
  qed (use assms c(4) in \<open>simp add: fd_core_dup2_def\<close>)
qed

lemma fd_core_fstat_ok: "call_ok k0 k \<Longrightarrow> call_ok k0 (snd (fd_core_fstat S fd null k))"
  by (rule fd_current [OF call_inv]) (auto simp: fd_core_fstat_def Let_def split: option.split sum.split)

lemma fd_core_isatty_ok: "call_ok k0 k \<Longrightarrow> call_ok k0 (snd (fd_core_isatty fd k))"
  by (rule fd_current [OF call_inv]) (auto simp: fd_core_isatty_def)

lemma fd_core_ioctl_ok:
  assumes "call_ok k0 k" "fd_core_ioctl S fd request arg line k = Some (r, k')"
  shows "call_ok k0 k'"
proof -
  obtain c where c: "fd_current_table k = (c, k)" using fd_current [OF call_inv [OF assms(1)]] by metis
  have l: "call_ok k0 (k\<lparr>g_tty_line_row := row, g_tty_line_col := col, dev_state := d\<rparr>)" for row col d
    by (rule call_ok_cong [OF assms(1) fd_inv_cong [OF call_inv [OF assms(1)]]]) (simp_all add: fd_view_def fun_eq_iff)
  show ?thesis
    using assms c l unfolding fd_core_ioctl_def Let_def
    by (simp split: option.splits if_splits prod.splits; auto)
qed

subsection \<open>Calls on paths\<close>

lemma path_calls:
  assumes "call_ok k0 k"
  shows "call_ok k0 (snd (fs_core_make_dir path k))" "call_ok k0 (snd (fs_core_stat S path k))"
    "call_ok k0 (snd (fs_core_unlink path k))" "call_ok k0 (snd (fs_core_rmdir path k))"
    "call_ok k0 (snd (fs_core_readlink path cap k))" "call_ok k0 (snd (fs_core_list_dir path cap k))"
proof -
  obtain c where c: "g_current_process k = Some c" using fd_current [OF call_inv [OF assms]] by metis
  obtain f where r: "full_path_of path k = (f, k)" using full_path_of_same [OF c] .
  obtain f' where r': "full_path_of (if path = None \<or> path = Some [] then Some ''.'' else path) k = (f', k)"
    using full_path_of_same [OF c] .
  show "call_ok k0 (snd (fs_core_make_dir path k))"
    unfolding fs_core_make_dir_def r using assms by (auto split: option.split sum.split prod.split)
  show "call_ok k0 (snd (fs_core_stat S path k))"
    unfolding fs_core_stat_def r using assms by (auto split: option.split sum.split prod.split)
  show "call_ok k0 (snd (fs_core_unlink path k))"
    unfolding fs_core_unlink_def r using assms by (auto split: option.split sum.split prod.split)
  show "call_ok k0 (snd (fs_core_rmdir path k))"
    unfolding fs_core_rmdir_def r using assms by (auto split: option.split sum.split prod.split)
  show "call_ok k0 (snd (fs_core_readlink path cap k))"
    unfolding fs_core_readlink_def r using assms by (auto split: option.split sum.split prod.split)
  show "call_ok k0 (snd (fs_core_list_dir path cap k))"
    unfolding fs_core_list_dir_def Let_def r' using assms by (auto split: option.split sum.split prod.split)
qed

lemma fs_core_symlink_ok:
  assumes "call_ok k0 k"
  shows "call_ok k0 (snd (fs_core_symlink target linkpath k))"
proof -
  obtain c where c: "g_current_process k = Some c" using fd_current [OF call_inv [OF assms]] by metis
  obtain f where r: "full_path_of linkpath k = (f, k)" using full_path_of_same [OF c] .
  show ?thesis
    unfolding fs_core_symlink_def r Let_def using assms by (auto split: option.split sum.split prod.split)
qed

lemma fs_core_get_cwd_path_ok:
  assumes "call_ok k0 k"
  shows "call_ok k0 (snd (fs_core_get_cwd_path k))"
proof -
  obtain c where "process_core_current k = (c, k)" using fd_current [OF call_inv [OF assms]] by metis
  then show ?thesis using assms by (simp add: fs_core_get_cwd_path_def)
qed

lemma set_cwd_ok:
  assumes "call_ok k0 k" "g_current_process k = Some c"
  shows "call_ok k0 (process_core_set_cwd c dir k)"
proof -
  let ?k = "process_core_set_cwd c dir k"
  have v: "fd_view ?k = fd_view k" by (auto simp: process_core_set_cwd_def fd_view_def fun_eq_iff)
  have "fd_inv ?k" by (rule fd_inv_cong [OF call_inv [OF assms(1)] v]) (simp_all add: process_core_set_cwd_def)
  moreover have "call_frame k0 ?k"
    using assms unfolding call_ok_def call_frame_def v by (auto simp: process_core_set_cwd_def)
  ultimately show ?thesis by (simp add: call_ok_def)
qed

lemma fs_core_change_dir_ok:
  assumes "call_ok k0 k"
  shows "call_ok k0 (snd (fs_core_change_dir path k))"
proof -
  obtain c where c: "g_current_process k = Some c" using fd_current [OF call_inv [OF assms]] by metis
  obtain f where r: "full_path_of path k = (f, k)" using full_path_of_same [OF c] .
  have s: "call_ok k0 (process_core_set_cwd c dir k)" "call_ok k0 (process_core_set_cwd c dir (k\<lparr>fs_state := s\<rparr>))" for dir s
    by (rule set_cwd_ok; simp add: assms c)+
  show ?thesis
    unfolding fs_core_change_dir_def r Let_def process_core_current_def using assms c s
    by (auto split: option.split sum.split prod.split)
qed

end
