(* ===== verification/User_Mem.thy ===== *)
theory User_Mem
  imports Sys_Prelude
begin

text \<open>
  The 32-bit address space as the system calls and the program loader see it: a character at every
  address, C strings and byte ranges in it, and little-endian numbers. Address arithmetic wraps.
  The variables of the kernel are modelled by their own state, apart from this memory.
\<close>

type_synonym memory = "u32 \<Rightarrow> char"

subsection \<open>Bytes\<close>

fun put_bytes :: "u32 \<Rightarrow> char list \<Rightarrow> memory \<Rightarrow> memory" where
  "put_bytes a [] m = m"
| "put_bytes a (b # bs) m = put_bytes (a + 1) bs (m(a := b))"

definition bytes_at :: "memory \<Rightarrow> u32 \<Rightarrow> nat \<Rightarrow> char list" where
  "bytes_at m a n = map (\<lambda>i. m (a + of_nat i)) [0..<n]"

text \<open>The string at an address; without a NUL in the whole memory there is none.\<close>

partial_function (option) cstr :: "memory \<Rightarrow> u32 \<Rightarrow> string option" where
  "cstr m a = (if m a = CHR 0x00 then Some [] else Option.bind (cstr m (a + 1)) (\<lambda>s. Some (m a # s)))"

text \<open>A pointer argument: null, or a string.\<close>

definition string_at :: "memory \<Rightarrow> u32 \<Rightarrow> string option option" where
  "string_at m a = (if a = 0 then Some None else map_option Some (cstr m a))"

definition le32 :: "u32 \<Rightarrow> char list" where
  "le32 v = map (\<lambda>i. char_of (unat (drop_bit (8 * i) v AND 0xFF))) [0, 1, 2, 3]"

definition u32_at :: "memory \<Rightarrow> u32 \<Rightarrow> u32" where
  "u32_at m a =
     of_nat (of_char (m a)) OR push_bit 8 (of_nat (of_char (m (a + 1)))) OR
     push_bit 16 (of_nat (of_char (m (a + 2)))) OR push_bit 24 (of_nat (of_char (m (a + 3))))"

subsection \<open>Ranges of addresses\<close>

text \<open>The offset of an address in a range; a range of \<open>n\<close> bytes may wrap around the end of memory.\<close>

definition in_range :: "u32 \<Rightarrow> nat \<Rightarrow> u32 \<Rightarrow> bool" where
  "in_range a n x \<longleftrightarrow> unat (x - a) < n"

lemma in_range_0 [simp]: "\<not> in_range a 0 x"
  by (simp add: in_range_def)

lemma unat_minus_one_u32: "(x :: u32) \<noteq> 0 \<Longrightarrow> unat (x - 1) = unat x - 1"
  by (simp add: unat_minus_one)

lemma unat_minus_1_u32: "unat (- 1 :: u32) = 2 ^ 32 - 1"
  by (simp add: unsigned_minus_1_eq_mask mask_eq_exp_minus_1)

lemma in_range_Suc: "n < 2 ^ 32 \<Longrightarrow> in_range a (Suc n) x \<longleftrightarrow> x = a \<or> in_range (a + 1) n x \<and> x \<noteq> a"
proof (cases "x = a")
  case False
  then have "x - a \<noteq> 0" by simp
  then have "unat (x - (a + 1)) = unat (x - a) - 1" "unat (x - a) \<noteq> 0"
    by (simp_all add: unat_minus_one_u32 diff_diff_eq [symmetric] unat_eq_zero)
  then show ?thesis using False by (auto simp: in_range_def)
qed (simp add: in_range_def)

lemma in_range_iff:
  assumes "unat a + n \<le> 2 ^ 32"
  shows "in_range a n x \<longleftrightarrow> unat a \<le> unat x \<and> unat x < unat a + n"
proof (cases "a \<le> x")
  case True
  then have "unat (x - a) = unat x - unat a" "unat a \<le> unat x" by (simp_all add: unat_sub word_le_nat_alt)
  then show ?thesis by (auto simp: in_range_def)
next
  case False
  then have lt: "unat x < unat a" by (simp add: word_le_nat_alt)
  have "unat x = (unat (x - a) + unat a) mod 2 ^ 32" using unat_word_ariths(1) [of "x - a" a] by simp
  then have "2 ^ 32 \<le> unat (x - a) + unat a" using lt by (metis le_add2 mod_less not_le)
  then show ?thesis using lt assms by (simp add: in_range_def)
qed

lemma put_bytes_outside: "length bs < 2 ^ 32 \<Longrightarrow> \<not> in_range a (length bs) x \<Longrightarrow> put_bytes a bs m x = m x"
proof (induction bs arbitrary: a m)
  case (Cons b bs)
  then show ?case using in_range_Suc [of "length bs" a x] by auto
qed simp

lemma put_bytes_inside:
  "length bs < 2 ^ 32 \<Longrightarrow> in_range a (length bs) x \<Longrightarrow> put_bytes a bs m x = bs ! unat (x - a)"
proof (induction bs arbitrary: a m)
  case (Cons b bs)
  show ?case
  proof (cases "x = a")
    case True
    have "\<not> in_range (a + 1) (length bs) a" using Cons.prems(1) by (simp add: in_range_def unat_minus_1_u32)
    then show ?thesis using True Cons.prems put_bytes_outside [of bs "a + 1" a "m(a := b)"] by simp
  next
    case False
    then have "x - a \<noteq> 0" by simp
    then have "unat (x - (a + 1)) = unat (x - a) - 1" "unat (x - a) \<noteq> 0"
      by (simp_all add: unat_minus_one_u32 diff_diff_eq [symmetric] unat_eq_zero)
    moreover have "in_range (a + 1) (length bs) x" using Cons.prems False in_range_Suc [of "length bs" a x] by simp
    ultimately show ?thesis using Cons.IH [of "a + 1"] Cons.prems by (simp add: nth_Cons')
  qed
qed simp

lemma bytes_at_length [simp]: "length (bytes_at m a n) = n"
  by (simp add: bytes_at_def)

lemma bytes_at_put: "length bs < 2 ^ 32 \<Longrightarrow> bytes_at (put_bytes a bs m) a (length bs) = bs"
  by (rule nth_equalityI) (simp_all add: bytes_at_def put_bytes_inside in_range_def unat_of_nat_u32)

lemma put_bytes_append: "put_bytes a (xs @ ys) m = put_bytes (a + of_nat (length xs)) ys (put_bytes a xs m)"
  by (induction xs arbitrary: a m) (simp_all add: algebra_simps)

lemma cstr_bytes:
  "(\<And>i. i < length s \<Longrightarrow> m (a + of_nat i) = s ! i) \<Longrightarrow> CHR 0x00 \<notin> set s \<Longrightarrow> m (a + of_nat (length s)) = CHR 0x00 \<Longrightarrow>
   cstr m a = Some s"
proof (induction s arbitrary: a)
  case Nil
  then show ?case by (simp add: cstr.simps)
next
  case (Cons c s)
  have "cstr m (a + 1) = Some s"
  proof (rule Cons.IH)
    show "m (a + 1 + of_nat i) = s ! i" if "i < length s" for i
      using Cons.prems(1) [of "Suc i"] that by (simp add: add.assoc)
    show "m (a + 1 + of_nat (length s)) = CHR 0x00" using Cons.prems(3) by (simp add: add.assoc)
  qed (use Cons.prems(2) in simp)
  moreover have "m a = c" using Cons.prems(1) [of 0] by simp
  ultimately show ?case using Cons.prems(2) by (subst cstr.simps) auto
qed

lemma cstr_put:
  assumes "length s + 1 < 2 ^ 32" "CHR 0x00 \<notin> set s"
  shows "cstr (put_bytes a (s @ [CHR 0x00]) m) a = Some s"
proof (rule cstr_bytes)
  have l: "length (s @ [CHR 0x00]) < 2 ^ 32" using assms(1) by simp
  show "put_bytes a (s @ [CHR 0x00]) m (a + of_nat i) = s ! i" if "i < length s" for i
    using put_bytes_inside [OF l, of a "a + of_nat i" m] that assms(1) by (simp add: in_range_def unat_of_nat_u32 nth_append)
  show "put_bytes a (s @ [CHR 0x00]) m (a + of_nat (length s)) = CHR 0x00"
    using put_bytes_inside [OF l, of a "a + of_nat (length s)" m] assms(1) by (simp add: in_range_def unat_of_nat_u32 nth_append)
qed (rule assms(2))

lemma le32_length [simp]: "length (le32 v) = 4"
  by (simp add: le32_def)

lemma byte_of_le32: "of_nat (of_char (char_of (unat (drop_bit n v AND 0xFF)) :: char)) = take_bit 8 (drop_bit n (v :: u32))"
proof -
  have "drop_bit n v AND 0xFF = take_bit 8 (drop_bit n v)"
    by (simp add: take_bit_eq_mask mask_eq_exp_minus_1)
  moreover have "unat (take_bit 8 (drop_bit n v)) < 256"
    by (simp only: unsigned_take_bit_eq) (simp add: take_bit_nat_def)
  ultimately show ?thesis by (simp add: take_bit_nat_eq_self)
qed

lemma u32_at_le32:
  assumes "\<And>i. i < 4 \<Longrightarrow> m (a + of_nat i) = le32 v ! i"
  shows "u32_at m a = v"
proof -
  have m: "m a = le32 v ! 0" "m (a + 1) = le32 v ! 1" "m (a + 2) = le32 v ! 2" "m (a + 3) = le32 v ! 3"
    using assms [of 0] assms [of 1] assms [of 2] assms [of 3] by simp_all
  have b: "of_nat (of_char (le32 v ! i)) = take_bit 8 (drop_bit (8 * i) v)" if "i < 4" for i
  proof -
    have "le32 v ! i = char_of (unat (drop_bit (8 * i) v AND 0xFF))"
      using that by (auto simp: le32_def numeral_eq_Suc less_Suc_eq)
    then show ?thesis by (simp only: byte_of_le32)
  qed
  have e: "u32_at m a = take_bit 8 v OR push_bit 8 (take_bit 8 (drop_bit 8 v)) OR
      push_bit 16 (take_bit 8 (drop_bit 16 v)) OR push_bit 24 (take_bit 8 (drop_bit 24 v))"
    unfolding u32_at_def m using b [of 0] b [of 1] b [of 2] b [of 3] by simp
  have "bit (u32_at m a) i = bit v i" if "i < 32" for i
  proof -
    consider "i < 8" | "8 \<le> i" "i < 16" | "16 \<le> i" "i < 24" | "24 \<le> i" by linarith
    then show ?thesis
      unfolding e using that by cases (simp_all add: bit_simps, arith+)
  qed
  then show ?thesis by (intro bit_word_eqI) simp
qed

text \<open>Consecutive little-endian words.\<close>

lemma concat_le32_length [simp]: "length (concat (map le32 ws)) = 4 * length ws"
  by (induction ws) simp_all

lemma concat_le32_nth: "i < length ws \<Longrightarrow> j < 4 \<Longrightarrow> concat (map le32 ws) ! (4 * i + j) = le32 (ws ! i) ! j"
proof (induction ws arbitrary: i)
  case (Cons w ws)
  then show ?case by (cases i) (simp_all add: nth_append)
qed simp

lemma u32_at_put_words:
  assumes "i < length ws" "4 * length ws < 2 ^ 32"
  shows "u32_at (put_bytes a (concat (map le32 ws)) m) (a + 4 * of_nat i) = ws ! i"
proof (rule u32_at_le32)
  fix j :: nat assume j: "j < 4"
  let ?x = "a + 4 * of_nat i + of_nat j :: u32"
  have "?x - a = of_nat (4 * i + j)" by simp
  moreover have n: "4 * i + j < 4 * length ws" using assms(1) j by simp
  ultimately have u: "unat (?x - a) = 4 * i + j" using assms(2) by (simp only: unat_of_nat_u32)
  have "put_bytes a (concat (map le32 ws)) m ?x = concat (map le32 ws) ! unat (?x - a)"
    by (rule put_bytes_inside) (use assms(2) u n in \<open>simp_all add: in_range_def\<close>)
  then show "put_bytes a (concat (map le32 ws)) m ?x = le32 (ws ! i) ! j"
    unfolding u by (simp add: concat_le32_nth [OF assms(1) j])
qed

end
