(* ===== verification/Posix.thy ===== *)
theory Posix
  imports Fd_Core User_Mem
begin

text \<open>
  The POSIX layer of \<open>src/src/kernel/core/posix/posix.c\<close>, without the calls that start and end a
  program (see \<open>Usermode\<close>). A call that may wait forever returns an option: \<open>None\<close> when it does not
  return. Out-parameters are components of the result; the system call layer stores them in memory.
\<close>

definition posix_fs_to_errno :: "'a fs_result \<Rightarrow> int" where
  "posix_fs_to_errno rc =
     (case rc of
        Inr _ \<Rightarrow> 0
      | Inl e \<Rightarrow> (let err = fs_core_to_errno rc in if err = 0 then - POSIX_EIO else - err))"

definition posix_init :: "('s, 'c) kernel \<Rightarrow> ('s, 'c) kernel" where
  "posix_init k = fd_core_init k"

definition posix_open :: "'c services \<Rightarrow> string option \<Rightarrow> u32 \<Rightarrow> ('s, 'c) kernel \<Rightarrow> int \<times> ('s, 'c) kernel" where
  "posix_open S path flags k = fd_core_open S path flags k"

definition posix_close :: "int \<Rightarrow> ('s, 'c) kernel \<Rightarrow> int \<times> ('s, 'c) kernel" where
  "posix_close fd k = fd_core_close fd k"

definition posix_read :: "'c services \<Rightarrow> int \<Rightarrow> bool \<Rightarrow> u32 \<Rightarrow> ('s, 'c) kernel \<Rightarrow> ((int \<times> char list) \<times> ('s, 'c) kernel) option" where
  "posix_read S fd null count k = fd_core_read S fd null count k"

definition posix_write :: "'c services \<Rightarrow> int \<Rightarrow> char list option \<Rightarrow> ('s, 'c) kernel \<Rightarrow> int \<times> ('s, 'c) kernel" where
  "posix_write S fd buffer k = fd_core_write S fd buffer k"

definition posix_lseek :: "'c services \<Rightarrow> int \<Rightarrow> int \<Rightarrow> u32 \<Rightarrow> ('s, 'c) kernel \<Rightarrow> int \<times> ('s, 'c) kernel" where
  "posix_lseek S fd off whence k = fd_core_lseek S fd off whence k"

text \<open>\<open>null\<close> says that the pointer to the result is null, which \<open>fs_core_stat\<close> refuses like a null path.\<close>

definition posix_stat :: "'c services \<Rightarrow> string option \<Rightarrow> bool \<Rightarrow> ('s, 'c) kernel \<Rightarrow> (int \<times> fs_stat option) \<times> ('s, 'c) kernel" where
  "posix_stat S path null k =
     (let (rc, k1) = (if null then (Inl FS_ERR_INVALID, k) else fs_core_stat S path k)
      in case rc of
           Inl e \<Rightarrow> ((posix_fs_to_errno rc, None), k1)
         | Inr st \<Rightarrow> ((0, Some st), k1))"

definition posix_fstat :: "'c services \<Rightarrow> int \<Rightarrow> bool \<Rightarrow> ('s, 'c) kernel \<Rightarrow> (int \<times> fs_stat option) \<times> ('s, 'c) kernel" where
  "posix_fstat S fd null k = fd_core_fstat S fd null k"

definition posix_dup :: "int \<Rightarrow> ('s, 'c) kernel \<Rightarrow> int \<times> ('s, 'c) kernel" where
  "posix_dup oldfd k = fd_core_dup oldfd k"

definition posix_dup2 :: "int \<Rightarrow> int \<Rightarrow> ('s, 'c) kernel \<Rightarrow> int \<times> ('s, 'c) kernel" where
  "posix_dup2 oldfd newfd k = fd_core_dup2 oldfd newfd k"

definition posix_isatty :: "int \<Rightarrow> ('s, 'c) kernel \<Rightarrow> int \<times> ('s, 'c) kernel" where
  "posix_isatty fd k = fd_core_isatty fd k"

definition posix_access :: "'c services \<Rightarrow> string option \<Rightarrow> u32 \<Rightarrow> ('s, 'c) kernel \<Rightarrow> int \<times> ('s, 'c) kernel" where
  "posix_access S path mode k =
     (if path = None \<or> mode AND NOT 7 \<noteq> 0 then (- POSIX_EINVAL, k)
      else let (rc, k1) = fs_core_stat S path k
           in case rc of
                Inl e \<Rightarrow> (posix_fs_to_errno rc, k1)
              | Inr st \<Rightarrow> (if mode AND 2 \<noteq> 0 \<and> \<not> fs_core_is_writable k1 then - POSIX_EACCES else 0, k1))"

definition posix_getpid :: "('s, 'c) kernel \<Rightarrow> int \<times> ('s, 'c) kernel" where
  "posix_getpid k0 = (let (i, k) = process_core_current k0 in (sint (pid (g_processes k i)), k))"

definition posix_getppid :: "('s, 'c) kernel \<Rightarrow> int \<times> ('s, 'c) kernel" where
  "posix_getppid k0 = (let (i, k) = process_core_current k0 in (sint (ppid (g_processes k i)), k))"

text \<open>The wait of \<open>posix_nanosleep\<close> for a number of timer ticks.\<close>

partial_function (option) nanosleep_wait :: "'c services \<Rightarrow> u64 \<Rightarrow> u64 \<Rightarrow> 'c \<Rightarrow> 'c option" where
  "nanosleep_wait S start ticks c =
     (if sv_ticks S c - start < ticks then nanosleep_wait S start ticks (sv_cpu_idle S c) else Some c)"

definition nanosleep_ticks :: "int \<Rightarrow> int \<Rightarrow> u64" where
  "nanosleep_ticks sec nsec =
     ucast (of_int sec :: u32) * 100 + ucast (((of_int nsec :: u32) + 9999999) div 10000000)"

text \<open>The requested time is null or a pair of seconds and nanoseconds; the remaining time is always zero.\<close>

definition posix_nanosleep :: "'c services \<Rightarrow> (int \<times> int) option \<Rightarrow> ('s, 'c) kernel \<Rightarrow> (int \<times> ('s, 'c) kernel) option" where
  "posix_nanosleep S req k =
     (case req of
        None \<Rightarrow> Some (- POSIX_EINVAL, k)
      | Some (sec, nsec) \<Rightarrow>
          if sec < 0 \<or> nsec < 0 \<or> 1000000000 \<le> nsec then Some (- POSIX_EINVAL, k)
          else let ticks = nanosleep_ticks sec nsec
               in if ticks = 0 then Some (0, k)
                  else (case nanosleep_wait S (sv_ticks S (dev_state k)) ticks (dev_state k) of
                          None \<Rightarrow> None
                        | Some c \<Rightarrow> Some (0, k\<lparr>dev_state := c\<rparr>)))"

definition posix_ioctl :: "'c services \<Rightarrow> int \<Rightarrow> u32 \<Rightarrow> u32 \<Rightarrow> (char list option \<times> u32) option \<Rightarrow>
    ('s, 'c) kernel \<Rightarrow> (int \<times> ('s, 'c) kernel) option" where
  "posix_ioctl S fd request arg line k = fd_core_ioctl S fd request arg line k"

definition posix_sync :: int where
  "posix_sync = 0"

definition posix_reboot :: "'c services \<Rightarrow> u32 \<Rightarrow> ('s, 'c) kernel \<Rightarrow> int \<times> ('s, 'c) kernel" where
  "posix_reboot S how k =
     (if how = 0 then (0, k\<lparr>dev_state := sv_raise S 0 (dev_state k)\<rparr>)
      else if how = 1 then (0, k\<lparr>dev_state := sv_raise S 1 (dev_state k)\<rparr>)
      else (- POSIX_EINVAL, k))"

definition posix_unlink :: "string option \<Rightarrow> ('s, 'c) kernel \<Rightarrow> int \<times> ('s, 'c) kernel" where
  "posix_unlink path k = (let (rc, k1) = fs_core_unlink path k in (posix_fs_to_errno rc, k1))"

definition posix_rmdir :: "string option \<Rightarrow> ('s, 'c) kernel \<Rightarrow> int \<times> ('s, 'c) kernel" where
  "posix_rmdir path k = (let (rc, k1) = fs_core_rmdir path k in (posix_fs_to_errno rc, k1))"

definition posix_symlink :: "string option \<Rightarrow> string option \<Rightarrow> ('s, 'c) kernel \<Rightarrow> int \<times> ('s, 'c) kernel" where
  "posix_symlink target linkpath k = (let (rc, k1) = fs_core_symlink target linkpath k in (posix_fs_to_errno rc, k1))"

text \<open>The target stored in the buffer, or nothing; \<open>null\<close> says that the buffer is null.\<close>

definition posix_readlink :: "string option \<Rightarrow> bool \<Rightarrow> u32 \<Rightarrow> ('s, 'c) kernel \<Rightarrow> (int \<times> string option) \<times> ('s, 'c) kernel" where
  "posix_readlink path null cap k =
     (let (rc, k1) = (if null then (Inl FS_ERR_INVALID, k) else fs_core_readlink path (unat cap) k)
      in case rc of
           Inl e \<Rightarrow> ((posix_fs_to_errno rc, None), k1)
         | Inr target \<Rightarrow> ((sint (of_nat (length target) :: u32), Some target), k1))"

abbreviation "SYSTEM1_DIRENT_NAME_CAP \<equiv> 24 :: nat"

record system1_dirent =
  sd_name :: string
  sd_type :: u8

definition posix_getdents :: "string option \<Rightarrow> bool \<Rightarrow> u32 \<Rightarrow> ('s, 'c) kernel \<Rightarrow> (int \<times> system1_dirent list) \<times> ('s, 'c) kernel" where
  "posix_getdents path null cap k =
     (if null \<or> cap = 0 then ((- POSIX_EINVAL, []), k)
      else let cap1 = (if 32 < cap then 32 else cap);
               (rc, k1) = fs_core_list_dir path (unat cap1) k
           in case rc of
                Inl e \<Rightarrow> ((posix_fs_to_errno rc, []), k1)
              | Inr es \<Rightarrow> ((int (length es),
                  map (\<lambda>e. \<lparr>sd_name = take (SYSTEM1_DIRENT_NAME_CAP - 1) (ent_name e), sd_type = ent_type e\<rparr>) es), k1))"

subsection \<open>Sleeping\<close>

lemma unat_of_int_u32: "0 \<le> x \<Longrightarrow> x < 2 ^ 32 \<Longrightarrow> unat (of_int x :: u32) = nat x"
  using unat_of_nat_u32 [of "nat x"] by (simp add: nat_less_iff)

lemma unat_ucast_u64: "unat (ucast (w :: u32) :: u64) = unat w"
  by (simp add: unsigned_ucast_eq take_bit_nat_eq_self_iff order.strict_trans [OF unat_u32_less])

text \<open>A tick is 10 ms: the number of ticks is the requested time in ticks, rounded up.\<close>

lemma unat_nanosleep_ticks:
  assumes "0 \<le> sec" "sec < 2 ^ 31" "0 \<le> nsec" "nsec < 1000000000"
  shows "int (unat (nanosleep_ticks sec nsec)) = sec * 100 + (nsec + 9999999) div 10000000"
proof -
  let ?s = "of_int sec :: u32" and ?n = "of_int nsec :: u32"
  have s: "unat ?s = nat sec" "unat ?n = nat nsec" using assms by (simp_all add: unat_of_int_u32)
  have n: "unat (?n + 9999999) = nat nsec + 9999999"
    using s assms by (subst unat_add_no_wrap) (simp_all add: nat_less_iff)
  have d: "unat ((?n + 9999999) div 10000000) = (nat nsec + 9999999) div 10000000"
    using n by (simp add: unat_div)
  have m: "unat (ucast ?s * 100 :: u64) = nat sec * 100"
    using s assms by (simp add: unat_word_ariths unat_ucast_u64 nat_less_iff)
  have b: "(nat nsec + 9999999) div 10000000 \<le> 100" "nat sec < 2 ^ 31" using assms by (simp_all add: nat_less_iff)
  have "unat (nanosleep_ticks sec nsec) = nat sec * 100 + (nat nsec + 9999999) div 10000000"
    unfolding nanosleep_ticks_def using m d b by (subst unat_add_no_wrap) (simp_all add: unat_ucast_u64)
  then show ?thesis using assms by (simp add: zdiv_int)
qed

lemma nanosleep_wait_returns:
  assumes "\<And>c. \<exists>d. 1 \<le> d \<and> d < 2 ^ 32 \<and> sv_ticks S (sv_cpu_idle S c) = sv_ticks S c + of_nat d" "unat ticks < 2 ^ 40"
  shows "\<exists>c'. nanosleep_wait S start ticks c = Some c' \<and> ticks \<le> sv_ticks S c' - start"
proof (induction "unat ticks - unat (sv_ticks S c - start)" arbitrary: c rule: less_induct)
  case less
  show ?case
  proof (cases "sv_ticks S c - start < ticks")
    case True
    let ?e = "sv_ticks S c - start" and ?c = "sv_cpu_idle S c"
    obtain d where d: "1 \<le> d" "d < 2 ^ 32" "sv_ticks S ?c = sv_ticks S c + of_nat d" using assms(1) by metis
    have e: "unat ?e < unat ticks" using True by (simp add: word_less_nat_alt)
    have ud: "unat (of_nat d :: u64) = d" using d(2) by (simp add: unsigned_of_nat take_bit_nat_eq_self)
    have "unat (?e + of_nat d) = unat ?e + d"
      using unat_add_no_wrap [of ?e "of_nat d"] e assms(2) d(2) ud by simp
    moreover have "sv_ticks S ?c - start = ?e + of_nat d" using d(3) by simp
    ultimately have "unat (sv_ticks S ?c - start) = unat ?e + d" by (simp only:)
    then have "\<exists>c'. nanosleep_wait S start ticks ?c = Some c' \<and> ticks \<le> sv_ticks S c' - start"
      using e d(1) by (intro less) simp
    then show ?thesis using True by (subst nanosleep_wait.simps) simp
  qed (subst nanosleep_wait.simps, simp)
qed

text \<open>
  C32: \<open>posix_nanosleep\<close> returns, whatever the request, on a machine whose timer goes on while the
  processor idles; a valid request of less than 68 years (31 bits of seconds) has then slept at least the requested
  time, counted in timer ticks of 10 ms rounded up, and an invalid one is refused at once.
\<close>

theorem nanosleep_returns:
  assumes "\<And>c. \<exists>d. 1 \<le> d \<and> d < 2 ^ 32 \<and> sv_ticks S (sv_cpu_idle S c) = sv_ticks S c + of_nat d"
    "0 \<le> sec" "sec < 2 ^ 31"
  shows "if 0 \<le> nsec \<and> nsec < 1000000000
    then \<exists>c. posix_nanosleep S (Some (sec, nsec)) k = Some (0, k\<lparr>dev_state := c\<rparr>) \<and>
           sec * 100 + (nsec + 9999999) div 10000000 \<le> int (unat (sv_ticks S c - sv_ticks S (dev_state k)))
    else posix_nanosleep S (Some (sec, nsec)) k = Some (- POSIX_EINVAL, k)"
proof (cases "0 \<le> nsec \<and> nsec < 1000000000")
  case True
  let ?t = "nanosleep_ticks sec nsec"
  have t: "int (unat ?t) = sec * 100 + (nsec + 9999999) div 10000000" using unat_nanosleep_ticks assms(2,3) True by simp
  moreover have "(nsec + 9999999) div 10000000 \<le> 100" using True by linarith
  moreover have "sec < 2147483648" using assms(3) by simp
  ultimately have "unat ?t < 1099511627776" by linarith
  then have "unat ?t < 2 ^ 40" by simp
  from nanosleep_wait_returns [OF assms(1) this, of "sv_ticks S (dev_state k)" "dev_state k"]
  obtain c where c: "nanosleep_wait S (sv_ticks S (dev_state k)) ?t (dev_state k) = Some c" "?t \<le> sv_ticks S c - sv_ticks S (dev_state k)"
    by blast
  show ?thesis
  proof (cases "?t = 0")
    case z: True
    then have "sec * 100 + (nsec + 9999999) div 10000000 \<le> 0" using t by simp
    then show ?thesis using z True assms(2) by (auto simp: posix_nanosleep_def intro!: exI [of _ "dev_state k"])
  next
    case False
    have "int (unat ?t) \<le> int (unat (sv_ticks S c - sv_ticks S (dev_state k)))" using c(2) by (simp add: word_le_def)
    then show ?thesis using False True c(1) t assms(2) by (auto simp: posix_nanosleep_def Let_def intro!: exI [of _ c])
  qed
qed (use assms(2) in \<open>auto simp: posix_nanosleep_def\<close>)

theorem nanosleep_returns_witness:
  "\<exists>(S :: u64 services). (\<forall>c. sv_ticks S (sv_cpu_idle S c) = sv_ticks S c + of_nat 1) \<and>
     (\<forall>k :: (unit, u64) kernel. \<exists>c. posix_nanosleep S (Some (2, 5)) k = Some (0, k\<lparr>dev_state := c\<rparr>) \<and>
        201 \<le> int (unat (sv_ticks S c - sv_ticks S (dev_state k))))"
proof -
  define S :: "u64 services" where "S = undefined\<lparr>sv_cpu_idle := (\<lambda>c. c + 1), sv_ticks := (\<lambda>c. c)\<rparr>"
  have t: "\<exists>d. 1 \<le> d \<and> d < 2 ^ 32 \<and> sv_ticks S (sv_cpu_idle S c) = sv_ticks S c + of_nat d" for c
    by (rule exI [of _ 1]) (simp add: S_def)
  have "\<exists>c. posix_nanosleep S (Some (2, 5)) k = Some (0, k\<lparr>dev_state := c\<rparr>) \<and>
      201 \<le> int (unat (sv_ticks S c - sv_ticks S (dev_state k)))" for k :: "(unit, u64) kernel"
    using nanosleep_returns [of S 2 5 k, OF t] by simp
  then show ?thesis by (intro exI [of _ S]) (simp add: S_def)
qed

end
