(* ===== verification/Paging.thy ===== *)
theory Paging
  imports Klog User_Mem
begin

text \<open>
  The i386 paging of \<open>src/src/kernel/arch/x86/paging_x86.c\<close>: the identity tables of the first
  64 MiB, the opening of ranges to user mode and the search of the boot information for usable
  memory. The tables are functions on their indices; their addresses are parameters, since the
  linker chooses them, and \<open>mmu_walk\<close> is the two-level walk of the processor that reads them.
\<close>

subsection \<open>State\<close>

abbreviation "PAGE_SIZE \<equiv> 4096 :: u32"
abbreviation "PAGING_IDENTITY_LIMIT \<equiv> 0x04000000 :: u32"
abbreviation "MB2_BOOTLOADER_MAGIC \<equiv> 0x36D76289 :: u32"
abbreviation "FLOPPY_MAGIC \<equiv> 0x53314D47 :: u32"

record paging =
  g_pd :: "nat \<Rightarrow> u32"
  g_pt :: "nat \<Rightarrow> nat \<Rightarrow> u32"
  g_paging_enabled :: bool
  cr0 :: u32
  cr3 :: u32

text \<open>Where the linker put \<open>g_pd\<close> and \<open>g_pt\<close>.\<close>

record paging_layout =
  pd_base :: u32
  pt_base :: u32

subsection \<open>The boot information\<close>

definition u64_at :: "memory \<Rightarrow> u32 \<Rightarrow> u64" where
  "u64_at m a = ucast (u32_at m a) OR push_bit 32 (ucast (u32_at m (a + 4)))"

definition align8 :: "u32 \<Rightarrow> u32" where
  "align8 value = (value + 7) AND NOT 7"

text \<open>The entries of a memory map, up to the first usable one.\<close>

partial_function (option) usable_entry :: "memory \<Rightarrow> u32 \<Rightarrow> u32 \<Rightarrow> u32 \<Rightarrow> bool option" where
  "usable_entry m entry_ptr mmap_end entry_size =
     (if entry_ptr + 24 \<le> mmap_end
      then if u32_at m (entry_ptr + 16) = 1 \<and> u64_at m (entry_ptr + 8) \<noteq> 0 then Some True
           else usable_entry m (entry_ptr + entry_size) mmap_end entry_size
      else Some False)"

partial_function (option) usable_tag :: "memory \<Rightarrow> u32 \<Rightarrow> u32 \<Rightarrow> bool option" where
  "usable_tag m tag end_ptr =
     (if tag < end_ptr
      then let type = u32_at m tag; sz = u32_at m (tag + 4)
           in if type = 0 \<or> sz < 8 then Some False
              else if type = 6
              then if u32_at m (tag + 8) < 24 then Some False
                   else Option.bind (usable_entry m (tag + 16) (tag + sz) (u32_at m (tag + 8)))
                          (\<lambda>found. if found then Some True else usable_tag m (tag + align8 sz) end_ptr)
              else usable_tag m (tag + align8 sz) end_ptr
      else Some False)"

definition mb2_has_usable_region :: "memory \<Rightarrow> u32 \<Rightarrow> bool option" where
  "mb2_has_usable_region m boot_info_ptr =
     (if boot_info_ptr = 0 then Some False
      else usable_tag m (boot_info_ptr + 8) (boot_info_ptr + u32_at m boot_info_ptr))"

subsection \<open>The tables\<close>

text \<open>The value of \<open>phys\<close> in round \<open>j\<close> of the loop over table \<open>i\<close> is \<open>(1024 * i + j) * PAGE_SIZE\<close>.\<close>

definition build_identity_tables_x86 :: "paging_layout \<Rightarrow> paging \<Rightarrow> paging" where
  "build_identity_tables_x86 L pg =
     pg\<lparr>g_pd := (\<lambda>i. if i < 16 then ((pt_base L + of_nat i * PAGE_SIZE) AND 0xFFFFF000) OR 3 else 0),
        g_pt := (\<lambda>i j. ((of_nat (1024 * i + j) * PAGE_SIZE) AND 0xFFFFF000) OR 3)\<rparr>"

definition load_cr3_ptr :: "u32 \<Rightarrow> paging \<Rightarrow> paging" where
  "load_cr3_ptr value pg = pg\<lparr>cr3 := value\<rparr>"

definition enable_paging_bit :: "paging \<Rightarrow> paging" where
  "enable_paging_bit pg = pg\<lparr>cr0 := cr0 pg OR push_bit 31 1\<rparr>"

definition paging_core_init :: "'c services \<Rightarrow> paging_layout \<Rightarrow> memory \<Rightarrow> u32 \<Rightarrow> u32 \<Rightarrow> paging \<Rightarrow> 'c \<Rightarrow>
    (int \<times> paging \<times> 'c) option" where
  "paging_core_init S L m boot_magic boot_info_ptr pg c =
     (if g_paging_enabled pg then Some (0, pg, c)
      else
        let go = (\<lambda>c1.
          let pg1 = build_identity_tables_x86 L pg;
              pg2 = enable_paging_bit (load_cr3_ptr (pd_base L) pg1);
              pg3 = pg2\<lparr>g_paging_enabled := True\<rparr>
          in Some (0, pg3, klog_info_core S ''paging'' ''enabled (identity 64 MiB, 4 KiB pages)'' c1))
        in if boot_magic = MB2_BOOTLOADER_MAGIC
           then Option.bind (mb2_has_usable_region m boot_info_ptr)
                  (\<lambda>found. if \<not> found then Some (-1, pg, klog_info_core S ''paging'' ''mb2 mmap missing usable region'' c)
                           else go (klog_info_core S ''paging'' ''init path: multiboot2'' c))
           else if boot_magic = FLOPPY_MAGIC then go (klog_info_core S ''paging'' ''init path: floppy fallback'' c)
           else go (klog_info_core S ''paging'' ''init path: generic fallback'' c))"

definition paging_core_is_enabled :: "paging \<Rightarrow> bool" where
  "paging_core_is_enabled pg = g_paging_enabled pg"

text \<open>
  The loop of \<open>paging_core_set_user_range\<close>, over the page numbers between the aligned ends. The end
  is at most the identity limit, so \<open>addr += PAGE_SIZE\<close> cannot wrap.
\<close>

fun set_user_pages :: "bool \<Rightarrow> nat list \<Rightarrow> paging \<Rightarrow> int \<times> paging" where
  "set_user_pages writable [] pg = (0, pg)"
| "set_user_pages writable (page # pages) pg =
     (let pd_index = page div 1024; pt_index = page mod 1024
      in if 16 \<le> pd_index then (-1, pg)
         else let pg1 = pg\<lparr>g_pd := (g_pd pg)(pd_index := g_pd pg pd_index OR 4)\<rparr>;
                  entry = g_pt pg1 pd_index pt_index OR 4;
                  entry1 = (if writable then entry OR 2 else entry AND NOT 2)
              in set_user_pages writable pages
                   (pg1\<lparr>g_pt := (g_pt pg1)(pd_index := (g_pt pg1 pd_index)(pt_index := entry1))\<rparr>))"

definition paging_core_set_user_range :: "u32 \<Rightarrow> u32 \<Rightarrow> bool \<Rightarrow> paging \<Rightarrow> int \<times> paging" where
  "paging_core_set_user_range start end_addr writable pg =
     (if end_addr \<le> start \<or> PAGING_IDENTITY_LIMIT < end_addr then (-1, pg)
      else let start1 = start AND NOT (PAGE_SIZE - 1);
               end1 = (end_addr + PAGE_SIZE - 1) AND NOT (PAGE_SIZE - 1)
           in set_user_pages writable [unat start1 div 4096..<unat end1 div 4096] pg)"

text \<open>The report of a page fault; \<open>panic\<close> does not return.\<close>

definition paging_core_handle_page_fault :: "'c services \<Rightarrow> u32 \<Rightarrow> 'c \<Rightarrow> 'c" where
  "paging_core_handle_page_fault S cr2 c =
     panic_core S ''Unhandled page fault''
       (sv_putc S (CHR 0x0A) (sv_hex_u32 S cr2 (sv_puts S ''[PAGE FAULT] addr='' (sv_set_color S TTY_RED c))))"

subsection \<open>The walk of the processor\<close>

text \<open>
  The word of the tables at a physical address, and the translation of an address as the processor
  makes it when paging is on: the physical address, whether user mode may access the page and
  whether it may be written. \<open>None\<close> is a page fault.
\<close>

definition table_word :: "paging_layout \<Rightarrow> paging \<Rightarrow> u32 \<Rightarrow> u32" where
  "table_word L pg x =
     (let n = unat x; d = unat (pd_base L); t = unat (pt_base L)
      in if d \<le> n \<and> n < d + 4096 then g_pd pg ((n - d) div 4)
         else if t \<le> n \<and> n < t + 65536 then g_pt pg ((n - t) div 4096) ((n - t) mod 4096 div 4)
         else 0)"

definition mmu_walk :: "paging_layout \<Rightarrow> paging \<Rightarrow> u32 \<Rightarrow> (u32 \<times> bool \<times> bool) option" where
  "mmu_walk L pg a =
     (if cr0 pg AND push_bit 31 1 = 0 then Some (a, True, True)
      else
        let pde = table_word L pg ((cr3 pg AND 0xFFFFF000) + 4 * drop_bit 22 a)
        in if pde AND 1 = 0 then None
           else
             let pte = table_word L pg ((pde AND 0xFFFFF000) + 4 * (drop_bit 12 a AND 0x3FF))
             in if pte AND 1 = 0 then None
                else Some ((pte AND 0xFFFFF000) OR (a AND 0xFFF), pde AND pte AND 4 \<noteq> 0, pde AND pte AND 2 \<noteq> 0))"

text \<open>The alignment that the declarations of the tables ask for, and that they do not overlap.\<close>

definition layout_ok :: "paging_layout \<Rightarrow> bool" where
  "layout_ok L \<longleftrightarrow>
     unat (pd_base L) mod 4096 = 0 \<and> unat (pt_base L) mod 4096 = 0 \<and>
     unat (pd_base L) + 4096 \<le> 2 ^ 32 \<and> unat (pt_base L) + 65536 \<le> 2 ^ 32 \<and>
     (unat (pd_base L) + 4096 \<le> unat (pt_base L) \<or> unat (pt_base L) + 65536 \<le> unat (pd_base L))"

definition user_bit :: "paging \<Rightarrow> nat \<Rightarrow> bool" where
  "user_bit pg p \<longleftrightarrow> g_pt pg (p div 1024) (p mod 1024) AND 4 \<noteq> 0"

definition write_bit :: "paging \<Rightarrow> nat \<Rightarrow> bool" where
  "write_bit pg p \<longleftrightarrow> g_pt pg (p div 1024) (p mod 1024) AND 2 \<noteq> 0"

definition identity_map :: "paging_layout \<Rightarrow> paging \<Rightarrow> bool" where
  "identity_map L pg \<longleftrightarrow>
     cr3 pg = pd_base L \<and> cr0 pg AND push_bit 31 1 \<noteq> 0 \<and>
     (\<forall>i < 16. g_pd pg i AND 0xFFFFF003 = (pt_base L + of_nat i * 4096) OR 3) \<and>
     (\<forall>i. 16 \<le> i \<longrightarrow> g_pd pg i = 0) \<and>
     (\<forall>p < 16384. g_pt pg (p div 1024) (p mod 1024) AND 0xFFFFF001 = of_nat p * 4096 OR 1) \<and>
     (\<forall>p < 16384. user_bit pg p \<longrightarrow> g_pd pg (p div 1024) AND 4 \<noteq> 0)"

subsection \<open>Opening pages to user mode\<close>

lemma frame_flags [simp]:
  "(x OR 4) AND (0xFFFFF001 :: u32) = x AND 0xFFFFF001" "(x OR 4) AND (0xFFFFF003 :: u32) = x AND 0xFFFFF003"
  "(x OR 2) AND (0xFFFFF001 :: u32) = x AND 0xFFFFF001" "(x AND - 3) AND (0xFFFFF001 :: u32) = x AND 0xFFFFF001"
  by (simp_all add: bit.conj_disj_distrib2 and.assoc)

lemma flag_bits [simp]:
  "(x OR 4) AND (4 :: u32) = 4" "((x OR 4) OR 2) AND (4 :: u32) = 4" "((x OR 4) AND - 3) AND (4 :: u32) = 4"
  "(x OR 2) AND (2 :: u32) = 2" "(x AND - 3) AND (2 :: u32) = 0"
  by (simp_all add: bit.conj_disj_distrib2 and.assoc)

lemma page_index: "p div 1024 = q div 1024 \<Longrightarrow> p mod 1024 = q mod 1024 \<Longrightarrow> p = (q :: nat)"
  by (metis mult_div_mod_eq)

lemma set_user_pages_step:
  fixes w :: bool and p :: nat and pg :: paging and L :: paging_layout
  defines "e \<equiv> g_pt pg (p div 1024) (p mod 1024) OR 4"
  defines "pg' \<equiv> pg\<lparr>g_pd := (g_pd pg)(p div 1024 := g_pd pg (p div 1024) OR 4),
    g_pt := (g_pt pg)(p div 1024 := (g_pt pg (p div 1024))(p mod 1024 := if w then e OR 2 else e AND NOT 2))\<rparr>"
  assumes "identity_map L pg" "p < 16384"
  shows "identity_map L pg'" "user_bit pg' q \<longleftrightarrow> q = p \<or> user_bit pg q" "write_bit pg' q \<longleftrightarrow> (if q = p then w else write_bit pg q)"
proof -
  have i: "p div 1024 < 16" using assms(4) by simp
  have g: "g_pt pg' (q div 1024) (q mod 1024) =
      (if q = p then if w then e OR 2 else e AND NOT 2 else g_pt pg (q div 1024) (q mod 1024))" for q
  proof (cases "q div 1024 = p div 1024 \<and> q mod 1024 = p mod 1024")
    case True
    then have "q = p" using page_index by blast
    then show ?thesis by (simp add: pg'_def)
  next
    case False
    then have "q \<noteq> p" by blast
    with False show ?thesis by (simp add: pg'_def)
  qed
  show u: "user_bit pg' q \<longleftrightarrow> q = p \<or> user_bit pg q" for q by (simp add: user_bit_def g e_def)
  show "write_bit pg' q \<longleftrightarrow> (if q = p then w else write_bit pg q)" by (simp add: write_bit_def g)
  note i0 = assms(3) [unfolded identity_map_def]
  have "g_pd pg' (q div 1024) AND 4 \<noteq> 0" if "q < 16384" "user_bit pg' q" for q
  proof (cases "q div 1024 = p div 1024")
    case False
    then have "user_bit pg q" using that(2) u [of q] by blast
    then have "g_pd pg (q div 1024) AND 4 \<noteq> 0" using i0 that(1) by blast
    with False show ?thesis by (simp add: pg'_def)
  qed (simp add: pg'_def)
  moreover have "g_pt pg' (q div 1024) (q mod 1024) AND 0xFFFFF001 = of_nat q * 4096 OR 1" if "q < 16384" for q
    using i0 that assms(4) by (cases "q = p") (simp_all add: g e_def)
  moreover have "g_pd pg' j AND 0xFFFFF003 = (pt_base L + of_nat j * 4096) OR 3" if "j < 16" for j
    using i0 that i by (cases "j = p div 1024") (simp_all add: pg'_def)
  moreover have "g_pd pg' j = 0" if "16 \<le> j" for j
    using i0 that i by (cases "j = p div 1024") (simp_all add: pg'_def)
  moreover have "cr3 pg' = pd_base L" "cr0 pg' AND push_bit 31 1 \<noteq> 0" using i0 by (simp_all add: pg'_def)
  ultimately show "identity_map L pg'" unfolding identity_map_def by blast
qed

lemma set_user_pages_spec:
  assumes "identity_map L pg" "set pages \<subseteq> {..<16384}"
  shows "\<exists>pg'. set_user_pages w pages pg = (0, pg') \<and> identity_map L pg' \<and>
    (\<forall>q. (user_bit pg' q \<longleftrightarrow> q \<in> set pages \<or> user_bit pg q) \<and> (write_bit pg' q \<longleftrightarrow> (if q \<in> set pages then w else write_bit pg q)))"
  using assms
proof (induction pages arbitrary: pg)
  case (Cons p pages)
  have p: "p < 16384" using Cons.prems(2) by simp
  then have "\<not> 16 \<le> p div 1024" by simp
  let ?e = "g_pt pg (p div 1024) (p mod 1024) OR 4"
  define pg1 where "pg1 = pg\<lparr>g_pd := (g_pd pg)(p div 1024 := g_pd pg (p div 1024) OR 4),
    g_pt := (g_pt pg)(p div 1024 := (g_pt pg (p div 1024))(p mod 1024 := if w then ?e OR 2 else ?e AND NOT 2))\<rparr>"
  note s = set_user_pages_step [OF Cons.prems(1) p, where w = w, folded pg1_def]
  have e: "set_user_pages w (p # pages) pg = set_user_pages w pages pg1"
    using \<open>\<not> 16 \<le> p div 1024\<close> by (simp add: Let_def pg1_def)
  obtain pg' where "set_user_pages w pages pg1 = (0, pg')" "identity_map L pg'"
    "\<And>q. user_bit pg' q \<longleftrightarrow> q \<in> set pages \<or> user_bit pg1 q" "\<And>q. write_bit pg' q \<longleftrightarrow> (if q \<in> set pages then w else write_bit pg1 q)"
    using Cons.IH [OF s(1)] Cons.prems(2) by auto
  then show ?case unfolding e s by (intro exI [of _ pg']) auto
qed simp

subsection \<open>The walk over identity tables\<close>

lemma frame_mask: "(0xFFFFF000 :: u32) = NOT (mask 12)"
  by (simp add: mask_eq_exp_minus_1)

lemma unat_frame: "unat (x AND (0xFFFFF000 :: u32)) = unat x div 4096 * 4096"
  unfolding frame_mask using and_not_mask_unat [of x 12] by simp

lemma frame_aligned: "unat (x :: u32) mod 4096 = 0 \<Longrightarrow> x AND 0xFFFFF000 = x"
  by (rule word_unat_eq_iff [THEN iffD2], subst unat_frame) (metis add.right_neutral div_mult_mod_eq)

lemma frame_sub:
  assumes "x AND (0xFFFFF000 :: u32) = x"
  shows "x AND 0xFFFFF001 = x" "x AND 0xFFFFF003 = x"
proof -
  have "(x AND 0xFFFFF000) AND 0xFFFFF001 = x AND 0xFFFFF000" "(x AND 0xFFFFF000) AND 0xFFFFF003 = x AND 0xFFFFF000"
    by (simp_all add: and.assoc)
  then show "x AND 0xFFFFF001 = x" "x AND 0xFFFFF003 = x" unfolding assms .
qed

lemma and_full: "x AND (0xFFFFFFFF :: u32) = x"
proof -
  have "(0xFFFFFFFF :: u32) = - 1" by simp
  then show ?thesis by (simp only: and.right_neutral)
qed

lemma and_4_iff: "x AND (4 :: u32) \<noteq> 0 \<longleftrightarrow> bit x 2"
  using and_exp_eq_0_iff_not_bit [of x 2] by simp

lemma user_flag: "pde AND pte AND (4 :: u32) \<noteq> 0 \<longleftrightarrow> pde AND 4 \<noteq> 0 \<and> pte AND 4 \<noteq> 0"
proof -
  have "pde AND pte AND 4 = (pde AND pte) AND (4 :: u32)" by (simp add: and.assoc)
  then show ?thesis by (simp only: and_4_iff bit_and_iff)
qed

lemma unat_page_addr_u32: "p < 16384 \<Longrightarrow> unat (of_nat p * 4096 :: u32) = 4096 * p"
proof -
  assume p: "p < 16384"
  then show ?thesis using p unat_of_nat_u32 [of "4096 * p"] by (simp add: mult.commute)
qed

lemma table_word_pd:
  assumes "layout_ok L" "i < 1024"
  shows "table_word L pg (pd_base L + 4 * of_nat i) = g_pd pg i"
proof -
  have "unat (4 * of_nat i :: u32) = 4 * i" using unat_of_nat_u32 [of "4 * i"] assms(2) by simp
  then have "unat (pd_base L + 4 * of_nat i) = unat (pd_base L) + 4 * i"
    using assms by (subst unat_add_no_wrap) (auto simp: layout_ok_def)
  then show ?thesis using assms(2) by (simp add: table_word_def Let_def)
qed

lemma table_word_pt:
  assumes "layout_ok L" "i < 16" "j < 1024"
  shows "table_word L pg (pt_base L + of_nat i * 4096 + 4 * of_nat j) = g_pt pg i j"
proof -
  have "unat (of_nat i * 4096 + 4 * of_nat j :: u32) = 4096 * i + 4 * j"
    using unat_of_nat_u32 [of "4096 * i + 4 * j"] assms(2,3) by (simp add: mult.commute)
  then have n: "unat (pt_base L + of_nat i * 4096 + 4 * of_nat j) = unat (pt_base L) + (4096 * i + 4 * j)"
    using assms by (simp only: add.assoc, subst unat_add_no_wrap) (auto simp: layout_ok_def)
  have "(4096 * i + 4 * j) div 4096 = i" "(4096 * i + 4 * j) mod 4096 = 4 * j" using assms(3) by auto
  then show ?thesis using assms n by (auto simp: table_word_def Let_def layout_ok_def)
qed

lemma mmu_walk_identity:
  assumes "layout_ok L" "identity_map L pg"
  shows "mmu_walk L pg a =
    (if a < 0x04000000 then Some (a, user_bit pg (unat a div 4096), write_bit pg (unat a div 4096)) else None)"
proof -
  note id = assms(2) [unfolded identity_map_def]
  define i j p where "i = unat a div 4194304" and "j = unat a div 4096 mod 1024" and "p = unat a div 4096"
  have ij: "i = p div 1024" "j = p mod 1024" by (simp_all add: i_def j_def p_def div_mult2_eq [symmetric])
  have i: "i < 1024" using unat_u32_less [of a] by (simp add: i_def)
  have di: "drop_bit 22 a = of_nat i" by (rule word_unat_eq_iff [THEN iffD2])
    (use i in \<open>simp add: unat_drop_bit_eq drop_bit_eq_div i_def unat_of_nat_u32 unat_div\<close>)
  have dj: "drop_bit 12 a AND 0x3FF = of_nat j"
  proof -
    have "drop_bit 12 a AND 0x3FF = take_bit 10 (drop_bit 12 a)" by (simp add: take_bit_eq_mask mask_eq_exp_minus_1)
    then have "unat (drop_bit 12 a AND 0x3FF) = j"
      by (simp add: unsigned_take_bit_eq unat_drop_bit_eq drop_bit_eq_div take_bit_nat_def j_def unat_div)
    then show ?thesis by (auto intro: word_unat_eq_iff [THEN iffD2] simp: unat_of_nat_u32 j_def)
  qed
  have c: "cr3 pg AND 0xFFFFF000 = pd_base L" using id assms(1) by (simp add: frame_aligned layout_ok_def)
  have pde: "table_word L pg ((cr3 pg AND 0xFFFFF000) + 4 * drop_bit 22 a) = g_pd pg i"
    unfolding c di by (rule table_word_pd [OF assms(1) i])
  show ?thesis
  proof (cases "a < 0x04000000")
    case False
    then have "16 \<le> i" by (simp add: word_less_nat_alt i_def)
    then have "g_pd pg i = 0" using id by blast
    with False pde id show ?thesis by (simp add: mmu_walk_def Let_def)
  next
    case True
    then have lt: "unat a < 67108864" by (simp add: word_less_nat_alt)
    then have i16: "i < 16" and p: "p < 16384" by (simp_all add: i_def p_def)
    have b: "g_pd pg i AND 0xFFFFF003 = (pt_base L + of_nat i * 4096) OR 3" using id i16 by blast
    have t: "unat (pt_base L + of_nat i * 4096) = unat (pt_base L) + 4096 * i"
      using assms(1) i16 unat_page_addr_u32 [of i] by (subst unat_add_no_wrap) (auto simp: layout_ok_def)
    have fr: "(pt_base L + of_nat i * 4096) AND 0xFFFFF000 = pt_base L + of_nat i * 4096"
      by (rule frame_aligned) (use t assms(1) in \<open>simp add: layout_ok_def\<close>)
    have m: "g_pd pg i AND k = (g_pd pg i AND 0xFFFFF003) AND k" if "0xFFFFF003 AND k = k" for k
      using that by (simp add: and.assoc)
    have p1: "g_pd pg i AND 1 = 1" using m [of 1] by (simp add: b bit.conj_disj_distrib2)
    have p2: "g_pd pg i AND 2 = 2" using m [of 2] by (simp add: b bit.conj_disj_distrib2)
    have p3: "g_pd pg i AND 0xFFFFF000 = pt_base L + of_nat i * 4096"
      using m [of "0xFFFFF000"] fr by (simp add: b bit.conj_disj_distrib2)
    have pte: "table_word L pg ((g_pd pg i AND 0xFFFFF000) + 4 * (drop_bit 12 a AND 0x3FF)) = g_pt pg i j"
      unfolding p3 dj by (rule table_word_pt [OF assms(1) i16]) (simp add: j_def)
    have e: "g_pt pg i j AND 0xFFFFF001 = of_nat p * 4096 OR 1" using id p by (simp add: ij)
    have n: "g_pt pg i j AND k = (g_pt pg i j AND 0xFFFFF001) AND k" if "0xFFFFF001 AND k = k" for k
      using that by (simp add: and.assoc)
    have fp: "of_nat p * 4096 AND 0xFFFFF000 = (of_nat p * 4096 :: u32)"
      by (rule frame_aligned) (use unat_page_addr_u32 [OF p] in simp)
    have q1: "g_pt pg i j AND 1 = 1" using n [of 1] by (simp add: e bit.conj_disj_distrib2)
    have "g_pt pg i j AND 0xFFFFF000 = of_nat p * 4096" using n [of "0xFFFFF000"] fp by (simp add: e bit.conj_disj_distrib2)
    also have "\<dots> = a AND 0xFFFFF000"
      by (rule word_unat_eq_iff [THEN iffD2]) (use unat_page_addr_u32 [OF p] unat_frame [of a] in \<open>simp add: p_def\<close>)
    finally have q2: "(g_pt pg i j AND 0xFFFFF000) OR (a AND 0xFFF) = a"
      by (simp add: bit.conj_disj_distrib [symmetric] and_full)
    have u: "g_pd pg i AND g_pt pg i j AND 4 \<noteq> 0 \<longleftrightarrow> user_bit pg p"
      using id p by (auto simp: user_flag user_bit_def ij)
    have w: "g_pd pg i AND g_pt pg i j AND 2 = g_pt pg i j AND 2" by (simp add: and.left_commute [of "g_pd pg i"] p2)
    show ?thesis
      using True id pde pte p1 q1 q2 u w by (simp add: mmu_walk_def Let_def write_bit_def ij p_def [symmetric])
  qed
qed

lemma build_identity_map:
  assumes "layout_ok L" "pg' = (enable_paging_bit (load_cr3_ptr (pd_base L) (build_identity_tables_x86 L pg)))\<lparr>g_paging_enabled := True\<rparr>"
  shows "identity_map L pg'" "p < 16384 \<Longrightarrow> \<not> user_bit pg' p \<and> write_bit pg' p"
proof -
  let ?f = "\<lambda>p. (of_nat p * 4096 AND 0xFFFFF000) OR (3 :: u32)"
  have pt: "g_pt pg' (p div 1024) (p mod 1024) = ?f p" for p
    by (simp add: assms(2) enable_paging_bit_def load_cr3_ptr_def build_identity_tables_x86_def flip: of_nat_mult of_nat_add)
  have pd: "g_pd pg' i = (if i < 16 then ((pt_base L + of_nat i * 4096) AND 0xFFFFF000) OR 3 else 0)" for i
    by (simp add: assms(2) enable_paging_bit_def load_cr3_ptr_def build_identity_tables_x86_def)
  have ub: "\<not> user_bit pg' p" and wb: "write_bit pg' p" for p
    by (simp_all add: user_bit_def write_bit_def pt bit.conj_disj_distrib2 and.assoc)
  then show "\<not> user_bit pg' p \<and> write_bit pg' p" by blast
  have "g_pd pg' i AND 0xFFFFF003 = (pt_base L + of_nat i * 4096) OR 3" if "i < 16" for i
  proof -
    have "unat (pt_base L + of_nat i * 4096) = unat (pt_base L) + 4096 * i"
      using assms(1) that unat_page_addr_u32 [of i] by (subst unat_add_no_wrap) (auto simp: layout_ok_def)
    then have "unat (pt_base L + of_nat i * 4096) mod 4096 = 0" using assms(1) by (simp add: layout_ok_def)
    note f = frame_aligned [OF this]
    from f frame_sub [OF f] show ?thesis using that by (simp add: pd bit.conj_disj_distrib2)
  qed
  moreover have "g_pt pg' (p div 1024) (p mod 1024) AND 0xFFFFF001 = of_nat p * 4096 OR 1" if "p < 16384" for p
  proof -
    have "unat (of_nat p * 4096 :: u32) mod 4096 = 0" using unat_page_addr_u32 [OF that] by simp
    note f = frame_aligned [OF this]
    from f frame_sub [OF f] show ?thesis by (simp add: pt bit.conj_disj_distrib2)
  qed
  moreover have "cr3 pg' = pd_base L" "cr0 pg' AND push_bit 31 1 \<noteq> 0"
    by (simp_all add: assms(2) enable_paging_bit_def load_cr3_ptr_def bit.conj_disj_distrib2)
  ultimately show "identity_map L pg'" using ub pd by (simp add: identity_map_def)
qed

subsection \<open>What user mode can reach\<close>

text \<open>A range that \<open>paging_core_set_user_range\<close> accepts touches the page.\<close>

definition touches :: "u32 \<Rightarrow> u32 \<Rightarrow> nat \<Rightarrow> bool" where
  "touches s e p \<longleftrightarrow> s < e \<and> e \<le> 0x04000000 \<and> unat s < 4096 * p + 4096 \<and> 4096 * p < unat e"

text \<open>User access and write access of a page after a sequence of calls: the last range decides.\<close>

definition page_rights :: "(u32 \<times> u32 \<times> bool) list \<Rightarrow> nat \<Rightarrow> bool \<times> bool" where
  "page_rights rs p = fold (\<lambda>(s, e, w) r. if touches s e p then (True, w) else r) rs (False, True)"

definition open_ranges :: "(u32 \<times> u32 \<times> bool) list \<Rightarrow> paging \<Rightarrow> paging" where
  "open_ranges rs pg = fold (\<lambda>(s, e, w) pg. snd (paging_core_set_user_range s e w pg)) rs pg"

lemma set_user_range_spec:
  assumes "identity_map L pg"
  shows "\<exists>pg'. paging_core_set_user_range s e w pg = (if s < e \<and> e \<le> 0x04000000 then 0 else -1, pg') \<and> identity_map L pg' \<and>
    (\<forall>p. (user_bit pg' p, write_bit pg' p) = (if touches s e p then (True, w) else (user_bit pg p, write_bit pg p)))"
proof (cases "s < e \<and> e \<le> 0x04000000")
  case False
  then show ?thesis using assms by (auto simp: paging_core_set_user_range_def touches_def not_less not_le)
next
  case True
  have e: "unat e \<le> 67108864" using True by (simp add: word_le_nat_alt)
  let ?s = "s AND NOT (PAGE_SIZE - 1)" and ?e = "(e + PAGE_SIZE - 1) AND NOT (PAGE_SIZE - 1)"
  have us: "unat ?s div 4096 = unat s div 4096" using unat_align_down [of s] by (simp add: mm_align_down_u32_def)
  have ue: "unat ?e div 4096 = (unat e + 4095) div 4096" using unat_align_up [of e] e by (simp add: mm_align_up_u32_def)
  let ?ps = "[unat s div 4096..<(unat e + 4095) div 4096]"
  have sub: "set ?ps \<subseteq> {..<16384}" using e by auto
  have t: "p \<in> set ?ps \<longleftrightarrow> touches s e p" for p
  proof -
    have "unat s div 4096 \<le> p \<longleftrightarrow> unat s < 4096 * p + 4096" by linarith
    moreover have "p < (unat e + 4095) div 4096 \<longleftrightarrow> 4096 * p < unat e" by linarith
    ultimately show ?thesis using True by (simp add: touches_def)
  qed
  have eq: "paging_core_set_user_range s e w pg = set_user_pages w ?ps pg"
  proof -
    have "\<not> (e \<le> s \<or> PAGING_IDENTITY_LIMIT < e)" using True by (simp add: not_le not_less)
    then show ?thesis using us ue by (simp add: paging_core_set_user_range_def Let_def)
  qed
  obtain pg' where "set_user_pages w ?ps pg = (0, pg')" "identity_map L pg'"
    "\<And>q. user_bit pg' q \<longleftrightarrow> q \<in> set ?ps \<or> user_bit pg q" "\<And>q. write_bit pg' q \<longleftrightarrow> (if q \<in> set ?ps then w else write_bit pg q)"
    using set_user_pages_spec [OF assms sub, of w] by blast
  then show ?thesis unfolding eq t using True by auto
qed

lemma open_ranges_spec:
  assumes "identity_map L pg"
  shows "identity_map L (open_ranges rs pg) \<and>
    (user_bit (open_ranges rs pg) p, write_bit (open_ranges rs pg) p) =
      fold (\<lambda>(s, e, w) r. if touches s e p then (True, w) else r) rs (user_bit pg p, write_bit pg p)"
  using assms
proof (induction rs arbitrary: pg)
  case (Cons r rs)
  obtain s e w where r: "r = (s, e, w)" by (cases r)
  obtain pg' where pg': "snd (paging_core_set_user_range s e w pg) = pg'" "identity_map L pg'"
    "(user_bit pg' p, write_bit pg' p) = (if touches s e p then (True, w) else (user_bit pg p, write_bit pg p))"
    using set_user_range_spec [OF Cons.prems(1), of s e w] by (metis snd_conv)
  have "open_ranges (r # rs) pg = open_ranges rs pg'" by (simp add: open_ranges_def r pg'(1))
  then show ?case using Cons.IH [OF pg'(2)] unfolding pg'(3) by (simp add: r)
qed (simp add: open_ranges_def)

text \<open>
  C8: Once \<open>paging_core_init\<close> has succeeded, and after any calls of \<open>paging_core_set_user_range\<close>,
  the processor translates every address below 64 MiB to itself and faults on every other. User mode
  can reach exactly the pages that an accepted range touches, and a page can be written unless the
  last accepted range that touches it was opened for reading only.
\<close>

theorem paging_user_access:
  assumes "layout_ok L" "\<not> g_paging_enabled pg" "paging_core_init S L m magic info pg c = Some (0, pg1, c1)"
  shows "mmu_walk L (open_ranges rs pg1) a =
    (if a < 0x04000000 then Some (a, page_rights rs (unat a div 4096)) else None)"
proof -
  have pg1: "pg1 = (enable_paging_bit (load_cr3_ptr (pd_base L) (build_identity_tables_x86 L pg)))\<lparr>g_paging_enabled := True\<rparr>"
    using assms(2,3) by (auto simp: paging_core_init_def Let_def bind_eq_Some_conv split: if_splits)
  note b = build_identity_map [OF assms(1) pg1]
  have o: "identity_map L (open_ranges rs pg1)" using open_ranges_spec [OF b(1)] by blast
  show ?thesis
  proof (cases "a < 0x04000000")
    case True
    then have "unat a div 4096 < 16384" by (simp add: word_less_nat_alt)
    from b(2) [OF this] open_ranges_spec [OF b(1), of rs "unat a div 4096"] show ?thesis
      using mmu_walk_identity [OF assms(1) o, of a] True by (simp add: page_rights_def)
  qed (simp add: mmu_walk_identity [OF assms(1) o])
qed

text \<open>User mode gets the page from 0x70000 for writing, and 0x80000 is out of its reach.\<close>

theorem paging_user_access_witness:
  "\<forall>(S :: unit services) m. \<exists>pg1.
     map (mmu_walk \<lparr>pd_base = 0x200000, pt_base = 0x210000\<rparr> (open_ranges [(0x60000, 0x60010, False), (0x70000, 0x80000, True)] pg1))
       [0x70004, 0x60004, 0x80000, 0x80000000] =
     [Some (0x70004, True, True), Some (0x60004, True, False), Some (0x80000, False, True), None]"
proof (intro allI)
  fix S :: "unit services" and m :: memory
  let ?L = "\<lparr>pd_base = 0x200000, pt_base = 0x210000\<rparr> :: paging_layout"
  let ?pg = "\<lparr>g_pd = (\<lambda>_. 0), g_pt = (\<lambda>_ _. 0), g_paging_enabled = False, cr0 = 1, cr3 = 0\<rparr>"
  have L: "layout_ok ?L" by (simp add: layout_ok_def)
  obtain pg1 c1 where i: "paging_core_init S ?L m FLOPPY_MAGIC 0 ?pg () = Some (0, pg1, c1)"
    by (simp add: paging_core_init_def Let_def)
  note t = paging_user_access [OF L _ i]
  show "\<exists>pg1. map (mmu_walk ?L (open_ranges [(0x60000, 0x60010, False), (0x70000, 0x80000, True)] pg1))
       [0x70004, 0x60004, 0x80000, 0x80000000] =
     [Some (0x70004, True, True), Some (0x60004, True, False), Some (0x80000, False, True), None]"
    by (rule exI [of _ pg1]) (simp add: t page_rights_def touches_def)
qed

end
