(* ===== verification/Mm_Boot.thy ===== *)
theory Mm_Boot
  imports Mm_Alloc Paging
begin

text \<open>
  The start of the memory manager, \<open>mm_core_init\<close> of \<open>src/src/kernel/core/mm/mm_core.c\<close>: the walk
  over the multiboot2 boot information that frees the usable pages and reserves the kernel, the
  boot information and the modules. The boot information lies in memory as the boot loader left it;
  the ends of the kernel image come from the linker and are parameters. A walk need not end on
  arbitrary memory, so it returns an \<open>option\<close>.
\<close>

subsection \<open>The walks\<close>

abbreviation "MM_MB2_BOOTLOADER_MAGIC \<equiv> 0x36D76289 :: u32"
abbreviation "MM_FLOPPY_MAGIC \<equiv> 0x53314D47 :: u32"

text \<open>One entry of the memory map; \<open>end64\<close> is cut to 32 bits when it is passed on.\<close>

definition mm_mark_entry :: "memory \<Rightarrow> u32 \<Rightarrow> mm_state \<Rightarrow> mm_state" where
  "mm_mark_entry m entry s =
     (let addr = u64_at m entry; len = u64_at m (entry + 8)
      in if u32_at m (entry + 16) = 1 \<and> addr < 0x100000000
         then let end64 = addr + len;
                  end1 = (if 0x100000000 < end64 then 0x100000000 else end64)
              in mm_mark_range_free (ucast addr) (ucast end1) s
         else s)"

partial_function (option) mm_mark_entries :: "memory \<Rightarrow> u32 \<Rightarrow> u32 \<Rightarrow> u32 \<Rightarrow> mm_state \<Rightarrow> mm_state option" where
  "mm_mark_entries m entry_ptr mmap_end entry_size s =
     (if entry_ptr + 24 \<le> mmap_end
      then mm_mark_entries m (entry_ptr + entry_size) mmap_end entry_size (mm_mark_entry m entry_ptr s)
      else Some s)"

partial_function (option) mm_usable_tags :: "memory \<Rightarrow> u32 \<Rightarrow> u32 \<Rightarrow> mm_state \<Rightarrow> mm_state option" where
  "mm_usable_tags m tag end_ptr s =
     (if tag < end_ptr
      then let type = u32_at m tag; sz = u32_at m (tag + 4)
           in if type = 0 \<or> sz < 8 then Some s
              else if type = 6
              then if u32_at m (tag + 8) < 24 then Some s
                   else Option.bind (mm_mark_entries m (tag + 16) (tag + sz) (u32_at m (tag + 8)) s)
                          (\<lambda>s1. mm_usable_tags m (tag + mm_mb2_align8 sz) end_ptr s1)
              else mm_usable_tags m (tag + mm_mb2_align8 sz) end_ptr s
      else Some s)"

definition mm_mark_mb2_usable :: "memory \<Rightarrow> u32 \<Rightarrow> mm_state \<Rightarrow> mm_state option" where
  "mm_mark_mb2_usable m boot_info_ptr s =
     mm_usable_tags m (boot_info_ptr + 8) (boot_info_ptr + u32_at m boot_info_ptr) s"

definition mm_reserve_tag :: "memory \<Rightarrow> u32 \<Rightarrow> mm_state \<Rightarrow> mm_state" where
  "mm_reserve_tag m tag s =
     (if u32_at m tag = 3 \<and> 16 \<le> u32_at m (tag + 4)
      then let mod_start = u32_at m (tag + 8); mod_end = u32_at m (tag + 12)
           in if mod_start < mod_end then mm_mark_range_used mod_start mod_end s else s
      else s)"

partial_function (option) mm_reserve_tags :: "memory \<Rightarrow> u32 \<Rightarrow> u32 \<Rightarrow> mm_state \<Rightarrow> mm_state option" where
  "mm_reserve_tags m tag end_ptr s =
     (if tag < end_ptr
      then let type = u32_at m tag; sz = u32_at m (tag + 4)
           in if type = 0 \<or> sz < 8 then Some s
              else mm_reserve_tags m (tag + mm_mb2_align8 sz) end_ptr (mm_reserve_tag m tag s)
      else Some s)"

definition mm_reserve_mb2_regions :: "memory \<Rightarrow> u32 \<Rightarrow> mm_state \<Rightarrow> mm_state option" where
  "mm_reserve_mb2_regions m boot_info_ptr s =
     (let end_ptr = boot_info_ptr + u32_at m boot_info_ptr
      in mm_reserve_tags m (boot_info_ptr + 8) end_ptr (mm_mark_range_used boot_info_ptr end_ptr s))"

definition mm_reserve_common :: "memory \<Rightarrow> u32 \<times> u32 \<Rightarrow> u32 \<Rightarrow> u32 \<Rightarrow> mm_state \<Rightarrow> mm_state option" where
  "mm_reserve_common m kimg boot_magic boot_info_ptr s =
     (let s1 = mm_mark_range_used (fst kimg) (snd kimg) (mm_mark_range_used 0 MM_LOW_MEMORY_LIMIT s)
      in if boot_magic = MM_MB2_BOOTLOADER_MAGIC \<and> boot_info_ptr \<noteq> 0
         then mm_reserve_mb2_regions m boot_info_ptr s1
         else if boot_magic = MM_FLOPPY_MAGIC \<and> boot_info_ptr \<noteq> 0
         then Some (mm_mark_range_used boot_info_ptr (boot_info_ptr + MM_PAGE_SIZE) s1)
         else Some s1)"

text \<open>\<open>kimg\<close> is the pair of \<open>__kernel_start\<close> and \<open>__kernel_end\<close>.\<close>

definition mm_core_init :: "paging \<Rightarrow> memory \<Rightarrow> u32 \<times> u32 \<Rightarrow> u32 \<Rightarrow> u32 \<Rightarrow> mm_state \<Rightarrow> (int \<times> mm_state) option" where
  "mm_core_init pg m kimg boot_magic boot_info_ptr s =
     (if g_initialized s then Some (0, s)
      else if \<not> paging_core_is_enabled pg \<or> paging_core_identity_limit < MM_PAGE_SIZE then Some (-1, s)
      else
        let s1 = mm_clear_pages s
        in Option.bind
             (if boot_magic = MM_MB2_BOOTLOADER_MAGIC \<and> boot_info_ptr \<noteq> 0 then mm_mark_mb2_usable m boot_info_ptr s1
              else Some (mm_mark_range_free MM_LOW_MEMORY_LIMIT paging_core_identity_limit s1))
             (\<lambda>s2. Option.bind (mm_reserve_common m kimg boot_magic boot_info_ptr s2)
                (\<lambda>s3. Some (0, (mm_count_total_pages s3)\<lparr>g_heap_head := 0, g_heap_tail := 0,
                                g_heap_total_bytes := 0, g_initialized := True\<rparr>))))"

text \<open>The statistics on the console.\<close>

definition mm_core_print_stats :: "'c services \<Rightarrow> mm_state \<Rightarrow> 'c \<Rightarrow> 'c option" where
  "mm_core_print_stats S s c =
     (case mm_core_get_stats s of
        None \<Rightarrow> None
      | Some st \<Rightarrow>
          Some (fold (\<lambda>(label, value, last) c.
                   let c1 = sv_hex_u32 S value (sv_puts S label c)
                   in if last then sv_putc S (CHR 0x0A) c1 else c1)
            [(''mm pages total='', total_pages st, False), ('' used='', used_pages st, False), ('' free='', free_pages st, True),
             (''mm heap total='', heap_total_bytes st, False), ('' used='', heap_used_bytes st, False),
             ('' free='', heap_free_bytes st, False), ('' largest='', heap_largest_free_bytes st, True)] c))"

subsection \<open>Boot information\<close>

text \<open>
  The addresses of the tags and of the entries of a memory map, in order. \<open>None\<close> marks sizes that
  would carry the walk past the end of the address space.
\<close>

lemma unat_u32_bound: "unat (x :: u32) < 4294967296"
  using unat_u32_less [of x] by simp

function mb2_walk :: "memory \<Rightarrow> u32 \<Rightarrow> u32 \<Rightarrow> u32 list option" where
  "mb2_walk m e t =
     (if \<not> t < e \<or> u32_at m t = 0 \<or> u32_at m (t + 4) < 8 then Some []
      else let n = t + mm_mb2_align8 (u32_at m (t + 4))
           in if n \<le> t then None else map_option ((#) t) (mb2_walk m e n))"
  by pat_completeness auto
termination
  by (relation "measure (\<lambda>(m, e, t). 2 ^ 32 - unat t)") (auto simp: word_le_nat_alt not_le intro!: diff_less_mono2 unat_u32_bound)

function mmap_walk :: "memory \<Rightarrow> u32 \<Rightarrow> u32 \<Rightarrow> u32 \<Rightarrow> u32 list option" where
  "mmap_walk m e esz p =
     (if p + 24 \<le> e
      then if p + esz \<le> p then None else map_option ((#) p) (mmap_walk m e esz (p + esz))
      else Some [])"
  by pat_completeness auto
termination
  by (relation "measure (\<lambda>(m, e, esz, p). 2 ^ 32 - unat p)") (auto simp: word_le_nat_alt not_le intro!: diff_less_mono2 unat_u32_bound)

declare mb2_walk.simps [simp del] mmap_walk.simps [simp del]

definition tag_entries :: "memory \<Rightarrow> u32 \<Rightarrow> u32 list option" where
  "tag_entries m t =
     (if u32_at m t = 6
      then if u32_at m (t + 8) < 24 then None else mmap_walk m (t + u32_at m (t + 4)) (u32_at m (t + 8)) (t + 16)
      else Some [])"

definition boot_info :: "memory \<Rightarrow> u32 \<Rightarrow> u32 list \<Rightarrow> bool" where
  "boot_info m info tags \<longleftrightarrow>
     mb2_walk m (info + u32_at m info) (info + 8) = Some tags \<and> list_all (\<lambda>t. tag_entries m t \<noteq> None) tags"

text \<open>
  The memory map says that the page lies completely in usable memory, and the region of an entry
  reaches the end of the 32-bit address space; addresses and lengths are numbers without a width.
\<close>

definition region_covers :: "memory \<Rightarrow> u32 \<Rightarrow> nat \<Rightarrow> bool" where
  "region_covers m e p \<longleftrightarrow>
     u32_at m (e + 16) = 1 \<and> unat (u64_at m e) \<le> 4096 * p \<and>
     4096 * p + 4096 \<le> unat (u64_at m e) + unat (u64_at m (e + 8))"

definition reaches_4g :: "memory \<Rightarrow> u32 \<Rightarrow> bool" where
  "reaches_4g m e \<longleftrightarrow> 2 ^ 32 \<le> unat (u64_at m e) + unat (u64_at m (e + 8))"

definition range_touches :: "u32 \<Rightarrow> u32 \<Rightarrow> nat \<Rightarrow> bool" where
  "range_touches s e p \<longleftrightarrow> unat s < 4096 * p + 4096 \<and> 4096 * p < unat e"

definition module_touches :: "memory \<Rightarrow> u32 \<Rightarrow> nat \<Rightarrow> bool" where
  "module_touches m t p \<longleftrightarrow>
     u32_at m t = 3 \<and> 16 \<le> u32_at m (t + 4) \<and> u32_at m (t + 8) < u32_at m (t + 12) \<and>
     range_touches (u32_at m (t + 8)) (u32_at m (t + 12)) p"

lemma mark_entries_walk:
  "mmap_walk m e esz p = Some es \<Longrightarrow> mm_mark_entries m p e esz s = Some (fold (mm_mark_entry m) es s)"
proof (induction m e esz p arbitrary: es s rule: mmap_walk.induct)
  case (1 m e esz p)
  show ?case
  proof (cases "p + 24 \<le> e")
    case True
    then obtain es' where "\<not> p + esz \<le> p" "mmap_walk m e esz (p + esz) = Some es'" "es = p # es'"
      using "1.prems" by (subst (asm) mmap_walk.simps) (auto split: if_splits)
    with True "1.IH" [of es'] show ?thesis by (subst mm_mark_entries.simps) simp
  next
    case False
    then show ?thesis using "1.prems" by (subst mm_mark_entries.simps, subst (asm) mmap_walk.simps) simp
  qed
qed

lemma mb2_walk_cases:
  assumes "mb2_walk m e t = Some tags"
  obtains "\<not> t < e \<or> u32_at m t = 0 \<or> u32_at m (t + 4) < 8" "tags = []"
  | tags' where "t < e" "u32_at m t \<noteq> 0" "\<not> u32_at m (t + 4) < 8" "tags = t # tags'"
      "mb2_walk m e (t + mm_mb2_align8 (u32_at m (t + 4))) = Some tags'"
  using assms by (subst (asm) mb2_walk.simps) (auto simp: Let_def split: if_splits)

lemma usable_tags_walk:
  "mb2_walk m e t = Some tags \<Longrightarrow> list_all (\<lambda>t. tag_entries m t \<noteq> None) tags \<Longrightarrow>
   mm_usable_tags m t e s = Some (fold (\<lambda>t. fold (mm_mark_entry m) (the (tag_entries m t))) tags s)"
proof (induction tags arbitrary: t s)
  case Nil
  from Nil.prems(1) show ?case by (cases rule: mb2_walk_cases) (subst mm_usable_tags.simps, auto simp: Let_def)
next
  case (Cons t' tags)
  from Cons.prems(1) have c: "t < e" "u32_at m t \<noteq> 0" "\<not> u32_at m (t + 4) < 8" "t' = t"
    "mb2_walk m e (t + mm_mb2_align8 (u32_at m (t + 4))) = Some tags" by (auto elim: mb2_walk_cases)
  obtain es where es: "tag_entries m t = Some es" using Cons.prems(2) c(4) by auto
  have step: "mm_usable_tags m t e s = mm_usable_tags m (t + mm_mb2_align8 (u32_at m (t + 4))) e (fold (mm_mark_entry m) es s)"
    using c es mark_entries_walk [of m "t + u32_at m (t + 4)" "u32_at m (t + 8)" "t + 16" es s]
    by (subst mm_usable_tags.simps) (auto simp: Let_def tag_entries_def split: if_splits)
  show ?case unfolding step using Cons.IH [OF c(5)] Cons.prems(2) c(4) es by simp
qed

lemma reserve_tags_walk:
  "mb2_walk m e t = Some tags \<Longrightarrow> mm_reserve_tags m t e s = Some (fold (mm_reserve_tag m) tags s)"
proof (induction tags arbitrary: t s)
  case Nil
  from Nil.prems(1) show ?case by (cases rule: mb2_walk_cases) (subst mm_reserve_tags.simps, auto simp: Let_def)
next
  case (Cons t' tags)
  from Cons.prems(1) have c: "t < e" "u32_at m t \<noteq> 0" "\<not> u32_at m (t + 4) < 8" "t' = t"
    "mb2_walk m e (t + mm_mb2_align8 (u32_at m (t + 4))) = Some tags" by (auto elim: mb2_walk_cases)
  then show ?case using Cons.IH [OF c(5)] by (subst mm_reserve_tags.simps) (simp add: Let_def)
qed

subsection \<open>The page map after the walks\<close>

lemma unat_ucast_low: "unat (x :: u64) < 2 ^ 32 \<Longrightarrow> unat (ucast x :: u32) = unat x"
  by (simp add: unsigned_ucast_eq take_bit_eq_mod)

text \<open>The end of a region as \<open>mm_mark_mb2_usable\<close> passes it on.\<close>

lemma region_end:
  fixes a n :: u64
  assumes "unat a < 2 ^ 32" "fin = (if 0x100000000 < a + n then 0x100000000 else a + n)"
  shows "unat a + unat n < 2 ^ 32 \<Longrightarrow> unat (ucast fin :: u32) = unat a + unat n"
    "2 ^ 32 \<le> unat a + unat n \<Longrightarrow> unat (ucast fin :: u32) \<le> unat a"
proof -
  have sum: "unat (a + n) = unat a + unat n" if "unat a + unat n < 2 ^ 64"
    using that by (subst unat_add_lem [THEN iffD1]) simp_all
  show "unat (ucast fin :: u32) = unat a + unat n" if small: "unat a + unat n < 2 ^ 32"
  proof -
    have u: "unat (a + n) = unat a + unat n" using small by (intro sum) simp
    then have "\<not> 0x100000000 < a + n" using small by (simp add: word_less_nat_alt)
    then show ?thesis using u small assms(2) by (subst unat_ucast_low) simp_all
  qed
  show "unat (ucast fin :: u32) \<le> unat a" if big: "2 ^ 32 \<le> unat a + unat n"
  proof (cases "unat a + unat n < 2 ^ 64")
    case True
    then have "0x100000000 \<le> a + n" using big by (simp add: word_le_nat_alt sum)
    then have "fin = 0x100000000" using assms(2) by (auto simp: not_less)
    then show ?thesis by simp
  next
    case False
    have lt: "unat n < 2 ^ 64" using unsigned_less [of n] by simp
    have "unat (a + n) = (unat a + unat n) mod 2 ^ 64" by (simp add: unat_word_ariths take_bit_eq_mod)
    also have "\<dots> = unat a + unat n - 2 ^ 64"
      using False lt assms(1) by (simp add: mod_if)
    finally have u: "unat (a + n) \<le> unat a" using lt by simp
    then have "\<not> 0x100000000 < a + n" using assms(1) by (simp add: word_less_nat_alt)
    then show ?thesis using u assms by (subst unat_ucast_low) simp_all
  qed
qed

lemma mark_entry_page_used:
  "g_page_used (mm_mark_entry m e s) p \<longleftrightarrow>
   g_page_used s p \<and> \<not> (p < MM_MAX_PAGES \<and> region_covers m e p \<and> \<not> reaches_4g m e)"
proof (cases "u64_at m e < 0x100000000")
  case True
  let ?a = "u64_at m e" and ?n = "u64_at m (e + 8)"
  define fin where "fin = (if 0x100000000 < ?a + ?n then 0x100000000 else ?a + ?n)"
  have a: "unat ?a < 2 ^ 32" using True by (simp add: word_less_nat_alt)
  note en = region_end [OF a fin_def]
  have iff: "unat (ucast ?a :: u32) \<le> 4096 * p \<and> 4096 * p + 4096 \<le> unat (ucast fin :: u32) \<longleftrightarrow>
    unat ?a \<le> 4096 * p \<and> 4096 * p + 4096 \<le> unat ?a + unat ?n \<and> \<not> reaches_4g m e"
    using en unfolding reaches_4g_def unat_ucast_low [OF a] by (cases "unat ?a + unat ?n < 2 ^ 32") auto
  have "mm_mark_entry m e s = (if u32_at m (e + 16) = 1 then mm_mark_range_free (ucast ?a) (ucast fin) s else s)"
    using True by (simp add: mm_mark_entry_def Let_def fin_def)
  then show ?thesis using iff by (auto simp only: mark_range_free_page_used region_covers_def split: if_splits)
next
  case False
  then have "2 ^ 32 \<le> unat (u64_at m e)" by (simp add: word_less_nat_alt)
  then have "\<not> region_covers m e p" if "p < MM_MAX_PAGES" using that by (simp add: region_covers_def)
  then show ?thesis using False by (auto simp: mm_mark_entry_def Let_def)
qed

lemma reserve_tag_page_used:
  "g_page_used (mm_reserve_tag m t s) p \<longleftrightarrow> g_page_used s p \<or> (p < MM_MAX_PAGES \<and> module_touches m t p)"
  by (auto simp: mm_reserve_tag_def Let_def mark_range_used_page_used module_touches_def range_touches_def)

lemma mark_entry_frame [simp]:
  "heap_mem (mm_mark_entry m e s) = heap_mem s" "heap_mem (mm_reserve_tag m e s) = heap_mem s"
  by (simp_all add: mm_mark_entry_def mm_reserve_tag_def Let_def)

lemma page_accounting_boot_step:
  "page_accounting s \<Longrightarrow> page_accounting (mm_mark_entry m e s)" "page_accounting s \<Longrightarrow> page_accounting (mm_reserve_tag m e s)"
  by (simp_all add: mm_mark_entry_def mm_reserve_tag_def Let_def page_accounting_mark_range)

lemma mark_entries_fold:
  "g_page_used (fold (mm_mark_entry m) es s) p \<longleftrightarrow> g_page_used s p \<and> \<not> (p < MM_MAX_PAGES \<and> list_ex (\<lambda>e. region_covers m e p \<and> \<not> reaches_4g m e) es)"
  by (induction es arbitrary: s) (auto simp: mark_entry_page_used)

lemma usable_tags_fold:
  "g_page_used (fold (\<lambda>t. fold (mm_mark_entry m) (E t)) tags s) p \<longleftrightarrow>
   g_page_used s p \<and> \<not> (p < MM_MAX_PAGES \<and> list_ex (\<lambda>t. list_ex (\<lambda>e. region_covers m e p \<and> \<not> reaches_4g m e) (E t)) tags)"
  by (induction tags arbitrary: s) (auto simp: mark_entries_fold)

lemma reserve_tags_fold:
  "g_page_used (fold (mm_reserve_tag m) tags s) p \<longleftrightarrow>
   g_page_used s p \<or> (p < MM_MAX_PAGES \<and> list_ex (\<lambda>t. module_touches m t p) tags)"
  by (induction tags arbitrary: s) (auto simp: reserve_tag_page_used)

lemma page_accounting_boot_fold:
  "page_accounting s \<Longrightarrow> page_accounting (fold (mm_mark_entry m) es s)"
  "page_accounting s \<Longrightarrow> page_accounting (fold (\<lambda>t. fold (mm_mark_entry m) (E t)) tags s)"
  "page_accounting s \<Longrightarrow> page_accounting (fold (mm_reserve_tag m) tags s)"
proof -
  show e: "page_accounting s \<Longrightarrow> page_accounting (fold (mm_mark_entry m) es s)" for es s
    by (induction es arbitrary: s) (simp_all add: page_accounting_boot_step)
  show "page_accounting s \<Longrightarrow> page_accounting (fold (\<lambda>t. fold (mm_mark_entry m) (E t)) tags s)"
    by (induction tags arbitrary: s) (simp_all add: e)
  show "page_accounting s \<Longrightarrow> page_accounting (fold (mm_reserve_tag m) tags s)"
    by (induction tags arbitrary: s) (simp_all add: page_accounting_boot_step)
qed

lemma count_total_pages:
  assumes "page_accounting s"
  shows "g_total_pages (mm_count_total_pages s) = 16384"
proof -
  have "length (filter (\<lambda>i. \<not> g_page_used s i) [0..<MM_MAX_PAGES]) = card {j. j < MM_MAX_PAGES \<and> \<not> g_page_used s j}"
    using distinct_card [of "filter (\<lambda>i. \<not> g_page_used s i) [0..<MM_MAX_PAGES]"] by (simp add: conj_commute)
  moreover have "card {j. j < MM_MAX_PAGES \<and> \<not> g_page_used s j} + card {j. j < MM_MAX_PAGES \<and> g_page_used s j} = MM_MAX_PAGES"
    using card_index_split [of MM_MAX_PAGES "g_page_used s"] by simp
  moreover have "g_used_pages s = of_nat (card {j. j < MM_MAX_PAGES \<and> g_page_used s j})"
    unfolding assms [unfolded page_accounting_def, symmetric] by simp
  ultimately have "g_total_pages (mm_count_total_pages s) = of_nat MM_MAX_PAGES"
    by (simp add: mm_count_total_pages_def flip: of_nat_add)
  then show ?thesis by simp
qed

subsection \<open>The start of the memory manager\<close>

definition usable_page :: "memory \<Rightarrow> bool \<Rightarrow> u32 list \<Rightarrow> nat \<Rightarrow> bool" where
  "usable_page m mb2 tags p \<longleftrightarrow>
     (if mb2 then list_ex (\<lambda>t. list_ex (\<lambda>e. region_covers m e p \<and> \<not> reaches_4g m e) (the (tag_entries m t))) tags else 256 \<le> p)"

definition reserved_page :: "memory \<Rightarrow> u32 \<times> u32 \<Rightarrow> u32 \<Rightarrow> u32 \<Rightarrow> u32 list \<Rightarrow> nat \<Rightarrow> bool" where
  "reserved_page m kimg magic info tags p \<longleftrightarrow>
     p < 256 \<or> range_touches (fst kimg) (snd kimg) p \<or>
     (magic = MM_MB2_BOOTLOADER_MAGIC \<and> info \<noteq> 0 \<and>
        (range_touches info (info + u32_at m info) p \<or> list_ex (\<lambda>t. module_touches m t p) tags)) \<or>
     (magic = MM_FLOPPY_MAGIC \<and> info \<noteq> 0 \<and> range_touches info (info + 4096) p)"

lemma mark_usable_step:
  assumes "mb2 \<longleftrightarrow> magic = MM_MB2_BOOTLOADER_MAGIC \<and> info \<noteq> 0" "mb2 \<Longrightarrow> boot_info m info tags" "page_accounting s"
  obtains s' where "(if magic = MM_MB2_BOOTLOADER_MAGIC \<and> info \<noteq> 0 then mm_mark_mb2_usable m info s
      else Some (mm_mark_range_free MM_LOW_MEMORY_LIMIT paging_core_identity_limit s)) = Some s'" "page_accounting s'"
    "\<And>p. g_page_used s' p \<longleftrightarrow> g_page_used s p \<and> \<not> (p < MM_MAX_PAGES \<and> usable_page m mb2 tags p)"
proof (cases mb2)
  case True
  then have b: "boot_info m info tags" by (rule assms(2))
  show thesis
    by (rule that [of "fold (\<lambda>t. fold (mm_mark_entry m) (the (tag_entries m t))) tags s"])
      (use b True assms(1,3) in \<open>simp_all add: mm_mark_mb2_usable_def usable_tags_walk boot_info_def
        page_accounting_boot_fold usable_tags_fold usable_page_def\<close>)
next
  case False
  show thesis
    by (rule that [of "mm_mark_range_free MM_LOW_MEMORY_LIMIT paging_core_identity_limit s"])
      (use False assms(1,3) in \<open>auto simp: page_accounting_mark_range mark_range_free_page_used usable_page_def paging_core_identity_limit_def\<close>)
qed

lemma reserve_common_step:
  assumes "magic = MM_MB2_BOOTLOADER_MAGIC \<Longrightarrow> info \<noteq> 0 \<Longrightarrow> boot_info m info tags" "page_accounting s"
  obtains s' where "mm_reserve_common m kimg magic info s = Some s'" "page_accounting s'"
    "\<And>p. g_page_used s' p \<longleftrightarrow> g_page_used s p \<or> (p < MM_MAX_PAGES \<and> reserved_page m kimg magic info tags p)"
proof -
  let ?s1 = "mm_mark_range_used (fst kimg) (snd kimg) (mm_mark_range_used 0 MM_LOW_MEMORY_LIMIT s)"
  have a: "page_accounting ?s1" using assms(2) by (simp add: page_accounting_mark_range)
  have u: "range_touches 0 MM_LOW_MEMORY_LIMIT p \<longleftrightarrow> p < 256" for p by (auto simp: range_touches_def)
  have m: "g_page_used (mm_mark_range_used x y t) p \<longleftrightarrow> g_page_used t p \<or> (p < MM_MAX_PAGES \<and> range_touches x y p)" for x y t p
    by (simp add: mark_range_used_page_used range_touches_def)
  consider (mb2) "magic = MM_MB2_BOOTLOADER_MAGIC" "info \<noteq> 0" | (floppy) "magic = MM_FLOPPY_MAGIC" "info \<noteq> 0"
    | (other) "\<not> (magic = MM_MB2_BOOTLOADER_MAGIC \<and> info \<noteq> 0)" "\<not> (magic = MM_FLOPPY_MAGIC \<and> info \<noteq> 0)" by blast
  then show thesis
  proof cases
    case mb2
    then have b: "mb2_walk m (info + u32_at m info) (info + 8) = Some tags" using assms(1) by (simp add: boot_info_def)
    show ?thesis
      by (rule that [of "fold (mm_reserve_tag m) tags (mm_mark_range_used info (info + u32_at m info) ?s1)"])
        (use mb2 a in \<open>auto simp: mm_reserve_common_def mm_reserve_mb2_regions_def Let_def reserve_tags_walk [OF b]
          page_accounting_boot_fold page_accounting_mark_range reserve_tags_fold m u reserved_page_def\<close>)
  next
    case floppy
    show ?thesis
      by (rule that [of "mm_mark_range_used info (info + 4096) ?s1"])
        (use floppy a in \<open>auto simp: mm_reserve_common_def Let_def page_accounting_mark_range m u reserved_page_def\<close>)
  next
    case other
    show ?thesis
      by (rule that [of ?s1]) (use other a in \<open>auto simp: mm_reserve_common_def Let_def m u reserved_page_def\<close>)
  qed
qed

text \<open>
  C9: On a machine with paging on, \<open>mm_core_init\<close> returns for every well-formed boot information.
  Afterwards a page is free exactly if it lies completely in a usable region that ends before 4 GiB
  (without a memory map: if it lies between 1 MiB and 64 MiB) and holds nothing of the first MiB, the
  kernel, the boot information or a module; the counters agree with the page map and the heap is
  empty, so that the allocator starts from its invariant. A usable region that reaches 4 GiB should
  count up to there, but the code leaves all of it out.
\<close>

theorem mm_core_init_page_map:
  assumes "\<not> g_initialized s" "g_paging_enabled pg"
    "magic = MM_MB2_BOOTLOADER_MAGIC \<Longrightarrow> info \<noteq> 0 \<Longrightarrow> boot_info m info tags"
  shows "\<exists>s'. mm_core_init pg m kimg magic info s = Some (0, s') \<and> g_initialized s' \<and> heap_inv s' [] \<and>
    page_accounting s' \<and> g_total_pages s' = 16384 \<and>
    (\<forall>p < MM_MAX_PAGES. \<not> g_page_used s' p \<longleftrightarrow>
       usable_page m (magic = MM_MB2_BOOTLOADER_MAGIC \<and> info \<noteq> 0) tags p \<and> \<not> reserved_page m kimg magic info tags p)"
proof -
  let ?mb2 = "magic = MM_MB2_BOOTLOADER_MAGIC \<and> info \<noteq> 0"
  obtain s2 where s2: "(if ?mb2 then mm_mark_mb2_usable m info (mm_clear_pages s)
      else Some (mm_mark_range_free MM_LOW_MEMORY_LIMIT paging_core_identity_limit (mm_clear_pages s))) = Some s2"
    "page_accounting s2"
    "\<And>p. g_page_used s2 p \<longleftrightarrow> g_page_used (mm_clear_pages s) p \<and> \<not> (p < MM_MAX_PAGES \<and> usable_page m ?mb2 tags p)"
    using assms(3) by (rule mark_usable_step [OF refl _ page_accounting_clear]) blast+
  obtain s3 where s3: "mm_reserve_common m kimg magic info s2 = Some s3" "page_accounting s3"
    "\<And>p. g_page_used s3 p \<longleftrightarrow> g_page_used s2 p \<or> (p < MM_MAX_PAGES \<and> reserved_page m kimg magic info tags p)"
    using reserve_common_step [OF assms(3) s2(2)] by blast
  let ?s' = "(mm_count_total_pages s3)\<lparr>g_heap_head := 0, g_heap_tail := 0, g_heap_total_bytes := 0, g_initialized := True\<rparr>"
  have r: "mm_core_init pg m kimg magic info s = Some (0, ?s')"
    unfolding mm_core_init_def Let_def s2(1)
    using assms(1,2) s3(1) by (simp add: paging_core_is_enabled_def paging_core_identity_limit_def)
  have p: "g_page_used ?s' = g_page_used s3" "g_used_pages ?s' = g_used_pages s3" by (simp_all add: mm_count_total_pages_def)
  have "g_page_used s3 0" unfolding s3(3) by (simp add: reserved_page_def)
  then have "heap_inv ?s' []" using p(1) by (intro heap_inv_empty) simp_all
  moreover have "page_accounting ?s'" using s3(2) p by (simp add: page_accounting_def)
  moreover have "g_total_pages ?s' = 16384" using count_total_pages [OF s3(2)] by simp
  moreover have "\<not> g_page_used ?s' q \<longleftrightarrow> usable_page m ?mb2 tags q \<and> \<not> reserved_page m kimg magic info tags q"
    if "q < MM_MAX_PAGES" for q
    unfolding p(1) s3(3) s2(3) using that by (auto simp: mm_clear_pages_def)
  ultimately show ?thesis using r by (intro exI [of _ ?s']) simp
qed

text \<open>A boot information with one usable region, from 1 MiB to 8 MiB.\<close>

definition boot_words :: "u32 list" where
  "boot_words = [56, 0, 6, 40, 24, 0, 0x100000, 0, 0x700000, 0, 1, 0, 0, 8]"

definition boot_memory :: memory where
  "boot_memory = put_bytes 0x9000 (concat (map le32 boot_words)) (\<lambda>_. CHR 0x00)"

lemma boot_memory_word: "i < 14 \<Longrightarrow> u32_at boot_memory (0x9000 + 4 * of_nat i) = boot_words ! i"
  unfolding boot_memory_def by (rule u32_at_put_words) (simp_all add: boot_words_def)

lemma boot_memory_words [simp]:
  "u32_at boot_memory 0x9000 = 56" "u32_at boot_memory 0x9008 = 6" "u32_at boot_memory 0x900C = 40"
  "u32_at boot_memory 0x9010 = 24" "u32_at boot_memory 0x9018 = 0x100000" "u32_at boot_memory 0x901C = 0"
  "u32_at boot_memory 0x9020 = 0x700000" "u32_at boot_memory 0x9024 = 0" "u32_at boot_memory 0x9028 = 1"
  "u32_at boot_memory 0x9030 = 0" "u32_at boot_memory 0x9034 = 8"
  using boot_memory_word [of 0] boot_memory_word [of 2] boot_memory_word [of 3] boot_memory_word [of 4]
    boot_memory_word [of 6] boot_memory_word [of 7] boot_memory_word [of 8] boot_memory_word [of 9]
    boot_memory_word [of 10] boot_memory_word [of 12] boot_memory_word [of 13]
  by (simp_all add: boot_words_def)

lemma boot_memory_info: "boot_info boot_memory 0x9000 [0x9008]" "tag_entries boot_memory 0x9008 = Some [0x9018]"
proof -
  show e: "tag_entries boot_memory 0x9008 = Some [0x9018]"
    by (simp add: tag_entries_def mmap_walk.simps [of _ _ _ "0x9018"] mmap_walk.simps [of _ _ _ "0x9030"])
  show "boot_info boot_memory 0x9000 [0x9008]"
    by (simp add: boot_info_def mb2_walk.simps [of _ _ "0x9008"] mb2_walk.simps [of _ _ "0x9030"] mm_mb2_align8_def e)
qed

theorem mm_core_init_page_map_witness:
  "\<forall>s pg. \<exists>s'. mm_core_init (pg\<lparr>g_paging_enabled := True\<rparr>) boot_memory (0x100000, 0x180000) MM_MB2_BOOTLOADER_MAGIC 0x9000
       (s\<lparr>g_initialized := False\<rparr>) = Some (0, s') \<and>
     g_page_used s' 255 \<and> g_page_used s' 383 \<and> \<not> g_page_used s' 384 \<and> \<not> g_page_used s' 2047 \<and> g_page_used s' 2048"
proof (intro allI)
  fix s :: mm_state and pg :: paging
  have b: "MM_MB2_BOOTLOADER_MAGIC = MM_MB2_BOOTLOADER_MAGIC \<Longrightarrow> (0x9000 :: u32) \<noteq> 0 \<Longrightarrow> boot_info boot_memory 0x9000 [0x9008]"
    by (rule boot_memory_info)
  have u: "usable_page boot_memory True [0x9008] p \<longleftrightarrow> 256 \<le> p \<and> p < 2048" for p
    by (auto simp: usable_page_def boot_memory_info(2) region_covers_def reaches_4g_def u64_at_def)
  have r: "reserved_page boot_memory (0x100000, 0x180000) MM_MB2_BOOTLOADER_MAGIC 0x9000 [0x9008] p \<longleftrightarrow> p < 384" for p
    by (auto simp: reserved_page_def range_touches_def module_touches_def)
  obtain s' where i: "mm_core_init (pg\<lparr>g_paging_enabled := True\<rparr>) boot_memory (0x100000, 0x180000) MM_MB2_BOOTLOADER_MAGIC 0x9000
       (s\<lparr>g_initialized := False\<rparr>) = Some (0, s')"
    and q: "\<forall>p < MM_MAX_PAGES. \<not> g_page_used s' p \<longleftrightarrow> 256 \<le> p \<and> p < 2048 \<and> \<not> p < 384"
    using mm_core_init_page_map [of "s\<lparr>g_initialized := False\<rparr>" "pg\<lparr>g_paging_enabled := True\<rparr>" MM_MB2_BOOTLOADER_MAGIC "0x9000"
        boot_memory "[0x9008]" "(0x100000, 0x180000)", OF _ _ b]
    by (auto simp: u r)
  have "g_page_used s' 255" "g_page_used s' 383" "\<not> g_page_used s' 384" "\<not> g_page_used s' 2047" "g_page_used s' 2048"
    using q [rule_format, of 255] q [rule_format, of 383] q [rule_format, of 384] q [rule_format, of 2047] q [rule_format, of 2048]
    by simp_all
  with i show "\<exists>s'. mm_core_init (pg\<lparr>g_paging_enabled := True\<rparr>) boot_memory (0x100000, 0x180000) MM_MB2_BOOTLOADER_MAGIC 0x9000
       (s\<lparr>g_initialized := False\<rparr>) = Some (0, s') \<and>
     g_page_used s' 255 \<and> g_page_used s' 383 \<and> \<not> g_page_used s' 384 \<and> \<not> g_page_used s' 2047 \<and> g_page_used s' 2048"
    by blast
qed

text \<open>
  A usable region that reaches the end of the 32-bit address space is not used at all: its end is
  cut to 0 when it is passed on as a 32-bit address.
\<close>

lemma mm_mark_entry_drops_region_to_4g:
  assumes "u64_at m e < 0x100000000" "unat (u64_at m e) + unat (u64_at m (e + 8)) < 2 ^ 64" "0x100000000 \<le> u64_at m e + u64_at m (e + 8)"
  shows "mm_mark_entry m e s = s"
proof -
  have "(if 0x100000000 < u64_at m e + u64_at m (e + 8) then 0x100000000 else u64_at m e + u64_at m (e + 8)) = 0x100000000"
    using assms(3) by auto
  moreover have "(ucast (0x100000000 :: u64) :: u32) = 0" by simp
  moreover have "mm_mark_range_free a 0 s = s" for a by (simp add: mm_mark_range_free_def Let_def mm_align_down_u32_def)
  ultimately show ?thesis unfolding mm_mark_entry_def Let_def by (simp only: if_cancel)
qed

subsection \<open>The search for usable memory\<close>

lemma usable_entry_walk:
  "mmap_walk m e esz p = Some es \<Longrightarrow>
   usable_entry m p e esz = Some (list_ex (\<lambda>a. u32_at m (a + 16) = 1 \<and> u64_at m (a + 8) \<noteq> 0) es)"
proof (induction m e esz p arbitrary: es rule: mmap_walk.induct)
  case (1 m e esz p)
  show ?case
  proof (cases "p + 24 \<le> e")
    case True
    then obtain es' where "\<not> p + esz \<le> p" "mmap_walk m e esz (p + esz) = Some es'" "es = p # es'"
      using "1.prems" by (subst (asm) mmap_walk.simps) (auto split: if_splits)
    with True "1.IH" [of es'] show ?thesis by (subst usable_entry.simps) auto
  next
    case False
    then show ?thesis using "1.prems" by (subst usable_entry.simps, subst (asm) mmap_walk.simps) simp
  qed
qed

lemma usable_tag_walk:
  "mb2_walk m e t = Some tags \<Longrightarrow> list_all (\<lambda>t. tag_entries m t \<noteq> None) tags \<Longrightarrow>
   usable_tag m t e = Some (list_ex (\<lambda>t. list_ex (\<lambda>a. u32_at m (a + 16) = 1 \<and> u64_at m (a + 8) \<noteq> 0) (the (tag_entries m t))) tags)"
proof (induction tags arbitrary: t)
  case Nil
  from Nil.prems(1) show ?case by (cases rule: mb2_walk_cases) (subst usable_tag.simps, auto simp: Let_def)
next
  case (Cons t' tags)
  from Cons.prems(1) have c: "t < e" "u32_at m t \<noteq> 0" "\<not> u32_at m (t + 4) < 8" "t' = t"
    "mb2_walk m e (t + align8 (u32_at m (t + 4))) = Some tags"
    by (auto elim: mb2_walk_cases simp: align8_def mm_mb2_align8_def)
  obtain es where es: "tag_entries m t = Some es" using Cons.prems(2) c(4) by auto
  have i: "usable_tag m (t + align8 (u32_at m (t + 4))) e =
      Some (list_ex (\<lambda>t. list_ex (\<lambda>a. u32_at m (a + 16) = 1 \<and> u64_at m (a + 8) \<noteq> 0) (the (tag_entries m t))) tags)"
    using Cons.IH [OF c(5)] Cons.prems(2) by simp
  have six: "\<not> u32_at m (t + 8) < 24" "mmap_walk m (t + u32_at m (t + 4)) (u32_at m (t + 8)) (t + 16) = Some es" if "u32_at m t = 6"
    using es that by (auto simp: tag_entries_def split: if_splits)
  have oth: "es = []" if "u32_at m t \<noteq> 6" using es that by (auto simp: tag_entries_def)
  show ?case
  proof (cases "u32_at m t = 6")
    case True
    then show ?thesis using c es i six usable_entry_walk [OF six(2)] by (subst usable_tag.simps) (simp add: Let_def)
  next
    case False
    then show ?thesis using c es i oth by (subst usable_tag.simps) (simp add: Let_def)
  qed
qed

text \<open>
  C35: The search for usable memory ends on every well-formed boot information, and it finds a region
  exactly if a memory map tag has a usable entry that is not empty.
\<close>

theorem mb2_has_usable_region_returns:
  assumes "boot_info m info tags" "info \<noteq> 0"
  shows "mb2_has_usable_region m info =
    Some (\<exists>t \<in> set tags. \<exists>e \<in> set (the (tag_entries m t)). u32_at m (e + 16) = 1 \<and> u64_at m (e + 8) \<noteq> 0)"
  using assms usable_tag_walk [of m "info + u32_at m info" "info + 8" tags]
  by (simp add: boot_info_def mb2_has_usable_region_def list_ex_iff)

theorem mb2_has_usable_region_returns_witness:
  "mb2_has_usable_region boot_memory 0x9000 = Some True"
  using mb2_has_usable_region_returns [OF boot_memory_info(1)] by (simp add: boot_memory_info(2) u64_at_def)

end
