(* ===== verification/Sprg.thy ===== *)
theory Sprg
  imports Fs_Core User_Mem
begin

text \<open>
  The program loader of \<open>src/src/kernel/core/sprg/sprg_core.c\<close>: reading and checking the header and
  the segment table of a program file, and copying its segments to their addresses. The addresses
  are not null (the callers load at 0x60000 and above). A read may wait forever on a device, so the
  calls return an option: \<open>None\<close> when they do not return.
\<close>

subsection \<open>Types\<close>

datatype sprg_error =
  SPRG_ERR_INVALID
| SPRG_ERR_NOT_FOUND
| SPRG_ERR_TOO_LARGE
| SPRG_ERR_BAD_MAGIC
| SPRG_ERR_BAD_VERSION
| SPRG_ERR_BAD_ARCH
| SPRG_ERR_BAD_HEADER
| SPRG_ERR_UNSUPPORTED

type_synonym 'a sprg_result = "sprg_error + 'a"

abbreviation "SPRG_VERSION \<equiv> 1 :: u32"
abbreviation "SPRG_ARCH_I386 \<equiv> 1 :: u32"
abbreviation "SPRG_PHDR_LOAD \<equiv> 1 :: u32"
abbreviation "SPRG_FLAG_R \<equiv> 1 :: u32"
abbreviation "SPRG_FLAG_W \<equiv> 2 :: u32"
abbreviation "SPRG_FLAG_X \<equiv> 4 :: u32"
abbreviation "SPRG_MAX_PHDRS \<equiv> 8 :: u32"
abbreviation "SPRG_MAX_FILE_SIZE \<equiv> 65536 :: u32"
abbreviation "SPRG_HEADER_SIZE \<equiv> 28 :: u32"
abbreviation "SPRG_PHDR_SIZE \<equiv> 32 :: u32"
abbreviation "SPRG_STREAM_CHUNK \<equiv> 512 :: u32"

record sprg_segment =
  seg_type :: u32
  seg_offset :: u32
  seg_vaddr :: u32
  seg_filesz :: u32
  seg_memsz :: u32
  seg_flags :: u32
  seg_align :: u32
  seg_reserved :: u32

text \<open>The segment count of the image is the length of its segment list.\<close>

record sprg_image =
  img_entry :: u32
  img_arch :: u32
  img_file_size :: u32
  img_segments :: "sprg_segment list"

subsection \<open>Checks\<close>

definition sprg_le32 :: "char list \<Rightarrow> nat \<Rightarrow> u32" where
  "sprg_le32 p i =
     of_nat (of_char (p ! i)) OR push_bit 8 (of_nat (of_char (p ! (i + 1)))) OR
     push_bit 16 (of_nat (of_char (p ! (i + 2)))) OR push_bit 24 (of_nat (of_char (p ! (i + 3))))"

definition sprg_has_prg_suffix :: "string \<Rightarrow> bool" where
  "sprg_has_prg_suffix path \<longleftrightarrow> 4 \<le> length path \<and> drop (length path - 4) path = ''.prg''"

definition sprg_range_valid :: "u32 \<Rightarrow> u32 \<Rightarrow> u32 \<Rightarrow> bool" where
  "sprg_range_valid off sz file_size \<longleftrightarrow> \<not> file_size < off \<and> \<not> file_size - off < sz"

definition sprg_segments_overlap :: "u32 \<Rightarrow> u32 \<Rightarrow> u32 \<Rightarrow> u32 \<Rightarrow> bool" where
  "sprg_segments_overlap left_addr left_size right_addr right_size =
     (if left_size = 0 \<or> right_size = 0 then False
      else let left_end = left_addr + left_size; right_end = right_addr + right_size
           in if left_end < left_addr \<or> right_end < right_addr then True
              else left_addr < right_end \<and> right_addr < left_end)"

fun validate_segments :: "u32 \<Rightarrow> sprg_segment list \<Rightarrow> unit sprg_result" where
  "validate_segments file_size [] = Inr ()"
| "validate_segments file_size (seg # segs) =
     (if seg_type seg \<noteq> SPRG_PHDR_LOAD then Inl SPRG_ERR_UNSUPPORTED
      else if seg_memsz seg < seg_filesz seg then Inl SPRG_ERR_BAD_HEADER
      else if \<not> sprg_range_valid (seg_offset seg) (seg_filesz seg) file_size then Inl SPRG_ERR_BAD_HEADER
      else if seg_reserved seg \<noteq> 0 then Inl SPRG_ERR_BAD_HEADER
      else if list_ex (\<lambda>s. sprg_segments_overlap (seg_vaddr seg) (seg_memsz seg) (seg_vaddr s) (seg_memsz s)) segs
      then Inl SPRG_ERR_BAD_HEADER
      else validate_segments file_size segs)"

definition sprg_validate_segment_table :: "sprg_image \<Rightarrow> unit sprg_result" where
  "sprg_validate_segment_table img = validate_segments (img_file_size img) (img_segments img)"

subsection \<open>Reading the file\<close>

text \<open>The loop of \<open>sprg_read_exact\<close>, with the bytes stored so far.\<close>

partial_function (option) read_exact_loop :: "'c services \<Rightarrow> u32 \<Rightarrow> u32 \<Rightarrow> u32 \<Rightarrow> u32 \<Rightarrow> char list \<Rightarrow>
    ('s, 'c) kernel \<Rightarrow> (char list sprg_result \<times> ('s, 'c) kernel) option" where
  "read_exact_loop S node off sz dn acc k =
     (if dn < sz
      then Option.bind (fs_core_read S node (off + dn) (min (sz - dn) SPRG_STREAM_CHUNK) k)
             (\<lambda>(r, k1). case r of
                Inl e \<Rightarrow> Some (Inl SPRG_ERR_INVALID, k1)
              | Inr bs \<Rightarrow>
                  if of_nat (length bs) = (0 :: u32) then Some (Inl SPRG_ERR_INVALID, k1)
                  else read_exact_loop S node off sz (dn + of_nat (length bs)) (acc @ bs) k1)
      else Some (Inr acc, k))"

definition sprg_read_exact :: "'c services \<Rightarrow> u32 \<Rightarrow> u32 \<Rightarrow> u32 \<Rightarrow>
    ('s, 'c) kernel \<Rightarrow> (char list sprg_result \<times> ('s, 'c) kernel) option" where
  "sprg_read_exact S node off sz k = read_exact_loop S node off sz 0 [] k"

definition phdr_of :: "char list \<Rightarrow> sprg_segment" where
  "phdr_of p = \<lparr>seg_type = sprg_le32 p 0, seg_offset = sprg_le32 p 4, seg_vaddr = sprg_le32 p 8, seg_filesz = sprg_le32 p 12,
     seg_memsz = sprg_le32 p 16, seg_flags = sprg_le32 p 20, seg_align = sprg_le32 p 24, seg_reserved = sprg_le32 p 28\<rparr>"

fun read_phdrs :: "'c services \<Rightarrow> u32 \<Rightarrow> u32 \<Rightarrow> nat list \<Rightarrow>
    ('s, 'c) kernel \<Rightarrow> (sprg_segment list sprg_result \<times> ('s, 'c) kernel) option" where
  "read_phdrs S node phoff [] k = Some (Inr [], k)"
| "read_phdrs S node phoff (i # is) k =
     Option.bind (sprg_read_exact S node (phoff + of_nat i * SPRG_PHDR_SIZE) SPRG_PHDR_SIZE k)
       (\<lambda>(r, k1). case r of
          Inl e \<Rightarrow> Some (Inl e, k1)
        | Inr phdr \<Rightarrow>
            Option.bind (read_phdrs S node phoff is k1)
              (\<lambda>(r, k2). Some (case r of Inl e \<Rightarrow> Inl e | Inr segs \<Rightarrow> Inr (phdr_of phdr # segs), k2)))"

text \<open>What \<open>sprg_core_validate_file\<close> does while the file is open.\<close>

definition read_image :: "'c services \<Rightarrow> u32 \<Rightarrow> u32 \<Rightarrow> u32 \<Rightarrow>
    ('s, 'c) kernel \<Rightarrow> (sprg_image sprg_result \<times> ('s, 'c) kernel) option" where
  "read_image S node file_size expected_arch k =
     Option.bind (sprg_read_exact S node 0 SPRG_HEADER_SIZE k)
       (\<lambda>(r, k1). case r of
          Inl e \<Rightarrow> Some (Inl e, k1)
        | Inr header \<Rightarrow>
            let version = sprg_le32 header 4; arch = sprg_le32 header 8; entry = sprg_le32 header 12;
                phoff = sprg_le32 header 16; phnum = sprg_le32 header 20; flags = sprg_le32 header 24
            in if take 4 header \<noteq> ''SPRG'' then Some (Inl SPRG_ERR_BAD_MAGIC, k1)
               else if version \<noteq> SPRG_VERSION then Some (Inl SPRG_ERR_BAD_VERSION, k1)
               else if arch \<noteq> expected_arch then Some (Inl SPRG_ERR_BAD_ARCH, k1)
               else if flags \<noteq> 0 \<or> phnum = 0 \<or> SPRG_MAX_PHDRS < phnum then Some (Inl SPRG_ERR_BAD_HEADER, k1)
               else if \<not> sprg_range_valid phoff (phnum * SPRG_PHDR_SIZE) file_size then Some (Inl SPRG_ERR_BAD_HEADER, k1)
               else Option.bind (read_phdrs S node phoff [0..<unat phnum] k1)
                      (\<lambda>(r, k2). Some (case r of
                         Inl e \<Rightarrow> Inl e
                       | Inr segs \<Rightarrow> Inr \<lparr>img_entry = entry, img_arch = arch, img_file_size = file_size, img_segments = segs\<rparr>, k2)))"

definition fs_error_to_sprg :: "fs_error \<Rightarrow> sprg_error" where
  "fs_error_to_sprg e = (if e = FS_ERR_NOT_FOUND then SPRG_ERR_NOT_FOUND else SPRG_ERR_INVALID)"

definition sprg_core_validate_file :: "'c services \<Rightarrow> string option \<Rightarrow> u32 \<Rightarrow>
    ('s, 'c) kernel \<Rightarrow> (sprg_image sprg_result \<times> ('s, 'c) kernel) option" where
  "sprg_core_validate_file S path expected_arch k =
     (case path of
        None \<Rightarrow> Some (Inl SPRG_ERR_INVALID, k)
      | Some p \<Rightarrow>
          if \<not> sprg_has_prg_suffix p then Some (Inl SPRG_ERR_INVALID, k)
          else (case fs_core_stat S path k of
             (Inl e, k1) \<Rightarrow> Some (Inl (fs_error_to_sprg e), k1)
           | (Inr st, k1) \<Rightarrow>
               if st_mode st AND FS_MODE_FILE = 0 then Some (Inl SPRG_ERR_INVALID, k1)
               else if SPRG_MAX_FILE_SIZE < st_size st then Some (Inl SPRG_ERR_TOO_LARGE, k1)
               else (case fs_core_open path FS_O_RDONLY k1 of
                  (Inl e, k2) \<Rightarrow> Some (Inl (fs_error_to_sprg e), k2)
                | (Inr node, k2) \<Rightarrow>
                    Option.bind (read_image S node (st_size st) expected_arch k2)
                      (\<lambda>(r, k3). Some (case r of
                          Inl e \<Rightarrow> Inl e
                        | Inr img \<Rightarrow> (case sprg_validate_segment_table img of Inl e \<Rightarrow> Inl e | Inr _ \<Rightarrow> Inr img),
                        snd (fs_core_close node k3))))))"

subsection \<open>Loading the segments\<close>

text \<open>The copying loop of one segment.\<close>

partial_function (option) load_data :: "'c services \<Rightarrow> u32 \<Rightarrow> u32 \<Rightarrow> u32 \<Rightarrow> u32 \<Rightarrow> u32 \<Rightarrow> memory \<Rightarrow>
    ('s, 'c) kernel \<Rightarrow> (unit sprg_result \<times> memory \<times> ('s, 'c) kernel) option" where
  "load_data S node off start filesz dn m k =
     (if dn < filesz
      then Option.bind (fs_core_read S node (off + dn) (min (filesz - dn) SPRG_STREAM_CHUNK) k)
             (\<lambda>(r, k1). case r of
                Inl e \<Rightarrow> Some (Inl SPRG_ERR_INVALID, m, k1)
              | Inr bs \<Rightarrow>
                  if of_nat (length bs) = (0 :: u32) then Some (Inl SPRG_ERR_INVALID, m, k1)
                  else load_data S node off start filesz (dn + of_nat (length bs)) (put_bytes (start + dn) bs m) k1)
      else Some (Inr (), m, k))"

fun load_segments :: "'c services \<Rightarrow> u32 \<Rightarrow> u32 \<Rightarrow> u32 \<Rightarrow> u32 \<Rightarrow> sprg_segment list \<Rightarrow> bool \<Rightarrow> memory \<Rightarrow>
    ('s, 'c) kernel \<Rightarrow> (bool sprg_result \<times> memory \<times> ('s, 'c) kernel) option" where
  "load_segments S node user_min user_max entry [] exec m k = Some (Inr exec, m, k)"
| "load_segments S node user_min user_max entry (seg # segs) exec m k =
     (let start = seg_vaddr seg; fin = start + seg_memsz seg
      in if fin < start \<or> start < user_min \<or> user_max < fin then Some (Inl SPRG_ERR_BAD_HEADER, m, k)
         else if seg_flags seg AND NOT (SPRG_FLAG_R OR SPRG_FLAG_W OR SPRG_FLAG_X) \<noteq> 0 then Some (Inl SPRG_ERR_BAD_HEADER, m, k)
         else let exec1 = (exec \<or> seg_flags seg AND SPRG_FLAG_X \<noteq> 0 \<and> start \<le> entry \<and> entry < fin)
              in Option.bind (load_data S node (seg_offset seg) start (seg_filesz seg) 0 m k)
                   (\<lambda>(r, m1, k1). case r of
                      Inl e \<Rightarrow> Some (Inl e, m1, k1)
                    | Inr _ \<Rightarrow>
                        load_segments S node user_min user_max entry segs exec1
                          (put_bytes (start + seg_filesz seg) (replicate (unat (seg_memsz seg) - unat (seg_filesz seg)) (CHR 0x00)) m1) k1))"

definition sprg_core_load_file :: "'c services \<Rightarrow> string option \<Rightarrow> u32 \<Rightarrow> u32 \<Rightarrow> u32 \<Rightarrow> memory \<Rightarrow>
    ('s, 'c) kernel \<Rightarrow> (sprg_image sprg_result \<times> memory \<times> ('s, 'c) kernel) option" where
  "sprg_core_load_file S path expected_arch user_min user_max m k =
     (if user_max \<le> user_min then Some (Inl SPRG_ERR_INVALID, m, k)
      else Option.bind (sprg_core_validate_file S path expected_arch k)
        (\<lambda>(r, k1). case r of
           Inl e \<Rightarrow> Some (Inl e, m, k1)
         | Inr img \<Rightarrow>
             (case fs_core_open path FS_O_RDONLY k1 of
                (Inl e, k2) \<Rightarrow> Some (Inl (fs_error_to_sprg e), m, k2)
              | (Inr node, k2) \<Rightarrow>
                  Option.bind (load_segments S node user_min user_max (img_entry img) (img_segments img) False m k2)
                    (\<lambda>(r, m1, k3). Some (case r of
                        Inl e \<Rightarrow> Inl e
                      | Inr exec \<Rightarrow> if exec then Inr img else Inl SPRG_ERR_BAD_HEADER,
                      m1, snd (fs_core_close node k3))))))"

end
