(* ===== verification/Usermode.thy ===== *)
theory Usermode
  imports Posix Sprg Paging
begin

text \<open>
  The i386 user mode of \<open>src/src/kernel/arch/i386/modules/usermode/usermode.c\<close>: descriptor tables,
  the initial stack of a program, and the exec and exit of a process. Pointers from user space are
  32-bit addresses into the memory of the machine, and strings are read from there at the moment
  when the code reads them.

  \<open>usermode_exec\<close> runs the new program to its end inside the call: \<open>usermode_i386_enter\<close> (assembly)
  returns when the program exits. It is a parameter of \<open>usermode_exec\<close>; the parts before and after it
  are \<open>exec_begin\<close> and \<open>exec_end\<close>.
\<close>

subsection \<open>State\<close>

abbreviation "POSIX_E2BIG \<equiv> 7 :: int"
abbreviation "POSIX_ENOEXEC \<equiv> 8 :: int"

abbreviation "USERMODE_KERNEL_STACK_SIZE \<equiv> 4096 :: u32"
abbreviation "USERMODE_EXEC_DEPTH_MAX \<equiv> 2 :: u32"
abbreviation "USERMODE_ARG_MAX \<equiv> 16 :: nat"
abbreviation "USERMODE_ENV_MAX \<equiv> 8 :: nat"
abbreviation "USERMODE_STRING_MAX \<equiv> 128 :: nat"

abbreviation "USERMODE_I386_PROGRAM_MIN \<equiv> 0x00060000 :: u32"
abbreviation "USERMODE_I386_PROGRAM_MAX \<equiv> 0x00070000 :: u32"
abbreviation "USERMODE_I386_STACK_MIN \<equiv> 0x00070000 :: u32"
abbreviation "USERMODE_I386_STACK_TOP \<equiv> 0x00080000 :: u32"
abbreviation "USERMODE_I386_SHELL_PROGRAM_MIN \<equiv> 0x00080000 :: u32"
abbreviation "USERMODE_I386_SHELL_PROGRAM_MAX \<equiv> 0x00090000 :: u32"
abbreviation "USERMODE_I386_SHELL_STACK_MIN \<equiv> 0x00090000 :: u32"
abbreviation "USERMODE_I386_SHELL_STACK_TOP \<equiv> 0x0009F000 :: u32"

record gdt_entry =
  limit_low :: u16
  base_low :: u16
  base_mid :: u8
  access :: u8
  granularity :: u8
  base_high :: u8

text \<open>The fields of the task state segment that the code sets; the others stay zero.\<close>

record tss32 =
  esp0 :: u32
  ss0 :: u32
  iomap_base :: u16

record ('s, 'c) machine =
  kern :: "('s, 'c) kernel"
  mem :: memory
  pgs :: paging
  g_usermode_gdt :: "nat \<Rightarrow> gdt_entry"
  g_usermode_gdt_ptr :: "u16 \<times> u32"
  g_usermode_tss :: tss32
  g_usermode_exec_depth :: u32
  g_usermode_saved_esp :: u32
  g_usermode_saved_eflags :: u32

text \<open>Addresses that the linker chooses.\<close>

record usermode_layout =
  gdt_addr :: u32
  tss_addr :: u32
  stacks_addr :: u32

subsection \<open>Descriptor tables\<close>

definition zero_gdt_entry :: gdt_entry where
  "zero_gdt_entry = \<lparr>limit_low = 0, base_low = 0, base_mid = 0, access = 0, granularity = 0, base_high = 0\<rparr>"

definition gdt_set :: "nat \<Rightarrow> u32 \<Rightarrow> u32 \<Rightarrow> u8 \<Rightarrow> u8 \<Rightarrow> (nat \<Rightarrow> gdt_entry) \<Rightarrow> nat \<Rightarrow> gdt_entry" where
  "gdt_set index base limit acc gran gdt =
     gdt(index :=
       \<lparr>limit_low = ucast (limit AND 0xFFFF), base_low = ucast (base AND 0xFFFF),
        base_mid = ucast (drop_bit 16 base AND 0xFF), access = acc,
        granularity = ucast ((drop_bit 16 limit AND 0x0F) OR (ucast gran AND 0xF0)),
        base_high = ucast (drop_bit 24 base AND 0xFF)\<rparr>)"

text \<open>The top of the kernel stack for programs started at a depth.\<close>

definition kernel_stack_top :: "usermode_layout \<Rightarrow> u32 \<Rightarrow> u32" where
  "kernel_stack_top L depth = stacks_addr L + depth * USERMODE_KERNEL_STACK_SIZE + USERMODE_KERNEL_STACK_SIZE"

text \<open>\<open>sizeof(g_usermode_gdt)\<close> is 48 and \<open>sizeof(g_usermode_tss)\<close> is 104.\<close>

definition usermode_init :: "usermode_layout \<Rightarrow> ('s, 'c) machine \<Rightarrow> int \<times> ('s, 'c) machine" where
  "usermode_init L mc =
     (let gdt1 = gdt_set 1 0 0xFFFFF 0x9A 0xCF (\<lambda>_. zero_gdt_entry);
          gdt2 = gdt_set 2 0 0xFFFFF 0x92 0xCF gdt1;
          gdt3 = gdt_set 3 0 0xFFFFF 0xFA 0xCF gdt2;
          gdt4 = gdt_set 4 0 0xFFFFF 0xF2 0xCF gdt3;
          gdt5 = gdt_set 5 (tss_addr L) 103 0x89 0x00 gdt4;
          mc1 = mc\<lparr>mem := put_bytes (stacks_addr L) (replicate 8192 (CHR 0x00)) (mem mc),
                   g_usermode_gdt := gdt5, g_usermode_tss := \<lparr>esp0 = kernel_stack_top L 0, ss0 = 0x10, iomap_base = 104\<rparr>,
                   g_usermode_gdt_ptr := (47, gdt_addr L)\<rparr>;
          (r1, pg1) = paging_core_set_user_range USERMODE_I386_STACK_MIN USERMODE_I386_STACK_TOP True (pgs mc1)
      in if r1 \<noteq> 0 then (-1, mc1\<lparr>pgs := pg1\<rparr>)
         else let (r2, pg2) = paging_core_set_user_range USERMODE_I386_SHELL_STACK_MIN USERMODE_I386_SHELL_STACK_TOP True pg1
              in if r2 \<noteq> 0 then (-1, mc1\<lparr>pgs := pg2\<rparr>)
                 else (0, mc1\<lparr>pgs := pg2, g_usermode_exec_depth := 0\<rparr>))"

subsection \<open>The initial stack\<close>

text \<open>Copying byte by byte, so that an overlap of source and target has the effect it has in the code.\<close>

definition copy_bytes :: "u32 \<Rightarrow> u32 \<Rightarrow> nat \<Rightarrow> memory \<Rightarrow> memory" where
  "copy_bytes dst src n m = fold (\<lambda>i m. m(dst + of_nat i := m (src + of_nat i))) [0..<n] m"

text \<open>The new stack pointer is also the address of the copy.\<close>

definition copy_stack_string :: "u32 \<Rightarrow> u32 \<Rightarrow> u32 \<Rightarrow> memory \<Rightarrow> (int + u32) \<times> memory" where
  "copy_stack_string stack_min str sp m =
     (if str = 0 then (Inl (- POSIX_EINVAL), m)
      else case List.find (\<lambda>i. m (str + of_nat i) = CHR 0x00) [0..<USERMODE_STRING_MAX] of
             None \<Rightarrow> (Inl (- POSIX_E2BIG), m)
           | Some n \<Rightarrow>
               if sp < stack_min + of_nat (n + 1) then (Inl (- POSIX_ENOSPC), m)
               else let next = sp - of_nat (n + 1) in (Inr next, copy_bytes next str (n + 1) m))"

text \<open>The loops over \<open>envp\<close> and \<open>argv\<close>; \<open>f m i\<close> is the pointer that the code reads in round \<open>i\<close>.\<close>

fun copy_stack_strings :: "u32 \<Rightarrow> (memory \<Rightarrow> nat \<Rightarrow> u32) \<Rightarrow> nat list \<Rightarrow> u32 \<Rightarrow> memory \<Rightarrow> (int + u32 list \<times> u32) \<times> memory" where
  "copy_stack_strings stack_min f [] sp m = (Inr ([], sp), m)"
| "copy_stack_strings stack_min f (i # is) sp m =
     (case copy_stack_string stack_min (f m i) sp m of
        (Inl e, m1) \<Rightarrow> (Inl e, m1)
      | (Inr a, m1) \<Rightarrow>
          (case copy_stack_strings stack_min f is a m1 of
             (Inl e, m2) \<Rightarrow> (Inl e, m2)
           | (Inr (as, sp2), m2) \<Rightarrow> (Inr (a # as, sp2), m2)))"

text \<open>The number of pointers before the null pointer, if it is at most \<open>cap\<close>.\<close>

definition count_pointers :: "nat \<Rightarrow> u32 \<Rightarrow> memory \<Rightarrow> nat option" where
  "count_pointers cap arr m =
     (if arr = 0 then Some 0 else List.find (\<lambda>i. u32_at m (arr + 4 * of_nat i) = 0) [0..<cap + 1])"

fun push_u32s :: "u32 \<Rightarrow> u32 list \<Rightarrow> u32 \<Rightarrow> memory \<Rightarrow> (int + u32) \<times> memory" where
  "push_u32s stack_min [] sp m = (Inr sp, m)"
| "push_u32s stack_min (v # vs) sp m =
     (if sp < stack_min + 4 then (Inl (- POSIX_ENOSPC), m)
      else push_u32s stack_min vs (sp - 4) (put_bytes (sp - 4) (le32 v) m))"

definition build_initial_stack :: "u32 \<Rightarrow> u32 \<Rightarrow> u32 \<Rightarrow> u32 \<Rightarrow> u32 \<Rightarrow> memory \<Rightarrow> (int + u32) \<times> memory" where
  "build_initial_stack stack_min stack_top path argv envp m =
     (case count_pointers USERMODE_ARG_MAX argv m of
        None \<Rightarrow> (Inl (- POSIX_E2BIG), m)
      | Some n \<Rightarrow>
          let argc = (if n = 0 then 1 else n)
          in case count_pointers USERMODE_ENV_MAX envp m of
               None \<Rightarrow> (Inl (- POSIX_E2BIG), m)
             | Some envc \<Rightarrow>
                 (case copy_stack_strings stack_min (\<lambda>m i. u32_at m (envp + 4 * of_nat i)) [0..<envc] stack_top m of
                    (Inl e, m1) \<Rightarrow> (Inl e, m1)
                  | (Inr (env_addr, sp1), m1) \<Rightarrow>
                      (case copy_stack_strings stack_min
                              (\<lambda>m i. if argv \<noteq> 0 \<and> u32_at m argv \<noteq> 0 then u32_at m (argv + 4 * of_nat i) else path)
                              [0..<argc] sp1 m1 of
                         (Inl e, m2) \<Rightarrow> (Inl e, m2)
                       | (Inr (argv_addr, sp2), m2) \<Rightarrow>
                           push_u32s stack_min ([0] @ rev env_addr @ [0] @ rev argv_addr @ [of_nat argc]) (sp2 AND NOT 3) m2)))"

subsection \<open>Exec and exit\<close>

definition sprg_error_to_posix :: "sprg_error \<Rightarrow> int" where
  "sprg_error_to_posix rc =
     (if rc = SPRG_ERR_NOT_FOUND then - POSIX_ENOENT
      else if rc = SPRG_ERR_TOO_LARGE then - POSIX_ENOSPC
      else if rc = SPRG_ERR_BAD_MAGIC \<or> rc = SPRG_ERR_BAD_VERSION \<or> rc = SPRG_ERR_BAD_ARCH \<or>
              rc = SPRG_ERR_BAD_HEADER \<or> rc = SPRG_ERR_UNSUPPORTED
      then - POSIX_ENOEXEC
      else - POSIX_EINVAL)"

definition image_fits_slot :: "sprg_image \<Rightarrow> u32 \<Rightarrow> u32 \<Rightarrow> bool" where
  "image_fits_slot img slot_min slot_max =
     list_all (\<lambda>seg. let start = seg_vaddr seg; fin = start + seg_memsz seg
                    in \<not> (fin < start \<or> start < slot_min \<or> slot_max < fin)) (img_segments img)"

text \<open>The program range and the stack range of the slot for an image.\<close>

definition exec_slot :: "sprg_image \<Rightarrow> u32 \<Rightarrow> int + (u32 \<times> u32) \<times> (u32 \<times> u32)" where
  "exec_slot img depth =
     (if image_fits_slot img USERMODE_I386_PROGRAM_MIN USERMODE_I386_PROGRAM_MAX
      then Inr ((USERMODE_I386_PROGRAM_MIN, USERMODE_I386_PROGRAM_MAX), (USERMODE_I386_STACK_MIN, USERMODE_I386_STACK_TOP))
      else if image_fits_slot img USERMODE_I386_SHELL_PROGRAM_MIN USERMODE_I386_SHELL_PROGRAM_MAX
      then if depth \<noteq> 0 then Inl (- POSIX_ENOSPC)
           else Inr ((USERMODE_I386_SHELL_PROGRAM_MIN, USERMODE_I386_SHELL_PROGRAM_MAX),
                     (USERMODE_I386_SHELL_STACK_MIN, USERMODE_I386_SHELL_STACK_TOP))
      else Inl (- POSIX_ENOEXEC))"

fun open_segments :: "sprg_segment list \<Rightarrow> paging \<Rightarrow> bool \<times> paging" where
  "open_segments [] pg = (True, pg)"
| "open_segments (seg # segs) pg =
     (let (rc, pg1) = paging_core_set_user_range (seg_vaddr seg) (seg_vaddr seg + seg_memsz seg) (seg_flags seg AND SPRG_FLAG_W \<noteq> 0) pg
      in if rc \<noteq> 0 then (False, pg1) else open_segments segs pg1)"

text \<open>What \<open>usermode_exec\<close> keeps while the program runs.\<close>

record exec_frame =
  ef_child :: nat
  ef_saved_esp :: u32
  ef_saved_eflags :: u32
  ef_tss_esp0 :: u32

datatype exec_outcome =
  Exec_Failed int
| Exec_Entered exec_frame u32 u32

text \<open>The characters of the program name that \<open>process_copy_string\<close> reads.\<close>

definition name_at :: "memory \<Rightarrow> u32 \<Rightarrow> string" where
  "name_at m a = takeWhile (\<lambda>c. c \<noteq> CHR 0x00) (bytes_at m a (PROCESS_NAME_CAP - 1))"

text \<open>\<open>usermode_exec\<close> up to the call of \<open>usermode_i386_enter\<close>: from the start of the child on, and before it.\<close>

definition exec_spawn :: "usermode_layout \<Rightarrow> u32 \<Rightarrow> sprg_image \<Rightarrow> u32 \<Rightarrow> ('s, 'c) machine \<Rightarrow> exec_outcome \<times> ('s, 'c) machine" where
  "exec_spawn L path img initial_sp mc =
     (case process_core_spawn_exec (name_at (mem mc) path) (img_arch img) (img_entry img) (of_nat (length (img_segments img)))
             (img_file_size img) initial_sp (kern mc) of
        (None, k) \<Rightarrow> (Exec_Failed (- POSIX_ENOSPC), mc\<lparr>kern := k\<rparr>)
      | (Some child, k) \<Rightarrow>
          (Exec_Entered \<lparr>ef_child = child, ef_saved_esp = g_usermode_saved_esp mc,
                         ef_saved_eflags = g_usermode_saved_eflags mc, ef_tss_esp0 = esp0 (g_usermode_tss mc)\<rparr>
             (img_entry img) initial_sp,
           mc\<lparr>kern := k,
              g_usermode_tss := (g_usermode_tss mc)\<lparr>esp0 := kernel_stack_top L (g_usermode_exec_depth mc)\<rparr>,
              g_usermode_exec_depth := g_usermode_exec_depth mc + 1\<rparr>))"

definition exec_begin :: "'c services \<Rightarrow> usermode_layout \<Rightarrow> u32 \<Rightarrow> u32 \<Rightarrow> u32 \<Rightarrow>
    ('s, 'c) machine \<Rightarrow> (exec_outcome \<times> ('s, 'c) machine) option" where
  "exec_begin S L path argv envp mc =
     (if USERMODE_EXEC_DEPTH_MAX \<le> g_usermode_exec_depth mc then Some (Exec_Failed (- POSIX_ENOSPC), mc)
      else Option.bind (string_at (mem mc) path) (\<lambda>p.
        Option.bind (sprg_core_validate_file S p SPRG_ARCH_I386 (kern mc)) (\<lambda>(r, k1).
          case r of
            Inl e \<Rightarrow> Some (Exec_Failed (sprg_error_to_posix e), mc\<lparr>kern := k1\<rparr>)
          | Inr img \<Rightarrow>
              (case exec_slot img (g_usermode_exec_depth mc) of
                 Inl e \<Rightarrow> Some (Exec_Failed e, mc\<lparr>kern := k1\<rparr>)
               | Inr ((program_min, program_max), (stack_min, stack_top)) \<Rightarrow>
                   Option.bind (sprg_core_load_file S p SPRG_ARCH_I386 program_min program_max (mem mc) k1) (\<lambda>(r, m1, k2).
                     let mc2 = mc\<lparr>kern := k2, mem := m1\<rparr>
                     in Some (case r of
                          Inl e \<Rightarrow> (Exec_Failed (sprg_error_to_posix e), mc2)
                        | Inr img \<Rightarrow>
                            (case open_segments (img_segments img) (pgs mc2) of
                               (False, pg) \<Rightarrow> (Exec_Failed (- POSIX_EIO), mc2\<lparr>pgs := pg\<rparr>)
                             | (True, pg) \<Rightarrow>
                                 (case build_initial_stack stack_min stack_top path argv envp m1 of
                                    (Inl e, m2) \<Rightarrow> (Exec_Failed e, mc2\<lparr>pgs := pg, mem := m2\<rparr>)
                                  | (Inr sp, m2) \<Rightarrow> exec_spawn L path img sp (mc2\<lparr>pgs := pg, mem := m2\<rparr>)))))))))"

text \<open>After \<open>usermode_i386_enter\<close> has returned.\<close>

definition exec_end :: "exec_frame \<Rightarrow> ('s, 'c) machine \<Rightarrow> ('s, 'c) machine" where
  "exec_end fr mc =
     mc\<lparr>g_usermode_exec_depth := g_usermode_exec_depth mc - 1,
        g_usermode_tss := (g_usermode_tss mc)\<lparr>esp0 := ef_tss_esp0 fr\<rparr>,
        g_usermode_saved_esp := ef_saved_esp fr,
        g_usermode_saved_eflags := ef_saved_eflags fr,
        kern := process_core_reap (ef_child fr) (kern mc)\<rparr>"

definition usermode_exec :: "'c services \<Rightarrow> usermode_layout \<Rightarrow> (u32 \<Rightarrow> u32 \<Rightarrow> ('s, 'c) machine \<Rightarrow> (int \<times> ('s, 'c) machine) option) \<Rightarrow>
    u32 \<Rightarrow> u32 \<Rightarrow> u32 \<Rightarrow> ('s, 'c) machine \<Rightarrow> (int \<times> ('s, 'c) machine) option" where
  "usermode_exec S L usermode_i386_enter path argv envp mc =
     Option.bind (exec_begin S L path argv envp mc) (\<lambda>(oc, mc1).
       case oc of
         Exec_Failed rc \<Rightarrow> Some (rc, mc1)
       | Exec_Entered fr entry sp \<Rightarrow>
           Option.bind (usermode_i386_enter entry sp mc1) (\<lambda>(status, mc2). Some (status, exec_end fr mc2)))"

text \<open>\<open>usermode_exit\<close> before it returns into the \<open>usermode_exec\<close> that started the program.\<close>

definition usermode_exit :: "int \<Rightarrow> ('s, 'c) machine \<Rightarrow> ('s, 'c) machine" where
  "usermode_exit status mc = mc\<lparr>kern := process_core_exit_current status (kern mc)\<rparr>"

definition posix_execve :: "'c services \<Rightarrow> usermode_layout \<Rightarrow> (u32 \<Rightarrow> u32 \<Rightarrow> ('s, 'c) machine \<Rightarrow> (int \<times> ('s, 'c) machine) option) \<Rightarrow>
    u32 \<Rightarrow> u32 \<Rightarrow> u32 \<Rightarrow> ('s, 'c) machine \<Rightarrow> (int \<times> ('s, 'c) machine) option" where
  "posix_execve S L usermode_i386_enter path argv envp mc =
     (if path = 0 then Some (- POSIX_EINVAL, mc) else usermode_exec S L usermode_i386_enter path argv envp mc)"

definition posix_exit :: "int \<Rightarrow> ('s, 'c) machine \<Rightarrow> ('s, 'c) machine" where
  "posix_exit status mc = usermode_exit status mc"

end
