(* ===== verification/Syscall.thy ===== *)
theory Syscall
  imports Usermode Fd_Calls
begin

text \<open>
  The system call dispatcher of \<open>src/src/kernel/core/syscall/syscall_core.c\<close>. Arguments are registers;
  pointers are followed into the memory of the machine, and results that the code stores through
  pointers are lists of writes, applied in order. The code does not check user pointers, and neither
  does the model. A path is read up to its NUL; when the memory has none, the call does not return.
\<close>

subsection \<open>Numbers\<close>

abbreviation "SYS_READ \<equiv> 0 :: u32"
abbreviation "SYS_WRITE \<equiv> 1 :: u32"
abbreviation "SYS_OPEN \<equiv> 2 :: u32"
abbreviation "SYS_CLOSE \<equiv> 3 :: u32"
abbreviation "SYS_FSTAT \<equiv> 5 :: u32"
abbreviation "SYS_LSEEK \<equiv> 8 :: u32"
abbreviation "SYS_STAT \<equiv> 9 :: u32"
abbreviation "SYS_GETCWD \<equiv> 10 :: u32"
abbreviation "SYS_CHDIR \<equiv> 11 :: u32"
abbreviation "SYS_MKDIR \<equiv> 12 :: u32"
abbreviation "SYS_UNLINK \<equiv> 13 :: u32"
abbreviation "SYS_RMDIR \<equiv> 14 :: u32"
abbreviation "SYS_IOCTL \<equiv> 16 :: u32"
abbreviation "SYS_ACCESS \<equiv> 21 :: u32"
abbreviation "SYS_DUP \<equiv> 32 :: u32"
abbreviation "SYS_DUP2 \<equiv> 33 :: u32"
abbreviation "SYS_NANOSLEEP \<equiv> 35 :: u32"
abbreviation "SYS_SYNC \<equiv> 36 :: u32"
abbreviation "SYS_GETPID \<equiv> 39 :: u32"
abbreviation "SYS_EXECVE \<equiv> 59 :: u32"
abbreviation "SYS_EXIT \<equiv> 60 :: u32"
abbreviation "SYS_SYMLINK \<equiv> 83 :: u32"
abbreviation "SYS_READLINK \<equiv> 85 :: u32"
abbreviation "SYS_REBOOT \<equiv> 88 :: u32"
abbreviation "SYS_ISATTY \<equiv> 89 :: u32"
abbreviation "SYS_GETPPID \<equiv> 110 :: u32"
abbreviation "SYS_GETDENTS \<equiv> 141 :: u32"

subsection \<open>Arguments and results in memory\<close>

type_synonym mem_writes = "(u32 \<times> char list) list"

definition do_writes :: "mem_writes \<Rightarrow> memory \<Rightarrow> memory" where
  "do_writes ws m = fold (\<lambda>(a, bs) m. put_bytes a bs m) ws m"

definition stat_bytes :: "fs_stat \<Rightarrow> char list" where
  "stat_bytes st = le32 (st_mode st) @ le32 (st_size st)"

text \<open>An array element of 25 bytes: the name with its NUL, and the type in the last byte.\<close>

definition dirent_writes :: "u32 \<Rightarrow> system1_dirent list \<Rightarrow> mem_writes" where
  "dirent_writes a es =
     concat (map (\<lambda>(i, e). [(a + 25 * of_nat i, sd_name e @ [CHR 0x00]), (a + 25 * of_nat i + 24, [char_of (unat (sd_type e))])])
       (enumerate 0 es))"

definition buffer_at :: "memory \<Rightarrow> u32 \<Rightarrow> u32 \<Rightarrow> char list option" where
  "buffer_at m a n = (if a = 0 then None else Some (bytes_at m a (unat n)))"

definition timespec_at :: "memory \<Rightarrow> u32 \<Rightarrow> (int \<times> int) option" where
  "timespec_at m a = (if a = 0 then None else Some (sint (u32_at m a), sint (u32_at m (a + 4))))"

definition tty_line_at :: "memory \<Rightarrow> u32 \<Rightarrow> (char list option \<times> u32) option" where
  "tty_line_at m a =
     (if a = 0 then None else Some (buffer_at m (u32_at m a) (u32_at m (a + 4)), u32_at m (a + 8)))"

definition sys_getcwd :: "u32 \<Rightarrow> u32 \<Rightarrow> ('s, 'c) kernel \<Rightarrow> (int \<times> mem_writes) \<times> ('s, 'c) kernel" where
  "sys_getcwd out cap k =
     (let (dir, k1) = fs_core_get_cwd_path k
      in if out = 0 \<or> cap = 0 then ((- POSIX_EINVAL, []), k1)
         else let s = take (unat cap - 1) dir in ((int (length s), [(out, s @ [CHR 0x00])]), k1))"

subsection \<open>The calls\<close>

definition plain :: "int \<times> ('s, 'c) kernel \<Rightarrow> ((int \<times> mem_writes) \<times> ('s, 'c) kernel) option" where
  "plain r = (case r of (rc, k) \<Rightarrow> Some ((rc, []), k))"

definition with_path :: "memory \<Rightarrow> u32 \<Rightarrow> (string option \<Rightarrow> 'r option) \<Rightarrow> 'r option" where
  "with_path m a f = Option.bind (string_at m a) f"

definition sys_call :: "'c services \<Rightarrow> u32 \<Rightarrow> u32 \<Rightarrow> u32 \<Rightarrow> u32 \<Rightarrow> memory \<Rightarrow>
    ('s, 'c) kernel \<Rightarrow> ((int \<times> mem_writes) \<times> ('s, 'c) kernel) option" where
  "sys_call S nr a0 a1 a2 m k =
     (if nr = SYS_READ then map_option (\<lambda>((r, bs), k1). ((r, [(a1, bs)]), k1)) (posix_read S (sint a0) (a1 = 0) a2 k)
      else if nr = SYS_WRITE then plain (posix_write S (sint a0) (buffer_at m a1 a2) k)
      else if nr = SYS_OPEN then with_path m a0 (\<lambda>p. plain (posix_open S p a1 k))
      else if nr = SYS_CLOSE then plain (posix_close (sint a0) k)
      else if nr = SYS_FSTAT
      then (case posix_fstat S (sint a0) (a1 = 0) k of
              ((r, st), k1) \<Rightarrow> Some ((r, case st of None \<Rightarrow> [] | Some st \<Rightarrow> [(a1, stat_bytes st)]), k1))
      else if nr = SYS_LSEEK then plain (posix_lseek S (sint a0) (sint a1) a2 k)
      else if nr = SYS_STAT
      then with_path m a0 (\<lambda>p. case posix_stat S p (a1 = 0) k of
              ((r, st), k1) \<Rightarrow> Some ((r, case st of None \<Rightarrow> [] | Some st \<Rightarrow> [(a1, stat_bytes st)]), k1))
      else if nr = SYS_GETCWD then Some (sys_getcwd a0 a1 k)
      else if nr = SYS_CHDIR
      then with_path m a0 (\<lambda>p. case fs_core_change_dir p k of (rc, k1) \<Rightarrow> Some ((- fs_core_to_errno rc, []), k1))
      else if nr = SYS_MKDIR
      then with_path m a0 (\<lambda>p. case fs_core_make_dir p k of (rc, k1) \<Rightarrow> Some ((- fs_core_to_errno rc, []), k1))
      else if nr = SYS_UNLINK then with_path m a0 (\<lambda>p. plain (posix_unlink p k))
      else if nr = SYS_RMDIR then with_path m a0 (\<lambda>p. plain (posix_rmdir p k))
      else if nr = SYS_IOCTL then Option.bind (posix_ioctl S (sint a0) a1 a2 (tty_line_at m a2) k) plain
      else if nr = SYS_ACCESS then with_path m a0 (\<lambda>p. plain (posix_access S p a1 k))
      else if nr = SYS_DUP then plain (posix_dup (sint a0) k)
      else if nr = SYS_DUP2 then plain (posix_dup2 (sint a0) (sint a1) k)
      else if nr = SYS_NANOSLEEP
      then map_option (\<lambda>(r, k1). ((r, if r = 0 \<and> a1 \<noteq> 0 then [(a1, replicate 8 (CHR 0x00))] else []), k1))
             (posix_nanosleep S (timespec_at m a0) k)
      else if nr = SYS_SYNC then plain (posix_sync, k)
      else if nr = SYS_GETPID then plain (posix_getpid k)
      else if nr = SYS_REBOOT then plain (posix_reboot S a0 k)
      else if nr = SYS_ISATTY then plain (posix_isatty (sint a0) k)
      else if nr = SYS_GETPPID then plain (posix_getppid k)
      else if nr = SYS_SYMLINK then with_path m a0 (\<lambda>t. with_path m a1 (\<lambda>l. plain (posix_symlink t l k)))
      else if nr = SYS_READLINK
      then with_path m a0 (\<lambda>p. case posix_readlink p (a1 = 0) a2 k of
              ((r, t), k1) \<Rightarrow> Some ((r, case t of None \<Rightarrow> [] | Some t \<Rightarrow> [(a1, t @ [CHR 0x00])]), k1))
      else if nr = SYS_GETDENTS
      then with_path m a0 (\<lambda>p. case posix_getdents p (a1 = 0) a2 k of ((r, es), k1) \<Rightarrow> Some ((r, dirent_writes a1 es), k1))
      else Some ((- POSIX_EINVAL, []), k))"

datatype syscall_outcome =
  Sys_Return int
| Sys_Enter exec_frame u32 u32
| Sys_Leave int

text \<open>
  The whole dispatcher. \<open>execve\<close> of a program that starts does not return here but enters the program,
  and \<open>exit\<close> leaves the program that made the call.
\<close>

definition syscall_core_dispatch :: "'c services \<Rightarrow> usermode_layout \<Rightarrow> u32 \<Rightarrow> u32 \<Rightarrow> u32 \<Rightarrow> u32 \<Rightarrow> u32 \<Rightarrow>
    ('s, 'c) machine \<Rightarrow> (syscall_outcome \<times> ('s, 'c) machine) option" where
  "syscall_core_dispatch S L nr a0 a1 a2 a3 mc =
     (if nr = SYS_EXECVE
      then if a0 = 0 then Some (Sys_Return (- POSIX_EINVAL), mc)
           else map_option (\<lambda>(oc, mc1). (case oc of Exec_Failed rc \<Rightarrow> Sys_Return rc | Exec_Entered fr entry sp \<Rightarrow> Sys_Enter fr entry sp, mc1))
                  (exec_begin S L a0 a1 a2 mc)
      else if nr = SYS_EXIT then Some (Sys_Leave (sint a0), posix_exit (sint a0) mc)
      else map_option (\<lambda>((r, ws), k1). (Sys_Return r, mc\<lparr>kern := k1, mem := do_writes ws (mem mc)\<rparr>))
             (sys_call S nr a0 a1 a2 (mem mc) (kern mc)))"

definition syscall_core_init :: "('s, 'c) kernel \<Rightarrow> ('s, 'c) kernel" where
  "syscall_core_init k = posix_init k"

subsection \<open>Every call keeps the invariant\<close>

lemma plain_ok: "plain x = Some (r, k') \<Longrightarrow> call_ok k0 (snd x) \<Longrightarrow> call_ok k0 k'"
  by (auto simp: plain_def split: prod.splits)

lemma with_path_ok:
  assumes "with_path m a f = Some (r, k')" "\<And>p r k'. f p = Some (r, k') \<Longrightarrow> call_ok k0 k'"
  shows "call_ok k0 k'"
  using assms by (auto simp: with_path_def bind_eq_Some_conv)

lemma current_calls:
  assumes "call_ok k0 k"
  shows "call_ok k0 (snd (posix_getpid k))" "call_ok k0 (snd (posix_getppid k))" "call_ok k0 (snd (sys_getcwd a b k))"
proof -
  obtain c where c: "process_core_current k = (c, k)" using fd_current [OF call_inv [OF assms]] .
  show "call_ok k0 (snd (posix_getpid k))" "call_ok k0 (snd (posix_getppid k))"
    using assms by (simp_all add: posix_getpid_def posix_getppid_def c)
  show "call_ok k0 (snd (sys_getcwd a b k))"
    using fs_core_get_cwd_path_ok [OF assms] by (auto simp: sys_getcwd_def Let_def split: prod.splits)
qed

lemma posix_path_calls:
  assumes "call_ok k0 k"
  shows "call_ok k0 (snd (posix_stat S p null k))" "call_ok k0 (snd (posix_access S p mode k))" "call_ok k0 (snd (posix_unlink p k))"
    "call_ok k0 (snd (posix_rmdir p k))" "call_ok k0 (snd (posix_symlink t p k))" "call_ok k0 (snd (posix_readlink p null cap k))"
    "call_ok k0 (snd (posix_getdents p null cap k))"
proof -
  note pc = path_calls [OF assms]
  show "call_ok k0 (snd (posix_stat S p null k))"
    using assms pc(2) [of S p] by (auto simp: posix_stat_def Let_def split: prod.splits sum.splits)
  show "call_ok k0 (snd (posix_access S p mode k))"
    using assms pc(2) [of S p] by (auto simp: posix_access_def Let_def split: prod.splits sum.splits)
  show "call_ok k0 (snd (posix_unlink p k))" using pc(3) [of p] by (auto simp: posix_unlink_def split: prod.splits)
  show "call_ok k0 (snd (posix_rmdir p k))" using pc(4) [of p] by (auto simp: posix_rmdir_def split: prod.splits)
  show "call_ok k0 (snd (posix_symlink t p k))"
    using fs_core_symlink_ok [OF assms, of t p] by (auto simp: posix_symlink_def split: prod.splits)
  show "call_ok k0 (snd (posix_readlink p null cap k))"
    using assms pc(5) [of p "unat cap"] by (auto simp: posix_readlink_def Let_def split: prod.splits sum.splits)
  show "call_ok k0 (snd (posix_getdents p null cap k))"
    using assms pc(6) [of p "unat (if 32 < cap then 32 else cap)"] by (auto simp: posix_getdents_def Let_def split: prod.splits sum.splits)
qed

lemma nanosleep_ok: "call_ok k0 k \<Longrightarrow> posix_nanosleep S req k = Some (r, k') \<Longrightarrow> call_ok k0 k'"
  by (auto simp: posix_nanosleep_def Let_def split: option.splits if_splits)

lemma if_SomeE:
  assumes "(if P then x else y) = Some z" "P \<Longrightarrow> x = Some z \<Longrightarrow> Q" "\<not> P \<Longrightarrow> y = Some z \<Longrightarrow> Q"
  shows Q
  using assms by (cases P) simp_all

lemmas plain_calls =
  fd_core_open_ok fd_core_close_ok fd_core_write_ok fd_core_lseek_ok fd_core_dup_ok fd_core_dup2_ok fd_core_isatty_ok
  posix_path_calls current_calls

lemmas plain_defs =
  posix_open_def posix_close_def posix_write_def posix_lseek_def posix_dup_def posix_dup2_def posix_isatty_def

lemma case_pair_ok: "(case x of (r, k1) \<Rightarrow> Some (f r, k1)) = Some (z, k') \<Longrightarrow> call_ok k0 (snd x) \<Longrightarrow> call_ok k0 k'"
  by (cases x) simp

lemma case_triple_ok: "(case x of ((r, st), k1) \<Rightarrow> Some (f r st, k1)) = Some (z, k') \<Longrightarrow> call_ok k0 (snd x) \<Longrightarrow> call_ok k0 k'"
  by (auto split: prod.splits)

lemma sys_call_ok:
  assumes "call_ok k0 k" "sys_call S nr a0 a1 a2 m k = Some (r, k')"
  shows "call_ok k0 k'"
proof -
  note c = plain_calls [OF assms(1)] path_calls [OF assms(1)]
  show ?thesis
    using assms(2) unfolding sys_call_def
  proof (elim if_SomeE)
    assume "map_option (\<lambda>((r, bs), k1). ((r, [(a1, bs)]), k1)) (posix_read S (sint a0) (a1 = 0) a2 k) = Some (r, k')"
    then show ?thesis using fd_core_read_ok [OF assms(1)] by (auto simp: posix_read_def)
  next
    assume "plain (posix_write S (sint a0) (buffer_at m a1 a2) k) = Some (r, k')"
    then show ?thesis by (rule plain_ok) (simp add: plain_defs c)
  next
    assume "with_path m a0 (\<lambda>p. plain (posix_open S p a1 k)) = Some (r, k')"
    then show ?thesis by (rule with_path_ok) (erule plain_ok, simp add: plain_defs c)
  next
    assume "plain (posix_close (sint a0) k) = Some (r, k')"
    then show ?thesis by (rule plain_ok) (simp add: plain_defs c)
  next
    assume "(case posix_fstat S (sint a0) (a1 = 0) k of
              ((r, st), k1) \<Rightarrow> Some ((r, case st of None \<Rightarrow> [] | Some st \<Rightarrow> [(a1, stat_bytes st)]), k1)) = Some (r, k')"
    then show ?thesis by (rule case_triple_ok) (simp add: posix_fstat_def fd_core_fstat_ok [OF assms(1)])
  next
    assume "plain (posix_lseek S (sint a0) (sint a1) a2 k) = Some (r, k')"
    then show ?thesis by (rule plain_ok) (simp add: plain_defs c)
  next
    assume "with_path m a0 (\<lambda>p. case posix_stat S p (a1 = 0) k of
              ((r, st), k1) \<Rightarrow> Some ((r, case st of None \<Rightarrow> [] | Some st \<Rightarrow> [(a1, stat_bytes st)]), k1)) = Some (r, k')"
    then show ?thesis by (rule with_path_ok) (erule case_triple_ok, simp add: c)
  next
    assume "Some (sys_getcwd a0 a1 k) = Some (r, k')"
    then show ?thesis using c by (metis option.inject snd_conv)
  next
    assume "with_path m a0 (\<lambda>p. case fs_core_change_dir p k of (rc, k1) \<Rightarrow> Some ((- fs_core_to_errno rc, []), k1)) = Some (r, k')"
    then show ?thesis by (rule with_path_ok) (erule case_pair_ok, rule fs_core_change_dir_ok [OF assms(1)])
  next
    assume "with_path m a0 (\<lambda>p. case fs_core_make_dir p k of (rc, k1) \<Rightarrow> Some ((- fs_core_to_errno rc, []), k1)) = Some (r, k')"
    then show ?thesis by (rule with_path_ok) (erule case_pair_ok, simp add: c)
  next
    assume "Option.bind (posix_ioctl S (sint a0) a1 a2 (tty_line_at m a2) k) plain = Some (r, k')"
    then show ?thesis
      using fd_core_ioctl_ok [OF assms(1)] by (auto simp: bind_eq_Some_conv posix_ioctl_def plain_def)
  next
    assume "map_option (\<lambda>(r, k1). ((r, if r = 0 \<and> a1 \<noteq> 0 then [(a1, replicate 8 (CHR 0x00))] else []), k1))
             (posix_nanosleep S (timespec_at m a0) k) = Some (r, k')"
    then show ?thesis using nanosleep_ok [OF assms(1)] by auto
  next
    assume "plain (posix_sync, k) = Some (r, k')"
    then show ?thesis using assms(1) by (auto simp: plain_def)
  next
    assume "plain (posix_reboot S a0 k) = Some (r, k')"
    then show ?thesis by (rule plain_ok) (use assms(1) in \<open>simp add: posix_reboot_def\<close>)
  next
    assume "with_path m a0 (\<lambda>t. with_path m a1 (\<lambda>l. plain (posix_symlink t l k))) = Some (r, k')"
    then show ?thesis by (rule with_path_ok) (erule with_path_ok, erule plain_ok, simp add: c)
  next
    assume "with_path m a0 (\<lambda>p. case posix_readlink p (a1 = 0) a2 k of
              ((r, t), k1) \<Rightarrow> Some ((r, case t of None \<Rightarrow> [] | Some t \<Rightarrow> [(a1, t @ [CHR 0x00])]), k1)) = Some (r, k')"
    then show ?thesis by (rule with_path_ok) (erule case_triple_ok, simp add: c)
  next
    assume "with_path m a0 (\<lambda>p. case posix_getdents p (a1 = 0) a2 k of ((r, es), k1) \<Rightarrow> Some ((r, dirent_writes a1 es), k1)) = Some (r, k')"
    then show ?thesis by (rule with_path_ok) (erule case_triple_ok, simp add: c)
  next
    assume "Some ((- POSIX_EINVAL, []), k) = Some (r, k')"
    then show ?thesis using assms(1) by simp
  qed ((erule plain_ok, simp add: plain_defs c) | (erule with_path_ok, erule plain_ok, simp add: c))+
qed

end
