(* ===== verification/Proc_Ops.thy ===== *)
theory Proc_Ops
  imports Fd_Calls
begin

text \<open>
  What creating, ending and reaping a process does: a child inherits the descriptors and the
  directory of its parent, no other process notices, and the invariant of \<open>Fd_Ops\<close> is kept, so that
  no description is lost and none is freed too early.
\<close>

definition proc_info :: "('s, 'c) kernel \<Rightarrow> nat \<Rightarrow> u32 \<times> u32 \<times> process_state \<times> string" where
  "proc_info k i = (pid (g_processes k i), ppid (g_processes k i), pstate (g_processes k i), cwd (g_processes k i))"

lemma proc_info_pstate: "pstate (g_processes k i) = fst (snd (snd (proc_info k i)))"
  by (simp add: proc_info_def)

lemma proc_info_frame: "fd_frame k k' \<Longrightarrow> proc_info k' = proc_info k"
  by (auto simp: proc_info_def fd_frame_fields fd_frame_pstate fun_eq_iff)

lemma fd_view_upd_proc:
  "(\<And>p. ptable (f p) = ptable p) \<Longrightarrow> fd_view (upd_proc i f k) = fd_view k"
  by (auto simp: fd_view_def fun_eq_iff)

lemma fd_view_globals [simp]:
  "fd_view (k\<lparr>g_current_process := c\<rparr>) = fd_view k" "fd_view (k\<lparr>g_next_pid := n\<rparr>) = fd_view k"
  by (simp_all add: fd_view_def fun_eq_iff)

lemma clear_view: "fd_view (upd_proc i (\<lambda>_. process_clear\<lparr>pid := a, ppid := b, pstate := st, user_sp := sp, cwd := d\<rparr>) k) =
    (\<lambda>(j, fd). if j = i then None else fd_view k (j, fd))"
  "fd_view (upd_proc i (\<lambda>_. process_clear) k) = (\<lambda>(j, fd). if j = i then None else fd_view k (j, fd))"
  by (auto simp: fd_view_def fun_eq_iff process_clear_def fd_core_table_reset_def fd_zero_entry_def)

subsection \<open>Creating a process\<close>

definition spawned :: "nat \<Rightarrow> nat \<Rightarrow> ('s, 'c) kernel \<Rightarrow> ('s, 'c) kernel \<Rightarrow> bool" where
  "spawned c ch k k' \<longleftrightarrow>
     fd_inv k' \<and> g_current_process k' = Some ch \<and> ch < PROCESS_MAX \<and> pstate (g_processes k ch) = PROCESS_STATE_UNUSED \<and>
     g_next_pid k' = g_next_pid k + 1 \<and> g_root_driver k' = g_root_driver k \<and>
     proc_info k' = (proc_info k)(ch := (g_next_pid k, pid (g_processes k c), PROCESS_STATE_RUNNING,
                                         process_copy_string FS_PATH_CAP (cwd (g_processes k c)))) \<and>
     (\<forall>j fd. fd_view k' (j, fd) = fd_view k (if j = ch then c else j, fd))"

lemma spawn_exec_child:
  assumes "fd_inv k" "g_current_process k = Some c"
    "List.find (\<lambda>i. pstate (g_processes k i) = PROCESS_STATE_UNUSED) [0..<PROCESS_MAX] = Some ch"
  shows "\<exists>k'. process_core_spawn_exec path arch entry sc fsz sp k = (Some ch, k') \<and> spawned c ch k k'"
proof -
  have ch: "ch < PROCESS_MAX" "pstate (g_processes k ch) = PROCESS_STATE_UNUSED" using assms(3) by (auto simp: find_Some_iff)
  have c: "c < PROCESS_MAX" "pstate (g_processes k c) \<noteq> PROCESS_STATE_UNUSED" using fd_invD(5) [OF assms(1)] assms(2) by auto
  have ne: "ch \<noteq> c" using ch c by auto
  define k1 where "k1 = upd_proc ch (\<lambda>_. process_clear\<lparr>pid := g_next_pid k, ppid := pid (g_processes k c),
    pstate := PROCESS_STATE_RUNNING, user_sp := sp, cwd := process_copy_string FS_PATH_CAP (cwd (g_processes k c))\<rparr>)
    (k\<lparr>g_next_pid := g_next_pid k + 1\<rparr>)"
  have v1: "fd_view k1 = fd_view k"
    unfolding k1_def clear_view using fd_invD(3) [OF assms(1) ch] by (auto simp: fun_eq_iff)
  have d1: "g_descriptions k1 = g_descriptions k" "g_current_process k1 = Some c" "g_root_driver k1 = g_root_driver k"
    "g_descriptions_initialized k1 = g_descriptions_initialized k" "g_next_pid k1 = g_next_pid k + 1"
    using assms(2) by (simp_all add: k1_def)
  have t1: "table_of j k1 = table_of j k" if "j \<noteq> ch" for j using that by (simp add: k1_def)
  have r1: "refs_ok (fd_view k1) (g_descriptions k1)" using fd_invD(2) [OF assms(1)] by (simp add: v1 d1)
  have i1: "initialized (table_of c k1)" using fd_invD(4) [OF assms(1) c] ne t1 by simp
  have n1: "fd_view k1 (ch, fd) = None" for fd using v1 fd_invD(3) [OF assms(1) ch] by simp
  obtain rc k2 where cl: "fd_core_table_clone ch c k1 = (rc, k2)" by fastforce
  note cs = fd_core_table_clone_step [OF r1 ch(1) c(1) ne i1 n1 cl]
  note t = table_stepD [OF cs(2)]
  let ?k' = "(process_core_record_exec_image ch path arch entry sc fsz k2)\<lparr>g_current_process := Some ch\<rparr>"
  have eq: "process_core_spawn_exec path arch entry sc fsz sp k = (Some ch, ?k')"
    using assms(2,3) cs(1) cl by (simp add: process_core_spawn_exec_def process_core_current_def k1_def Let_def)
  have v: "fd_view ?k' = fd_view k2"
    unfolding process_core_record_exec_image_def fd_view_globals by (rule fd_view_upd_proc) simp
  have pi: "proc_info ?k' = proc_info k2" by (auto simp: proc_info_def process_core_record_exec_image_def fun_eq_iff)
  have pi1: "proc_info k1 = (proc_info k)(ch := (g_next_pid k, pid (g_processes k c), PROCESS_STATE_RUNNING,
      process_copy_string FS_PATH_CAP (cwd (g_processes k c))))"
    by (auto simp: proc_info_def k1_def fun_eq_iff)
  have pk: "proc_info ?k' = proc_info k1" unfolding pi by (rule proc_info_frame [OF t(2)])
  have view: "fd_view ?k' (j, fd) = fd_view k (if j = ch then c else j, fd)" for j fd
    unfolding v using cs(3) t(3) v1 by simp
  have ini: "initialized (table_of j ?k') = (j = ch \<or> initialized (table_of j k))" for j
    using cs(4) t(4) t1 by (auto simp: process_core_record_exec_image_def)
  have ps: "pstate (g_processes ?k' j) = (if j = ch then PROCESS_STATE_RUNNING else pstate (g_processes k j))" for j
    unfolding proc_info_pstate pk pi1 by (simp add: proc_info_def)
  have f2: "g_descriptions_initialized k2" "g_next_pid k2 = g_next_pid k + 1" "g_root_driver k2 = g_root_driver k"
    using t(2) fd_invD(1) [OF assms(1)] by (simp_all add: fd_frame_def d1)
  have "fd_inv ?k'"
    unfolding fd_inv_def ps ini v
    using t(1) f2(1) ch(1) fd_invD(3,4) [OF assms(1)] view [unfolded v] by (auto simp: process_core_record_exec_image_def)
  then have "spawned c ch k ?k'"
    unfolding spawned_def pk pi1 view using ch f2 by (simp add: process_core_record_exec_image_def)
  then show ?thesis using eq by blast
qed

lemma spawn_exec_full:
  assumes "fd_inv k" "List.find (\<lambda>i. pstate (g_processes k i) = PROCESS_STATE_UNUSED) [0..<PROCESS_MAX] = None"
  shows "process_core_spawn_exec path arch entry sc fsz sp k = (None, k)"
proof -
  obtain c where "process_core_current k = (c, k)" using fd_current [OF assms(1)] .
  then show ?thesis using assms(2) by (simp add: process_core_spawn_exec_def)
qed

subsection \<open>Ending a process\<close>

lemma fd_inv_current:
  assumes "fd_inv k" "p < PROCESS_MAX" "pstate (g_processes k p) \<noteq> PROCESS_STATE_UNUSED"
  shows "fd_inv (k\<lparr>g_current_process := Some p\<rparr>)"
  using assms unfolding fd_inv_def by simp

lemma exit_current:
  assumes "fd_inv k" "g_current_process k = Some c" "process_find_pid (ppid (g_processes k c)) k = Some p" "p \<noteq> c"
  shows "fd_inv (process_core_exit_current st k)" "g_current_process (process_core_exit_current st k) = Some p"
    "fd_view (process_core_exit_current st k) = fd_view k"
    "proc_info (process_core_exit_current st k) = (proc_info k)(
       c := (pid (g_processes k c), ppid (g_processes k c), PROCESS_STATE_ZOMBIE, cwd (g_processes k c)),
       p := (pid (g_processes k p), ppid (g_processes k p), PROCESS_STATE_RUNNING, cwd (g_processes k p)))"
    "g_next_pid (process_core_exit_current st k) = g_next_pid k" "g_root_driver (process_core_exit_current st k) = g_root_driver k"
    "g_descriptions (process_core_exit_current st k) = g_descriptions k" "fs_state (process_core_exit_current st k) = fs_state k"
proof -
  have c: "c < PROCESS_MAX" "pstate (g_processes k c) \<noteq> PROCESS_STATE_UNUSED" using fd_invD(5) [OF assms(1)] assms(2) by auto
  have p: "p < PROCESS_MAX" "pstate (g_processes k p) \<noteq> PROCESS_STATE_UNUSED"
    using assms(3) by (auto simp: process_find_pid_def find_Some_iff)
  let ?k1 = "upd_proc c (\<lambda>p. p\<lparr>exit_status := st, pstate := PROCESS_STATE_ZOMBIE\<rparr>) k"
  have "process_find_pid (ppid (g_processes ?k1 c)) ?k1 = process_find_pid (ppid (g_processes k c)) k"
    unfolding process_find_pid_def using c by (intro arg_cong2 [where f = List.find]) (auto simp: fun_eq_iff)
  then have f: "process_find_pid (ppid (g_processes ?k1 c)) ?k1 = Some p" using assms(3) by simp
  let ?k' = "(upd_proc p (\<lambda>p. p\<lparr>pstate := PROCESS_STATE_RUNNING\<rparr>) ?k1)\<lparr>g_current_process := Some p\<rparr>"
  have eq: "process_core_exit_current st k = ?k'"
    unfolding process_core_exit_current_def process_core_current_def assms(2) Let_def option.case prod.case f ..
  have v: "fd_view ?k' = fd_view k" by (auto simp: fd_view_def fun_eq_iff)
  show "fd_view (process_core_exit_current st k) = fd_view k" unfolding eq by (rule v)
  show "g_current_process (process_core_exit_current st k) = Some p"
    "g_next_pid (process_core_exit_current st k) = g_next_pid k" "g_root_driver (process_core_exit_current st k) = g_root_driver k"
    "g_descriptions (process_core_exit_current st k) = g_descriptions k" "fs_state (process_core_exit_current st k) = fs_state k"
    unfolding eq by simp_all
  show "proc_info (process_core_exit_current st k) = (proc_info k)(
       c := (pid (g_processes k c), ppid (g_processes k c), PROCESS_STATE_ZOMBIE, cwd (g_processes k c)),
       p := (pid (g_processes k p), ppid (g_processes k p), PROCESS_STATE_RUNNING, cwd (g_processes k p)))"
    unfolding eq using assms(4) by (auto simp: proc_info_def fun_eq_iff)
  let ?k2 = "upd_proc p (\<lambda>p. p\<lparr>pstate := PROCESS_STATE_RUNNING\<rparr>) ?k1"
  have "fd_view ?k2 = fd_view k" by (auto simp: fd_view_def fun_eq_iff)
  then have "fd_inv ?k2" by (rule fd_inv_cong [OF assms(1)]) (use c p in auto)
  then show "fd_inv (process_core_exit_current st k)" unfolding eq by (rule fd_inv_current) (use p in simp_all)
qed

lemma reap_zombie:
  assumes "fd_inv k" "i < PROCESS_MAX" "pstate (g_processes k i) = PROCESS_STATE_ZOMBIE" "g_current_process k \<noteq> Some i"
  shows "fd_inv (process_core_reap i k)" "g_current_process (process_core_reap i k) = g_current_process k"
    "proc_info (process_core_reap i k) = (proc_info k)(i := (0, 0, PROCESS_STATE_UNUSED, []))"
    "fd_view (process_core_reap i k) (j, fd) = (if j = i then None else fd_view k (j, fd))"
    "g_next_pid (process_core_reap i k) = g_next_pid k" "g_root_driver (process_core_reap i k) = g_root_driver k"
proof -
  let ?k1 = "fd_core_table_destroy i k"
  let ?k' = "upd_proc i (\<lambda>_. process_clear) ?k1"
  note d = fd_core_table_destroy_step [OF fd_invD(2) [OF assms(1)] assms(2)]
  note t = table_stepD [OF d(1)]
  have eq: "process_core_reap i k = ?k'" using assms(3) by (simp add: process_core_reap_def)
  have v: "fd_view ?k' = fd_view ?k1" unfolding clear_view using d(2) by (auto simp: fun_eq_iff)
  have view: "fd_view ?k' (j, fd) = (if j = i then None else fd_view k (j, fd))" for j fd
    unfolding v using d(2) t(3) by simp
  have ps: "pstate (g_processes ?k' j) = (if j = i then PROCESS_STATE_UNUSED else pstate (g_processes k j))" for j
    using fd_frame_pstate [OF t(2)] by (simp add: process_clear_def)
  have ini: "initialized (table_of j ?k') = initialized (table_of j k)" if "j \<noteq> i" for j using t(4) that by simp
  have f: "g_current_process ?k1 = g_current_process k" "g_descriptions_initialized ?k1"
    using t(2) fd_invD(1) [OF assms(1)] by (simp_all add: fd_frame_def)
  obtain c where c: "c < PROCESS_MAX" "g_current_process k = Some c" "pstate (g_processes k c) \<noteq> PROCESS_STATE_UNUSED"
    using fd_invD(5) [OF assms(1)] by blast
  then have "c \<noteq> i" using assms(4) by auto
  show "fd_inv (process_core_reap i k)"
    unfolding eq fd_inv_def ps v using t(1) f c \<open>c \<noteq> i\<close> ini fd_invD(3,4) [OF assms(1)] view [unfolded v] by auto
  show "fd_view (process_core_reap i k) (j, fd) = (if j = i then None else fd_view k (j, fd))" unfolding eq by (rule view)
  show "g_current_process (process_core_reap i k) = g_current_process k" "g_next_pid (process_core_reap i k) = g_next_pid k"
    "g_root_driver (process_core_reap i k) = g_root_driver k"
    unfolding eq using t(2) by (simp_all add: fd_frame_def)
  show "proc_info (process_core_reap i k) = (proc_info k)(i := (0, 0, PROCESS_STATE_UNUSED, []))"
    unfolding eq using proc_info_frame [OF t(2)] by (auto simp: proc_info_def process_clear_def fun_eq_iff)
qed

end
