(* ===== verification/Machine.thy ===== *)
theory Machine
  imports Syscall Proc_Ops
begin

text \<open>
  The machine that runs user programs: the steps of a program are stores to the pages that user mode
  may write and system calls, and each running program has the frame of the \<open>usermode_exec\<close> that
  started it. The invariant of the machine says that the processes are exactly the kernel shell and
  the programs with a frame, each the child of the one below, with consistent descriptors; and a
  program leaves the descriptors and directories of all other processes as it found them.
\<close>

subsection \<open>The loader leaves the processes alone\<close>

definition quiet :: "('s, 'c) kernel \<Rightarrow> ('s, 'c) kernel \<Rightarrow> bool" where
  "quiet k0 k \<longleftrightarrow> g_current_process k0 \<noteq> None \<and> k = k0\<lparr>fs_state := fs_state k, dev_state := dev_state k\<rparr>"

lemma quiet_refl: "g_current_process k \<noteq> None \<Longrightarrow> quiet k k"
  by (simp add: quiet_def)

lemma quiet_fs [simp]: "quiet k0 k \<Longrightarrow> quiet k0 (k\<lparr>fs_state := s\<rparr>)" "quiet k0 k \<Longrightarrow> quiet k0 (k\<lparr>dev_state := d\<rparr>)"
  by (cases k0; cases k; simp add: quiet_def)+

lemma quiet_call: "quiet k0 k \<Longrightarrow> fd_inv k0 \<Longrightarrow> call_ok k0 k"
  unfolding quiet_def by (metis call_refl call_ok_fs)

lemma quiet_same:
  assumes "quiet k0 k"
  shows "fd_view k = fd_view k0" "g_processes k = g_processes k0" "g_current_process k = g_current_process k0" "g_next_pid k = g_next_pid k0"
proof -
  have k: "k = k0\<lparr>fs_state := fs_state k, dev_state := dev_state k\<rparr>" using assms by (simp add: quiet_def)
  show "fd_view k = fd_view k0" "g_processes k = g_processes k0" "g_current_process k = g_current_process k0" "g_next_pid k = g_next_pid k0"
    by (subst k, simp)+
qed

lemma fs_core_read_ok: "quiet k0 k \<Longrightarrow> fs_core_read S node off cap k = Some (r, k') \<Longrightarrow> quiet k0 k'"
  by (auto simp: fs_core_read_def split: if_splits option.splits)

lemma fs_core_close_ok: "quiet k0 k \<Longrightarrow> quiet k0 (snd (fs_core_close n k))"
proof -
  assume k: "quiet k0 k"
  obtain s where "snd (fs_core_close n k) = k\<lparr>fs_state := s\<rparr>" by (rule fs_core_close_frame)
  then show ?thesis using k by simp
qed

lemma fs_core_open_ok: "quiet k0 k \<Longrightarrow> quiet k0 (snd (fs_core_open path fl k))"
proof -
  assume k: "quiet k0 k"
  obtain c where "g_current_process k = Some c" using k quiet_same(3) [OF k] by (auto simp: quiet_def)
  from fs_core_open_frame [OF this] obtain s where "snd (fs_core_open path fl k) = k\<lparr>fs_state := s\<rparr>" .
  then show ?thesis using k by simp
qed

lemma fs_core_stat_ok: "quiet k0 k \<Longrightarrow> quiet k0 (snd (fs_core_stat S path k))"
proof -
  assume k: "quiet k0 k"
  obtain c where "g_current_process k = Some c" using k quiet_same(3) [OF k] by (auto simp: quiet_def)
  then obtain r where "full_path_of path k = (r, k)" by (rule full_path_of_same)
  then show ?thesis using k by (auto simp: fs_core_stat_def split: sum.split option.split)
qed

lemma read_exact_ok:
  assumes "read_exact_loop S node off sz dn acc k = Some y" "quiet k0 k"
  shows "quiet k0 (snd y)"
proof -
  have "quiet k0 k \<longrightarrow> quiet k0 (snd y)"
  proof (rule read_exact_loop.raw_induct [where P = "\<lambda>S node off sz dn acc k y. quiet k0 k \<longrightarrow> quiet k0 (snd y)", OF _ assms(1)])
    fix f S node off sz dn acc and k :: "('a, 'b) kernel" and y
    assume ih: "\<And>S node off sz dn acc k y. f S node off sz dn acc k = Some y \<Longrightarrow> quiet k0 k \<longrightarrow> quiet k0 (snd y)"
      and e: "(if dn < sz
        then Option.bind (fs_core_read S node (off + dn) (min (sz - dn) SPRG_STREAM_CHUNK) k)
          (\<lambda>(r, k1). case r of Inl e \<Rightarrow> Some (Inl SPRG_ERR_INVALID, k1)
             | Inr bs \<Rightarrow> if of_nat (length bs) = (0 :: u32) then Some (Inl SPRG_ERR_INVALID, k1)
                 else f S node off sz (dn + of_nat (length bs)) (acc @ bs) k1)
        else Some (Inr acc, k)) = Some y"
    show "quiet k0 k \<longrightarrow> quiet k0 (snd y)"
    proof
      assume k: "quiet k0 k"
      show "quiet k0 (snd y)"
      proof (cases "dn < sz")
        case True
        then obtain r k1 where "fs_core_read S node (off + dn) (min (sz - dn) SPRG_STREAM_CHUNK) k = Some (r, k1)"
          and y: "(case r of Inl e \<Rightarrow> Some (Inl SPRG_ERR_INVALID, k1)
             | Inr bs \<Rightarrow> if of_nat (length bs) = (0 :: u32) then Some (Inl SPRG_ERR_INVALID, k1)
                 else f S node off sz (dn + of_nat (length bs)) (acc @ bs) k1) = Some y"
          using e by (auto simp: bind_eq_Some_conv)
        then have "quiet k0 k1" using fs_core_read_ok [OF k] by blast
        then show ?thesis using y ih by (auto split: sum.splits if_splits)
      qed (use e k in auto)
    qed
  qed
  then show ?thesis using assms(2) by simp
qed

lemma load_data_ok:
  assumes "load_data S node off start filesz dn m k = Some y" "quiet k0 k"
  shows "quiet k0 (snd (snd y))"
proof -
  have "quiet k0 k \<longrightarrow> quiet k0 (snd (snd y))"
  proof (rule load_data.raw_induct [where P = "\<lambda>S node off start filesz dn m k y. quiet k0 k \<longrightarrow> quiet k0 (snd (snd y))", OF _ assms(1)])
    fix f S node off start filesz dn m and k :: "('a, 'b) kernel" and y
    assume ih: "\<And>S node off start filesz dn m k y. f S node off start filesz dn m k = Some y \<Longrightarrow> quiet k0 k \<longrightarrow> quiet k0 (snd (snd y))"
      and e: "(if dn < filesz
        then Option.bind (fs_core_read S node (off + dn) (min (filesz - dn) SPRG_STREAM_CHUNK) k)
          (\<lambda>(r, k1). case r of Inl e \<Rightarrow> Some (Inl SPRG_ERR_INVALID, m, k1)
             | Inr bs \<Rightarrow> if of_nat (length bs) = (0 :: u32) then Some (Inl SPRG_ERR_INVALID, m, k1)
                 else f S node off start filesz (dn + of_nat (length bs)) (put_bytes (start + dn) bs m) k1)
        else Some (Inr (), m, k)) = Some y"
    show "quiet k0 k \<longrightarrow> quiet k0 (snd (snd y))"
    proof
      assume k: "quiet k0 k"
      show "quiet k0 (snd (snd y))"
      proof (cases "dn < filesz")
        case True
        then obtain r k1 where "fs_core_read S node (off + dn) (min (filesz - dn) SPRG_STREAM_CHUNK) k = Some (r, k1)"
          and y: "(case r of Inl e \<Rightarrow> Some (Inl SPRG_ERR_INVALID, m, k1)
             | Inr bs \<Rightarrow> if of_nat (length bs) = (0 :: u32) then Some (Inl SPRG_ERR_INVALID, m, k1)
                 else f S node off start filesz (dn + of_nat (length bs)) (put_bytes (start + dn) bs m) k1) = Some y"
          using e by (auto simp: bind_eq_Some_conv)
        then have "quiet k0 k1" using fs_core_read_ok [OF k] by blast
        then show ?thesis using y ih by (auto split: sum.splits if_splits)
      qed (use e k in auto)
    qed
  qed
  then show ?thesis using assms(2) by simp
qed

lemma read_phdrs_ok: "read_phdrs S node phoff is k = Some (r, k') \<Longrightarrow> quiet k0 k \<Longrightarrow> quiet k0 k'"
proof (induction "is" arbitrary: k r k')
  case (Cons i "is")
  from Cons.prems(1) obtain r1 k1 where
    e: "sprg_read_exact S node (phoff + of_nat i * SPRG_PHDR_SIZE) SPRG_PHDR_SIZE k = Some (r1, k1)"
    by (auto simp: bind_eq_Some_conv)
  then have k1: "quiet k0 k1" using read_exact_ok [of S node _ _ 0 "[]" k "(r1, k1)" k0] Cons.prems(2) by (simp add: sprg_read_exact_def)
  show ?case
  proof (cases r1)
    case (Inl e')
    then show ?thesis using Cons.prems(1) e k1 by simp
  next
    case (Inr phdr)
    then obtain r2 where "read_phdrs S node phoff is k1 = Some (r2, k')" using Cons.prems(1) e by (auto simp: bind_eq_Some_conv)
    then show ?thesis using Cons.IH k1 by blast
  qed
qed simp

lemma read_image_ok:
  assumes "read_image S node fsz arch k = Some (r, k')" "quiet k0 k"
  shows "quiet k0 k'"
proof -
  from assms(1) obtain r1 k1 where e: "sprg_read_exact S node 0 SPRG_HEADER_SIZE k = Some (r1, k1)"
    by (auto simp: read_image_def bind_eq_Some_conv)
  then have k1: "quiet k0 k1" using read_exact_ok [of S node _ _ 0 "[]" k "(r1, k1)" k0] assms(2) by (simp add: sprg_read_exact_def)
  show ?thesis
  proof (cases r1)
    case (Inl e')
    then show ?thesis using assms(1) e k1 by (simp add: read_image_def)
  next
    case (Inr h)
    then have "k' = k1 \<or> (\<exists>r2. read_phdrs S node (sprg_le32 h 16) [0..<unat (sprg_le32 h 20)] k1 = Some (r2, k'))"
      using assms(1) e by (auto simp: read_image_def Let_def bind_eq_Some_conv split: if_splits)
    then show ?thesis using read_phdrs_ok k1 by blast
  qed
qed

lemma sprg_validate_ok:
  assumes "sprg_core_validate_file S path arch k = Some (r, k')" "quiet k0 k"
  shows "quiet k0 k'"
proof -
  obtain rs k1 where s: "fs_core_stat S path k = (rs, k1)" by fastforce
  then have k1: "quiet k0 k1" using fs_core_stat_ok [OF assms(2), of S path] by simp
  obtain ro k2 where o: "fs_core_open path FS_O_RDONLY k1 = (ro, k2)" by fastforce
  then have k2: "quiet k0 k2" using fs_core_open_ok [OF k1, of path FS_O_RDONLY] by simp
  have "k' \<in> {k, k1, k2} \<or> (\<exists>node fsz r3 k3. read_image S node fsz arch k2 = Some (r3, k3) \<and> k' = snd (fs_core_close node k3))"
  proof (cases path)
    case (Some p)
    show ?thesis
    proof (cases rs)
      case (Inl e)
      then show ?thesis using assms(1) s Some by (auto simp: sprg_core_validate_file_def split: if_splits)
    next
      case st: (Inr st)
      show ?thesis
      proof (cases ro)
        case (Inl e)
        then show ?thesis using assms(1) s o Some st by (auto simp: sprg_core_validate_file_def split: if_splits)
      next
        case (Inr node)
        then show ?thesis using assms(1) s o Some st
          by (auto simp: sprg_core_validate_file_def bind_eq_Some_conv split: if_splits)
      qed
    qed
  qed (use assms(1) in \<open>simp add: sprg_core_validate_file_def\<close>)
  then show ?thesis using assms(2) k1 k2 read_image_ok fs_core_close_ok by blast
qed

lemma load_segments_ok: "load_segments S node lo hi entry segs ex m k = Some (r, m', k') \<Longrightarrow> quiet k0 k \<Longrightarrow> quiet k0 k'"
proof (induction segs arbitrary: ex m k)
  case (Cons seg segs)
  show ?case
  proof (cases "load_data S node (seg_offset seg) (seg_vaddr seg) (seg_filesz seg) 0 m k")
    case None
    then show ?thesis using Cons.prems by (auto simp: Let_def split: if_splits)
  next
    case (Some x)
    then obtain r1 m1 k1 where l: "load_data S node (seg_offset seg) (seg_vaddr seg) (seg_filesz seg) 0 m k = Some (r1, m1, k1)"
      by (cases x) auto
    have k1: "quiet k0 k1" using load_data_ok [OF l Cons.prems(2)] by simp
    have "k' = k \<or> k' = k1 \<or> (\<exists>ex m. load_segments S node lo hi entry segs ex m k1 = Some (r, m', k'))"
      using Cons.prems(1) l by (cases r1) (auto simp: Let_def split: if_splits)
    then show ?thesis using k1 Cons.IH Cons.prems(2) by blast
  qed
qed simp

lemma sprg_load_ok:
  assumes "sprg_core_load_file S path arch lo hi m k = Some (r, m', k')" "quiet k0 k"
  shows "quiet k0 k'"
proof (cases "hi \<le> lo")
  case False
  then obtain r1 k1 where v: "sprg_core_validate_file S path arch k = Some (r1, k1)"
    using assms(1) by (auto simp: sprg_core_load_file_def bind_eq_Some_conv)
  have k1: "quiet k0 k1" using sprg_validate_ok [OF v assms(2)] .
  obtain ro k2 where o: "fs_core_open path FS_O_RDONLY k1 = (ro, k2)" by fastforce
  then have k2: "quiet k0 k2" using fs_core_open_ok [OF k1, of path FS_O_RDONLY] by simp
  have "k' \<in> {k1, k2} \<or> (\<exists>node entry segs r3 m3 k3. load_segments S node lo hi entry segs False m k2 = Some (r3, m3, k3) \<and>
      k' = snd (fs_core_close node k3))"
  proof (cases r1)
    case (Inl e)
    then show ?thesis using False assms(1) v by (simp add: sprg_core_load_file_def)
  next
    case i: (Inr img)
    show ?thesis
    proof (cases ro)
      case (Inl e)
      then show ?thesis using False assms(1) v o i by (simp add: sprg_core_load_file_def)
    next
      case (Inr node)
      then obtain r3 m3 k3 where "load_segments S node lo hi (img_entry img) (img_segments img) False m k2 = Some (r3, m3, k3)"
        "k' = snd (fs_core_close node k3)"
        using False assms(1) v o i by (auto simp: sprg_core_load_file_def bind_eq_Some_conv)
      then show ?thesis by blast
    qed
  qed
  then show ?thesis using k1 k2 load_segments_ok fs_core_close_ok by blast
qed (use assms in \<open>simp add: sprg_core_load_file_def\<close>)

subsection \<open>Starting a program\<close>

definition um_frame :: "('s, 'c) machine \<Rightarrow> ('s, 'c) machine \<Rightarrow> bool" where
  "um_frame mc mc' \<longleftrightarrow>
     g_usermode_exec_depth mc' = g_usermode_exec_depth mc \<and> g_usermode_tss mc' = g_usermode_tss mc \<and>
     g_usermode_saved_esp mc' = g_usermode_saved_esp mc \<and> g_usermode_saved_eflags mc' = g_usermode_saved_eflags mc"

text \<open>
  The pages that user mode may reach belong to the two slots, and those of the two stacks can be
  written. The ranges that \<open>exec_begin\<close> opens belong to the program area of a slot.
\<close>

definition slot_pages :: "paging \<Rightarrow> bool" where
  "slot_pages pg \<longleftrightarrow> (\<forall>p < 16384. user_bit pg p \<longrightarrow> 0x60 \<le> p \<and> p < 0x9F)"

definition stack_pages :: "paging \<Rightarrow> bool" where
  "stack_pages pg \<longleftrightarrow> (\<forall>p. 0x70 \<le> p \<and> p < 0x80 \<or> 0x90 \<le> p \<and> p < 0x9F \<longrightarrow> user_bit pg p \<and> write_bit pg p)"

definition user_pages_ok :: "paging_layout \<Rightarrow> paging \<Rightarrow> bool" where
  "user_pages_ok PL pg \<longleftrightarrow> identity_map PL pg \<and> slot_pages pg \<and> stack_pages pg"

definition program_area :: "u32 \<Rightarrow> u32 \<Rightarrow> bool" where
  "program_area s e \<longleftrightarrow> 0x60000 \<le> s \<and> e \<le> 0x70000 \<or> 0x80000 \<le> s \<and> e \<le> 0x90000"

lemma program_area_mono: "program_area lo hi \<Longrightarrow> lo \<le> s \<Longrightarrow> e \<le> hi \<Longrightarrow> program_area s e"
  unfolding program_area_def by (meson order_trans)

lemma touches_program_area:
  assumes "program_area s e" "touches s e p"
  shows "0x60 \<le> p \<and> p < 0x70 \<or> 0x80 \<le> p \<and> p < 0x90"
proof -
  have "0x60000 \<le> unat s \<and> unat e \<le> 0x70000 \<or> 0x80000 \<le> unat s \<and> unat e \<le> 0x90000"
    using assms(1) by (simp add: program_area_def word_le_nat_alt)
  then show ?thesis using assms(2) unfolding touches_def by linarith
qed

lemma set_user_range_slot:
  assumes "user_pages_ok PL pg" "program_area s e"
  shows "user_pages_ok PL (snd (paging_core_set_user_range s e w pg))"
proof -
  have ok: "identity_map PL pg" "slot_pages pg" "stack_pages pg" using assms(1) by (simp_all add: user_pages_ok_def)
  from set_user_range_spec [OF ok(1), of s e w] obtain pg' where
    p: "snd (paging_core_set_user_range s e w pg) = pg'" "identity_map PL pg'"
    and b: "\<And>p. (user_bit pg' p, write_bit pg' p) = (if touches s e p then (True, w) else (user_bit pg p, write_bit pg p))"
    by (metis snd_conv)
  have ub: "user_bit pg' p \<longleftrightarrow> touches s e p \<or> user_bit pg p" for p using b [of p] by (simp split: if_splits)
  have "slot_pages pg'" using ok(2) touches_program_area [OF assms(2)] unfolding slot_pages_def ub by fastforce
  moreover have "user_bit pg' p \<and> write_bit pg' p" if "0x70 \<le> p \<and> p < 0x80 \<or> 0x90 \<le> p \<and> p < 0x9F" for p
  proof -
    have "\<not> touches s e p" using touches_program_area [OF assms(2), of p] that by linarith
    moreover have "user_bit pg p \<and> write_bit pg p" using ok(3) that unfolding stack_pages_def by blast
    ultimately show ?thesis using b [of p] by simp
  qed
  then have "stack_pages pg'" by (simp add: stack_pages_def)
  ultimately show ?thesis using p by (simp add: user_pages_ok_def)
qed

lemma open_segments_slot:
  assumes "user_pages_ok PL pg" "\<And>seg. seg \<in> set segs \<Longrightarrow> program_area (seg_vaddr seg) (seg_vaddr seg + seg_memsz seg)"
  shows "user_pages_ok PL (snd (open_segments segs pg))"
  using assms
proof (induction segs arbitrary: pg)
  case (Cons seg segs)
  let ?r = "paging_core_set_user_range (seg_vaddr seg) (seg_vaddr seg + seg_memsz seg) (seg_flags seg AND SPRG_FLAG_W \<noteq> 0) pg"
  have "user_pages_ok PL (snd ?r)" using Cons.prems(2) [of seg] by (intro set_user_range_slot Cons.prems(1)) auto
  then show ?case using Cons.IH [of "snd ?r"] Cons.prems(2) by (simp add: case_prod_beta)
qed simp

text \<open>\<open>usermode_init\<close> opens the stacks, on tables that let user mode reach nothing so far.\<close>

lemma usermode_init_pages:
  assumes "identity_map PL (pgs mc)" "\<And>p. p < 16384 \<Longrightarrow> \<not> user_bit (pgs mc) p"
  shows "user_pages_ok PL (pgs (snd (usermode_init L mc)))" "kern (snd (usermode_init L mc)) = kern mc"
    "g_usermode_exec_depth (snd (usermode_init L mc)) = 0"
    "mem (snd (usermode_init L mc)) = put_bytes (stacks_addr L) (replicate 8192 (CHR 0x00)) (mem mc)"
proof -
  obtain pg1 where r1: "paging_core_set_user_range USERMODE_I386_STACK_MIN USERMODE_I386_STACK_TOP True (pgs mc) = (0, pg1)" "identity_map PL pg1"
    and b1: "\<And>p. (user_bit pg1 p, write_bit pg1 p) =
      (if touches USERMODE_I386_STACK_MIN USERMODE_I386_STACK_TOP p then (True, True) else (user_bit (pgs mc) p, write_bit (pgs mc) p))"
    using set_user_range_spec [OF assms(1), of USERMODE_I386_STACK_MIN USERMODE_I386_STACK_TOP True] by auto
  obtain pg2 where r2: "paging_core_set_user_range USERMODE_I386_SHELL_STACK_MIN USERMODE_I386_SHELL_STACK_TOP True pg1 = (0, pg2)" "identity_map PL pg2"
    and b2: "\<And>p. (user_bit pg2 p, write_bit pg2 p) =
      (if touches USERMODE_I386_SHELL_STACK_MIN USERMODE_I386_SHELL_STACK_TOP p then (True, True) else (user_bit pg1 p, write_bit pg1 p))"
    using set_user_range_spec [OF r1(2), of USERMODE_I386_SHELL_STACK_MIN USERMODE_I386_SHELL_STACK_TOP True] by auto
  have t: "touches USERMODE_I386_STACK_MIN USERMODE_I386_STACK_TOP p \<longleftrightarrow> 0x70 \<le> p \<and> p < 0x80"
    "touches USERMODE_I386_SHELL_STACK_MIN USERMODE_I386_SHELL_STACK_TOP p \<longleftrightarrow> 0x90 \<le> p \<and> p < 0x9F" for p
    unfolding touches_def by auto
  have "0x60 \<le> p \<and> p < 0x9F" if "p < 16384" "user_bit pg2 p" for p
    using that b1 [of p] b2 [of p] assms(2) [OF that(1)] unfolding t by (auto split: if_splits)
  moreover have "user_bit pg2 p \<and> write_bit pg2 p" if "0x70 \<le> p \<and> p < 0x80 \<or> 0x90 \<le> p \<and> p < 0x9F" for p
    using that b1 [of p] b2 [of p] unfolding t by (auto split: if_splits)
  ultimately have "user_pages_ok PL pg2" using r2(2) by (simp add: user_pages_ok_def slot_pages_def stack_pages_def)
  then show "user_pages_ok PL (pgs (snd (usermode_init L mc)))" "kern (snd (usermode_init L mc)) = kern mc"
    "g_usermode_exec_depth (snd (usermode_init L mc)) = 0"
    "mem (snd (usermode_init L mc)) = put_bytes (stacks_addr L) (replicate 8192 (CHR 0x00)) (mem mc)"
    using r1(1) r2(1) by (simp_all add: usermode_init_def Let_def)
qed

lemma load_segments_fits:
  "load_segments S node lo hi entry segs ex m k = Some (Inr b, m', k') \<Longrightarrow> seg \<in> set segs \<Longrightarrow>
   lo \<le> seg_vaddr seg \<and> seg_vaddr seg + seg_memsz seg \<le> hi"
proof (induction segs arbitrary: ex m k)
  case (Cons s segs)
  then obtain r1 m1 k1 where 1: "lo \<le> seg_vaddr s \<and> seg_vaddr s + seg_memsz s \<le> hi"
    "load_data S node (seg_offset s) (seg_vaddr s) (seg_filesz s) 0 m k = Some (r1, m1, k1)"
    by (auto simp: Let_def bind_eq_Some_conv not_less split: if_splits)
  have "\<exists>ex m. load_segments S node lo hi entry segs ex m k1 = Some (Inr b, m', k')"
    using Cons.prems(1) 1(2) by (cases r1) (auto simp: Let_def split: if_splits)
  then show ?case using 1(1) Cons.IH Cons.prems(2) by auto
qed simp

lemma sprg_load_fits:
  assumes "sprg_core_load_file S path arch lo hi m k = Some (Inr img, m', k')" "seg \<in> set (img_segments img)"
  shows "lo \<le> seg_vaddr seg \<and> seg_vaddr seg + seg_memsz seg \<le> hi"
proof -
  have nl: "\<not> hi \<le> lo" using assms(1) by (auto simp: sprg_core_load_file_def)
  then obtain r1 k1 where v: "sprg_core_validate_file S path arch k = Some (r1, k1)"
    using assms(1) by (auto simp: sprg_core_load_file_def bind_eq_Some_conv)
  obtain ro k2 where o: "fs_core_open path FS_O_RDONLY k1 = (ro, k2)" by fastforce
  obtain img1 where i: "r1 = Inr img1" using assms(1) nl v by (cases r1) (auto simp: sprg_core_load_file_def)
  obtain node where n: "ro = Inr node" using assms(1) nl v o i by (cases ro) (auto simp: sprg_core_load_file_def)
  obtain r3 m3 k3 where l: "load_segments S node lo hi (img_entry img1) (img_segments img1) False m k2 = Some (r3, m3, k3)"
    "(case r3 of Inl e \<Rightarrow> Inl e | Inr ex \<Rightarrow> if ex then Inr img1 else Inl SPRG_ERR_BAD_HEADER) = (Inr img :: sprg_image sprg_result)"
    using assms(1) nl v o i n by (auto simp: sprg_core_load_file_def bind_eq_Some_conv)
  then have "img1 = img" "\<exists>b. r3 = Inr b" by (auto split: sum.splits if_splits)
  then show ?thesis using load_segments_fits l(1) assms(2) by blast
qed

lemma exec_slot_range: "exec_slot img d = Inr ((lo, hi), (smin, stop)) \<Longrightarrow> program_area lo hi"
  by (auto simp: exec_slot_def program_area_def split: if_splits)

text \<open>
  The effect of \<open>exec_begin\<close>: a failure is like a call that changes nothing else, and a success is
  such a call followed by the creation of the child.
\<close>

lemma exec_begin_effect:
  assumes "exec_begin S L path argv envp mc = Some (oc, mc')" "fd_inv (kern mc)" "g_current_process (kern mc) = Some c"
    "user_pages_ok PL (pgs mc)"
  shows "user_pages_ok PL (pgs mc') \<and>
    (case oc of
       Exec_Failed rc \<Rightarrow> quiet (kern mc) (kern mc') \<and> um_frame mc mc'
     | Exec_Entered fr entry sp \<Rightarrow>
         (\<exists>k1. quiet (kern mc) k1 \<and> spawned c (ef_child fr) k1 (kern mc')) \<and>
         g_usermode_exec_depth mc < USERMODE_EXEC_DEPTH_MAX \<and> g_usermode_exec_depth mc' = g_usermode_exec_depth mc + 1 \<and>
         ef_saved_esp fr = g_usermode_saved_esp mc \<and> ef_saved_eflags fr = g_usermode_saved_eflags mc \<and>
         ef_tss_esp0 fr = esp0 (g_usermode_tss mc) \<and> ss0 (g_usermode_tss mc') = ss0 (g_usermode_tss mc) \<and>
         iomap_base (g_usermode_tss mc') = iomap_base (g_usermode_tss mc))"
proof -
  have refl: "quiet (kern mc) (kern mc)" using assms(3) by (simp add: quiet_refl)
  show ?thesis
  proof (cases "USERMODE_EXEC_DEPTH_MAX \<le> g_usermode_exec_depth mc")
    case True
    then show ?thesis using assms(1,4) refl by (auto simp: exec_begin_def um_frame_def)
  next
    case d: False
    then obtain p r1 k1 where v: "string_at (mem mc) path = Some p" "sprg_core_validate_file S p SPRG_ARCH_I386 (kern mc) = Some (r1, k1)"
      using assms(1) by (auto simp: exec_begin_def bind_eq_Some_conv)
    have k1: "quiet (kern mc) k1" using sprg_validate_ok [OF v(2) refl] .
    show ?thesis
    proof (cases r1)
      case (Inl e)
      then show ?thesis using assms(1,4) d v k1 by (auto simp: exec_begin_def um_frame_def)
    next
      case i: (Inr img)
      show ?thesis
      proof (cases "exec_slot img (g_usermode_exec_depth mc)")
        case (Inl e)
        then show ?thesis using assms(1,4) d v k1 i by (auto simp: exec_begin_def um_frame_def)
      next
        case (Inr sl)
        then obtain lo hi smin stop where sl: "exec_slot img (g_usermode_exec_depth mc) = Inr ((lo, hi), (smin, stop))"
          by (cases sl) auto
        note rng = exec_slot_range [OF sl]
        obtain r2 m1 k2 where l: "sprg_core_load_file S p SPRG_ARCH_I386 lo hi (mem mc) k1 = Some (r2, m1, k2)"
          using assms(1) d v i sl by (auto simp: exec_begin_def bind_eq_Some_conv)
        have k2: "quiet (kern mc) k2" using sprg_load_ok [OF l k1] .
        show ?thesis
        proof (cases r2)
          case (Inl e)
          then show ?thesis using assms(1,4) d v k2 i sl l by (auto simp: exec_begin_def um_frame_def)
        next
          case i2: (Inr img2)
          have seg: "program_area (seg_vaddr seg) (seg_vaddr seg + seg_memsz seg)" if "seg \<in> set (img_segments img2)" for seg
            using sprg_load_fits [OF l [unfolded i2] that] program_area_mono [OF rng] by blast
          obtain b pg where o: "open_segments (img_segments img2) (pgs mc) = (b, pg)" by fastforce
          have pg: "user_pages_ok PL pg" using open_segments_slot [OF assms(4), of "img_segments img2"] seg o by simp
          obtain r3 m2 where st: "build_initial_stack smin stop path argv envp m1 = (r3, m2)" by fastforce
          let ?mc = "mc\<lparr>kern := k2, pgs := pg, mem := m2\<rparr>"
          show ?thesis
          proof (cases "b \<and> (\<exists>sp. r3 = Inr sp)")
            case False
            then have "\<exists>e. oc = Exec_Failed e \<and> kern mc' = k2 \<and> pgs mc' = pg \<and> um_frame mc mc'"
              using assms(1) d v i sl l i2 o st by (cases b; cases r3) (auto simp: exec_begin_def Let_def um_frame_def)
            then show ?thesis using k2 pg by auto
          next
            case True
            then obtain sp where sp: "r3 = Inr sp" by blast
            have ex: "exec_spawn L path img2 sp ?mc = (oc, mc')"
              using assms(1) d v i sl l i2 o st True sp by (simp add: exec_begin_def Let_def)
            have cur: "g_current_process k2 = Some c" using quiet_same(3) [OF k2] assms(3) by simp
            show ?thesis
            proof (cases "List.find (\<lambda>i. pstate (g_processes k2 i) = PROCESS_STATE_UNUSED) [0..<PROCESS_MAX]")
              case None
              then show ?thesis using ex k2 pg spawn_exec_full [OF call_inv [OF quiet_call [OF k2 assms(2)]] None]
                by (auto simp: exec_spawn_def um_frame_def)
            next
              case (Some ch)
              from spawn_exec_child [OF call_inv [OF quiet_call [OF k2 assms(2)]] cur Some] obtain k3 where
                "process_core_spawn_exec (name_at m2 path) (img_arch img2) (img_entry img2) (of_nat (length (img_segments img2)))
                   (img_file_size img2) sp k2 = (Some ch, k3)" "spawned c ch k2 k3" by blast
              then show ?thesis using ex k2 pg d by (auto simp: exec_spawn_def)
            qed
          qed
        qed
      qed
    qed
  qed
qed

end
