(* ===== verification/Usermode_Stack.thy ===== *)
theory Usermode_Stack
  imports Usermode Fd_Ops
begin

text \<open>
  The initial stack of a program: the argument count, the argument and environment vectors with
  their null pointers, and the strings they point to, all inside the stack range of the slot.
\<close>

subsection \<open>Memory outside a range\<close>

definition agree :: "u32 \<Rightarrow> u32 \<Rightarrow> memory \<Rightarrow> memory \<Rightarrow> bool" where
  "agree lo hi m m' \<longleftrightarrow> (\<forall>x. \<not> (lo \<le> x \<and> x < hi) \<longrightarrow> m' x = m x)"

lemma agree_refl [simp]: "agree lo hi m m"
  by (simp add: agree_def)

lemma agree_trans: "agree lo hi a b \<Longrightarrow> agree lo hi b c \<Longrightarrow> agree lo hi a c"
  by (simp add: agree_def)

lemma agree_put:
  assumes "unat lo \<le> unat a" "unat a + length bs \<le> unat hi"
  shows "agree lo hi m (put_bytes a bs m)"
proof -
  have l: "length bs < 2 ^ 32" "unat a + length bs \<le> 2 ^ 32" using assms(2) unat_u32_less [of hi] by simp_all
  have "\<not> in_range a (length bs) x" if "\<not> (lo \<le> x \<and> x < hi)" for x
    using that assms in_range_iff [OF l(2)] by (auto simp: word_le_nat_alt word_less_nat_alt)
  then show ?thesis using put_bytes_outside [OF l(1)] by (simp add: agree_def)
qed

lemma put_bytes_below:
  assumes "length xs + length ys < 2 ^ 32"
  shows "put_bytes a xs (put_bytes (a + of_nat (length xs)) ys m) = put_bytes a (xs @ ys) m"
proof (rule ext)
  fix x
  have l: "length xs < 2 ^ 32" "length ys < 2 ^ 32" using assms by simp_all
  have d: "\<not> in_range (a + of_nat (length xs)) (length ys) x" if "in_range a (length xs) x"
  proof
    let ?n = "of_nat (length xs) :: u32"
    assume "in_range (a + ?n) (length ys) x"
    then have b: "unat (x - a - ?n) < length ys" by (simp add: in_range_def diff_diff_eq)
    have "unat (x - a) = unat ((x - a - ?n) + ?n)" by simp
    also have "\<dots> = unat (x - a - ?n) + unat ?n"
      by (rule unat_add_no_wrap) (use b assms unat_of_nat_u32 [OF l(1)] in simp)
    finally show False using that unat_of_nat_u32 [OF l(1)] by (simp add: in_range_def)
  qed
  show "put_bytes a xs (put_bytes (a + of_nat (length xs)) ys m) x = put_bytes a (xs @ ys) m x"
  proof (cases "in_range a (length xs) x")
    case True
    then show ?thesis unfolding put_bytes_append using put_bytes_inside [OF l(1) True] put_bytes_outside [OF l(2) d [OF True]] by simp
  next
    case False
    note o = put_bytes_outside [OF l(1) False]
    show ?thesis
    proof (cases "in_range (a + of_nat (length xs)) (length ys) x")
      case True
      then show ?thesis unfolding put_bytes_append o using put_bytes_inside [OF l(2) True] by simp
    next
      case False
      then show ?thesis unfolding put_bytes_append o using put_bytes_outside [OF l(2) False] o by simp
    qed
  qed
qed

lemma copy_bytes_put:
  assumes "\<And>j. j < n \<Longrightarrow> \<not> in_range dst n (src + of_nat j)" "n < 2 ^ 32"
  shows "copy_bytes dst src n m = put_bytes dst (bytes_at m src n) m"
proof -
  have "fold (\<lambda>i m. m(dst + of_nat i := m (src + of_nat i))) [0..<k] m = put_bytes dst (bytes_at m src k) m" if "k \<le> n" for k
    using that
  proof (induction k)
    case (Suc k)
    have "\<not> in_range dst k (src + of_nat k)" using assms(1) [of k] Suc.prems by (simp add: in_range_def)
    then have "put_bytes dst (bytes_at m src k) m (src + of_nat k) = m (src + of_nat k)"
      using assms(2) Suc.prems by (intro put_bytes_outside) simp_all
    moreover have "bytes_at m src (Suc k) = bytes_at m src k @ [m (src + of_nat k)]" by (simp add: bytes_at_def)
    ultimately show ?case using Suc by (simp add: put_bytes_append del: fun_upd_apply)
  qed (simp add: bytes_at_def)
  then show ?thesis by (simp add: copy_bytes_def)
qed

subsection \<open>Strings\<close>

text \<open>A string of at most 127 characters whose bytes lie outside a range.\<close>

definition string_in :: "u32 \<Rightarrow> u32 \<Rightarrow> memory \<Rightarrow> u32 \<Rightarrow> string \<Rightarrow> bool" where
  "string_in lo hi m a s \<longleftrightarrow>
     a \<noteq> 0 \<and> length s < USERMODE_STRING_MAX \<and> CHR 0x00 \<notin> set s \<and> bytes_at m a (length s + 1) = s @ [CHR 0x00] \<and>
     (\<forall>j \<le> length s. \<not> (lo \<le> a + of_nat j \<and> a + of_nat j < hi))"

lemma string_in_agree:
  assumes "string_in lo hi m a s" "agree lo hi m m'"
  shows "string_in lo hi m' a s"
proof -
  have "m' (a + of_nat j) = m (a + of_nat j)" if "j \<le> length s" for j using assms that by (simp add: string_in_def agree_def)
  then have "bytes_at m' a (length s + 1) = bytes_at m a (length s + 1)" by (simp add: bytes_at_def)
  then show ?thesis using assms(1) by (simp add: string_in_def)
qed

lemma bytes_at_nth: "i < n \<Longrightarrow> bytes_at m a n ! i = m (a + of_nat i)"
  by (simp add: bytes_at_def)

lemma copy_stack_string_spec:
  assumes "string_in lo hi m a s" "unat lo + (length s + 1) \<le> unat sp" "sp \<le> hi"
  shows "copy_stack_string lo a sp m = (Inr (sp - of_nat (length s + 1)), put_bytes (sp - of_nat (length s + 1)) (s @ [CHR 0x00]) m)"
    "unat (sp - of_nat (length s + 1)) = unat sp - (length s + 1)"
proof -
  let ?n = "length s + 1"
  note i = assms(1) [unfolded string_in_def]
  have b: "m (a + of_nat j) = (s @ [CHR 0x00]) ! j" if "j < ?n" for j
    using bytes_at_nth [OF that, of m a] i by simp
  have f: "List.find (\<lambda>i. m (a + of_nat i) = CHR 0x00) [0..<USERMODE_STRING_MAX] = Some (length s)"
  proof (rule find_first)
    show "length s < USERMODE_STRING_MAX" using i by blast
    show "m (a + of_nat (length s)) = CHR 0x00" using b [of "length s"] by simp
    show "m (a + of_nat j) \<noteq> CHR 0x00" if "j < length s" for j
    proof -
      have "m (a + of_nat j) = s ! j" using b [of j] that by (simp add: nth_append)
      moreover have "s ! j \<in> set s" using that by simp
      ultimately show ?thesis using i by metis
    qed
  qed
  have n: "unat (of_nat ?n :: u32) = ?n" using i by (intro unat_of_nat_u32) simp
  have "unat (lo + of_nat ?n) = unat lo + ?n"
    using assms(2) unat_u32_less [of sp] n by (subst unat_add_no_wrap) simp_all
  then have ge: "\<not> sp < lo + of_nat ?n" using assms(2) by (simp add: word_less_nat_alt)
  have "of_nat ?n \<le> sp" using assms(2) n by (simp add: word_le_nat_alt)
  then show u: "unat (sp - of_nat ?n) = unat sp - ?n" using n by (simp add: unat_sub)
  have "\<not> in_range (sp - of_nat ?n) ?n (a + of_nat j)" if "j < ?n" for j
  proof -
    have w: "unat (sp - of_nat ?n) + ?n \<le> 2 ^ 32" using u assms(2) unat_u32_less [of sp] by simp
    have "\<not> (lo \<le> a + of_nat j \<and> a + of_nat j < hi)" using i that by simp
    then show ?thesis
      unfolding in_range_iff [OF w] u using assms(2,3) by (auto simp: word_le_nat_alt word_less_nat_alt)
  qed
  then have "copy_bytes (sp - of_nat ?n) a ?n m = put_bytes (sp - of_nat ?n) (bytes_at m a ?n) m"
    by (rule copy_bytes_put) (use i in simp_all)
  then show "copy_stack_string lo a sp m = (Inr (sp - of_nat ?n), put_bytes (sp - of_nat ?n) (s @ [CHR 0x00]) m)"
    using f ge i by (simp add: copy_stack_string_def Let_def)
qed

text \<open>The strings that the loops over a vector copy, whatever has been written to the stack before.\<close>

definition strings_ok :: "u32 \<Rightarrow> u32 \<Rightarrow> (memory \<Rightarrow> nat \<Rightarrow> u32) \<Rightarrow> nat list \<Rightarrow> string list \<Rightarrow> memory \<Rightarrow> bool" where
  "strings_ok lo hi f is ss m \<longleftrightarrow> list_all2 (\<lambda>i s. \<forall>m'. agree lo hi m m' \<longrightarrow> string_in lo hi m' (f m' i) s) is ss"

definition strings_size :: "string list \<Rightarrow> nat" where
  "strings_size ss = sum_list (map (\<lambda>s. length s + 1) ss)"

lemma copy_stack_strings_spec:
  assumes "strings_ok lo hi f is ss m" "unat lo + strings_size ss \<le> unat sp" "sp \<le> hi"
  shows "\<exists>as sp' m'. copy_stack_strings lo f is sp m = (Inr (as, sp'), m') \<and> unat sp' = unat sp - strings_size ss \<and>
    agree sp' sp m m' \<and> list_all2 (\<lambda>a s. unat sp' \<le> unat a \<and> unat a + (length s + 1) \<le> unat sp \<and>
      bytes_at m' a (length s + 1) = s @ [CHR 0x00]) as ss"
  using assms
proof (induction "is" arbitrary: ss sp m)
  case Nil
  then show ?case by (simp add: strings_ok_def strings_size_def)
next
  case (Cons i "is")
  obtain s ss' where ss: "ss = s # ss'" using Cons.prems(1) by (auto simp: strings_ok_def list_all2_Cons1)
  let ?n = "length s + 1"
  have st: "string_in lo hi m (f m i) s" using Cons.prems(1) by (simp add: strings_ok_def ss)
  have room: "unat lo + ?n \<le> unat sp" using Cons.prems(2) by (simp add: ss strings_size_def)
  note c = copy_stack_string_spec [OF st room Cons.prems(3)]
  let ?sp = "sp - of_nat ?n" let ?m = "put_bytes ?sp (s @ [CHR 0x00]) m"
  have len: "length s < 128" using st by (simp add: string_in_def)
  have ag: "agree ?sp sp m ?m" by (rule agree_put) (use c(2) room in simp_all)
  have lo: "unat lo \<le> unat ?sp" "unat sp \<le> unat hi" using c(2) room Cons.prems(3) by (simp_all add: word_le_nat_alt)
  have agl: "agree lo hi m ?m" using ag lo by (auto simp: agree_def word_le_nat_alt word_less_nat_alt)
  have ok: "strings_ok lo hi f is ss' ?m"
    using Cons.prems(1) agree_trans [OF agl] unfolding strings_ok_def ss list_all2_Cons by (blast intro: list_all2_mono)
  have ro: "unat lo + strings_size ss' \<le> unat ?sp" using Cons.prems(2) c(2) by (simp add: ss strings_size_def)
  have hi: "?sp \<le> hi" using lo c(2) by (simp add: word_le_nat_alt)
  from Cons.IH [OF ok ro hi] obtain as sp' m' where r: "copy_stack_strings lo f is ?sp ?m = (Inr (as, sp'), m')"
    "unat sp' = unat ?sp - strings_size ss'" "agree sp' ?sp ?m m'"
    "list_all2 (\<lambda>a s. unat sp' \<le> unat a \<and> unat a + (length s + 1) \<le> unat ?sp \<and> bytes_at m' a (length s + 1) = s @ [CHR 0x00]) as ss'"
    by blast
  have le: "unat sp' \<le> unat ?sp" "unat ?sp \<le> unat sp" using r(2) c(2) by simp_all
  have "bytes_at m' ?sp ?n = bytes_at ?m ?sp ?n"
  proof (rule nth_equalityI)
    fix j assume "j < length (bytes_at m' ?sp ?n)"
    then have j: "j < ?n" by simp
    have "unat (?sp + of_nat j) = unat ?sp + j"
      using j c(2) room len unat_u32_less [of sp] by (subst unat_add_no_wrap) (simp_all add: unat_of_nat_u32)
    then have "\<not> (sp' \<le> ?sp + of_nat j \<and> ?sp + of_nat j < ?sp)" by (simp add: word_less_nat_alt)
    then have "m' (?sp + of_nat j) = ?m (?sp + of_nat j)" using r(3) by (simp add: agree_def)
    then show "bytes_at m' ?sp ?n ! j = bytes_at ?m ?sp ?n ! j" using j by (simp only: bytes_at_nth)
  qed simp
  also have "\<dots> = s @ [CHR 0x00]" using bytes_at_put [of "s @ [CHR 0x00]" ?sp m] len by simp
  finally have b: "bytes_at m' ?sp ?n = s @ [CHR 0x00]" .
  have "agree sp' sp m m'"
    using ag r(3) le by (auto simp: agree_def word_le_nat_alt word_less_nat_alt)
  moreover have "list_all2 (\<lambda>a s. unat sp' \<le> unat a \<and> unat a + (length s + 1) \<le> unat sp \<and> bytes_at m' a (length s + 1) = s @ [CHR 0x00]) (?sp # as) ss"
    unfolding ss list_all2_Cons using le c(2) room b r(4) by (auto elim!: list_all2_mono)
  moreover have "unat sp' = unat sp - strings_size ss" using r(2) c(2) by (simp add: ss strings_size_def)
  ultimately show ?case using r(1) c(1) by (intro exI [of _ "?sp # as"] exI [of _ sp'] exI [of _ m']) simp
qed

subsection \<open>Vectors\<close>

lemma push_u32s_spec:
  assumes "unat lo + 4 * length vs \<le> unat sp"
  shows "push_u32s lo vs sp m = (Inr (sp - 4 * of_nat (length vs)), put_bytes (sp - 4 * of_nat (length vs)) (concat (map le32 (rev vs))) m) \<and>
    unat (sp - 4 * of_nat (length vs)) = unat sp - 4 * length vs"
  using assms
proof (induction vs arbitrary: sp m)
  case (Cons v vs)
  have "unat (lo + 4) = unat lo + 4" using Cons.prems unat_u32_less [of sp] by (subst unat_add_no_wrap) simp_all
  then have ge: "\<not> sp < lo + 4" using Cons.prems by (simp add: word_less_nat_alt)
  have "4 \<le> sp" using Cons.prems by (simp add: word_le_nat_alt)
  then have u: "unat (sp - 4) = unat sp - 4" by (simp add: unat_sub)
  note i = Cons.IH [of "sp - 4" "put_bytes (sp - 4) (le32 v) m"]
  let ?a = "sp - 4 - 4 * of_nat (length vs)"
  have a: "?a = sp - 4 * of_nat (length (v # vs))" by (simp add: algebra_simps)
  have "sp - 4 = ?a + of_nat (length (concat (map le32 (rev vs))))" by simp
  then have "put_bytes ?a (concat (map le32 (rev vs))) (put_bytes (sp - 4) (le32 v) m) =
      put_bytes ?a (concat (map le32 (rev vs)) @ le32 v) m"
    using put_bytes_below [of "concat (map le32 (rev vs))" "le32 v" ?a m] Cons.prems unat_u32_less [of sp] by simp
  then show ?case using i ge u Cons.prems unfolding a by simp
qed simp

text \<open>A vector of strings that ends with a null pointer, outside a range like its strings.\<close>

definition vector :: "u32 \<Rightarrow> u32 \<Rightarrow> memory \<Rightarrow> u32 \<Rightarrow> string list \<Rightarrow> bool" where
  "vector lo hi m arr ss \<longleftrightarrow>
     arr \<noteq> 0 \<and> u32_at m (arr + 4 * of_nat (length ss)) = 0 \<and>
     (\<forall>i < length ss. string_in lo hi m (u32_at m (arr + 4 * of_nat i)) (ss ! i)) \<and>
     (\<forall>j < 4 * length ss + 4. \<not> (lo \<le> arr + of_nat j \<and> arr + of_nat j < hi))"

lemma vector_word:
  assumes "vector lo hi m arr ss" "agree lo hi m m'" "i \<le> length ss"
  shows "u32_at m' (arr + 4 * of_nat i) = u32_at m (arr + 4 * of_nat i)"
proof -
  have b: "m' (arr + 4 * of_nat i + of_nat j) = m (arr + 4 * of_nat i + of_nat j)" if "j < 4" for j
  proof -
    have "arr + 4 * of_nat i + of_nat j = arr + of_nat (4 * i + j)" by simp
    moreover have "4 * i + j < 4 * length ss + 4" using assms(3) that by simp
    then have "\<not> (lo \<le> arr + of_nat (4 * i + j) \<and> arr + of_nat (4 * i + j) < hi)" using assms(1) unfolding vector_def by blast
    then have "m' (arr + of_nat (4 * i + j)) = m (arr + of_nat (4 * i + j))" using assms(2) unfolding agree_def by blast
    ultimately show ?thesis by (simp add: add.assoc)
  qed
  show ?thesis using b [of 0] b [of 1] b [of 2] b [of 3] by (simp add: u32_at_def)
qed

lemma vector_count:
  assumes "vector lo hi m arr ss" "length ss \<le> cap"
  shows "count_pointers cap arr m = Some (length ss)"
proof -
  have "u32_at m (arr + 4 * of_nat i) \<noteq> 0" if "i < length ss" for i using assms(1) that by (simp add: vector_def string_in_def)
  then have "List.find (\<lambda>i. u32_at m (arr + 4 * of_nat i) = 0) [0..<cap + 1] = Some (length ss)"
    using assms by (intro find_first) (simp_all add: vector_def)
  then show ?thesis using assms(1) by (simp add: count_pointers_def vector_def)
qed

lemma vector_strings:
  assumes "vector lo hi m arr ss" "agree lo hi m m1" "\<And>m' i. agree lo hi m m' \<Longrightarrow> i < length ss \<Longrightarrow> f m' i = u32_at m' (arr + 4 * of_nat i)"
  shows "strings_ok lo hi f [0..<length ss] ss m1"
proof -
  have "string_in lo hi m' (f m' i) (ss ! i)" if "agree lo hi m1 m'" "i < length ss" for m' i
  proof -
    have ag: "agree lo hi m m'" using agree_trans assms(2) that(1) .
    then have "f m' i = u32_at m (arr + 4 * of_nat i)" using assms(3) that(2) vector_word [OF assms(1) ag, of i] by simp
    then show ?thesis using string_in_agree [OF _ ag] assms(1) that(2) by (simp add: vector_def)
  qed
  then show ?thesis by (auto simp: strings_ok_def list_all2_conv_all_nth)
qed

text \<open>The arguments of a call of exec: the vector, or the path alone when there is none.\<close>

definition arguments :: "u32 \<Rightarrow> u32 \<Rightarrow> memory \<Rightarrow> u32 \<Rightarrow> u32 \<Rightarrow> string list \<Rightarrow> bool" where
  "arguments lo hi m path argv args \<longleftrightarrow>
     (if argv = 0 then \<exists>p. args = [p] \<and> string_in lo hi m path p
      else args \<noteq> [] \<and> length args \<le> USERMODE_ARG_MAX \<and> vector lo hi m argv args)"

definition environment :: "u32 \<Rightarrow> u32 \<Rightarrow> memory \<Rightarrow> u32 \<Rightarrow> string list \<Rightarrow> bool" where
  "environment lo hi m envp envs \<longleftrightarrow>
     (if envp = 0 then envs = [] else length envs \<le> USERMODE_ENV_MAX \<and> vector lo hi m envp envs)"

lemma environment_strings:
  assumes "environment lo hi m envp envs"
  shows "count_pointers USERMODE_ENV_MAX envp m = Some (length envs)"
    "strings_ok lo hi (\<lambda>m i. u32_at m (envp + 4 * of_nat i)) [0..<length envs] envs m"
proof -
  show "count_pointers USERMODE_ENV_MAX envp m = Some (length envs)"
    using assms vector_count [of lo hi m envp envs USERMODE_ENV_MAX]
    by (cases "envp = 0") (simp_all add: environment_def, simp add: count_pointers_def)
  show "strings_ok lo hi (\<lambda>m i. u32_at m (envp + 4 * of_nat i)) [0..<length envs] envs m"
  proof (cases "envp = 0")
    case False
    then have "vector lo hi m envp envs" using assms by (simp add: environment_def)
    then show ?thesis by (rule vector_strings) simp_all
  qed (use assms in \<open>simp add: environment_def strings_ok_def\<close>)
qed

lemma arguments_strings:
  assumes "arguments lo hi m path argv args" "agree lo hi m m1"
  shows "\<exists>n. count_pointers USERMODE_ARG_MAX argv m = Some n \<and> (if n = 0 then 1 else n) = length args"
    "strings_ok lo hi (\<lambda>m i. if argv \<noteq> 0 \<and> u32_at m argv \<noteq> 0 then u32_at m (argv + 4 * of_nat i) else path) [0..<length args] args m1"
proof -
  have *: "(\<exists>n. count_pointers USERMODE_ARG_MAX argv m = Some n \<and> (if n = 0 then 1 else n) = length args) \<and>
    strings_ok lo hi (\<lambda>m i. if argv \<noteq> 0 \<and> u32_at m argv \<noteq> 0 then u32_at m (argv + 4 * of_nat i) else path) [0..<length args] args m1"
  proof (cases "argv = 0")
    case True
    then obtain p where "args = [p]" "string_in lo hi m path p" using assms(1) by (auto simp: arguments_def)
    then show ?thesis using True string_in_agree agree_trans [OF assms(2)] by (auto simp: count_pointers_def strings_ok_def)
  next
    case False
    then have v: "args \<noteq> []" "length args \<le> USERMODE_ARG_MAX" "vector lo hi m argv args" using assms(1) by (simp_all add: arguments_def)
    have "0 < length args" using v(1) by simp
    then have "string_in lo hi m (u32_at m (argv + 4 * of_nat 0)) (args ! 0)" using v(3) unfolding vector_def by blast
    then have nz: "u32_at m argv \<noteq> 0" by (simp add: string_in_def)
    have w: "u32_at m' argv \<noteq> 0" if "agree lo hi m m'" for m' using vector_word [OF v(3) that, of 0] nz by simp
    have "strings_ok lo hi (\<lambda>m i. if argv \<noteq> 0 \<and> u32_at m argv \<noteq> 0 then u32_at m (argv + 4 * of_nat i) else path) [0..<length args] args m1"
      by (rule vector_strings [OF v(3) assms(2)]) (simp add: w False)
    then show ?thesis using vector_count [OF v(3,2)] v(1) by simp
  qed
  from * show "\<exists>n. count_pointers USERMODE_ARG_MAX argv m = Some n \<and> (if n = 0 then 1 else n) = length args" ..
  from * show "strings_ok lo hi (\<lambda>m i. if argv \<noteq> 0 \<and> u32_at m argv \<noteq> 0 then u32_at m (argv + 4 * of_nat i) else path) [0..<length args] args m1" ..
qed

subsection \<open>The layout\<close>

lemma cstr_of_bytes:
  assumes "bytes_at m a (length s + 1) = s @ [CHR 0x00]" "CHR 0x00 \<notin> set s"
  shows "cstr m a = Some s"
proof -
  have b: "m (a + of_nat i) = (s @ [CHR 0x00]) ! i" if "i < length s + 1" for i using bytes_at_nth [OF that, of m a] assms(1) by simp
  have "m (a + of_nat i) = s ! i" if "i < length s" for i using b [of i] that by (simp add: nth_append)
  moreover have "m (a + of_nat (length s)) = CHR 0x00" using b [of "length s"] by simp
  ultimately show ?thesis using assms(2) by (intro cstr_bytes)
qed

lemma bytes_at_agree:
  assumes "agree lo hi m m'" "unat hi \<le> unat a" "unat a + n \<le> 2 ^ 32"
  shows "bytes_at m' a n = bytes_at m a n"
proof (rule nth_equalityI)
  fix j assume "j < length (bytes_at m' a n)"
  then have j: "j < n" by simp
  have "unat (of_nat j :: u32) = j" using j assms(3) by (intro unat_of_nat_u32) simp
  then have "unat (a + of_nat j) = unat a + j" using j assms(3) by (subst unat_add_no_wrap) simp_all
  then have "\<not> (lo \<le> a + of_nat j \<and> a + of_nat j < hi)" using assms(2) by (simp add: word_less_nat_alt)
  then show "bytes_at m' a n ! j = bytes_at m a n ! j" using assms(1) j by (simp add: bytes_at_nth agree_def)
qed simp

text \<open>What a program finds at its stack pointer.\<close>

definition stack_image :: "memory \<Rightarrow> u32 \<Rightarrow> string list \<Rightarrow> string list \<Rightarrow> bool" where
  "stack_image m sp args envs \<longleftrightarrow>
     u32_at m sp = of_nat (length args) \<and>
     (\<forall>i < length args. cstr m (u32_at m (sp + 4 * of_nat (1 + i))) = Some (args ! i)) \<and>
     u32_at m (sp + 4 * of_nat (1 + length args)) = 0 \<and>
     (\<forall>i < length envs. cstr m (u32_at m (sp + 4 * of_nat (2 + length args + i))) = Some (envs ! i)) \<and>
     u32_at m (sp + 4 * of_nat (2 + length args + length envs)) = 0"

lemma stack_words:
  assumes "length as = length args" "length es = length envs" "length args + length envs < 1000"
    "m' = put_bytes sp (concat (map le32 ([of_nat (length args)] @ as @ [0] @ es @ [0]))) m"
    "\<And>i. i < length args \<Longrightarrow> cstr m' (as ! i) = Some (args ! i)" "\<And>i. i < length envs \<Longrightarrow> cstr m' (es ! i) = Some (envs ! i)"
  shows "stack_image m' sp args envs"
proof -
  let ?ws = "[of_nat (length args)] @ as @ [0] @ es @ [0] :: u32 list"
  have w: "u32_at m' (sp + 4 * of_nat i) = ?ws ! i" if "i < 3 + length args + length envs" for i
    unfolding assms(4) by (rule u32_at_put_words) (use that assms(1-3) in simp_all)
  have n: "?ws ! (1 + length args) = 0" "?ws ! (2 + length args + length envs) = 0"
    "i < length args \<Longrightarrow> ?ws ! (1 + i) = as ! i" "i < length envs \<Longrightarrow> ?ws ! (2 + length args + i) = es ! i" for i
    using assms(1,2) by (auto simp: nth_append nth_Cons' Suc_diff_Suc)
  show ?thesis
    unfolding stack_image_def
    using w [of 0] w [of "1 + length args"] w [of "2 + length args + length envs"] w [of "1 + i" for i] w [of "2 + length args + i" for i]
      n assms(5,6)
    by (auto simp del: of_nat_add)
qed

lemma strings_ok_lengths:
  assumes "strings_ok lo hi f is ss m"
  shows "length ss = length is" "s \<in> set ss \<Longrightarrow> length s < USERMODE_STRING_MAX \<and> CHR 0x00 \<notin> set s" "strings_size ss \<le> 128 * length is"
proof -
  show l: "length ss = length is" using assms by (simp add: strings_ok_def list_all2_lengthD)
  show b: "length s < USERMODE_STRING_MAX \<and> CHR 0x00 \<notin> set s" if s: "s \<in> set ss" for s
  proof -
    obtain j where j: "j < length ss" "ss ! j = s" using s by (auto simp: in_set_conv_nth)
    then have "\<forall>m'. agree lo hi m m' \<longrightarrow> string_in lo hi m' (f m' (is ! j)) s"
      using assms by (auto simp: strings_ok_def list_all2_conv_all_nth)
    then have "string_in lo hi m (f m (is ! j)) s" using agree_refl by blast
    then show ?thesis by (simp add: string_in_def)
  qed
  have "strings_size ss \<le> 128 * length ss" if "\<And>s. s \<in> set ss \<Longrightarrow> length s < USERMODE_STRING_MAX" for ss
    using that by (induction ss) (force simp: strings_size_def)+
  from this [of ss] b l show "strings_size ss \<le> 128 * length is" by simp
qed

lemma build_initial_stack_spec:
  assumes "arguments lo hi m path argv args" "environment lo hi m envp envs" "unat lo + 4096 \<le> unat hi"
  shows "\<exists>sp m'. build_initial_stack lo hi path argv envp m = (Inr sp, m') \<and> stack_image m' sp args envs \<and>
    lo \<le> sp \<and> sp < hi \<and> unat sp mod 4 = 0 \<and> (\<forall>x. x < lo \<or> hi \<le> x \<longrightarrow> m' x = m x)"
proof -
  note ev = environment_strings [OF assms(2)]
  note eb = strings_ok_lengths [OF ev(2)]
  have elen: "length envs \<le> 8" using assms(2) by (auto simp: environment_def split: if_splits)
  have alen: "length args \<le> 16" using assms(1) by (auto simp: arguments_def split: if_splits)
  have "unat lo + strings_size envs \<le> unat hi" using eb(3) elen assms(3) by simp
  from copy_stack_strings_spec [OF ev(2) this order_refl] obtain es sp1 m1 where
    e: "copy_stack_strings lo (\<lambda>m i. u32_at m (envp + 4 * of_nat i)) [0..<length envs] hi m = (Inr (es, sp1), m1)"
    "unat sp1 = unat hi - strings_size envs" "agree sp1 hi m m1"
    "list_all2 (\<lambda>a s. unat sp1 \<le> unat a \<and> unat a + (length s + 1) \<le> unat hi \<and> bytes_at m1 a (length s + 1) = s @ [CHR 0x00]) es envs"
    by blast
  have lo1: "unat lo + 3072 \<le> unat sp1" "unat sp1 \<le> unat hi" using e(2) eb(3) elen assms(3) by simp_all
  have ag1: "agree lo hi m m1" using e(3) lo1 by (auto simp: agree_def word_le_nat_alt word_less_nat_alt)
  obtain n where n: "count_pointers USERMODE_ARG_MAX argv m = Some n" "(if n = 0 then 1 else n) = length args"
    using arguments_strings(1) [OF assms(1) ag1] by blast
  note av = arguments_strings(2) [OF assms(1) ag1]
  note ab = strings_ok_lengths [OF av]
  let ?f = "\<lambda>m i. if argv \<noteq> 0 \<and> u32_at m argv \<noteq> 0 then u32_at m (argv + 4 * of_nat i) else path"
  have "unat lo + strings_size args \<le> unat sp1" "sp1 \<le> hi" using ab(3) alen lo1 by (simp_all add: word_le_nat_alt)
  from copy_stack_strings_spec [OF av this] obtain as sp2 m2 where
    a: "copy_stack_strings lo ?f [0..<length args] sp1 m1 = (Inr (as, sp2), m2)"
    "unat sp2 = unat sp1 - strings_size args" "agree sp2 sp1 m1 m2"
    "list_all2 (\<lambda>a s. unat sp2 \<le> unat a \<and> unat a + (length s + 1) \<le> unat sp1 \<and> bytes_at m2 a (length s + 1) = s @ [CHR 0x00]) as args"
    by blast
  have lo2: "unat lo + 1024 \<le> unat sp2" "unat sp2 \<le> unat sp1" using a(2) e(2) ab(3) eb(3) elen alen assms(3) by simp_all
  define sp3 where "sp3 = sp2 AND NOT 3"
  have u3: "unat sp3 = unat sp2 div 4 * 4" using and_not_mask_unat [of sp2 2] by (simp add: page_mask sp3_def)
  have lo3: "unat lo + 1021 \<le> unat sp3" "unat sp3 \<le> unat sp2" "unat sp3 mod 4 = 0"
    using lo2 unfolding u3 by (linarith, linarith, simp)
  define vs where "vs = [0] @ rev es @ [0] @ rev as @ [of_nat (length args) :: u32]"
  have len: "length es = length envs" "length as = length args" using e(4) a(4) by (simp_all add: list_all2_lengthD)
  have vlen: "length vs = 3 + length envs + length args" using len by (simp add: vs_def)
  define sp where "sp = sp3 - 4 * of_nat (length vs)"
  define m3 where "m3 = put_bytes sp (concat (map le32 (rev vs))) m2"
  have room: "unat lo + 4 * length vs \<le> unat sp3" using lo3(1) vlen elen alen by simp
  have push: "push_u32s lo vs sp3 m2 = (Inr sp, m3)" "unat sp + 4 * length vs = unat sp3"
    using push_u32s_spec [OF room, of m2] room by (simp_all add: sp_def m3_def)
  have eq: "build_initial_stack lo hi path argv envp m = (Inr sp, m3)"
    unfolding build_initial_stack_def n(1) ev(1) option.case Let_def n(2) e(1) a(1) prod.case sum.case
    by (rule push(1) [unfolded vs_def sp3_def])
  have ag3: "agree sp sp3 m2 m3" unfolding m3_def by (rule agree_put) (use push(2) in simp_all)
  have mod4: "unat sp mod 4 = 0"
  proof -
    have "(unat sp + 4 * length vs) mod 4 = 0" unfolding push(2) by (rule lo3(3))
    then show ?thesis by (simp only: mod_mult_self2)
  qed
  have "agree sp hi m m3"
    using e(3) a(3) ag3 lo1 lo2 lo3 push(2) by (auto simp: agree_def word_le_nat_alt word_less_nat_alt)
  moreover have "unat lo \<le> unat sp" "unat sp < unat hi" using push(2) room lo1 lo2 lo3 vlen by simp_all
  ultimately have out: "\<forall>x. x < lo \<or> hi \<le> x \<longrightarrow> m3 x = m x" and sp: "lo \<le> sp" "sp < hi"
    by (auto simp: agree_def word_le_nat_alt word_less_nat_alt)
  have ca: "cstr m3 (as ! i) = Some (args ! i)" if "i < length args" for i
  proof (rule cstr_of_bytes)
    have i: "unat sp2 \<le> unat (as ! i)" "unat (as ! i) + (length (args ! i) + 1) \<le> unat sp1"
      "bytes_at m2 (as ! i) (length (args ! i) + 1) = args ! i @ [CHR 0x00]"
      using a(4) that len by (simp_all add: list_all2_conv_all_nth)
    have "bytes_at m3 (as ! i) (length (args ! i) + 1) = bytes_at m2 (as ! i) (length (args ! i) + 1)"
      by (rule bytes_at_agree [OF ag3]) (use i lo3 unat_u32_less [of sp1] in simp_all)
    then show "bytes_at m3 (as ! i) (length (args ! i) + 1) = args ! i @ [CHR 0x00]" using i(3) by simp
    show "CHR 0x00 \<notin> set (args ! i)" using ab(2) [of "args ! i"] that by simp
  qed
  have ce: "cstr m3 (es ! i) = Some (envs ! i)" if "i < length envs" for i
  proof (rule cstr_of_bytes)
    have i: "unat sp1 \<le> unat (es ! i)" "unat (es ! i) + (length (envs ! i) + 1) \<le> unat hi"
      "bytes_at m1 (es ! i) (length (envs ! i) + 1) = envs ! i @ [CHR 0x00]"
      using e(4) that len by (simp_all add: list_all2_conv_all_nth)
    have "bytes_at m3 (es ! i) (length (envs ! i) + 1) = bytes_at m2 (es ! i) (length (envs ! i) + 1)"
      by (rule bytes_at_agree [OF ag3]) (use i lo2 lo3 unat_u32_less [of hi] in simp_all)
    also have "\<dots> = bytes_at m1 (es ! i) (length (envs ! i) + 1)"
      by (rule bytes_at_agree [OF a(3)]) (use i unat_u32_less [of hi] in simp_all)
    finally show "bytes_at m3 (es ! i) (length (envs ! i) + 1) = envs ! i @ [CHR 0x00]" using i(3) by simp
    show "CHR 0x00 \<notin> set (envs ! i)" using eb(2) [of "envs ! i"] that by simp
  qed
  have "stack_image m3 sp args envs"
    by (rule stack_words [OF len(2,1) _ _ ca ce, where m = m2]) (use elen alen in \<open>simp_all add: m3_def vs_def\<close>)
  then show ?thesis using eq sp mod4 out by (intro exI [of _ sp] exI [of _ m3] conjI)
qed

text \<open>
  C36: With at most 16 arguments and 8 environment strings of at most 127 characters, all outside the
  stack of the new program, \<open>build_initial_stack\<close> succeeds on a stack of a page or more. The stack
  pointer is aligned to 4 and lies in the stack; there the program finds the argument count, the
  arguments, a null pointer, the environment and a null pointer, with every pointer leading to a copy
  of its string; and no byte outside the stack has changed.
\<close>

theorem build_initial_stack_layout:
  assumes "arguments lo hi m path argv args" "environment lo hi m envp envs" "unat lo + 4096 \<le> unat hi"
  shows "\<exists>sp m'. build_initial_stack lo hi path argv envp m = (Inr sp, m') \<and> stack_image m' sp args envs \<and>
    lo \<le> sp \<and> sp < hi \<and> unat sp mod 4 = 0 \<and> (\<forall>x. x < lo \<or> hi \<le> x \<longrightarrow> m' x = m x)"
  by (rule build_initial_stack_spec [OF assms])

text \<open>The shell starts \<open>/ls\<close> with one argument; path, vector and string lie in the slot of the shell.\<close>

definition exec_memory :: memory where
  "exec_memory = put_bytes 0x80000 (concat (map le32 [0x80008, 0]) @ ''/ls'' @ [CHR 0x00]) (\<lambda>_. CHR 0x00)"

theorem build_initial_stack_layout_witness:
  "\<exists>sp m'. build_initial_stack 0x70000 0x80000 0x80008 0x80000 0 exec_memory = (Inr sp, m') \<and> stack_image m' sp [''/ls''] [] \<and>
     0x70000 \<le> sp \<and> sp < 0x80000"
proof -
  let ?bs = "concat (map le32 [0x80008, 0]) @ ''/ls'' @ [CHR 0x00]"
  have b: "exec_memory (0x80000 + of_nat i) = ?bs ! i" if "i < 12" for i
    unfolding exec_memory_def using that
    by (subst put_bytes_inside) (simp_all add: in_range_def unat_of_nat_u32)
  have p: "u32_at exec_memory 0x80000 = 0x80008" "u32_at exec_memory 0x80004 = 0"
  proof -
    have "exec_memory (0x80000 + of_nat i) = le32 0x80008 ! i" if "i < 4" for i using b [of i] that by (simp add: nth_append)
    then show "u32_at exec_memory 0x80000 = 0x80008" by (rule u32_at_le32)
    have "exec_memory (0x80004 + of_nat i) = le32 0 ! i" if "i < 4" for i
      using b [of "4 + i"] that by (simp add: nth_append add.assoc [symmetric])
    then show "u32_at exec_memory 0x80004 = 0" by (rule u32_at_le32)
  qed
  have "bytes_at exec_memory 0x80008 (length ''/ls'' + 1) = ''/ls'' @ [CHR 0x00]"
    using b [of 8] b [of 9] b [of 10] b [of 11] by (simp add: bytes_at_def upt_rec nth_append)
  moreover have above: "\<not> (0x80000 + of_nat j :: u32) < 0x80000" "\<not> (0x80008 + of_nat j :: u32) < 0x80000" if "j < 100" for j
    using that by (simp_all add: word_less_nat_alt unat_add_no_wrap unat_of_nat_u32)
  ultimately have "string_in 0x70000 0x80000 exec_memory 0x80008 ''/ls''"
    by (simp add: string_in_def)
  then have "vector 0x70000 0x80000 exec_memory 0x80000 [''/ls'']"
    using p above by (simp add: vector_def)
  then have "arguments 0x70000 0x80000 exec_memory 0x80008 0x80000 [''/ls'']" by (simp add: arguments_def)
  moreover have "environment 0x70000 0x80000 exec_memory 0 []" by (simp add: environment_def)
  ultimately show ?thesis using build_initial_stack_layout [of "0x70000" "0x80000" exec_memory "0x80008" "0x80000" "[''/ls'']" 0 "[]"] by auto
qed

end
