(* ===== verification/Sprg_Load.thy ===== *)
theory Sprg_Load
  imports Sprg
begin

text \<open>
  What the program loader accepts and what it leaves in memory, for a program file that the file
  system reads like a list of bytes.
\<close>

subsection \<open>A file with given contents\<close>

definition reads_as :: "'c services \<Rightarrow> u32 \<Rightarrow> char list \<Rightarrow> ('s, 'c) kernel \<Rightarrow> bool" where
  "reads_as S node f k \<longleftrightarrow>
     (\<forall>off cap. fs_core_read S node off cap k = Some (Inr (take (unat cap) (drop (unat off) f)), k))"

definition file_at :: "'c services \<Rightarrow> string \<Rightarrow> char list \<Rightarrow> ('s, 'c) kernel \<Rightarrow> bool" where
  "file_at S path f k \<longleftrightarrow>
     (\<exists>st node. fs_core_stat S (Some path) k = (Inr st, k) \<and> st_mode st AND FS_MODE_FILE \<noteq> 0 \<and> unat (st_size st) = length f \<and>
        fs_core_open (Some path) FS_O_RDONLY k = (Inr node, k) \<and> reads_as S node f k \<and> snd (fs_core_close node k) = k)"

lemma unat_min: "unat (min a b :: u32) = min (unat a) (unat b)"
  by (simp add: min_def word_le_nat_alt)

lemma take_length_take: "take (length (take n xs)) xs = take n xs"
  by (metis length_take min.cobounded1 min_def take_all_iff nle_le)

text \<open>One round of the reading loops.\<close>

lemma read_chunk:
  fixes off dn sz :: u32 and f :: "char list"
  assumes "dn < sz" "unat off + unat sz < 2 ^ 32"
  defines "bs \<equiv> take (unat (min (sz - dn) SPRG_STREAM_CHUNK)) (drop (unat (off + dn)) f)"
  shows "bs = [] \<longleftrightarrow> length f \<le> unat off + unat dn" "of_nat (length bs) = (0 :: u32) \<longleftrightarrow> bs = []"
    "take (unat dn) (drop (unat off) f) @ bs = take (unat dn + length bs) (drop (unat off) f)"
    "unat (dn + of_nat (length bs)) = unat dn + length bs" "dn + of_nat (length bs) \<le> sz"
proof -
  have d: "unat dn < unat sz" using assms(1) by (simp add: word_less_nat_alt)
  then have u: "unat (off + dn) = unat off + unat dn" using assms(2) by (simp add: unat_add_no_wrap)
  have c: "unat (min (sz - dn) SPRG_STREAM_CHUNK) = min (unat sz - unat dn) 512"
    using assms(1) by (simp add: unat_min unat_sub)
  have b: "bs = take (min (unat sz - unat dn) 512) (drop (unat dn) (drop (unat off) f))"
    unfolding bs_def u c by (simp add: add.commute)
  have l: "length bs \<le> unat sz - unat dn" "length bs \<le> 512" unfolding b by simp_all
  show "bs = [] \<longleftrightarrow> length f \<le> unat off + unat dn" unfolding b using d by auto
  have o: "unat (of_nat (length bs) :: u32) = length bs" using l(2) by (simp add: unat_of_nat_u32)
  show "of_nat (length bs) = (0 :: u32) \<longleftrightarrow> bs = []" using o by (metis length_0_conv unat_0 unat_eq_zero)
  show "take (unat dn) (drop (unat off) f) @ bs = take (unat dn + length bs) (drop (unat off) f)"
    unfolding take_add b take_length_take ..
  show w: "unat (dn + of_nat (length bs)) = unat dn + length bs"
    using o l(1) d unat_u32_less [of sz] by (simp add: unat_add_no_wrap)
  show "dn + of_nat (length bs) \<le> sz" using w l(1) d by (simp add: word_le_nat_alt)
qed

lemma read_exact_loop_spec:
  assumes "reads_as S node f k" "unat off + unat sz < 2 ^ 32" "dn \<le> sz"
    "acc = take (unat dn) (drop (unat off) f)" "length acc = unat dn"
  shows "read_exact_loop S node off sz dn acc k =
    Some (if length (take (unat sz) (drop (unat off) f)) = unat sz then Inr (take (unat sz) (drop (unat off) f))
          else Inl SPRG_ERR_INVALID, k)"
  using assms(3-)
proof (induction "unat sz - unat dn" arbitrary: dn acc rule: less_induct)
  case less
  show ?case
  proof (cases "dn < sz")
    case False
    then have "dn = sz" using less.prems(1) by simp
    then show ?thesis using less.prems by (subst read_exact_loop.simps) simp
  next
    case True
    define bs where "bs = take (unat (min (sz - dn) SPRG_STREAM_CHUNK)) (drop (unat (off + dn)) f)"
    note r = read_chunk [OF True assms(2), of f, folded bs_def]
    have rd: "fs_core_read S node (off + dn) (min (sz - dn) SPRG_STREAM_CHUNK) k = Some (Inr bs, k)"
      using assms(1) by (simp add: reads_as_def bs_def)
    have d: "unat dn < unat sz" using True by (simp add: word_less_nat_alt)
    show ?thesis
    proof (cases "bs = []")
      case Nil: True
      then have "length f \<le> unat off + unat dn" using r(1) by simp
      then have "length (take (unat sz) (drop (unat off) f)) \<noteq> unat sz" using d by simp
      then show ?thesis using True rd Nil by (subst read_exact_loop.simps) simp
    next
      case False
      have "read_exact_loop S node off sz (dn + of_nat (length bs)) (acc @ bs) k =
          Some (if length (take (unat sz) (drop (unat off) f)) = unat sz then Inr (take (unat sz) (drop (unat off) f))
            else Inl SPRG_ERR_INVALID, k)"
      proof (rule less.hyps)
        show "unat sz - unat (dn + of_nat (length bs)) < unat sz - unat dn" using r(4) d False by (cases bs) simp_all
        show "acc @ bs = take (unat (dn + of_nat (length bs))) (drop (unat off) f)" using r(3,4) less.prems(2) by simp
        show "length (acc @ bs) = unat (dn + of_nat (length bs))" using r(4) less.prems(3) by simp
      qed (rule r(5))
      then show ?thesis using True rd False r(2) by (subst read_exact_loop.simps) simp
    qed
  qed
qed

lemma sprg_read_exact_spec:
  assumes "reads_as S node f k" "unat off + unat sz < 2 ^ 32"
  shows "sprg_read_exact S node off sz k =
    Some (if length (take (unat sz) (drop (unat off) f)) = unat sz then Inr (take (unat sz) (drop (unat off) f))
          else Inl SPRG_ERR_INVALID, k)"
  unfolding sprg_read_exact_def by (rule read_exact_loop_spec [OF assms]) simp_all

lemma load_data_loop:
  assumes "reads_as S node f k" "unat off + unat filesz < 2 ^ 32" "unat off + unat filesz \<le> length f" "dn \<le> filesz"
  shows "load_data S node off start filesz dn (put_bytes start (take (unat dn) (drop (unat off) f)) m) k =
    Some (Inr (), put_bytes start (take (unat filesz) (drop (unat off) f)) m, k)"
  using assms(4)
proof (induction "unat filesz - unat dn" arbitrary: dn rule: less_induct)
  case less
  show ?case
  proof (cases "dn < filesz")
    case False
    then have "dn = filesz" using less.prems(1) by simp
    then show ?thesis by (subst load_data.simps) simp
  next
    case True
    define bs where "bs = take (unat (min (filesz - dn) SPRG_STREAM_CHUNK)) (drop (unat (off + dn)) f)"
    note r = read_chunk [OF True assms(2), of f, folded bs_def]
    have rd: "fs_core_read S node (off + dn) (min (filesz - dn) SPRG_STREAM_CHUNK) k = Some (Inr bs, k)"
      using assms(1) by (simp add: reads_as_def bs_def)
    have d: "unat dn < unat filesz" using True by (simp add: word_less_nat_alt)
    have ne: "bs \<noteq> []" using r(1) d assms(3) by simp
    have "length (take (unat dn) (drop (unat off) f)) = unat dn" using d assms(3) by simp
    then have "put_bytes (start + dn) bs (put_bytes start (take (unat dn) (drop (unat off) f)) m) =
        put_bytes start (take (unat dn) (drop (unat off) f) @ bs) m"
      by (simp add: put_bytes_append)
    also have "\<dots> = put_bytes start (take (unat (dn + of_nat (length bs))) (drop (unat off) f)) m" by (simp only: r(3,4))
    finally have p: "put_bytes (start + dn) bs (put_bytes start (take (unat dn) (drop (unat off) f)) m) =
        put_bytes start (take (unat (dn + of_nat (length bs))) (drop (unat off) f)) m" .
    have "load_data S node off start filesz (dn + of_nat (length bs))
        (put_bytes start (take (unat (dn + of_nat (length bs))) (drop (unat off) f)) m) k =
      Some (Inr (), put_bytes start (take (unat filesz) (drop (unat off) f)) m, k)"
      by (rule less.hyps) (use r(4,5) d ne in \<open>cases bs; simp\<close>)+
    then show ?thesis using True rd ne r(2) p by (subst load_data.simps) simp
  qed
qed

lemma load_data_spec:
  assumes "reads_as S node f k" "unat off + unat filesz < 2 ^ 32" "unat off + unat filesz \<le> length f"
  shows "load_data S node off start filesz 0 m k = Some (Inr (), put_bytes start (take (unat filesz) (drop (unat off) f)) m, k)"
  using load_data_loop [OF assms, of 0 start m] by simp

subsection \<open>What is a program file\<close>

text \<open>A segment of a file of the given length, and two segments with no address in common.\<close>

definition seg_wf :: "nat \<Rightarrow> sprg_segment \<Rightarrow> bool" where
  "seg_wf n seg \<longleftrightarrow> seg_type seg = SPRG_PHDR_LOAD \<and> seg_filesz seg \<le> seg_memsz seg \<and>
     unat (seg_offset seg) + unat (seg_filesz seg) \<le> n \<and> seg_reserved seg = 0"

definition segs_apart :: "sprg_segment \<Rightarrow> sprg_segment \<Rightarrow> bool" where
  "segs_apart s t \<longleftrightarrow> seg_memsz s = 0 \<or> seg_memsz t = 0 \<or>
     unat (seg_vaddr s) + unat (seg_memsz s) < 2 ^ 32 \<and> unat (seg_vaddr t) + unat (seg_memsz t) < 2 ^ 32 \<and>
     (unat (seg_vaddr s) + unat (seg_memsz s) \<le> unat (seg_vaddr t) \<or> unat (seg_vaddr t) + unat (seg_memsz t) \<le> unat (seg_vaddr s))"

definition program_file :: "u32 \<Rightarrow> char list \<Rightarrow> sprg_image \<Rightarrow> bool" where
  "program_file arch f img \<longleftrightarrow>
     28 \<le> length f \<and> length f \<le> 65536 \<and> take 4 f = ''SPRG'' \<and> sprg_le32 f 4 = SPRG_VERSION \<and> sprg_le32 f 8 = arch \<and>
     sprg_le32 f 24 = 0 \<and> (let phoff = unat (sprg_le32 f 16); phnum = unat (sprg_le32 f 20) in
       1 \<le> phnum \<and> phnum \<le> 8 \<and> phoff + 32 * phnum \<le> length f \<and>
       img = \<lparr>img_entry = sprg_le32 f 12, img_arch = arch, img_file_size = of_nat (length f),
              img_segments = map (\<lambda>i. phdr_of (take 32 (drop (phoff + 32 * i) f))) [0..<phnum]\<rparr>) \<and>
     list_all (seg_wf (length f)) (img_segments img) \<and> sorted_wrt segs_apart (img_segments img)"

text \<open>An end of a range that is below its start says that the range reaches the end of memory.\<close>

lemma range_end:
  fixes a n :: u32
  assumes "n \<noteq> 0"
  shows "a + n < a \<longleftrightarrow> 2 ^ 32 \<le> unat a + unat n" "unat a + unat n < 2 ^ 32 \<Longrightarrow> unat (a + n) = unat a + unat n"
proof -
  have n: "0 < unat n" using assms by (simp add: unat_gt_0)
  show u: "unat a + unat n < 2 ^ 32 \<Longrightarrow> unat (a + n) = unat a + unat n" by (simp add: unat_add_no_wrap)
  show "a + n < a \<longleftrightarrow> 2 ^ 32 \<le> unat a + unat n"
  proof (cases "unat a + unat n < 2 ^ 32")
    case True
    then show ?thesis using u by (simp add: word_less_nat_alt)
  next
    case False
    have "unat (a + n) = (unat a + unat n) mod 2 ^ 32" by (simp add: unat_word_ariths)
    also have "\<dots> = unat a + unat n - 2 ^ 32"
      using False unat_u32_less [of a] unat_u32_less [of n] by (subst mod_if) simp
    finally show ?thesis using False unat_u32_less [of n] by (simp add: word_less_nat_alt)
  qed
qed

lemma sprg_segments_overlap_iff:
  "\<not> sprg_segments_overlap (seg_vaddr s) (seg_memsz s) (seg_vaddr t) (seg_memsz t) \<longleftrightarrow> segs_apart s t"
proof (cases "seg_memsz s = 0 \<or> seg_memsz t = 0")
  case False
  then have s: "seg_memsz s \<noteq> 0" and t: "seg_memsz t \<noteq> 0" by simp_all
  note rs = range_end [OF s, of "seg_vaddr s"] and rt = range_end [OF t, of "seg_vaddr t"]
  show ?thesis
  proof (cases "2 ^ 32 \<le> unat (seg_vaddr s) + unat (seg_memsz s) \<or> 2 ^ 32 \<le> unat (seg_vaddr t) + unat (seg_memsz t)")
    case True
    then show ?thesis using rs(1) rt(1) s t by (auto simp: sprg_segments_overlap_def segs_apart_def)
  next
    case nowrap: False
    then have "unat (seg_vaddr s + seg_memsz s) = unat (seg_vaddr s) + unat (seg_memsz s)"
      "unat (seg_vaddr t + seg_memsz t) = unat (seg_vaddr t) + unat (seg_memsz t)" using rs(2) rt(2) by simp_all
    then show ?thesis
      using nowrap rs(1) rt(1) s t by (auto simp: sprg_segments_overlap_def segs_apart_def Let_def word_less_nat_alt)
  qed
qed (auto simp: sprg_segments_overlap_def segs_apart_def)

lemma sprg_range_valid_iff: "sprg_range_valid off n sz \<longleftrightarrow> unat off + unat n \<le> unat sz"
proof (cases "off \<le> sz")
  case True
  then have "unat (sz - off) = unat sz - unat off" "unat off \<le> unat sz" by (simp_all add: unat_sub word_le_nat_alt)
  then show ?thesis using True by (auto simp: sprg_range_valid_def word_le_nat_alt not_less)
qed (auto simp: sprg_range_valid_def word_le_nat_alt not_less)

lemma validate_segments_iff:
  "validate_segments sz segs = Inr () \<longleftrightarrow> list_all (seg_wf (unat sz)) segs \<and> sorted_wrt segs_apart segs"
proof (induction segs)
  case (Cons seg segs)
  have "list_ex (\<lambda>s. sprg_segments_overlap (seg_vaddr seg) (seg_memsz seg) (seg_vaddr s) (seg_memsz s)) segs \<longleftrightarrow>
      \<not> (\<forall>s \<in> set segs. segs_apart seg s)"
    using sprg_segments_overlap_iff by (auto simp: list_ex_iff)
  then show ?case using Cons.IH by (auto simp: seg_wf_def sprg_range_valid_iff not_less)
qed simp

lemma read_phdrs_spec:
  assumes "reads_as S node f k" "length f < 2 ^ 32"
  shows "(\<And>i. i \<in> set is \<Longrightarrow> unat phoff + 32 * i + 32 \<le> length f) \<Longrightarrow>
    read_phdrs S node phoff is k = Some (Inr (map (\<lambda>i. phdr_of (take 32 (drop (unat phoff + 32 * i) f))) is), k)"
proof (induction "is")
  case (Cons i "is")
  have b: "unat phoff + 32 * i + 32 \<le> length f" using Cons.prems by simp
  then have "unat (of_nat i * SPRG_PHDR_SIZE :: u32) = 32 * i"
    using assms(2) by (simp add: unat_word_ariths unat_of_nat_u32)
  then have u: "unat (phoff + of_nat i * SPRG_PHDR_SIZE) = unat phoff + 32 * i"
    using b assms(2) by (simp add: unat_add_no_wrap)
  have "sprg_read_exact S node (phoff + of_nat i * SPRG_PHDR_SIZE) SPRG_PHDR_SIZE k =
      Some (Inr (take 32 (drop (unat phoff + 32 * i) f)), k)"
    using sprg_read_exact_spec [OF assms(1), of "phoff + of_nat i * SPRG_PHDR_SIZE" SPRG_PHDR_SIZE] u b assms(2) by simp
  then show ?case using Cons by simp
qed simp

lemma sprg_le32_take: "i + 4 \<le> n \<Longrightarrow> sprg_le32 (take n f) i = sprg_le32 f i"
  by (simp add: sprg_le32_def)

text \<open>The image that the header and the segment table of a file describe.\<close>

definition image_of :: "u32 \<Rightarrow> char list \<Rightarrow> sprg_image" where
  "image_of arch f = \<lparr>img_entry = sprg_le32 f 12, img_arch = arch, img_file_size = of_nat (length f),
     img_segments = map (\<lambda>i. phdr_of (take 32 (drop (unat (sprg_le32 f 16) + 32 * i) f))) [0..<unat (sprg_le32 f 20)]\<rparr>"

definition header_ok :: "u32 \<Rightarrow> char list \<Rightarrow> bool" where
  "header_ok arch f \<longleftrightarrow> 28 \<le> length f \<and> take 4 f = ''SPRG'' \<and> sprg_le32 f 4 = SPRG_VERSION \<and> sprg_le32 f 8 = arch \<and>
     sprg_le32 f 24 = 0 \<and> 1 \<le> unat (sprg_le32 f 20) \<and> unat (sprg_le32 f 20) \<le> 8 \<and>
     unat (sprg_le32 f 16) + 32 * unat (sprg_le32 f 20) \<le> length f"

lemma program_file_iff:
  "program_file arch f img \<longleftrightarrow> header_ok arch f \<and> length f \<le> 65536 \<and> img = image_of arch f \<and>
     list_all (seg_wf (length f)) (img_segments img) \<and> sorted_wrt segs_apart (img_segments img)"
  by (auto simp: program_file_def header_ok_def image_of_def Let_def)

lemma read_image_spec:
  assumes "reads_as S node f k" "unat sz = length f" "length f \<le> 65536"
  shows "\<exists>r. read_image S node sz arch k = Some (r, k) \<and> (if header_ok arch f then r = Inr (image_of arch f) else \<exists>e. r = Inl e)"
proof -
  have rd: "sprg_read_exact S node 0 SPRG_HEADER_SIZE k = Some (if 28 \<le> length f then Inr (take 28 f) else Inl SPRG_ERR_INVALID, k)"
    using sprg_read_exact_spec [OF assms(1), of 0 SPRG_HEADER_SIZE] by (auto simp: min_def)
  show ?thesis
  proof (cases "28 \<le> length f")
    case False
    then show ?thesis using rd by (simp add: read_image_def header_ok_def)
  next
    case True
    let ?n = "sprg_le32 f 20" and ?o = "sprg_le32 f 16"
    have hd: "sprg_le32 (take 28 f) i = sprg_le32 f i" if "i + 4 \<le> 28" for i using sprg_le32_take that .
    have t4: "take 4 (take 28 f) = take 4 f" by simp
    have n0: "?n = 0 \<longleftrightarrow> \<not> 1 \<le> unat ?n" by (simp add: Suc_le_eq unat_gt_0)
    have n8: "SPRG_MAX_PHDRS < ?n \<longleftrightarrow> \<not> unat ?n \<le> 8" by (simp add: word_less_nat_alt not_le)
    have rv: "sprg_range_valid ?o (?n * SPRG_PHDR_SIZE) sz \<longleftrightarrow> unat ?o + 32 * unat ?n \<le> length f" if "unat ?n \<le> 8"
      using that by (simp add: sprg_range_valid_iff assms(2) unat_word_ariths mult.commute)
    have ph: "read_phdrs S node ?o [0..<unat ?n] k =
        Some (Inr (map (\<lambda>i. phdr_of (take 32 (drop (unat ?o + 32 * i) f))) [0..<unat ?n]), k)"
      if "unat ?o + 32 * unat ?n \<le> length f"
      using that assms(3) by (intro read_phdrs_spec [OF assms(1)]) auto
    have sz: "of_nat (length f) = sz" using assms(2) [symmetric] by simp
    consider "\<not> (take 4 f = ''SPRG'' \<and> sprg_le32 f 4 = SPRG_VERSION \<and> sprg_le32 f 8 = arch)"
      | "take 4 f = ''SPRG''" "sprg_le32 f 4 = SPRG_VERSION" "sprg_le32 f 8 = arch"
        "sprg_le32 f 24 \<noteq> 0 \<or> ?n = 0 \<or> SPRG_MAX_PHDRS < ?n"
      | "take 4 f = ''SPRG''" "sprg_le32 f 4 = SPRG_VERSION" "sprg_le32 f 8 = arch"
        "\<not> (sprg_le32 f 24 \<noteq> 0 \<or> ?n = 0 \<or> SPRG_MAX_PHDRS < ?n)" by blast
    then show ?thesis
    proof cases
      case 1
      then show ?thesis using rd True by (auto simp: read_image_def Let_def hd t4 header_ok_def)
    next
      case 2
      then show ?thesis using rd True n0 n8 by (auto simp: read_image_def Let_def hd t4 header_ok_def)
    next
      case 3
      then have n: "sprg_le32 f 24 = 0" "1 \<le> unat ?n" "unat ?n \<le> 8" using n0 n8 by simp_all
      show ?thesis
      proof (cases "unat ?o + 32 * unat ?n \<le> length f")
        case f: True
        have "read_image S node sz arch k = Some (Inr (image_of arch f), k)"
          using rd True 3 rv [OF n(3)] ph [OF f] f by (simp add: read_image_def Let_def hd t4 image_of_def sz)
        moreover have "header_ok arch f" using True 3 n f by (simp add: header_ok_def)
        ultimately show ?thesis by simp
      next
        case nf: False
        then have "read_image S node sz arch k = Some (Inl SPRG_ERR_BAD_HEADER, k)"
          using rd True 3 rv [OF n(3)] by (simp add: read_image_def Let_def hd t4)
        moreover have "\<not> header_ok arch f" using nf by (simp add: header_ok_def)
        ultimately show ?thesis by simp
      qed
    qed
  qed
qed

lemma sprg_validate_spec:
  assumes "file_at S path f k"
  shows "\<exists>r. sprg_core_validate_file S (Some path) arch k = Some (r, k) \<and>
    (\<forall>img. r = Inr img \<longleftrightarrow> sprg_has_prg_suffix path \<and> program_file arch f img)"
proof -
  obtain st node where st: "fs_core_stat S (Some path) k = (Inr st, k)" "st_mode st AND FS_MODE_FILE \<noteq> 0" "unat (st_size st) = length f"
    and o: "fs_core_open (Some path) FS_O_RDONLY k = (Inr node, k)" "reads_as S node f k" "snd (fs_core_close node k) = k"
    using assms unfolding file_at_def by blast
  show ?thesis
  proof (cases "sprg_has_prg_suffix path \<and> length f \<le> 65536")
    case False
    then have "sprg_core_validate_file S (Some path) arch k =
        Some (Inl (if sprg_has_prg_suffix path then SPRG_ERR_TOO_LARGE else SPRG_ERR_INVALID), k)"
      using st by (auto simp: sprg_core_validate_file_def word_less_nat_alt)
    then show ?thesis using False by (auto simp: program_file_def)
  next
    case True
    obtain r where r: "read_image S node (st_size st) arch k = Some (r, k)"
      "if header_ok arch f then r = Inr (image_of arch f) else \<exists>e. r = Inl e"
      using read_image_spec [OF o(2) st(3)] True by blast
    have v: "sprg_core_validate_file S (Some path) arch k = Some (case r of Inl e \<Rightarrow> Inl e
        | Inr img \<Rightarrow> (case sprg_validate_segment_table img of Inl e \<Rightarrow> Inl e | Inr _ \<Rightarrow> Inr img), k)"
      using True st o r(1) by (simp add: sprg_core_validate_file_def word_less_nat_alt)
    show ?thesis
    proof (cases "header_ok arch f")
      case h: True
      have fs: "img_file_size (image_of arch f) = st_size st" using st(3) [symmetric] by (simp add: image_of_def)
      have "sprg_validate_segment_table (image_of arch f) = Inr () \<longleftrightarrow>
          list_all (seg_wf (length f)) (img_segments (image_of arch f)) \<and> sorted_wrt segs_apart (img_segments (image_of arch f))"
        unfolding sprg_validate_segment_table_def validate_segments_iff fs st(3) ..
      then show ?thesis using v r(2) h True by (auto simp: program_file_iff split: sum.split)
    next
      case False
      then show ?thesis using v r(2) by (auto simp: program_file_iff)
    qed
  qed
qed

subsection \<open>What is loaded\<close>

definition seg_fits :: "u32 \<Rightarrow> u32 \<Rightarrow> sprg_segment \<Rightarrow> bool" where
  "seg_fits user_min user_max seg \<longleftrightarrow> unat (seg_vaddr seg) + unat (seg_memsz seg) < 2 ^ 32 \<and> user_min \<le> seg_vaddr seg \<and>
     unat (seg_vaddr seg) + unat (seg_memsz seg) \<le> unat user_max \<and> seg_flags seg AND NOT (SPRG_FLAG_R OR SPRG_FLAG_W OR SPRG_FLAG_X) = 0"

definition seg_exec :: "u32 \<Rightarrow> sprg_segment \<Rightarrow> bool" where
  "seg_exec entry seg \<longleftrightarrow> seg_flags seg AND SPRG_FLAG_X \<noteq> 0 \<and> in_range (seg_vaddr seg) (unat (seg_memsz seg)) entry"

text \<open>The bytes of a segment: those of the file, then zeros.\<close>

definition seg_bytes :: "char list \<Rightarrow> sprg_segment \<Rightarrow> char list" where
  "seg_bytes f seg = take (unat (seg_filesz seg)) (drop (unat (seg_offset seg)) f) @
     replicate (unat (seg_memsz seg) - unat (seg_filesz seg)) (CHR 0x00)"

definition put_segment :: "char list \<Rightarrow> sprg_segment \<Rightarrow> memory \<Rightarrow> memory" where
  "put_segment f seg m = put_bytes (seg_vaddr seg) (seg_bytes f seg) m"

lemma seg_bytes_length: "seg_wf (length f) seg \<Longrightarrow> length (seg_bytes f seg) = unat (seg_memsz seg)"
  by (auto simp: seg_wf_def seg_bytes_def word_le_nat_alt)

lemma seg_fits_iff:
  "seg_fits user_min user_max seg \<longleftrightarrow>
   \<not> (seg_vaddr seg + seg_memsz seg < seg_vaddr seg \<or> seg_vaddr seg < user_min \<or> user_max < seg_vaddr seg + seg_memsz seg) \<and>
   seg_flags seg AND NOT (SPRG_FLAG_R OR SPRG_FLAG_W OR SPRG_FLAG_X) = 0"
proof (cases "seg_memsz seg = 0")
  case True
  then show ?thesis using unat_u32_less [of "seg_vaddr seg"] by (auto simp: seg_fits_def word_le_nat_alt word_less_nat_alt)
next
  case False
  note r = range_end [OF False, of "seg_vaddr seg"]
  show ?thesis
  proof (cases "unat (seg_vaddr seg) + unat (seg_memsz seg) < 2 ^ 32")
    case True
    then show ?thesis using r by (auto simp: seg_fits_def word_le_nat_alt word_less_nat_alt)
  next
    case wrap: False
    then show ?thesis using r(1) by (auto simp: seg_fits_def)
  qed
qed

lemma seg_exec_iff:
  assumes "unat (seg_vaddr seg) + unat (seg_memsz seg) < 2 ^ 32"
  shows "seg_exec entry seg \<longleftrightarrow> seg_flags seg AND SPRG_FLAG_X \<noteq> 0 \<and> seg_vaddr seg \<le> entry \<and> entry < seg_vaddr seg + seg_memsz seg"
proof -
  have "unat (seg_vaddr seg + seg_memsz seg) = unat (seg_vaddr seg) + unat (seg_memsz seg)" using assms by (simp add: unat_add_no_wrap)
  then show ?thesis using assms by (simp add: seg_exec_def in_range_iff word_le_nat_alt word_less_nat_alt)
qed

lemma load_segments_spec:
  assumes "reads_as S node f k" "length f < 2 ^ 32"
  shows "list_all (seg_wf (length f)) segs \<Longrightarrow>
    load_segments S node user_min user_max entry segs exec m k =
      Some (if list_all (seg_fits user_min user_max) segs then Inr (exec \<or> list_ex (seg_exec entry) segs) else Inl SPRG_ERR_BAD_HEADER,
            fold (put_segment f) (takeWhile (seg_fits user_min user_max) segs) m, k)"
proof (induction segs arbitrary: exec m)
  case (Cons seg segs)
  have wf: "seg_wf (length f) seg" "list_all (seg_wf (length f)) segs" using Cons.prems by simp_all
  show ?case
  proof (cases "seg_fits user_min user_max seg")
    case False
    then show ?thesis using seg_fits_iff [of user_min user_max seg] by (auto simp: Let_def)
  next
    case True
    let ?d = "take (unat (seg_filesz seg)) (drop (unat (seg_offset seg)) f)"
    let ?z = "replicate (unat (seg_memsz seg) - unat (seg_filesz seg)) (CHR 0x00)"
    have off: "unat (seg_offset seg) + unat (seg_filesz seg) \<le> length f" using wf(1) by (simp add: seg_wf_def)
    have ld: "load_data S node (seg_offset seg) (seg_vaddr seg) (seg_filesz seg) 0 m k = Some (Inr (), put_bytes (seg_vaddr seg) ?d m, k)"
      by (rule load_data_spec [OF assms(1)]) (use off assms(2) in simp_all)
    have "length ?d = unat (seg_filesz seg)" using off by simp
    then have p: "put_bytes (seg_vaddr seg + seg_filesz seg) ?z (put_bytes (seg_vaddr seg) ?d m) = put_segment f seg m"
      by (simp add: put_segment_def seg_bytes_def put_bytes_append)
    have e: "seg_exec entry seg \<longleftrightarrow> seg_flags seg AND SPRG_FLAG_X \<noteq> 0 \<and> seg_vaddr seg \<le> entry \<and> entry < seg_vaddr seg + seg_memsz seg"
      by (rule seg_exec_iff) (use True in \<open>simp add: seg_fits_def\<close>)
    have "load_segments S node user_min user_max entry (seg # segs) exec m k =
        load_segments S node user_min user_max entry segs (exec \<or> seg_exec entry seg) (put_segment f seg m) k"
      unfolding e using True [unfolded seg_fits_iff] ld p by (simp add: Let_def)
    then show ?thesis using Cons.IH [OF wf(2)] True by simp
  qed
qed simp

lemma put_segment_outside:
  assumes "seg_wf (length f) seg" "\<not> in_range (seg_vaddr seg) (unat (seg_memsz seg)) x"
  shows "put_segment f seg m x = m x"
  using assms seg_bytes_length [OF assms(1)] unat_u32_less [of "seg_memsz seg"] by (simp add: put_segment_def put_bytes_outside)

lemma put_segments_outside:
  assumes "list_all (seg_wf (length f)) segs"
    "\<And>seg. seg \<in> set segs \<Longrightarrow> \<not> in_range (seg_vaddr seg) (unat (seg_memsz seg)) x"
  shows "fold (put_segment f) segs m x = m x"
  using assms
proof (induction segs arbitrary: m)
  case (Cons seg segs)
  then show ?case using put_segment_outside [of f seg x m] by simp
qed simp

lemma put_segments_inside:
  assumes "list_all (seg_wf (length f)) segs" "list_all (seg_fits user_min user_max) segs" "sorted_wrt segs_apart segs"
    "seg \<in> set segs" "in_range (seg_vaddr seg) (unat (seg_memsz seg)) x"
  shows "fold (put_segment f) segs m x = seg_bytes f seg ! unat (x - seg_vaddr seg)"
  using assms(1-4)
proof (induction segs arbitrary: m)
  case (Cons s segs)
  show ?case
  proof (cases "seg \<in> set segs")
    case True
    then show ?thesis using Cons by simp
  next
    case False
    then have s: "s = seg" using Cons.prems(4) by simp
    have "\<not> in_range (seg_vaddr t) (unat (seg_memsz t)) x" if "t \<in> set segs" for t
    proof -
      have "segs_apart seg t" "seg_fits user_min user_max t" "seg_fits user_min user_max seg"
        using that s Cons.prems(2,3) by (simp_all add: list_all_iff)
      then show ?thesis using assms(5) by (auto simp: segs_apart_def seg_fits_def in_range_iff)
    qed
    then have "fold (put_segment f) segs (put_segment f seg m) x = put_segment f seg m x"
      using Cons.prems(1) by (intro put_segments_outside) simp_all
    moreover have "put_segment f seg m x = seg_bytes f seg ! unat (x - seg_vaddr seg)"
      using Cons.prems(1) s assms(5) seg_bytes_length [of f seg] unat_u32_less [of "seg_memsz seg"]
      by (simp add: put_segment_def put_bytes_inside)
    ultimately show ?thesis using s by simp
  qed
qed simp

lemma takeWhile_set: "x \<in> set (takeWhile P xs) \<Longrightarrow> x \<in> set xs \<and> P x"
  by (metis set_takeWhileD)

lemma sprg_load_spec:
  assumes "file_at S path f k" "user_min < user_max"
  shows "\<exists>r m'. sprg_core_load_file S (Some path) arch user_min user_max m k = Some (r, m', k) \<and>
    (if \<exists>img. sprg_has_prg_suffix path \<and> program_file arch f img
     then let segs = img_segments (image_of arch f) in
       m' = fold (put_segment f) (takeWhile (seg_fits user_min user_max) segs) m \<and>
       r = (if list_all (seg_fits user_min user_max) segs \<and> list_ex (seg_exec (sprg_le32 f 12)) segs
            then Inr (image_of arch f) else Inl SPRG_ERR_BAD_HEADER)
     else m' = m \<and> (\<exists>e. r = Inl e))"
proof -
  have lt: "\<not> user_max \<le> user_min" using assms(2) by simp
  obtain node where o: "fs_core_open (Some path) FS_O_RDONLY k = (Inr node, k)" "reads_as S node f k" "snd (fs_core_close node k) = k"
    using assms(1) unfolding file_at_def by blast
  obtain r where r: "sprg_core_validate_file S (Some path) arch k = Some (r, k)"
    "\<And>img. r = Inr img \<longleftrightarrow> sprg_has_prg_suffix path \<and> program_file arch f img"
    using sprg_validate_spec [OF assms(1)] by blast
  show ?thesis
  proof (cases r)
    case (Inl e)
    then have "\<not> (\<exists>img. sprg_has_prg_suffix path \<and> program_file arch f img)" using r(2) by auto
    moreover have "sprg_core_load_file S (Some path) arch user_min user_max m k = Some (Inl e, m, k)"
      using lt r(1) Inl by (simp add: sprg_core_load_file_def)
    ultimately show ?thesis by auto
  next
    case (Inr img)
    then have p: "sprg_has_prg_suffix path \<and> program_file arch f img" using r(2) by auto
    then have img: "img = image_of arch f" "length f < 2 ^ 32" "list_all (seg_wf (length f)) (img_segments (image_of arch f))"
      by (auto simp: program_file_iff)
    have e: "img_entry (image_of arch f) = sprg_le32 f 12" by (simp add: image_of_def)
    let ?segs = "img_segments (image_of arch f)"
    have "sprg_core_load_file S (Some path) arch user_min user_max m k =
        Some (if list_all (seg_fits user_min user_max) ?segs \<and> list_ex (seg_exec (sprg_le32 f 12)) ?segs
              then Inr (image_of arch f) else Inl SPRG_ERR_BAD_HEADER,
              fold (put_segment f) (takeWhile (seg_fits user_min user_max) ?segs) m, k)"
      using lt r(1) Inr o load_segments_spec [OF o(2) img(2,3)] by (simp add: sprg_core_load_file_def img(1) e)
    then show ?thesis using p by auto
  qed
qed

text \<open>
  C34: Validation of a file always returns and accepts exactly the well-formed program files with the
  suffix \<open>.prg\<close>: at most 64 KiB, the header of this version and architecture, one to eight segment
  headers inside the file, every segment inside the file and not larger than its memory, and no two
  segments with an address in common. The image it reports is the one the headers describe.
\<close>

theorem sprg_validate_accepts:
  assumes "file_at S path f k"
  shows "\<exists>r. sprg_core_validate_file S (Some path) arch k = Some (r, k) \<and>
    ((\<exists>img. r = Inr img) \<longleftrightarrow> sprg_has_prg_suffix path \<and> header_ok arch f \<and> length f \<le> 65536 \<and>
       list_all (seg_wf (length f)) (img_segments (image_of arch f)) \<and> sorted_wrt segs_apart (img_segments (image_of arch f))) \<and>
    (\<forall>img. r = Inr img \<longrightarrow> img = image_of arch f)"
proof -
  obtain r where "sprg_core_validate_file S (Some path) arch k = Some (r, k)"
    "\<And>img. r = Inr img \<longleftrightarrow> sprg_has_prg_suffix path \<and> program_file arch f img"
    using sprg_validate_spec [OF assms] by blast
  then show ?thesis unfolding program_file_iff by blast
qed

text \<open>
  C33: Loading a program file always returns, and whatever the file holds, the loader changes no byte
  outside the range of addresses it was given and nothing in the kernel.
\<close>

theorem sprg_load_confined:
  assumes "file_at S path f k"
  shows "\<exists>r m'. sprg_core_load_file S (Some path) arch user_min user_max m k = Some (r, m', k) \<and>
    (\<forall>x. x < user_min \<or> user_max \<le> x \<longrightarrow> m' x = m x)"
proof (cases "user_min < user_max")
  case True
  let ?segs = "img_segments (image_of arch f)"
  let ?put = "fold (put_segment f) (takeWhile (seg_fits user_min user_max) ?segs) m"
  have out: "?put x = m x" if "x < user_min \<or> user_max \<le> x" "program_file arch f img" for x img
  proof (rule put_segments_outside)
    have "list_all (seg_wf (length f)) ?segs" using that(2) by (auto simp: program_file_iff)
    then show "list_all (seg_wf (length f)) (takeWhile (seg_fits user_min user_max) ?segs)"
      by (auto simp: list_all_iff dest: takeWhile_set)
    show "\<not> in_range (seg_vaddr seg) (unat (seg_memsz seg)) x" if "seg \<in> set (takeWhile (seg_fits user_min user_max) ?segs)" for seg
    proof -
      have "seg_fits user_min user_max seg" using takeWhile_set [OF that] ..
      then show ?thesis using \<open>x < user_min \<or> user_max \<le> x\<close> by (auto simp: seg_fits_def in_range_iff word_le_nat_alt word_less_nat_alt)
    qed
  qed
  show ?thesis using sprg_load_spec [OF assms True, of arch m] out by (auto simp: Let_def split: if_splits)
qed (auto simp: sprg_core_load_file_def not_less)

lemma sprg_load_success:
  assumes "file_at S path f k" "sprg_core_load_file S (Some path) arch user_min user_max m k = Some (Inr img, m', k')"
  shows "k' = k \<and> program_file arch f img \<and> list_ex (seg_exec (img_entry img)) (img_segments img) \<and>
    (\<forall>seg \<in> set (img_segments img). seg_fits user_min user_max seg \<and>
       bytes_at m' (seg_vaddr seg) (unat (seg_memsz seg)) = seg_bytes f seg) \<and>
    (\<forall>x. (\<forall>seg \<in> set (img_segments img). \<not> in_range (seg_vaddr seg) (unat (seg_memsz seg)) x) \<longrightarrow> m' x = m x)"
proof -
  have lt: "user_min < user_max" using assms(2) by (simp add: sprg_core_load_file_def split: if_splits)
  note s = sprg_load_spec [OF assms(1) lt, of arch m, unfolded assms(2)]
  have p: "program_file arch f (image_of arch f)" using s by (auto simp: program_file_iff split: if_splits)
  let ?segs = "img_segments (image_of arch f)"
  have i: "img = image_of arch f" "k' = k" "list_all (seg_fits user_min user_max) ?segs" "list_ex (seg_exec (sprg_le32 f 12)) ?segs"
    "m' = fold (put_segment f) (takeWhile (seg_fits user_min user_max) ?segs) m"
    using s by (auto simp: Let_def split: if_splits)
  have m': "m' = fold (put_segment f) ?segs m"
    using i(3,5) by (simp add: takeWhile_eq_all_conv [THEN iffD2] list_all_iff)
  have wf: "list_all (seg_wf (length f)) ?segs" "sorted_wrt segs_apart ?segs" using p by (simp_all add: program_file_iff)
  have "bytes_at m' (seg_vaddr seg) (unat (seg_memsz seg)) = seg_bytes f seg" if "seg \<in> set ?segs" for seg
  proof (rule nth_equalityI)
    have l: "length (seg_bytes f seg) = unat (seg_memsz seg)" using seg_bytes_length wf(1) that by (auto simp: list_all_iff)
    then show "length (bytes_at m' (seg_vaddr seg) (unat (seg_memsz seg))) = length (seg_bytes f seg)" by simp
    show "bytes_at m' (seg_vaddr seg) (unat (seg_memsz seg)) ! j = seg_bytes f seg ! j"
      if "j < length (bytes_at m' (seg_vaddr seg) (unat (seg_memsz seg)))" for j
    proof -
      have j: "j < unat (seg_memsz seg)" using that by simp
      then have u: "unat (of_nat j :: u32) = j" using unat_u32_less [of "seg_memsz seg"] by (intro unat_of_nat_u32) simp
      have "in_range (seg_vaddr seg) (unat (seg_memsz seg)) (seg_vaddr seg + of_nat j)" using j u by (simp add: in_range_def)
      from put_segments_inside [OF wf(1) i(3) wf(2) \<open>seg \<in> set ?segs\<close> this, of m] show ?thesis
        using j u by (simp add: bytes_at_def m')
    qed
  qed
  moreover have "m' x = m x" if "\<forall>seg \<in> set ?segs. \<not> in_range (seg_vaddr seg) (unat (seg_memsz seg)) x" for x
    unfolding m' using put_segments_outside [OF wf(1)] that by blast
  ultimately show ?thesis using i p by (auto simp: list_all_iff image_of_def)
qed

text \<open>
  C10: When the loader reports success, the file is a well-formed program and memory holds it: every
  segment lies in the given range with its bytes of the file followed by zeros, the segments have no
  address in common, no other byte has changed, and the entry point is in an executable segment.
\<close>

theorem sprg_load_image:
  assumes "file_at S path f k" "sprg_core_load_file S (Some path) arch user_min user_max m k = Some (Inr img, m', k')"
  shows "k' = k \<and> program_file arch f img \<and> list_ex (seg_exec (img_entry img)) (img_segments img) \<and>
    (\<forall>seg \<in> set (img_segments img). seg_fits user_min user_max seg \<and>
       bytes_at m' (seg_vaddr seg) (unat (seg_memsz seg)) = seg_bytes f seg) \<and>
    (\<forall>x. (\<forall>seg \<in> set (img_segments img). \<not> in_range (seg_vaddr seg) (unat (seg_memsz seg)) x) \<longrightarrow> m' x = m x)"
  by (rule sprg_load_success [OF assms])

end
