(* ===== verification/Boot_Kernel.thy ===== *)
theory Boot_Kernel
  imports Fd_Calls Sprg_Load
begin

text \<open>
  The kernel after the start-up of \<open>src/src/kernel/core/bootstrap/bootstrap.c\<close> with the RAM file system as
  root, and files of the RAM file system as the rest of the kernel sees them.
\<close>

subsection \<open>The kernel after start-up\<close>

text \<open>The variables of the kernel before any initialisation.\<close>

definition zero_kernel :: "'s \<Rightarrow> 'c \<Rightarrow> ('s, 'c) kernel" where
  "zero_kernel s c = \<lparr>g_descriptions = (\<lambda>_. fd_description_zero), g_descriptions_initialized = False, g_tty_line_row = 0,
     g_tty_line_col = 0, g_processes = (\<lambda>_. process_clear), g_current_process = None, g_next_pid = 0, g_root_driver = None,
     g_media_driver = None, g_media_kind = FS_MEDIA_NONE, fs_state = s, dev_state = c\<rparr>"

definition boot_kernel :: "'c \<Rightarrow> (ramfs, 'c) kernel" where
  "boot_kernel c = snd (fs_core_init_ramfs (process_core_init (zero_kernel boot_ramfs c)))"

text \<open>The first process, with its three terminal descriptors.\<close>

definition tty_description :: "fd_kind \<Rightarrow> fd_description_t" where
  "tty_description kind = \<lparr>d_used = True, d_refs = 1, d_kind = kind, d_node_id = 0, d_offset = 0, d_flags = 0\<rparr>"

definition boot_descriptions :: "nat \<Rightarrow> fd_description_t" where
  "boot_descriptions = (\<lambda>_. fd_description_zero)(0 := tty_description FD_KIND_TTY_IN, 1 := tty_description FD_KIND_TTY_OUT,
     2 := tty_description FD_KIND_TTY_OUT)"

definition boot_process :: process where
  "boot_process = process_clear\<lparr>pid := 1, pstate := PROCESS_STATE_RUNNING, cwd := ''/'', pname := ''kernel-shell'',
     ptable := \<lparr>entries = (\<lambda>_. fd_zero_entry)(0 := \<lparr>e_used = True, e_index = 0\<rparr>, 1 := \<lparr>e_used = True, e_index = 1\<rparr>,
       2 := \<lparr>e_used = True, e_index = 2\<rparr>), initialized = True\<rparr>\<rparr>"

lemma find_free_desc:
  "List.find (\<lambda>i. \<not> d_used fd_description_zero) [0..<POSIX_OFD_CAP] = Some 0"
  "List.find (\<lambda>i. \<not> d_used (((\<lambda>_. fd_description_zero)(0 := tty_description a)) i)) [0..<POSIX_OFD_CAP] = Some 1"
  "List.find (\<lambda>i. \<not> d_used (((\<lambda>_. fd_description_zero)(0 := tty_description a, Suc 0 := tty_description b)) i)) [0..<POSIX_OFD_CAP] = Some 2"
  by (rule find_first; auto simp: fd_description_zero_def tty_description_def less_Suc_eq numeral_2_eq_2)+

lemma process_core_init_zero:
  "process_core_init (zero_kernel s c) = (zero_kernel s c)\<lparr>g_descriptions := boot_descriptions, g_descriptions_initialized := True,
     g_processes := (\<lambda>_. process_clear)(0 := boot_process), g_current_process := Some 0, g_next_pid := 2\<rparr>"
  using find_free_desc [unfolded tty_description_def]
  by (simp add: process_core_init_def zero_kernel_def fd_core_table_init_def fd_descriptions_ensure_init_def
      fd_assign_new_description_def fd_alloc_description_def set_entry_def set_table_def process_copy_string_def Let_def
      boot_descriptions_def boot_process_def tty_description_def fd_core_table_reset_def process_clear_def)

lemma boot_kernel_eq:
  "boot_kernel c = (zero_kernel boot_ramfs c)\<lparr>g_descriptions := boot_descriptions, g_descriptions_initialized := True,
     g_processes := (\<lambda>_. process_clear)(0 := boot_process), g_current_process := Some 0, g_next_pid := 2,
     g_root_driver := Some ramfs_core_driver\<rparr>"
  unfolding boot_kernel_def process_core_init_zero using ramfs_core_init_ok
  by (simp add: fs_core_init_ramfs_def zero_kernel_def ramfs_core_clear_dirty_def boot_ramfs_def)

lemma boot_kernel_inv: "fd_inv (boot_kernel c)"
proof -
  have "fd_inv (process_core_init (zero_kernel boot_ramfs c))" by (rule process_core_init_inv) (simp add: zero_kernel_def)
  then show ?thesis
    unfolding process_core_init_zero boot_kernel_eq by (rule fd_inv_cong) (simp_all add: zero_kernel_def fd_view_def fun_eq_iff)
qed

lemma boot_kernel_fields [simp]:
  "g_root_driver (boot_kernel c) = Some ramfs_core_driver" "fs_state (boot_kernel c) = boot_ramfs"
  "g_current_process (boot_kernel c) = Some 0" "cwd (g_processes (boot_kernel c) 0) = ''/''" "dev_state (boot_kernel c) = c"
  by (simp_all add: boot_kernel_eq zero_kernel_def boot_process_def)

subsection \<open>Files of the RAM file system\<close>

text \<open>A kernel whose root is the RAM file system, in a consistent state.\<close>

definition ram_kernel :: "(ramfs, 'c) kernel \<Rightarrow> bool" where
  "ram_kernel k \<longleftrightarrow> g_root_driver k = Some ramfs_core_driver \<and> ramfs_inv (fs_state k) \<and> g_current_process k \<noteq> None"

lemma node_handle: "n < FS_MAX_NODES \<Longrightarrow> \<not> PSEUDO_IS_FD (fs_node_id n)"
  unfolding PSEUDO_IS_FD_iff by (simp add: fs_node_id_def not_le word_less_nat_alt unat_of_nat_u32 unat_word_ariths)

lemma ram_reads_as:
  assumes "ram_kernel k" "is_file (fs_state k) n"
  shows "reads_as S (fs_node_id n) (file_bytes (fs_state k) n) k"
proof -
  have "\<not> PSEUDO_IS_FD (fs_node_id n)" using assms(2) by (intro node_handle) (simp add: is_file_def live_def)
  then show ?thesis
    using assms ramfs_read_file_bytes [of "fs_state k" n] by (simp add: reads_as_def fs_core_read_def ram_kernel_def ramfs_core_driver_def)
qed

lemma ram_file_at:
  assumes "ram_kernel k" "full_path_of (Some path) k = (Inr full, k)" "\<not> pseudo_fs_is_path full"
    "fs_resolve_final_symlink full FS_PATH_CAP k = Inr res" "fs_resolve_path res (fs_state k) = Inr n" "is_file (fs_state k) n"
  shows "file_at S path (file_bytes (fs_state k) n) k"
proof -
  let ?s = "fs_state k"
  have n: "n < FS_MAX_NODES" "node_used (g_nodes ?s n)" "node_type (g_nodes ?s n) = FS_NODE_FILE"
    using assms(6) by (simp_all add: is_file_def live_def)
  have d: "g_root_driver k = Some ramfs_core_driver" using assms(1) by (simp add: ram_kernel_def)
  have st: "fs_core_stat S (Some path) k = (Inr \<lparr>st_mode = FS_MODE_FILE, st_size = node_size (g_nodes ?s n)\<rparr>, k)"
    using assms(2-5) n d by (simp add: fs_core_stat_def ramfs_core_driver_def ramfs_core_stat_def ramfs_fill_stat_def)
  have "fs_node_id n \<noteq> 0" using n(1) by (simp add: fs_node_id_def word_neq_0_conv word_less_nat_alt unat_of_nat_u32 unat_word_ariths)
  then have op: "fs_core_open (Some path) FS_O_RDONLY k = (Inr (fs_node_id n), k)"
    using assms(2-5) n d by (simp add: fs_core_open_def ramfs_core_driver_def ramfs_core_open_def open_existing_def)
  have "snd (fs_core_close (fs_node_id n) k) = k"
    using node_handle [OF n(1)] d by (simp add: fs_core_close_def ramfs_core_driver_def)
  then show ?thesis
    unfolding file_at_def using st op ram_reads_as [OF assms(1,6), of S]
    by (intro exI [of _ "\<lparr>st_mode = FS_MODE_FILE, st_size = node_size (g_nodes ?s n)\<rparr>"] exI [of _ "fs_node_id n"]) simp
qed

text \<open>A file system with one file in the root directory, made by the operations of the RAM file system.\<close>

definition one_file :: "string \<Rightarrow> char list \<Rightarrow> ramfs" where
  "one_file nm bs = snd (ramfs_core_write 2 0 bs (snd (ramfs_core_open (CHR ''/'' # nm) FS_O_CREAT boot_ramfs)))"

lemma one_file_ok:
  assumes "seg_ok nm" "bs \<noteq> []" "length bs \<le> RAMFS_DATA_SLOT_SIZE"
  shows "ramfs_inv (one_file nm bs)" "fs_resolve_path (CHR ''/'' # nm) (one_file nm bs) = Inr 1" "is_file (one_file nm bs) 1"
    "file_bytes (one_file nm bs) 1 = bs"
proof -
  let ?s = "(add_node 1 0 nm FS_NODE_FILE boot_ramfs)\<lparr>g_dirty := True\<rparr>"
  have b: "boot_ramfs\<lparr>g_dirty := False\<rparr> = boot_ramfs" by (simp add: boot_ramfs_def)
  have o: "ramfs_core_open (CHR ''/'' # nm) FS_O_CREAT boot_ramfs = (Inr 2, ?s)" using boot_open [OF assms(1), of False] b by simp
  have s: "ramfs_inv ?s" using ramfs_core_open_inv [OF boot_ramfs_inv, of "CHR ''/'' # nm" FS_O_CREAT] o by simp
  have f: "is_file ?s 1" by (simp add: is_file_def live_def add_node_def new_node_def)
  have free: "\<not> (\<forall>k < RAMFS_DATA_SLOT_CAP. slot_used (g_data_slots ?s k))"
    by (auto simp: add_node_def boot_ramfs_def zero_slot_def intro!: exI [of _ 0])
  have id: "fs_node_id 1 = 2" by (simp add: fs_node_id_def)
  have lim: "unat (0 :: u32) + length bs \<le> RAMFS_DATA_SLOT_SIZE" using assms(3) by simp
  obtain t where t: "ramfs_core_write (fs_node_id 1) 0 bs ?s = (Inr (of_nat (length bs)), t)"
    using ramfs_invD(2) [OF s] f assms(2) lim by (cases rule: ramfs_core_write_cases) (use free in simp_all)
  have t': "one_file nm bs = t" using t unfolding id one_file_def o by simp
  show "ramfs_inv (one_file nm bs)" unfolding t' using ramfs_core_write_inv [OF s, of "fs_node_id 1" 0 bs] t by simp
  have "fs_resolve_path (CHR ''/'' # nm) ?s = Inr 1"
    using resolve_top(1) [of ?s 0 nm] assms(1) fs_name_eq_refl
    by (simp add: boot_ramfs_def add_node_def new_node_def fs_find_child_def zero_node_def)
  then show "fs_resolve_path (CHR ''/'' # nm) (one_file nm bs) = Inr 1" unfolding t' using ramfs_write_resolve(1) [OF s f t] by simp
  show f': "is_file (one_file nm bs) 1" unfolding t' using ramfs_write_resolve(2) [OF s f t] f by simp
  have "file_bytes ?s 1 = []" by (simp add: file_bytes_def slot_bytes_def add_node_def new_node_def)
  moreover have "write_at 0 bs [] = bs" by (simp add: write_at_def)
  ultimately show "file_bytes (one_file nm bs) 1 = bs"
    using ramfs_file_node [OF f'] ramfs_write_store(3) [OF s f t] t' by simp
qed

definition file_kernel :: "string \<Rightarrow> char list \<Rightarrow> 'c \<Rightarrow> (ramfs, 'c) kernel" where
  "file_kernel nm bs c = (boot_kernel c)\<lparr>fs_state := one_file nm bs\<rparr>"

lemma canonical_name: "name_ok nm \<Longrightarrow> canonical (CHR ''/'' # nm)"
  unfolding canonical_def by (intro conjI exI [of _ "[nm]"]) (simp_all add: render_def name_ok_def)

lemma full_path_boot:
  assumes "canonical q" "g_current_process k = Some i" "cwd (g_processes k i) = ''/''"
  shows "full_path_of (Some q) k = (Inr q, k)"
  using assms normalize_canonical [OF canonical_root assms(1)]
  by (simp add: full_path_of_def fs_core_get_cwd_path_def process_core_current_def canonical_def)

text \<open>A file that is not a link is reached by its own path.\<close>

lemma not_a_link:
  assumes "ram_kernel k" "fs_resolve_path q (fs_state k) = Inr n" "is_file (fs_state k) n" "canonical q"
    "take FS_SYMLINK_PREFIX_LEN (file_bytes (fs_state k) n) \<noteq> FS_SYMLINK_PREFIX"
  shows "fs_resolve_final_symlink q FS_PATH_CAP k = Inr q"
proof -
  have eight: "FS_SYMLINK_MAX_DEPTH = Suc 7" by simp
  have "ramfs_core_stat q (fs_state k) = Inr \<lparr>st_mode = FS_MODE_FILE, st_size = node_size (g_nodes (fs_state k) n)\<rparr>"
    using assms(2,3) by (simp add: ramfs_core_stat_def ramfs_fill_stat_def is_file_def)
  then have "\<exists>e. fs_raw_readlink q FS_PATH_CAP k = Inl e"
    using assms ramfs_core_read_file_bytes [of "fs_state k" q n FS_SYMLINK_BUFFER]
    by (auto simp: fs_raw_readlink_def ram_kernel_def ramfs_core_driver_def is_file_def live_def split: sum.split)
  then obtain e where "fs_raw_readlink q FS_PATH_CAP k = Inl e" by blast
  then show ?thesis unfolding fs_resolve_final_symlink_def canonical_short [OF assms(4)] eight symlink_loop.simps
    by (simp add: canonical_short [OF assms(4)])
qed

lemma file_kernel_at:
  assumes "seg_ok nm" "name_ok nm" "bs \<noteq> []" "length bs \<le> RAMFS_DATA_SLOT_SIZE" "\<not> pseudo_fs_is_path (CHR ''/'' # nm)"
    "take FS_SYMLINK_PREFIX_LEN bs \<noteq> FS_SYMLINK_PREFIX"
  shows "file_at S (CHR ''/'' # nm) bs (file_kernel nm bs c)" "ram_kernel (file_kernel nm bs c)" "fd_inv (file_kernel nm bs c)"
proof -
  let ?k = "file_kernel nm bs c"
  note f = one_file_ok [OF assms(1,3,4)]
  have s: "fs_state ?k = one_file nm bs" by (simp add: file_kernel_def)
  show r: "ram_kernel ?k" using f(1) by (simp add: ram_kernel_def file_kernel_def)
  have c: "canonical (CHR ''/'' # nm)" by (rule canonical_name [OF assms(2)])
  have "fs_resolve_final_symlink (CHR ''/'' # nm) FS_PATH_CAP ?k = Inr (CHR ''/'' # nm)"
    by (rule not_a_link [OF r _ _ c], unfold s, rule f(2), rule f(3), unfold f(4), rule assms(6))
  moreover have "full_path_of (Some (CHR ''/'' # nm)) ?k = (Inr (CHR ''/'' # nm), ?k)"
    by (rule full_path_boot [OF c, of _ 0]) (simp_all add: file_kernel_def)
  ultimately show "file_at S (CHR ''/'' # nm) bs ?k"
    using ram_file_at [OF r _ assms(5) _ f(2,3) [folded s], of "CHR ''/'' # nm" S, unfolded s f(4)] by simp
  show "fd_inv ?k" using boot_kernel_inv [of c] by (simp add: file_kernel_def)
qed

subsection \<open>A program file\<close>

lemma sprg_le32_le32:
  assumes "take 4 (drop i f) = le32 v"
  shows "sprg_le32 f i = v"
proof -
  let ?m = "\<lambda>a :: u32. f ! (i + unat a)"
  have l: "i + 4 \<le> length f" using arg_cong [OF assms, of length] by simp
  have "?m (0 + of_nat j) = le32 v ! j" if "j < 4" for j
    using that l by (simp add: assms [symmetric] unat_of_nat_u32)
  from u32_at_le32 [of ?m 0, OF this] show ?thesis by (simp add: u32_at_def sprg_le32_def)
qed

text \<open>One segment of four bytes and four zeros, at 0x60000 or at 0x80000.\<close>

definition demo_prg :: "u32 \<Rightarrow> char list" where
  "demo_prg a = ''SPRG'' @ le32 1 @ le32 SPRG_ARCH_I386 @ le32 a @ le32 28 @ le32 1 @ le32 0 @
     le32 1 @ le32 60 @ le32 a @ le32 4 @ le32 8 @ le32 5 @ le32 0 @ le32 0 @ ''code''"

definition demo_segment :: "u32 \<Rightarrow> sprg_segment" where
  "demo_segment a = \<lparr>seg_type = 1, seg_offset = 60, seg_vaddr = a, seg_filesz = 4, seg_memsz = 8, seg_flags = 5, seg_align = 0, seg_reserved = 0\<rparr>"

lemma demo_prg_fields:
  "length (demo_prg a) = 64" "take 4 (demo_prg a) = ''SPRG''" "sprg_le32 (demo_prg a) 4 = 1" "sprg_le32 (demo_prg a) 8 = 1"
  "sprg_le32 (demo_prg a) 12 = a" "sprg_le32 (demo_prg a) 16 = 28" "sprg_le32 (demo_prg a) 20 = 1" "sprg_le32 (demo_prg a) 24 = 0"
  "phdr_of (take 32 (drop 28 (demo_prg a))) = demo_segment a" "drop 60 (demo_prg a) = ''code''"
proof -
  show "length (demo_prg a) = 64" "take 4 (demo_prg a) = ''SPRG''" "drop 60 (demo_prg a) = ''code''" by (simp_all add: demo_prg_def)
  show "sprg_le32 (demo_prg a) 4 = 1" "sprg_le32 (demo_prg a) 8 = 1"
    "sprg_le32 (demo_prg a) 12 = a" "sprg_le32 (demo_prg a) 16 = 28" "sprg_le32 (demo_prg a) 20 = 1" "sprg_le32 (demo_prg a) 24 = 0"
    by (rule sprg_le32_le32; simp add: demo_prg_def)+
  have "take 32 (drop 28 (demo_prg a)) = le32 1 @ le32 60 @ le32 a @ le32 4 @ le32 8 @ le32 5 @ le32 0 @ le32 0"
    by (simp add: demo_prg_def)
  moreover have "phdr_of (le32 1 @ le32 60 @ le32 a @ le32 4 @ le32 8 @ le32 5 @ le32 0 @ le32 0) = demo_segment a"
    unfolding phdr_of_def demo_segment_def by (simp only: sprg_segment.ext_inject, intro conjI TrueI refl; rule sprg_le32_le32; simp)
  ultimately show "phdr_of (take 32 (drop 28 (demo_prg a))) = demo_segment a" by simp
qed

lemma demo_program:
  "image_of SPRG_ARCH_I386 (demo_prg a) = \<lparr>img_entry = a, img_arch = SPRG_ARCH_I386, img_file_size = 64, img_segments = [demo_segment a]\<rparr>"
  "program_file SPRG_ARCH_I386 (demo_prg a) (image_of SPRG_ARCH_I386 (demo_prg a))"
proof -
  show i: "image_of SPRG_ARCH_I386 (demo_prg a) = \<lparr>img_entry = a, img_arch = SPRG_ARCH_I386, img_file_size = 64, img_segments = [demo_segment a]\<rparr>"
    by (simp add: image_of_def demo_prg_fields)
  show "program_file SPRG_ARCH_I386 (demo_prg a) (image_of SPRG_ARCH_I386 (demo_prg a))"
    unfolding program_file_iff i header_ok_def by (simp add: demo_prg_fields demo_segment_def seg_wf_def)
qed

lemma demo_file_at:
  "file_at S ''/a.prg'' (demo_prg a) (file_kernel ''a.prg'' (demo_prg a) c)" "ram_kernel (file_kernel ''a.prg'' (demo_prg a) c)"
  "fd_inv (file_kernel ''a.prg'' (demo_prg a) c)"
proof -
  have "take FS_SYMLINK_PREFIX_LEN (demo_prg a) \<noteq> FS_SYMLINK_PREFIX" by (simp add: demo_prg_def)
  moreover have "demo_prg a \<noteq> []" by (simp add: demo_prg_def)
  ultimately show "file_at S ''/a.prg'' (demo_prg a) (file_kernel ''a.prg'' (demo_prg a) c)" "ram_kernel (file_kernel ''a.prg'' (demo_prg a) c)"
    "fd_inv (file_kernel ''a.prg'' (demo_prg a) c)"
    using file_kernel_at [of "''a.prg''" "demo_prg a"] by (simp_all add: seg_ok_def name_ok_def demo_prg_fields pseudo_fs_is_path_def mount_def)
qed

theorem sprg_validate_accepts_witness:
  "\<forall>(S :: unit services). let k = file_kernel ''a.prg'' (demo_prg 0x60000) () in
     sprg_core_validate_file S (Some ''/a.prg'') SPRG_ARCH_I386 k = Some (Inr (image_of SPRG_ARCH_I386 (demo_prg 0x60000)), k)"
proof
  fix S :: "unit services"
  let ?f = "demo_prg 0x60000" and ?k = "file_kernel ''a.prg'' (demo_prg 0x60000) ()"
  have "program_file SPRG_ARCH_I386 ?f (image_of SPRG_ARCH_I386 ?f)" by (rule demo_program(2))
  then have p: "header_ok SPRG_ARCH_I386 ?f" "length ?f \<le> 65536" "list_all (seg_wf (length ?f)) (img_segments (image_of SPRG_ARCH_I386 ?f))"
     "sorted_wrt segs_apart (img_segments (image_of SPRG_ARCH_I386 ?f))" unfolding program_file_iff by simp_all
  have x: "sprg_has_prg_suffix ''/a.prg''" by (simp add: sprg_has_prg_suffix_def)
  have "\<exists>r. sprg_core_validate_file S (Some ''/a.prg'') SPRG_ARCH_I386 ?k = Some (r, ?k) \<and>
      (\<exists>img. r = Inr img) \<and> (\<forall>img. r = Inr img \<longrightarrow> img = image_of SPRG_ARCH_I386 ?f)"
    using sprg_validate_accepts [OF demo_file_at(1) [of S "0x60000" "()"], of SPRG_ARCH_I386] p x by blast
  then show "let k = ?k in sprg_core_validate_file S (Some ''/a.prg'') SPRG_ARCH_I386 k = Some (Inr (image_of SPRG_ARCH_I386 ?f), k)"
    by auto
qed

theorem sprg_load_confined_witness:
  "\<forall>(S :: unit services) m. let k = file_kernel ''a.prg'' (demo_prg 0x60000) () in
     \<exists>r m'. sprg_core_load_file S (Some ''/a.prg'') SPRG_ARCH_I386 0x60000 0x70000 m k = Some (r, m', k) \<and> m' 0x5FFFF = m 0x5FFFF"
proof (intro allI)
  fix S :: "unit services" and m
  obtain r m' where "sprg_core_load_file S (Some ''/a.prg'') SPRG_ARCH_I386 0x60000 0x70000 m (file_kernel ''a.prg'' (demo_prg 0x60000) ()) =
      Some (r, m', file_kernel ''a.prg'' (demo_prg 0x60000) ())" "\<forall>x. x < 0x60000 \<or> 0x70000 \<le> x \<longrightarrow> m' x = m x"
    using sprg_load_confined [OF demo_file_at(1) [of S "0x60000" "()"]] by blast
  then show "let k = file_kernel ''a.prg'' (demo_prg 0x60000) () in
     \<exists>r m'. sprg_core_load_file S (Some ''/a.prg'') SPRG_ARCH_I386 0x60000 0x70000 m k = Some (r, m', k) \<and> m' 0x5FFFF = m 0x5FFFF"
    by (auto simp: Let_def)
qed

lemma demo_load:
  assumes "sprg_has_prg_suffix path" "file_at S path (demo_prg a) k" "user_min \<le> a" "a < user_max - 8" "8 \<le> user_max"
  shows "\<exists>m'. sprg_core_load_file S (Some path) SPRG_ARCH_I386 user_min user_max m k =
    Some (Inr (image_of SPRG_ARCH_I386 (demo_prg a)), m', k)"
proof -
  have u: "unat (user_max - 8) = unat user_max - 8" "8 \<le> unat user_max"
    using assms(5) by (simp_all add: unat_sub word_le_nat_alt)
  then have a: "unat a + 8 < unat user_max" "unat user_min \<le> unat a" using assms(3,4) by (simp_all add: word_less_nat_alt word_le_nat_alt)
  then have lt: "user_min < user_max" by (simp add: word_less_nat_alt)
  have fit: "seg_fits user_min user_max (demo_segment a)"
    using a assms(3) unat_u32_less [of user_max] by (simp add: seg_fits_def demo_segment_def)
  have ex: "seg_exec a (demo_segment a)" by (simp add: seg_exec_def demo_segment_def in_range_def)
  have p: "(\<exists>img. sprg_has_prg_suffix path \<and> program_file SPRG_ARCH_I386 (demo_prg a) img) = True"
    using demo_program(2) [of a] assms(1) by blast
  show ?thesis
    using sprg_load_spec [OF assms(2) lt, of SPRG_ARCH_I386 m, unfolded p if_True Let_def] fit ex
    by (auto simp: demo_prg_fields demo_program(1))
qed

theorem sprg_load_image_witness:
  "\<forall>(S :: unit services) m. let k = file_kernel ''a.prg'' (demo_prg 0x60000) () in
     \<exists>m'. sprg_core_load_file S (Some ''/a.prg'') SPRG_ARCH_I386 0x60000 0x70000 m k =
           Some (Inr (image_of SPRG_ARCH_I386 (demo_prg 0x60000)), m', k) \<and>
         bytes_at m' 0x60000 8 = ''code'' @ replicate 4 (CHR 0x00) \<and> m' 0x60008 = m 0x60008"
proof (intro allI)
  fix S :: "unit services" and m
  let ?k = "file_kernel ''a.prg'' (demo_prg 0x60000) ()"
  have "sprg_has_prg_suffix ''/a.prg''" by (simp add: sprg_has_prg_suffix_def)
  then obtain m' where l: "sprg_core_load_file S (Some ''/a.prg'') SPRG_ARCH_I386 0x60000 0x70000 m ?k =
      Some (Inr (image_of SPRG_ARCH_I386 (demo_prg 0x60000)), m', ?k)"
    using demo_load [OF _ demo_file_at(1) [of S "0x60000" "()"], of "0x60000" "0x70000" m] by auto
  have "bytes_at m' 0x60000 8 = seg_bytes (demo_prg 0x60000) (demo_segment 0x60000)" "m' 0x60008 = m 0x60008"
    using sprg_load_image [OF demo_file_at(1) l] by (simp_all add: demo_program demo_segment_def in_range_def)
  moreover have "seg_bytes (demo_prg 0x60000) (demo_segment 0x60000) = ''code'' @ replicate 4 (CHR 0x00)"
    by (simp add: seg_bytes_def demo_segment_def demo_prg_fields)
  ultimately show "let k = file_kernel ''a.prg'' (demo_prg 0x60000) () in
     \<exists>m'. sprg_core_load_file S (Some ''/a.prg'') SPRG_ARCH_I386 0x60000 0x70000 m k =
           Some (Inr (image_of SPRG_ARCH_I386 (demo_prg 0x60000)), m', k) \<and>
         bytes_at m' 0x60000 8 = ''code'' @ replicate 4 (CHR 0x00) \<and> m' 0x60008 = m 0x60008"
    using l by (auto simp: Let_def)
qed

end
