(* ===== verification/Exec_Enter.thy ===== *)
theory Exec_Enter
  imports Machine Usermode_Stack Boot_Kernel
begin

text \<open>
  A successful exec, from the file to the first instruction: the parts of \<open>exec_begin\<close> put together.
\<close>

subsection \<open>Opening the segments\<close>

lemma touches_inside:
  assumes "unat a + n \<le> 0x04000000" "in_range a n x"
  shows "touches a (a + of_nat n) (unat x div 4096)"
proof -
  have r: "unat a \<le> unat x" "unat x < unat a + n" using assms in_range_iff [of a n x] by simp_all
  have n: "unat (of_nat n :: u32) = n" using assms(1) by (intro unat_of_nat_u32) simp
  then have e: "unat (a + of_nat n) = unat a + n" using assms(1) by (subst unat_add_no_wrap) simp_all
  have "4096 * (unat x div 4096) \<le> unat x" "unat x < 4096 * (unat x div 4096) + 4096" by simp_all
  then show ?thesis unfolding touches_def word_less_nat_alt word_le_nat_alt e using r assms(1) by simp
qed

text \<open>
  Segments may share a page. A page can be written if the last of the segments that touch it is
  writable: the loop over the segments sets the flag of the page again for each of them.
\<close>

definition seg_touches :: "nat \<Rightarrow> sprg_segment \<Rightarrow> bool" where
  "seg_touches p seg \<longleftrightarrow> touches (seg_vaddr seg) (seg_vaddr seg + seg_memsz seg) p"

definition page_writable :: "sprg_segment list \<Rightarrow> nat \<Rightarrow> bool" where
  "page_writable segs p \<longleftrightarrow> seg_flags (last (filter (seg_touches p) segs)) AND SPRG_FLAG_W \<noteq> 0"

lemma open_segments_user:
  assumes "identity_map PL pg"
    "\<And>seg. seg \<in> set segs \<Longrightarrow> seg_memsz seg \<noteq> 0 \<and> unat (seg_vaddr seg) + unat (seg_memsz seg) \<le> 0x04000000"
  shows "\<exists>pg'. open_segments segs pg = (True, pg') \<and> identity_map PL pg' \<and>
    (\<forall>p. (user_bit pg' p, write_bit pg' p) =
      (if filter (seg_touches p) segs = [] then (user_bit pg p, write_bit pg p) else (True, page_writable segs p)))"
  using assms
proof (induction segs arbitrary: pg)
  case (Cons seg segs)
  let ?a = "seg_vaddr seg" and ?e = "seg_vaddr seg + seg_memsz seg" and ?w = "seg_flags seg AND SPRG_FLAG_W \<noteq> 0"
  have s: "seg_memsz seg \<noteq> 0" "unat ?a + unat (seg_memsz seg) \<le> 0x04000000" using Cons.prems(2) by simp_all
  have e: "unat ?e = unat ?a + unat (seg_memsz seg)" using s(2) by (subst unat_add_no_wrap) simp_all
  have "0 < unat (seg_memsz seg)" using s(1) by (simp add: unat_gt_0)
  then have ok: "?a < ?e \<and> ?e \<le> 0x04000000" using s(2) by (simp add: word_less_nat_alt word_le_nat_alt e)
  obtain pg1 where p: "paging_core_set_user_range ?a ?e ?w pg = (0, pg1)" "identity_map PL pg1"
    and b: "\<And>p. (user_bit pg1 p, write_bit pg1 p) = (if touches ?a ?e p then (True, ?w) else (user_bit pg p, write_bit pg p))"
    using set_user_range_spec [OF Cons.prems(1), of ?a ?e ?w] ok by auto
  obtain pg' where IH: "open_segments segs pg1 = (True, pg')" "identity_map PL pg'"
    "\<And>p. (user_bit pg' p, write_bit pg' p) =
      (if filter (seg_touches p) segs = [] then (user_bit pg1 p, write_bit pg1 p) else (True, page_writable segs p))"
    using Cons.IH [OF p(2)] Cons.prems(2) by auto
  have "(user_bit pg' p, write_bit pg' p) =
      (if filter (seg_touches p) (seg # segs) = [] then (user_bit pg p, write_bit pg p) else (True, page_writable (seg # segs) p))" for p
    using b [of p] IH(3) [of p] by (simp add: page_writable_def seg_touches_def [of p seg])
  then show ?case using p(1) IH by (intro exI [of _ pg']) simp
qed simp

lemma segment_rights:
  assumes "(user_bit pg p, write_bit pg p) =
      (if filter (seg_touches p) segs = [] then r else (True, page_writable segs p))"
    "seg \<in> set segs" "unat (seg_vaddr seg) + unat (seg_memsz seg) \<le> 0x04000000"
    "in_range (seg_vaddr seg) (unat (seg_memsz seg)) x" "p = unat x div 4096"
  shows "user_bit pg p \<and> write_bit pg p = page_writable segs p"
proof -
  have "seg_touches p seg" using touches_inside [OF assms(3,4)] assms(5) by (simp add: seg_touches_def)
  then have "filter (seg_touches p) segs \<noteq> []" using assms(2) by (auto simp: filter_empty_conv)
  then show ?thesis using assms(1) by simp
qed

subsection \<open>The slot of an image\<close>

lemma exec_slot_fits:
  assumes "exec_slot img d = Inr ((lo, hi), (smin, stop))"
  shows "image_fits_slot img lo hi" "lo < hi" "hi = smin" "unat smin + 4096 \<le> unat stop" "stop \<le> 0x9F000" "0x60000 \<le> lo"
    "smin = 0x70000 \<and> stop = 0x80000 \<or> smin = 0x90000 \<and> stop = 0x9F000"
  using assms by (auto simp: exec_slot_def split: if_splits)

text \<open>The pieces of a valid program: what the loader asks for beyond the validator.\<close>

definition loadable :: "sprg_image \<Rightarrow> bool" where
  "loadable img \<longleftrightarrow> list_ex (seg_exec (img_entry img)) (img_segments img) \<and>
     list_all (\<lambda>seg. seg_memsz seg \<noteq> 0 \<and> seg_flags seg AND NOT (SPRG_FLAG_R OR SPRG_FLAG_W OR SPRG_FLAG_X) = 0) (img_segments img)"

lemma slot_seg_fits:
  "image_fits_slot img lo hi \<Longrightarrow> loadable img \<Longrightarrow> list_all (seg_fits lo hi) (img_segments img)"
  unfolding image_fits_slot_def loadable_def list_all_iff seg_fits_iff by (auto simp: Let_def)

lemma string_in_at: "string_in lo hi m a s \<Longrightarrow> string_at m a = Some (Some s)"
  using cstr_of_bytes [of m a s] by (simp add: string_in_def string_at_def)

text \<open>Loading into the slot of a loadable image succeeds, and changes nothing outside the slot.\<close>

lemma load_in_slot:
  assumes "file_at S p f k" "sprg_has_prg_suffix p" "program_file arch f img" "loadable img"
    "image_fits_slot img lo hi" "lo < hi"
  shows "\<exists>m1. sprg_core_load_file S (Some p) arch lo hi m k = Some (Inr img, m1, k) \<and>
    (\<forall>seg \<in> set (img_segments img). seg_fits lo hi seg \<and> bytes_at m1 (seg_vaddr seg) (unat (seg_memsz seg)) = seg_bytes f seg) \<and>
    agree lo hi m m1"
proof -
  have img: "img = image_of arch f" using assms(3) by (simp add: program_file_iff)
  have fit: "list_all (seg_fits lo hi) (img_segments img)" by (rule slot_seg_fits [OF assms(5,4)])
  have ex: "list_ex (seg_exec (sprg_le32 f 12)) (img_segments img)"
    using assms(4) by (simp add: loadable_def img) (simp add: image_of_def)
  have t: "(\<exists>img. sprg_has_prg_suffix p \<and> program_file arch f img) = True" using assms(2,3) by blast
  obtain m1 where l: "sprg_core_load_file S (Some p) arch lo hi m k = Some (Inr img, m1, k)"
    using sprg_load_spec [OF assms(1,6), of arch m, unfolded t if_True Let_def] fit ex by (auto simp: img)
  note s = sprg_load_success [OF assms(1) l]
  have "m1 x = m x" if "\<not> (lo \<le> x \<and> x < hi)" for x
  proof -
    have "\<not> in_range (seg_vaddr seg) (unat (seg_memsz seg)) x" if "seg \<in> set (img_segments img)" for seg
    proof -
      have "seg_fits lo hi seg" using fit that by (simp add: list_all_iff)
      then show ?thesis using \<open>\<not> (lo \<le> x \<and> x < hi)\<close>
        by (auto simp: seg_fits_def in_range_iff word_le_nat_alt word_less_nat_alt)
    qed
    then show ?thesis using s by blast
  qed
  then show ?thesis using l s by (auto simp: agree_def)
qed

subsection \<open>Arguments that the load leaves alone\<close>

lemma agree_wider: "agree lo hi m m' \<Longrightarrow> lo' \<le> lo \<Longrightarrow> hi \<le> hi' \<Longrightarrow> agree lo' hi' m m'"
  unfolding agree_def by (meson order_trans less_le_trans)

lemma string_in_narrow: "string_in lo hi m a s \<Longrightarrow> lo \<le> lo' \<Longrightarrow> string_in lo' hi m a s"
  unfolding string_in_def by (meson order_trans)

lemma vector_narrow:
  assumes "vector lo hi m arr ss" "agree lo hi m m'" "lo \<le> lo'"
  shows "vector lo' hi m' arr ss"
proof -
  have w: "u32_at m' (arr + 4 * of_nat i) = u32_at m (arr + 4 * of_nat i)" if "i \<le> length ss" for i
    by (rule vector_word [OF assms(1,2) that])
  have "string_in lo' hi m' (u32_at m' (arr + 4 * of_nat i)) (ss ! i)" if "i < length ss" for i
  proof -
    have "string_in lo hi m (u32_at m (arr + 4 * of_nat i)) (ss ! i)" using assms(1) that by (simp add: vector_def)
    then show ?thesis using w [of i] that string_in_agree [OF _ assms(2)] string_in_narrow [OF _ assms(3)] by simp
  qed
  moreover have "\<not> (lo' \<le> arr + of_nat j \<and> arr + of_nat j < hi)" if "j < 4 * length ss + 4" for j
    using assms(1,3) that unfolding vector_def by (meson order_trans)
  ultimately show ?thesis using assms(1) w [of "length ss"] by (simp add: vector_def)
qed

lemma arguments_narrow:
  assumes "arguments lo hi m path argv args" "agree lo hi m m'" "lo \<le> lo'"
  shows "arguments lo' hi m' path argv args"
proof (cases "argv = 0")
  case True
  then obtain p where p: "args = [p]" "string_in lo hi m path p" using assms(1) by (auto simp: arguments_def)
  have "string_in lo' hi m' path p" by (rule string_in_narrow [OF string_in_agree [OF p(2) assms(2)] assms(3)])
  then show ?thesis using True p(1) by (simp add: arguments_def)
next
  case False
  then show ?thesis using assms vector_narrow [of lo hi m argv args m' lo'] by (simp add: arguments_def)
qed

lemma environment_narrow:
  assumes "environment lo hi m envp envs" "agree lo hi m m'" "lo \<le> lo'"
  shows "environment lo' hi m' envp envs"
  using assms vector_narrow [of lo hi m envp envs m' lo'] by (cases "envp = 0") (simp_all add: environment_def)

lemma bytes_at_below:
  assumes "agree lo hi m m'" "unat a + n \<le> unat lo"
  shows "bytes_at m' a n = bytes_at m a n"
proof (rule nth_equalityI)
  fix j assume "j < length (bytes_at m' a n)"
  then have j: "j < n" by simp
  have "unat (of_nat j :: u32) = j" using j assms(2) unat_u32_less [of lo] by (intro unat_of_nat_u32) simp
  then have "unat (a + of_nat j) = unat a + j" using j assms(2) unat_u32_less [of lo] by (subst unat_add_no_wrap) simp_all
  then have "\<not> lo \<le> a + of_nat j" using assms(2) j by (simp add: word_le_nat_alt)
  then show "bytes_at m' a n ! j = bytes_at m a n ! j" using assms(1) j by (simp add: bytes_at_nth agree_def)
qed simp

text \<open>Every byte of a stack can be written.\<close>

lemma stack_walk:
  assumes "stack_pages pg" "smin = 0x70000 \<and> stop = 0x80000 \<or> smin = 0x90000 \<and> stop = (0x9F000 :: u32)" "smin \<le> x" "x < stop"
  shows "x < 0x04000000 \<and> user_bit pg (unat x div 4096) \<and> write_bit pg (unat x div 4096)"
proof -
  have "0x70000 \<le> unat x \<and> unat x < 0x80000 \<or> 0x90000 \<le> unat x \<and> unat x < 0x9F000"
    using assms(2-4) by (auto simp: word_le_nat_alt word_less_nat_alt)
  moreover from this have "0x70 \<le> unat x div 4096 \<and> unat x div 4096 < 0x80 \<or> 0x90 \<le> unat x div 4096 \<and> unat x div 4096 < 0x9F"
    by linarith
  ultimately show ?thesis using assms(1) unfolding stack_pages_def word_less_nat_alt by auto
qed

subsection \<open>A program starts\<close>

lemma exec_begin_enters:
  assumes "fd_inv (kern mc)" "g_current_process (kern mc) = Some c" "i < PROCESS_MAX" "pstate (g_processes (kern mc) i) = PROCESS_STATE_UNUSED"
    "g_usermode_exec_depth mc < USERMODE_EXEC_DEPTH_MAX" "user_pages_ok PL (pgs mc)"
    "file_at S p f (kern mc)" "sprg_has_prg_suffix p" "program_file SPRG_ARCH_I386 f img" "loadable img"
    "exec_slot img (g_usermode_exec_depth mc) = Inr ((lo, hi), (smin, stop))"
    "string_in lo stop (mem mc) path p" "arguments lo stop (mem mc) path argv args" "environment lo stop (mem mc) envp envs"
  shows "\<exists>fr sp mc'. exec_begin S L path argv envp mc = Some (Exec_Entered fr (img_entry img) sp, mc') \<and>
    spawned c (ef_child fr) (kern mc) (kern mc') \<and>
    esp0 (g_usermode_tss mc') = kernel_stack_top L (g_usermode_exec_depth mc) \<and>
    stack_image (mem mc') sp args envs \<and> smin \<le> sp \<and> sp < stop \<and> unat sp mod 4 = 0 \<and>
    (\<forall>seg \<in> set (img_segments img). bytes_at (mem mc') (seg_vaddr seg) (unat (seg_memsz seg)) = seg_bytes f seg) \<and>
    agree lo stop (mem mc) (mem mc') \<and> user_pages_ok PL (pgs mc') \<and>
    (\<forall>seg x. seg \<in> set (img_segments img) \<longrightarrow> in_range (seg_vaddr seg) (unat (seg_memsz seg)) x \<longrightarrow>
       user_bit (pgs mc') (unat x div 4096) \<and> write_bit (pgs mc') (unat x div 4096) = page_writable (img_segments img) (unat x div 4096))"
proof -
  note sl = exec_slot_fits [OF assms(11)]
  obtain r where "sprg_core_validate_file S (Some p) SPRG_ARCH_I386 (kern mc) = Some (r, kern mc)"
    "\<forall>img. r = Inr img \<longleftrightarrow> sprg_has_prg_suffix p \<and> program_file SPRG_ARCH_I386 f img"
    using sprg_validate_spec [OF assms(7)] by blast
  then have v: "sprg_core_validate_file S (Some p) SPRG_ARCH_I386 (kern mc) = Some (Inr img, kern mc)" using assms(8,9) by auto
  obtain m1 where l: "sprg_core_load_file S (Some p) SPRG_ARCH_I386 lo hi (mem mc) (kern mc) = Some (Inr img, m1, kern mc)"
    "\<And>seg. seg \<in> set (img_segments img) \<Longrightarrow> seg_fits lo hi seg"
    "\<And>seg. seg \<in> set (img_segments img) \<Longrightarrow> bytes_at m1 (seg_vaddr seg) (unat (seg_memsz seg)) = seg_bytes f seg"
    "agree lo hi (mem mc) m1"
    using load_in_slot [OF assms(7-10) sl(1,2), of "mem mc"] by blast
  have bound: "unat hi \<le> 0x9F000" "unat stop \<le> 0x9F000" "hi \<le> stop" "lo \<le> smin"
    using sl(2-5) by (simp_all add: word_le_nat_alt word_less_nat_alt)
  have fit: "seg_memsz seg \<noteq> 0 \<and> unat (seg_vaddr seg) + unat (seg_memsz seg) \<le> 0x04000000" if "seg \<in> set (img_segments img)" for seg
    using l(2) [OF that] assms(10) that bound(1) by (auto simp: loadable_def list_all_iff seg_fits_def)
  have id: "identity_map PL (pgs mc)" using assms(6) by (simp add: user_pages_ok_def)
  obtain pg where o: "open_segments (img_segments img) (pgs mc) = (True, pg)"
    "\<And>p. (user_bit pg p, write_bit pg p) = (if filter (seg_touches p) (img_segments img) = [] then (user_bit (pgs mc) p, write_bit (pgs mc) p)
      else (True, page_writable (img_segments img) p))"
    using open_segments_user [OF id fit] by auto
  have "program_area (seg_vaddr seg) (seg_vaddr seg + seg_memsz seg)" if "seg \<in> set (img_segments img)" for seg
    using sprg_load_fits [OF l(1) that] program_area_mono [OF exec_slot_range [OF assms(11)]] by blast
  then have pg: "user_pages_ok PL pg" using open_segments_slot [OF assms(6), of "img_segments img"] o(1) by simp
  have rights: "user_bit pg (unat x div 4096) \<and> write_bit pg (unat x div 4096) = page_writable (img_segments img) (unat x div 4096)"
    if "seg \<in> set (img_segments img)" "in_range (seg_vaddr seg) (unat (seg_memsz seg)) x" for seg x
    by (rule segment_rights [OF o(2) that(1) _ that(2) refl]) (use fit [OF that(1)] in simp)
  have ag: "agree lo stop (mem mc) m1" using agree_wider [OF l(4) order_refl bound(3)] .
  obtain sp m2 where b: "build_initial_stack smin stop path argv envp m1 = (Inr sp, m2)" "stack_image m2 sp args envs"
    "smin \<le> sp" "sp < stop" "unat sp mod 4 = 0" "\<forall>x. x < smin \<or> stop \<le> x \<longrightarrow> m2 x = m1 x"
    using build_initial_stack_spec [OF arguments_narrow [OF assms(13) ag bound(4)] environment_narrow [OF assms(14) ag bound(4)] sl(4)]
    by (elim exE conjE) (rule that)
  have ag2: "agree smin stop m1 m2" using b(6) by (auto simp: agree_def)
  let ?mc2 = "mc\<lparr>kern := kern mc, mem := m1, pgs := pg, mem := m2\<rparr>"
  obtain ch where "List.find (\<lambda>i. pstate (g_processes (kern mc) i) = PROCESS_STATE_UNUSED) [0..<PROCESS_MAX] = Some ch"
    using assms(3,4) by (cases "List.find (\<lambda>i. pstate (g_processes (kern mc) i) = PROCESS_STATE_UNUSED) [0..<PROCESS_MAX]")
      (auto simp: find_None_iff)
  from spawn_exec_child [OF assms(1,2) this] obtain k' where
    k: "process_core_spawn_exec (name_at m2 path) (img_arch img) (img_entry img) (of_nat (length (img_segments img))) (img_file_size img) sp (kern mc) =
      (Some ch, k')" "spawned c ch (kern mc) k'" by blast
  define fr where "fr = \<lparr>ef_child = ch, ef_saved_esp = g_usermode_saved_esp mc, ef_saved_eflags = g_usermode_saved_eflags mc,
    ef_tss_esp0 = esp0 (g_usermode_tss mc)\<rparr>"
  define mc' where "mc' = ?mc2\<lparr>kern := k', g_usermode_tss := (g_usermode_tss mc)\<lparr>esp0 := kernel_stack_top L (g_usermode_exec_depth mc)\<rparr>,
    g_usermode_exec_depth := g_usermode_exec_depth mc + 1\<rparr>"
  have e: "exec_spawn L path img sp ?mc2 = (Exec_Entered fr (img_entry img) sp, mc')"
    using k(1) by (simp add: exec_spawn_def fr_def mc'_def)
  have nd: "\<not> USERMODE_EXEC_DEPTH_MAX \<le> g_usermode_exec_depth mc" using assms(5) by simp
  have eq: "exec_begin S L path argv envp mc = Some (Exec_Entered fr (img_entry img) sp, mc')"
    unfolding exec_begin_def if_not_P [OF nd] string_in_at [OF assms(12)] bind.bind_lunit v prod.case sum.case assms(11) l(1) Let_def
    using o(1) b(1) e by simp
  have seg: "bytes_at m2 (seg_vaddr seg) (unat (seg_memsz seg)) = seg_bytes f seg" if "seg \<in> set (img_segments img)" for seg
    using bytes_at_below [OF ag2, of "seg_vaddr seg" "unat (seg_memsz seg)"] l(2,3) [OF that] sl(3) by (simp add: seg_fits_def)
  have all: "agree lo stop (mem mc) m2" using agree_trans [OF ag agree_wider [OF ag2 bound(4) order_refl]] .
  show ?thesis
    by (intro exI [of _ fr] exI [of _ sp] exI [of _ mc'] conjI eq) (use k(2) b pg rights seg all in \<open>simp_all add: mc'_def fr_def\<close>)
qed

text \<open>
  C3: Executing a well-formed program file with a free process and a free level of nesting succeeds. The
  file is one that stat, open, read and close find and that they leave the kernel unchanged for, as
  they do on a RAM file system (\<open>file_at\<close>); the page tables are those of a machine that ran
  \<open>usermode_init\<close> and possibly programs since. The program starts at the entry point of the file, on a
  stack inside its slot that holds its arguments and its environment, and user mode can read and write
  the whole stack; its segments are in memory with the bytes of the file followed by zeros, user mode
  can reach every byte of them and can write a byte if the last segment on its page is writable;
  nothing outside the slot has changed; the new process is a running child of the caller with the
  descriptors and the directory of the caller, and traps of the program go to the kernel stack of its
  level.
\<close>

theorem exec_starts_program:
  assumes "fd_inv (kern mc)" "g_current_process (kern mc) = Some c" "i < PROCESS_MAX" "pstate (g_processes (kern mc) i) = PROCESS_STATE_UNUSED"
    "g_usermode_exec_depth mc < USERMODE_EXEC_DEPTH_MAX" "layout_ok PL" "user_pages_ok PL (pgs mc)"
    "file_at S p f (kern mc)" "sprg_has_prg_suffix p" "program_file SPRG_ARCH_I386 f img" "loadable img"
    "exec_slot img (g_usermode_exec_depth mc) = Inr ((lo, hi), (smin, stop))"
    "string_in lo stop (mem mc) path p" "arguments lo stop (mem mc) path argv args" "environment lo stop (mem mc) envp envs"
  shows "\<exists>fr sp mc'. exec_begin S L path argv envp mc = Some (Exec_Entered fr (img_entry img) sp, mc') \<and>
    spawned c (ef_child fr) (kern mc) (kern mc') \<and> esp0 (g_usermode_tss mc') = kernel_stack_top L (g_usermode_exec_depth mc) \<and>
    stack_image (mem mc') sp args envs \<and> smin \<le> sp \<and> sp < stop \<and> unat sp mod 4 = 0 \<and>
    (\<forall>x. smin \<le> x \<and> x < stop \<longrightarrow> mmu_walk PL (pgs mc') x = Some (x, True, True)) \<and>
    (\<forall>seg \<in> set (img_segments img). bytes_at (mem mc') (seg_vaddr seg) (unat (seg_memsz seg)) = seg_bytes f seg \<and>
       (\<forall>x. in_range (seg_vaddr seg) (unat (seg_memsz seg)) x \<longrightarrow>
          mmu_walk PL (pgs mc') x = Some (x, True, page_writable (img_segments img) (unat x div 4096)))) \<and>
    agree lo stop (mem mc) (mem mc')"
proof -
  note sl = exec_slot_fits [OF assms(12)]
  have fits: "list_all (seg_fits lo hi) (img_segments img)" by (rule slot_seg_fits [OF sl(1) assms(11)])
  have "unat hi \<le> 0x9F000" using sl(3,4,5) by (simp add: word_le_nat_alt)
  then have low: "x < 0x04000000" if "seg \<in> set (img_segments img)" "in_range (seg_vaddr seg) (unat (seg_memsz seg)) x" for seg x
    using fits that by (auto simp: list_all_iff seg_fits_def in_range_iff word_less_nat_alt)
  obtain fr sp mc' where e: "exec_begin S L path argv envp mc = Some (Exec_Entered fr (img_entry img) sp, mc')"
    "spawned c (ef_child fr) (kern mc) (kern mc')" "esp0 (g_usermode_tss mc') = kernel_stack_top L (g_usermode_exec_depth mc)"
    "stack_image (mem mc') sp args envs" "smin \<le> sp" "sp < stop" "unat sp mod 4 = 0"
    "\<forall>seg \<in> set (img_segments img). bytes_at (mem mc') (seg_vaddr seg) (unat (seg_memsz seg)) = seg_bytes f seg"
    "agree lo stop (mem mc) (mem mc')" "user_pages_ok PL (pgs mc')"
    "\<forall>seg x. seg \<in> set (img_segments img) \<longrightarrow> in_range (seg_vaddr seg) (unat (seg_memsz seg)) x \<longrightarrow>
       user_bit (pgs mc') (unat x div 4096) \<and> write_bit (pgs mc') (unat x div 4096) = page_writable (img_segments img) (unat x div 4096)"
    using exec_begin_enters [OF assms(1-5,7-15), of L] by (elim exE conjE) (rule that)
  have ok: "identity_map PL (pgs mc')" "stack_pages (pgs mc')" using e(10) by (simp_all add: user_pages_ok_def)
  note walk = mmu_walk_identity [OF assms(6) ok(1)]
  have "mmu_walk PL (pgs mc') x = Some (x, True, page_writable (img_segments img) (unat x div 4096))"
    if "seg \<in> set (img_segments img)" "in_range (seg_vaddr seg) (unat (seg_memsz seg)) x" for seg x
    using walk [of x] low [OF that] e(11) that by simp
  moreover have "mmu_walk PL (pgs mc') x = Some (x, True, True)" if "smin \<le> x" "x < stop" for x
    using stack_walk [OF ok(2) sl(7) that] walk [of x] by simp
  ultimately show ?thesis using e by (intro exI [of _ fr] exI [of _ sp] exI [of _ mc'] conjI ballI allI impI) simp_all
qed

subsection \<open>A machine with one program\<close>

definition demo_layout :: paging_layout where
  "demo_layout = \<lparr>pd_base = 0x200000, pt_base = 0x210000\<rparr>"

definition demo_paging :: paging where
  "demo_paging = (enable_paging_bit (load_cr3_ptr 0x200000 (build_identity_tables_x86 demo_layout
     \<lparr>g_pd = (\<lambda>_. 0), g_pt = (\<lambda>_ _. 0), g_paging_enabled = False, cr0 = 1, cr3 = 0\<rparr>)))\<lparr>g_paging_enabled := True\<rparr>"

definition demo_boot :: "(ramfs, unit) machine" where
  "demo_boot = \<lparr>kern = file_kernel ''a.prg'' (demo_prg 0x60000) (), mem = put_bytes 0x1000 (''/a.prg'' @ [CHR 0x00]) (\<lambda>_. CHR 0x00), pgs = demo_paging,
     g_usermode_gdt = (\<lambda>_. zero_gdt_entry), g_usermode_gdt_ptr = (0, 0), g_usermode_tss = \<lparr>esp0 = 0, ss0 = 0, iomap_base = 0\<rparr>,
     g_usermode_exec_depth = 0, g_usermode_saved_esp = 0, g_usermode_saved_eflags = 0\<rparr>"

definition demo_usermode :: usermode_layout where
  "demo_usermode = \<lparr>gdt_addr = 0x300000, tss_addr = 0x301000, stacks_addr = 0x302000\<rparr>"

definition demo_machine :: "(ramfs, unit) machine" where
  "demo_machine = snd (usermode_init demo_usermode demo_boot)"

lemma demo_layout_ok: "layout_ok demo_layout"
  by (simp add: layout_ok_def demo_layout_def)

lemma demo_paging_ok: "identity_map demo_layout demo_paging" "p < 16384 \<Longrightarrow> \<not> user_bit demo_paging p \<and> write_bit demo_paging p"
proof -
  have "demo_paging = (enable_paging_bit (load_cr3_ptr (pd_base demo_layout) (build_identity_tables_x86 demo_layout
     \<lparr>g_pd = (\<lambda>_. 0), g_pt = (\<lambda>_ _. 0), g_paging_enabled = False, cr0 = 1, cr3 = 0\<rparr>)))\<lparr>g_paging_enabled := True\<rparr>"
    by (simp add: demo_paging_def demo_layout_def)
  note b = build_identity_map [OF demo_layout_ok this]
  show "identity_map demo_layout demo_paging" by (rule b(1))
  show "p < 16384 \<Longrightarrow> \<not> user_bit demo_paging p \<and> write_bit demo_paging p" by (rule b(2))
qed

lemma demo_machine_facts:
  "kern demo_machine = file_kernel ''a.prg'' (demo_prg 0x60000) ()" "g_usermode_exec_depth demo_machine = 0"
  "user_pages_ok demo_layout (pgs demo_machine)"
  "mem demo_machine = put_bytes 0x302000 (replicate 8192 (CHR 0x00)) (put_bytes 0x1000 (''/a.prg'' @ [CHR 0x00]) (\<lambda>_. CHR 0x00))"
proof -
  have b: "pgs demo_boot = demo_paging" by (simp add: demo_boot_def)
  note u = usermode_init_pages [of demo_layout demo_boot demo_usermode, unfolded b, OF demo_paging_ok(1), folded demo_machine_def]
  show "user_pages_ok demo_layout (pgs demo_machine)" "g_usermode_exec_depth demo_machine = 0"
    "kern demo_machine = file_kernel ''a.prg'' (demo_prg 0x60000) ()"
    "mem demo_machine = put_bytes 0x302000 (replicate 8192 (CHR 0x00)) (put_bytes 0x1000 (''/a.prg'' @ [CHR 0x00]) (\<lambda>_. CHR 0x00))"
    using u demo_paging_ok(2) by (simp_all add: demo_boot_def demo_usermode_def)
qed

lemma demo_path:
  assumes "0x2000 \<le> lo"
  shows "string_in lo hi (mem demo_machine) 0x1000 ''/a.prg''"
proof -
  have lt: "\<not> lo \<le> 0x1000 + of_nat j" if "j < 7" for j
  proof -
    have "unat (0x1000 + of_nat j :: u32) = 0x1000 + j" using that by (subst unat_add_no_wrap) (simp_all add: unat_of_nat_u32)
    then show ?thesis using assms that by (simp add: word_le_nat_alt)
  qed
  let ?m = "put_bytes 0x1000 (''/a.prg'' @ [CHR 0x00]) (\<lambda>_. CHR 0x00) :: memory"
  have "agree 0x302000 0x400000 ?m (mem demo_machine)" unfolding demo_machine_facts(4) by (rule agree_put) simp_all
  from bytes_at_below [OF this, of "0x1000" "length (''/a.prg'' @ [CHR 0x00])"] bytes_at_put [of "''/a.prg'' @ [CHR 0x00]" "0x1000" "\<lambda>_. CHR 0x00"]
  have "bytes_at (mem demo_machine) 0x1000 (length (''/a.prg'' @ [CHR 0x00])) = ''/a.prg'' @ [CHR 0x00]" by simp
  then show ?thesis using lt by (simp add: string_in_def)
qed

lemma demo_image:
  "exec_slot (image_of SPRG_ARCH_I386 (demo_prg 0x60000)) 0 = Inr ((0x60000, 0x70000), (0x70000, 0x80000))"
  "loadable (image_of SPRG_ARCH_I386 (demo_prg 0x60000))"
  by (simp_all add: demo_program exec_slot_def image_fits_slot_def demo_segment_def loadable_def seg_exec_def in_range_def)

lemma demo_facts:
  "pstate (g_processes (kern demo_machine) 1) = PROCESS_STATE_UNUSED" "g_current_process (kern demo_machine) = Some 0"
  "fd_inv (kern demo_machine)" "file_at S ''/a.prg'' (demo_prg 0x60000) (kern demo_machine)"
  "user_pages_ok demo_layout (pgs demo_machine)" "g_usermode_exec_depth demo_machine < USERMODE_EXEC_DEPTH_MAX"
  "exec_slot (image_of SPRG_ARCH_I386 (demo_prg 0x60000)) (g_usermode_exec_depth demo_machine) = Inr ((0x60000, 0x70000), (0x70000, 0x80000))"
  "arguments 0x60000 0x80000 (mem demo_machine) 0x1000 0 [''/a.prg'']" "environment 0x60000 0x80000 (mem demo_machine) 0 []"
  "sprg_has_prg_suffix ''/a.prg''"
proof -
  note k = demo_machine_facts(1,2)
  show "fd_inv (kern demo_machine)" "file_at S ''/a.prg'' (demo_prg 0x60000) (kern demo_machine)"
    unfolding k by (rule demo_file_at)+
  show "user_pages_ok demo_layout (pgs demo_machine)" by (rule demo_machine_facts)
  show "exec_slot (image_of SPRG_ARCH_I386 (demo_prg 0x60000)) (g_usermode_exec_depth demo_machine) = Inr ((0x60000, 0x70000), (0x70000, 0x80000))"
    unfolding k by (rule demo_image)
  show "pstate (g_processes (kern demo_machine) 1) = PROCESS_STATE_UNUSED" "g_current_process (kern demo_machine) = Some 0"
    by (simp_all add: k file_kernel_def boot_kernel_eq process_clear_def)
  show "arguments 0x60000 0x80000 (mem demo_machine) 0x1000 0 [''/a.prg'']" using demo_path [of "0x60000" "0x80000"] by (simp add: arguments_def)
qed (simp_all add: environment_def sprg_has_prg_suffix_def demo_machine_facts(2))

text \<open>After \<open>usermode_init\<close>, the kernel runs a program with one segment that is not writable.\<close>

theorem exec_starts_program_witness:
  "\<forall>S L. \<exists>fr sp mc'. exec_begin S L 0x1000 0 0 (snd (usermode_init demo_usermode demo_boot)) = Some (Exec_Entered fr 0x60000 sp, mc') \<and>
     stack_image (mem mc') sp [''/a.prg''] [] \<and> mmu_walk demo_layout (pgs mc') sp = Some (sp, True, True) \<and>
     bytes_at (mem mc') 0x60000 8 = ''code'' @ replicate 4 (CHR 0x00) \<and> mmu_walk demo_layout (pgs mc') 0x60007 = Some (0x60007, True, False)"
proof (intro allI)
  fix S :: "unit services" and L
  have p: "string_in 0x60000 0x80000 (mem demo_machine) 0x1000 ''/a.prg''" by (rule demo_path) simp
  have n: "1 < PROCESS_MAX" by simp
  obtain fr sp mc' where e: "exec_begin S L 0x1000 0 0 demo_machine =
      Some (Exec_Entered fr (img_entry (image_of SPRG_ARCH_I386 (demo_prg 0x60000))) sp, mc')" "stack_image (mem mc') sp [''/a.prg''] []"
    "0x70000 \<le> sp" "sp < 0x80000" "\<forall>x. 0x70000 \<le> x \<and> x < 0x80000 \<longrightarrow> mmu_walk demo_layout (pgs mc') x = Some (x, True, True)"
    "\<forall>seg \<in> set (img_segments (image_of SPRG_ARCH_I386 (demo_prg 0x60000))).
       bytes_at (mem mc') (seg_vaddr seg) (unat (seg_memsz seg)) = seg_bytes (demo_prg 0x60000) seg \<and>
       (\<forall>x. in_range (seg_vaddr seg) (unat (seg_memsz seg)) x \<longrightarrow> mmu_walk demo_layout (pgs mc') x =
          Some (x, True, page_writable (img_segments (image_of SPRG_ARCH_I386 (demo_prg 0x60000))) (unat x div 4096)))"
    using exec_starts_program [OF demo_facts(3,2) n demo_facts(1,6) demo_layout_ok demo_facts(5,4,10) demo_program(2) demo_image(2)
        demo_facts(7) p demo_facts(8,9), of S L] by (elim exE conjE) (rule that)
  have b: "seg_bytes (demo_prg 0x60000) (demo_segment 0x60000) = ''code'' @ replicate 4 (CHR 0x00)"
    by (simp add: seg_bytes_def demo_segment_def demo_prg_fields)
  have s: "img_segments (image_of SPRG_ARCH_I386 (demo_prg 0x60000)) = [demo_segment 0x60000]"
    "img_entry (image_of SPRG_ARCH_I386 (demo_prg 0x60000)) = 0x60000" by (simp_all add: demo_program)
  have w: "\<not> page_writable [demo_segment 0x60000] (unat (0x60007 :: u32) div 4096)"
    by (simp add: page_writable_def seg_touches_def touches_def demo_segment_def)
  have "bytes_at (mem mc') 0x60000 8 = ''code'' @ replicate 4 (CHR 0x00)" using e(6) b unfolding s by (simp add: demo_segment_def)
  moreover have "in_range (seg_vaddr (demo_segment 0x60000)) (unat (seg_memsz (demo_segment 0x60000))) 0x60007"
    by (simp add: demo_segment_def in_range_def)
  then have "mmu_walk demo_layout (pgs mc') 0x60007 = Some (0x60007, True, False)"
    using e(6) w unfolding s by (simp only: list.set ball_simps simp_thms)
  ultimately show "\<exists>fr sp mc'. exec_begin S L 0x1000 0 0 (snd (usermode_init demo_usermode demo_boot)) = Some (Exec_Entered fr 0x60000 sp, mc') \<and>
     stack_image (mem mc') sp [''/a.prg''] [] \<and> mmu_walk demo_layout (pgs mc') sp = Some (sp, True, True) \<and>
     bytes_at (mem mc') 0x60000 8 = ''code'' @ replicate 4 (CHR 0x00) \<and> mmu_walk demo_layout (pgs mc') 0x60007 = Some (0x60007, True, False)"
    using e(1-5) by (intro exI [of _ fr] exI [of _ sp] exI [of _ mc']) (simp add: s(2) demo_machine_def)
qed

end
