(* ===== verification/Machine_Run.thy ===== *)
theory Machine_Run
  imports Exec_Enter
begin

text \<open>
  Runs of the machine of \<open>Machine\<close> as a step relation, its invariant, and the isolation of programs.
  A configuration is the machine with the frames of the running programs, the innermost first. The
  relation covers runs that start fewer than \<open>2 ^ 32 - 2\<close> programs, after which process ids repeat, and
  whose calls store their results inside the slots of user programs, which the kernel does not check.
\<close>

subsection \<open>Steps\<close>

type_synonym ('s, 'c) config = "('s, 'c) machine \<times> exec_frame list"

text \<open>
  The calls do not check the addresses they get from a program: \<open>getcwd\<close>, for one, stores a byte
  wherever the program asks.
\<close>

lemma getcwd_stores_anywhere:
  assumes "a \<noteq> 0"
  shows "\<exists>mc'. syscall_core_dispatch S L SYS_GETCWD a 1 a2 a3 mc = Some (Sys_Return 0, mc') \<and> mem mc' = (mem mc)(a := CHR 0x00)"
  using assms by (simp add: syscall_core_dispatch_def sys_call_def sys_getcwd_def do_writes_def case_prod_beta Let_def)

text \<open>
  A call that overwrites the data of the kernel has effects that the model does not show. The runs
  considered here are therefore those whose calls are confined: they store their results inside the
  two slots of user programs.
\<close>

definition confined :: "memory \<Rightarrow> memory \<Rightarrow> bool" where
  "confined m m' \<longleftrightarrow> (\<forall>x. m' x \<noteq> m x \<longrightarrow> 0x60000 \<le> x \<and> x < 0x9F000)"

text \<open>
  The steps of such a run. A store of a program changes only bytes that the processor lets user mode
  write; a call returns, enters another program or leaves the program. Entering a program saves the
  registers of the kernel (\<open>usermode_i386_enter\<close>), whose values are arbitrary here.
\<close>

inductive confined_step :: "'c services \<Rightarrow> usermode_layout \<Rightarrow> paging_layout \<Rightarrow> ('s, 'c) config \<Rightarrow> ('s, 'c) config \<Rightarrow> bool"
  for S :: "'c services" and L PL where
  user_store: "frs \<noteq> [] \<Longrightarrow> (\<And>x. m' x \<noteq> mem mc x \<Longrightarrow> \<exists>p. mmu_walk PL (pgs mc) x = Some (p, True, True)) \<Longrightarrow>
    confined_step S L PL (mc, frs) (mc\<lparr>mem := m'\<rparr>, frs)"
| call_return: "syscall_core_dispatch S L nr a0 a1 a2 a3 mc = Some (Sys_Return r, mc') \<Longrightarrow>
    confined (mem mc) (mem mc') \<Longrightarrow>
    confined_step S L PL (mc, frs) (mc', frs)"
| call_enter: "syscall_core_dispatch S L nr a0 a1 a2 a3 mc = Some (Sys_Enter fr entry sp, mc') \<Longrightarrow>
    g_next_pid (kern mc) \<noteq> 0xFFFFFFFF \<Longrightarrow>
    confined_step S L PL (mc, frs) (mc'\<lparr>g_usermode_saved_esp := esp, g_usermode_saved_eflags := fl\<rparr>, fr # frs)"
| call_leave: "syscall_core_dispatch S L nr a0 a1 a2 a3 mc = Some (Sys_Leave st, mc') \<Longrightarrow>
    confined_step S L PL (mc, fr # frs) (exec_end fr mc', frs)"

subsection \<open>The invariant\<close>

text \<open>The processes from the running program down to the kernel shell.\<close>

definition chain :: "exec_frame list \<Rightarrow> nat list" where
  "chain frs = map ef_child frs @ [0]"

lemma chain_simps [simp]: "chain [] = [0]" "chain (fr # frs) = ef_child fr # chain frs" "chain frs \<noteq> []"
  by (simp_all add: chain_def)

definition procs_ok :: "('s, 'c) kernel \<Rightarrow> nat list \<Rightarrow> bool" where
  "procs_ok k ps \<longleftrightarrow>
     ps \<noteq> [] \<and> set ps \<subseteq> {..<PROCESS_MAX} \<and>
     (\<forall>i < PROCESS_MAX. pstate (g_processes k i) = (if i \<in> set ps then PROCESS_STATE_RUNNING else PROCESS_STATE_UNUSED)) \<and>
     sorted_wrt (\<lambda>i j. pid (g_processes k j) < pid (g_processes k i)) ps \<and>
     (\<forall>i \<in> set ps. pid (g_processes k i) < g_next_pid k) \<and>
     (\<forall>j. Suc j < length ps \<longrightarrow> ppid (g_processes k (ps ! j)) = pid (g_processes k (ps ! Suc j)))"

definition machine_inv :: "paging_layout \<Rightarrow> ('s, 'c) config \<Rightarrow> bool" where
  "machine_inv PL = (\<lambda>(mc, frs).
     fd_inv (kern mc) \<and> procs_ok (kern mc) (chain frs) \<and> g_current_process (kern mc) = Some (hd (chain frs)) \<and>
     g_usermode_exec_depth mc = of_nat (length frs) \<and> length frs \<le> 2 \<and> user_pages_ok PL (pgs mc))"

lemma procs_ok_distinct: "procs_ok k ps \<Longrightarrow> distinct ps"
proof -
  assume "procs_ok k ps"
  then have "sorted_wrt (\<lambda>i j. pid (g_processes k j) < pid (g_processes k i)) ps" by (simp add: procs_ok_def)
  then show ?thesis by (induction ps) auto
qed

lemma procs_ok_inj:
  assumes "procs_ok k ps" "i \<in> set ps" "j \<in> set ps" "pid (g_processes k i) = pid (g_processes k j)"
  shows "i = j"
proof -
  have s: "pid (g_processes k (ps ! b)) < pid (g_processes k (ps ! a))" if "a < b" "b < length ps" for a b
    using assms(1) that by (auto simp: procs_ok_def sorted_wrt_iff_nth_less)
  obtain a where a: "a < length ps" "ps ! a = i" using assms(2) by (auto simp: in_set_conv_nth)
  obtain b where b: "b < length ps" "ps ! b = j" using assms(3) by (auto simp: in_set_conv_nth)
  have "\<not> a < b" using s [of a b] a b assms(4) by auto
  moreover have "\<not> b < a" using s [of b a] a b assms(4) by auto
  ultimately have "a = b" by simp
  then show ?thesis using a b by simp
qed

text \<open>Nothing that a call leaves alone matters to the invariant.\<close>

lemma procs_ok_call: "call_frame k0 k \<Longrightarrow> procs_ok k0 ps \<Longrightarrow> procs_ok k ps"
  by (simp add: procs_ok_def call_frame_def)

lemma procs_okI:
  assumes "ps \<noteq> []" "set ps \<subseteq> {..<PROCESS_MAX}"
    "\<And>i. i < PROCESS_MAX \<Longrightarrow> pstate (g_processes k i) = (if i \<in> set ps then PROCESS_STATE_RUNNING else PROCESS_STATE_UNUSED)"
    "sorted_wrt (\<lambda>i j. pid (g_processes k j) < pid (g_processes k i)) ps"
    "\<And>i. i \<in> set ps \<Longrightarrow> pid (g_processes k i) < g_next_pid k"
    "\<And>j. Suc j < length ps \<Longrightarrow> ppid (g_processes k (ps ! j)) = pid (g_processes k (ps ! Suc j))"
  shows "procs_ok k ps"
  using assms by (simp add: procs_ok_def)

lemma procs_okD:
  assumes "procs_ok k ps"
  shows "ps \<noteq> []" "set ps \<subseteq> {..<PROCESS_MAX}"
    "\<And>i. i < PROCESS_MAX \<Longrightarrow> pstate (g_processes k i) = (if i \<in> set ps then PROCESS_STATE_RUNNING else PROCESS_STATE_UNUSED)"
    "sorted_wrt (\<lambda>i j. pid (g_processes k j) < pid (g_processes k i)) ps"
    "\<And>i. i \<in> set ps \<Longrightarrow> pid (g_processes k i) < g_next_pid k"
    "\<And>j. Suc j < length ps \<Longrightarrow> ppid (g_processes k (ps ! j)) = pid (g_processes k (ps ! Suc j))"
  using assms by (simp_all add: procs_ok_def)

lemma proc_info_fields:
  assumes "proc_info k' j = proc_info k j"
  shows "pid (g_processes k' j) = pid (g_processes k j)" "ppid (g_processes k' j) = ppid (g_processes k j)"
    "pstate (g_processes k' j) = pstate (g_processes k j)" "cwd (g_processes k' j) = cwd (g_processes k j)"
  using assms by (simp_all add: proc_info_def)

lemma sorted_pids_same:
  assumes "sorted_wrt (\<lambda>i j. pid (g_processes k j) < pid (g_processes k i)) ps"
    "\<And>i. i \<in> set ps \<Longrightarrow> pid (g_processes k' i) = pid (g_processes k i)"
  shows "sorted_wrt (\<lambda>i j. pid (g_processes k' j) < pid (g_processes k' i)) ps"
  by (rule sorted_wrt_mono_rel [OF _ assms(1)]) (simp add: assms(2))

lemma next_pid_grows: "(n :: u32) \<noteq> 0xFFFFFFFF \<Longrightarrow> n < n + 1"
proof -
  assume "n \<noteq> 0xFFFFFFFF"
  then have "unat n \<noteq> unat (0xFFFFFFFF :: u32)" by (simp only: word_unat_eq_iff not_False_eq_True)
  then have "unat n + 1 < 2 ^ 32" using unat_u32_less [of n] by simp
  then have "unat (n + 1) = unat n + 1" by (subst unat_add_no_wrap) simp_all
  then show ?thesis by (simp add: word_less_nat_alt)
qed

lemma procs_ok_spawn:
  assumes "procs_ok k ps" "spawned (hd ps) ch k k'" "g_next_pid k \<noteq> 0xFFFFFFFF"
  shows "procs_ok k' (ch # ps)"
proof -
  note ok = procs_okD [OF assms(1)]
  have sp: "ch < PROCESS_MAX" "pstate (g_processes k ch) = PROCESS_STATE_UNUSED" "g_next_pid k' = g_next_pid k + 1"
    and info: "proc_info k' = (proc_info k)(ch := (g_next_pid k, pid (g_processes k (hd ps)), PROCESS_STATE_RUNNING,
                                         process_copy_string FS_PATH_CAP (cwd (g_processes k (hd ps)))))"
    using assms(2) by (simp_all add: spawned_def)
  have ch: "ch \<notin> set ps" using ok(3) [OF sp(1)] sp(2) by (auto split: if_splits)
  have same: "proc_info k' j = proc_info k j" if "j \<noteq> ch" for j using info that by simp
  note same = proc_info_fields [OF same]
  have neq: "i \<noteq> ch" if "i \<in> set ps" for i using that ch by auto
  have "proc_info k' ch = (g_next_pid k, pid (g_processes k (hd ps)), PROCESS_STATE_RUNNING,
      process_copy_string FS_PATH_CAP (cwd (g_processes k (hd ps))))" unfolding info by simp
  then have new: "pid (g_processes k' ch) = g_next_pid k" "ppid (g_processes k' ch) = pid (g_processes k (hd ps))"
    "pstate (g_processes k' ch) = PROCESS_STATE_RUNNING" by (simp_all add: proc_info_def)
  have n: "g_next_pid k < g_next_pid k'" unfolding sp(3) by (rule next_pid_grows [OF assms(3)])
  show ?thesis
  proof (rule procs_okI)
    show "pstate (g_processes k' i) = (if i \<in> set (ch # ps) then PROCESS_STATE_RUNNING else PROCESS_STATE_UNUSED)"
      if "i < PROCESS_MAX" for i
      using ok(3) [OF that] same(3) [of i] new(3) by (cases "i = ch") simp_all
    show "sorted_wrt (\<lambda>i j. pid (g_processes k' j) < pid (g_processes k' i)) (ch # ps)"
      using sorted_pids_same [OF ok(4), of k'] same(1) neq new(1) ok(5) by simp
    show "pid (g_processes k' i) < g_next_pid k'" if "i \<in> set (ch # ps)" for i
      using that ok(5) [of i] same(1) [of i] new(1) n by (cases "i = ch") (auto intro: less_trans)
    show "ppid (g_processes k' ((ch # ps) ! j)) = pid (g_processes k' ((ch # ps) ! Suc j))" if "Suc j < length (ch # ps)" for j
    proof (cases j)
      case 0
      then show ?thesis using ok(1) new(2) same(1) [OF neq, of "hd ps"] by (cases ps) simp_all
    next
      case (Suc i)
      then have "Suc i < length ps" using that by simp
      then show ?thesis using ok(6) [of i] same(1,2) neq Suc by simp
    qed
  qed (use ok(2) sp(1) in auto)
qed

lemma procs_ok_parent:
  assumes "procs_ok k (ch # ps)" "ps \<noteq> []"
  shows "process_find_pid (ppid (g_processes k ch)) k = Some (hd ps)" "hd ps \<noteq> ch"
proof -
  note ok = procs_okD [OF assms(1)]
  have p: "hd ps \<in> set (ch # ps)" "hd ps < PROCESS_MAX" using assms(2) ok(2) by (cases ps; auto)+
  have pp: "ppid (g_processes k ch) = pid (g_processes k (hd ps))" using ok(6) [of 0] assms(2) by (cases ps) auto
  have "pstate (g_processes k (hd ps)) \<noteq> PROCESS_STATE_UNUSED" using ok(3) [OF p(2)] p(1) by simp
  moreover have "\<not> (pstate (g_processes k i) \<noteq> PROCESS_STATE_UNUSED \<and> pid (g_processes k i) = pid (g_processes k (hd ps)))"
    if "i < hd ps" for i
    using ok(3) [of i] procs_ok_inj [OF assms(1) _ p(1), of i] that p(2) by (auto split: if_splits)
  ultimately show "process_find_pid (ppid (g_processes k ch)) k = Some (hd ps)"
    unfolding process_find_pid_def pp find_Some_iff using p(2) by (intro exI [of _ "hd ps"]) auto
  show "hd ps \<noteq> ch" using procs_ok_distinct [OF assms(1)] assms(2) by (cases ps) auto
qed

lemma procs_ok_end:
  assumes "procs_ok k (ch # ps)" "ps \<noteq> []" "proc_info k' = (proc_info k)(ch := (0, 0, PROCESS_STATE_UNUSED, []))"
    "g_next_pid k' = g_next_pid k"
  shows "procs_ok k' ps"
proof -
  note ok = procs_okD [OF assms(1)]
  have ch: "ch \<notin> set ps" using procs_ok_distinct [OF assms(1)] by simp
  have same: "proc_info k' j = proc_info k j" if "j \<noteq> ch" for j using assms(3) that by simp
  note same = proc_info_fields [OF same]
  have neq: "i \<noteq> ch" if "i \<in> set ps" for i using that ch by auto
  have "proc_info k' ch = (0, 0, PROCESS_STATE_UNUSED, [])" unfolding assms(3) by simp
  then have new: "pstate (g_processes k' ch) = PROCESS_STATE_UNUSED" by (simp add: proc_info_def)
  show ?thesis
  proof (rule procs_okI)
    show "pstate (g_processes k' i) = (if i \<in> set ps then PROCESS_STATE_RUNNING else PROCESS_STATE_UNUSED)"
      if "i < PROCESS_MAX" for i
      using ok(3) [OF that] same(3) [of i] new ch by (cases "i = ch") simp_all
    show "sorted_wrt (\<lambda>i j. pid (g_processes k' j) < pid (g_processes k' i)) ps"
      using sorted_pids_same [of k ps k'] ok(4) same(1) neq by simp
    show "ppid (g_processes k' (ps ! j)) = pid (g_processes k' (ps ! Suc j))" if "Suc j < length ps" for j
      using ok(6) [of "Suc j"] same(1,2) neq that by simp
  qed (use assms(2,4) ok(2,5) same(1) neq in auto)
qed

subsection \<open>The effect of each call\<close>

definition undisturbed :: "nat set \<Rightarrow> ('s, 'c) kernel \<Rightarrow> ('s, 'c) kernel \<Rightarrow> bool" where
  "undisturbed A k k' \<longleftrightarrow> (\<forall>i \<in> A. proc_info k' i = proc_info k i \<and> (\<forall>fd. fd_view k' (i, fd) = fd_view k (i, fd)))"

lemma undisturbed_trans: "undisturbed A k k1 \<Longrightarrow> undisturbed A k1 k2 \<Longrightarrow> undisturbed A k k2"
  by (simp add: undisturbed_def)

lemma undisturbed_mono: "undisturbed A k k1 \<Longrightarrow> B \<subseteq> A \<Longrightarrow> undisturbed B k k1"
  by (auto simp: undisturbed_def)

lemma undisturbed_call:
  assumes "call_ok k k'" "g_current_process k = Some c" "c \<notin> A"
  shows "undisturbed A k k'"
  unfolding undisturbed_def
proof
  fix i assume "i \<in> A"
  then have "g_current_process k \<noteq> Some i" using assms(2,3) by auto
  then show "proc_info k' i = proc_info k i \<and> (\<forall>fd. fd_view k' (i, fd) = fd_view k (i, fd))"
    using assms(1) by (simp add: call_ok_def call_frame_def proc_info_def)
qed

lemma dispatch_return:
  assumes "syscall_core_dispatch S L nr a0 a1 a2 a3 mc = Some (Sys_Return r, mc')" "fd_inv (kern mc)"
    "g_current_process (kern mc) = Some c" "user_pages_ok PL (pgs mc)"
  shows "call_ok (kern mc) (kern mc') \<and> um_frame mc mc' \<and> user_pages_ok PL (pgs mc')"
proof -
  have refl: "call_ok (kern mc) (kern mc)" by (rule call_refl [OF assms(2)])
  show ?thesis
  proof (cases "nr = SYS_EXECVE")
    case True
    show ?thesis
    proof (cases "a0 = 0")
      case True
      then show ?thesis using assms(1,4) refl \<open>nr = SYS_EXECVE\<close> by (simp add: syscall_core_dispatch_def um_frame_def)
    next
      case False
      then obtain oc where e: "exec_begin S L a0 a1 a2 mc = Some (oc, mc')"
        and r: "(case oc of Exec_Failed rc \<Rightarrow> Sys_Return rc | Exec_Entered fr entry sp \<Rightarrow> Sys_Enter fr entry sp) = Sys_Return r"
        using assms(1) True by (auto simp: syscall_core_dispatch_def)
      obtain rc where "oc = Exec_Failed rc" using r by (cases oc) simp_all
      then show ?thesis using exec_begin_effect [OF e assms(2-4)] quiet_call [OF _ assms(2)] by simp
    qed
  next
    case False
    then obtain ws k1 where "sys_call S nr a0 a1 a2 (mem mc) (kern mc) = Some ((r, ws), k1)"
      "mc' = mc\<lparr>kern := k1, mem := do_writes ws (mem mc)\<rparr>"
      using assms(1) by (auto simp: syscall_core_dispatch_def split: if_splits)
    then show ?thesis using sys_call_ok [OF refl] assms(4) by (simp add: um_frame_def)
  qed
qed

lemma dispatch_enter:
  assumes "syscall_core_dispatch S L nr a0 a1 a2 a3 mc = Some (Sys_Enter fr entry sp, mc')" "fd_inv (kern mc)"
    "g_current_process (kern mc) = Some c" "user_pages_ok PL (pgs mc)"
  shows "user_pages_ok PL (pgs mc') \<and> (\<exists>k1. quiet (kern mc) k1 \<and> spawned c (ef_child fr) k1 (kern mc')) \<and>
    g_usermode_exec_depth mc < USERMODE_EXEC_DEPTH_MAX \<and> g_usermode_exec_depth mc' = g_usermode_exec_depth mc + 1 \<and>
    ef_saved_esp fr = g_usermode_saved_esp mc \<and> ef_saved_eflags fr = g_usermode_saved_eflags mc \<and>
    ef_tss_esp0 fr = esp0 (g_usermode_tss mc)"
proof -
  obtain oc where e: "exec_begin S L a0 a1 a2 mc = Some (oc, mc')"
    and r: "(case oc of Exec_Failed rc \<Rightarrow> Sys_Return rc | Exec_Entered fr entry sp \<Rightarrow> Sys_Enter fr entry sp) = Sys_Enter fr entry sp"
    using assms(1) by (auto simp: syscall_core_dispatch_def split: if_splits)
  have "oc = Exec_Entered fr entry sp" using r by (cases oc) simp_all
  then show ?thesis using exec_begin_effect [OF e assms(2-4)] by simp
qed

lemma dispatch_leave:
  "syscall_core_dispatch S L nr a0 a1 a2 a3 mc = Some (Sys_Leave st, mc') \<longleftrightarrow>
   nr = SYS_EXIT \<and> st = sint a0 \<and> mc' = posix_exit st mc"
  by (auto simp: syscall_core_dispatch_def split: exec_outcome.splits)

lemma leave_effect:
  assumes "fd_inv k" "procs_ok k (ch # ps)" "ps \<noteq> []" "g_current_process k = Some ch"
    "k' = process_core_reap ch (process_core_exit_current st k)"
  shows "fd_inv k'" "procs_ok k' ps" "g_current_process k' = Some (hd ps)" "undisturbed (- {ch}) k k'"
proof -
  let ?k1 = "process_core_exit_current st k"
  note p = procs_ok_parent [OF assms(2,3)]
  note e = exit_current [OF assms(1,4) p, of st]
  note ok = procs_okD [OF assms(2)]
  have ch: "ch < PROCESS_MAX" using ok(2) by simp
  have h: "hd ps < PROCESS_MAX" "hd ps \<in> set (ch # ps)" using ok(2) assms(3) by (cases ps; auto)+
  have "pstate (g_processes k (hd ps)) = PROCESS_STATE_RUNNING" using ok(3) [OF h(1)] h(2) by simp
  then have info1: "proc_info ?k1 = (proc_info k)(ch := (pid (g_processes k ch), ppid (g_processes k ch), PROCESS_STATE_ZOMBIE, cwd (g_processes k ch)))"
    unfolding e(4) using p(2) by (auto simp: fun_eq_iff proc_info_def)
  have z: "pstate (g_processes ?k1 ch) = PROCESS_STATE_ZOMBIE" unfolding proc_info_pstate info1 by simp
  have ne: "g_current_process ?k1 \<noteq> Some ch" using e(2) p(2) by simp
  note r = reap_zombie [OF e(1) ch z ne, folded assms(5)]
  have info: "proc_info k' = (proc_info k)(ch := (0, 0, PROCESS_STATE_UNUSED, []))" unfolding r(3) info1 by simp
  show "fd_inv k'" by (rule r(1))
  show "g_current_process k' = Some (hd ps)" using r(2) e(2) by simp
  show "procs_ok k' ps" by (rule procs_ok_end [OF assms(2,3) info]) (simp add: r(5) e(5))
  show "undisturbed (- {ch}) k k'" unfolding undisturbed_def info by (simp add: r(4) e(3))
qed

lemma machine_invD:
  assumes "machine_inv PL (mc, frs)"
  shows "fd_inv (kern mc)" "procs_ok (kern mc) (chain frs)" "g_current_process (kern mc) = Some (hd (chain frs))"
    "g_usermode_exec_depth mc = of_nat (length frs)" "length frs \<le> 2" "user_pages_ok PL (pgs mc)"
  using assms by (simp_all add: machine_inv_def)

lemma chain_hd_fresh:
  assumes "machine_inv PL (mc, pre @ frs)" "pre \<noteq> []"
  shows "hd (chain (pre @ frs)) \<notin> set (chain frs)"
  using procs_ok_distinct [OF machine_invD(2) [OF assms(1)]] assms(2) by (cases pre) (auto simp: chain_def)

lemma call_ok_inv:
  assumes "machine_inv PL (mc, frs)" "call_ok (kern mc) (kern mc')" "um_frame mc mc'" "user_pages_ok PL (pgs mc')"
  shows "machine_inv PL (mc', frs)"
proof -
  note i = machine_invD [OF assms(1)]
  have f: "call_frame (kern mc) (kern mc')" "fd_inv (kern mc')" using assms(2) by (simp_all add: call_ok_def)
  then have "g_current_process (kern mc') = Some (hd (chain frs))" using i(3) by (simp add: call_frame_def)
  then show ?thesis unfolding machine_inv_def prod.case
    using procs_ok_call [OF f(1) i(2)] f(2) i(4,5) assms(3,4) by (simp add: um_frame_def)
qed

lemma return_step:
  assumes "machine_inv PL (mc, frs)" "syscall_core_dispatch S L nr a0 a1 a2 a3 mc = Some (Sys_Return r, mc')"
  shows "machine_inv PL (mc', frs)" "call_ok (kern mc) (kern mc')" "um_frame mc mc'"
proof -
  note i = machine_invD [OF assms(1)]
  note d = dispatch_return [OF assms(2) i(1,3,6)]
  show "call_ok (kern mc) (kern mc')" "um_frame mc mc'" using d by blast+
  then show "machine_inv PL (mc', frs)" using call_ok_inv [OF assms(1)] d by blast
qed

lemma enter_step:
  assumes "machine_inv PL (mc, frs)" "syscall_core_dispatch S L nr a0 a1 a2 a3 mc = Some (Sys_Enter fr entry sp, mc')"
    "g_next_pid (kern mc) \<noteq> 0xFFFFFFFF"
  shows "machine_inv PL (mc'\<lparr>g_usermode_saved_esp := esp, g_usermode_saved_eflags := fl\<rparr>, fr # frs)"
    "undisturbed (set (chain frs)) (kern mc) (kern mc')"
    "ef_saved_esp fr = g_usermode_saved_esp mc" "ef_saved_eflags fr = g_usermode_saved_eflags mc"
    "ef_tss_esp0 fr = esp0 (g_usermode_tss mc)"
proof -
  note i = machine_invD [OF assms(1)]
  note d = dispatch_enter [OF assms(2) i(1,3,6)]
  then obtain k1 where k1: "quiet (kern mc) k1" "spawned (hd (chain frs)) (ef_child fr) k1 (kern mc')" by blast
  note q = quiet_same [OF k1(1)]
  have p1: "procs_ok k1 (chain frs)" using i(2) q by (simp add: procs_ok_def)
  have p: "procs_ok (kern mc') (chain (fr # frs))" using procs_ok_spawn [OF p1 k1(2)] assms(3) q(4) by simp
  have len: "length frs < 2"
  proof (rule ccontr)
    assume "\<not> length frs < 2"
    then have "g_usermode_exec_depth mc = 2" using i(4,5) by simp
    then show False using d by simp
  qed
  have ch: "ef_child fr \<notin> set (chain frs)" using procs_ok_distinct [OF p] by simp
  have s: "fd_inv (kern mc')" "g_current_process (kern mc') = Some (ef_child fr)"
    using k1(2) by (simp_all add: spawned_def)
  show "machine_inv PL (mc'\<lparr>g_usermode_saved_esp := esp, g_usermode_saved_eflags := fl\<rparr>, fr # frs)"
    unfolding machine_inv_def prod.case using p s d i(4) len by simp
  have "proc_info k1 = proc_info (kern mc)" using q(2) by (simp add: proc_info_def fun_eq_iff)
  then show "undisturbed (set (chain frs)) (kern mc) (kern mc')"
    unfolding undisturbed_def using k1(2) q(1) ch by (auto simp: spawned_def)
  show "ef_saved_esp fr = g_usermode_saved_esp mc" "ef_saved_eflags fr = g_usermode_saved_eflags mc"
    "ef_tss_esp0 fr = esp0 (g_usermode_tss mc)" using d by blast+
qed

lemma leave_step:
  assumes "machine_inv PL (mc, fr # frs)" "syscall_core_dispatch S L nr a0 a1 a2 a3 mc = Some (Sys_Leave st, mc')"
  shows "machine_inv PL (exec_end fr mc', frs)" "undisturbed (set (chain frs)) (kern mc) (kern (exec_end fr mc'))"
proof -
  note i = machine_invD [OF assms(1)]
  have mc': "mc' = mc\<lparr>kern := process_core_exit_current st (kern mc)\<rparr>"
    using assms(2) by (simp add: dispatch_leave posix_exit_def usermode_exit_def)
  have "procs_ok (kern mc) (ef_child fr # chain frs)" "g_current_process (kern mc) = Some (ef_child fr)" using i(2,3) by simp_all
  note l = leave_effect [OF i(1) this(1) chain_simps(3) this(2) refl, of st]
  show "machine_inv PL (exec_end fr mc', frs)"
    unfolding machine_inv_def prod.case exec_end_def mc' using l(1-3) i(4-6) by simp
  have "ef_child fr \<notin> set (chain frs)" using procs_ok_distinct [OF i(2)] by simp
  then show "undisturbed (set (chain frs)) (kern mc) (kern (exec_end fr mc'))"
    unfolding exec_end_def mc' using l(4) by (auto intro: undisturbed_mono)
qed

lemma step_inv: "confined_step S L PL c c' \<Longrightarrow> machine_inv PL c \<Longrightarrow> machine_inv PL c'"
proof (induction rule: confined_step.induct)
  case (user_store frs m' mc)
  then show ?case by (simp add: machine_inv_def)
next
  case call_return
  then show ?case using return_step(1) by blast
next
  case call_enter
  then show ?case using enter_step(1) by blast
next
  case call_leave
  then show ?case using leave_step(1) by blast
qed

subsection \<open>Every reachable configuration\<close>

text \<open>The kernel after start-up, with any root file system and any state of the devices.\<close>

definition booted :: "('s, 'c) kernel \<Rightarrow> bool" where
  "booted k \<longleftrightarrow> (\<exists>s c rd. k = (process_core_init (zero_kernel s c))\<lparr>g_root_driver := rd, fs_state := fs_state k, dev_state := dev_state k\<rparr>)"

lemma booted_procs:
  assumes "booted k"
  shows "fd_inv k" "procs_ok k [0]" "g_current_process k = Some 0"
proof -
  obtain s c rd where k: "k = (process_core_init (zero_kernel s c))\<lparr>g_root_driver := rd, fs_state := fs_state k, dev_state := dev_state k\<rparr>"
    using assms unfolding booted_def by blast
  have i: "fd_inv (process_core_init (zero_kernel s c))" by (rule process_core_init_inv) (simp add: zero_kernel_def)
  have "fd_inv (k1\<lparr>g_root_driver := rd\<rparr>)" if "fd_inv k1" for k1 :: "('a, 'b) kernel"
    by (rule fd_inv_cong [OF that]) (simp_all add: fd_view_def fun_eq_iff)
  from this [OF i] show "fd_inv k" by (subst k) simp
  have p: "g_processes k = (\<lambda>_. process_clear)(0 := boot_process)" "g_next_pid k = 2"
    by (subst k, simp add: process_core_init_zero)+
  show "procs_ok k [0]" by (rule procs_okI) (auto simp: p boot_process_def process_clear_def)
  show "g_current_process k = Some 0" by (subst k) (simp add: process_core_init_zero)
qed

lemma usermode_init_inv:
  assumes "booted (kern mc)" "identity_map PL (pgs mc)" "\<And>p. p < 16384 \<Longrightarrow> \<not> user_bit (pgs mc) p"
  shows "machine_inv PL (snd (usermode_init L mc), [])"
  unfolding machine_inv_def prod.case
  using booted_procs [OF assms(1)] usermode_init_pages [OF assms(2,3), of L] by simp

lemma steps_inv: "(confined_step S L PL)\<^sup>*\<^sup>* c c' \<Longrightarrow> machine_inv PL c \<Longrightarrow> machine_inv PL c'"
  by (induction rule: rtranclp_induct) (auto intro: step_inv)

lemma user_reach:
  assumes "layout_ok PL" "user_pages_ok PL pg" "mmu_walk PL pg x = Some (y, True, w)"
  shows "y = x \<and> 0x60000 \<le> x \<and> x < 0x9F000"
proof -
  have id: "identity_map PL pg" "slot_pages pg" using assms(2) by (simp_all add: user_pages_ok_def)
  have x: "x < 0x04000000" "y = x" "user_bit pg (unat x div 4096)"
    using assms(3) mmu_walk_identity [OF assms(1) id(1), of x] by (auto split: if_splits)
  then have "unat x div 4096 < 16384" by (simp add: word_less_nat_alt)
  then have "0x60 \<le> unat x div 4096" "unat x div 4096 < 0x9F" using id(2) x(3) unfolding slot_pages_def by blast+
  moreover have "4096 * (unat x div 4096) \<le> unat x" "unat x < 4096 * (unat x div 4096) + 4096" by simp_all
  ultimately have "0x60000 \<le> unat x" "unat x < 0x9F000" by linarith+
  then show ?thesis using x(2) by (simp add: word_le_nat_alt word_less_nat_alt)
qed

lemma paging_init_pages:
  assumes "layout_ok PL" "\<not> g_paging_enabled pg" "paging_core_init S PL m magic info pg c0 = Some (0, pg1, c1)"
  shows "identity_map PL pg1" "p < 16384 \<Longrightarrow> \<not> user_bit pg1 p"
proof -
  have pg1: "pg1 = (enable_paging_bit (load_cr3_ptr (pd_base PL) (build_identity_tables_x86 PL pg)))\<lparr>g_paging_enabled := True\<rparr>"
    using assms(2,3) by (auto simp: paging_core_init_def Let_def bind_eq_Some_conv split: if_splits)
  note b = build_identity_map [OF assms(1) pg1]
  show "identity_map PL pg1" "p < 16384 \<Longrightarrow> \<not> user_bit pg1 p" using b by blast+
qed

text \<open>
  C1: In every configuration that user programs reach from boot by stores that the processor allows
  them and by confined calls: the processes are exactly the running programs and the kernel shell, each
  the child of the one before it, with pids in the order of their creation; the innermost program is
  the current process; the nesting depth of exec is their number and at most two; the descriptor tables
  and reference counts are consistent; user mode can write both stacks and reaches no byte outside the
  two program slots. A call is confined if it stores its results inside the slots. The kernel does not
  check this, so it is an assumption about the programs, as is that they are fewer than \<open>2 ^ 32 - 2\<close>;
  for a program that passes another address nothing is claimed.
\<close>

theorem machine_invariant:
  assumes "layout_ok PL" "\<not> g_paging_enabled pg" "paging_core_init S PL m magic info pg c0 = Some (0, pgs mc0, c1)"
    "booted (kern mc0)" "(confined_step S L PL)\<^sup>*\<^sup>* (snd (usermode_init L mc0), []) (mc, frs)"
  shows "machine_inv PL (mc, frs) \<and> (\<forall>x y w. mmu_walk PL (pgs mc) x = Some (y, True, w) \<longrightarrow> y = x \<and> 0x60000 \<le> x \<and> x < 0x9F000)"
proof -
  have "machine_inv PL (mc, frs)"
    by (rule steps_inv [OF assms(5) usermode_init_inv [OF assms(4) paging_init_pages(1) [OF assms(1-3)]]])
      (rule paging_init_pages(2) [OF assms(1-3)])
  then show ?thesis using user_reach [OF assms(1) machine_invD(6)] by blast
qed

subsection \<open>Isolation\<close>

lemma chain_append: "set (chain frs) \<subseteq> set (chain (pre @ frs))"
  by (auto simp: chain_def)

inductive_cases step_elim: "confined_step S L PL (mc, frs) c'"

lemmas step_cases = step_elim [consumes 1, case_names store return enter leave]

lemma step_outer:
  assumes "confined_step S L PL (mc, g # pre @ frs) c'" "machine_inv PL (mc, g # pre @ frs)"
  shows "undisturbed (set (chain frs)) (kern mc) (kern (fst c'))"
    "snd c' = g # pre @ frs \<or> (\<exists>h. snd c' = h # g # pre @ frs) \<or> snd c' = pre @ frs"
proof -
  have sub: "set (chain frs) \<subseteq> set (chain (g # pre @ frs))" "set (chain frs) \<subseteq> set (chain (pre @ frs))"
    using chain_append [of frs "g # pre"] chain_append [of frs pre] by simp_all
  have fresh: "hd (chain (g # pre @ frs)) \<notin> set (chain frs)"
    using chain_hd_fresh [of PL mc "g # pre" frs] assms(2) by simp
  have "undisturbed (set (chain frs)) (kern mc) (kern (fst c')) \<and>
    (snd c' = g # pre @ frs \<or> (\<exists>h. snd c' = h # g # pre @ frs) \<or> snd c' = pre @ frs)"
    using assms(1)
  proof (cases rule: step_cases)
    case (return nr a0 a1 a2 a3 r mc')
    have "undisturbed (set (chain frs)) (kern mc) (kern mc')"
      by (rule undisturbed_call [OF return_step(2) [OF assms(2) return(2)] machine_invD(3) [OF assms(2)] fresh])
    then show ?thesis using return(1) by simp
  next
    case (enter nr a0 a1 a2 a3 fr entry sp mc' fl esp)
    have "undisturbed (set (chain frs)) (kern mc) (kern mc')"
      by (rule undisturbed_mono [OF enter_step(2) [OF assms(2) enter(2,3)] sub(1)])
    then show ?thesis using enter(1) by simp
  next
    case (leave nr a0 a1 a2 a3 st mc' fr frs')
    then have f: "fr = g" "frs' = pre @ frs" by simp_all
    have "machine_inv PL (mc, fr # frs')" unfolding f by (rule assms(2))
    from leave_step(2) [OF this leave(3)] have "undisturbed (set (chain frs)) (kern mc) (kern (exec_end fr mc'))"
      by (rule undisturbed_mono) (simp add: f sub(2))
    then show ?thesis using leave(2) f by simp
  qed (simp add: undisturbed_def)
  then show "undisturbed (set (chain frs)) (kern mc) (kern (fst c'))"
    "snd c' = g # pre @ frs \<or> (\<exists>h. snd c' = h # g # pre @ frs) \<or> snd c' = pre @ frs" by blast+
qed

text \<open>A run during which the program of frame \<open>fr\<close> does not end.\<close>

definition inner :: "'c services \<Rightarrow> usermode_layout \<Rightarrow> paging_layout \<Rightarrow> nat \<Rightarrow> ('s, 'c) config \<Rightarrow> ('s, 'c) config \<Rightarrow> bool" where
  "inner S L PL n c c' \<longleftrightarrow> confined_step S L PL c c' \<and> n < length (snd c')"

lemma inner_run:
  assumes "(inner S L PL (length frs))\<^sup>*\<^sup>* (mc1, fr # frs) c2" "machine_inv PL (mc1, fr # frs)"
  shows "machine_inv PL c2 \<and> undisturbed (set (chain frs)) (kern mc1) (kern (fst c2)) \<and> (\<exists>pre. snd c2 = pre @ fr # frs)"
  using assms
proof (induction rule: rtranclp_induct)
  case base
  then show ?case by (auto simp: undisturbed_def)
next
  case (step c c')
  then have IH: "machine_inv PL c" "undisturbed (set (chain frs)) (kern mc1) (kern (fst c))" by blast+
  obtain pre where pre: "snd c = pre @ fr # frs" using step by blast
  have st: "confined_step S L PL c c'" "length frs < length (snd c')" using step.hyps(2) by (simp_all add: inner_def)
  obtain g pre' where g: "snd c = g # pre' @ frs" "g # pre' = pre @ [fr]" using pre by (cases pre) auto
  obtain mc where c: "c = (mc, g # pre' @ frs)" using g(1) by (metis prod.collapse)
  note o = step_outer [OF st(1) [unfolded c] IH(1) [unfolded c]]
  have "\<exists>pre. snd c' = pre @ fr # frs"
  proof -
    have "snd c' = (g # pre') @ frs \<or> (\<exists>h. snd c' = (h # g # pre') @ frs) \<or> snd c' = pre' @ frs" using o(2) by simp
    moreover have "\<exists>q. pre' @ frs = q @ fr # frs" if "snd c' = pre' @ frs"
    proof -
      have "pre' \<noteq> []" using st(2) that by auto
      then show ?thesis using g(2) by (cases pre) auto
    qed
    ultimately show ?thesis unfolding g(2) by auto
  qed
  then show ?case using step_inv [OF st(1) IH(1)] undisturbed_trans [OF IH(2)] o(1) c by simp
qed

text \<open>
  C2: A program that runs another one finds itself as it was when the other ends, whatever stores and
  confined calls that one and the programs it starts have made: it is the current process again, every
  process that existed before has its pid, its parent, its state, its directory and its descriptors,
  and the nesting depth, the saved registers of the kernel and the stack for traps are those from
  before the call. As for the invariant, calls that store their results outside the program slots,
  which the kernel does not refuse, are not covered.
\<close>

theorem exec_isolated:
  assumes "machine_inv PL (mc, frs)" "confined_step S L PL (mc, frs) (mc1, fr # frs)"
    "(inner S L PL (length frs))\<^sup>*\<^sup>* (mc1, fr # frs) c2" "confined_step S L PL c2 (mc3, frs)"
  shows "undisturbed (set (chain frs)) (kern mc) (kern mc3) \<and> g_current_process (kern mc3) = g_current_process (kern mc) \<and>
    g_usermode_exec_depth mc3 = g_usermode_exec_depth mc \<and> esp0 (g_usermode_tss mc3) = esp0 (g_usermode_tss mc) \<and>
    g_usermode_saved_esp mc3 = g_usermode_saved_esp mc \<and> g_usermode_saved_eflags mc3 = g_usermode_saved_eflags mc"
proof -
  have enter: "undisturbed (set (chain frs)) (kern mc) (kern mc1)" "ef_saved_esp fr = g_usermode_saved_esp mc"
    "ef_saved_eflags fr = g_usermode_saved_eflags mc" "ef_tss_esp0 fr = esp0 (g_usermode_tss mc)"
  proof -
    have "undisturbed (set (chain frs)) (kern mc) (kern mc1) \<and> ef_saved_esp fr = g_usermode_saved_esp mc \<and>
      ef_saved_eflags fr = g_usermode_saved_eflags mc \<and> ef_tss_esp0 fr = esp0 (g_usermode_tss mc)"
      using assms(2)
    proof (cases rule: step_cases)
      case ent: (enter nr a0 a1 a2 a3 fr' entry sp mc' fl esp)
      note e = enter_step [OF assms(1) ent(2,3)]
      show ?thesis using e(2-5) ent(1) by simp
    qed (auto dest: arg_cong [where f = length])
    then show "undisturbed (set (chain frs)) (kern mc) (kern mc1)" "ef_saved_esp fr = g_usermode_saved_esp mc"
      "ef_saved_eflags fr = g_usermode_saved_eflags mc" "ef_tss_esp0 fr = esp0 (g_usermode_tss mc)" by blast+
  qed
  have i1: "machine_inv PL (mc1, fr # frs)" by (rule step_inv [OF assms(2,1)])
  note r = inner_run [OF assms(3) i1]
  obtain mc2 pre where c2: "c2 = (mc2, pre @ fr # frs)" using r by (metis prod.collapse)
  have i2: "machine_inv PL (mc2, pre @ fr # frs)" using r c2 by simp
  have i3: "machine_inv PL (mc3, frs)" using step_inv [OF assms(4)] i2 c2 by simp
  have "\<exists>st a0 nr a1 a2 a3 mc'. syscall_core_dispatch S L nr a0 a1 a2 a3 mc2 = Some (Sys_Leave st, mc') \<and> mc3 = exec_end fr mc' \<and> pre = []"
    using assms(4) unfolding c2
  proof (cases rule: step_cases)
    case (leave nr a0 a1 a2 a3 st mc' fr' frs')
    then have "length (pre @ fr # frs) = length (fr' # frs)" by simp
    then have "pre = []" by simp
    then have "mc3 = exec_end fr mc'" using leave by simp
    then show ?thesis using leave(3) \<open>pre = []\<close> by blast
  qed (auto dest: arg_cong [where f = length])
  then obtain st nr a0 a1 a2 a3 mc' where l: "syscall_core_dispatch S L nr a0 a1 a2 a3 mc2 = Some (Sys_Leave st, mc')"
    "mc3 = exec_end fr mc'" "pre = []" by blast
  have i2': "machine_inv PL (mc2, fr # frs)" using i2 l(3) by simp
  have "undisturbed (set (chain frs)) (kern mc2) (kern mc3)" using leave_step(2) [OF i2' l(1)] l(2) by simp
  moreover have "undisturbed (set (chain frs)) (kern mc1) (kern mc2)" using r c2 by simp
  ultimately have u: "undisturbed (set (chain frs)) (kern mc) (kern mc3)" using enter(1) undisturbed_trans by blast
  have saved: "esp0 (g_usermode_tss mc3) = ef_tss_esp0 fr" "g_usermode_saved_esp mc3 = ef_saved_esp fr"
    "g_usermode_saved_eflags mc3 = ef_saved_eflags fr" using l(2) by (simp_all add: exec_end_def)
  show ?thesis using u saved enter(2-4) machine_invD(3,4) [OF i3] machine_invD(3,4) [OF assms(1)] by simp
qed

subsection \<open>A run\<close>

lemma demo_booted: "booted (kern demo_boot)"
  unfolding booted_def
  by (intro exI [of _ boot_ramfs] exI [of _ "()"] exI [of _ "Some ramfs_core_driver"])
    (unfold process_core_init_zero, simp add: demo_boot_def file_kernel_def boot_kernel_eq zero_kernel_def)

lemma demo_inv: "machine_inv demo_layout (demo_machine, [])"
  unfolding demo_machine_def
  by (rule usermode_init_inv [OF demo_booted]) (simp_all add: demo_boot_def demo_paging_ok)

text \<open>The kernel runs the program.\<close>

lemma demo_enter: "\<exists>fr mc1. confined_step S L demo_layout (demo_machine, []) (mc1, [fr])"
proof -
  have p: "string_in 0x60000 0x80000 (mem demo_machine) 0x1000 ''/a.prg''" by (rule demo_path) simp
  have n: "1 < PROCESS_MAX" by simp
  obtain fr sp mc1 where "exec_begin S L 0x1000 0 0 demo_machine =
      Some (Exec_Entered fr (img_entry (image_of SPRG_ARCH_I386 (demo_prg 0x60000))) sp, mc1)"
    using exec_begin_enters [OF demo_facts(3,2) n demo_facts(1,6,5,4,10) demo_program(2) demo_image(2)
        demo_facts(7) p demo_facts(8,9), of S L] by (elim exE conjE) (rule that)
  then have "syscall_core_dispatch S L SYS_EXECVE 0x1000 0 0 0 demo_machine =
      Some (Sys_Enter fr (img_entry (image_of SPRG_ARCH_I386 (demo_prg 0x60000))) sp, mc1)"
    by (simp add: syscall_core_dispatch_def)
  moreover have "g_next_pid (kern demo_machine) \<noteq> 0xFFFFFFFF"
    unfolding demo_machine_facts(1) by (simp add: file_kernel_def boot_kernel_eq)
  ultimately show ?thesis using confined_step.call_enter [of S L] by blast
qed

text \<open>The program asks for its directory, with a buffer on its stack, and gets it.\<close>

lemma demo_getcwd:
  assumes "0x60000 \<le> a" "a < 0x9F000"
  shows "\<exists>mc2. confined_step S L PL (mc1, frs) (mc2, frs) \<and> mem mc2 = (mem mc1)(a := CHR 0x00)"
proof -
  have "a \<noteq> 0" using assms(1) by auto
  then obtain mc2 where g: "syscall_core_dispatch S L SYS_GETCWD a 1 0 0 mc1 = Some (Sys_Return 0, mc2)"
    "mem mc2 = (mem mc1)(a := CHR 0x00)" using getcwd_stores_anywhere by blast
  have "confined (mem mc1) (mem mc2)" using assms unfolding g(2) confined_def by simp
  then show ?thesis using confined_step.call_return [OF g(1)] g(2) by blast
qed

text \<open>The kernel runs the program; the program makes a call and exits.\<close>

theorem exec_isolated_witness:
  "\<forall>S L. \<exists>fr mc1 mc2 mc3. confined_step S L demo_layout (demo_machine, []) (mc1, [fr]) \<and>
     confined_step S L demo_layout (mc1, [fr]) (mc2, [fr]) \<and> confined_step S L demo_layout (mc2, [fr]) (mc3, []) \<and>
     mem mc2 0x7F000 = CHR 0x00 \<and> g_current_process (kern mc3) = Some 0 \<and> g_usermode_exec_depth mc3 = 0"
proof (intro allI)
  fix S :: "unit services" and L
  obtain fr mc1 where e: "confined_step S L demo_layout (demo_machine, []) (mc1, [fr])" using demo_enter [of S L] by blast
  obtain mc2 where g: "confined_step S L demo_layout (mc1, [fr]) (mc2, [fr])" "mem mc2 = (mem mc1)(0x7F000 := CHR 0x00)"
    using demo_getcwd [of "0x7F000" S L demo_layout mc1 "[fr]"] by auto
  define mc3 where "mc3 = exec_end fr (posix_exit (sint (0 :: u32)) mc2)"
  have l: "confined_step S L demo_layout (mc2, [fr]) (mc3, [])"
    unfolding mc3_def by (rule confined_step.call_leave [of S L SYS_EXIT 0]) (simp add: syscall_core_dispatch_def)
  have "inner S L demo_layout (length ([] :: exec_frame list)) (mc1, [fr]) (mc2, [fr])" using g(1) by (simp add: inner_def)
  then have r: "(inner S L demo_layout (length ([] :: exec_frame list)))\<^sup>*\<^sup>* (mc1, [fr]) (mc2, [fr])" by blast
  show "\<exists>fr mc1 mc2 mc3. confined_step S L demo_layout (demo_machine, []) (mc1, [fr]) \<and>
     confined_step S L demo_layout (mc1, [fr]) (mc2, [fr]) \<and> confined_step S L demo_layout (mc2, [fr]) (mc3, []) \<and>
     mem mc2 0x7F000 = CHR 0x00 \<and> g_current_process (kern mc3) = Some 0 \<and> g_usermode_exec_depth mc3 = 0"
    using exec_isolated [OF demo_inv e r l] e g l demo_facts(2) demo_machine_facts(2)
    by (intro exI [of _ fr] exI [of _ mc1] exI [of _ mc2] exI [of _ mc3]) simp
qed

text \<open>From boot, the kernel runs the program, which makes a call; 0x60000 and the stack are all that it can reach.\<close>

theorem machine_invariant_witness:
  "\<forall>S. \<exists>fr mc. (confined_step S demo_usermode demo_layout)\<^sup>*\<^sup>* (snd (usermode_init demo_usermode demo_boot), []) (mc, [fr]) \<and>
     mem mc 0x7F000 = CHR 0x00 \<and> machine_inv demo_layout (mc, [fr]) \<and>
     mmu_walk demo_layout (pgs mc) 0x5FFFF \<noteq> Some (0x5FFFF, True, True)"
proof
  fix S :: "unit services"
  let ?pg = "\<lparr>g_pd = (\<lambda>_. 0), g_pt = (\<lambda>_ _. 0), g_paging_enabled = False, cr0 = 1, cr3 = 0\<rparr> :: paging"
  obtain c1 where p: "paging_core_init S demo_layout (\<lambda>_. CHR 0x00) FLOPPY_MAGIC 0 ?pg () = Some (0, pgs demo_boot, c1)"
    by (simp add: paging_core_init_def Let_def demo_boot_def demo_paging_def demo_layout_def)
  obtain fr mc1 where e: "confined_step S demo_usermode demo_layout (demo_machine, []) (mc1, [fr])"
    using demo_enter [of S demo_usermode] by blast
  obtain mc where g: "confined_step S demo_usermode demo_layout (mc1, [fr]) (mc, [fr])" "mem mc = (mem mc1)(0x7F000 := CHR 0x00)"
    using demo_getcwd [of "0x7F000" S demo_usermode demo_layout mc1 "[fr]"] by auto
  have r: "(confined_step S demo_usermode demo_layout)\<^sup>*\<^sup>* (snd (usermode_init demo_usermode demo_boot), []) (mc, [fr])"
    using e g(1) unfolding demo_machine_def by (meson converse_rtranclp_into_rtranclp rtranclp.rtrancl_refl)
  have t: "machine_inv demo_layout (mc, [fr]) \<and>
      (\<forall>x y w. mmu_walk demo_layout (pgs mc) x = Some (y, True, w) \<longrightarrow> y = x \<and> 0x60000 \<le> x \<and> x < 0x9F000)"
    by (rule machine_invariant [OF demo_layout_ok _ p demo_booted r]) simp
  have "mmu_walk demo_layout (pgs mc) 0x5FFFF \<noteq> Some (0x5FFFF, True, True)"
  proof
    assume "mmu_walk demo_layout (pgs mc) 0x5FFFF = Some (0x5FFFF, True, True)"
    then have "(0x60000 :: u32) \<le> 0x5FFFF" using t by blast
    then show False by simp
  qed
  with t r g(2) show "\<exists>fr mc. (confined_step S demo_usermode demo_layout)\<^sup>*\<^sup>* (snd (usermode_init demo_usermode demo_boot), []) (mc, [fr]) \<and>
     mem mc 0x7F000 = CHR 0x00 \<and> machine_inv demo_layout (mc, [fr]) \<and>
     mmu_walk demo_layout (pgs mc) 0x5FFFF \<noteq> Some (0x5FFFF, True, True)"
    by (intro exI [of _ fr] exI [of _ mc]) simp
qed

end
