(* ===== verification/Block_Dev.thy ===== *)
theory Block_Dev
  imports User_Mem Fs_Types
begin

text \<open>
  Block devices: \<open>src/src/kernel/core/fs/block_core.c\<close>, the floppy adapter
  \<open>floppy_controller_core.c\<close>, and the two devices of \<open>fs_core.c\<close>, the boot floppy with its
  write-through cache and the read-only memory module. A device works on a state of its own; a read
  may fail but leaves that state as it is. A sector is a list of 512 bytes.
\<close>

subsection \<open>Results with errors\<close>

text \<open>Going on after a step that may fail, without and with a state.\<close>

definition r_bind :: "'a fs_result \<Rightarrow> ('a \<Rightarrow> 'b fs_result) \<Rightarrow> 'b fs_result" where
  "r_bind r f = (case r of Inl e \<Rightarrow> Inl e | Inr x \<Rightarrow> f x)"

definition s_bind :: "'a fs_result \<times> 'd \<Rightarrow> ('a \<Rightarrow> 'd \<Rightarrow> 'b fs_result \<times> 'd) \<Rightarrow> 'b fs_result \<times> 'd" where
  "s_bind r f = (case r of (Inl e, d) \<Rightarrow> (Inl e, d) | (Inr x, d) \<Rightarrow> f x d)"

lemma r_bind_simps [simp]: "r_bind (Inl e) f = Inl e" "r_bind (Inr x) f = f x"
  by (simp_all add: r_bind_def)

lemma s_bind_simps [simp]: "s_bind (Inl e, d) f = (Inl e, d)" "s_bind (Inr x, d) f = f x d"
  by (simp_all add: s_bind_def)

lemma r_bind_Inr: "r_bind r f = Inr y \<longleftrightarrow> (\<exists>x. r = Inr x \<and> f x = Inr y)"
  by (cases r) simp_all

definition byte_of :: "char \<Rightarrow> u8" where
  "byte_of c = of_nat (of_char c)"

definition char_of_byte :: "u8 \<Rightarrow> char" where
  "char_of_byte b = char_of (unat b)"

lemma char_byte [simp]: "char_of_byte (byte_of c) = c"
proof -
  have "unat (of_nat (of_char c) :: u8) = (of_char c :: nat)"
    using of_char_mod_256 [of c, where 'a = nat] by (simp add: unat_of_nat)
  then show ?thesis by (simp add: char_of_byte_def byte_of_def)
qed

lemma byte_char [simp]: "byte_of (char_of_byte b) = b"
proof -
  have "unat b < 2 ^ LENGTH(8)" by (rule unsigned_less)
  then show ?thesis by (simp add: char_of_byte_def byte_of_def)
qed

subsection \<open>The interface\<close>

record 'd block_device =
  sector_size :: u32
  sector_count :: u32
  dev_read :: "(u32 \<Rightarrow> u32 \<Rightarrow> 'd \<Rightarrow> u8 list fs_result) option"
  dev_write :: "(u32 \<Rightarrow> u32 \<Rightarrow> u8 list \<Rightarrow> 'd \<Rightarrow> unit fs_result \<times> 'd) option"

text \<open>The null checks on buffers are left out: every caller passes an array.\<close>

definition block_core_read :: "'d block_device option \<Rightarrow> u32 \<Rightarrow> u32 \<Rightarrow> 'd \<Rightarrow> u8 list fs_result" where
  "block_core_read dev lba count d =
     (case dev of None \<Rightarrow> Inl FS_ERR_INVALID
      | Some b \<Rightarrow> (case dev_read b of None \<Rightarrow> Inl FS_ERR_INVALID
        | Some rd \<Rightarrow>
            if count = 0 then Inl FS_ERR_INVALID
            else if sector_size b \<noteq> 512 then Inl FS_ERR_INVALID
            else if sector_count b \<noteq> 0 \<and> (sector_count b \<le> lba \<or> sector_count b - lba < count) then Inl FS_ERR_INVALID
            else rd lba count d))"

definition block_core_write :: "'d block_device option \<Rightarrow> u32 \<Rightarrow> u32 \<Rightarrow> u8 list \<Rightarrow> 'd \<Rightarrow> unit fs_result \<times> 'd" where
  "block_core_write dev lba count bytes d =
     (case dev of None \<Rightarrow> (Inl FS_ERR_READ_ONLY, d)
      | Some b \<Rightarrow> (case dev_write b of None \<Rightarrow> (Inl FS_ERR_READ_ONLY, d)
        | Some wr \<Rightarrow>
            if count = 0 then (Inl FS_ERR_READ_ONLY, d)
            else if sector_size b \<noteq> 512 then (Inl FS_ERR_INVALID, d)
            else if sector_count b \<noteq> 0 \<and> (sector_count b \<le> lba \<or> sector_count b - lba < count) then (Inl FS_ERR_INVALID, d)
            else wr lba count bytes d))"

text \<open>
  What a file system relies on: a device of \<open>n\<close> sectors that stores what was written last, as long
  as its state is good.
\<close>

locale disk =
  fixes dev :: "'d block_device"
    and good :: "'d \<Rightarrow> bool"
    and sec :: "'d \<Rightarrow> nat \<Rightarrow> u8 list"
    and n :: nat
  assumes n_bound: "n < 2 ^ 32" "sector_count dev = of_nat n"
    and sec_length: "good d \<Longrightarrow> i < n \<Longrightarrow> length (sec d i) = 512"
    and read_sec: "good d \<Longrightarrow> unat lba < n \<Longrightarrow> block_core_read (Some dev) lba 1 d = Inr (sec d (unat lba))"
    and write_sec: "good d \<Longrightarrow> unat lba < n \<Longrightarrow> length bs = 512 \<Longrightarrow>
      \<exists>d'. block_core_write (Some dev) lba 1 bs d = (Inr (), d') \<and> good d' \<and> sec d' = (sec d)(unat lba := bs)"

subsection \<open>The floppy controller\<close>

text \<open>The driver behind the adapter, over the state \<open>'h\<close> of the hardware.\<close>

record 'h floppy_ops =
  abi_version :: u32
  read_sector :: "(u32 \<Rightarrow> 'h \<Rightarrow> u8 list fs_result) option"
  write_sector :: "(u8 list \<Rightarrow> u32 \<Rightarrow> 'h \<Rightarrow> unit fs_result \<times> 'h) option"
  reset_state :: "('h \<Rightarrow> 'h) option"

abbreviation "SYSTEM_FLOPPY_ABI \<equiv> 1 :: u32"
abbreviation "FLOPPY_SECTORS \<equiv> 2880 :: u32"

record 'h floppy =
  controller :: "'h floppy_ops option"
  hardware :: 'h
  fmem :: memory

definition floppy_controller_register :: "'h floppy_ops option \<Rightarrow> 'h floppy \<Rightarrow> unit fs_result \<times> 'h floppy" where
  "floppy_controller_register ops f =
     (case ops of None \<Rightarrow> (Inl FS_ERR_INVALID, f)
      | Some o' \<Rightarrow>
          if abi_version o' \<noteq> SYSTEM_FLOPPY_ABI \<or> read_sector o' = None \<or> write_sector o' = None \<or> reset_state o' = None
          then (Inl FS_ERR_INVALID, f)
          else (Inr (), f\<lparr>controller := Some o'\<rparr>))"

definition floppy_controller_read_sector :: "u32 \<Rightarrow> 'h floppy \<Rightarrow> u8 list fs_result" where
  "floppy_controller_read_sector lba f =
     (case controller f of None \<Rightarrow> Inl FS_ERR_INVALID
      | Some o' \<Rightarrow> if FLOPPY_SECTORS \<le> lba then Inl FS_ERR_INVALID else the (read_sector o') lba (hardware f))"

definition floppy_controller_write_sector :: "u8 list \<Rightarrow> u32 \<Rightarrow> 'h floppy \<Rightarrow> unit fs_result \<times> 'h floppy" where
  "floppy_controller_write_sector bytes lba f =
     (case controller f of None \<Rightarrow> (Inl FS_ERR_INVALID, f)
      | Some o' \<Rightarrow> if FLOPPY_SECTORS \<le> lba then (Inl FS_ERR_INVALID, f)
                  else let (r, h) = the (write_sector o') bytes lba (hardware f) in (r, f\<lparr>hardware := h\<rparr>))"

definition floppy_controller_reset :: "'h floppy \<Rightarrow> 'h floppy" where
  "floppy_controller_reset f =
     (case controller f of None \<Rightarrow> f | Some o' \<Rightarrow> f\<lparr>hardware := the (reset_state o') (hardware f)\<rparr>)"

subsection \<open>The boot floppy\<close>

text \<open>
  The boot loader leaves the boot sector, the allocation table and the root directory of the floppy in
  memory, and \<open>fs_floppy_boot_info_t\<close> says where (only the fields the kernel reads).
\<close>

record floppy_boot_info =
  boot_sector_addr :: u32
  fat_addr :: u32
  root_dir_addr :: u32
  fat_lba :: u32
  fat_sectors :: u32
  root_lba :: u32
  root_sectors :: u32

definition mem_sector :: "memory \<Rightarrow> u32 \<Rightarrow> u8 list" where
  "mem_sector m a = map byte_of (bytes_at m a 512)"

definition put_sector :: "u32 \<Rightarrow> u8 list \<Rightarrow> memory \<Rightarrow> memory" where
  "put_sector a bs m = put_bytes a (map char_of_byte bs) m"

text \<open>One round of the loop of \<open>fs_cached_floppy_read\<close>.\<close>

definition cached_read_one :: "floppy_boot_info \<Rightarrow> u32 \<Rightarrow> 'h floppy \<Rightarrow> u8 list fs_result" where
  "cached_read_one info lba f =
     (if lba = 0 then Inr (mem_sector (fmem f) (boot_sector_addr info))
      else if fat_lba info \<le> lba \<and> lba < fat_lba info + fat_sectors info
      then Inr (mem_sector (fmem f) (fat_addr info + (lba - fat_lba info) * 512))
      else if root_lba info \<le> lba \<and> lba < root_lba info + root_sectors info
      then Inr (mem_sector (fmem f) (root_dir_addr info + (lba - root_lba info) * 512))
      else floppy_controller_read_sector lba f)"

fun cached_read_loop :: "floppy_boot_info \<Rightarrow> nat \<Rightarrow> u32 \<Rightarrow> 'h floppy \<Rightarrow> u8 list fs_result" where
  "cached_read_loop info 0 lba f = Inr []"
| "cached_read_loop info (Suc count) lba f =
     r_bind (cached_read_one info lba f) (\<lambda>bs. r_bind (cached_read_loop info count (lba + 1) f) (\<lambda>rest. Inr (bs @ rest)))"

definition fs_cached_floppy_read :: "floppy_boot_info option \<Rightarrow> u32 \<Rightarrow> u32 \<Rightarrow> 'h floppy \<Rightarrow> u8 list fs_result" where
  "fs_cached_floppy_read info lba count f =
     (case info of None \<Rightarrow> Inl FS_ERR_INVALID | Some i \<Rightarrow> cached_read_loop i (unat count) lba f)"

definition cached_write_one :: "floppy_boot_info \<Rightarrow> u32 \<Rightarrow> u8 list \<Rightarrow> 'h floppy \<Rightarrow> unit fs_result \<times> 'h floppy" where
  "cached_write_one info lba bs f =
     floppy_controller_write_sector bs lba
       (if lba = 0 \<and> boot_sector_addr info \<noteq> 0 then f\<lparr>fmem := put_sector (boot_sector_addr info) bs (fmem f)\<rparr>
        else if fat_lba info \<le> lba \<and> lba < fat_lba info + fat_sectors info
        then f\<lparr>fmem := put_sector (fat_addr info + (lba - fat_lba info) * 512) bs (fmem f)\<rparr>
        else if root_lba info \<le> lba \<and> lba < root_lba info + root_sectors info
        then f\<lparr>fmem := put_sector (root_dir_addr info + (lba - root_lba info) * 512) bs (fmem f)\<rparr>
        else f)"

fun cached_write_loop :: "floppy_boot_info \<Rightarrow> nat \<Rightarrow> u32 \<Rightarrow> u8 list \<Rightarrow> 'h floppy \<Rightarrow> unit fs_result \<times> 'h floppy" where
  "cached_write_loop info 0 lba bs f = (Inr (), f)"
| "cached_write_loop info (Suc count) lba bs f =
     s_bind (cached_write_one info lba (take 512 bs) f) (\<lambda>_. cached_write_loop info count (lba + 1) (drop 512 bs))"

definition fs_cached_floppy_write :: "floppy_boot_info option \<Rightarrow> u32 \<Rightarrow> u32 \<Rightarrow> u8 list \<Rightarrow> 'h floppy \<Rightarrow> unit fs_result \<times> 'h floppy" where
  "fs_cached_floppy_write info lba count bs f =
     (case info of None \<Rightarrow> (Inl FS_ERR_INVALID, f) | Some i \<Rightarrow> cached_write_loop i (unat count) lba bs f)"

text \<open>\<open>g_boot_floppy_device\<close> as \<open>fs_install_bootmedia_device\<close> sets it up.\<close>

definition boot_floppy_device :: "floppy_boot_info option \<Rightarrow> 'h floppy block_device" where
  "boot_floppy_device info = \<lparr>sector_size = 512, sector_count = FLOPPY_SECTORS,
     dev_read = Some (fs_cached_floppy_read info), dev_write = Some (fs_cached_floppy_write info)\<rparr>"

subsection \<open>The memory module\<close>

definition fs_memory_module_read :: "u32 \<Rightarrow> u32 \<Rightarrow> u32 \<Rightarrow> u32 \<Rightarrow> memory \<Rightarrow> u8 list fs_result" where
  "fs_memory_module_read start sz lba count m =
     (if count = 0 then Inl FS_ERR_INVALID
      else let off = lba * 512; len = count * 512
           in if sz \<le> off \<or> sz - off < len then Inl FS_ERR_INVALID
              else Inr (map byte_of (bytes_at m (start + off) (unat len))))"

definition mb2_module_device :: "u32 \<Rightarrow> u32 \<Rightarrow> memory block_device" where
  "mb2_module_device start sz = \<lparr>sector_size = 512, sector_count = sz div 512,
     dev_read = Some (fs_memory_module_read start sz), dev_write = None\<rparr>"

end
