(* ===== verification/Fat12_Core.thy ===== *)
theory Fat12_Core
  imports Block_Dev Path_Norm
begin

text \<open>
  The FAT12 driver \<open>src/src/kernel/core/fs/fat12_core.c\<close>: names, the parameter block, the allocation
  table and the directories on a device, and the calls \<open>fat12_core_*_on_device\<close>. The static sector
  buffers are overwritten before every use, so they are not part of the state. A walk along a chain
  of clusters does not end when the table has a cycle; then the result is \<open>None\<close>.
\<close>

subsection \<open>Constants and records\<close>

abbreviation "FAT12_ATTR_VOLUME_ID \<equiv> 0x08 :: u8"
abbreviation "FAT12_ATTR_DIRECTORY \<equiv> 0x10 :: u8"
abbreviation "FAT12_ATTR_LONG_NAME \<equiv> 0x0F :: u8"
abbreviation "FAT12_ENTRY_FREE \<equiv> 0x00 :: u8"
abbreviation "FAT12_ENTRY_DELETED \<equiv> 0xE5 :: u8"
abbreviation "FAT12_CLUSTER_FREE \<equiv> 0x000 :: u16"
abbreviation "FAT12_CLUSTER_EOC \<equiv> 0xFFF :: u16"

record fat12_bpb =
  bytes_per_sector :: u16
  sectors_per_cluster :: u8
  reserved_sectors :: u16
  fat_count :: u8
  root_entry_count :: u16
  sectors_per_fat :: u16
  root_dir_lba :: u32
  root_dir_sectors :: u32

record fat12_entry_ref =
  ref_lba :: u32
  ref_offset :: nat

subsection \<open>Bytes\<close>

text \<open>Little-endian numbers at an offset of a buffer.\<close>

definition fat12_le16 :: "u8 list \<Rightarrow> nat \<Rightarrow> u16" where
  "fat12_le16 p i = ucast (p ! i) OR push_bit 8 (ucast (p ! (i + 1)))"

definition fat12_le32 :: "u8 list \<Rightarrow> nat \<Rightarrow> u32" where
  "fat12_le32 p i = ucast (p ! i) OR push_bit 8 (ucast (p ! (i + 1))) OR push_bit 16 (ucast (p ! (i + 2))) OR
     push_bit 24 (ucast (p ! (i + 3)))"

definition fat12_put_le16 :: "nat \<Rightarrow> u16 \<Rightarrow> u8 list \<Rightarrow> u8 list" where
  "fat12_put_le16 i v p = p[i := ucast (v AND 0xFF), i + 1 := ucast (drop_bit 8 v AND 0xFF)]"

subsection \<open>Names\<close>

fun fat12_streq :: "string \<Rightarrow> string \<Rightarrow> bool" where
  "fat12_streq (a # as) (b # bs) = (if a \<noteq> b then False else fat12_streq as bs)"
| "fat12_streq as bs = (as = [] \<and> bs = [])"

definition fat12_lower :: "char \<Rightarrow> char" where
  "fat12_lower c = (if 65 \<le> (of_char c :: nat) \<and> (of_char c :: nat) \<le> 90 then char_of ((of_char c :: nat) + 32) else c)"

definition fat12_upper :: "char \<Rightarrow> char" where
  "fat12_upper c = (if 97 \<le> (of_char c :: nat) \<and> (of_char c :: nat) \<le> 122 then char_of ((of_char c :: nat) - 32) else c)"

text \<open>
  A requested name that is not longer than the alias never matches: the code compares its terminating
  NUL with a character of the alias.
\<close>

definition fat12_short_alias_eq :: "string \<Rightarrow> string \<Rightarrow> bool" where
  "fat12_short_alias_eq stored requested =
     (let alias_len = length (takeWhile (\<lambda>c. c \<noteq> CHR ''~'') stored)
      in if alias_len = length stored \<or> alias_len = 0 \<or> length requested \<le> alias_len then False
         else list_all (\<lambda>c. 48 \<le> (of_char c :: nat) \<and> (of_char c :: nat) \<le> 57) (drop (alias_len + 1) stored) \<and>
              map fat12_lower (take alias_len stored) = map fat12_lower (take alias_len requested))"

fun fat12_prefix_loop :: "string \<Rightarrow> string \<Rightarrow> bool" where
  "fat12_prefix_loop (a # as) (b # bs) = (if fat12_lower a \<noteq> fat12_lower b then False else fat12_prefix_loop as bs)"
| "fat12_prefix_loop as bs = (as = [] \<and> bs = [])"

definition fat12_name_eq :: "string \<Rightarrow> string \<Rightarrow> bool" where
  "fat12_name_eq a b = (if fat12_prefix_loop a b then True else fat12_short_alias_eq a b)"

definition fat12_copy_string :: "nat \<Rightarrow> string \<Rightarrow> string" where
  "fat12_copy_string cap src = take (cap - 1) src"

text \<open>The field without the spaces at its end.\<close>

definition fat12_trim :: "u8 list \<Rightarrow> u8 list" where
  "fat12_trim bs = rev (dropWhile (\<lambda>b. b = 0x20) (rev bs))"

definition fat12_copy_83_name :: "u8 list \<Rightarrow> string" where
  "fat12_copy_83_name entry =
     (let low = map (\<lambda>b. fat12_lower (char_of_byte b));
          base = fat12_trim (take 8 entry);
          ext = fat12_trim (take 3 (drop 8 entry))
      in takeWhile (\<lambda>c. c \<noteq> CHR 0x00) (take (FS_NAME_CAP - 1) (low base @ (if ext = [] then [] else CHR ''.'' # low ext))))"

text \<open>
  The buffer for a long name: \<open>None\<close> while its valid flag is clear, since the code then never reads it.
\<close>

type_synonym lfn = "char list option"

definition fat12_lfn_copy_char :: "nat \<Rightarrow> u16 \<Rightarrow> char list \<Rightarrow> char list" where
  "fat12_lfn_copy_char pos v out =
     (if FS_NAME_CAP \<le> pos + 1 then out
      else if v = 0 then out[pos := CHR 0x00]
      else if v = 0xFFFF then out
      else if v < 0x80 then out[pos := char_of (unat v)]
      else out[pos := CHR ''?''])"

definition lfn_offsets :: "nat list" where
  "lfn_offsets = [1, 3, 5, 7, 9, 14, 16, 18, 20, 22, 24, 28, 30]"

fun lfn_copy_loop :: "nat \<Rightarrow> nat list \<Rightarrow> u8 list \<Rightarrow> char list \<Rightarrow> char list" where
  "lfn_copy_loop pos [] entry out = out"
| "lfn_copy_loop pos (off # offs) entry out =
     (if FS_NAME_CAP \<le> pos + 1 then out
      else let ch = fat12_le16 entry off; out1 = fat12_lfn_copy_char pos ch out
           in if ch = 0 then out1 else lfn_copy_loop (pos + 1) offs entry out1)"

definition fat12_lfn_read_entry :: "u8 list \<Rightarrow> lfn \<Rightarrow> lfn" where
  "fat12_lfn_read_entry entry l =
     (let seq = unat (entry ! 0 AND 0x1F)
      in if seq = 0 then None
         else case (if entry ! 0 AND 0x40 \<noteq> 0 then Some (replicate FS_NAME_CAP (CHR 0x00)) else l) of
                None \<Rightarrow> None
              | Some buf \<Rightarrow>
                  let base = (seq - 1) * 13
                  in if FS_NAME_CAP \<le> base then Some buf else Some (lfn_copy_loop base lfn_offsets entry buf))"

definition fat12_copy_display_name :: "u8 list \<Rightarrow> lfn \<Rightarrow> string" where
  "fat12_copy_display_name entry l =
     (case l of
        Some (c # cs) \<Rightarrow> if c \<noteq> CHR 0x00 then fat12_copy_string FS_NAME_CAP (takeWhile (\<lambda>c. c \<noteq> CHR 0x00) (c # cs))
                        else fat12_copy_83_name entry
      | _ \<Rightarrow> fat12_copy_83_name entry)"

text \<open>The 8.3 form of a name: eleven bytes, upper case, padded with spaces.\<close>

fun dir_name_loop :: "nat \<Rightarrow> string \<Rightarrow> u8 list \<Rightarrow> u8 list fs_result" where
  "dir_name_loop len [] out = Inr out"
| "dir_name_loop len (c # cs) out =
     (if c = CHR ''/'' \<or> c = CHR ''.'' \<or> 8 \<le> len then Inl FS_ERR_INVALID
      else dir_name_loop (len + 1) cs (out[len := byte_of (fat12_upper c)]))"

definition fat12_make_83_dir_name :: "string \<Rightarrow> u8 list fs_result" where
  "fat12_make_83_dir_name name =
     (if name = [] then Inl FS_ERR_INVALID else dir_name_loop 0 name (replicate 11 0x20))"

fun file_name_loop :: "string \<Rightarrow> nat \<Rightarrow> nat \<Rightarrow> bool \<Rightarrow> u8 list \<Rightarrow> u8 list fs_result" where
  "file_name_loop [] base_len ext_len in_ext out = (if base_len = 0 then Inl FS_ERR_INVALID else Inr out)"
| "file_name_loop (c # cs) base_len ext_len in_ext out =
     (if c = CHR ''/'' then Inl FS_ERR_INVALID
      else if c = CHR ''.''
      then if in_ext \<or> base_len = 0 \<or> cs = [] then Inl FS_ERR_INVALID else file_name_loop cs base_len ext_len True out
      else if \<not> in_ext
      then if 8 \<le> base_len then Inl FS_ERR_INVALID
           else file_name_loop cs (base_len + 1) ext_len in_ext (out[base_len := byte_of (fat12_upper c)])
      else if 3 \<le> ext_len then Inl FS_ERR_INVALID
           else file_name_loop cs base_len (ext_len + 1) in_ext (out[8 + ext_len := byte_of (fat12_upper c)]))"

definition fat12_make_83_file_name :: "string \<Rightarrow> u8 list fs_result" where
  "fat12_make_83_file_name name =
     (if name = [] \<or> hd name = CHR ''.'' then Inl FS_ERR_INVALID else file_name_loop name 0 0 False (replicate 11 0x20))"

text \<open>The directory and the last name of an absolute path.\<close>

definition fat12_split_create_path :: "string \<Rightarrow> (string \<times> string) fs_result" where
  "fat12_split_create_path path =
     (if path = [] \<or> hd path \<noteq> CHR ''/'' \<or> FS_PATH_CAP \<le> length path then Inl FS_ERR_INVALID
      else let leaf = rev (takeWhile (\<lambda>c. c \<noteq> CHR ''/'') (rev path)); slash = length path - length leaf - 1
           in if leaf = [] then Inl FS_ERR_INVALID
              else if FS_NAME_CAP \<le> length leaf then Inl FS_ERR_INVALID
              else Inr (if slash = 0 then ''/'' else take slash path, leaf))"

subsection \<open>The parameter block\<close>

definition zero_bpb :: fat12_bpb where
  "zero_bpb = \<lparr>bytes_per_sector = 0, sectors_per_cluster = 0, reserved_sectors = 0, fat_count = 0, root_entry_count = 0,
     sectors_per_fat = 0, root_dir_lba = 0, root_dir_sectors = 0\<rparr>"

text \<open>The fields of \<open>out\<close> are set even when the block is refused.\<close>

definition fat12_parse_bpb :: "u8 list \<Rightarrow> fat12_bpb \<Rightarrow> unit fs_result \<times> fat12_bpb" where
  "fat12_parse_bpb sector out0 =
     (let out = out0\<lparr>bytes_per_sector := fat12_le16 sector 11, sectors_per_cluster := sector ! 13,
            reserved_sectors := fat12_le16 sector 14, fat_count := sector ! 16, root_entry_count := fat12_le16 sector 17,
            sectors_per_fat := fat12_le16 sector 22\<rparr>;
          total16 = fat12_le16 sector 19; total32 = fat12_le32 sector 32
      in if bytes_per_sector out \<noteq> 512 \<or> sectors_per_cluster out = 0 \<or> reserved_sectors out = 0 \<or> fat_count out = 0 \<or>
            root_entry_count out = 0 \<or> sectors_per_fat out = 0 \<or> (total16 = 0 \<and> total32 = 0)
         then (Inl FS_ERR_INVALID, out)
         else (Inr (), out\<lparr>root_dir_lba := ucast (reserved_sectors out) + ucast (fat_count out) * ucast (sectors_per_fat out),
                           root_dir_sectors := (ucast (root_entry_count out) * 32 + 511) div 512\<rparr>))"

definition fat12_image_cluster_to_lba :: "fat12_bpb \<Rightarrow> u32 \<Rightarrow> u32" where
  "fat12_image_cluster_to_lba bpb cluster =
     (if cluster < 2 then root_dir_lba bpb
      else root_dir_lba bpb + root_dir_sectors bpb + (cluster - 2) * ucast (sectors_per_cluster bpb))"

subsection \<open>The allocation table\<close>

definition fat12_dev_total_clusters :: "fat12_bpb \<Rightarrow> 'd block_device option \<Rightarrow> u32" where
  "fat12_dev_total_clusters bpb dev =
     (case dev of None \<Rightarrow> 0
      | Some b \<Rightarrow>
          if sectors_per_cluster bpb = 0 then 0
          else let data_lba = root_dir_lba bpb + root_dir_sectors bpb
               in if sector_count b \<le> data_lba then 0 else (sector_count b - data_lba) div ucast (sectors_per_cluster bpb))"

text \<open>The twelve bits of a cluster in the two bytes that hold them.\<close>

definition fat_decode :: "u32 \<Rightarrow> u8 \<Rightarrow> u8 \<Rightarrow> u16" where
  "fat_decode cluster lo hi =
     (let v = ucast lo OR push_bit 8 (ucast hi) in if cluster AND 1 \<noteq> 0 then drop_bit 4 v else v AND 0x0FFF)"

definition fat_low :: "u32 \<Rightarrow> u16 \<Rightarrow> u8 \<Rightarrow> u8" where
  "fat_low cluster v old =
     (if cluster AND 1 \<noteq> 0 then (old AND 0x0F) OR ucast (push_bit 4 v AND 0xF0) else ucast (v AND 0xFF))"

definition fat_high :: "u32 \<Rightarrow> u16 \<Rightarrow> u8 \<Rightarrow> u8" where
  "fat_high cluster v old =
     (if cluster AND 1 \<noteq> 0 then ucast (drop_bit 4 v AND 0xFF) else (old AND 0xF0) OR ucast (drop_bit 8 v AND 0x0F))"

definition fat12_dev_get_fat_entry :: "'d block_device option \<Rightarrow> fat12_bpb \<Rightarrow> u32 \<Rightarrow> 'd \<Rightarrow> u16 fs_result" where
  "fat12_dev_get_fat_entry dev bpb cluster d =
     (let off = cluster + cluster div 2; sector = ucast (reserved_sectors bpb) + off div 512; byte_offset = unat (off mod 512)
      in r_bind (block_core_read dev sector 1 d) (\<lambda>ws.
           if byte_offset = 511
           then r_bind (block_core_read dev (sector + 1) 1 d) (\<lambda>ws1. Inr (fat_decode cluster (ws ! 511) (ws1 ! 0)))
           else Inr (fat_decode cluster (ws ! byte_offset) (ws ! (byte_offset + 1)))))"

text \<open>One round of the loop over the copies of the table.\<close>

definition set_fat_copy :: "'d block_device option \<Rightarrow> fat12_bpb \<Rightarrow> u32 \<Rightarrow> u16 \<Rightarrow> nat \<Rightarrow> 'd \<Rightarrow> unit fs_result \<times> 'd" where
  "set_fat_copy dev bpb cluster v fat_index d =
     (let off = cluster + cluster div 2;
          sector = ucast (reserved_sectors bpb) + of_nat fat_index * ucast (sectors_per_fat bpb) + off div 512;
          byte_offset = unat (off mod 512)
      in case block_core_read dev sector 1 d of
           Inl e \<Rightarrow> (Inl e, d)
         | Inr ws \<Rightarrow>
             let ws1 = ws[byte_offset := fat_low cluster v (ws ! byte_offset)]
             in if byte_offset = 511
                then s_bind (block_core_write dev sector 1 ws1 d) (\<lambda>_ d1.
                       case block_core_read dev (sector + 1) 1 d1 of
                         Inl e \<Rightarrow> (Inl e, d1)
                       | Inr ws2 \<Rightarrow> block_core_write dev (sector + 1) 1 (ws2[0 := fat_high cluster v (ws2 ! 0)]) d1)
                else block_core_write dev sector 1 (ws1[byte_offset + 1 := fat_high cluster v (ws1 ! (byte_offset + 1))]) d)"

fun set_fat_copies :: "'d block_device option \<Rightarrow> fat12_bpb \<Rightarrow> u32 \<Rightarrow> u16 \<Rightarrow> nat list \<Rightarrow> 'd \<Rightarrow> unit fs_result \<times> 'd" where
  "set_fat_copies dev bpb cluster v [] d = (Inr (), d)"
| "set_fat_copies dev bpb cluster v (i # is) d =
     s_bind (set_fat_copy dev bpb cluster v i d) (\<lambda>_. set_fat_copies dev bpb cluster v is)"

definition fat12_dev_set_fat_entry :: "'d block_device option \<Rightarrow> fat12_bpb \<Rightarrow> u32 \<Rightarrow> u16 \<Rightarrow> 'd \<Rightarrow> unit fs_result \<times> 'd" where
  "fat12_dev_set_fat_entry dev bpb cluster v d =
     (if dev = None then (Inl FS_ERR_INVALID, d)
      else set_fat_copies dev bpb cluster (v AND 0x0FFF) [0..<unat (fat_count bpb)] d)"

definition fat12_dev_zero_sector :: "'d block_device option \<Rightarrow> u32 \<Rightarrow> 'd \<Rightarrow> unit fs_result \<times> 'd" where
  "fat12_dev_zero_sector dev lba d =
     (if dev = None then (Inl FS_ERR_INVALID, d) else block_core_write dev lba 1 (replicate 512 0) d)"

fun zero_sectors :: "'d block_device option \<Rightarrow> u32 list \<Rightarrow> 'd \<Rightarrow> unit fs_result \<times> 'd" where
  "zero_sectors dev [] d = (Inr (), d)"
| "zero_sectors dev (lba # lbas) d = s_bind (fat12_dev_zero_sector dev lba d) (\<lambda>_. zero_sectors dev lbas)"

text \<open>The sectors of a cluster.\<close>

definition cluster_lbas :: "fat12_bpb \<Rightarrow> u32 \<Rightarrow> u32 list" where
  "cluster_lbas bpb cluster =
     map (\<lambda>i. fat12_image_cluster_to_lba bpb cluster + of_nat i) [0..<unat (sectors_per_cluster bpb)]"

fun alloc_cluster_loop :: "'d block_device option \<Rightarrow> fat12_bpb \<Rightarrow> nat list \<Rightarrow> 'd \<Rightarrow> u32 \<times> 'd" where
  "alloc_cluster_loop dev bpb [] d = (0, d)"
| "alloc_cluster_loop dev bpb (c # cs) d =
     (let cluster = of_nat c in
      case fat12_dev_get_fat_entry dev bpb cluster d of
        Inl e \<Rightarrow> (0, d)
      | Inr v \<Rightarrow>
          if v = FAT12_CLUSTER_FREE
          then case fat12_dev_set_fat_entry dev bpb cluster FAT12_CLUSTER_EOC d of
                 (Inl e, d1) \<Rightarrow> (0, d1)
               | (Inr _, d1) \<Rightarrow>
                   (case zero_sectors dev (cluster_lbas bpb cluster) d1 of
                      (Inl e, d2) \<Rightarrow> (0, snd (fat12_dev_set_fat_entry dev bpb cluster FAT12_CLUSTER_FREE d2))
                    | (Inr _, d2) \<Rightarrow> (cluster, d2))
          else alloc_cluster_loop dev bpb cs d)"

definition fat12_dev_alloc_cluster :: "'d block_device option \<Rightarrow> fat12_bpb \<Rightarrow> 'd \<Rightarrow> u32 \<times> 'd" where
  "fat12_dev_alloc_cluster dev bpb d = alloc_cluster_loop dev bpb [2..<unat (fat12_dev_total_clusters bpb dev + 2)] d"

partial_function (option) fat12_dev_free_cluster_chain ::
    "'d block_device option \<Rightarrow> fat12_bpb \<Rightarrow> u32 \<Rightarrow> 'd \<Rightarrow> (unit fs_result \<times> 'd) option" where
  "fat12_dev_free_cluster_chain dev bpb cluster d =
     (if \<not> (2 \<le> cluster \<and> cluster < 0xFF8) then Some (Inr (), d)
      else case fat12_dev_get_fat_entry dev bpb cluster d of
             Inl e \<Rightarrow> Some (Inl e, d)
           | Inr nxt \<Rightarrow>
               (case fat12_dev_set_fat_entry dev bpb cluster FAT12_CLUSTER_FREE d of
                  (Inl e, d1) \<Rightarrow> Some (Inl e, d1)
                | (Inr _, d1) \<Rightarrow> fat12_dev_free_cluster_chain dev bpb (ucast nxt) d1))"

subsection \<open>Walking a directory\<close>

text \<open>
  The searches all walk a directory entry by entry: over the sectors of the root directory, or over
  the clusters of another one. \<open>f lba i entry a\<close> handles entry \<open>i\<close> of a sector and stops or goes on.
\<close>

datatype ('a, 'r) scan = Go 'a | Stop 'r

definition entry_at :: "u8 list \<Rightarrow> nat \<Rightarrow> u8 list" where
  "entry_at sector i = take 32 (drop (i * 32) sector)"

fun scan_entries :: "(nat \<Rightarrow> u8 list \<Rightarrow> 'a \<Rightarrow> ('a, 'r) scan) \<Rightarrow> u8 list \<Rightarrow> nat list \<Rightarrow> 'a \<Rightarrow> ('a, 'r) scan" where
  "scan_entries f sector [] a = Go a"
| "scan_entries f sector (i # is) a =
     (case f i (entry_at sector i) a of Stop r \<Rightarrow> Stop r | Go a1 \<Rightarrow> scan_entries f sector is a1)"

fun scan_sectors :: "(u32 \<Rightarrow> u8 list fs_result) \<Rightarrow> (u32 \<Rightarrow> nat \<Rightarrow> u8 list \<Rightarrow> 'a \<Rightarrow> ('a, 'r) scan) \<Rightarrow> u32 list \<Rightarrow> 'a \<Rightarrow>
    ('a, 'r) scan fs_result" where
  "scan_sectors rd f [] a = Inr (Go a)"
| "scan_sectors rd f (lba # lbas) a =
     r_bind (rd lba) (\<lambda>sector. case scan_entries (f lba) sector [0..<16] a of
                                 Stop r \<Rightarrow> Inr (Stop r) | Go a1 \<Rightarrow> scan_sectors rd f lbas a1)"

partial_function (option) scan_chain :: "(u32 \<Rightarrow> u8 list fs_result) \<Rightarrow> (u32 \<Rightarrow> u32 fs_result) \<Rightarrow> fat12_bpb \<Rightarrow>
    (u32 \<Rightarrow> nat \<Rightarrow> u8 list \<Rightarrow> 'a \<Rightarrow> ('a, 'r) scan) \<Rightarrow> u32 \<Rightarrow> 'a \<Rightarrow> ('a, 'r) scan fs_result option" where
  "scan_chain rd nxt bpb f cluster a =
     (if 0xFF8 \<le> cluster then Some (Inr (Go a))
      else case scan_sectors rd f (cluster_lbas bpb cluster) a of
             Inl e \<Rightarrow> Some (Inl e)
           | Inr sc \<Rightarrow>
               (case sc of
                  Stop r \<Rightarrow> Some (Inr (Stop r))
                | Go a1 \<Rightarrow> (case nxt cluster of Inl e \<Rightarrow> Some (Inl e) | Inr c \<Rightarrow> scan_chain rd nxt bpb f c a1)))"

definition root_lbas :: "fat12_bpb \<Rightarrow> u32 list" where
  "root_lbas bpb = map (\<lambda>i. root_dir_lba bpb + of_nat i) [0..<unat (root_dir_sectors bpb)]"

definition scan_dir :: "(u32 \<Rightarrow> u8 list fs_result) \<Rightarrow> (u32 \<Rightarrow> u32 fs_result) \<Rightarrow> fat12_bpb \<Rightarrow>
    (u32 \<Rightarrow> nat \<Rightarrow> u8 list \<Rightarrow> 'a \<Rightarrow> ('a, 'r) scan) \<Rightarrow> u32 \<Rightarrow> 'a \<Rightarrow> ('a, 'r) scan fs_result option" where
  "scan_dir rd nxt bpb f dir_cluster a =
     (if dir_cluster = 0 then Some (scan_sectors rd f (root_lbas bpb) a) else scan_chain rd nxt bpb f dir_cluster a)"

text \<open>The result of a search that ends without a hit is an error.\<close>

definition scan_result :: "fs_error \<Rightarrow> ('a, 'r fs_result) scan fs_result option \<Rightarrow> 'r fs_result option" where
  "scan_result e sc = map_option (\<lambda>r. r_bind r (\<lambda>x. case x of Go _ \<Rightarrow> Inl e | Stop y \<Rightarrow> y)) sc"

definition dev_rd :: "'d block_device option \<Rightarrow> 'd \<Rightarrow> u32 \<Rightarrow> u8 list fs_result" where
  "dev_rd dev d lba = block_core_read dev lba 1 d"

definition dev_next :: "'d block_device option \<Rightarrow> fat12_bpb \<Rightarrow> 'd \<Rightarrow> u32 \<Rightarrow> u32 fs_result" where
  "dev_next dev bpb d cluster = r_bind (fat12_dev_get_fat_entry dev bpb cluster d) (\<lambda>v. Inr (ucast v))"

subsection \<open>Directories on a device\<close>

definition find_entry_step :: "u8 list \<Rightarrow> u32 \<Rightarrow> nat \<Rightarrow> u8 list \<Rightarrow> unit \<Rightarrow> (unit, (u32 \<times> u8 \<times> fat12_entry_ref) fs_result) scan" where
  "find_entry_step name83 lba i entry a =
     (let first = entry ! 0; attr = entry ! 11
      in if first = FAT12_ENTRY_FREE then Stop (Inl FS_ERR_NOT_FOUND)
         else if first = FAT12_ENTRY_DELETED \<or> attr AND FAT12_ATTR_VOLUME_ID \<noteq> 0 \<or> attr = FAT12_ATTR_LONG_NAME then Go a
         else if take 11 entry = name83
         then Stop (Inr (ucast (fat12_le16 entry 26), attr, \<lparr>ref_lba = lba, ref_offset = i * 32\<rparr>))
         else Go a)"

definition fat12_dev_find_entry :: "'d block_device option \<Rightarrow> fat12_bpb \<Rightarrow> u32 \<Rightarrow> u8 list \<Rightarrow> 'd \<Rightarrow>
    (u32 \<times> u8 \<times> fat12_entry_ref) fs_result option" where
  "fat12_dev_find_entry dev bpb dir_cluster name83 d =
     scan_result FS_ERR_NOT_FOUND (scan_dir (dev_rd dev d) (dev_next dev bpb d) bpb (find_entry_step name83) dir_cluster ())"

fun dev_resolve_loop :: "'d block_device option \<Rightarrow> fat12_bpb \<Rightarrow> string list \<Rightarrow> u32 \<Rightarrow> 'd \<Rightarrow> u32 fs_result option" where
  "dev_resolve_loop dev bpb [] current d = Some (Inr current)"
| "dev_resolve_loop dev bpb (component # cs) current d =
     (if FS_NAME_CAP \<le> length component then Some (Inl FS_ERR_INVALID)
      else case fat12_make_83_dir_name component of
             Inl e \<Rightarrow> Some (Inl e)
           | Inr name83 \<Rightarrow>
               Option.bind (fat12_dev_find_entry dev bpb current name83 d) (\<lambda>r.
                 case r of
                   Inl e \<Rightarrow> Some (Inl e)
                 | Inr (next_cluster, attr, _) \<Rightarrow>
                     if attr AND FAT12_ATTR_DIRECTORY = 0 then Some (Inl FS_ERR_NOT_DIR)
                     else dev_resolve_loop dev bpb cs next_cluster d))"

definition fat12_dev_resolve_dir :: "'d block_device option \<Rightarrow> fat12_bpb \<Rightarrow> string \<Rightarrow> 'd \<Rightarrow> u32 fs_result option" where
  "fat12_dev_resolve_dir dev bpb path d =
     (if path = [] \<or> hd path \<noteq> CHR ''/'' then Some (Inl FS_ERR_INVALID) else dev_resolve_loop dev bpb (path_comps path) 0 d)"

definition free_entry_step :: "u32 \<Rightarrow> nat \<Rightarrow> u8 list \<Rightarrow> unit \<Rightarrow> (unit, fat12_entry_ref fs_result) scan" where
  "free_entry_step lba i entry a =
     (if entry ! 0 = FAT12_ENTRY_FREE \<or> entry ! 0 = FAT12_ENTRY_DELETED
      then Stop (Inr \<lparr>ref_lba = lba, ref_offset = i * 32\<rparr>) else Go a)"

definition fat12_dev_find_free_entry :: "'d block_device option \<Rightarrow> fat12_bpb \<Rightarrow> u32 \<Rightarrow> 'd \<Rightarrow> fat12_entry_ref fs_result option" where
  "fat12_dev_find_free_entry dev bpb dir_cluster d =
     scan_result FS_ERR_NO_SPACE (scan_dir (dev_rd dev d) (dev_next dev bpb d) bpb free_entry_step dir_cluster ())"

text \<open>A directory entry, and writing it into a buffer.\<close>

definition put_at :: "nat \<Rightarrow> 'a list \<Rightarrow> 'a list \<Rightarrow> 'a list" where
  "put_at off bs xs = take off xs @ bs @ drop (off + length bs) xs"

definition dir_entry :: "u8 list \<Rightarrow> u8 \<Rightarrow> u16 \<Rightarrow> u32 \<Rightarrow> u8 list" where
  "dir_entry name83 attr cluster sz =
     name83 @ [attr] @ replicate 14 0 @ [ucast (cluster AND 0xFF), ucast (drop_bit 8 cluster AND 0xFF)] @
     [ucast (sz AND 0xFF), ucast (drop_bit 8 sz AND 0xFF), ucast (drop_bit 16 sz AND 0xFF), ucast (drop_bit 24 sz AND 0xFF)]"

definition fat12_image_write_dir_entry :: "nat \<Rightarrow> u8 list \<Rightarrow> u8 \<Rightarrow> u16 \<Rightarrow> u32 \<Rightarrow> u8 list \<Rightarrow> u8 list" where
  "fat12_image_write_dir_entry off name83 attr cluster sz buf = put_at off (dir_entry name83 attr cluster sz) buf"

definition fat12_dev_write_entry :: "'d block_device option \<Rightarrow> fat12_entry_ref \<Rightarrow> u8 list \<Rightarrow> u8 \<Rightarrow> u16 \<Rightarrow> u32 \<Rightarrow> 'd \<Rightarrow>
    unit fs_result \<times> 'd" where
  "fat12_dev_write_entry dev ref name83 attr cluster sz d =
     (if dev = None \<or> 480 < ref_offset ref then (Inl FS_ERR_INVALID, d)
      else case block_core_read dev (ref_lba ref) 1 d of
             Inl e \<Rightarrow> (Inl e, d)
           | Inr ws \<Rightarrow> block_core_write dev (ref_lba ref) 1 (fat12_image_write_dir_entry (ref_offset ref) name83 attr cluster sz ws) d)"

text \<open>Marking an entry as deleted, in \<open>fat12_core_unlink_on_device\<close> and \<open>fat12_rmdir\<close>.\<close>

definition delete_entry :: "'d block_device option \<Rightarrow> fat12_entry_ref \<Rightarrow> 'd \<Rightarrow> unit fs_result \<times> 'd" where
  "delete_entry dev ref d =
     (case block_core_read dev (ref_lba ref) 1 d of
        Inl e \<Rightarrow> (Inl e, d)
      | Inr ws \<Rightarrow> block_core_write dev (ref_lba ref) 1 (ws[ref_offset ref := FAT12_ENTRY_DELETED]) d)"

end
