(* ===== verification/Fat12_Ops.thy ===== *)
theory Fat12_Ops
  imports Fat12_Core
begin

text \<open>
  The operations of the FAT12 driver: creating directories, writing and removing files on a device,
  and the file system calls of the mounted volume.
\<close>

subsection \<open>Going on after a step\<close>

text \<open>A search that fails leaves the device as it is; a change of the device may fail half way.\<close>

definition ro_bind :: "'a fs_result option \<Rightarrow> 'd \<Rightarrow> ('a \<Rightarrow> ('b fs_result \<times> 'd) option) \<Rightarrow> ('b fs_result \<times> 'd) option" where
  "ro_bind r d f = Option.bind r (\<lambda>x. case x of Inl e \<Rightarrow> Some (Inl e, d) | Inr y \<Rightarrow> f y)"

definition os_bind :: "('a fs_result \<times> 'd) option \<Rightarrow> ('a \<Rightarrow> 'd \<Rightarrow> ('b fs_result \<times> 'd) option) \<Rightarrow> ('b fs_result \<times> 'd) option" where
  "os_bind r f = Option.bind r (\<lambda>(x, d). case x of Inl e \<Rightarrow> Some (Inl e, d) | Inr y \<Rightarrow> f y d)"

lemma ro_bind_simps [simp]: "ro_bind None d f = None" "ro_bind (Some (Inl e)) d f = Some (Inl e, d)" "ro_bind (Some (Inr x)) d f = f x"
  by (simp_all add: ro_bind_def)

lemma os_bind_simps [simp]: "os_bind None g = None" "os_bind (Some (Inl e, d)) g = Some (Inl e, d)" "os_bind (Some (Inr x, d)) g = g x d"
  by (simp_all add: os_bind_def)

subsection \<open>Calls on a device\<close>

text \<open>
  The start of the calls: the parameter block, the 8.3 form of the last name, and the cluster of the
  directory that holds it.
\<close>

definition fat12_locate :: "(string \<Rightarrow> u8 list fs_result) \<Rightarrow> 'd block_device option \<Rightarrow> string \<Rightarrow> 'd \<Rightarrow>
    (fat12_bpb \<times> u8 list \<times> u32) fs_result option" where
  "fat12_locate make83 dev path d =
     (case block_core_read dev 0 1 d of
        Inl e \<Rightarrow> Some (Inl e)
      | Inr ws \<Rightarrow>
          (case fat12_parse_bpb ws zero_bpb of
             (Inl e, _) \<Rightarrow> Some (Inl e)
           | (Inr _, bpb) \<Rightarrow>
               (case fat12_split_create_path path of
                  Inl e \<Rightarrow> Some (Inl e)
                | Inr (parent_path, leaf_name) \<Rightarrow>
                    (case make83 leaf_name of
                       Inl e \<Rightarrow> Some (Inl e)
                     | Inr leaf83 \<Rightarrow>
                         map_option (\<lambda>r. r_bind r (\<lambda>parent_cluster. Inr (bpb, leaf83, parent_cluster)))
                           (fat12_dev_resolve_dir dev bpb parent_path d)))))"

definition dot83 :: "u8 list" where
  "dot83 = 0x2E # replicate 10 0x20"

definition dotdot83 :: "u8 list" where
  "dotdot83 = [0x2E, 0x2E] @ replicate 9 0x20"

definition fat12_core_create_dir_on_device :: "'d block_device option \<Rightarrow> string \<Rightarrow> 'd \<Rightarrow> (unit fs_result \<times> 'd) option" where
  "fat12_core_create_dir_on_device dev path d =
     ro_bind (fat12_locate fat12_make_83_dir_name dev path d) d (\<lambda>(bpb, leaf83, parent_cluster).
       Option.bind (fat12_dev_find_entry dev bpb parent_cluster leaf83 d) (\<lambda>r.
         case r of
           Inr (_, attr, _) \<Rightarrow> Some (if attr AND FAT12_ATTR_DIRECTORY \<noteq> 0 then Inr () else Inl FS_ERR_EXISTS, d)
         | Inl e \<Rightarrow>
             if e \<noteq> FS_ERR_NOT_FOUND then Some (Inl e, d)
             else ro_bind (fat12_dev_find_free_entry dev bpb parent_cluster d) d (\<lambda>parent_ref.
               let (new_cluster, d1) = fat12_dev_alloc_cluster dev bpb d
               in if new_cluster = 0 then Some (Inl FS_ERR_NO_SPACE, d1)
                  else case fat12_dev_write_entry dev parent_ref leaf83 FAT12_ATTR_DIRECTORY (ucast new_cluster) 0 d1 of
                         (Inl e, d2) \<Rightarrow>
                           map_option (\<lambda>(_, d3). (Inl e, d3)) (fat12_dev_free_cluster_chain dev bpb new_cluster d2)
                       | (Inr _, d2) \<Rightarrow>
                           let lba = fat12_image_cluster_to_lba bpb new_cluster
                           in Some (s_bind (fat12_dev_write_entry dev \<lparr>ref_lba = lba, ref_offset = 0\<rparr> dot83
                                              FAT12_ATTR_DIRECTORY (ucast new_cluster) 0 d2)
                                 (\<lambda>_. fat12_dev_write_entry dev \<lparr>ref_lba = lba, ref_offset = 32\<rparr> dotdot83
                                        FAT12_ATTR_DIRECTORY (ucast parent_cluster) 0)))))"

text \<open>The sectors of one cluster, the last one padded with zeros; the data that is left over is returned.\<close>

fun write_sectors :: "'d block_device option \<Rightarrow> u32 list \<Rightarrow> char list \<Rightarrow> 'd \<Rightarrow> char list fs_result \<times> 'd" where
  "write_sectors dev [] data d = (Inr data, d)"
| "write_sectors dev (lba # lbas) data d =
     (if data = [] then (Inr [], d)
      else let bs = map byte_of (take 512 data)
           in s_bind (block_core_write dev lba 1 (bs @ replicate (512 - length bs) 0) d)
                (\<lambda>_. write_sectors dev lbas (drop 512 data)))"

definition write_no_space :: "'d block_device option \<Rightarrow> fat12_bpb \<Rightarrow> fat12_entry_ref \<Rightarrow> u8 list \<Rightarrow> bool \<Rightarrow> u32 \<Rightarrow> 'd \<Rightarrow> 'd option" where
  "write_no_space dev bpb ref leaf83 have_entry first d =
     Option.bind (if first \<noteq> 0 then map_option snd (fat12_dev_free_cluster_chain dev bpb first d) else Some d) (\<lambda>d1.
       Some (if have_entry then snd (fat12_dev_write_entry dev ref leaf83 0 0 0 d1) else d1))"

partial_function (option) write_clusters :: "'d block_device option \<Rightarrow> fat12_bpb \<Rightarrow> (u32 \<Rightarrow> 'd \<Rightarrow> 'd option) \<Rightarrow>
    char list \<Rightarrow> u32 \<Rightarrow> u32 \<Rightarrow> 'd \<Rightarrow> (u32 fs_result \<times> 'd) option" where
  "write_clusters dev bpb no_space data first prev d =
     (if data = [] then Some (Inr first, d)
      else case fat12_dev_alloc_cluster dev bpb d of
        (cluster, d1) \<Rightarrow>
          if cluster = 0 then map_option (\<lambda>d2. (Inl FS_ERR_NO_SPACE, d2)) (no_space first d1)
          else case (if prev \<noteq> 0 then fat12_dev_set_fat_entry dev bpb prev (ucast cluster) d1 else (Inr (), d1)) of
                 (Inl e, d2) \<Rightarrow> Some (Inl e, d2)
               | (Inr _, d2) \<Rightarrow>
                   (case write_sectors dev (cluster_lbas bpb cluster) data d2 of
                      (Inl e, d3) \<Rightarrow> Some (Inl e, d3)
                    | (Inr rest, d3) \<Rightarrow>
                        write_clusters dev bpb no_space rest (if first = 0 then cluster else first) cluster d3))"

definition fat12_core_write_file_on_device :: "'d block_device option \<Rightarrow> string \<Rightarrow> char list \<Rightarrow> 'd \<Rightarrow> (unit fs_result \<times> 'd) option" where
  "fat12_core_write_file_on_device dev path data d =
     ro_bind (fat12_locate fat12_make_83_file_name dev path d) d (\<lambda>(bpb, leaf83, parent_cluster).
       Option.bind (fat12_dev_find_entry dev bpb parent_cluster leaf83 d) (\<lambda>r.
         os_bind (case r of
                    Inr (old_cluster, attr, entry_ref) \<Rightarrow>
                      if attr AND FAT12_ATTR_DIRECTORY \<noteq> 0 then Some (Inl FS_ERR_EXISTS, d)
                      else if old_cluster \<noteq> 0
                      then os_bind (fat12_dev_free_cluster_chain dev bpb old_cluster d) (\<lambda>_ d1. Some (Inr (entry_ref, True), d1))
                      else Some (Inr (entry_ref, True), d)
                  | Inl e \<Rightarrow>
                      if e = FS_ERR_NOT_FOUND
                      then ro_bind (fat12_dev_find_free_entry dev bpb parent_cluster d) d (\<lambda>ref. Some (Inr (ref, False), d))
                      else Some (Inl e, d))
           (\<lambda>(entry_ref, have_entry) d1.
             os_bind (write_clusters dev bpb (write_no_space dev bpb entry_ref leaf83 have_entry) data 0 0 d1) (\<lambda>first_cluster d2.
               Some (fat12_dev_write_entry dev entry_ref leaf83 0 (ucast first_cluster) (of_nat (length data)) d2)))))"

definition fat12_core_unlink_on_device :: "'d block_device option \<Rightarrow> string \<Rightarrow> 'd \<Rightarrow> (unit fs_result \<times> 'd) option" where
  "fat12_core_unlink_on_device dev path d =
     ro_bind (fat12_locate fat12_make_83_file_name dev path d) d (\<lambda>(bpb, leaf83, parent_cluster).
       ro_bind (fat12_dev_find_entry dev bpb parent_cluster leaf83 d) d (\<lambda>(first_cluster, attr, entry_ref).
         if attr AND FAT12_ATTR_DIRECTORY \<noteq> 0 then Some (Inl FS_ERR_IS_DIR, d)
         else case delete_entry dev entry_ref d of
                (Inl e, d1) \<Rightarrow> Some (Inl e, d1)
              | (Inr _, d1) \<Rightarrow>
                  if first_cluster \<noteq> 0 then fat12_dev_free_cluster_chain dev bpb first_cluster d1 else Some (Inr (), d1)))"

subsection \<open>The mounted volume\<close>

abbreviation "FAT12_NAME_SLOTS \<equiv> 32 :: nat"
abbreviation "FAT12_OPEN_FILE_CAP \<equiv> 16 :: nat"
abbreviation "FAT12_WRITE_BUFFER_CAP \<equiv> 4096 :: nat"

record fat12_open_file =
  of_used :: bool
  of_cluster :: u32
  of_size :: u32
  of_flags :: u32
  of_path :: string

record 'd fat12 =
  g_fat12_dev :: "'d block_device option"
  g_fat12 :: fat12_bpb
  g_fat12_cwd :: string
  g_fat12_cwd_cluster :: u32
  g_fat12_open_files :: "nat \<Rightarrow> fat12_open_file"
  fat12_disk :: 'd

definition closed_file :: fat12_open_file where
  "closed_file = \<lparr>of_used = False, of_cluster = 0, of_size = 0, of_flags = 0, of_path = []\<rparr>"

definition fat12_core_mount :: "'d block_device option \<Rightarrow> 'd fat12 \<Rightarrow> unit fs_result \<times> 'd fat12" where
  "fat12_core_mount dev s0 =
     (let s = s0\<lparr>g_fat12_open_files := (\<lambda>_. closed_file)\<rparr>
      in case block_core_read dev 0 1 (fat12_disk s) of
           Inl e \<Rightarrow> (Inl e, s)
         | Inr sector \<Rightarrow>
             (case fat12_parse_bpb sector (g_fat12 s) of
                (Inl e, bpb) \<Rightarrow> (Inl e, s\<lparr>g_fat12 := bpb\<rparr>)
              | (Inr _, bpb) \<Rightarrow> (Inr (), s\<lparr>g_fat12 := bpb, g_fat12_dev := dev, g_fat12_cwd := ''/'', g_fat12_cwd_cluster := 0\<rparr>)))"

definition fat12_init :: "'d fat12 \<Rightarrow> unit fs_result" where
  "fat12_init s = (if g_fat12_dev s = None then Inl FS_ERR_INVALID else Inr ())"

definition fat12_core_buffer_bytes :: u32 where
  "fat12_core_buffer_bytes = 512 + 512 + 4096"

definition fat12_get_cwd_path :: "'d fat12 \<Rightarrow> string" where
  "fat12_get_cwd_path s = g_fat12_cwd s"

definition fat12_cluster_to_lba :: "u32 \<Rightarrow> 'd fat12 \<Rightarrow> u32" where
  "fat12_cluster_to_lba cluster s =
     (if cluster < 2 then root_dir_lba (g_fat12 s)
      else root_dir_lba (g_fat12 s) + root_dir_sectors (g_fat12 s) + (cluster - 2) * ucast (sectors_per_cluster (g_fat12 s)))"

text \<open>The entry of a cluster; a sector that cannot be read ends the chain.\<close>

definition fat12_get_next_cluster :: "u32 \<Rightarrow> 'd fat12 \<Rightarrow> u32" where
  "fat12_get_next_cluster cluster s =
     (let off = cluster + cluster div 2; sector = ucast (reserved_sectors (g_fat12 s)) + off div 512; byte_offset = unat (off mod 512)
      in case block_core_read (g_fat12_dev s) sector 1 (fat12_disk s) of
           Inl e \<Rightarrow> 0xFFF
         | Inr sec_buf \<Rightarrow>
             if byte_offset = 511
             then case block_core_read (g_fat12_dev s) (sector + 1) 1 (fat12_disk s) of
                    Inl e \<Rightarrow> 0xFFF
                  | Inr sec_buf1 \<Rightarrow> ucast (fat_decode cluster (sec_buf ! 511) (sec_buf1 ! 0))
             else ucast (fat_decode cluster (sec_buf ! byte_offset) (sec_buf ! (byte_offset + 1))))"

definition vol_rd :: "'d fat12 \<Rightarrow> u32 \<Rightarrow> u8 list fs_result" where
  "vol_rd s lba = block_core_read (g_fat12_dev s) lba 1 (fat12_disk s)"

definition vol_next :: "'d fat12 \<Rightarrow> u32 \<Rightarrow> u32 fs_result" where
  "vol_next s cluster = Inr (fat12_get_next_cluster cluster s)"

text \<open>Long name entries are collected until the entry they belong to.\<close>

definition find_name_step :: "string \<Rightarrow> u32 \<Rightarrow> nat \<Rightarrow> u8 list \<Rightarrow> lfn \<Rightarrow> (lfn, (u32 \<times> u8 \<times> u32) fs_result) scan" where
  "find_name_step name lba i entry l =
     (let first = entry ! 0; attr = entry ! 11
      in if first = FAT12_ENTRY_FREE then Stop (Inl FS_ERR_NOT_FOUND)
         else if first = FAT12_ENTRY_DELETED then Go None
         else if attr = FAT12_ATTR_LONG_NAME then Go (fat12_lfn_read_entry entry l)
         else if attr AND FAT12_ATTR_VOLUME_ID \<noteq> 0 then Go None
         else if fat12_name_eq (fat12_copy_display_name entry l) name
         then Stop (Inr (ucast (fat12_le16 entry 26), attr, fat12_le32 entry 28))
         else Go None)"

definition fat12_find_entry_in_dir :: "u32 \<Rightarrow> string \<Rightarrow> 'd fat12 \<Rightarrow> (u32 \<times> u8 \<times> u32) fs_result option" where
  "fat12_find_entry_in_dir dir_cluster name s =
     scan_result FS_ERR_NOT_FOUND (scan_dir (vol_rd s) (vol_next s) (g_fat12 s) (find_name_step name) dir_cluster None)"

fun resolve_info_loop :: "string list \<Rightarrow> u32 \<Rightarrow> bool \<Rightarrow> u32 \<Rightarrow> 'd fat12 \<Rightarrow> (u32 \<times> bool \<times> u32) fs_result option" where
  "resolve_info_loop [] cluster is_dir sz s = Some (Inr (cluster, is_dir, sz))"
| "resolve_info_loop (component # cs) cluster is_dir sz s =
     (if FS_NAME_CAP \<le> length component then Some (Inl FS_ERR_INVALID)
      else if fat12_streq component ''.'' then resolve_info_loop cs cluster is_dir sz s
      else if fat12_streq component ''..'' \<and> cluster = 0 then resolve_info_loop cs cluster is_dir sz s
      else Option.bind (fat12_find_entry_in_dir cluster component s) (\<lambda>r.
             case r of
               Inl e \<Rightarrow> Some (Inl e)
             | Inr (next_cluster, attr, next_size) \<Rightarrow>
                 if cs \<noteq> [] \<and> attr AND FAT12_ATTR_DIRECTORY = 0 then Some (Inl FS_ERR_NOT_DIR)
                 else resolve_info_loop cs next_cluster (attr AND FAT12_ATTR_DIRECTORY \<noteq> 0) next_size s))"

definition fat12_resolve_path_info :: "string \<Rightarrow> 'd fat12 \<Rightarrow> (u32 \<times> bool \<times> u32) fs_result option" where
  "fat12_resolve_path_info path s =
     (if path = [] then Some (Inl FS_ERR_INVALID)
      else resolve_info_loop (path_comps path) (if hd path = CHR ''/'' then 0 else g_fat12_cwd_cluster s) True 0 s)"

text \<open>The normalised path for the working directory; names and the whole path are cut to their capacity.\<close>

definition fat_cut :: "string \<Rightarrow> string" where
  "fat_cut temp =
     (let len = length (dropWhile (\<lambda>c. c \<noteq> CHR ''/'') (rev temp))
      in if 1 < len then take (len - 1) temp else if len = 1 then take 1 temp else [])"

definition fat_append :: "string \<Rightarrow> string \<Rightarrow> string" where
  "fat_append temp cname =
     (let temp1 = (if (temp = [] \<or> last temp \<noteq> CHR ''/'') \<and> length temp + 1 < FS_PATH_CAP then temp @ ''/'' else temp)
      in temp1 @ take (FS_PATH_CAP - 1 - length temp1) cname)"

definition fat_norm_step :: "string \<Rightarrow> string \<Rightarrow> string" where
  "fat_norm_step component temp =
     (let cname = take (FS_NAME_CAP - 1) component
      in if fat12_streq cname ''.'' then temp else if fat12_streq cname ''..'' then fat_cut temp else fat_append temp cname)"

definition fat12_normalize_path :: "string \<Rightarrow> 'd fat12 \<Rightarrow> string" where
  "fat12_normalize_path path s =
     (let temp = fold fat_norm_step (path_comps path)
                   (if path \<noteq> [] \<and> hd path = CHR ''/'' then [] else fat12_copy_string FS_PATH_CAP (g_fat12_cwd s))
      in if temp = [] then ''/'' else fat12_copy_string FS_PATH_CAP temp)"

definition fat12_change_dir :: "string \<Rightarrow> 'd fat12 \<Rightarrow> (unit fs_result \<times> 'd fat12) option" where
  "fat12_change_dir path s =
     (if path = [] then Some (Inl FS_ERR_INVALID, s)
      else ro_bind (fat12_resolve_path_info path s) s (\<lambda>(target_cluster, is_dir, _).
        if \<not> is_dir then Some (Inl FS_ERR_NOT_DIR, s)
        else Some (Inr (), s\<lparr>g_fat12_cwd_cluster := target_cluster,
                            g_fat12_cwd := fat12_copy_string FS_PATH_CAP (fat12_normalize_path path s)\<rparr>)))"

definition fat12_writable :: "'d fat12 \<Rightarrow> bool" where
  "fat12_writable s = (case g_fat12_dev s of None \<Rightarrow> False | Some b \<Rightarrow> dev_write b \<noteq> None)"

definition with_disk :: "'d fat12 \<Rightarrow> ('r fs_result \<times> 'd) option \<Rightarrow> ('r fs_result \<times> 'd fat12) option" where
  "with_disk s r = map_option (\<lambda>(x, d). (x, s\<lparr>fat12_disk := d\<rparr>)) r"

definition fat12_make_dir :: "string \<Rightarrow> 'd fat12 \<Rightarrow> (unit fs_result \<times> 'd fat12) option" where
  "fat12_make_dir path s =
     (if \<not> fat12_writable s then Some (Inl FS_ERR_READ_ONLY, s)
      else with_disk s (fat12_core_create_dir_on_device (g_fat12_dev s) path (fat12_disk s)))"

subsection \<open>Reading files\<close>

text \<open>
  The sectors of one cluster: \<open>off\<close> bytes are skipped, at most \<open>n\<close> bytes are copied. The result is what is left
  of the offset and the bytes.
\<close>

fun read_sectors :: "'d fat12 \<Rightarrow> u32 list \<Rightarrow> nat \<Rightarrow> nat \<Rightarrow> (nat \<times> char list) fs_result" where
  "read_sectors s [] off n = Inr (off, [])"
| "read_sectors s (lba # lbas) off n =
     (if n = 0 then Inr (off, [])
      else if 512 \<le> off then read_sectors s lbas (off - 512) n
      else r_bind (vol_rd s lba) (\<lambda>sector.
        let chunk = min (512 - off) n
        in r_bind (read_sectors s lbas 0 (n - chunk)) (\<lambda>(off1, bs).
             Inr (off1, map char_of_byte (take chunk (drop off sector)) @ bs))))"

definition vol_lbas :: "'d fat12 \<Rightarrow> u32 \<Rightarrow> u32 list" where
  "vol_lbas s cluster = map (\<lambda>i. fat12_cluster_to_lba cluster s + of_nat i) [0..<unat (sectors_per_cluster (g_fat12 s))]"

partial_function (option) read_clusters :: "'d fat12 \<Rightarrow> u32 \<Rightarrow> nat \<Rightarrow> nat \<Rightarrow> char list fs_result option" where
  "read_clusters s cluster off n =
     (if n = 0 then Some (Inr [])
      else if cluster < 2 \<or> 0xFF8 \<le> cluster then Some (Inl FS_ERR_INVALID)
      else case read_sectors s (vol_lbas s cluster) off n of
             Inl e \<Rightarrow> Some (Inl e)
           | Inr (off1, bs) \<Rightarrow>
               Option.bind (read_clusters s (fat12_get_next_cluster cluster s) off1 (n - length bs)) (\<lambda>r.
                 Some (r_bind r (\<lambda>bs1. Inr (bs @ bs1)))))"

definition fat12_read_file :: "string \<Rightarrow> nat \<Rightarrow> 'd fat12 \<Rightarrow> char list fs_result option" where
  "fat12_read_file path cap s =
     Option.bind (fat12_resolve_path_info path s) (\<lambda>r.
       case r of
         Inl e \<Rightarrow> Some (Inl e)
       | Inr (cluster, is_dir, sz) \<Rightarrow>
           if is_dir then Some (Inl FS_ERR_NOT_DIR)
           else if cap < unat sz then Some (Inl FS_ERR_NO_SPACE)
           else read_clusters s cluster 0 (unat sz))"

fun skip_clusters :: "nat \<Rightarrow> u32 \<Rightarrow> 'd fat12 \<Rightarrow> u32 fs_result" where
  "skip_clusters 0 cluster s = Inr cluster"
| "skip_clusters (Suc k) cluster s =
     (if cluster < 2 \<or> 0xFF8 \<le> cluster then Inl FS_ERR_INVALID else skip_clusters k (fat12_get_next_cluster cluster s) s)"

definition fat12_file :: "u32 \<Rightarrow> 'd fat12 \<Rightarrow> fat12_open_file fs_result" where
  "fat12_file node_id s =
     (if node_id = 0 \<or> of_nat FAT12_OPEN_FILE_CAP < node_id then Inl FS_ERR_INVALID
      else let f = g_fat12_open_files s (unat node_id - 1) in if of_used f then Inr f else Inl FS_ERR_INVALID)"

definition fat12_read :: "u32 \<Rightarrow> u32 \<Rightarrow> u32 \<Rightarrow> 'd fat12 \<Rightarrow> char list fs_result option" where
  "fat12_read node_id offset cap s =
     (case fat12_file node_id s of
        Inl e \<Rightarrow> Some (Inl e)
      | Inr f \<Rightarrow>
          if of_size f \<le> offset then Some (Inr [])
          else let target = min (unat (of_size f) - unat offset) (unat cap);
                   cluster_bytes = unat (sectors_per_cluster (g_fat12 s)) * 512
               in if target = 0 then Some (Inr [])
                  else case skip_clusters (unat offset div cluster_bytes) (of_cluster f) s of
                         Inl e \<Rightarrow> Some (Inl e)
                       | Inr cluster \<Rightarrow> read_clusters s cluster (unat offset mod cluster_bytes) target)"

subsection \<open>Opening and writing files\<close>

definition set_file :: "nat \<Rightarrow> fat12_open_file \<Rightarrow> 'd fat12 \<Rightarrow> 'd fat12" where
  "set_file i f s = s\<lparr>g_fat12_open_files := (g_fat12_open_files s)(i := f)\<rparr>"

definition fat12_take_slot :: "string \<Rightarrow> u32 \<Rightarrow> u32 \<Rightarrow> u32 \<Rightarrow> 'd fat12 \<Rightarrow> u32 fs_result \<times> 'd fat12" where
  "fat12_take_slot path flags cluster sz s =
     (case find (\<lambda>i. \<not> of_used (g_fat12_open_files s i)) [0..<FAT12_OPEN_FILE_CAP] of
        None \<Rightarrow> (Inl FS_ERR_NO_SPACE, s)
      | Some i \<Rightarrow>
          (Inr (of_nat i + 1),
           set_file i \<lparr>of_used = True, of_cluster = cluster, of_size = sz, of_flags = flags,
                       of_path = fat12_copy_string FS_PATH_CAP path\<rparr> s))"

definition can_write :: "u32 \<Rightarrow> bool" where
  "can_write flags = (let mode = flags AND FS_O_RDWR in mode = FS_O_WRONLY \<or> mode = FS_O_RDWR)"

definition fat12_open :: "string \<Rightarrow> u32 \<Rightarrow> 'd fat12 \<Rightarrow> (u32 fs_result \<times> 'd fat12) option" where
  "fat12_open path flags s =
     Option.bind (fat12_resolve_path_info path s) (\<lambda>r.
       os_bind (if r = Inl FS_ERR_NOT_FOUND \<and> flags AND FS_O_CREAT \<noteq> 0
                then if \<not> fat12_writable s then Some (Inl FS_ERR_READ_ONLY, s)
                     else if \<not> can_write flags then Some (Inl FS_ERR_INVALID, s)
                     else os_bind (with_disk s (fat12_core_write_file_on_device (g_fat12_dev s) path [] (fat12_disk s))) (\<lambda>_ s1.
                            map_option (\<lambda>r1. (r1, s1)) (fat12_resolve_path_info path s1))
                else Some (r, s))
         (\<lambda>(cluster, is_dir, sz) s1.
           if is_dir then Some (Inl FS_ERR_IS_DIR, s1)
           else if flags AND FS_O_TRUNC \<noteq> 0
           then if \<not> can_write flags then Some (Inl FS_ERR_INVALID, s1)
                else if \<not> fat12_writable s1 then Some (Inl FS_ERR_READ_ONLY, s1)
                else os_bind (with_disk s1 (fat12_core_write_file_on_device (g_fat12_dev s1) path [] (fat12_disk s1))) (\<lambda>_ s2.
                       Some (fat12_take_slot path flags 0 0 s2))
           else Some (fat12_take_slot path flags cluster sz s1)))"

definition fat12_write :: "u32 \<Rightarrow> u32 \<Rightarrow> char list \<Rightarrow> 'd fat12 \<Rightarrow> (u32 fs_result \<times> 'd fat12) option" where
  "fat12_write node_id offset buffer s =
     (case fat12_file node_id s of
        Inl e \<Rightarrow> Some (Inl e, s)
      | Inr f \<Rightarrow>
          if \<not> can_write (of_flags f) \<or> \<not> fat12_writable s then Some (Inl FS_ERR_READ_ONLY, s)
          else if buffer = [] then Some (Inr 0, s)
          else if FAT12_WRITE_BUFFER_CAP < unat offset \<or> FAT12_WRITE_BUFFER_CAP - unat offset < length buffer \<or>
                  FAT12_WRITE_BUFFER_CAP < unat (of_size f)
          then Some (Inl FS_ERR_NO_SPACE, s)
          else let i = unat node_id - 1 in
            ro_bind (if of_size f = 0 then Some (Inr []) else fat12_read_file (of_path f) FAT12_WRITE_BUFFER_CAP s) s (\<lambda>old.
              let f1 = f\<lparr>of_size := of_nat (length old)\<rparr>; s1 = set_file i f1 s
              in os_bind (with_disk s1 (fat12_core_write_file_on_device (g_fat12_dev s1) (of_path f)
                                          (write_at (unat offset) buffer old) (fat12_disk s1))) (\<lambda>_ s2.
                   ro_bind (fat12_resolve_path_info (of_path f) s2) s2 (\<lambda>(cluster, is_dir, actual_size).
                     if is_dir then Some (Inl FS_ERR_INVALID, s2)
                     else Some (Inr (of_nat (length buffer)), set_file i (f1\<lparr>of_cluster := cluster, of_size := actual_size\<rparr>) s2)))))"

definition fat12_size :: "u32 \<Rightarrow> 'd fat12 \<Rightarrow> u32 fs_result" where
  "fat12_size node_id s = r_bind (fat12_file node_id s) (\<lambda>f. Inr (of_size f))"

definition fat12_close :: "u32 \<Rightarrow> 'd fat12 \<Rightarrow> unit fs_result \<times> 'd fat12" where
  "fat12_close node_id s =
     (if node_id = 0 \<or> of_nat FAT12_OPEN_FILE_CAP < node_id then (Inl FS_ERR_INVALID, s)
      else (Inr (), set_file (unat node_id - 1) closed_file s))"

definition fat12_stat :: "string \<Rightarrow> 'd fat12 \<Rightarrow> fs_stat fs_result option" where
  "fat12_stat path s =
     map_option (\<lambda>r. r_bind r (\<lambda>(cluster, is_dir, sz).
       Inr \<lparr>st_mode = (if is_dir then FS_MODE_DIR else FS_MODE_FILE), st_size = (if is_dir then 0 else sz)\<rparr>))
       (fat12_resolve_path_info path s)"

definition fat12_fstat :: "u32 \<Rightarrow> 'd fat12 \<Rightarrow> fs_stat fs_result" where
  "fat12_fstat node_id s = r_bind (fat12_file node_id s) (\<lambda>f. Inr \<lparr>st_mode = FS_MODE_FILE, st_size = of_size f\<rparr>)"

subsection \<open>Removing files and directories\<close>

definition fat12_unlink :: "string \<Rightarrow> 'd fat12 \<Rightarrow> (unit fs_result \<times> 'd fat12) option" where
  "fat12_unlink path s =
     (if \<not> fat12_writable s then Some (Inl FS_ERR_READ_ONLY, s)
      else os_bind (with_disk s (fat12_core_unlink_on_device (g_fat12_dev s) path (fat12_disk s))) (\<lambda>_ s1.
        Some (Inr (), s1\<lparr>g_fat12_open_files := (\<lambda>i.
          let f = g_fat12_open_files s1 i
          in if i < FAT12_OPEN_FILE_CAP \<and> of_used f \<and> fat12_streq (of_path f) path then f\<lparr>of_used := False, of_path := []\<rparr> else f)\<rparr>)))"

text \<open>
  A directory sector without children: up to the first free entry there are only deleted entries, long
  names, volume labels and the two dot entries.
\<close>

definition no_child :: "u8 list \<Rightarrow> bool" where
  "no_child e =
     (e ! 0 = FAT12_ENTRY_DELETED \<or> e ! 11 = FAT12_ATTR_LONG_NAME \<or> e ! 11 AND FAT12_ATTR_VOLUME_ID \<noteq> 0 \<or>
      e ! 0 = 0x2E \<and> (e ! 1 = 0x20 \<or> e ! 1 = 0x2E))"

definition sector_empty :: "u8 list \<Rightarrow> bool" where
  "sector_empty sector = list_all no_child (takeWhile (\<lambda>e. e ! 0 \<noteq> FAT12_ENTRY_FREE) (map (entry_at sector) [0..<16]))"

fun sectors_empty :: "'d block_device option \<Rightarrow> u32 list \<Rightarrow> 'd \<Rightarrow> unit fs_result" where
  "sectors_empty dev [] d = Inr ()"
| "sectors_empty dev (lba # lbas) d =
     r_bind (block_core_read dev lba 1 d) (\<lambda>ws. if sector_empty ws then sectors_empty dev lbas d else Inl FS_ERR_NOT_EMPTY)"

text \<open>The walk visits at most \<open>left\<close> more clusters.\<close>

fun chain_empty :: "'d block_device option \<Rightarrow> fat12_bpb \<Rightarrow> nat \<Rightarrow> u32 \<Rightarrow> 'd \<Rightarrow> unit fs_result" where
  "chain_empty dev bpb left current d =
     (if current < 2 \<or> 0xFF8 \<le> current then Inr ()
      else case left of
             0 \<Rightarrow> Inl FS_ERR_INVALID
           | Suc left1 \<Rightarrow>
               r_bind (sectors_empty dev (cluster_lbas bpb current) d) (\<lambda>_.
                 r_bind (fat12_dev_get_fat_entry dev bpb current d) (\<lambda>nxt. chain_empty dev bpb left1 (ucast nxt) d)))"

definition fat12_rmdir :: "string \<Rightarrow> 'd fat12 \<Rightarrow> (unit fs_result \<times> 'd fat12) option" where
  "fat12_rmdir path s =
     (if \<not> fat12_writable s then Some (Inl FS_ERR_READ_ONLY, s)
      else if fat12_streq path ''/'' \<or> fat12_streq path (g_fat12_cwd s) then Some (Inl FS_ERR_INVALID, s)
      else let dev = g_fat12_dev s; d = fat12_disk s in
        with_disk s (ro_bind (fat12_locate fat12_make_83_dir_name dev path d) d (\<lambda>(bpb, name83, parent_cluster).
          ro_bind (fat12_dev_find_entry dev bpb parent_cluster name83 d) d (\<lambda>(first_cluster, attr, ref).
            if attr AND FAT12_ATTR_DIRECTORY = 0 \<or> first_cluster < 2 then Some (Inl FS_ERR_NOT_DIR, d)
            else case chain_empty dev bpb 4096 first_cluster d of
                   Inl e \<Rightarrow> Some (Inl e, d)
                 | Inr _ \<Rightarrow>
                     (case delete_entry dev ref d of
                        (Inl e, d1) \<Rightarrow> Some (Inl e, d1)
                      | (Inr _, d1) \<Rightarrow> fat12_dev_free_cluster_chain dev bpb first_cluster d1)))))"

subsection \<open>Listing a directory\<close>

definition list_step :: "nat \<Rightarrow> u32 \<Rightarrow> nat \<Rightarrow> u8 list \<Rightarrow> lfn \<times> fs_dirent list \<Rightarrow> (lfn \<times> fs_dirent list, fs_dirent list fs_result) scan" where
  "list_step cap lba i entry a =
     (case a of (l, entries) \<Rightarrow>
        let first = entry ! 0; attr = entry ! 11
        in if first = FAT12_ENTRY_FREE then Stop (Inr entries)
           else if first = FAT12_ENTRY_DELETED then Go (None, entries)
           else if attr = FAT12_ATTR_LONG_NAME then Go (fat12_lfn_read_entry entry l, entries)
           else if attr AND FAT12_ATTR_VOLUME_ID \<noteq> 0 then Go (None, entries)
           else if cap \<le> length entries \<or> FAT12_NAME_SLOTS \<le> length entries then Stop (Inl FS_ERR_NO_SPACE)
           else Go (None, entries @ [\<lparr>ent_name = fat12_copy_display_name entry l,
                                      ent_type = (if attr AND FAT12_ATTR_DIRECTORY \<noteq> 0 then FS_NODE_DIR else FS_NODE_FILE)\<rparr>]))"

definition fat12_list_dir :: "string \<Rightarrow> nat \<Rightarrow> 'd fat12 \<Rightarrow> fs_dirent list fs_result option" where
  "fat12_list_dir path cap s =
     Option.bind (if path \<noteq> [] \<and> \<not> fat12_streq path ''.''
                  then map_option (\<lambda>r. r_bind r (\<lambda>(cluster, is_dir, _). if is_dir then Inr cluster else Inl FS_ERR_NOT_DIR))
                         (fat12_resolve_path_info path s)
                  else Some (Inr (g_fat12_cwd_cluster s))) (\<lambda>r.
       case r of
         Inl e \<Rightarrow> Some (Inl e)
       | Inr target_cluster \<Rightarrow>
           map_option (\<lambda>r1. r_bind r1 (\<lambda>sc. case sc of Go (_, entries) \<Rightarrow> Inr entries | Stop y \<Rightarrow> y))
             (scan_dir (vol_rd s) (vol_next s) (g_fat12 s) (list_step cap) target_cluster (None, [])))"

end
