(* ===== verification/Floppy_Cache.thy ===== *)
theory Floppy_Cache
  imports Block_Dev
begin

text \<open>
  The boot floppy is a disk: the copies of the boot sector, the allocation table and the root directory
  in memory stay equal to the sectors on the medium, so that a read gives what was written last. The
  driver of the controller is a parameter; \<open>V h i\<close> is sector \<open>i\<close> of the medium in the state \<open>h\<close> of the hardware.
\<close>

subsection \<open>The contract of the controller\<close>

definition controller_ok :: "('h \<Rightarrow> nat \<Rightarrow> u8 list) \<Rightarrow> 'h floppy_ops \<Rightarrow> bool" where
  "controller_ok V ops \<longleftrightarrow>
     read_sector ops = Some (\<lambda>lba h. Inr (V h (unat lba))) \<and> (\<forall>h. \<forall>i < 2880. length (V h i) = 512) \<and>
     (\<exists>wr. write_sector ops = Some wr \<and>
       (\<forall>h lba bs. lba < FLOPPY_SECTORS \<and> length bs = 512 \<longrightarrow>
          (\<exists>h'. wr bs lba h = (Inr (), h') \<and> V h' = (V h)(unat lba := bs))))"

subsection \<open>The cached sectors\<close>

definition cache_addr :: "floppy_boot_info \<Rightarrow> u32 \<Rightarrow> u32 option" where
  "cache_addr info lba =
     (if lba = 0 then Some (boot_sector_addr info)
      else if fat_lba info \<le> lba \<and> lba < fat_lba info + fat_sectors info then Some (fat_addr info + (lba - fat_lba info) * 512)
      else if root_lba info \<le> lba \<and> lba < root_lba info + root_sectors info
      then Some (root_dir_addr info + (lba - root_lba info) * 512)
      else None)"

definition cache_disjoint :: "floppy_boot_info \<Rightarrow> bool" where
  "cache_disjoint info \<longleftrightarrow>
     (\<forall>l l' a a' x. l \<noteq> l' \<and> cache_addr info l = Some a \<and> cache_addr info l' = Some a' \<and> in_range a 512 x \<longrightarrow> \<not> in_range a' 512 x)"

definition coherent :: "('h \<Rightarrow> nat \<Rightarrow> u8 list) \<Rightarrow> floppy_boot_info \<Rightarrow> 'h floppy \<Rightarrow> bool" where
  "coherent V info f \<longleftrightarrow>
     (\<forall>lba a. lba < FLOPPY_SECTORS \<and> cache_addr info lba = Some a \<longrightarrow> mem_sector (fmem f) a = V (hardware f) (unat lba))"

definition floppy_ok :: "('h \<Rightarrow> nat \<Rightarrow> u8 list) \<Rightarrow> floppy_boot_info \<Rightarrow> 'h floppy \<Rightarrow> bool" where
  "floppy_ok V info f \<longleftrightarrow>
     (\<exists>ops. controller f = Some ops \<and> controller_ok V ops) \<and> boot_sector_addr info \<noteq> 0 \<and> cache_disjoint info \<and> coherent V info f"

definition floppy_sec :: "('h \<Rightarrow> nat \<Rightarrow> u8 list) \<Rightarrow> 'h floppy \<Rightarrow> nat \<Rightarrow> u8 list" where
  "floppy_sec V f = V (hardware f)"

lemma cached_read_one_addr:
  "cached_read_one info lba f =
     (case cache_addr info lba of Some a \<Rightarrow> Inr (mem_sector (fmem f) a) | None \<Rightarrow> floppy_controller_read_sector lba f)"
  by (simp add: cached_read_one_def cache_addr_def)

lemma cached_write_one_addr:
  "boot_sector_addr info \<noteq> 0 \<Longrightarrow>
   cached_write_one info lba bs f =
     floppy_controller_write_sector bs lba
       (case cache_addr info lba of Some a \<Rightarrow> f\<lparr>fmem := put_sector a bs (fmem f)\<rparr> | None \<Rightarrow> f)"
  by (simp add: cached_write_one_def cache_addr_def)

lemma mem_sector_put: "length bs = 512 \<Longrightarrow> mem_sector (put_sector a bs m) a = bs"
  using bytes_at_put [of "map char_of_byte bs" a m] by (simp add: mem_sector_def put_sector_def comp_def)

lemma mem_sector_other:
  assumes "length bs = 512" and dis: "\<And>x. in_range a 512 x \<Longrightarrow> \<not> in_range a' 512 x"
  shows "mem_sector (put_sector a' bs m) a = mem_sector m a"
proof -
  have "put_sector a' bs m (a + of_nat i) = m (a + of_nat i)" if "i < 512" for i
  proof -
    have "in_range a 512 (a + of_nat i)" using that by (simp add: in_range_def unat_of_nat_u32)
    then show ?thesis using put_bytes_outside [of "map char_of_byte bs" a' "a + of_nat i" m] dis assms(1) by (simp add: put_sector_def)
  qed
  then show ?thesis by (simp add: mem_sector_def bytes_at_def)
qed

subsection \<open>Reading and writing one sector\<close>

lemma floppy_read_one:
  assumes ok: "floppy_ok V info f" and lba: "lba < FLOPPY_SECTORS"
  shows "cached_read_one info lba f = Inr (V (hardware f) (unat lba))"
proof (cases "cache_addr info lba")
  case None
  obtain ops where ops: "controller f = Some ops" "controller_ok V ops" using ok by (auto simp: floppy_ok_def)
  then have "floppy_controller_read_sector lba f = Inr (V (hardware f) (unat lba))"
    using lba by (simp add: floppy_controller_read_sector_def controller_ok_def)
  then show ?thesis using None by (simp add: cached_read_one_addr)
next
  case (Some a)
  then have "mem_sector (fmem f) a = V (hardware f) (unat lba)" using ok lba by (simp add: floppy_ok_def coherent_def)
  then show ?thesis using Some by (simp add: cached_read_one_addr)
qed

lemma coherent_write:
  assumes ok: "floppy_ok V info f" and lba: "lba < FLOPPY_SECTORS" and len: "length bs = 512"
    and m: "m = (case cache_addr info lba of Some a \<Rightarrow> put_sector a bs (fmem f) | None \<Rightarrow> fmem f)"
    and h: "V h = (V (hardware f))(unat lba := bs)"
  shows "coherent V info (f\<lparr>fmem := m, hardware := h\<rparr>)"
  unfolding coherent_def
proof (intro allI impI, elim conjE)
  fix l a assume l: "l < FLOPPY_SECTORS" and a: "cache_addr info l = Some a"
  have old: "mem_sector (fmem f) a = V (hardware f) (unat l)" using ok l a by (simp add: floppy_ok_def coherent_def)
  show "mem_sector (fmem (f\<lparr>fmem := m, hardware := h\<rparr>)) a = V (hardware (f\<lparr>fmem := m, hardware := h\<rparr>)) (unat l)"
  proof (cases "l = lba")
    case True
    then show ?thesis using a m h len by (simp add: mem_sector_put)
  next
    case False
    then have ne: "unat l \<noteq> unat lba" by (auto dest: unsigned_word_eqI)
    have dj: "cache_disjoint info" using ok by (simp add: floppy_ok_def)
    show ?thesis
    proof (cases "cache_addr info lba")
      case None
      then show ?thesis using old m h ne by simp
    next
      case (Some a')
      have "mem_sector (put_sector a' bs (fmem f)) a = mem_sector (fmem f) a"
      proof (rule mem_sector_other [OF len])
        show "\<not> in_range a' 512 x" if "in_range a 512 x" for x
          using dj [unfolded cache_disjoint_def, rule_format, of l lba a a' x] False a Some that by simp
      qed
      then show ?thesis using old m h ne Some by simp
    qed
  qed
qed

lemma floppy_write_one:
  assumes ok: "floppy_ok V info f" and lba: "lba < FLOPPY_SECTORS" and len: "length bs = 512"
  shows "\<exists>f'. cached_write_one info lba bs f = (Inr (), f') \<and> floppy_ok V info f' \<and>
    floppy_sec V f' = (floppy_sec V f)(unat lba := bs)"
proof -
  let ?m = "case cache_addr info lba of Some a \<Rightarrow> put_sector a bs (fmem f) | None \<Rightarrow> fmem f"
  obtain ops where ops: "controller f = Some ops" "controller_ok V ops" using ok by (auto simp: floppy_ok_def)
  obtain wr where wr: "write_sector ops = Some wr" using ops(2) by (auto simp: controller_ok_def)
  then obtain h where h: "wr bs lba (hardware f) = (Inr (), h)" "V h = (V (hardware f))(unat lba := bs)"
    using ops(2) lba len unfolding controller_ok_def by (metis option.inject)
  have b: "boot_sector_addr info \<noteq> 0" "cache_disjoint info" using ok by (simp_all add: floppy_ok_def)
  have f: "(case cache_addr info lba of Some a \<Rightarrow> f\<lparr>fmem := put_sector a bs (fmem f)\<rparr> | None \<Rightarrow> f) = f\<lparr>fmem := ?m\<rparr>"
    by (cases "cache_addr info lba") simp_all
  have "cached_write_one info lba bs f = (Inr (), f\<lparr>fmem := ?m, hardware := h\<rparr>)"
    using ops(1) wr h(1) lba by (simp add: cached_write_one_addr [OF b(1)] f floppy_controller_write_sector_def)
  moreover have "floppy_ok V info (f\<lparr>fmem := ?m, hardware := h\<rparr>)"
    using ops b coherent_write [of V info f lba bs ?m h, OF ok lba len refl h(2)] by (simp add: floppy_ok_def)
  moreover have "floppy_sec V (f\<lparr>fmem := ?m, hardware := h\<rparr>) = (floppy_sec V f)(unat lba := bs)"
    using h(2) by (simp add: floppy_sec_def fun_upd_def)
  ultimately show ?thesis by blast
qed

interpretation boot_floppy: disk "boot_floppy_device (Some info)" "floppy_ok V info" "floppy_sec V" 2880
  for V :: "'h \<Rightarrow> nat \<Rightarrow> u8 list" and info
proof unfold_locales
  have range: "lba < FLOPPY_SECTORS" if "unat lba < 2880" for lba using that by (simp add: word_less_nat_alt)
  have inside: "\<not> FLOPPY_SECTORS - lba < 1" if "unat lba < 2880" for lba :: u32
    using that range [OF that] by (simp add: word_less_nat_alt unat_sub word_le_nat_alt)
  show "2880 < (2 :: nat) ^ 32" by simp
  show "sector_count (boot_floppy_device (Some info)) = of_nat 2880" by (simp add: boot_floppy_device_def)
  show "length (floppy_sec V f i) = 512" if "floppy_ok V info f" "i < 2880" for f i
    using that by (auto simp: floppy_ok_def controller_ok_def floppy_sec_def)
  show "block_core_read (Some (boot_floppy_device (Some info))) lba 1 f = Inr (floppy_sec V f (unat lba))"
    if "floppy_ok V info f" "unat lba < 2880" for f lba
    using floppy_read_one [OF that(1) range [OF that(2)]] inside [OF that(2)] range [OF that(2)]
    by (simp add: block_core_read_def boot_floppy_device_def fs_cached_floppy_read_def floppy_sec_def)
  show "\<exists>f'. block_core_write (Some (boot_floppy_device (Some info))) lba 1 bs f = (Inr (), f') \<and> floppy_ok V info f' \<and>
      floppy_sec V f' = (floppy_sec V f)(unat lba := bs)"
    if "floppy_ok V info f" "unat lba < 2880" "length bs = 512" for f lba bs
    using floppy_write_one [OF that(1) range [OF that(2)] that(3)] inside [OF that(2)] range [OF that(2)] that(3)
    by (auto simp: block_core_write_def boot_floppy_device_def fs_cached_floppy_write_def)
qed

subsection \<open>A floppy that meets the contract\<close>

text \<open>The three cached areas one after the other in memory and on the medium do not overlap.\<close>

definition cache_layout :: "floppy_boot_info \<Rightarrow> bool" where
  "cache_layout info \<longleftrightarrow>
     0 < boot_sector_addr info \<and> unat (boot_sector_addr info) + 512 \<le> unat (fat_addr info) \<and>
     unat (fat_addr info) + 512 * unat (fat_sectors info) \<le> unat (root_dir_addr info) \<and>
     unat (root_dir_addr info) + 512 * unat (root_sectors info) \<le> 2 ^ 32 \<and>
     0 < fat_lba info \<and> unat (fat_lba info) + unat (fat_sectors info) \<le> unat (root_lba info) \<and>
     unat (root_lba info) + unat (root_sectors info) \<le> 2880"

text \<open>The bytes of a cached sector, as numbers.\<close>

definition cache_at :: "floppy_boot_info \<Rightarrow> u32 \<Rightarrow> nat" where
  "cache_at info l =
     (if l = 0 then unat (boot_sector_addr info)
      else if unat l < unat (fat_lba info) + unat (fat_sectors info) then unat (fat_addr info) + 512 * (unat l - unat (fat_lba info))
      else unat (root_dir_addr info) + 512 * (unat l - unat (root_lba info)))"

lemma area_addr:
  fixes a l first :: u32
  assumes "first \<le> l" "unat a + 512 * (unat l - unat first) < 2 ^ 32"
  shows "unat (a + (l - first) * 512) = unat a + 512 * (unat l - unat first)"
proof -
  have d: "unat (l - first) = unat l - unat first" using assms(1) by (simp add: unat_sub word_le_nat_alt)
  have m: "unat ((l - first) * 512) = 512 * (unat l - unat first)" unfolding unat_word_ariths(2) d using assms(2) by simp
  have "unat a + unat ((l - first) * 512) < 2 ^ 32" unfolding m by (rule assms(2))
  then have "unat (a + (l - first) * 512) = unat a + unat ((l - first) * 512)" by (intro unat_add_no_wrap) simp
  then show ?thesis unfolding m .
qed

lemma cache_addr_at:
  assumes lay: "cache_layout info" and a: "cache_addr info l = Some a"
  shows "unat a = cache_at info l" "cache_at info l + 512 \<le> 2 ^ 32"
    "l \<noteq> 0 \<Longrightarrow> unat (fat_lba info) \<le> unat l"
    "unat (fat_lba info) + unat (fat_sectors info) \<le> unat l \<Longrightarrow> unat (root_lba info) \<le> unat l"
    "unat l < unat (root_lba info) + unat (root_sectors info)"
proof -
  note lay' = lay [unfolded cache_layout_def]
  have sums: "unat (fat_lba info + fat_sectors info) = unat (fat_lba info) + unat (fat_sectors info)"
    "unat (root_lba info + root_sectors info) = unat (root_lba info) + unat (root_sectors info)"
    using lay' by (simp_all add: unat_add_no_wrap)
  have l: "l \<noteq> 0 \<Longrightarrow> 0 < unat l" "0 < unat (fat_lba info)" using lay' by (simp_all add: word_less_nat_alt unat_gt_0)
  consider "l = 0" "a = boot_sector_addr info"
    | "l \<noteq> 0" "unat (fat_lba info) \<le> unat l" "unat l < unat (fat_lba info) + unat (fat_sectors info)" "a = fat_addr info + (l - fat_lba info) * 512"
    | "l \<noteq> 0" "\<not> (unat (fat_lba info) \<le> unat l \<and> unat l < unat (fat_lba info) + unat (fat_sectors info))"
      "unat (root_lba info) \<le> unat l" "unat l < unat (root_lba info) + unat (root_sectors info)" "a = root_dir_addr info + (l - root_lba info) * 512"
    using a by (auto simp: cache_addr_def word_le_nat_alt word_less_nat_alt sums split: if_splits)
  then have "unat a = cache_at info l \<and> cache_at info l + 512 \<le> 2 ^ 32 \<and> (l \<noteq> 0 \<longrightarrow> unat (fat_lba info) \<le> unat l) \<and>
    (unat (fat_lba info) + unat (fat_sectors info) \<le> unat l \<longrightarrow> unat (root_lba info) \<le> unat l) \<and>
    unat l < unat (root_lba info) + unat (root_sectors info)"
  proof cases
    case 1
    then show ?thesis using lay' l by (simp add: cache_at_def)
  next
    case 2
    then have "unat (fat_addr info) + 512 * (unat l - unat (fat_lba info)) + 512 \<le> 2 ^ 32" using lay' by linarith
    then show ?thesis using 2 lay' area_addr [of "fat_lba info" l "fat_addr info"] by (simp add: cache_at_def word_le_nat_alt)
  next
    case 3
    then have "unat (root_dir_addr info) + 512 * (unat l - unat (root_lba info)) + 512 \<le> 2 ^ 32" using lay' by linarith
    then show ?thesis using 3 lay' area_addr [of "root_lba info" l "root_dir_addr info"] by (simp add: cache_at_def word_le_nat_alt)
  qed
  then show "unat a = cache_at info l" "cache_at info l + 512 \<le> 2 ^ 32" "l \<noteq> 0 \<Longrightarrow> unat (fat_lba info) \<le> unat l"
    "unat (fat_lba info) + unat (fat_sectors info) \<le> unat l \<Longrightarrow> unat (root_lba info) \<le> unat l"
    "unat l < unat (root_lba info) + unat (root_sectors info)" by blast+
qed

lemma cache_at_apart:
  assumes lay: "cache_layout info" and "cache_addr info l = Some a" "cache_addr info l' = Some a'" and lt: "unat l < unat l'"
  shows "cache_at info l + 512 \<le> cache_at info l'"
proof -
  note lay' = lay [unfolded cache_layout_def]
  note c = cache_addr_at(3-5) [OF lay assms(2)] and c' = cache_addr_at(3-5) [OF lay assms(3)]
  have "l' \<noteq> 0" using lt by auto
  then show ?thesis using c c' lt lay' unfolding cache_at_def by (cases "l = 0") (simp_all, linarith+)
qed

lemma cache_layout_disjoint:
  assumes "cache_layout info"
  shows "cache_disjoint info"
  unfolding cache_disjoint_def
proof (intro allI impI, elim conjE)
  fix l l' a a' x
  assume l: "l \<noteq> l'" and a: "cache_addr info l = Some a" and a': "cache_addr info l' = Some a'" and x: "in_range a 512 x"
  note c = cache_addr_at(1,2) [OF assms a] and c' = cache_addr_at(1,2) [OF assms a']
  have "unat l < unat l' \<or> unat l' < unat l" using l by (metis linorder_neqE_nat unsigned_word_eqI)
  then have "cache_at info l + 512 \<le> cache_at info l' \<or> cache_at info l' + 512 \<le> cache_at info l"
    using cache_at_apart [OF assms a a'] cache_at_apart [OF assms a' a] by blast
  then show "\<not> in_range a' 512 x" using x c c' in_range_iff [of a 512 x] in_range_iff [of a' 512 x] by auto
qed

text \<open>A controller whose hardware is the medium itself, a place for the cached areas, and a medium of zeros.\<close>

definition medium_view :: "(nat \<Rightarrow> u8 list) \<Rightarrow> nat \<Rightarrow> u8 list" where
  "medium_view h i = take 512 (h i @ replicate 512 0)"

definition medium_ops :: "(nat \<Rightarrow> u8 list) floppy_ops" where
  "medium_ops = \<lparr>abi_version = SYSTEM_FLOPPY_ABI, read_sector = Some (\<lambda>lba h. Inr (medium_view h (unat lba))),
     write_sector = Some (\<lambda>bs lba h. (Inr (), h(unat lba := bs))), reset_state = Some id\<rparr>"

definition demo_info :: floppy_boot_info where
  "demo_info = \<lparr>boot_sector_addr = 0x7C00, fat_addr = 0x8000, root_dir_addr = 0xB000, fat_lba = 1, fat_sectors = 18,
     root_lba = 19, root_sectors = 14\<rparr>"

definition blank_floppy :: "(nat \<Rightarrow> u8 list) floppy" where
  "blank_floppy = \<lparr>controller = Some medium_ops, hardware = (\<lambda>_. replicate 512 0), fmem = (\<lambda>_. CHR 0x00)\<rparr>"

lemma medium_controller: "controller_ok medium_view medium_ops"
proof -
  have "medium_view (h(i := bs)) = (medium_view h)(i := bs)" if "length bs = 512" for h i bs
    using that by (simp add: medium_view_def fun_eq_iff)
  moreover have "length (medium_view h i) = 512" for h i unfolding medium_view_def length_take length_append length_replicate by simp
  ultimately show ?thesis by (simp add: controller_ok_def medium_ops_def)
qed

lemma blank_floppy_ok: "floppy_ok medium_view demo_info blank_floppy"
proof -
  have "cache_layout demo_info" by (simp add: cache_layout_def demo_info_def)
  moreover have "byte_of (CHR 0x00) = 0" by (simp add: byte_of_def)
  then have "mem_sector (\<lambda>_. CHR 0x00) a = replicate 512 0" for a
    by (simp add: mem_sector_def bytes_at_def map_replicate_const)
  then have "coherent medium_view demo_info blank_floppy" by (simp add: coherent_def blank_floppy_def medium_view_def)
  moreover have "boot_sector_addr demo_info \<noteq> 0" by (simp add: demo_info_def)
  moreover have "controller blank_floppy = Some medium_ops" by (simp add: blank_floppy_def)
  ultimately show ?thesis using cache_layout_disjoint medium_controller by (simp add: floppy_ok_def)
qed

end
