(* ===== verification/Fat12_Table.thy ===== *)
theory Fat12_Table
  imports Fat12_Ops Floppy_Cache
begin

text \<open>
  The allocation table on a disk: setting the entry of a cluster changes this entry and no other, in
  every copy of the table, also where an entry spans two sectors or shares a byte with its neighbour;
  freeing a chain ends and frees its clusters. The lemmas are proved for every \<open>disk\<close> and hold for the boot floppy.
\<close>

subsection \<open>Twelve bits in two bytes\<close>

lemma fat_masks:
  "(0xFFF :: u16) = mask 12" "(0xFF :: u16) = mask 8" "(0x0F :: u16) = mask 4" "(0xF0 :: u16) = push_bit 4 (mask 4)"
  "(0x0F :: u8) = mask 4" "(0xF0 :: u8) = push_bit 4 (mask 4)"
  by (simp_all add: mask_eq_exp_minus_1)

lemma fat_decode_set: "fat_decode c (fat_low c v lo) (fat_high c v hi) = v AND 0x0FFF"
proof (cases "c AND 1 \<noteq> 0")
  case True
  then show ?thesis unfolding fat_decode_def fat_low_def fat_high_def fat_masks
    apply (simp add: Let_def)
    apply (rule bit_word_eqI)
    subgoal for n by (cases "n < 4") (auto simp: bit_simps)
    done
next
  case False
  then show ?thesis unfolding fat_decode_def fat_low_def fat_high_def fat_masks
    by (simp add: Let_def) (rule bit_word_eqI, auto simp: bit_simps)
qed

text \<open>The byte an even cluster shares with the next one: each keeps the other's half.\<close>

lemma fat_decode_low: "c AND 1 = 0 \<Longrightarrow> c' AND 1 \<noteq> 0 \<Longrightarrow> fat_decode c lo (fat_low c' v hi) = fat_decode c lo hi"
  unfolding fat_decode_def fat_low_def fat_masks by (simp add: Let_def) (rule bit_word_eqI, auto simp: bit_simps)

lemma fat_decode_high: "c AND 1 \<noteq> 0 \<Longrightarrow> c' AND 1 = 0 \<Longrightarrow> fat_decode c (fat_high c' v lo) hi = fat_decode c lo hi"
  unfolding fat_decode_def fat_high_def fat_masks by (simp add: Let_def) (rule bit_word_eqI, auto simp: bit_simps dest: bit_imp_le_length)


subsection \<open>Bytes of a disk\<close>

text \<open>The place of an entry in its table.\<close>

definition fat_off :: "u32 \<Rightarrow> nat" where
  "fat_off c = unat c + unat c div 2"

definition fat_at :: "fat12_bpb \<Rightarrow> nat \<Rightarrow> u32 \<Rightarrow> nat" where
  "fat_at bpb k c = (unat (reserved_sectors bpb) + k * unat (sectors_per_fat bpb)) * 512 + fat_off c"

definition in_table :: "fat12_bpb \<Rightarrow> u32 \<Rightarrow> bool" where
  "in_table bpb c \<longleftrightarrow> c < 0x1000 \<and> fat_off c + 1 < unat (sectors_per_fat bpb) * 512"

definition table_fits :: "fat12_bpb \<Rightarrow> nat \<Rightarrow> bool" where
  "table_fits bpb n \<longleftrightarrow>
     0 < fat_count bpb \<and> unat (reserved_sectors bpb) + unat (fat_count bpb) * unat (sectors_per_fat bpb) \<le> n"

lemma fat_off_word:
  assumes "c < 0x1000"
  shows "unat (c + c div 2) = fat_off c"
proof -
  have "unat c < 4096" using assms by (simp add: word_less_nat_alt)
  then have "unat c + unat c div 2 < 2 ^ 32" by simp
  then show ?thesis by (simp add: fat_off_def unat_add_no_wrap unat_div)
qed

lemma half_offset: "\<exists>k. (a :: nat) = 2 * k \<and> a + a div 2 = 3 * k \<or> a = 2 * k + 1 \<and> a + a div 2 = 3 * k + 1"
  by (rule exI [of _ "a div 2"]) (cases "even a"; simp add: odd_two_times_div_two_succ)

lemma fat_neighbours: "fat_off c' = fat_off c + 1 \<Longrightarrow> even (unat c) \<and> odd (unat c')"
  using half_offset [of "unat c"] half_offset [of "unat c'"] unfolding fat_off_def by (elim exE disjE conjE) (simp_all, presburger+)

lemma fat_off_inj: "fat_off c = fat_off c' \<Longrightarrow> c = c'"
proof (rule unsigned_word_eqI)
  assume "fat_off c = fat_off c'"
  then show "unat c = unat c'"
    using half_offset [of "unat c"] half_offset [of "unat c'"] unfolding fat_off_def by (elim exE disjE conjE) arith+
qed

lemma odd_word: "(c :: u32) AND 1 \<noteq> 0 \<longleftrightarrow> odd (unat c)"
proof -
  have "odd (unat c) \<longleftrightarrow> bit c 0" using bit_unsigned_iff [of c 0, where 'a = nat] by (simp add: bit_0)
  then show ?thesis by (simp add: and_one_eq mod_2_eq_odd bit_0)
qed

lemma unat_eqI: "unat x = unat y \<Longrightarrow> x = y"
  by (rule unsigned_word_eqI)

lemma ucast_nat: "(ucast (x :: 'a::len word) :: 'b::len word) = of_nat (unat x)"
  by (rule unsigned_word_eqI) (simp add: unat_of_nat unsigned_ucast_eq take_bit_eq_mod)

lemma fat_sector:
  assumes "c < 0x1000"
  shows "ucast (reserved_sectors bpb) + of_nat k * ucast (sectors_per_fat bpb) + (c + c div 2) div 512 =
    (of_nat (fat_at bpb k c div 512) :: u32)" (is "?l = _")
    and "unat ((c + c div 2) mod 512) = fat_at bpb k c mod 512"
proof -
  let ?b = "unat (reserved_sectors bpb) + k * unat (sectors_per_fat bpb)"
  have d: "fat_at bpb k c div 512 = ?b + fat_off c div 512" "fat_at bpb k c mod 512 = fat_off c mod 512"
    unfolding fat_at_def by (rule div_mult_self3, simp) (rule mod_mult_self3)
  have "(c + c div 2) div 512 = of_nat (fat_off c div 512)"
    by (rule unat_eqI) (use fat_off_word [OF assms] unsigned_less [of "c + c div 2", where 'a = nat] in \<open>simp add: unat_div unat_of_nat\<close>)
  then show "?l = of_nat (fat_at bpb k c div 512)" by (simp only: d(1) ucast_nat of_nat_add of_nat_mult)
  show "unat ((c + c div 2) mod 512) = fat_at bpb k c mod 512" using fat_off_word [OF assms] by (simp add: d unat_mod)
qed

text \<open>The bytes of the sectors \<open>S\<close>, and the entry of a cluster in the first table.\<close>

definition disk_byte :: "(nat \<Rightarrow> u8 list) \<Rightarrow> nat \<Rightarrow> u8" where
  "disk_byte S j = S (j div 512) ! (j mod 512)"

definition fat_entry :: "fat12_bpb \<Rightarrow> (nat \<Rightarrow> u8 list) \<Rightarrow> u32 \<Rightarrow> u16" where
  "fat_entry bpb S c = fat_decode c (disk_byte S (fat_at bpb 0 c)) (disk_byte S (fat_at bpb 0 c + 1))"

definition fat_upd :: "u32 \<Rightarrow> u16 \<Rightarrow> nat \<Rightarrow> (nat \<Rightarrow> u8) \<Rightarrow> nat \<Rightarrow> u8" where
  "fat_upd c v a m = m(a := fat_low c v (m a), a + 1 := fat_high c v (m (a + 1)))"

lemma disk_byte_upd:
  assumes "length (S (a div 512)) = 512"
  shows "disk_byte (S(a div 512 := (S (a div 512))[a mod 512 := v])) = (disk_byte S)(a := v)"
proof
  fix x
  have "x = a \<longleftrightarrow> x div 512 = a div 512 \<and> x mod 512 = a mod 512" by (metis div_mult_mod_eq)
  then show "disk_byte (S(a div 512 := (S (a div 512))[a mod 512 := v])) x = ((disk_byte S)(a := v)) x"
    using assms by (auto simp: disk_byte_def nth_list_update)
qed

lemma fat_at_bounds:
  assumes "table_fits bpb n" "in_table bpb c" "k < unat (fat_count bpb)"
  shows "fat_at bpb k c + 1 < n * 512"
    and "(unat (reserved_sectors bpb) + k * unat (sectors_per_fat bpb)) * 512 \<le> fat_at bpb k c"
    and "fat_at bpb k c + 1 < (unat (reserved_sectors bpb) + (k + 1) * unat (sectors_per_fat bpb)) * 512"
proof -
  show u: "fat_at bpb k c + 1 < (unat (reserved_sectors bpb) + (k + 1) * unat (sectors_per_fat bpb)) * 512"
    using assms(2) by (simp add: fat_at_def in_table_def algebra_simps)
  have "(k + 1) * unat (sectors_per_fat bpb) \<le> unat (fat_count bpb) * unat (sectors_per_fat bpb)"
    by (rule mult_le_mono1) (use assms(3) in simp)
  then have "unat (reserved_sectors bpb) + (k + 1) * unat (sectors_per_fat bpb) \<le> n"
    using assms(1) unfolding table_fits_def by linarith
  then have "(unat (reserved_sectors bpb) + (k + 1) * unat (sectors_per_fat bpb)) * 512 \<le> n * 512" by (rule mult_le_mono1)
  then show "fat_at bpb k c + 1 < n * 512" using u by linarith
qed (simp add: fat_at_def)

text \<open>Setting an entry in the copies \<open>ks\<close> of the table.\<close>

definition fat_upds :: "fat12_bpb \<Rightarrow> u32 \<Rightarrow> u16 \<Rightarrow> nat list \<Rightarrow> (nat \<Rightarrow> u8) \<Rightarrow> nat \<Rightarrow> u8" where
  "fat_upds bpb c v ks = fold (\<lambda>k. fat_upd c v (fat_at bpb k c)) ks"

lemma fat_upds_outside:
  assumes "\<And>k. k \<in> set ks \<Longrightarrow> x \<noteq> fat_at bpb k c \<and> x \<noteq> fat_at bpb k c + 1"
  shows "fat_upds bpb c v ks m x = m x"
  using assms unfolding fat_upds_def
proof (induction ks arbitrary: m)
  case (Cons k ks)
  have "fat_upd c v (fat_at bpb k c) m x = m x" using Cons.prems [of k] by (simp add: fat_upd_def)
  then show ?case using Cons.IH [of "fat_upd c v (fat_at bpb k c) m"] Cons.prems by simp
qed simp

lemma fat_upd_entry:
  "fat_decode c' (fat_upd c v (fat_at bpb 0 c) m (fat_at bpb 0 c')) (fat_upd c v (fat_at bpb 0 c) m (fat_at bpb 0 c' + 1)) =
     (if c' = c then v AND 0xFFF else fat_decode c' (m (fat_at bpb 0 c')) (m (fat_at bpb 0 c' + 1)))"
proof (cases "c' = c")
  case False
  then have ne: "fat_off c' \<noteq> fat_off c" using fat_off_inj by blast
  consider "fat_off c' = fat_off c + 1" | "fat_off c = fat_off c' + 1" | "fat_off c' \<noteq> fat_off c + 1" "fat_off c \<noteq> fat_off c' + 1" by blast
  then show ?thesis
  proof cases
    case 1
    then have "c' AND 1 \<noteq> 0" "c AND 1 = 0" using fat_neighbours [OF 1] odd_word by blast+
    then show ?thesis using False 1 by (simp add: fat_upd_def fat_at_def fat_decode_high)
  next
    case 2
    then have "c' AND 1 = 0" "c AND 1 \<noteq> 0" using fat_neighbours [OF 2] odd_word by blast+
    then show ?thesis using False 2 by (simp add: fat_upd_def fat_at_def fat_decode_low)
  next
    case 3
    then show ?thesis using False ne by (simp add: fat_upd_def fat_at_def)
  qed
qed (simp add: fat_upd_def fat_decode_set)

lemma fat_upds_entry:
  assumes t: "table_fits bpb n" and c: "in_table bpb c" "in_table bpb c'"
    and S: "disk_byte S' = fat_upds bpb c (v AND 0xFFF) [0..<unat (fat_count bpb)] (disk_byte S)"
  shows "fat_entry bpb S' c' = (if c' = c then v AND 0xFFF else fat_entry bpb S c')"
proof -
  let ?m = "fat_upd c (v AND 0xFFF) (fat_at bpb 0 c) (disk_byte S)" and ?a = "fat_at bpb 0 c'" and ?s = "unat (sectors_per_fat bpb)"
  have n: "0 < unat (fat_count bpb)" using t by (simp add: table_fits_def word_less_nat_alt)
  have up: "?a + 1 < (unat (reserved_sectors bpb) + ?s) * 512" using fat_at_bounds(3) [OF t c(2) n] by simp
  have out: "x \<noteq> fat_at bpb k c \<and> x \<noteq> fat_at bpb k c + 1" if "x \<le> ?a + 1" "k \<in> set [1..<unat (fat_count bpb)]" for x k
  proof -
    have "1 * ?s \<le> k * ?s" by (rule mult_le_mono1) (use that in simp)
    then have "unat (reserved_sectors bpb) + ?s \<le> unat (reserved_sectors bpb) + k * ?s" by linarith
    then have "(unat (reserved_sectors bpb) + ?s) * 512 \<le> fat_at bpb k c"
      unfolding fat_at_def by (rule trans_le_add1 [OF mult_le_mono1])
    then show ?thesis using that(1) up by linarith
  qed
  have "disk_byte S' = fat_upds bpb c (v AND 0xFFF) [1..<unat (fat_count bpb)] ?m"
    using S n by (simp add: upt_conv_Cons fat_upds_def)
  then have "disk_byte S' x = ?m x" if "x \<le> ?a + 1" for x
    by (simp only: fat_upds_outside [OF out [OF that]])
  then show ?thesis using fat_upd_entry [of c' c "v AND 0xFFF" bpb "disk_byte S"] by (simp add: fat_entry_def and.assoc)
qed

text \<open>The sectors of the tables.\<close>

definition fat_area :: "fat12_bpb \<Rightarrow> nat \<Rightarrow> bool" where
  "fat_area bpb i \<longleftrightarrow>
     unat (reserved_sectors bpb) \<le> i \<and> i < unat (reserved_sectors bpb) + unat (fat_count bpb) * unat (sectors_per_fat bpb)"

lemma fat_upds_area:
  assumes t: "table_fits bpb n" and c: "in_table bpb c" and x: "\<not> fat_area bpb (x div 512)"
  shows "fat_upds bpb c v [0..<unat (fat_count bpb)] m x = m x"
proof (rule fat_upds_outside)
  fix k assume "k \<in> set [0..<unat (fat_count bpb)]"
  then have k: "k < unat (fat_count bpb)" by simp
  have in_area: "fat_area bpb (y div 512)" if "fat_at bpb k c \<le> y" "y \<le> fat_at bpb k c + 1" for y
  proof -
    have "(k + 1) * unat (sectors_per_fat bpb) \<le> unat (fat_count bpb) * unat (sectors_per_fat bpb)"
      by (rule mult_le_mono1) (use k in simp)
    moreover have "y div 512 < unat (reserved_sectors bpb) + (k + 1) * unat (sectors_per_fat bpb)"
      by (rule less_mult_imp_div_less) (use fat_at_bounds(3) [OF t c k] that(2) in linarith)
    moreover have "unat (reserved_sectors bpb) + k * unat (sectors_per_fat bpb) \<le> y div 512"
      using fat_at_bounds(2) [OF t c k] that(1) by (simp add: less_eq_div_iff_mult_less_eq)
    ultimately show ?thesis unfolding fat_area_def by linarith
  qed
  show "x \<noteq> fat_at bpb k c \<and> x \<noteq> fat_at bpb k c + 1" using in_area [of x] x by auto
qed

subsection \<open>Chains\<close>

fun is_chain :: "fat12_bpb \<Rightarrow> (nat \<Rightarrow> u8 list) \<Rightarrow> u32 \<Rightarrow> u32 list \<Rightarrow> bool" where
  "is_chain bpb S c [] \<longleftrightarrow> \<not> (2 \<le> c \<and> c < 0xFF8)"
| "is_chain bpb S c (x # xs) \<longleftrightarrow>
     c = x \<and> 2 \<le> x \<and> x < 0xFF8 \<and> in_table bpb x \<and> is_chain bpb S (ucast (fat_entry bpb S x)) xs"

lemma is_chain_unique: "is_chain bpb S c xs \<Longrightarrow> is_chain bpb S c ys \<Longrightarrow> xs = ys"
proof (induction xs arbitrary: c ys)
  case Nil
  then show ?case by (cases ys) auto
next
  case (Cons x xs)
  then show ?case by (cases ys) auto
qed

lemma is_chain_suffix: "is_chain bpb S c (us @ x # vs) \<Longrightarrow> is_chain bpb S x (x # vs)"
  by (induction us arbitrary: c) auto

lemma is_chain_distinct: "is_chain bpb S c xs \<Longrightarrow> distinct xs"
proof (induction xs arbitrary: c)
  case (Cons x xs)
  have "x \<notin> set xs"
  proof
    assume "x \<in> set xs"
    then obtain us vs where "xs = us @ x # vs" by (auto dest: split_list)
    then have "is_chain bpb S x (x # vs)" "is_chain bpb S x (x # us @ x # vs)"
      using is_chain_suffix [of bpb S c "x # us" x vs] Cons.prems by auto
    then have "x # vs = x # us @ x # vs" by (rule is_chain_unique)
    then show False by simp
  qed
  then show ?case using Cons by auto
qed simp

lemma is_chain_cong:
  "is_chain bpb S c xs \<Longrightarrow> (\<And>x. x \<in> set xs \<Longrightarrow> fat_entry bpb S' x = fat_entry bpb S x) \<Longrightarrow> is_chain bpb S' c xs"
  by (induction xs arbitrary: c) auto

lemma next_byte:
  "a mod 512 = 511 \<Longrightarrow> (a + 1) div 512 = a div 512 + 1 \<and> (a + 1) mod 512 = (0 :: nat)"
  "a mod 512 \<noteq> 511 \<Longrightarrow> (a + 1) div 512 = a div 512 \<and> (a + 1) mod 512 = (a :: nat) mod 512 + 1"
  by (simp_all add: div_Suc mod_Suc)

context disk
begin

lemma read_sector_at:
  assumes "good d" "a < n * 512"
  shows "block_core_read (Some dev) (of_nat (a div 512)) 1 d = Inr (sec d (a div 512))" "unat (of_nat (a div 512) :: u32) = a div 512"
    "length (sec d (a div 512)) = 512"
proof -
  have l: "a div 512 < n" using assms(2) by (simp add: less_mult_imp_div_less)
  then show u: "unat (of_nat (a div 512) :: u32) = a div 512" using n_bound(1) by (simp add: unat_of_nat_u32)
  show "block_core_read (Some dev) (of_nat (a div 512)) 1 d = Inr (sec d (a div 512))" "length (sec d (a div 512)) = 512"
    using read_sec [of d "of_nat (a div 512)"] sec_length assms(1) l u by simp_all
qed

lemma get_fat_entry:
  assumes d: "good d" and t: "table_fits bpb n" and c: "in_table bpb c"
  shows "fat12_dev_get_fat_entry (Some dev) bpb c d = Inr (fat_entry bpb (sec d) c)"
proof -
  let ?a = "fat_at bpb 0 c"
  have c': "c < 0x1000" using c by (simp add: in_table_def)
  have s: "ucast (reserved_sectors bpb) + (c + c div 2) div 512 = (of_nat (?a div 512) :: u32)" "unat ((c + c div 2) mod 512) = ?a mod 512"
    using fat_sector [OF c', of bpb 0] by simp_all
  have b: "?a < n * 512" "?a + 1 < n * 512" using fat_at_bounds(1) [OF t c, of 0] t by (simp_all add: table_fits_def word_less_nat_alt)
  note r = read_sector_at(1) [OF d b(1)] read_sector_at(1) [OF d b(2)]
  show ?thesis
  proof (cases "?a mod 512 = 511")
    case True
    then have "of_nat (?a div 512) + 1 = (of_nat ((?a + 1) div 512) :: u32)" using next_byte(1) by simp
    then show ?thesis using True r next_byte(1) [OF True]
      by (simp only: fat12_dev_get_fat_entry_def Let_def s r_bind_simps simp_thms if_True fat_entry_def disk_byte_def)
  next
    case False
    then show ?thesis using r next_byte(2) [OF False]
      by (simp only: fat12_dev_get_fat_entry_def Let_def s r_bind_simps simp_thms if_False fat_entry_def disk_byte_def)
  qed
qed

lemma write_byte:
  assumes d: "good d" and a: "a < n * 512" and S: "sec d = S" "S (a div 512) = ws"
  shows "\<exists>d'. block_core_write (Some dev) (of_nat (a div 512)) 1 (ws[a mod 512 := v]) d = (Inr (), d') \<and> good d' \<and>
    disk_byte (sec d') = (disk_byte S)(a := v)"
proof -
  note r = read_sector_at [OF d a]
  obtain d' where "block_core_write (Some dev) (of_nat (a div 512)) 1 (ws[a mod 512 := v]) d = (Inr (), d')" "good d'"
    "sec d' = (sec d)(a div 512 := ws[a mod 512 := v])"
    using write_sec [OF d, of "of_nat (a div 512)" "ws[a mod 512 := v]"] r S a by (auto simp: less_mult_imp_div_less)
  then show ?thesis using disk_byte_upd [of S a v] r(3) S by (intro exI [of _ d']) simp
qed

lemma write_two_bytes:
  assumes d: "good d" and a: "a < n * 512" and S: "sec d (a div 512) = ws" and ne: "a mod 512 \<noteq> 511"
  shows "\<exists>d'. block_core_write (Some dev) (of_nat (a div 512)) 1 (ws[a mod 512 := u, a mod 512 + 1 := v]) d = (Inr (), d') \<and> good d' \<and>
    disk_byte (sec d') = (disk_byte (sec d))(a := u, a + 1 := v)"
proof -
  note r = read_sector_at [OF d a]
  note nb = next_byte(2) [OF ne]
  let ?S = "(sec d)(a div 512 := ws[a mod 512 := u])"
  obtain d' where d': "block_core_write (Some dev) (of_nat (a div 512)) 1 (ws[a mod 512 := u, a mod 512 + 1 := v]) d = (Inr (), d')" "good d'"
    "sec d' = (sec d)(a div 512 := ws[a mod 512 := u, a mod 512 + 1 := v])"
    using write_sec [OF d, of "of_nat (a div 512)" "ws[a mod 512 := u, a mod 512 + 1 := v]"] r S a by (auto simp: less_mult_imp_div_less)
  have "sec d' = ?S((a + 1) div 512 := (?S ((a + 1) div 512))[(a + 1) mod 512 := v])" using d'(3) nb by simp
  moreover have "length (?S ((a + 1) div 512)) = 512" using r(3) S nb by simp
  ultimately have "disk_byte (sec d') = (disk_byte ?S)(a + 1 := v)" using disk_byte_upd [of ?S "a + 1" v] by metis
  moreover have "disk_byte ?S = (disk_byte (sec d))(a := u)" using disk_byte_upd [of "sec d" a u] r(3) S by simp
  ultimately show ?thesis using d' by metis
qed

lemma set_fat_copy_bytes:
  assumes d: "good d" and t: "table_fits bpb n" and c: "in_table bpb c" and k: "k < unat (fat_count bpb)"
  shows "\<exists>d'. set_fat_copy (Some dev) bpb c v k d = (Inr (), d') \<and> good d' \<and>
    disk_byte (sec d') = fat_upd c v (fat_at bpb k c) (disk_byte (sec d))"
proof -
  let ?a = "fat_at bpb k c" and ?s = "sec d (fat_at bpb k c div 512)"
  have c': "c < 0x1000" using c by (simp add: in_table_def)
  note s = fat_sector [OF c', of bpb k]
  have b: "?a < n * 512" "?a + 1 < n * 512" using fat_at_bounds(1) [OF t c k] by simp_all
  note r = read_sector_at [OF d b(1)]
  show ?thesis
  proof (cases "?a mod 512 = 511")
    case True
    note nb = next_byte(1) [OF True]
    obtain d1 where d1: "block_core_write (Some dev) (of_nat (?a div 512)) 1 (?s[?a mod 512 := fat_low c v (?s ! (?a mod 512))]) d = (Inr (), d1)"
      "good d1" "disk_byte (sec d1) = (disk_byte (sec d))(?a := fat_low c v (?s ! (?a mod 512)))"
      using write_byte [OF d b(1) refl refl] by blast
    let ?s2 = "sec d1 ((?a + 1) div 512)"
    obtain d2 where d2: "block_core_write (Some dev) (of_nat ((?a + 1) div 512)) 1 (?s2[(?a + 1) mod 512 := fat_high c v (?s2 ! ((?a + 1) mod 512))]) d1 = (Inr (), d2)"
      "good d2" "disk_byte (sec d2) = (disk_byte (sec d1))(?a + 1 := fat_high c v (?s2 ! ((?a + 1) mod 512)))"
      using write_byte [OF d1(2) b(2) refl refl] by blast
    have e: "of_nat (?a div 512) + 1 = (of_nat ((?a + 1) div 512) :: u32)" using nb by simp
    have "set_fat_copy (Some dev) bpb c v k d = (Inr (), d2)"
      unfolding set_fat_copy_def Let_def s e using r(1) d1(1) read_sector_at(1) [OF d1(2) b(2)] d2(1) True nb by simp
    moreover have "?s2 ! ((?a + 1) mod 512) = disk_byte (sec d) (?a + 1)"
      using fun_cong [OF d1(3), of "?a + 1"] by (simp add: disk_byte_def)
    then have "disk_byte (sec d2) = fat_upd c v ?a (disk_byte (sec d))"
      using d2(3) d1(3) by (simp add: fat_upd_def disk_byte_def [of "sec d" ?a])
    ultimately show ?thesis using d2(2) by blast
  next
    case False
    note nb = next_byte(2) [OF False]
    obtain d1 where d1: "block_core_write (Some dev) (of_nat (?a div 512)) 1
        (?s[?a mod 512 := fat_low c v (?s ! (?a mod 512)), ?a mod 512 + 1 := fat_high c v (?s ! (?a mod 512 + 1))]) d = (Inr (), d1)"
      "good d1" "disk_byte (sec d1) = (disk_byte (sec d))(?a := fat_low c v (?s ! (?a mod 512)), ?a + 1 := fat_high c v (?s ! (?a mod 512 + 1)))"
      using write_two_bytes [OF d b(1) refl False] by blast
    have "set_fat_copy (Some dev) bpb c v k d = (Inr (), d1)"
      unfolding set_fat_copy_def Let_def s using r(1) d1(1) False by simp
    moreover have "?s ! (?a mod 512 + 1) = disk_byte (sec d) (?a + 1)" using nb by (simp add: disk_byte_def)
    then have "disk_byte (sec d1) = fat_upd c v ?a (disk_byte (sec d))"
      using d1(3) by (simp add: fat_upd_def disk_byte_def [of "sec d" ?a])
    ultimately show ?thesis using d1(2) by blast
  qed
qed

lemma set_fat_copies_bytes:
  assumes "good d" "table_fits bpb n" "in_table bpb c" "\<And>k. k \<in> set ks \<Longrightarrow> k < unat (fat_count bpb)"
  shows "\<exists>d'. set_fat_copies (Some dev) bpb c v ks d = (Inr (), d') \<and> good d' \<and>
    disk_byte (sec d') = fat_upds bpb c v ks (disk_byte (sec d))"
  using assms
proof (induction ks arbitrary: d)
  case (Cons k ks)
  obtain d1 where d1: "set_fat_copy (Some dev) bpb c v k d = (Inr (), d1)" "good d1"
    "disk_byte (sec d1) = fat_upd c v (fat_at bpb k c) (disk_byte (sec d))"
    using set_fat_copy_bytes [OF Cons.prems(1-3), of k v] Cons.prems(4) by auto
  then show ?case using Cons.IH [OF d1(2) Cons.prems(2,3)] Cons.prems(4) by (simp add: fat_upds_def)
qed (simp add: fat_upds_def)

lemma set_fat_entry:
  assumes "good d" "table_fits bpb n" "in_table bpb c"
  shows "\<exists>d'. fat12_dev_set_fat_entry (Some dev) bpb c v d = (Inr (), d') \<and> good d' \<and>
    disk_byte (sec d') = fat_upds bpb c (v AND 0xFFF) [0..<unat (fat_count bpb)] (disk_byte (sec d))"
  using set_fat_copies_bytes [OF assms, of "[0..<unat (fat_count bpb)]" "v AND 0xFFF"] by (simp add: fat12_dev_set_fat_entry_def)

lemma set_fat_entry_spec:
  assumes "good d" "table_fits bpb n" "in_table bpb c"
  shows "\<exists>d'. fat12_dev_set_fat_entry (Some dev) bpb c v d = (Inr (), d') \<and> good d' \<and>
    (\<forall>c'. in_table bpb c' \<longrightarrow> fat_entry bpb (sec d') c' = (if c' = c then v AND 0xFFF else fat_entry bpb (sec d) c')) \<and>
    (\<forall>x. \<not> fat_area bpb (x div 512) \<longrightarrow> disk_byte (sec d') x = disk_byte (sec d) x)"
proof -
  obtain d' where d': "fat12_dev_set_fat_entry (Some dev) bpb c v d = (Inr (), d')" "good d'"
    "disk_byte (sec d') = fat_upds bpb c (v AND 0xFFF) [0..<unat (fat_count bpb)] (disk_byte (sec d))"
    using set_fat_entry [OF assms] by blast
  then show ?thesis
    using fat_upds_entry [OF assms(2,3) _ d'(3)] fat_upds_area [OF assms(2,3)] by (intro exI [of _ d']) simp
qed

lemma free_chain:
  assumes "good d" "table_fits bpb n" "is_chain bpb (sec d) c cs"
  shows "\<exists>d'. fat12_dev_free_cluster_chain (Some dev) bpb c d = Some (Inr (), d') \<and> good d' \<and>
    (\<forall>c'. in_table bpb c' \<longrightarrow> fat_entry bpb (sec d') c' = (if c' \<in> set cs then 0 else fat_entry bpb (sec d) c')) \<and>
    (\<forall>x. \<not> fat_area bpb (x div 512) \<longrightarrow> disk_byte (sec d') x = disk_byte (sec d) x)"
  using assms(1,3)
proof (induction cs arbitrary: c d)
  case Nil
  then show ?case by (subst fat12_dev_free_cluster_chain.simps) auto
next
  case (Cons x xs)
  have x: "c = x" "2 \<le> x" "x < 0xFF8" "in_table bpb x" "is_chain bpb (sec d) (ucast (fat_entry bpb (sec d) x)) xs" "x \<notin> set xs"
    using Cons.prems(2) is_chain_distinct [OF Cons.prems(2)] by auto
  obtain d1 where d1: "fat12_dev_set_fat_entry (Some dev) bpb x FAT12_CLUSTER_FREE d = (Inr (), d1)" "good d1"
    "\<forall>c'. in_table bpb c' \<longrightarrow> fat_entry bpb (sec d1) c' = (if c' = x then 0 else fat_entry bpb (sec d) c')"
    "\<forall>y. \<not> fat_area bpb (y div 512) \<longrightarrow> disk_byte (sec d1) y = disk_byte (sec d) y"
    using set_fat_entry_spec [OF Cons.prems(1) assms(2) x(4), of FAT12_CLUSTER_FREE] by auto
  have tab: "in_table bpb y" if "y \<in> set xs" for y using x(5) that by (induction xs arbitrary: x) auto
  have "is_chain bpb (sec d1) (ucast (fat_entry bpb (sec d) x)) xs"
    by (rule is_chain_cong [OF x(5)]) (use d1(3) tab x(6) in auto)
  then obtain d2 where d2: "fat12_dev_free_cluster_chain (Some dev) bpb (ucast (fat_entry bpb (sec d) x)) d1 = Some (Inr (), d2)" "good d2"
    "\<forall>c'. in_table bpb c' \<longrightarrow> fat_entry bpb (sec d2) c' = (if c' \<in> set xs then 0 else fat_entry bpb (sec d1) c')"
    "\<forall>y. \<not> fat_area bpb (y div 512) \<longrightarrow> disk_byte (sec d2) y = disk_byte (sec d1) y"
    using Cons.IH [OF d1(2)] by blast
  have "fat12_dev_free_cluster_chain (Some dev) bpb c d = Some (Inr (), d2)"
    using x(1-3) get_fat_entry [OF Cons.prems(1) assms(2) x(4)] d1(1) d2(1) by (subst fat12_dev_free_cluster_chain.simps) simp
  then show ?case using d2 d1(3,4) by (intro exI [of _ d2]) auto
qed

end

subsection \<open>The table of the boot floppy\<close>

abbreviation boot_dev :: "floppy_boot_info \<Rightarrow> 'h floppy block_device option" where
  "boot_dev info \<equiv> Some (boot_floppy_device (Some info))"

text \<open>
  C12: After setting the entry of a cluster, reading the table of the boot floppy gives the lower twelve
  bits of the value for this cluster and the old value for every other one, whether the entry spans two
  sectors or not; the copies in memory and on the medium still agree, and no sector outside the tables has changed.
\<close>

theorem fat_entry_roundtrip:
  assumes "floppy_ok V info f" "table_fits bpb 2880" "in_table bpb c"
  shows "\<exists>f'. fat12_dev_set_fat_entry (boot_dev info) bpb c v f = (Inr (), f') \<and> floppy_ok V info f' \<and>
    (\<forall>c'. in_table bpb c' \<longrightarrow>
       fat12_dev_get_fat_entry (boot_dev info) bpb c' f' =
         (if c' = c then Inr (v AND 0xFFF) else fat12_dev_get_fat_entry (boot_dev info) bpb c' f)) \<and>
    (\<forall>x. \<not> fat_area bpb (x div 512) \<longrightarrow> disk_byte (floppy_sec V f') x = disk_byte (floppy_sec V f) x)"
proof -
  obtain f' where f': "fat12_dev_set_fat_entry (boot_dev info) bpb c v f = (Inr (), f')" "floppy_ok V info f'"
    "\<forall>c'. in_table bpb c' \<longrightarrow> fat_entry bpb (floppy_sec V f') c' = (if c' = c then v AND 0xFFF else fat_entry bpb (floppy_sec V f) c')"
    "\<forall>x. \<not> fat_area bpb (x div 512) \<longrightarrow> disk_byte (floppy_sec V f') x = disk_byte (floppy_sec V f) x"
    using boot_floppy.set_fat_entry_spec [OF assms] by blast
  then show ?thesis
    using boot_floppy.get_fat_entry [OF f'(2) assms(2)] boot_floppy.get_fat_entry [OF assms(1,2)] by (intro exI [of _ f']) simp
qed

text \<open>The parameters of a 1440 KiB floppy; entry 341 starts in the last byte of a sector.\<close>

definition demo_bpb :: fat12_bpb where
  "demo_bpb = \<lparr>bytes_per_sector = 512, sectors_per_cluster = 1, reserved_sectors = 1, fat_count = 2, root_entry_count = 224,
     sectors_per_fat = 9, root_dir_lba = 19, root_dir_sectors = 14\<rparr>"

lemma demo_table: "table_fits demo_bpb 2880" "in_table demo_bpb 2" "in_table demo_bpb 3" "in_table demo_bpb 341" "in_table demo_bpb 340"
  by (simp_all add: table_fits_def in_table_def fat_off_def demo_bpb_def)

theorem fat_entry_roundtrip_witness:
  "\<exists>f'. fat12_dev_set_fat_entry (boot_dev demo_info) demo_bpb 341 0x123 blank_floppy = (Inr (), f') \<and>
    fat12_dev_get_fat_entry (boot_dev demo_info) demo_bpb 341 f' = Inr 0x123 \<and>
    fat12_dev_get_fat_entry (boot_dev demo_info) demo_bpb 340 f' = fat12_dev_get_fat_entry (boot_dev demo_info) demo_bpb 340 blank_floppy"
  using fat_entry_roundtrip [OF blank_floppy_ok demo_table(1,4), of "0x123"] demo_table(4,5) by auto

text \<open>
  C37: Freeing the chain of a file ends, with success: every cluster of the chain is free, the entries of
  all other clusters and the sectors outside the tables are as before.
\<close>

theorem free_cluster_chain_frees:
  assumes "floppy_ok V info f" "table_fits bpb 2880" "is_chain bpb (floppy_sec V f) c cs"
  shows "\<exists>f'. fat12_dev_free_cluster_chain (boot_dev info) bpb c f = Some (Inr (), f') \<and> floppy_ok V info f' \<and>
    (\<forall>c'. in_table bpb c' \<longrightarrow>
       fat12_dev_get_fat_entry (boot_dev info) bpb c' f' =
         (if c' \<in> set cs then Inr FAT12_CLUSTER_FREE else fat12_dev_get_fat_entry (boot_dev info) bpb c' f)) \<and>
    (\<forall>x. \<not> fat_area bpb (x div 512) \<longrightarrow> disk_byte (floppy_sec V f') x = disk_byte (floppy_sec V f) x)"
proof -
  obtain f' where f': "fat12_dev_free_cluster_chain (boot_dev info) bpb c f = Some (Inr (), f')" "floppy_ok V info f'"
    "\<forall>c'. in_table bpb c' \<longrightarrow> fat_entry bpb (floppy_sec V f') c' = (if c' \<in> set cs then 0 else fat_entry bpb (floppy_sec V f) c')"
    "\<forall>x. \<not> fat_area bpb (x div 512) \<longrightarrow> disk_byte (floppy_sec V f') x = disk_byte (floppy_sec V f) x"
    using boot_floppy.free_chain [OF assms] by blast
  then show ?thesis
    using boot_floppy.get_fat_entry [OF f'(2) assms(2)] boot_floppy.get_fat_entry [OF assms(1,2)] by (intro exI [of _ f']) simp
qed

text \<open>A floppy with the chain 2, 3.\<close>

definition chain_floppy :: "(nat \<Rightarrow> u8 list) floppy" where
  "chain_floppy =
     snd (fat12_dev_set_fat_entry (boot_dev demo_info) demo_bpb 2 3
       (snd (fat12_dev_set_fat_entry (boot_dev demo_info) demo_bpb 3 FAT12_CLUSTER_EOC blank_floppy)))"

lemma chain_floppy:
  "floppy_ok medium_view demo_info chain_floppy" "is_chain demo_bpb (floppy_sec medium_view chain_floppy) 2 [2, 3]"
  "fat_entry demo_bpb (floppy_sec medium_view chain_floppy) 2 = 3" "fat_entry demo_bpb (floppy_sec medium_view chain_floppy) 3 = FAT12_CLUSTER_EOC"
proof -
  note t = demo_table
  obtain f where f: "fat12_dev_set_fat_entry (boot_dev demo_info) demo_bpb 3 FAT12_CLUSTER_EOC blank_floppy = (Inr (), f)" "floppy_ok medium_view demo_info f"
    "\<forall>c. in_table demo_bpb c \<longrightarrow> fat_entry demo_bpb (floppy_sec medium_view f) c =
       (if c = 3 then FAT12_CLUSTER_EOC AND 0xFFF else fat_entry demo_bpb (floppy_sec medium_view blank_floppy) c)"
    using boot_floppy.set_fat_entry_spec [OF blank_floppy_ok t(1,3), of FAT12_CLUSTER_EOC] by blast
  obtain f' where f': "fat12_dev_set_fat_entry (boot_dev demo_info) demo_bpb 2 3 f = (Inr (), f')" "floppy_ok medium_view demo_info f'"
    "\<forall>c. in_table demo_bpb c \<longrightarrow> fat_entry demo_bpb (floppy_sec medium_view f') c = (if c = 2 then 3 AND 0xFFF else fat_entry demo_bpb (floppy_sec medium_view f) c)"
    using boot_floppy.set_fat_entry_spec [OF f(2) t(1,2), of 3] by blast
  have e: "chain_floppy = f'" using f(1) f'(1) by (simp add: chain_floppy_def)
  show "floppy_ok medium_view demo_info chain_floppy" using f'(2) e by simp
  show "fat_entry demo_bpb (floppy_sec medium_view chain_floppy) 2 = 3" "fat_entry demo_bpb (floppy_sec medium_view chain_floppy) 3 = FAT12_CLUSTER_EOC"
    using f(3) f'(3) t e by simp_all
  then show "is_chain demo_bpb (floppy_sec medium_view chain_floppy) 2 [2, 3]" using t e by simp
qed

theorem free_cluster_chain_frees_witness:
  "\<exists>f'. fat12_dev_free_cluster_chain (boot_dev demo_info) demo_bpb 2 chain_floppy = Some (Inr (), f') \<and>
    fat12_dev_get_fat_entry (boot_dev demo_info) demo_bpb 2 f' = Inr 0 \<and> fat12_dev_get_fat_entry (boot_dev demo_info) demo_bpb 3 f' = Inr 0"
  using free_cluster_chain_frees [OF chain_floppy(1) demo_table(1) chain_floppy(2)] demo_table(2,3) by auto

end
