(* ===== verification/Fat12_Data.thy ===== *)
theory Fat12_Data
  imports Fat12_Table
begin

text \<open>
  The data of files: the clusters that a write allocates form a chain of clusters that were free, they
  hold the data, and reading along the chain gives it back, from any offset. The lemmas are proved for
  every \<open>disk\<close>.
\<close>

subsection \<open>The data area\<close>

text \<open>The first sector of a cluster, and its sectors, as numbers.\<close>

definition data_start :: "fat12_bpb \<Rightarrow> nat" where
  "data_start bpb = unat (root_dir_lba bpb) + unat (root_dir_sectors bpb)"

definition per_cluster :: "fat12_bpb \<Rightarrow> nat" where
  "per_cluster bpb = unat (sectors_per_cluster bpb)"

definition cl_base :: "fat12_bpb \<Rightarrow> u32 \<Rightarrow> nat" where
  "cl_base bpb c = data_start bpb + (unat c - 2) * per_cluster bpb"

definition cl_secs :: "fat12_bpb \<Rightarrow> u32 \<Rightarrow> nat list" where
  "cl_secs bpb c = [cl_base bpb c..<cl_base bpb c + per_cluster bpb]"

definition total_of :: "fat12_bpb \<Rightarrow> nat \<Rightarrow> nat" where
  "total_of bpb n = (n - data_start bpb) div per_cluster bpb"

text \<open>A volume on \<open>n\<close> sectors: the tables, the root directory and the data area follow each other.\<close>

definition volume_fits :: "fat12_bpb \<Rightarrow> nat \<Rightarrow> bool" where
  "volume_fits bpb n \<longleftrightarrow>
     table_fits bpb n \<and> 0 < per_cluster bpb \<and> data_start bpb \<le> n \<and> n < 2 ^ 32 \<and>
     unat (reserved_sectors bpb) + unat (fat_count bpb) * unat (sectors_per_fat bpb) \<le> unat (root_dir_lba bpb) \<and>
     total_of bpb n + 2 \<le> 0xFF8 \<and> (total_of bpb n + 1) + (total_of bpb n + 1) div 2 + 1 < unat (sectors_per_fat bpb) * 512"

definition data_cluster :: "fat12_bpb \<Rightarrow> nat \<Rightarrow> u32 \<Rightarrow> bool" where
  "data_cluster bpb n c \<longleftrightarrow> 2 \<le> unat c \<and> unat c < total_of bpb n + 2"

lemma data_cluster_range:
  assumes "volume_fits bpb n" "data_cluster bpb n c"
  shows "2 \<le> c" "c < 0xFF8" "in_table bpb c" "cl_base bpb c + per_cluster bpb \<le> n"
proof -
  have c: "2 \<le> unat c" "unat c < total_of bpb n + 2" "total_of bpb n + 2 \<le> 0xFF8" using assms by (simp_all add: data_cluster_def volume_fits_def)
  then show "2 \<le> c" "c < 0xFF8" by (simp_all add: word_le_nat_alt word_less_nat_alt)
  have "unat c div 2 \<le> (total_of bpb n + 1) div 2" by (rule div_le_mono) (use c in simp)
  then have "fat_off c + 1 < unat (sectors_per_fat bpb) * 512" using assms(1) c(2) unfolding volume_fits_def fat_off_def by linarith
  then show "in_table bpb c" using c by (simp add: in_table_def word_less_nat_alt)
  have "(unat c - 2 + 1) * per_cluster bpb \<le> total_of bpb n * per_cluster bpb" by (rule mult_le_mono1) (use c in simp)
  also have "\<dots> \<le> n - data_start bpb" by (simp add: total_of_def)
  finally have "(unat c - 2) * per_cluster bpb + per_cluster bpb \<le> n - data_start bpb" by simp
  moreover have "data_start bpb \<le> n" using assms(1) by (simp add: volume_fits_def)
  ultimately show "cl_base bpb c + per_cluster bpb \<le> n" unfolding cl_base_def by linarith
qed

lemma cluster_sectors:
  assumes v: "volume_fits bpb n" and c: "data_cluster bpb n c"
  shows "map unat (cluster_lbas bpb c) = cl_secs bpb c"
proof -
  note r = data_cluster_range [OF v c]
  have n: "n < 2 ^ 32" using v by (simp add: volume_fits_def)
  have "(of_nat (cl_base bpb c) :: u32) = fat12_image_cluster_to_lba bpb c"
  proof -
    have "c - 2 = of_nat (unat c - 2)" using r(1) by (simp add: of_nat_diff word_le_nat_alt)
    moreover have "(ucast (sectors_per_cluster bpb) :: u32) = of_nat (per_cluster bpb)" unfolding per_cluster_def by (rule ucast_nat)
    moreover have "\<not> c < 2" using r(1) by simp
    ultimately show ?thesis by (simp add: fat12_image_cluster_to_lba_def cl_base_def data_start_def)
  qed
  then have "unat (fat12_image_cluster_to_lba bpb c + of_nat i) = cl_base bpb c + i" if "i < per_cluster bpb" for i
  proof -
    have "fat12_image_cluster_to_lba bpb c + of_nat i = (of_nat (cl_base bpb c + i) :: u32)" using \<open>of_nat (cl_base bpb c) = _\<close> by simp
    moreover have "cl_base bpb c + i < 2 ^ 32" using that r(4) n by linarith
    ultimately show ?thesis by (simp only: unat_of_nat_u32)
  qed
  then show ?thesis by (simp add: cluster_lbas_def cl_secs_def per_cluster_def list_eq_iff_nth_eq)
qed

lemma cl_secs_disjoint:
  assumes "2 \<le> unat c" "2 \<le> unat c'" "c \<noteq> c'"
  shows "set (cl_secs bpb c) \<inter> set (cl_secs bpb c') = {}"
proof -
  have apart: "cl_base bpb a + per_cluster bpb \<le> cl_base bpb b" if "2 \<le> unat a" "unat a < unat b" for a b
  proof -
    have "(unat a - 2 + 1) * per_cluster bpb \<le> (unat b - 2) * per_cluster bpb" by (rule mult_le_mono1) (use that in simp)
    then show ?thesis by (simp add: cl_base_def)
  qed
  have "unat c < unat c' \<or> unat c' < unat c" using assms(3) by (metis linorder_neqE_nat unsigned_word_eqI)
  then show ?thesis using apart [of c c'] apart [of c' c] assms by (auto simp: cl_secs_def)
qed

lemma cl_secs_data:
  assumes "volume_fits bpb n" "data_cluster bpb n c" "i \<in> set (cl_secs bpb c)"
  shows "i < n" "\<not> fat_area bpb i"
  using assms data_cluster_range(4) [OF assms(1,2)] by (auto simp: cl_secs_def fat_area_def volume_fits_def cl_base_def data_start_def)

text \<open>The entries only depend on the sectors of the tables.\<close>

lemma fat_entry_cong:
  assumes t: "table_fits bpb n" and c: "in_table bpb c" and S: "\<And>i. fat_area bpb i \<Longrightarrow> S' i = S i"
  shows "fat_entry bpb S' c = fat_entry bpb S c"
proof -
  have k: "0 < unat (fat_count bpb)" using t by (simp add: table_fits_def word_less_nat_alt)
  have area: "fat_area bpb (y div 512)" if "fat_at bpb 0 c \<le> y" "y \<le> fat_at bpb 0 c + 1" for y
  proof -
    have "1 * unat (sectors_per_fat bpb) \<le> unat (fat_count bpb) * unat (sectors_per_fat bpb)" by (rule mult_le_mono1) (use k in simp)
    moreover have "y div 512 < unat (reserved_sectors bpb) + unat (sectors_per_fat bpb)"
      by (rule less_mult_imp_div_less) (use fat_at_bounds(3) [OF t c k] that(2) in simp)
    moreover have "unat (reserved_sectors bpb) \<le> y div 512"
      using fat_at_bounds(2) [OF t c k] that(1) by (simp add: less_eq_div_iff_mult_less_eq)
    ultimately show ?thesis unfolding fat_area_def by linarith
  qed
  show ?thesis using S [OF area, of "fat_at bpb 0 c"] S [OF area, of "fat_at bpb 0 c + 1"] by (simp add: fat_entry_def disk_byte_def)
qed

text \<open>A cluster number fits the twelve bits of an entry.\<close>

lemma cluster_ucast:
  assumes "(c :: u32) < 0xFF8"
  shows "(ucast c :: u16) AND 0xFFF = ucast c" "ucast (ucast c :: u16) = c" "c \<noteq> 0 \<Longrightarrow> (ucast c :: u16) \<noteq> 0"
proof -
  have c: "unat c < 0xFF8" using assms by (simp add: word_less_nat_alt)
  then have u: "unat (ucast c :: u16) = unat c" by (simp add: unsigned_ucast_eq take_bit_eq_mod)
  show "(ucast c :: u16) AND 0xFFF = ucast c"
    unfolding fat_masks by (rule unat_eqI) (use c u in \<open>simp add: take_bit_eq_mask [symmetric] unsigned_take_bit_eq take_bit_eq_mod unat_mod\<close>)
  show "ucast (ucast c :: u16) = c"
    by (rule unat_eqI) (use c u in \<open>simp add: unsigned_ucast_eq [of "ucast c :: u16"] take_bit_eq_mod\<close>)
  show "(ucast c :: u16) \<noteq> 0" if "c \<noteq> 0" using that u by (metis unat_eq_zero)
qed

subsection \<open>Sectors, allocation\<close>

text \<open>What an allocation of cluster \<open>c\<close> does to the sectors.\<close>

definition fat_step :: "fat12_bpb \<Rightarrow> nat \<Rightarrow> u32 \<Rightarrow> u16 \<Rightarrow> (nat \<Rightarrow> u8 list) \<Rightarrow> (nat \<Rightarrow> u8 list) \<Rightarrow> bool" where
  "fat_step bpb n c v S S' \<longleftrightarrow>
     (\<forall>x. in_table bpb x \<longrightarrow> fat_entry bpb S' x = (if x = c then v else fat_entry bpb S x)) \<and>
     (\<forall>i < n. \<not> fat_area bpb i \<longrightarrow> S' i = S i)"

definition alloc_step :: "fat12_bpb \<Rightarrow> nat \<Rightarrow> u32 \<Rightarrow> (nat \<Rightarrow> u8 list) \<Rightarrow> (nat \<Rightarrow> u8 list) \<Rightarrow> bool" where
  "alloc_step bpb n c S S' \<longleftrightarrow>
     data_cluster bpb n c \<and> fat_entry bpb S c = FAT12_CLUSTER_FREE \<and>
     (\<forall>x. in_table bpb x \<longrightarrow> fat_entry bpb S' x = (if x = c then FAT12_CLUSTER_EOC else fat_entry bpb S x)) \<and>
     (\<forall>i < n. \<not> fat_area bpb i \<and> i \<notin> set (cl_secs bpb c) \<longrightarrow> S' i = S i)"

subsection \<open>What a write leaves\<close>

definition content :: "fat12_bpb \<Rightarrow> (nat \<Rightarrow> u8 list) \<Rightarrow> u32 list \<Rightarrow> u8 list" where
  "content bpb S cs = concat (map (\<lambda>c. concat (map S (cl_secs bpb c))) cs)"

definition free_clusters :: "fat12_bpb \<Rightarrow> nat \<Rightarrow> (nat \<Rightarrow> u8 list) \<Rightarrow> u32 set" where
  "free_clusters bpb n S = {c. data_cluster bpb n c \<and> fat_entry bpb S c = FAT12_CLUSTER_FREE}"

text \<open>
  The clusters \<open>cs\<close> were free, form a chain behind \<open>prev\<close> and hold the data; every other entry and every other
  sector of the data area is as before.
\<close>

definition wrote :: "fat12_bpb \<Rightarrow> nat \<Rightarrow> (nat \<Rightarrow> u8 list) \<Rightarrow> (nat \<Rightarrow> u8 list) \<Rightarrow> u32 \<Rightarrow> char list \<Rightarrow> u32 list \<Rightarrow> bool" where
  "wrote bpb n S S' prev data cs \<longleftrightarrow>
     (cs = [] \<longleftrightarrow> data = []) \<and> set cs \<subseteq> free_clusters bpb n S \<and> (cs \<noteq> [] \<longrightarrow> is_chain bpb S' (hd cs) cs) \<and>
     (prev \<noteq> 0 \<longrightarrow> fat_entry bpb S' prev = (if cs = [] then FAT12_CLUSTER_EOC else ucast (hd cs))) \<and>
     (\<forall>x. in_table bpb x \<and> x \<notin> set cs \<and> (prev = 0 \<or> x \<noteq> prev) \<longrightarrow> fat_entry bpb S' x = fat_entry bpb S x) \<and>
     (\<forall>i < n. \<not> fat_area bpb i \<and> (\<forall>c \<in> set cs. i \<notin> set (cl_secs bpb c)) \<longrightarrow> S' i = S i) \<and>
     (\<forall>x \<in> set cs. fat_entry bpb S' x \<noteq> FAT12_CLUSTER_FREE) \<and> take (length data) (content bpb S' cs) = map byte_of data"

text \<open>The first cluster: allocated, linked to \<open>prev\<close>, and filled.\<close>

definition link_step :: "fat12_bpb \<Rightarrow> nat \<Rightarrow> u32 \<Rightarrow> u32 \<Rightarrow> (nat \<Rightarrow> u8 list) \<Rightarrow> (nat \<Rightarrow> u8 list) \<Rightarrow> bool" where
  "link_step bpb n prev c S S' \<longleftrightarrow>
     data_cluster bpb n c \<and> fat_entry bpb S c = FAT12_CLUSTER_FREE \<and>
     (\<forall>x. in_table bpb x \<longrightarrow> fat_entry bpb S' x =
        (if x = c then FAT12_CLUSTER_EOC else if x = prev \<and> prev \<noteq> 0 then ucast c else fat_entry bpb S x)) \<and>
     (\<forall>i < n. \<not> fat_area bpb i \<and> i \<notin> set (cl_secs bpb c) \<longrightarrow> S' i = S i)"

lemma link_step_free:
  assumes v: "volume_fits bpb n" and l: "link_step bpb n prev c S S'"
    and p: "prev = 0 \<or> data_cluster bpb n prev \<and> fat_entry bpb S prev = FAT12_CLUSTER_EOC"
  shows "free_clusters bpb n S' = free_clusters bpb n S - {c}"
proof -
  have c: "data_cluster bpb n c" using l by (simp add: link_step_def)
  have "c \<noteq> 0" using data_cluster_range(1) [OF v c] by auto
  then have nz: "(ucast c :: u16) \<noteq> 0" using cluster_ucast(3) [OF data_cluster_range(2) [OF v c]] by simp
  have "fat_entry bpb S' x = FAT12_CLUSTER_FREE \<longleftrightarrow> x \<noteq> c \<and> fat_entry bpb S x = FAT12_CLUSTER_FREE" if "data_cluster bpb n x" for x
    using l nz p data_cluster_range(3) [OF v that] by (auto simp: link_step_def)
  then show ?thesis by (auto simp: free_clusters_def)
qed

lemma wrote_step:
  assumes v: "volume_fits bpb n" and l: "link_step bpb n prev c S S1" and data: "data \<noteq> []"
    and p: "prev = 0 \<or> data_cluster bpb n prev \<and> fat_entry bpb S prev = FAT12_CLUSTER_EOC"
    and bytes: "take (length data) (concat (map S1 (cl_secs bpb c))) = map byte_of (take (512 * per_cluster bpb) data)"
      "length (concat (map S1 (cl_secs bpb c))) = 512 * per_cluster bpb"
    and w: "wrote bpb n S1 S' c (drop (512 * per_cluster bpb) data) cs"
  shows "wrote bpb n S S' prev data (c # cs)"
proof -
  note l' = l [unfolded link_step_def] and w' = w [unfolded wrote_def] and free = link_step_free [OF v l p]
  have c: "data_cluster bpb n c" "c \<noteq> 0" using l' data_cluster_range(1) [OF v, of c] by auto
  note r = data_cluster_range [OF v c(1)]
  have new: "c \<notin> set cs" "prev \<noteq> 0 \<Longrightarrow> prev \<notin> set cs \<and> prev \<noteq> c"
    using w' free p l' by (auto simp: free_clusters_def)
  have dc: "data_cluster bpb n x" if "x \<in> set cs" for x using that w' free by (auto simp: free_clusters_def)
  have apart: "i \<notin> set (cl_secs bpb x)" if "i \<in> set (cl_secs bpb c)" "x \<in> set cs" for i x
    using cl_secs_disjoint [of c x bpb] c(1) dc [OF that(2)] new(1) that by (auto simp: data_cluster_def)
  have same: "S' i = S1 i" if "i \<in> set (cl_secs bpb c)" for i
    using w' cl_secs_data [OF v c(1) that] apart [OF that] by blast
  have "content bpb S' (c # cs) = concat (map S1 (cl_secs bpb c)) @ content bpb S' cs"
    using same by (simp add: content_def cong: map_cong)
  then have cont: "take (length data) (content bpb S' (c # cs)) = map byte_of data"
    using w' bytes by (simp add: map_append [symmetric] del: map_append)
  have chain: "is_chain bpb S' c (c # cs)"
    using r w' cluster_ucast(2) [OF data_cluster_range(2) [OF v dc [of "hd cs"]]] c(2) by (cases cs) auto
  have prev: "fat_entry bpb S' prev = ucast c" if "prev \<noteq> 0"
    using w' l' new(2) [OF that] p that data_cluster_range(3) [OF v, of prev] by auto
  have sub: "set (c # cs) \<subseteq> free_clusters bpb n S" using w' free l' by (auto simp: free_clusters_def)
  have ent: "fat_entry bpb S' x = fat_entry bpb S x" if "in_table bpb x" "x \<notin> set (c # cs)" "prev = 0 \<or> x \<noteq> prev" for x
    using w' l' that by auto
  have secs: "S' i = S i" if "i < n" "\<not> fat_area bpb i" "\<forall>x \<in> set (c # cs). i \<notin> set (cl_secs bpb x)" for i
    using w' l' that by simp
  have "(ucast (hd cs) :: u16) \<noteq> 0" if "cs \<noteq> []"
  proof (rule cluster_ucast(3))
    have h: "data_cluster bpb n (hd cs)" using dc that by simp
    show "hd cs < 0xFF8" by (rule data_cluster_range(2) [OF v h])
    show "hd cs \<noteq> 0" using data_cluster_range(1) [OF v h] by auto
  qed
  then have "fat_entry bpb S' c \<noteq> FAT12_CLUSTER_FREE" using w' c(2) by simp
  then have used: "\<forall>x \<in> set (c # cs). fat_entry bpb S' x \<noteq> FAT12_CLUSTER_FREE" using w' by simp
  show ?thesis unfolding wrote_def using data sub chain prev ent secs used cont by simp
qed

context disk
begin

lemma sec_eqI:
  assumes "good d" "good d'" "i < n" "\<And>j. j < 512 \<Longrightarrow> disk_byte (sec d') (i * 512 + j) = disk_byte (sec d) (i * 512 + j)"
  shows "sec d' i = sec d i"
proof (rule nth_equalityI)
  show "length (sec d' i) = length (sec d i)" using sec_length assms by simp
  show "sec d' i ! j = sec d i ! j" if "j < length (sec d' i)" for j
    using assms(4) [of j] that sec_length assms by (simp add: disk_byte_def)
qed

lemma set_fat_entry_step:
  assumes "good d" "table_fits bpb n" "in_table bpb c"
  shows "\<exists>d'. fat12_dev_set_fat_entry (Some dev) bpb c v d = (Inr (), d') \<and> good d' \<and> fat_step bpb n c (v AND 0xFFF) (sec d) (sec d')"
proof -
  obtain d' where d': "fat12_dev_set_fat_entry (Some dev) bpb c v d = (Inr (), d')" "good d'"
    "\<forall>c'. in_table bpb c' \<longrightarrow> fat_entry bpb (sec d') c' = (if c' = c then v AND 0xFFF else fat_entry bpb (sec d) c')"
    "\<forall>x. \<not> fat_area bpb (x div 512) \<longrightarrow> disk_byte (sec d') x = disk_byte (sec d) x"
    using set_fat_entry_spec [OF assms] by blast
  have "sec d' i = sec d i" if "i < n" "\<not> fat_area bpb i" for i
    by (rule sec_eqI [OF assms(1) d'(2) that(1)]) (use d'(4) that(2) in simp)
  then show ?thesis using d' by (auto simp: fat_step_def)
qed

lemma zero_sectors_ok:
  assumes "good d" "\<And>lba. lba \<in> set lbas \<Longrightarrow> unat lba < n"
  shows "\<exists>d'. zero_sectors (Some dev) lbas d = (Inr (), d') \<and> good d' \<and>
    sec d' = (\<lambda>i. if i \<in> unat ` set lbas then replicate 512 0 else sec d i)"
  using assms
proof (induction lbas arbitrary: d)
  case (Cons lba lbas)
  obtain d1 where d1: "block_core_write (Some dev) lba 1 (replicate 512 0) d = (Inr (), d1)" "good d1" "sec d1 = (sec d)(unat lba := replicate 512 0)"
    using write_sec [OF Cons.prems(1), of lba "replicate 512 0"] Cons.prems(2) by auto
  obtain d2 where d2: "zero_sectors (Some dev) lbas d1 = (Inr (), d2)" "good d2"
    "sec d2 = (\<lambda>i. if i \<in> unat ` set lbas then replicate 512 0 else sec d1 i)"
    using Cons.IH [OF d1(2)] Cons.prems(2) by auto
  then show ?case using d1 by (intro exI [of _ d2]) (auto simp: fat12_dev_zero_sector_def fun_eq_iff)
qed simp

lemma alloc_one:
  assumes d: "good d" and v: "volume_fits bpb n" and c: "data_cluster bpb n c" and free: "fat_entry bpb (sec d) c = FAT12_CLUSTER_FREE"
  shows "\<exists>d'. alloc_cluster_loop (Some dev) bpb (unat c # xs) d = (c, d') \<and> good d' \<and> alloc_step bpb n c (sec d) (sec d')"
proof -
  have t: "table_fits bpb n" using v by (simp add: volume_fits_def)
  note r = data_cluster_range [OF v c] and lbas = cluster_sectors [OF v c]
  obtain d1 where d1: "fat12_dev_set_fat_entry (Some dev) bpb c FAT12_CLUSTER_EOC d = (Inr (), d1)" "good d1"
    "fat_step bpb n c FAT12_CLUSTER_EOC (sec d) (sec d1)"
    using set_fat_entry_step [OF d t r(3), of FAT12_CLUSTER_EOC] by auto
  have secs: "unat ` set (cluster_lbas bpb c) = set (cl_secs bpb c)" using lbas by (metis list.set_map)
  have in_disk: "unat lba < n" if "lba \<in> set (cluster_lbas bpb c)" for lba
    using cl_secs_data(1) [OF v c, of "unat lba"] secs that by blast
  have "\<exists>d'. zero_sectors (Some dev) (cluster_lbas bpb c) d1 = (Inr (), d') \<and> good d' \<and>
    sec d' = (\<lambda>i. if i \<in> unat ` set (cluster_lbas bpb c) then replicate 512 0 else sec d1 i)"
    by (rule zero_sectors_ok [OF d1(2)]) (rule in_disk)
  then obtain d2 where d2: "zero_sectors (Some dev) (cluster_lbas bpb c) d1 = (Inr (), d2)" "good d2"
    "sec d2 = (\<lambda>i. if i \<in> set (cl_secs bpb c) then replicate 512 0 else sec d1 i)"
    unfolding secs by (elim exE conjE) (rule that)
  have "alloc_cluster_loop (Some dev) bpb (unat c # xs) d = (c, d2)"
    using get_fat_entry [OF d t r(3)] free d1(1) d2(1) by simp
  moreover have "fat_entry bpb (sec d2) x = fat_entry bpb (sec d1) x" if "in_table bpb x" for x
    by (rule fat_entry_cong [OF t that]) (use d2(3) cl_secs_data(2) [OF v c] in auto)
  then have "alloc_step bpb n c (sec d) (sec d2)" using d1(3) d2(3) c free by (simp add: alloc_step_def fat_step_def)
  ultimately show ?thesis using d2(2) by blast
qed

lemma alloc_loop:
  assumes "good d" "volume_fits bpb n" "\<And>x. x \<in> set xs \<Longrightarrow> 2 \<le> x \<and> x < total_of bpb n + 2"
    "x \<in> set xs" "fat_entry bpb (sec d) (of_nat x) = FAT12_CLUSTER_FREE"
  shows "\<exists>c d'. alloc_cluster_loop (Some dev) bpb xs d = (c, d') \<and> good d' \<and> alloc_step bpb n c (sec d) (sec d')"
  using assms(3,4)
proof (induction xs)
  case (Cons y ys)
  have "2 \<le> y" "y < total_of bpb n + 2" "total_of bpb n + 2 \<le> 0xFF8" using Cons.prems(1) [of y] assms(2) by (auto simp: volume_fits_def)
  then have y: "unat (of_nat y :: u32) = y" "data_cluster bpb n (of_nat y)" by (simp_all add: unat_of_nat_u32 data_cluster_def)
  have t: "table_fits bpb n" using assms(2) by (simp add: volume_fits_def)
  show ?case
  proof (cases "fat_entry bpb (sec d) (of_nat y) = FAT12_CLUSTER_FREE")
    case True
    then show ?thesis using alloc_one [OF assms(1,2) y(2) True, of ys] y(1) by metis
  next
    case False
    then have "x \<in> set ys" using Cons.prems(2) assms(5) by auto
    moreover have "alloc_cluster_loop (Some dev) bpb (y # ys) d = alloc_cluster_loop (Some dev) bpb ys d"
      using get_fat_entry [OF assms(1) t data_cluster_range(3) [OF assms(2) y(2)]] False by simp
    ultimately show ?thesis using Cons.IH Cons.prems(1) by simp
  qed
qed simp

lemma total_clusters:
  assumes "volume_fits bpb n"
  shows "unat (fat12_dev_total_clusters bpb (Some dev) + 2) = total_of bpb n + 2"
proof -
  note v = assms [unfolded volume_fits_def]
  have ds: "unat (root_dir_lba bpb + root_dir_sectors bpb) = data_start bpb"
    unfolding data_start_def by (rule unat_add_no_wrap) (use v in \<open>simp add: data_start_def\<close>)
  have sc: "unat (sector_count dev) = n" using n_bound by (simp add: unat_of_nat_u32)
  have nz: "sectors_per_cluster bpb \<noteq> 0" using v by (auto simp: per_cluster_def)
  have "unat (sectors_per_cluster bpb) < 2 ^ LENGTH(8)" by (rule unsigned_less)
  then have "unat (ucast (sectors_per_cluster bpb) :: u32) = per_cluster bpb"
    by (simp add: per_cluster_def unsigned_ucast_eq take_bit_eq_mod)
  then have "unat (fat12_dev_total_clusters bpb (Some dev)) = total_of bpb n"
    using nz v by (auto simp: fat12_dev_total_clusters_def total_of_def Let_def word_le_nat_alt ds sc unat_div unat_sub)
  moreover have "total_of bpb n + 2 < 2 ^ 32" using v by simp
  ultimately show ?thesis by (simp add: unat_add_no_wrap)
qed

lemma alloc_ok:
  assumes "good d" "volume_fits bpb n" "data_cluster bpb n c" "fat_entry bpb (sec d) c = FAT12_CLUSTER_FREE"
  shows "\<exists>c d'. fat12_dev_alloc_cluster (Some dev) bpb d = (c, d') \<and> good d' \<and> alloc_step bpb n c (sec d) (sec d')"
  unfolding fat12_dev_alloc_cluster_def total_clusters [OF assms(2)]
  by (rule alloc_loop [OF assms(1,2), of _ "unat c"]) (use assms(3,4) in \<open>auto simp: data_cluster_def\<close>)

text \<open>Writing the sectors of a cluster.\<close>

lemma write_sectors_ok:
  assumes "good d" "\<And>lba. lba \<in> set lbas \<Longrightarrow> unat lba < n" "distinct (map unat lbas)"
  shows "\<exists>d'. write_sectors (Some dev) lbas data d = (Inr (drop (512 * length lbas) data), d') \<and> good d' \<and>
    (\<forall>i. i \<notin> unat ` set lbas \<longrightarrow> sec d' i = sec d i) \<and>
    take (length data) (concat (map (sec d') (map unat lbas))) = map byte_of (take (512 * length lbas) data)"
  using assms
proof (induction lbas arbitrary: d data)
  case (Cons lba lbas)
  show ?case
  proof (cases "data = []")
    case False
    let ?bs = "map byte_of (take 512 data)"
    let ?ws = "?bs @ replicate (512 - length ?bs) 0"
    have len: "length ?ws = 512" by simp
    obtain d1 where d1: "block_core_write (Some dev) lba 1 ?ws d = (Inr (), d1)" "good d1" "sec d1 = (sec d)(unat lba := ?ws)"
      using write_sec [OF Cons.prems(1) _ len, of lba] Cons.prems(2) by auto
    obtain d2 where d2: "write_sectors (Some dev) lbas (drop 512 data) d1 = (Inr (drop (512 * length lbas) (drop 512 data)), d2)" "good d2"
      "\<forall>i. i \<notin> unat ` set lbas \<longrightarrow> sec d2 i = sec d1 i"
      "take (length data - 512) (concat (map (sec d2) (map unat lbas))) = map byte_of (take (512 * length lbas) (drop 512 data))"
      using Cons.IH [OF d1(2), of "drop 512 data"] Cons.prems(2,3) by auto
    have first: "sec d2 (unat lba) = ?ws" using d2(3) d1(3) Cons.prems(3) by simp
    have "take (length data) (?ws @ xs) = ?bs @ take (length data - 512) xs" for xs
      by (cases "length data \<le> 512") simp_all
    then have "take (length data) (concat (map (sec d2) (map unat (lba # lbas)))) = map byte_of (take (512 * length (lba # lbas)) data)"
      using first d2(4) by (simp add: take_add add.commute)
    moreover have "write_sectors (Some dev) (lba # lbas) data d = (Inr (drop (512 * length (lba # lbas)) data), d2)"
      using False d1(1) d2(1) by (simp add: add.commute)
    ultimately show ?thesis using d2(2,3) d1(3) by (intro exI [of _ d2]) auto
  qed (use Cons.prems in auto)
qed simp

text \<open>One round of the loop: a cluster is allocated, linked and filled.\<close>

lemma link_ok:
  assumes d: "good d" and v: "volume_fits bpb n" and free: "free_clusters bpb n (sec d) \<noteq> {}"
    and p: "prev = 0 \<or> data_cluster bpb n prev \<and> fat_entry bpb (sec d) prev = FAT12_CLUSTER_EOC"
  shows "\<exists>c d1 d2. fat12_dev_alloc_cluster (Some dev) bpb d = (c, d1) \<and> c \<noteq> 0 \<and>
    (if prev \<noteq> 0 then fat12_dev_set_fat_entry (Some dev) bpb prev (ucast c) d1 else (Inr (), d1)) = (Inr (), d2) \<and>
    good d2 \<and> link_step bpb n prev c (sec d) (sec d2)"
proof -
  obtain c0 where "data_cluster bpb n c0" "fat_entry bpb (sec d) c0 = FAT12_CLUSTER_FREE" using free by (auto simp: free_clusters_def)
  then obtain c d1 where a: "fat12_dev_alloc_cluster (Some dev) bpb d = (c, d1)" "good d1" "alloc_step bpb n c (sec d) (sec d1)"
    using alloc_ok [OF d v] by blast
  have c: "data_cluster bpb n c" "fat_entry bpb (sec d) c = FAT12_CLUSTER_FREE" using a(3) by (simp_all add: alloc_step_def)
  note r = data_cluster_range [OF v c(1)]
  have cz: "c \<noteq> 0" using r(1) by auto
  show ?thesis
  proof (cases "prev = 0")
    case True
    then have "link_step bpb n prev c (sec d) (sec d1)" using a(3) by (simp add: alloc_step_def link_step_def)
    then show ?thesis using a cz True by (intro exI [of _ c] exI [of _ d1]) simp
  next
    case False
    then have pr: "data_cluster bpb n prev" "prev \<noteq> c" using p c by auto
    obtain d2 where d2: "fat12_dev_set_fat_entry (Some dev) bpb prev (ucast c) d1 = (Inr (), d2)" "good d2"
      "fat_step bpb n prev (ucast c) (sec d1) (sec d2)"
      using set_fat_entry_step [OF a(2) _ data_cluster_range(3) [OF v pr(1)], of "ucast c"] v cluster_ucast(1) [OF r(2)]
      by (auto simp: volume_fits_def)
    have "link_step bpb n prev c (sec d) (sec d2)"
      using a(3) d2(3) pr False by (simp add: alloc_step_def link_step_def fat_step_def)
    then show ?thesis using a cz False d2 by (intro exI [of _ c] exI [of _ d1] exI [of _ d2]) simp
  qed
qed

lemma fill_ok:
  assumes d: "good d" and v: "volume_fits bpb n" and c: "data_cluster bpb n c"
  shows "\<exists>d'. write_sectors (Some dev) (cluster_lbas bpb c) data d = (Inr (drop (512 * per_cluster bpb) data), d') \<and> good d' \<and>
    (\<forall>i. i \<notin> set (cl_secs bpb c) \<longrightarrow> sec d' i = sec d i) \<and>
    take (length data) (concat (map (sec d') (cl_secs bpb c))) = map byte_of (take (512 * per_cluster bpb) data)"
proof -
  note lbas = cluster_sectors [OF v c]
  have secs: "unat ` set (cluster_lbas bpb c) = set (cl_secs bpb c)" using lbas by (metis list.set_map)
  have "distinct (map unat (cluster_lbas bpb c))" unfolding lbas by (simp add: cl_secs_def)
  moreover have "unat lba < n" if "lba \<in> set (cluster_lbas bpb c)" for lba
    using cl_secs_data(1) [OF v c, of "unat lba"] secs that by blast
  ultimately show ?thesis
    using write_sectors_ok [OF d, of "cluster_lbas bpb c" data] unfolding secs lbas by (simp add: cluster_lbas_def per_cluster_def)
qed

lemma cluster_length:
  assumes "good d" "volume_fits bpb n" "data_cluster bpb n c"
  shows "length (concat (map (sec d) (cl_secs bpb c))) = 512 * per_cluster bpb"
proof -
  have "map (length \<circ> sec d) (cl_secs bpb c) = replicate (per_cluster bpb) 512"
    by (rule nth_equalityI) (use sec_length [OF assms(1)] cl_secs_data(1) [OF assms(2,3)] in \<open>simp_all add: cl_secs_def\<close>)
  then show ?thesis by (simp add: length_concat sum_list_replicate)
qed

lemma link_step_fill:
  assumes v: "volume_fits bpb n" and l: "link_step bpb n prev c S S1" and out: "\<And>i. i \<notin> set (cl_secs bpb c) \<Longrightarrow> S2 i = S1 i"
  shows "link_step bpb n prev c S S2"
proof -
  have c: "data_cluster bpb n c" using l by (simp add: link_step_def)
  have "fat_entry bpb S2 x = fat_entry bpb S1 x" if "in_table bpb x" for x
    by (rule fat_entry_cong [OF _ that, of n]) (use v out cl_secs_data(2) [OF v c] in \<open>auto simp: volume_fits_def\<close>)
  then show ?thesis using l out by (simp add: link_step_def)
qed

lemma write_clusters_ok:
  assumes v: "volume_fits bpb n" and "good d" "length data \<le> card (free_clusters bpb n (sec d)) * (512 * per_cluster bpb)"
    "prev = 0 \<or> data_cluster bpb n prev \<and> fat_entry bpb (sec d) prev = FAT12_CLUSTER_EOC"
  shows "\<exists>d' cs. write_clusters (Some dev) bpb no_space data first prev d = Some (Inr (if first = 0 \<and> cs \<noteq> [] then hd cs else first), d') \<and>
    good d' \<and> wrote bpb n (sec d) (sec d') prev data cs"
  using assms(2-4)
proof (induction data arbitrary: d first prev rule: length_induct)
  case (1 data)
  show ?case
  proof (cases "data = []")
    case True
    have "wrote bpb n (sec d) (sec d) prev data []" using True 1(4) by (auto simp: wrote_def content_def)
    then show ?thesis using True 1(2) by (subst write_clusters.simps) (intro exI [of _ d] exI [of _ "[]"], simp)
  next
    case False
    have ne: "free_clusters bpb n (sec d) \<noteq> {}" using 1(3) False by auto
    obtain c d1 d2 where s1: "fat12_dev_alloc_cluster (Some dev) bpb d = (c, d1)" "c \<noteq> 0"
      "(if prev \<noteq> 0 then fat12_dev_set_fat_entry (Some dev) bpb prev (ucast c) d1 else (Inr (), d1)) = (Inr (), d2)"
      "good d2" "link_step bpb n prev c (sec d) (sec d2)"
      using link_ok [OF 1(2) v ne 1(4)] by blast
    have c: "data_cluster bpb n c" using s1(5) by (simp add: link_step_def)
    let ?rest = "drop (512 * per_cluster bpb) data"
    obtain d3 where s3: "write_sectors (Some dev) (cluster_lbas bpb c) data d2 = (Inr ?rest, d3)" "good d3"
      "\<forall>i. i \<notin> set (cl_secs bpb c) \<longrightarrow> sec d3 i = sec d2 i"
      "take (length data) (concat (map (sec d3) (cl_secs bpb c))) = map byte_of (take (512 * per_cluster bpb) data)"
      using fill_ok [OF s1(4) v c] by blast
    have l3: "link_step bpb n prev c (sec d) (sec d3)" using link_step_fill [OF v s1(5)] s3(3) by blast
    have free: "free_clusters bpb n (sec d3) = free_clusters bpb n (sec d) - {c}" by (rule link_step_free [OF v l3 1(4)])
    have inf: "c \<in> free_clusters bpb n (sec d)" using s1(5) by (simp add: link_step_def free_clusters_def)
    have "0 < per_cluster bpb" using v by (simp add: volume_fits_def)
    then have len: "length ?rest < length data" using False by simp
    have "card (free_clusters bpb n (sec d3)) = card (free_clusters bpb n (sec d)) - 1" using free inf by simp
    then have enough: "length ?rest \<le> card (free_clusters bpb n (sec d3)) * (512 * per_cluster bpb)"
      using 1(3) by (simp add: diff_mult_distrib)
    have eoc: "c = 0 \<or> data_cluster bpb n c \<and> fat_entry bpb (sec d3) c = FAT12_CLUSTER_EOC"
      using l3 c data_cluster_range(3) [OF v c] by (simp add: link_step_def)
    let ?f = "if first = 0 then c else first"
    obtain d' cs where w: "write_clusters (Some dev) bpb no_space ?rest ?f c d3 = Some (Inr (if ?f = 0 \<and> cs \<noteq> [] then hd cs else ?f), d')"
      "good d'" "wrote bpb n (sec d3) (sec d') c ?rest cs"
      using 1(1) [rule_format, OF len s3(2) enough eoc] by blast
    have "write_clusters (Some dev) bpb no_space data first prev d = Some (Inr ?f, d')"
      using False s1(1-3) s3(1) w(1) s1(2) by (subst write_clusters.simps) simp
    moreover have "wrote bpb n (sec d) (sec d') prev data (c # cs)"
      by (rule wrote_step [OF v l3 False 1(4) s3(4) cluster_length [OF s3(2) v c] w(3)])
    ultimately show ?thesis using w(2) by (intro exI [of _ d'] exI [of _ "c # cs"]) simp
  qed
qed

end

subsection \<open>Reading along a chain\<close>

lemma fat12_get_next_cluster_dev:
  "fat12_get_next_cluster c s =
     (case fat12_dev_get_fat_entry (g_fat12_dev s) (g_fat12 s) c (fat12_disk s) of Inl _ \<Rightarrow> 0xFFF | Inr v \<Rightarrow> ucast v)"
  by (simp add: fat12_get_next_cluster_def fat12_dev_get_fat_entry_def Let_def r_bind_def split: sum.split)

lemma vol_lbas_cluster: "vol_lbas s c = cluster_lbas (g_fat12 s) c"
  by (simp add: vol_lbas_def cluster_lbas_def fat12_cluster_to_lba_def fat12_image_cluster_to_lba_def)

context disk
begin

lemma read_sectors_ok:
  assumes d: "good d" and s: "g_fat12_dev s = Some dev" "fat12_disk s = d"
    and l: "\<And>lba. lba \<in> set lbas \<Longrightarrow> unat lba < n" and off: "off = 0 \<or> 0 < m \<and> off < 512 * length lbas"
  shows "read_sectors s lbas off m = Inr (0, map char_of_byte (take m (drop off (concat (map (sec d) (map unat lbas))))))"
  using l off
proof (induction lbas arbitrary: off m)
  case (Cons lba lbas)
  have rd: "vol_rd s lba = Inr (sec d (unat lba))" using read_sec [OF d] Cons.prems(1) s by (simp add: vol_rd_def)
  have len: "length (sec d (unat lba)) = 512" using sec_length [OF d] Cons.prems(1) by simp
  show ?case
  proof (cases "m = 0")
    case True
    then show ?thesis using Cons.prems(2) by simp
  next
    case m: False
    show ?thesis
    proof (cases "512 \<le> off")
      case True
      then have "off - 512 = 0 \<or> 0 < m \<and> off - 512 < 512 * length lbas" using Cons.prems(2) by auto
      then show ?thesis using Cons.IH [of "off - 512" m] Cons.prems(1) True m len by simp
    next
      case False
      have tl: "read_sectors s lbas 0 (m - min (512 - off) m) =
          Inr (0, map char_of_byte (take (m - min (512 - off) m) (concat (map (sec d) (map unat lbas)))))"
        using Cons.IH [of 0 "m - min (512 - off) m"] Cons.prems(1) by simp
      have e: "take m (drop off (sec d (unat lba) @ xs)) = take (min (512 - off) m) (drop off (sec d (unat lba))) @ take (m - min (512 - off) m) xs" for xs
        using False len by (cases "512 - off \<le> m") (simp_all add: min_def)
      show ?thesis unfolding list.map concat.simps e using False m tl rd by (simp add: Let_def)
    qed
  qed
qed (use assms in auto)

lemma content_length:
  assumes "good d" "volume_fits bpb n" "\<And>c. c \<in> set cs \<Longrightarrow> data_cluster bpb n c"
  shows "length (content bpb (sec d) cs) = length cs * (512 * per_cluster bpb)"
  using assms(3) by (induction cs) (use cluster_length [OF assms(1,2)] in \<open>auto simp: content_def\<close>)

lemma read_clusters_ok:
  assumes d: "good d" and v: "volume_fits bpb n" and s: "g_fat12_dev s = Some dev" "g_fat12 s = bpb" "fat12_disk s = d"
    and cs: "\<And>x. x \<in> set cs \<Longrightarrow> data_cluster bpb n x"
    and ch: "is_chain bpb (sec d) c cs" and off: "off < 512 * per_cluster bpb" "off + m \<le> length cs * (512 * per_cluster bpb)"
  shows "read_clusters s c off m = Some (Inr (map char_of_byte (take m (drop off (content bpb (sec d) cs)))))"
  using cs ch off
proof (induction cs arbitrary: c off m)
  case Nil
  then show ?case by (subst read_clusters.simps) simp
next
  case (Cons x xs)
  show ?case
  proof (cases "m = 0")
    case True
    then show ?thesis by (subst read_clusters.simps) simp
  next
    case False
    have x: "c = x" "\<not> x < 2" "\<not> 0xFF8 \<le> x" "in_table bpb x" "is_chain bpb (sec d) (ucast (fat_entry bpb (sec d) x)) xs" "data_cluster bpb n x"
      using Cons.prems(1,2) by auto
    note lbas = cluster_sectors [OF v x(6)] and len = cluster_length [OF d v x(6)]
    have secs: "unat ` set (cluster_lbas bpb x) = set (cl_secs bpb x)" using lbas by (metis list.set_map)
    have in_disk: "unat lba < n" if "lba \<in> set (cluster_lbas bpb x)" for lba
      using cl_secs_data(1) [OF v x(6), of "unat lba"] secs that by blast
    let ?A = "concat (map (sec d) (cl_secs bpb x))" and ?B = "content bpb (sec d) xs" and ?cb = "512 * per_cluster bpb"
    have nl: "length (cluster_lbas bpb x) = per_cluster bpb" by (simp add: cluster_lbas_def per_cluster_def)
    have rs: "read_sectors s (cluster_lbas bpb x) off m = Inr (0, map char_of_byte (take m (drop off ?A)))"
      using read_sectors_ok [OF d s(1,3), of "cluster_lbas bpb x" off m] in_disk Cons.prems(3) False nl lbas by simp
    have nx: "fat12_get_next_cluster x s = ucast (fat_entry bpb (sec d) x)"
      using get_fat_entry [OF d _ x(4)] v s by (simp add: fat12_get_next_cluster_dev volume_fits_def)
    let ?k = "length (take m (drop off ?A))"
    have k: "?k = min m (?cb - off)" using len by simp
    have "0 < ?cb" using v by (simp add: volume_fits_def)
    moreover have "off + m \<le> ?cb + length xs * ?cb" using Cons.prems(4) by simp
    then have "m - ?k \<le> length xs * ?cb" unfolding k using Cons.prems(3) by linarith
    ultimately have tl: "read_clusters s (ucast (fat_entry bpb (sec d) x)) 0 (m - ?k) = Some (Inr (map char_of_byte (take (m - ?k) ?B)))"
      using Cons.IH [OF _ x(5), of 0 "m - ?k"] Cons.prems(1) by simp
    have "take m (drop off (?A @ ?B)) = take m (drop off ?A) @ take (m - ?k) ?B"
      using Cons.prems(3) len by (simp add: min_def)
    moreover have "content bpb (sec d) (x # xs) = ?A @ ?B" by (simp add: content_def)
    ultimately show ?thesis using False x(1-3) rs nx tl by (subst read_clusters.simps) (simp add: vol_lbas_cluster s)
  qed
qed

lemma skip_clusters_ok:
  assumes d: "good d" and v: "volume_fits bpb n" and s: "g_fat12_dev s = Some dev" "g_fat12 s = bpb" "fat12_disk s = d"
    and "is_chain bpb (sec d) c cs" "k \<le> length cs"
  shows "\<exists>c'. skip_clusters k c s = Inr c' \<and> is_chain bpb (sec d) c' (drop k cs)"
  using assms(6,7)
proof (induction k arbitrary: c cs)
  case (Suc k)
  then obtain x xs where cs: "cs = x # xs" by (cases cs) auto
  then have x: "c = x" "\<not> x < 2" "\<not> 0xFF8 \<le> x" "in_table bpb x" "is_chain bpb (sec d) (ucast (fat_entry bpb (sec d) x)) xs"
    using Suc.prems(1) by auto
  have "fat12_get_next_cluster x s = ucast (fat_entry bpb (sec d) x)"
    using get_fat_entry [OF d _ x(4)] v s by (simp add: fat12_get_next_cluster_dev volume_fits_def)
  then show ?case using Suc.IH [OF x(5)] Suc.prems(2) cs x(1-3) by simp
qed simp

lemma content_drop:
  assumes "good d" "volume_fits bpb n" "\<And>c. c \<in> set cs \<Longrightarrow> data_cluster bpb n c"
  shows "content bpb (sec d) (drop k cs) = drop (k * (512 * per_cluster bpb)) (content bpb (sec d) cs)"
  using assms(3)
proof (induction cs arbitrary: k)
  case (Cons c cs)
  then have len: "length (concat (map (sec d) (cl_secs bpb c))) = 512 * per_cluster bpb" using cluster_length [OF assms(1,2)] by simp
  show ?case
  proof (cases k)
    case (Suc j)
    then have "content bpb (sec d) (drop k (c # cs)) = drop (j * (512 * per_cluster bpb)) (content bpb (sec d) cs)"
      using Cons.IH [of j] Cons.prems by simp
    also have "\<dots> = drop (k * (512 * per_cluster bpb)) (content bpb (sec d) (c # cs))"
      unfolding content_def list.map concat.simps drop_append len by (simp add: Suc len)
    finally show ?thesis .
  qed simp
qed (simp add: content_def)

text \<open>A handle on a chain that holds \<open>data\<close> reads any part of it.\<close>

lemma read_handle:
  assumes d: "good d" and v: "volume_fits bpb n" and s: "g_fat12_dev s = Some dev" "g_fat12 s = bpb" "fat12_disk s = d"
    and cs: "\<And>x. x \<in> set cs \<Longrightarrow> data_cluster bpb n x" and ch: "is_chain bpb (sec d) (of_cluster f) cs"
    and data: "take (length data) (content bpb (sec d) cs) = map byte_of data"
    and f: "fat12_file node_id s = Inr f" "unat (of_size f) = length data"
  shows "fat12_read node_id off cap s = Some (Inr (take (unat cap) (drop (unat off) data)))"
proof (cases "length data \<le> unat off \<or> cap = 0")
  case True
  then show ?thesis using f by (auto simp: fat12_read_def word_le_nat_alt Let_def)
next
  case False
  let ?cb = "512 * per_cluster bpb" and ?o = "unat off" and ?t = "min (length data - unat off) (unat cap)"
  have cb: "0 < ?cb" using v by (simp add: volume_fits_def)
  have len: "length data \<le> length cs * ?cb"
    using arg_cong [OF data, of length] content_length [OF d v cs] by simp
  have k: "?o div ?cb < length cs" by (rule less_mult_imp_div_less) (use False len in linarith)
  obtain c where c: "skip_clusters (?o div ?cb) (of_cluster f) s = Inr c" "is_chain bpb (sec d) c (drop (?o div ?cb) cs)"
    using skip_clusters_ok [OF d v s ch] k by (metis less_imp_le)
  have rest: "\<And>x. x \<in> set (drop (?o div ?cb) cs) \<Longrightarrow> data_cluster bpb n x" using cs by (meson in_set_dropD)
  have cd: "content bpb (sec d) (drop k cs) = drop (k * ?cb) (content bpb (sec d) cs)" for k
    by (rule content_drop [OF d v]) (rule cs)
  have "drop (?o mod ?cb) (content bpb (sec d) (drop (?o div ?cb) cs)) = drop (?o mod ?cb + ?o div ?cb * ?cb) (content bpb (sec d) cs)"
    unfolding cd drop_drop ..
  then have dr: "drop (?o mod ?cb) (content bpb (sec d) (drop (?o div ?cb) cs)) = drop ?o (content bpb (sec d) cs)"
    unfolding mod_div_mult_eq .
  have tm: "take ?t (drop ?o data) = take (unat cap) (drop ?o data)"
    by (cases "length data - ?o \<le> unat cap") (simp_all add: min_def)
  have "?t \<le> length data - ?o" "?o < length data" using False by simp_all
  then have fits: "?o mod ?cb + ?t \<le> length (drop (?o div ?cb) cs) * ?cb"
    unfolding length_drop diff_mult_distrib using len div_mult_mod_eq [of ?o ?cb] by linarith
  have "read_clusters s c (?o mod ?cb) ?t = Some (Inr (map char_of_byte (take ?t (drop ?o (content bpb (sec d) cs)))))"
    using read_clusters_ok [OF d v s rest c(2) _ fits] cb dr by simp
  moreover have "take ?t (drop ?o (content bpb (sec d) cs)) = take ?t (drop ?o (take (length data) (content bpb (sec d) cs)))"
    using False by (simp add: drop_take min_def)
  then have "map char_of_byte (take ?t (drop ?o (content bpb (sec d) cs))) = take (unat cap) (drop ?o data)"
    unfolding data using tm by (simp add: take_map drop_map comp_def)
  ultimately show ?thesis using f False c(1) s(2)
    by (simp add: fat12_read_def word_le_nat_alt Let_def per_cluster_def mult.commute unat_eq_zero unat_gt_0)
qed

end

text \<open>The chain from cluster \<open>c\<close> holds \<open>data\<close>.\<close>

definition stored :: "fat12_bpb \<Rightarrow> nat \<Rightarrow> (nat \<Rightarrow> u8 list) \<Rightarrow> u32 \<Rightarrow> char list \<Rightarrow> bool" where
  "stored bpb n S c data \<longleftrightarrow>
     (\<exists>cs. is_chain bpb S c cs \<and> (\<forall>x \<in> set cs. data_cluster bpb n x \<and> fat_entry bpb S x \<noteq> FAT12_CLUSTER_FREE) \<and>
       take (length data) (content bpb S cs) = map byte_of data)"

lemma stored_cong:
  assumes v: "volume_fits bpb n" and st: "stored bpb n S c data"
    and e: "\<And>x. in_table bpb x \<Longrightarrow> fat_entry bpb S x \<noteq> FAT12_CLUSTER_FREE \<Longrightarrow> fat_entry bpb S' x = fat_entry bpb S x"
    and s: "\<And>x i. data_cluster bpb n x \<Longrightarrow> fat_entry bpb S x \<noteq> FAT12_CLUSTER_FREE \<Longrightarrow> i \<in> set (cl_secs bpb x) \<Longrightarrow> S' i = S i"
  shows "stored bpb n S' c data"
proof -
  obtain cs where cs: "is_chain bpb S c cs" "\<forall>x \<in> set cs. data_cluster bpb n x \<and> fat_entry bpb S x \<noteq> FAT12_CLUSTER_FREE"
    "take (length data) (content bpb S cs) = map byte_of data" using st by (auto simp: stored_def)
  have ent: "fat_entry bpb S' x = fat_entry bpb S x" if "x \<in> set cs" for x
    by (rule e) (use cs(2) that data_cluster_range(3) [OF v, of x] in auto)
  have "content bpb S' cs = content bpb S cs"
    unfolding content_def by (intro arg_cong [where f = concat] map_cong refl) (use s cs(2) in auto)
  then show ?thesis unfolding stored_def using cs is_chain_cong [OF cs(1) ent] ent by (intro exI [of _ cs]) simp
qed

text \<open>
  C13: An open file whose chain holds \<open>data\<close> and whose size is the length of the data reads any part of it:
  \<open>fat12_read\<close> returns the bytes from the offset on, at most \<open>cap\<close> of them, across sectors and clusters.
\<close>

theorem fat12_read_stored:
  assumes "floppy_ok V info (fat12_disk s)" "volume_fits bpb 2880" "g_fat12_dev s = boot_dev info" "g_fat12 s = bpb"
    "fat12_file node_id s = Inr file'" "stored bpb 2880 (floppy_sec V (fat12_disk s)) (of_cluster file') data"
    "unat (of_size file') = length data"
  shows "fat12_read node_id offset cap s = Some (Inr (take (unat cap) (drop (unat offset) data)))"
proof -
  obtain cs where cs: "is_chain bpb (floppy_sec V (fat12_disk s)) (of_cluster file') cs" "\<And>x. x \<in> set cs \<Longrightarrow> data_cluster bpb 2880 x"
    "take (length data) (content bpb (floppy_sec V (fat12_disk s)) cs) = map byte_of data" using assms(6) by (auto simp: stored_def)
  show ?thesis by (rule boot_floppy.read_handle [OF assms(1,2,3,4) refl cs(2) cs(1,3) assms(5,7)])
qed

text \<open>The chain of clusters 2 and 3 with 600 zero bytes.\<close>

definition read_volume :: "(nat \<Rightarrow> u8 list) floppy fat12" where
  "read_volume = \<lparr>g_fat12_dev = boot_dev demo_info, g_fat12 = demo_bpb, g_fat12_cwd = ''/'', g_fat12_cwd_cluster = 0,
     g_fat12_open_files = (\<lambda>_. \<lparr>of_used = True, of_cluster = 2, of_size = 600, of_flags = FS_O_RDONLY, of_path = ''/a''\<rparr>),
     fat12_disk = chain_floppy\<rparr>"

lemma demo_volume: "volume_fits demo_bpb 2880"
  by (simp add: volume_fits_def table_fits_def demo_bpb_def data_start_def per_cluster_def total_of_def)

lemma chain_floppy_sectors:
  assumes "i < 2880" "\<not> fat_area demo_bpb i"
  shows "floppy_sec medium_view chain_floppy i = replicate 512 0"
proof -
  note t = demo_table
  obtain f where f: "fat12_dev_set_fat_entry (boot_dev demo_info) demo_bpb 3 FAT12_CLUSTER_EOC blank_floppy = (Inr (), f)" "floppy_ok medium_view demo_info f"
    "fat_step demo_bpb 2880 3 (FAT12_CLUSTER_EOC AND 0xFFF) (floppy_sec medium_view blank_floppy) (floppy_sec medium_view f)"
    using boot_floppy.set_fat_entry_step [OF blank_floppy_ok t(1,3), of FAT12_CLUSTER_EOC] by blast
  obtain f' where f': "fat12_dev_set_fat_entry (boot_dev demo_info) demo_bpb 2 3 f = (Inr (), f')"
    "fat_step demo_bpb 2880 2 (3 AND 0xFFF) (floppy_sec medium_view f) (floppy_sec medium_view f')"
    using boot_floppy.set_fat_entry_step [OF f(2) t(1,2), of 3] by blast
  have "chain_floppy = f'" using f(1) f'(1) by (simp add: chain_floppy_def)
  moreover have "floppy_sec medium_view blank_floppy i = replicate 512 0" by (simp add: floppy_sec_def blank_floppy_def medium_view_def)
  ultimately show ?thesis using f(3) f'(2) assms by (simp add: fat_step_def)
qed

lemma chain_floppy_stored: "stored demo_bpb 2880 (floppy_sec medium_view chain_floppy) 2 (replicate 600 (CHR 0x00))"
proof -
  let ?S = "floppy_sec medium_view chain_floppy"
  have ch: "is_chain demo_bpb ?S 2 [2, 3]" by (rule chain_floppy(2))
  have secs: "cl_secs demo_bpb 2 = [33]" "cl_secs demo_bpb 3 = [34]"
    by (simp_all add: cl_secs_def cl_base_def data_start_def per_cluster_def demo_bpb_def upt_rec)
  have "?S 33 = replicate 512 0" "?S 34 = replicate 512 0"
    by (rule chain_floppy_sectors; simp add: fat_area_def demo_bpb_def)+
  then have "content demo_bpb ?S [2, 3] = replicate 512 0 @ replicate 512 0" by (simp add: content_def secs)
  also have "\<dots> = replicate 1024 0" by (simp only: replicate_add [symmetric]) simp
  finally have "take 600 (content demo_bpb ?S [2, 3]) = map byte_of (replicate 600 (CHR 0x00))"
    by (simp only: take_replicate map_replicate) (simp add: byte_of_def)
  moreover have "fat_entry demo_bpb ?S 2 \<noteq> 0" "fat_entry demo_bpb ?S 3 \<noteq> 0" using chain_floppy(3,4) by simp_all
  ultimately show ?thesis unfolding stored_def using ch
    by (intro exI [of _ "[2, 3]"]) (simp add: data_cluster_def total_of_def data_start_def per_cluster_def demo_bpb_def)
qed

theorem fat12_read_stored_witness:
  "fat12_read 1 510 4 read_volume = Some (Inr (replicate 4 (CHR 0x00)))"
  using fat12_read_stored [of medium_view demo_info read_volume demo_bpb 1 "g_fat12_open_files read_volume 0" "replicate 600 (CHR 0x00)" 510 4]
    chain_floppy(1) demo_volume chain_floppy_stored
  by (simp add: read_volume_def fat12_file_def)

end
