(* ===== verification/Fat12_Files.thy ===== *)
theory Fat12_Files
  imports Fat12_Data
begin

text \<open>
  Files in the root directory: the slots of a directory, its entries, and the whole way of a new file from
  the write on the device to its entry and its chain.
\<close>

subsection \<open>The slots of a directory\<close>

fun scan_list :: "(u32 \<Rightarrow> nat \<Rightarrow> u8 list \<Rightarrow> unit \<Rightarrow> (unit, 'r) scan) \<Rightarrow> (nat \<Rightarrow> u8 list) \<Rightarrow> (u32 \<times> nat) list \<Rightarrow> (unit, 'r) scan" where
  "scan_list f S [] = Go ()"
| "scan_list f S ((lba, i) # ps) =
     (case f lba i (entry_at (S (unat lba)) i) () of Stop r \<Rightarrow> Stop r | Go _ \<Rightarrow> scan_list f S ps)"

lemma scan_list_append:
  "scan_list f S (ps @ qs) = (case scan_list f S ps of Stop r \<Rightarrow> Stop r | Go _ \<Rightarrow> scan_list f S qs)"
  by (induction ps rule: scan_list.induct [of _ f S]) (auto split: scan.split)

lemma scan_entries_flat: "scan_entries (f lba) (S (unat lba)) is () = scan_list f S (map (Pair lba) is)"
  by (induction "is") (auto split: scan.split)

lemma scan_sectors_flat:
  assumes "\<And>lba. lba \<in> set lbas \<Longrightarrow> rd lba = Inr (S (unat lba))"
  shows "scan_sectors rd f lbas () = Inr (scan_list f S (List.product lbas [0..<16]))"
  using assms
proof (induction lbas)
  case (Cons lba lbas)
  then show ?case
    by (simp add: scan_entries_flat scan_list_append del: upt_rec_numeral) (auto split: scan.split)
qed simp

lemma free_slot:
  assumes "scan_list free_entry_step S ps = Stop (Inr ref)"
  shows "\<exists>us lba i vs. ps = us @ (lba, i) # vs \<and> ref = \<lparr>ref_lba = lba, ref_offset = i * 32\<rparr> \<and>
    (\<forall>(l, j) \<in> set us. entry_at (S (unat l)) j ! 0 \<noteq> FAT12_ENTRY_FREE \<and> entry_at (S (unat l)) j ! 0 \<noteq> FAT12_ENTRY_DELETED)"
  using assms
proof (induction ps)
  case (Cons p ps)
  obtain lba i where p: "p = (lba, i)" by (cases p)
  show ?case
  proof (cases "entry_at (S (unat lba)) i ! 0 = FAT12_ENTRY_FREE \<or> entry_at (S (unat lba)) i ! 0 = FAT12_ENTRY_DELETED")
    case True
    then have "ref = \<lparr>ref_lba = lba, ref_offset = i * 32\<rparr>" using Cons.prems p by (auto simp: free_entry_step_def)
    then show ?thesis using p by (intro exI [of _ "[]"]) simp
  next
    case False
    then have "free_entry_step lba i (entry_at (S (unat lba)) i) () = Go ()" by (simp add: free_entry_step_def)
    then have "scan_list free_entry_step S ps = Stop (Inr ref)" using Cons.prems p by simp
    then obtain us l j vs where "ps = us @ (l, j) # vs" "ref = \<lparr>ref_lba = l, ref_offset = j * 32\<rparr>"
      "\<forall>(l, j) \<in> set us. entry_at (S (unat l)) j ! 0 \<noteq> FAT12_ENTRY_FREE \<and> entry_at (S (unat l)) j ! 0 \<noteq> FAT12_ENTRY_DELETED"
      using Cons.IH by blast
    then show ?thesis using p False by (intro exI [of _ "p # us"] exI [of _ l] exI [of _ j] exI [of _ vs]) simp
  qed
qed simp

text \<open>A search that finds nothing passes all slots before the first free one.\<close>

lemma find_passes:
  assumes "scan_list (find_entry_step name83) S (us @ vs) = Go () \<or> scan_list (find_entry_step name83) S (us @ vs) = Stop (Inl FS_ERR_NOT_FOUND)"
    "\<forall>(l, j) \<in> set us. entry_at (S (unat l)) j ! 0 \<noteq> FAT12_ENTRY_FREE"
    "\<And>l j. (l, j) \<in> set us \<Longrightarrow> entry_at (S' (unat l)) j = entry_at (S (unat l)) j"
  shows "scan_list (find_entry_step name83) S' us = Go ()"
  using assms
proof (induction us)
  case (Cons p us)
  obtain l j where p: "p = (l, j)" by (cases p)
  have "find_entry_step name83 l j (entry_at (S (unat l)) j) () = Go ()"
    using Cons.prems(1,2) p by (auto simp: find_entry_step_def Let_def split: if_splits)
  then show ?case using Cons.IH Cons.prems p by simp
qed simp

subsection \<open>Entries\<close>

lemma le16_put: "(ucast (ucast (v AND 0xFF) :: u8) :: u16) OR push_bit 8 (ucast (ucast (drop_bit 8 v AND 0xFF) :: u8)) = (v :: u16)"
  unfolding fat_masks by (rule bit_word_eqI) (auto simp: bit_simps)

lemma dir_entry_fields:
  assumes "length name83 = 11"
  shows "length (dir_entry name83 attr cluster sz) = 32" "dir_entry name83 attr cluster sz ! 0 = name83 ! 0"
    "dir_entry name83 attr cluster sz ! 11 = attr" "take 11 (dir_entry name83 attr cluster sz) = name83"
    "fat12_le16 (dir_entry name83 attr cluster sz) 26 = cluster"
  using assms le16_put [of cluster]
  by (simp_all add: dir_entry_def nth_append fat12_le16_def nth_Cons')

lemma entry_at_put:
  assumes "length xs = 512" "length e = 32" "i < 16" "j < 16"
  shows "entry_at (put_at (i * 32) e xs) j = (if j = i then e else entry_at xs j)"
proof -
  have l: "length (put_at (i * 32) e xs) = 512" using assms by (simp add: put_at_def min_def)
  have n: "put_at (i * 32) e xs ! k = (if i * 32 \<le> k \<and> k < i * 32 + 32 then e ! (k - i * 32) else xs ! k)" if "k < 512" for k
    using assms that by (auto simp: put_at_def nth_append min_def not_less)
  show ?thesis
  proof (cases "j = i")
    case True
    show ?thesis unfolding entry_at_def True if_P [OF refl]
      by (rule nth_equalityI) (use assms l n in auto)
  next
    case False
    then have "j * 32 + 32 \<le> i * 32 \<or> i * 32 + 32 \<le> j * 32" by linarith
    then show ?thesis using False unfolding entry_at_def
      by (simp only: if_False, intro nth_equalityI) (use assms l n in auto)
  qed
qed

lemma length_put_at: "off + length e \<le> length xs \<Longrightarrow> length (put_at off e xs) = length xs"
  by (simp add: put_at_def)

lemma file_name_loop_length: "file_name_loop cs b e x out = Inr r \<Longrightarrow> length r = length out"
  by (induction cs b e x out rule: file_name_loop.induct) (auto split: if_splits)

lemma make_83_file_name_length: "fat12_make_83_file_name name = Inr r \<Longrightarrow> length r = 11"
  by (auto simp: fat12_make_83_file_name_def dest: file_name_loop_length split: if_splits)

lemma locate_length:
  assumes "fat12_locate fat12_make_83_file_name dev path d = Some (Inr (bpb, leaf83, parent))"
  shows "length leaf83 = 11"
  using assms make_83_file_name_length unfolding fat12_locate_def
  by (auto simp: r_bind_Inr split: sum.splits prod.splits)

subsection \<open>The root directory\<close>

definition root_slots :: "fat12_bpb \<Rightarrow> (u32 \<times> nat) list" where
  "root_slots bpb = List.product (root_lbas bpb) [0..<16]"

lemma root_lba_range:
  assumes v: "volume_fits bpb n" and l: "lba \<in> set (root_lbas bpb)"
  shows "unat lba < n" "\<not> fat_area bpb (unat lba)" "\<And>c. unat lba \<notin> set (cl_secs bpb c)"
proof -
  note v' = v [unfolded volume_fits_def data_start_def]
  obtain i where i: "i < unat (root_dir_sectors bpb)" "lba = root_dir_lba bpb + of_nat i" using l by (auto simp: root_lbas_def)
  have "i < 2 ^ 32" using i(1) v' by linarith
  then have u: "unat (of_nat i :: u32) = i" by (rule unat_of_nat_u32)
  have "unat (root_dir_lba bpb) + i < 2 ^ 32" using i(1) v' by linarith
  then have lba: "unat lba = unat (root_dir_lba bpb) + i" unfolding i(2) by (subst unat_add_no_wrap) (simp_all add: u)
  show "unat lba < n" using lba i(1) v' by linarith
  show "\<not> fat_area bpb (unat lba)" using lba v' by (simp add: fat_area_def)
  show "unat lba \<notin> set (cl_secs bpb c)" for c using lba i(1) by (simp add: cl_secs_def cl_base_def data_start_def)
qed

lemma root_slots_distinct: "distinct (root_slots bpb)"
proof -
  have "inj_on (\<lambda>i. root_dir_lba bpb + of_nat i) {0..<unat (root_dir_sectors bpb)}"
  proof (rule inj_onI)
    fix i j assume ij: "i \<in> {0..<unat (root_dir_sectors bpb)}" "j \<in> {0..<unat (root_dir_sectors bpb)}"
      "root_dir_lba bpb + of_nat i = root_dir_lba bpb + of_nat j"
    then have "unat (of_nat i :: u32) = unat (of_nat j :: u32)" by simp
    moreover have "i < 2 ^ 32" "j < 2 ^ 32" using ij(1,2) unat_u32_less [of "root_dir_sectors bpb"] by auto
    ultimately show "i = j" by (simp only: unat_of_nat_u32)
  qed
  then have "distinct (root_lbas bpb)" by (simp add: root_lbas_def distinct_map)
  then show ?thesis unfolding root_slots_def by (intro distinct_product) auto
qed

text \<open>The cluster in the entry of a file; an empty file has none.\<close>

definition first_of :: "u32 list \<Rightarrow> u32" where
  "first_of cs = (if cs = [] then 0 else hd cs)"

context disk
begin

lemma root_scan:
  assumes "good d" "volume_fits bpb n"
  shows "scan_dir (dev_rd (Some dev) d) nxt bpb f 0 () = Some (Inr (scan_list f (sec d) (root_slots bpb)))"
  unfolding scan_dir_def root_slots_def if_P [OF refl]
  by (subst scan_sectors_flat [of _ _ "sec d"]) (use read_sec [OF assms(1)] root_lba_range(1) [OF assms(2)] in \<open>auto simp: dev_rd_def\<close>)

lemma find_entry_root:
  assumes "good d" "volume_fits bpb n"
  shows "fat12_dev_find_entry (Some dev) bpb 0 name83 d =
    Some (case scan_list (find_entry_step name83) (sec d) (root_slots bpb) of Go _ \<Rightarrow> Inl FS_ERR_NOT_FOUND | Stop r \<Rightarrow> r)"
  by (simp add: fat12_dev_find_entry_def scan_result_def root_scan [OF assms])

lemma find_free_root:
  assumes "good d" "volume_fits bpb n"
  shows "fat12_dev_find_free_entry (Some dev) bpb 0 d =
    Some (case scan_list free_entry_step (sec d) (root_slots bpb) of Go _ \<Rightarrow> Inl FS_ERR_NO_SPACE | Stop r \<Rightarrow> r)"
  by (simp add: fat12_dev_find_free_entry_def scan_result_def root_scan [OF assms])

lemma write_entry_ok:
  assumes d: "good d" and ref: "unat lba < n" "i < 16" and len: "length name83 = 11"
  shows "\<exists>d'. fat12_dev_write_entry (Some dev) \<lparr>ref_lba = lba, ref_offset = i * 32\<rparr> name83 attr cluster sz d = (Inr (), d') \<and> good d' \<and>
    sec d' = (sec d)(unat lba := put_at (i * 32) (dir_entry name83 attr cluster sz) (sec d (unat lba)))"
proof -
  have l: "length (sec d (unat lba)) = 512" using sec_length d ref(1) by simp
  have "length (put_at (i * 32) (dir_entry name83 attr cluster sz) (sec d (unat lba))) = 512"
    using length_put_at [of "i * 32" "dir_entry name83 attr cluster sz" "sec d (unat lba)"] dir_entry_fields(1) [OF len] l ref(2) by simp
  then obtain d' where d': "block_core_write (Some dev) lba 1 (put_at (i * 32) (dir_entry name83 attr cluster sz) (sec d (unat lba))) d = (Inr (), d')"
    "good d'" "sec d' = (sec d)(unat lba := put_at (i * 32) (dir_entry name83 attr cluster sz) (sec d (unat lba)))"
    using write_sec [OF d ref(1)] by blast
  then show ?thesis
    using read_sec [OF d ref(1)] ref(2) by (intro exI [of _ d']) (simp add: fat12_dev_write_entry_def fat12_image_write_dir_entry_def)
qed

text \<open>Creating a file in the root directory.\<close>

lemma create_ok:
  assumes d: "good d" and v: "volume_fits bpb n"
    and loc: "fat12_locate fat12_make_83_file_name (Some dev) path d = Some (Inr (bpb, leaf83, 0))"
    and nf: "fat12_dev_find_entry (Some dev) bpb 0 leaf83 d = Some (Inl FS_ERR_NOT_FOUND)"
    and fr: "fat12_dev_find_free_entry (Some dev) bpb 0 d = Some (Inr ref)"
    and name: "leaf83 ! 0 \<noteq> FAT12_ENTRY_FREE" "leaf83 ! 0 \<noteq> FAT12_ENTRY_DELETED"
    and space: "length data \<le> card (free_clusters bpb n (sec d)) * (512 * per_cluster bpb)"
  shows "\<exists>d' cs. fat12_core_write_file_on_device (Some dev) path data d = Some (Inr (), d') \<and> good d' \<and>
    fat12_dev_find_entry (Some dev) bpb 0 leaf83 d' = Some (Inr (first_of cs, 0, ref)) \<and>
    stored bpb n (sec d') (first_of cs) data \<and> set cs \<subseteq> free_clusters bpb n (sec d) \<and>
    (\<forall>x. in_table bpb x \<and> x \<notin> set cs \<longrightarrow> fat_entry bpb (sec d') x = fat_entry bpb (sec d) x) \<and>
    ref_lba ref \<in> set (root_lbas bpb) \<and>
    (\<forall>i < n. \<not> fat_area bpb i \<and> i \<noteq> unat (ref_lba ref) \<and> (\<forall>c \<in> set cs. i \<notin> set (cl_secs bpb c)) \<longrightarrow> sec d' i = sec d i)"
proof -
  note len = locate_length [OF loc]
  have "scan_list free_entry_step (sec d) (root_slots bpb) = Stop (Inr ref)"
    using fr by (auto simp: find_free_root [OF d v] split: scan.splits)
  then obtain us lba i vs where ps: "root_slots bpb = us @ (lba, i) # vs" and ref: "ref = \<lparr>ref_lba = lba, ref_offset = i * 32\<rparr>"
    and us: "\<forall>(l, j) \<in> set us. entry_at (sec d (unat l)) j ! 0 \<noteq> FAT12_ENTRY_FREE \<and> entry_at (sec d (unat l)) j ! 0 \<noteq> FAT12_ENTRY_DELETED"
    using free_slot by blast
  have "(lba, i) \<in> set (root_slots bpb)" using ps by simp
  then have li: "lba \<in> set (root_lbas bpb)" "i < 16" by (auto simp: root_slots_def)
  note rl = root_lba_range [OF v]
  obtain d1 cs where w: "write_clusters (Some dev) bpb (write_no_space (Some dev) bpb ref leaf83 False) data 0 0 d =
      Some (Inr (if (0 :: u32) = 0 \<and> cs \<noteq> [] then hd cs else 0), d1)" "good d1" "wrote bpb n (sec d) (sec d1) 0 data cs"
    using write_clusters_ok [OF v d space, of 0] by blast
  note w' = w(3) [unfolded wrote_def]
  obtain d2 where e: "fat12_dev_write_entry (Some dev) ref leaf83 0 (ucast (first_of cs)) (of_nat (length data)) d1 = (Inr (), d2)" "good d2"
    "sec d2 = (sec d1)(unat lba := put_at (i * 32) (dir_entry leaf83 0 (ucast (first_of cs)) (of_nat (length data))) (sec d1 (unat lba)))"
    using write_entry_ok [OF w(2) rl(1) [OF li(1)] li(2) len] unfolding ref by blast
  have dc: "data_cluster bpb n x" if "x \<in> set cs" for x using that w' by (auto simp: free_clusters_def)
  have run: "fat12_core_write_file_on_device (Some dev) path data d = Some (Inr (), d2)"
    using loc nf fr w(1) e(1) by (cases "cs = []") (simp_all add: fat12_core_write_file_on_device_def first_of_def)
  have ent: "fat_entry bpb (sec d2) x = fat_entry bpb (sec d1) x" if "in_table bpb x" for x
    by (rule fat_entry_cong [OF _ that, of n]) (use v e(3) rl(2) [OF li(1)] in \<open>auto simp: volume_fits_def\<close>)
  have tab: "in_table bpb x" if "x \<in> set cs" for x using data_cluster_range(3) [OF v dc [OF that]] .
  have "is_chain bpb (sec d1) (first_of cs) cs" using w' by (cases "cs = []") (simp_all add: first_of_def)
  then have chain: "is_chain bpb (sec d2) (first_of cs) cs" by (rule is_chain_cong) (use ent tab in simp)
  have "content bpb (sec d2) cs = content bpb (sec d1) cs"
    unfolding content_def using e(3) rl(3) [OF li(1)] by (auto intro!: arg_cong [where f = concat] map_cong)
  then have cont: "take (length data) (content bpb (sec d2) cs) = map byte_of data" using w' by simp
  let ?e = "dir_entry leaf83 0 (ucast (first_of cs)) (of_nat (length data))"
  have root: "sec d1 (unat l) = sec d (unat l)" if "l \<in> set (root_lbas bpb)" for l using w' rl [OF that] by blast
  have slot: "entry_at (sec d2 (unat l)) j = (if (l, j) = (lba, i) then ?e else entry_at (sec d (unat l)) j)" if "(l, j) \<in> set (root_slots bpb)" for l j
  proof -
    have lj: "l \<in> set (root_lbas bpb)" "j < 16" using that by (auto simp: root_slots_def)
    have "length (sec d1 (unat lba)) = 512" using sec_length w(2) rl(1) [OF li(1)] by simp
    then show ?thesis using e(3) entry_at_put [of "sec d1 (unat lba)" ?e i j] dir_entry_fields(1) [OF len] lj li(2) root
      by (cases "l = lba") (auto dest: unsigned_word_eqI)
  qed
  have "distinct (us @ (lba, i) # vs)" using root_slots_distinct [of bpb] ps by simp
  then have before: "entry_at (sec d2 (unat l)) j = entry_at (sec d (unat l)) j" if "(l, j) \<in> set us" for l j
    using slot [of l j] that ps by auto
  have "scan_list (find_entry_step leaf83) (sec d2) us = Go ()"
  proof (rule find_passes [where S = "sec d" and vs = "(lba, i) # vs"])
    show "scan_list (find_entry_step leaf83) (sec d) (us @ (lba, i) # vs) = Go () \<or>
        scan_list (find_entry_step leaf83) (sec d) (us @ (lba, i) # vs) = Stop (Inl FS_ERR_NOT_FOUND)"
      using nf unfolding find_entry_root [OF d v] ps by (auto split: scan.splits)
  qed (use us before in auto)
  moreover have "find_entry_step leaf83 lba i ?e () = Stop (Inr (first_of cs, 0, ref))"
  proof -
    have "ucast (ucast (first_of cs) :: u16) = first_of cs"
      using cluster_ucast(2) [OF data_cluster_range(2) [OF v dc [of "hd cs"]]] by (simp add: first_of_def)
    then show ?thesis using name dir_entry_fields(2-5) [OF len] by (simp add: find_entry_step_def ref)
  qed
  ultimately have found: "fat12_dev_find_entry (Some dev) bpb 0 leaf83 d2 = Some (Inr (first_of cs, 0, ref))"
    unfolding find_entry_root [OF e(2) v] ps using slot [of lba i] ps by (simp add: scan_list_append)
  have "ref_lba ref \<in> set (root_lbas bpb)" using li(1) ref by simp
  moreover have "sec d2 j = sec d j" if "j < n" "\<not> fat_area bpb j" "j \<noteq> unat (ref_lba ref)" "\<forall>c \<in> set cs. j \<notin> set (cl_secs bpb c)" for j
    using w' e(3) that ref by simp
  moreover have "fat_entry bpb (sec d2) x = fat_entry bpb (sec d) x" if "in_table bpb x" "x \<notin> set cs" for x
    using w' ent that by simp
  moreover have "stored bpb n (sec d2) (first_of cs) data"
    unfolding stored_def using chain cont dc ent tab w' by (intro exI [of _ cs]) simp
  ultimately show ?thesis using run e(2) found w' by (intro exI [of _ d2] exI [of _ cs]) simp
qed

end

subsection \<open>New files on the boot floppy\<close>

text \<open>
  C11: Writing a new file into the root directory of the boot floppy, when there is a free entry and
  enough free clusters: the call succeeds, a search for the 8.3 name finds the entry, the chain of its
  cluster holds the data, and every file stored before is still stored.
\<close>

theorem fat12_create_stored:
  assumes ok: "floppy_ok V info f" and v: "volume_fits bpb 2880"
    and loc: "fat12_locate fat12_make_83_file_name (boot_dev info) path f = Some (Inr (bpb, leaf83, 0))"
    and nf: "fat12_dev_find_entry (boot_dev info) bpb 0 leaf83 f = Some (Inl FS_ERR_NOT_FOUND)"
    and fr: "fat12_dev_find_free_entry (boot_dev info) bpb 0 f = Some (Inr ref)"
    and name: "leaf83 ! 0 \<noteq> FAT12_ENTRY_FREE" "leaf83 ! 0 \<noteq> FAT12_ENTRY_DELETED"
    and space: "length data \<le> card (free_clusters bpb 2880 (floppy_sec V f)) * (512 * per_cluster bpb)"
  shows "\<exists>f' first. fat12_core_write_file_on_device (boot_dev info) path data f = Some (Inr (), f') \<and> floppy_ok V info f' \<and>
    fat12_dev_find_entry (boot_dev info) bpb 0 leaf83 f' = Some (Inr (first, 0, ref)) \<and>
    stored bpb 2880 (floppy_sec V f') first data \<and>
    (\<forall>c old. stored bpb 2880 (floppy_sec V f) c old \<longrightarrow> stored bpb 2880 (floppy_sec V f') c old)"
proof -
  let ?S = "floppy_sec V f"
  obtain f' cs where f': "fat12_core_write_file_on_device (boot_dev info) path data f = Some (Inr (), f')" "floppy_ok V info f'"
    "fat12_dev_find_entry (boot_dev info) bpb 0 leaf83 f' = Some (Inr (first_of cs, 0, ref))"
    "stored bpb 2880 (floppy_sec V f') (first_of cs) data" "set cs \<subseteq> free_clusters bpb 2880 ?S"
    "\<forall>x. in_table bpb x \<and> x \<notin> set cs \<longrightarrow> fat_entry bpb (floppy_sec V f') x = fat_entry bpb ?S x" "ref_lba ref \<in> set (root_lbas bpb)"
    "\<forall>i < 2880. \<not> fat_area bpb i \<and> i \<noteq> unat (ref_lba ref) \<and> (\<forall>c \<in> set cs. i \<notin> set (cl_secs bpb c)) \<longrightarrow> floppy_sec V f' i = ?S i"
    using boot_floppy.create_ok [OF ok v loc nf fr name space] by (elim exE conjE) (rule that)
  have "stored bpb 2880 (floppy_sec V f') c old" if st: "stored bpb 2880 ?S c old" for c old
  proof (rule stored_cong [OF v st])
    show "fat_entry bpb (floppy_sec V f') x = fat_entry bpb ?S x" if "in_table bpb x" "fat_entry bpb ?S x \<noteq> FAT12_CLUSTER_FREE" for x
      using f'(5,6) that by (auto simp: free_clusters_def)
    show "floppy_sec V f' i = ?S i" if x: "data_cluster bpb 2880 x" "fat_entry bpb ?S x \<noteq> FAT12_CLUSTER_FREE" "i \<in> set (cl_secs bpb x)" for x i
    proof -
      have "i \<notin> set (cl_secs bpb c)" if "c \<in> set cs" for c
        using cl_secs_disjoint [of x c bpb] f'(5) that x by (auto simp: free_clusters_def data_cluster_def)
      moreover have "i \<noteq> unat (ref_lba ref)" using root_lba_range(3) [OF v f'(7), of x] x(3) by blast
      ultimately show ?thesis using f'(8) cl_secs_data [OF v x(1,3)] by blast
    qed
  qed
  then show ?thesis using f'(1-4) by blast
qed

text \<open>A formatted floppy without files.\<close>

definition demo_boot_sector :: "u8 list" where
  "demo_boot_sector = [0xEB, 0x3C, 0x90, 0, 0, 0, 0, 0, 0, 0, 0, 0x00, 0x02, 1, 1, 0, 2, 0xE0, 0x00, 0x40, 0x0B, 0xF0, 9, 0] @ replicate 488 0"

definition formatted_floppy :: "(nat \<Rightarrow> u8 list) floppy" where
  "formatted_floppy = snd (block_core_write (boot_dev demo_info) 0 1 demo_boot_sector blank_floppy)"

lemma formatted_floppy:
  "floppy_ok medium_view demo_info formatted_floppy"
  "floppy_sec medium_view formatted_floppy = (\<lambda>i. if i = 0 then demo_boot_sector else replicate 512 0)"
proof -
  have "length demo_boot_sector = 512" by (simp add: demo_boot_sector_def)
  then obtain f where f: "block_core_write (boot_dev demo_info) 0 1 demo_boot_sector blank_floppy = (Inr (), f)" "floppy_ok medium_view demo_info f"
    "floppy_sec medium_view f = (floppy_sec medium_view blank_floppy)(unat (0 :: u32) := demo_boot_sector)"
    using boot_floppy.write_sec [OF blank_floppy_ok, of 0 demo_boot_sector] by auto
  then have e: "formatted_floppy = f" by (simp add: formatted_floppy_def)
  show "floppy_ok medium_view demo_info formatted_floppy" using f(2) e by simp
  show "floppy_sec medium_view formatted_floppy = (\<lambda>i. if i = 0 then demo_boot_sector else replicate 512 0)"
    using f(3) e by (auto simp: fun_eq_iff floppy_sec_def blank_floppy_def medium_view_def)
qed

lemma formatted_locate:
  "fat12_locate fat12_make_83_file_name (boot_dev demo_info) ''/a'' formatted_floppy = Some (Inr (demo_bpb, 0x41 # replicate 10 0x20, 0))"
proof -
  have rd: "block_core_read (boot_dev demo_info) 0 1 formatted_floppy = Inr demo_boot_sector"
    using boot_floppy.read_sec [OF formatted_floppy(1), of 0] by (simp add: formatted_floppy(2))
  have "fat12_parse_bpb demo_boot_sector zero_bpb = (Inr (), demo_bpb)"
    by (simp add: fat12_parse_bpb_def demo_boot_sector_def fat12_le16_def fat12_le32_def zero_bpb_def demo_bpb_def Let_def nth_append)
  moreover have "fat12_split_create_path ''/a'' = Inr (''/'', ''a'')" by (simp add: fat12_split_create_path_def Let_def)
  moreover have "fat12_make_83_file_name ''a'' = Inr (0x41 # replicate 10 0x20)"
  proof -
    have "replicate 11 (0x20 :: u8) = 0x20 # replicate 10 0x20" by (simp only: replicate_Suc [symmetric]) simp
    then show ?thesis by (simp add: fat12_make_83_file_name_def fat12_upper_def byte_of_def)
  qed
  moreover have "fat12_dev_resolve_dir (boot_dev demo_info) demo_bpb ''/'' formatted_floppy = Some (Inr 0)"
  proof -
    have "path_comps ''/'' = []" by code_simp
    then show ?thesis by (simp add: fat12_dev_resolve_dir_def)
  qed
  ultimately show ?thesis using rd by (simp add: fat12_locate_def)
qed

lemma finite_free: "finite (free_clusters bpb n S)"
proof (rule finite_imageD)
  show "finite (unat ` free_clusters bpb n S)"
    by (rule finite_subset [of _ "{..<total_of bpb n + 2}"]) (auto simp: free_clusters_def data_cluster_def)
  show "inj_on unat (free_clusters bpb n S)" by (auto simp: inj_on_def dest: unsigned_word_eqI)
qed

lemma formatted_slots: "\<exists>vs. root_slots demo_bpb = (19, 0) # vs"
  by (simp add: root_slots_def root_lbas_def demo_bpb_def upt_conv_Cons)

lemma formatted_search:
  "fat12_dev_find_entry (boot_dev demo_info) demo_bpb 0 name83 formatted_floppy = Some (Inl FS_ERR_NOT_FOUND)"
  "fat12_dev_find_free_entry (boot_dev demo_info) demo_bpb 0 formatted_floppy = Some (Inr \<lparr>ref_lba = 19, ref_offset = 0\<rparr>)"
proof -
  obtain vs where vs: "root_slots demo_bpb = (19, 0) # vs" using formatted_slots by blast
  have "entry_at (floppy_sec medium_view formatted_floppy (unat (19 :: u32))) 0 ! 0 = FAT12_ENTRY_FREE"
    by (simp add: formatted_floppy(2) entry_at_def)
  then show "fat12_dev_find_entry (boot_dev demo_info) demo_bpb 0 name83 formatted_floppy = Some (Inl FS_ERR_NOT_FOUND)"
    "fat12_dev_find_free_entry (boot_dev demo_info) demo_bpb 0 formatted_floppy = Some (Inr \<lparr>ref_lba = 19, ref_offset = 0\<rparr>)"
    unfolding boot_floppy.find_entry_root [OF formatted_floppy(1) demo_volume] boot_floppy.find_free_root [OF formatted_floppy(1) demo_volume] vs
    by (simp_all add: find_entry_step_def free_entry_step_def)
qed

lemma formatted_space: "length ''hello'' \<le> card (free_clusters demo_bpb 2880 (floppy_sec medium_view formatted_floppy)) * (512 * per_cluster demo_bpb)"
proof -
  have "fat_entry demo_bpb (floppy_sec medium_view formatted_floppy) 2 = 0"
    by (simp add: fat_entry_def disk_byte_def formatted_floppy(2) fat_at_def fat_off_def demo_bpb_def fat_decode_def)
  then have "2 \<in> free_clusters demo_bpb 2880 (floppy_sec medium_view formatted_floppy)"
    by (simp add: free_clusters_def data_cluster_def total_of_def data_start_def per_cluster_def demo_bpb_def)
  then have "0 < card (free_clusters demo_bpb 2880 (floppy_sec medium_view formatted_floppy))" using finite_free card_gt_0_iff by blast
  then show ?thesis by (simp add: per_cluster_def demo_bpb_def)
qed

theorem fat12_create_stored_witness:
  "\<exists>f' first. fat12_core_write_file_on_device (boot_dev demo_info) ''/a'' ''hello'' formatted_floppy = Some (Inr (), f') \<and>
    fat12_dev_find_entry (boot_dev demo_info) demo_bpb 0 (0x41 # replicate 10 0x20) f' = Some (Inr (first, 0, \<lparr>ref_lba = 19, ref_offset = 0\<rparr>)) \<and>
    stored demo_bpb 2880 (floppy_sec medium_view f') first ''hello''"
proof -
  have "(0x41 # replicate 10 0x20 :: u8 list) ! 0 \<noteq> FAT12_ENTRY_FREE" "(0x41 # replicate 10 0x20 :: u8 list) ! 0 \<noteq> FAT12_ENTRY_DELETED" by simp_all
  from fat12_create_stored [OF formatted_floppy(1) demo_volume formatted_locate formatted_search this formatted_space]
  show ?thesis by blast
qed

end
