(* ===== verification/Fat12_Names.thy ===== *)
theory Fat12_Names
  imports Fat12_Core
begin

text \<open>
  The 8.3 form of a name and back: the eleven bytes that the driver writes for a file are displayed as the
  name in lower case, and a search for the name accepts them.
\<close>

subsection \<open>Letters\<close>

lemma of_char_upper: "(of_char (fat12_upper c) :: nat) = (if 97 \<le> (of_char c :: nat) \<and> (of_char c :: nat) \<le> 122 then of_char c - 32 else of_char c)"
  by (auto simp: fat12_upper_def)

lemma of_char_lower: "(of_char (fat12_lower c) :: nat) = (if 65 \<le> (of_char c :: nat) \<and> (of_char c :: nat) \<le> 90 then of_char c + 32 else of_char c)"
  by (auto simp: fat12_lower_def)

lemma char_eqI: "(of_char c :: nat) = of_char d \<Longrightarrow> c = d"
  by simp

lemma fat12_lower_upper: "fat12_lower (fat12_upper c) = fat12_lower c"
  by (rule char_eqI) (auto simp: of_char_lower of_char_upper)

lemma fat12_lower_idem: "fat12_lower (fat12_lower c) = fat12_lower c"
  by (rule char_eqI) (auto simp: of_char_lower)

lemma fat12_lower_nul: "fat12_lower c = CHR 0x00 \<Longrightarrow> c = CHR 0x00"
  using of_char_lower [of c] by (intro char_eqI) (auto split: if_splits)

lemma fat12_upper_space: "fat12_upper c = CHR '' '' \<longleftrightarrow> c = CHR '' ''"
proof
  assume u: "fat12_upper c = CHR '' ''"
  have "\<not> (97 \<le> (of_char c :: nat) \<and> (of_char c :: nat) \<le> 122)"
  proof
    assume r: "97 \<le> (of_char c :: nat) \<and> (of_char c :: nat) \<le> 122"
    then have "(of_char (fat12_upper c) :: nat) = of_char c - 32" by (simp add: of_char_upper)
    then show False using u r by auto
  qed
  then show "c = CHR '' ''" using u by (simp only: fat12_upper_def if_False)
qed (simp add: fat12_upper_def)

text \<open>The bytes of a part of a name.\<close>

definition up83 :: "string \<Rightarrow> u8 list" where
  "up83 xs = map (\<lambda>c. byte_of (fat12_upper c)) xs"

lemma up83_low: "map (\<lambda>b. fat12_lower (char_of_byte b)) (up83 xs) = map fat12_lower xs"
  by (simp add: up83_def fat12_lower_upper)

lemma length_up83: "length (up83 xs) = length xs"
  by (simp add: up83_def)

lemma up83_space: "CHR '' '' \<notin> set xs \<Longrightarrow> 0x20 \<notin> set (up83 xs)"
proof
  assume xs: "CHR '' '' \<notin> set xs" and "0x20 \<in> set (up83 xs)"
  then obtain c where c: "c \<in> set xs" "byte_of (fat12_upper c) = 0x20" by (auto simp: up83_def)
  have "char_of_byte (byte_of (fat12_upper c)) = CHR '' ''" unfolding c(2) char_of_byte_def by (rule char_eqI) simp
  then show False using c(1) xs by (simp add: fat12_upper_space)
qed

lemma trim_padded: "0x20 \<notin> set xs \<Longrightarrow> fat12_trim (xs @ replicate n 0x20) = xs"
proof -
  assume xs: "0x20 \<notin> set xs"
  have "dropWhile (\<lambda>b. b = 0x20) (replicate n 0x20 @ rev xs) = dropWhile (\<lambda>b. b = 0x20) (rev xs)" by (induction n) simp_all
  also have "\<dots> = rev xs" using xs by (simp add: dropWhile_eq_self_iff) (metis hd_in_set rev_is_Nil_conv set_rev)
  finally show ?thesis by (simp add: fat12_trim_def)
qed

subsection \<open>The loop over the name\<close>

lemma put_at_Cons: "b < length out \<Longrightarrow> put_at (b + 1) xs (out[b := x]) = put_at b (x # xs) out"
  by (simp add: put_at_def take_update_cancel take_Suc_conv_app_nth drop_update_cancel)

lemma put_at_Nil: "put_at b [] out = out"
  by (simp add: put_at_def)

lemma file_name_ext:
  assumes "file_name_loop cs b e True out = Inr r" "length out = 11" "e \<le> 3"
  shows "e + length cs \<le> 3 \<and> b \<noteq> 0 \<and> r = put_at (8 + e) (up83 cs) out"
  using assms
proof (induction cs arbitrary: e out)
  case Nil
  then show ?case by (auto simp: up83_def put_at_Nil split: if_splits)
next
  case (Cons c cs)
  then have c: "e < 3" "file_name_loop cs b (e + 1) True (out[8 + e := byte_of (fat12_upper c)]) = Inr r" by (auto split: if_splits)
  then show ?case
    using Cons.IH [OF c(2)] Cons.prems(2) put_at_Cons [of "8 + e" out "up83 cs" "byte_of (fat12_upper c)"] by (simp add: up83_def)
qed

lemma file_name_base:
  assumes "file_name_loop cs b 0 False out = Inr r" "length out = 11" "b \<le> 8"
  shows "\<exists>base ext. b + length base \<le> 8 \<and> length ext \<le> 3 \<and>
    (cs = base \<and> ext = [] \<or> cs = base @ CHR ''.'' # ext \<and> ext \<noteq> []) \<and> r = put_at 8 (up83 ext) (put_at b (up83 base) out)"
  using assms
proof (induction cs arbitrary: b out)
  case Nil
  then show ?case by (intro exI [of _ "[]"]) (auto simp: up83_def put_at_Nil split: if_splits)
next
  case (Cons c cs)
  show ?case
  proof (cases "c = CHR ''.''")
    case True
    then have "file_name_loop cs b 0 True out = Inr r" "cs \<noteq> []" using Cons.prems(1) by (auto split: if_splits)
    then show ?thesis using file_name_ext [of cs b 0 out r] Cons.prems(2,3) True
      by (intro exI [of _ "[]"] exI [of _ cs]) (simp add: up83_def [of "[]"] put_at_Nil)
  next
    case False
    then have c: "b < 8" "file_name_loop cs (b + 1) 0 False (out[b := byte_of (fat12_upper c)]) = Inr r"
      using Cons.prems(1) by (auto split: if_splits)
    then obtain base ext where i: "b + 1 + length base \<le> 8" "length ext \<le> 3"
      "cs = base \<and> ext = [] \<or> cs = base @ CHR ''.'' # ext \<and> ext \<noteq> []"
      "r = put_at 8 (up83 ext) (put_at (b + 1) (up83 base) (out[b := byte_of (fat12_upper c)]))"
      using Cons.IH [OF c(2)] Cons.prems(2) by auto
    have "put_at (b + 1) (up83 base) (out[b := byte_of (fat12_upper c)]) = put_at b (up83 (c # base)) out"
      using put_at_Cons [of b out "up83 base" "byte_of (fat12_upper c)"] c(1) Cons.prems(2) by (simp add: up83_def)
    then show ?thesis using i by (intro exI [of _ "c # base"] exI [of _ ext]) auto
  qed
qed

lemma make_83_parts:
  assumes "fat12_make_83_file_name name = Inr r"
  shows "\<exists>base ext. length base \<le> 8 \<and> length ext \<le> 3 \<and> (name = base \<and> ext = [] \<or> name = base @ CHR ''.'' # ext \<and> ext \<noteq> []) \<and>
    r = (up83 base @ replicate (8 - length base) 0x20) @ (up83 ext @ replicate (3 - length ext) 0x20)"
proof -
  have "file_name_loop name 0 0 False (replicate 11 0x20) = Inr r" using assms by (simp add: fat12_make_83_file_name_def split: if_splits)
  then obtain base ext where p: "length base \<le> 8" "length ext \<le> 3"
    "name = base \<and> ext = [] \<or> name = base @ CHR ''.'' # ext \<and> ext \<noteq> []"
    "r = put_at 8 (up83 ext) (put_at 0 (up83 base) (replicate 11 0x20))"
    using file_name_base [of name 0 "replicate 11 0x20" r] by auto
  have "put_at 0 (up83 base) (replicate 11 0x20) = (up83 base @ replicate (8 - length base) 0x20) @ replicate 3 0x20"
    using p(1) by (simp add: put_at_def up83_def replicate_add [symmetric])
  then have "r = (up83 base @ replicate (8 - length base) 0x20) @ (up83 ext @ replicate (3 - length ext) 0x20)"
    using p(1,2,4) by (simp add: put_at_def up83_def)
  then show ?thesis using p(1-3) by blast
qed

lemma prefix_loop_lower: "fat12_prefix_loop (map fat12_lower name) name"
  by (induction name) (simp_all add: fat12_lower_idem)

lemma copy_83_name_make:
  assumes "fat12_make_83_file_name name = Inr r" "CHR '' '' \<notin> set name" "CHR 0x00 \<notin> set name"
  shows "fat12_copy_83_name (r @ rest) = map fat12_lower name"
proof -
  obtain base ext where p: "length base \<le> 8" "length ext \<le> 3" "name = base \<and> ext = [] \<or> name = base @ CHR ''.'' # ext \<and> ext \<noteq> []"
    "r = (up83 base @ replicate (8 - length base) 0x20) @ (up83 ext @ replicate (3 - length ext) 0x20)"
    using make_83_parts [OF assms(1)] by blast
  have sp: "0x20 \<notin> set (up83 base)" "0x20 \<notin> set (up83 ext)" using assms(2) p(3) by (auto intro!: up83_space)
  have "take 8 (r @ rest) = up83 base @ replicate (8 - length base) 0x20" "take 3 (drop 8 (r @ rest)) = up83 ext @ replicate (3 - length ext) 0x20"
    using p(1,2,4) by (simp_all add: up83_def)
  then have "fat12_trim (take 8 (r @ rest)) = up83 base" "fat12_trim (take 3 (drop 8 (r @ rest))) = up83 ext"
    using sp trim_padded by simp_all
  moreover have "up83 ext = [] \<longleftrightarrow> ext = []" by (simp add: up83_def)
  moreover have "fat12_lower (CHR ''.'') = CHR ''.''" by (simp add: fat12_lower_def)
  ultimately have "fat12_copy_83_name (r @ rest) = takeWhile (\<lambda>c. c \<noteq> CHR 0x00) (map fat12_lower name)"
    using p(1-3) unfolding fat12_copy_83_name_def Let_def by (intro arg_cong [where f = "takeWhile _"]) (auto simp: up83_low length_up83)
  also have "\<dots> = map fat12_lower name" using assms(3) fat12_lower_nul by (subst takeWhile_eq_all_conv) auto
  finally show ?thesis .
qed

text \<open>
  C40: The entry written for a file shows its name: when a C string without spaces has an 8.3 form, the
  directory entry that starts with these eleven bytes is displayed as the name in lower case, and looking
  up the name, in any case of its letters, accepts the entry.
\<close>

theorem fat12_name_roundtrip:
  assumes "fat12_make_83_file_name name = Inr r" "CHR '' '' \<notin> set name" "CHR 0x00 \<notin> set name"
    "map fat12_lower wanted = map fat12_lower name"
  shows "fat12_copy_display_name (r @ rest) None = map fat12_lower name \<and> fat12_name_eq (fat12_copy_display_name (r @ rest) None) wanted"
proof -
  have "fat12_copy_display_name (r @ rest) None = map fat12_lower wanted"
    using copy_83_name_make [OF assms(1-3)] assms(4) by (simp add: fat12_copy_display_name_def)
  then show ?thesis using assms(4) prefix_loop_lower [of wanted] by (simp add: fat12_name_eq_def)
qed

theorem fat12_name_roundtrip_witness:
  "fat12_copy_display_name ((map byte_of ''README  TXT'') @ replicate 21 0) None = ''readme.txt'' \<and>
   fat12_name_eq (fat12_copy_display_name ((map byte_of ''README  TXT'') @ replicate 21 0) None) ''ReadMe.txt''"
proof -
  have "fat12_make_83_file_name ''Readme.txt'' = Inr (map byte_of ''README  TXT'')" by code_simp
  moreover have "CHR '' '' \<notin> set ''Readme.txt''" "CHR 0x00 \<notin> set ''Readme.txt''" by simp_all
  moreover have "map fat12_lower ''ReadMe.txt'' = map fat12_lower ''Readme.txt''" by code_simp
  ultimately have "fat12_copy_display_name (map byte_of ''README  TXT'' @ replicate 21 0) None = map fat12_lower ''Readme.txt'' \<and>
      fat12_name_eq (fat12_copy_display_name (map byte_of ''README  TXT'' @ replicate 21 0) None) ''ReadMe.txt''"
    by (rule fat12_name_roundtrip)
  moreover have "map fat12_lower ''Readme.txt'' = ''readme.txt''" by code_simp
  ultimately show ?thesis by metis
qed

end
