(* ===== verification/Fat12_Driver.thy ===== *)
theory Fat12_Driver
  imports Fat12_Files Fat12_Names
begin

text \<open>
  The driver as a whole: a read returns on every table, also on one with a cycle, and the paths in the
  state fit their buffers after any sequence of calls.
\<close>

subsection \<open>Reads return\<close>

definition full_sectors :: "'d fat12 \<Rightarrow> bool" where
  "full_sectors s \<longleftrightarrow> (\<forall>lba bs. vol_rd s lba = Inr bs \<longrightarrow> length bs = 512)"

lemma read_sectors_start: "read_sectors s lbas 0 n = Inr (off, bs) \<Longrightarrow> off = 0"
  by (induction lbas arbitrary: n bs) (auto simp: r_bind_Inr Let_def split: if_splits)

text \<open>A read in the middle of a cluster copies at least one byte of it.\<close>

lemma read_sectors_progress:
  assumes "full_sectors s" "off = 0 \<or> off < 512 * length lbas" "0 < n" "lbas \<noteq> []"
  shows "(\<exists>e. read_sectors s lbas off n = Inl e) \<or> (\<exists>bs. read_sectors s lbas off n = Inr (0, bs) \<and> bs \<noteq> [])"
  using assms(2,4)
proof (induction lbas arbitrary: off)
  case (Cons lba lbas)
  show ?case
  proof (cases "512 \<le> off")
    case True
    then have "off - 512 < 512 * length lbas" "lbas \<noteq> []" using Cons.prems(1) by auto
    then show ?thesis using Cons.IH [of "off - 512"] True assms(3) by simp
  next
    case False
    show ?thesis
    proof (cases "vol_rd s lba")
      case (Inr sector)
      then have "length sector = 512" using assms(1) by (simp add: full_sectors_def)
      then have "take (min (512 - off) n) (drop off sector) \<noteq> []" using False assms(3) by simp
      then show ?thesis using False Inr assms(3)
        by (cases "read_sectors s lbas 0 (n - min (512 - off) n)") (auto simp: Let_def dest: read_sectors_start)
    qed (use False assms(3) in simp)
  qed
qed simp

lemma read_clusters_returns:
  assumes "full_sectors s" "sectors_per_cluster (g_fat12 s) \<noteq> 0"
  shows "off < 512 * unat (sectors_per_cluster (g_fat12 s)) \<Longrightarrow> \<exists>r. read_clusters s cluster off n = Some r"
proof (induction n arbitrary: cluster off rule: less_induct)
  case (less n)
  have l: "length (vol_lbas s cluster) = unat (sectors_per_cluster (g_fat12 s))" by (simp add: vol_lbas_def)
  have pos: "0 < unat (sectors_per_cluster (g_fat12 s))" using assms(2) by (simp add: unat_gt_0)
  show ?case
  proof (cases "n = 0 \<or> cluster < 2 \<or> 0xFF8 \<le> cluster")
    case True
    then show ?thesis by (subst read_clusters.simps) auto
  next
    case False
    then have "vol_lbas s cluster \<noteq> []" "0 < n" using l pos by auto
    then consider e where "read_sectors s (vol_lbas s cluster) off n = Inl e"
      | bs where "read_sectors s (vol_lbas s cluster) off n = Inr (0, bs)" "bs \<noteq> []"
      using read_sectors_progress [OF assms(1), of off "vol_lbas s cluster" n] less.prems l by auto
    then show ?thesis
    proof cases
      case 1
      then show ?thesis using False by (subst read_clusters.simps) simp
    next
      case 2
      then have "n - length bs < n" using \<open>0 < n\<close> by simp
      then obtain r where "read_clusters s (fat12_get_next_cluster cluster s) 0 (n - length bs) = Some r" using less.IH pos by force
      then show ?thesis using 2 False by (subst read_clusters.simps) simp
    qed
  qed
qed

lemma fat12_read_total:
  assumes "full_sectors s" "sectors_per_cluster (g_fat12 s) \<noteq> 0"
  shows "\<exists>r. fat12_read node_id offset cap s = Some r"
proof -
  have "0 < unat (sectors_per_cluster (g_fat12 s)) * 512" using assms(2) by (simp add: unat_gt_0)
  then have "unat offset mod (unat (sectors_per_cluster (g_fat12 s)) * 512) < 512 * unat (sectors_per_cluster (g_fat12 s))"
    using mod_less_divisor by (metis mult.commute)
  then show ?thesis using read_clusters_returns [OF assms] by (auto simp: fat12_read_def Let_def split: sum.split)
qed

lemma floppy_full_sectors:
  assumes "floppy_ok V info (fat12_disk s)" "g_fat12_dev s = boot_dev info"
  shows "full_sectors s"
  unfolding full_sectors_def
proof (intro allI impI)
  fix lba bs assume rd: "vol_rd s lba = Inr bs"
  show "length bs = 512"
  proof (cases "unat lba < 2880")
    case True
    then show ?thesis
      using rd boot_floppy.read_sec [OF assms(1) True] boot_floppy.sec_length [OF assms(1) True] assms(2) by (simp add: vol_rd_def)
  next
    case False
    then have "FLOPPY_SECTORS \<le> lba" by (simp add: word_le_nat_alt)
    then show ?thesis using rd assms(2) by (simp add: vol_rd_def block_core_read_def boot_floppy_device_def)
  qed
qed

text \<open>
  C38: A read from an open file on the boot floppy returns, whatever the allocation table holds: also when
  the chain of the file runs in a circle or leaves the medium.
\<close>

theorem fat12_read_returns:
  assumes "floppy_ok V info (fat12_disk s)" "g_fat12_dev s = boot_dev info" "sectors_per_cluster (g_fat12 s) \<noteq> 0"
  shows "\<exists>r. fat12_read node_id offset cap s = Some r"
  by (rule fat12_read_total [OF floppy_full_sectors [OF assms(1,2)] assms(3)])

text \<open>A volume where cluster 2 follows itself.\<close>

definition circle_volume :: "(nat \<Rightarrow> u8 list) floppy fat12" where
  "circle_volume = read_volume\<lparr>fat12_disk := snd (fat12_dev_set_fat_entry (boot_dev demo_info) demo_bpb 2 2 blank_floppy)\<rparr>"

theorem fat12_read_returns_witness:
  "\<exists>r. fat12_read 1 0 600 circle_volume = Some r"
proof -
  have "floppy_ok medium_view demo_info (fat12_disk circle_volume)"
    using boot_floppy.set_fat_entry_spec [OF blank_floppy_ok demo_table(1,2), of 2] by (auto simp: circle_volume_def)
  then show ?thesis
    by (rule fat12_read_returns) (simp_all add: circle_volume_def read_volume_def demo_bpb_def)
qed

subsection \<open>Paths in the state\<close>

text \<open>The working directory and the paths of open files fit their buffers; a slot that is not in use has no path.\<close>

definition fat12_wf :: "'d fat12 \<Rightarrow> bool" where
  "fat12_wf s \<longleftrightarrow>
     length (g_fat12_cwd s) < FS_PATH_CAP \<and> (g_fat12_cwd s = [] \<or> hd (g_fat12_cwd s) = CHR ''/'') \<and>
     (\<forall>i < FAT12_OPEN_FILE_CAP. length (of_path (g_fat12_open_files s i)) < FS_PATH_CAP \<and>
        (\<not> of_used (g_fat12_open_files s i) \<longrightarrow> of_path (g_fat12_open_files s i) = []))"

definition keeps :: "('d fat12 \<Rightarrow> bool) \<Rightarrow> ('r \<times> 'd fat12) option \<Rightarrow> bool" where
  "keeps P r \<longleftrightarrow> (\<forall>x t. r = Some (x, t) \<longrightarrow> P t)"

named_theorems keep_intros \<open>rules for the states that a call can leave\<close>

lemma keeps_Some [keep_intros]: "P t \<Longrightarrow> keeps P (Some (x, t))"
  by (simp add: keeps_def)

lemma keeps_pair [keep_intros]: "P (snd p) \<Longrightarrow> keeps P (Some p)"
  by (cases p) (simp add: keeps_def)

lemma keeps_os_bind [keep_intros]: "keeps P r \<Longrightarrow> (\<And>y t. P t \<Longrightarrow> keeps P (f y t)) \<Longrightarrow> keeps P (os_bind r f)"
  by (cases r) (auto simp: keeps_def os_bind_def split: sum.splits)

lemma keeps_ro_bind [keep_intros]: "P s \<Longrightarrow> (\<And>y. keeps P (f y)) \<Longrightarrow> keeps P (ro_bind r s f)"
  by (cases r) (auto simp: keeps_def ro_bind_def split: sum.splits)

lemma keeps_bind [keep_intros]: "(\<And>y. keeps P (f y)) \<Longrightarrow> keeps P (Option.bind r f)"
  by (cases r) (auto simp: keeps_def)

lemma keeps_if [keep_intros]: "(c \<Longrightarrow> keeps P a) \<Longrightarrow> (\<not> c \<Longrightarrow> keeps P b) \<Longrightarrow> keeps P (if c then a else b)"
  by simp

lemma keeps_case_prod [keep_intros]: "(\<And>x y. keeps P (f x y)) \<Longrightarrow> keeps P (case p of (x, y) \<Rightarrow> f x y)"
  by (cases p) simp

lemma keeps_case_prod_app [keep_intros]: "(\<And>x y. keeps P (f x y t)) \<Longrightarrow> keeps P ((case p of (x, y) \<Rightarrow> f x y) t)"
  by (cases p) simp

lemma keeps_map [keep_intros]: "P s \<Longrightarrow> keeps P (map_option (\<lambda>r. (r, s)) q)"
  by (cases q) (simp_all add: keeps_def)

lemma wf_disk [simp]: "fat12_wf (s\<lparr>fat12_disk := d\<rparr>) = fat12_wf s"
  by (simp add: fat12_wf_def)

lemma keeps_with_disk [keep_intros]: "fat12_wf s \<Longrightarrow> keeps fat12_wf (with_disk s r)"
  by (cases r) (auto simp: keeps_def with_disk_def)

lemma wf_set_file [keep_intros]:
  "fat12_wf s \<Longrightarrow> length (of_path f) < FS_PATH_CAP \<Longrightarrow> (\<not> of_used f \<longrightarrow> of_path f = []) \<Longrightarrow> fat12_wf (set_file i f s)"
  by (simp add: fat12_wf_def set_file_def)

lemma copy_string_length: "length (fat12_copy_string FS_PATH_CAP x) < FS_PATH_CAP"
  by (simp add: fat12_copy_string_def)

lemma fat_norm_absolute:
  assumes "temp = [] \<or> hd temp = CHR ''/''"
  shows "fat_norm_step c temp = [] \<or> hd (fat_norm_step c temp) = CHR ''/''"
proof -
  have "fat_append temp x = [] \<or> hd (fat_append temp x) = CHR ''/''" for x
    using assms by (cases temp) (auto simp: fat_append_def Let_def)
  moreover have "fat_cut temp = [] \<or> hd (fat_cut temp) = CHR ''/''"
    using assms by (cases temp) (auto simp: fat_cut_def Let_def take_Cons')
  ultimately show ?thesis using assms by (simp add: fat_norm_step_def Let_def)
qed

lemma fat12_normalize_absolute:
  assumes "g_fat12_cwd s = [] \<or> hd (g_fat12_cwd s) = CHR ''/''"
  shows "hd (fat12_copy_string FS_PATH_CAP (fat12_normalize_path path s)) = CHR ''/''"
proof -
  have fold: "fold fat_norm_step cs temp = [] \<or> hd (fold fat_norm_step cs temp) = CHR ''/''"
    if "temp = [] \<or> hd temp = CHR ''/''" for cs temp
    using that by (induction cs arbitrary: temp) (simp_all add: fat_norm_absolute)
  have "(if path \<noteq> [] \<and> hd path = CHR ''/'' then [] else fat12_copy_string FS_PATH_CAP (g_fat12_cwd s)) = [] \<or>
      hd (if path \<noteq> [] \<and> hd path = CHR ''/'' then [] else fat12_copy_string FS_PATH_CAP (g_fat12_cwd s)) = CHR ''/''"
    using assms by (auto simp: fat12_copy_string_def)
  from fold [OF this, of "path_comps path"] show ?thesis by (auto simp: fat12_normalize_path_def Let_def fat12_copy_string_def)
qed

lemma wf_mount: "fat12_wf s \<Longrightarrow> fat12_wf (snd (fat12_core_mount dev s))"
  by (auto simp: fat12_core_mount_def fat12_wf_def closed_file_def Let_def split: sum.split prod.split)

lemma wf_change_dir: "fat12_wf s \<Longrightarrow> keeps fat12_wf (fat12_change_dir path s)"
proof -
  assume wf: "fat12_wf s"
  have "fat12_wf (s\<lparr>g_fat12_cwd_cluster := c, g_fat12_cwd := fat12_copy_string FS_PATH_CAP (fat12_normalize_path path s)\<rparr>)" for c
    using wf copy_string_length fat12_normalize_absolute [of s path] by (auto simp: fat12_wf_def)
  then show ?thesis unfolding fat12_change_dir_def using wf by (intro keep_intros) auto
qed

lemma wf_make_dir: "fat12_wf s \<Longrightarrow> keeps fat12_wf (fat12_make_dir path s)"
  unfolding fat12_make_dir_def by (intro keep_intros)

lemma wf_take_slot: "fat12_wf s \<Longrightarrow> fat12_wf (snd (fat12_take_slot path flags cluster sz s))"
  using wf_set_file [of s] copy_string_length by (auto simp: fat12_take_slot_def split: option.split)

lemma wf_open: "fat12_wf s \<Longrightarrow> keeps fat12_wf (fat12_open path flags s)"
  unfolding fat12_open_def by (intro keep_intros wf_take_slot) assumption+

lemma wf_file: "fat12_wf s \<Longrightarrow> fat12_file node_id s = Inr f \<Longrightarrow> of_used f \<and> length (of_path f) < FS_PATH_CAP"
proof -
  assume wf: "fat12_wf s" and f: "fat12_file node_id s = Inr f"
  then have "node_id \<noteq> 0" "node_id \<le> 16" "f = g_fat12_open_files s (unat node_id - 1)" "of_used f"
    by (auto simp: fat12_file_def Let_def split: if_splits)
  moreover have "unat node_id - 1 < 16" using calculation(1,2) by (simp add: word_le_nat_alt unat_gt_0 [symmetric])
  ultimately show ?thesis using wf by (simp add: fat12_wf_def)
qed

lemma wf_write:
  assumes wf: "fat12_wf s"
  shows "keeps fat12_wf (fat12_write node_id offset buffer s)"
proof (cases "fat12_file node_id s")
  case (Inl e)
  then show ?thesis using wf by (simp add: fat12_write_def keeps_def)
next
  case (Inr f)
  note f = wf_file [OF wf Inr]
  show ?thesis unfolding fat12_write_def Inr sum.case Let_def using wf f by (intro keep_intros) auto
qed

lemma wf_close: "fat12_wf s \<Longrightarrow> fat12_wf (snd (fat12_close node_id s))"
  using wf_set_file [of s closed_file] by (simp add: fat12_close_def closed_file_def)

lemma wf_unlink: "fat12_wf s \<Longrightarrow> keeps fat12_wf (fat12_unlink path s)"
  unfolding fat12_unlink_def by (intro keep_intros) (auto simp: fat12_wf_def Let_def)

lemma wf_rmdir: "fat12_wf s \<Longrightarrow> keeps fat12_wf (fat12_rmdir path s)"
  unfolding fat12_rmdir_def Let_def by (intro keep_intros)

text \<open>The calls that change the state of the driver.\<close>

inductive fat12_step :: "'d fat12 \<Rightarrow> 'd fat12 \<Rightarrow> bool" where
  mount: "fat12_core_mount dev s = (r, t) \<Longrightarrow> fat12_step s t"
| change_dir: "fat12_change_dir path s = Some (r, t) \<Longrightarrow> fat12_step s t"
| make_dir: "fat12_make_dir path s = Some (r, t) \<Longrightarrow> fat12_step s t"
| open_file: "fat12_open path flags s = Some (r1, t) \<Longrightarrow> fat12_step s t"
| write_file: "fat12_write node_id offset buffer s = Some (r1, t) \<Longrightarrow> fat12_step s t"
| close_file: "fat12_close node_id s = (r, t) \<Longrightarrow> fat12_step s t"
| unlink: "fat12_unlink path s = Some (r, t) \<Longrightarrow> fat12_step s t"
| rmdir: "fat12_rmdir path s = Some (r, t) \<Longrightarrow> fat12_step s t"

definition fat12_reset :: "'d \<Rightarrow> 'd fat12" where
  "fat12_reset d = \<lparr>g_fat12_dev = None, g_fat12 = zero_bpb, g_fat12_cwd = [], g_fat12_cwd_cluster = 0,
     g_fat12_open_files = (\<lambda>_. closed_file), fat12_disk = d\<rparr>"

lemma keepsD: "keeps P r \<Longrightarrow> r = Some (x, t) \<Longrightarrow> P t"
  by (simp add: keeps_def)

lemma wf_step:
  assumes "fat12_step s t" "fat12_wf s"
  shows "fat12_wf t"
  using assms(1)
proof cases
  case (mount dev r)
  then show ?thesis using wf_mount [OF assms(2), of dev] by simp
next
  case (close_file node_id r)
  then show ?thesis using wf_close [OF assms(2), of node_id] by simp
next
  case change_dir
  then show ?thesis by (rule keepsD [OF wf_change_dir [OF assms(2)]])
next
  case make_dir
  then show ?thesis by (rule keepsD [OF wf_make_dir [OF assms(2)]])
next
  case open_file
  then show ?thesis by (rule keepsD [OF wf_open [OF assms(2)]])
next
  case write_file
  then show ?thesis by (rule keepsD [OF wf_write [OF assms(2)]])
next
  case unlink
  then show ?thesis by (rule keepsD [OF wf_unlink [OF assms(2)]])
next
  case rmdir
  then show ?thesis by (rule keepsD [OF wf_rmdir [OF assms(2)]])
qed

text \<open>
  C39: After any sequence of calls to the driver, from its zeroed state, the working directory is empty or
  absolute and fits its buffer, the path of every open file fits its buffer, and a slot that is not in use has no path.
\<close>

theorem fat12_state_typed:
  assumes "fat12_step\<^sup>*\<^sup>* (fat12_reset d) s"
  shows "fat12_wf s"
  using assms
proof (induction rule: rtranclp_induct)
  case base
  then show ?case by (simp add: fat12_reset_def fat12_wf_def closed_file_def)
next
  case (step s t)
  then show ?case using wf_step by blast
qed

theorem fat12_state_typed_witness:
  "fat12_wf (snd (fat12_core_mount (boot_dev demo_info) (fat12_reset formatted_floppy)))"
proof (rule fat12_state_typed)
  have "fat12_step (fat12_reset formatted_floppy) (snd (fat12_core_mount (boot_dev demo_info) (fat12_reset formatted_floppy)))"
    by (rule fat12_step.mount [where dev = "boot_dev demo_info"]) (rule surjective_pairing)
  then show "fat12_step\<^sup>*\<^sup>* (fat12_reset formatted_floppy) (snd (fat12_core_mount (boot_dev demo_info) (fat12_reset formatted_floppy)))" by blast
qed

end
