(* ===== verification/Spec2Isabelle.thy ===== *)
theory Spec2Isabelle
  imports Mm_Alloc Ps2_Keyboard Console Ramfs_Cwd Fd_Calls Posix Mm_Boot Machine_Run Fat12_Driver
begin

text \<open>
  A model of the kernel of System1, a small operating system for the PC, and the theorems that make its parts
  correct. The sources are under \<open>src/src/kernel\<close>; the i386 build is modelled.

  \<^bold>\<open>The program.\<close> The boot loader enters the kernel with a description of memory and of the boot medium. The kernel
  builds the map of free pages and the kernel heap (\<open>core/mm\<close>), the page tables (\<open>arch/x86/paging_x86.c\<close>) and the
  segment descriptors for user mode, chooses a root file system (\<open>core/fs\<close>) and starts a shell from it. The console
  is a line editor (\<open>core/tty\<close>) between the PS/2 keyboard and the VGA text screen (\<open>drivers/pc\<close>). User programs are
  files in the SPRG format (\<open>core/sprg\<close>) that \<open>usermode_exec\<close> loads into one of two fixed memory slots; they call the
  kernel through \<open>syscall_core_dispatch\<close>, the POSIX layer, the descriptor tables (\<open>core/posix\<close>), the process table
  (\<open>core/process\<close>) and the file system layer, which dispatches to \<open>/dev\<close>, \<open>/proc\<close> and a driver: the RAM file system
  or, on a floppy, FAT12.

  \<^bold>\<open>Conventions.\<close> Machine integers are words of their width and wrap. C strings are lists of characters without
  the terminating NUL, a pointer that may be null is an option, an array in the state is a function on indices, output
  parameters are results. A call that can fail returns a sum with the error on the left; a call that may not return
  gives an option, with \<open>None\<close> for no return. User memory and the memory of the boot loader are functions on 32-bit
  addresses. Hardware, loadable drivers, assembly routines and addresses that the linker chooses are parameters. The
  definitions keep the names of the C functions; a loop of a function has a definition of its own next to it.

  \<^bold>\<open>Theories.\<close>
  \<^item> \<open>Sys_Prelude\<close>: types and lemmas on words, lists and maps that all parts share.
  \<^item> \<open>Mm_Pages\<close>, \<open>Mm_Heap\<close>, \<open>Mm_Alloc\<close> (\<open>mm_core.c\<close>): the page map with first-fit runs, the block list of the heap with
    split, merge and growth, and the contract \<open>allocator\<close> of \<open>kmalloc_core\<close> and \<open>kfree_core\<close>, which the heap meets:
    live blocks never overlap, over any sequence of calls with sizes up to \<open>0xFFFFFFF0\<close>; for the larger ones the
    arithmetic of the code wraps. \<open>Mm_Boot\<close>: the page map after \<open>mm_core_init\<close>, which leaves out usable regions that
    reach 4 GiB.
  \<^item> \<open>Paging\<close> (\<open>paging_x86.c\<close>): the tables and what the processor makes of them after any sequence of user ranges.
  \<^item> \<open>Ps2_Keyboard\<close> (\<open>ps2_core.c\<close>): decoder and ring buffer; the buffer meets the contract \<open>bounded_queue\<close>.
  \<^item> \<open>Line_Editor\<close>, \<open>Display_Core\<close>, \<open>Vga_Text\<close>, \<open>Tty_Line\<close>, \<open>Shell_History\<close>, \<open>Console\<close> (\<open>display_core.c\<close>, \<open>vga_text.c\<close>,
    \<open>vga_display.c\<close>, \<open>src/src/modules/pc/vga.c\<close>, \<open>tty_core.c\<close>, the history of \<open>shell_core.c\<close>): an abstract one-line
    editor that both the input buffer and the screen refine, the contracts \<open>text_display\<close> and \<open>tty_console\<close>, the ring of
    past lines as a list, that screen and buffer agree, and the sequence with the history where they do not.
  \<^item> \<open>Fs_Types\<close>, \<open>Path_Norm\<close>, \<open>Fs_Core\<close> (\<open>fs_core.c\<close>): the driver table, path normalisation against a list of names,
    links, and the calls that dispatch over an arbitrary driver.
  \<^item> \<open>Ramfs_Core\<close>, \<open>Ramfs_Inv\<close>, \<open>Ramfs_Ops\<close>, \<open>Ramfs_Files\<close>, \<open>Ramfs_Cwd\<close> (\<open>ramfs_core.c\<close>): the node and data pools with the
    invariant that every call keeps, the contract \<open>file_store\<close> of handles to byte strings, and the working directory.
  \<^item> \<open>Block_Dev\<close>, \<open>Floppy_Cache\<close> (\<open>block_core.c\<close>, \<open>floppy_controller_core.c\<close>, the devices of \<open>fs_core.c\<close>): sector access,
    and the contract \<open>disk\<close>, a device that stores what was written last, met by the boot floppy with its cache.
  \<^item> \<open>Fat12_Core\<close>, \<open>Fat12_Ops\<close> (\<open>fat12_core.c\<close>): the definitions of the FAT12 driver. \<open>Fat12_Names\<close>, \<open>Fat12_Table\<close>,
    \<open>Fat12_Data\<close>, \<open>Fat12_Files\<close>, \<open>Fat12_Driver\<close>: 8.3 names, the twelve-bit table, chains of clusters and their data,
    creating a file, and the calls as a step relation. The lemmas on sectors are proved once, for any \<open>disk\<close>.
  \<^item> \<open>Klog\<close>, \<open>Pseudo_Fs\<close> (\<open>klog_core.c\<close>, \<open>pseudo_core.c\<close>, \<open>devfs_core.c\<close>, \<open>procfs_core.c\<close>): the log and \<open>/dev\<close> and \<open>/proc\<close>.
  \<^item> \<open>Kernel_State\<close>, \<open>Fd_Core\<close>, \<open>Fd_Inv\<close>, \<open>Fd_Ops\<close>, \<open>Fd_Calls\<close>, \<open>Proc_Ops\<close> (\<open>fd_core.c\<close>, \<open>process_core.c\<close>): descriptors,
    open file descriptions and processes; every reference count is the number of descriptors that lead to it.
  \<^item> \<open>User_Mem\<close>, \<open>Posix\<close>, \<open>Syscall\<close> (\<open>posix.c\<close>, \<open>syscall_core.c\<close>): user memory, the POSIX calls and their dispatch.
  \<^item> \<open>Sprg\<close>, \<open>Sprg_Load\<close>, \<open>Boot_Kernel\<close>, \<open>Usermode\<close>, \<open>Usermode_Stack\<close>, \<open>Exec_Enter\<close> (\<open>sprg_core.c\<close>, \<open>usermode.c\<close>): the program
    loader, the initial stack, and exec from the file to the first instruction, with what user mode can reach then.
  \<^item> \<open>Machine\<close>, \<open>Machine_Run\<close>: user programs as sequences of stores that the processor allows and of confined system
    calls (\<open>confined_step\<close>), the invariant of all configurations they reach, and that a nested program leaves its
    caller as it was.

  \<^bold>\<open>Bounds.\<close> Loops over fixed arrays are recursions over their indices. Loops that C leaves open are partial functions
  with a separate proof that they return: the walk over the boot information, the wait of \<open>nanosleep\<close>, the walks along
  cluster chains. \<open>fat12_rmdir\<close> carries the bound of 4096 clusters that the code has. The boot floppy has 2880 sectors.
  The text buffer of the VGA driver has any length in the lemmas, and 512 bytes, as in the module that registers the
  driver, where the shell uses it; the strings of the shell are searched up to the 256 bytes of their arrays.

  \<^bold>\<open>Assumptions.\<close> The driver of the floppy controller stores a sector that it reports as written
  (\<open>controller_ok\<close>), and the cached areas do not overlap in memory. The statements on FAT12 concern volumes whose
  tables, root directory and data area follow each other on the medium (\<open>volume_fits\<close>). In the runs of \<open>Machine_Run\<close>
  the system calls write only to the slots of user programs: the kernel does not check the pointers it gets
  (\<open>getcwd_stores_anywhere\<close>), and nothing is said about a program that makes it write elsewhere; and fewer than
  \<open>2 ^ 32 - 2\<close> programs are started. The program files of \<open>Sprg_Load\<close> and \<open>Exec_Enter\<close> are on a file system whose stat,
  open, read and close leave the kernel as it was (\<open>file_at\<close>): the RAM file system does, FAT12 does not.

  \<^bold>\<open>Not modelled.\<close> The boot loader, the entry code and the interrupt stubs are assembly. The drivers for the interrupt
  controller, timer, clock, serial port and floppy controller only program ports; they are parameters. The module
  loader runs machine code that the sources do not contain. \<open>fs.c\<close>, \<open>platform.c\<close> and \<open>input.c\<close> forward calls. The ISO 9660
  driver is a second, read-only driver behind the table that \<open>Fs_Core\<close> takes as a parameter. The \<open>_in_image\<close> calls of
  \<open>fat12_core.c\<close> have no caller. The commands of the kernel shell and the userland programs are clients of the modelled calls. The
  choice of the boot medium in \<open>fs_core.c\<close> and the x86-64 variant of paging are left out.
\<close>

end
